(* ===== verification/Prelude.thy ===== *)
theory Prelude
  imports Main "HOL-Library.Word"
begin

text \<open>
  Shared vocabulary of the development: Rust's \<open>Result\<close> as a sum with its \<open>?\<close> operator,
  the few table operations every SQL statement of the code is built from (select, update
  with a where clause, delete, count), decimal numbers as \<open>format!\<close> prints them, and the
  generic lemmas the components rest on.
\<close>

named_theorems table_simps \<open>rewriting of select, update, delete and count on tables\<close>
named_theorems result_simps \<open>rewriting and inversion of results\<close>

section \<open>Results\<close>

type_synonym ('e, 'a) result = "'e + 'a"

text \<open>The \<open>?\<close> operator: go on with the value, or return the error.\<close>

definition and_then :: "('e, 'a) result \<Rightarrow> ('a \<Rightarrow> ('e, 'b) result) \<Rightarrow> ('e, 'b) result" where
  "and_then r f = (case r of Inl e \<Rightarrow> Inl e | Inr x \<Rightarrow> f x)"

text \<open>An early return: \<open>if !guard { return Err(e) }\<close>.\<close>

definition ensure :: "bool \<Rightarrow> 'e \<Rightarrow> ('e, 'b) result \<Rightarrow> ('e, 'b) result" where
  "ensure b e r = (if b then r else Inl e)"

definition is_ok :: "('e, 'a) result \<Rightarrow> bool" where
  "is_ok r = (case r of Inl _ \<Rightarrow> False | Inr _ \<Rightarrow> True)"

lemma and_then_Inl [simp]: "and_then (Inl e) f = Inl e"
  by (simp add: and_then_def)

lemma and_then_Inr [simp]: "and_then (Inr x) f = f x"
  by (simp add: and_then_def)

lemma and_then_eq_Inr [result_simps]:
  "and_then r f = Inr y \<longleftrightarrow> (\<exists>x. r = Inr x \<and> f x = Inr y)"
  by (cases r) simp_all

lemma and_then_eq_Inl [result_simps]:
  "and_then r f = Inl e \<longleftrightarrow> r = Inl e \<or> (\<exists>x. r = Inr x \<and> f x = Inl e)"
  by (cases r) simp_all

lemma ensure_eq_Inr [result_simps]: "ensure b e r = Inr y \<longleftrightarrow> b \<and> r = Inr y"
  by (simp add: ensure_def)

lemma ensure_eq_Inl [result_simps]:
  "ensure b e r = Inl e' \<longleftrightarrow> (\<not> b \<and> e = e') \<or> (b \<and> r = Inl e')"
  by (auto simp: ensure_def)

lemma ensure_simps [simp]: "ensure True e r = r" "ensure False e r = Inl e"
  by (simp_all add: ensure_def)

lemma is_ok_simps [simp]: "is_ok (Inr x)" "\<not> is_ok (Inl e)"
  by (simp_all add: is_ok_def)

lemma is_ok_iff: "is_ok r \<longleftrightarrow> (\<exists>x. r = Inr x)"
  by (cases r) simp_all

section \<open>Tables\<close>

definition update_where :: "('r \<Rightarrow> bool) \<Rightarrow> ('r \<Rightarrow> 'r) \<Rightarrow> 'r list \<Rightarrow> 'r list" where
  "update_where P f rows = map (\<lambda>r. if P r then f r else r) rows"

definition delete_where :: "('r \<Rightarrow> bool) \<Rightarrow> 'r list \<Rightarrow> 'r list" where
  "delete_where P rows = filter (\<lambda>r. \<not> P r) rows"

definition count_where :: "('r \<Rightarrow> bool) \<Rightarrow> 'r list \<Rightarrow> nat" where
  "count_where P rows = length (filter P rows)"

definition exists_where :: "('r \<Rightarrow> bool) \<Rightarrow> 'r list \<Rightarrow> bool" where
  "exists_where P rows = list_ex P rows"

lemma update_where_Nil [simp]: "update_where P f [] = []"
  by (simp add: update_where_def)

lemma update_where_Cons [simp]:
  "update_where P f (r # rows) = (if P r then f r else r) # update_where P f rows"
  by (simp add: update_where_def)

lemma set_update_where [table_simps]:
  "set (update_where P f rows) = (\<lambda>r. if P r then f r else r) ` set rows"
  by (auto simp: update_where_def)

lemma bex_update_where:
  "(\<And>r. Q (f r) \<longleftrightarrow> Q r) \<Longrightarrow> (\<exists>r \<in> set (update_where P f rows). Q r) \<longleftrightarrow> (\<exists>r \<in> set rows. Q r)"
  by (induction rows) auto

lemma ball_update_where:
  "(\<And>r. Q (f r) \<longleftrightarrow> Q r) \<Longrightarrow> (\<forall>r \<in> set (update_where P f rows). Q r) \<longleftrightarrow> (\<forall>r \<in> set rows. Q r)"
  by (induction rows) auto

lemma bex_update_where_if:
  "(\<exists>r \<in> set (update_where P f rows). Q r) \<longleftrightarrow> (\<exists>r \<in> set rows. if P r then Q (f r) else Q r)"
  by (induction rows) auto

lemma ball_update_where_if:
  "(\<forall>r \<in> set (update_where P f rows). Q r) \<longleftrightarrow> (\<forall>r \<in> set rows. if P r then Q (f r) else Q r)"
  by (induction rows) auto

lemma bex_delete_where: "(\<exists>r \<in> set (delete_where P rows). Q r) \<longleftrightarrow> (\<exists>r \<in> set rows. \<not> P r \<and> Q r)"
  by (auto simp: delete_where_def)

lemma ball_delete_where: "(\<forall>r \<in> set (delete_where P rows). Q r) \<longleftrightarrow> (\<forall>r \<in> set rows. \<not> P r \<longrightarrow> Q r)"
  by (auto simp: delete_where_def)

lemma set_delete_where [table_simps]: "set (delete_where P rows) = {r \<in> set rows. \<not> P r}"
  by (auto simp: delete_where_def)

lemma exists_where_iff [table_simps]: "exists_where P rows \<longleftrightarrow> (\<exists>r \<in> set rows. P r)"
  by (auto simp: exists_where_def list_ex_iff)

lemma count_where_zero_iff [table_simps]: "count_where P rows = 0 \<longleftrightarrow> (\<forall>r \<in> set rows. \<not> P r)"
  by (auto simp: count_where_def filter_empty_conv)

lemma count_where_pos_iff [table_simps]: "0 < count_where P rows \<longleftrightarrow> (\<exists>r \<in> set rows. P r)"
  using count_where_zero_iff [of P rows] by auto

lemma count_where_Nil [simp]: "count_where P [] = 0"
  by (simp add: count_where_def)

lemma count_where_Cons [simp]:
  "count_where P (r # rows) = (if P r then Suc (count_where P rows) else count_where P rows)"
  by (simp add: count_where_def)

lemma count_where_append [simp]:
  "count_where P (xs @ ys) = count_where P xs + count_where P ys"
  by (simp add: count_where_def)

lemma count_where_map: "count_where P (map f xs) = count_where (\<lambda>x. P (f x)) xs"
  by (induction xs) simp_all

lemma count_where_le_length: "count_where P rows \<le> length rows"
  by (simp add: count_where_def)

lemma count_where_mono:
  "(\<And>r. r \<in> set rows \<Longrightarrow> P r \<Longrightarrow> Q r) \<Longrightarrow> count_where P rows \<le> count_where Q rows"
  by (induction rows) (auto simp: le_SucI)

lemma count_where_update_where:
  "count_where Q (update_where P f rows) = count_where (\<lambda>r. if P r then Q (f r) else Q r) rows"
  by (induction rows) (auto simp: update_where_def)

lemma count_where_update_same:
  "(\<And>r. Q (f r) \<longleftrightarrow> Q r) \<Longrightarrow> count_where Q (update_where P f rows) = count_where Q rows"
  by (induction rows) auto

lemma map_update_where_same:
  "(\<And>r. r \<in> set rows \<Longrightarrow> P r \<Longrightarrow> g (f r) = g r) \<Longrightarrow> map g (update_where P f rows) = map g rows"
  by (induction rows) auto

lemma update_where_id: "(\<And>r. r \<in> set rows \<Longrightarrow> \<not> P r) \<Longrightarrow> update_where P f rows = rows"
  by (induction rows) auto

lemma delete_where_id: "(\<And>r. r \<in> set rows \<Longrightarrow> \<not> P r) \<Longrightarrow> delete_where P rows = rows"
  by (simp add: delete_where_def)

lemma distinct_map_delete_where:
  "distinct (map g rows) \<Longrightarrow> distinct (map g (delete_where P rows))"
  by (simp add: delete_where_def distinct_map_filter)

lemma find_Some_set: "find P xs = Some x \<Longrightarrow> x \<in> set xs \<and> P x"
  by (metis find_Some_iff nth_mem)

lemma find_None_set: "find P xs = None \<longleftrightarrow> (\<forall>x \<in> set xs. \<not> P x)"
  by (auto simp: find_None_iff)

lemma find_append:
  "find P (xs @ ys) = (case find P xs of None \<Rightarrow> find P ys | Some x \<Rightarrow> Some x)"
  by (induction xs) auto

lemma distinct_map_unique:
  "distinct (map g rows) \<Longrightarrow> r \<in> set rows \<Longrightarrow> r' \<in> set rows \<Longrightarrow> g r = g r' \<Longrightarrow> r = r'"
  by (auto simp: distinct_map inj_on_def)

lemma find_by_key:
  assumes "distinct (map g rows)" and "r \<in> set rows"
  shows "find (\<lambda>x. g x = g r) rows = Some r"
  using assms by (induction rows) (auto simp: image_iff)

section \<open>Decimal numbers\<close>

definition digit_char :: "nat \<Rightarrow> char" where
  "digit_char d = char_of (48 + d)"

fun show_nat :: "nat \<Rightarrow> string" where
  "show_nat n = (if n < 10 then [digit_char n] else show_nat (n div 10) @ [digit_char (n mod 10)])"

declare show_nat.simps [simp del]

definition show_int :: "int \<Rightarrow> string" where
  "show_int i = (if i < 0 then CHR ''-'' # show_nat (nat (- i)) else show_nat (nat i))"

definition is_digit_char :: "char \<Rightarrow> bool" where
  "is_digit_char c = (48 \<le> (of_char c :: nat) \<and> (of_char c :: nat) \<le> 57)"

fun read_nat :: "nat \<Rightarrow> string \<Rightarrow> nat" where
  "read_nat acc [] = acc"
| "read_nat acc (c # cs) = read_nat (10 * acc + (of_char c - 48)) cs"

lemma of_char_digit_char [simp]: "d < 10 \<Longrightarrow> (of_char (digit_char d) :: nat) = 48 + d"
  by (simp add: digit_char_def)

lemma is_digit_digit_char [simp]: "d < 10 \<Longrightarrow> is_digit_char (digit_char d)"
  by (simp add: is_digit_char_def)

lemma show_nat_digit: "n < 10 \<Longrightarrow> show_nat n = [digit_char n]"
  by (subst show_nat.simps) simp

lemma show_nat_digits: "c \<in> set (show_nat n) \<Longrightarrow> is_digit_char c"
  by (induction n rule: show_nat.induct) (subst (asm) (2) show_nat.simps, auto split: if_splits)

lemma show_nat_not_Nil [simp]: "show_nat n \<noteq> []"
  by (subst show_nat.simps) simp

lemma read_nat_append: "read_nat acc (xs @ ys) = read_nat (read_nat acc xs) ys"
  by (induction xs arbitrary: acc) simp_all

lemma read_show_nat: "read_nat 0 (show_nat n) = n"
proof (induction n rule: show_nat.induct)
  case (1 n)
  show ?case
  proof (cases "n < 10")
    case True
    then show ?thesis by (subst show_nat.simps) simp
  next
    case False
    then show ?thesis
      using 1 by (subst show_nat.simps) (simp add: read_nat_append)
  qed
qed

lemma show_nat_inject [simp]: "show_nat m = show_nat n \<longleftrightarrow> m = n"
  by (metis read_show_nat)

text \<open>Two texts that agree up to a separator neither prefix contains agree on both sides.\<close>

lemma split_at_separator:
  assumes "xs @ c # ys = xs' @ c # ys'" and "c \<notin> set xs" and "c \<notin> set xs'"
  shows "xs = xs' \<and> ys = ys'"
  using assms
proof (induction xs arbitrary: xs')
  case Nil
  then show ?case by (cases xs') auto
next
  case (Cons x xs)
  then show ?case by (cases xs') auto
qed

lemma show_nat_no_colon [simp]: "CHR '':'' \<notin> set (show_nat n)"
  using show_nat_digits by (fastforce simp: is_digit_char_def)

text \<open>A digit of any base up to sixteen, in lower case.\<close>

definition hex_char :: "int \<Rightarrow> char" where
  "hex_char d = char_of (if d < 10 then 48 + d else 87 + d)"

section \<open>Letter case in ASCII\<close>

definition ascii_lower_char :: "char \<Rightarrow> char" where
  "ascii_lower_char c =
     (let n = (of_char c :: nat) in if 65 \<le> n \<and> n \<le> 90 then char_of (n + 32) else c)"

definition ascii_lower :: "string \<Rightarrow> string" where
  "ascii_lower s = map ascii_lower_char s"

definition eq_ignore_ascii_case :: "string \<Rightarrow> string \<Rightarrow> bool" where
  "eq_ignore_ascii_case s t \<longleftrightarrow> ascii_lower s = ascii_lower t"

section \<open>Invariants of transition systems\<close>

text \<open>
  The contract between the steps a component may take and a property they keep: whatever is
  reached from a state that has it has it.
\<close>

locale invariant_system =
  fixes step :: "'s \<Rightarrow> 's \<Rightarrow> bool"
    and inv :: "'s \<Rightarrow> bool"
  assumes step_inv: "step s s' \<Longrightarrow> inv s \<Longrightarrow> inv s'"
begin

lemma reachable_inv: "step\<^sup>*\<^sup>* s s' \<Longrightarrow> inv s \<Longrightarrow> inv s'"
  by (induction rule: rtranclp_induct) (auto intro: step_inv)

end

section \<open>What can be used once\<close>

text \<open>
  The contract of anything that is good for one use (an invite link, an authorization code, a
  recovery code, an approved call): a use that succeeds spends its key, a spent key is
  refused, and nothing that succeeds makes a key good again.
\<close>

fun run_uses :: "('a \<Rightarrow> 's \<Rightarrow> 's \<times> bool) \<Rightarrow> 's \<Rightarrow> 'a list \<Rightarrow> ('a \<times> bool) list" where
  "run_uses use s [] = []"
| "run_uses use s (a # as) = (let (s', ok) = use a s in (a, ok) # run_uses use s' as)"

locale one_shot =
  fixes use :: "'a \<Rightarrow> 's \<Rightarrow> 's \<times> bool"
    and key :: "'a \<Rightarrow> 'k"
    and spent :: "'k \<Rightarrow> 's \<Rightarrow> bool"
    and fit :: "'s \<Rightarrow> bool"
  assumes use_fit: "fit s \<Longrightarrow> fit (fst (use a s))"
    and use_spends: "fit s \<Longrightarrow> snd (use a s) \<Longrightarrow> spent (key a) (fst (use a s))"
    and spent_refuses: "fit s \<Longrightarrow> spent (key a) s \<Longrightarrow> \<not> snd (use a s)"
    and spent_stays: "fit s \<Longrightarrow> spent k s \<Longrightarrow> spent k (fst (use a s))"
begin

lemma spent_never_again:
  "fit s \<Longrightarrow> spent k s \<Longrightarrow> count_where (\<lambda>(a, ok). ok \<and> key a = k) (run_uses use s as) = 0"
proof (induction as arbitrary: s)
  case (Cons a as)
  then show ?case
    using spent_refuses [of s a] by (auto simp: case_prod_unfold Let_def intro: use_fit spent_stays)
qed simp

lemma at_most_once:
  "fit s \<Longrightarrow> count_where (\<lambda>(a, ok). ok \<and> key a = k) (run_uses use s as) \<le> 1"
proof (induction as arbitrary: s)
  case (Cons a as)
  show ?case
  proof (cases "snd (use a s) \<and> key a = k")
    case True
    then show ?thesis
      using spent_never_again [OF use_fit [OF Cons.prems] use_spends [OF Cons.prems], of a]
      by (simp add: case_prod_unfold Let_def)
  next
    case False
    then show ?thesis
      using Cons.IH [OF use_fit [OF Cons.prems, of a]] by (auto simp: case_prod_unfold Let_def)
  qed
qed simp

end

section \<open>Encodings\<close>

text \<open>The contract of a pair of an encoder and a decoder that may refuse.\<close>

locale codec =
  fixes encode :: "'a \<Rightarrow> 'b"
    and decode :: "'b \<Rightarrow> 'a option"
    and valid :: "'a \<Rightarrow> bool"
  assumes round_trip: "valid x \<Longrightarrow> decode (encode x) = Some x"
begin

lemma encode_inject: "valid x \<Longrightarrow> valid y \<Longrightarrow> encode x = encode y \<longleftrightarrow> x = y"
  using round_trip by (metis option.inject)

end

section \<open>Texts\<close>

fun join_with :: "string \<Rightarrow> string list \<Rightarrow> string" where
  "join_with sep [] = []"
| "join_with sep [x] = x"
| "join_with sep (x # y # xs) = x @ sep @ join_with sep (y # xs)"

text \<open>Bytes read as Latin-1 characters, in UTF-8.\<close>

definition latin1_char :: "char \<Rightarrow> string" where
  "latin1_char c =
     (let b = (of_char c :: nat) in if b < 0x80 then [c] else [char_of (0xC0 + b div 0x40), char_of (0x80 + b mod 0x40)])"

definition latin1 :: "string \<Rightarrow> string" where
  "latin1 value = concat (map latin1_char value)"

end
