(* ===== verification/Limiter.thy ===== *)
theory Limiter
  imports Prelude
begin

text \<open>
  \<open>crates/core/src/limiter.rs\<close>: fixed-window rate limits. A counter is a pair of points and
  the millisecond its window ends. The two stores of the code are modelled as they are: the
  \<open>rate_limits\<close> table as a list of rows with the key as primary key, the memory store as a
  map with the time of its last sweep. Every operation takes the clock reading \<open>now\<close> the code
  takes with \<open>now_ms\<close>. The contract both stores keep is the locale \<open>counter_store\<close>; what a
  limiter admits is proved from it once.
\<close>

section \<open>State\<close>

definition SWEEP_INTERVAL_MS :: int where
  "SWEEP_INTERVAL_MS = 5 * 60 * 1000"

record LimiterResponse =
  limit :: "32 word"
  consumed :: "32 word"
  remaining_points :: "32 word"
  available_in_secs :: int

datatype LimiterError = TooManyRequests LimiterResponse

record rate_limit_row =
  rl_key :: string
  rl_points :: int
  rl_expire :: int

record MemoryStore =
  counters :: "string \<rightharpoonup> int \<times> int"
  mem_swept_at :: int

datatype limiter_store = StoreDatabase "rate_limit_row list" | StoreMemory MemoryStore

record Limiter =
  store :: limiter_store
  requests :: "32 word"
  duration_ms :: nat
  swept_at :: int

definition limiter_database :: "rate_limit_row list \<Rightarrow> 32 word \<Rightarrow> nat \<Rightarrow> Limiter" where
  "limiter_database db n d =
     \<lparr>store = StoreDatabase db, requests = n, duration_ms = d, swept_at = 0\<rparr>"

definition limiter_memory :: "32 word \<Rightarrow> nat \<Rightarrow> Limiter" where
  "limiter_memory n d =
     \<lparr>store = StoreMemory \<lparr>counters = Map.empty, mem_swept_at = 0\<rparr>, requests = n,
      duration_ms = d, swept_at = 0\<rparr>"

definition storage_key :: "Limiter \<Rightarrow> string \<Rightarrow> string" where
  "storage_key l key =
     ''mymcps:'' @ show_nat (unat (requests l)) @ '':'' @ show_nat (duration_ms l div 1000) @
     '':'' @ key"

definition limiter_response :: "Limiter \<Rightarrow> int \<Rightarrow> int \<Rightarrow> int \<Rightarrow> LimiterResponse" where
  "limiter_response l points expire now =
     (let c = word_of_int (min (max points 0) (2 ^ 32 - 1)) in
      \<lparr>limit = requests l, consumed = c,
       remaining_points = (if c \<le> requests l then requests l - c else 0),
       available_in_secs = (max (expire - now) 0 + 999) div 1000\<rparr>)"

section \<open>The two stores\<close>

definition db_look :: "rate_limit_row list \<Rightarrow> string \<Rightarrow> int \<Rightarrow> (int \<times> int) option" where
  "db_look rows k now =
     map_option (\<lambda>r. (rl_points r, rl_expire r)) (find (\<lambda>r. rl_key r = k \<and> rl_expire r > now) rows)"

definition memory_look :: "MemoryStore \<Rightarrow> string \<Rightarrow> int \<Rightarrow> (int \<times> int) option" where
  "memory_look m k now =
     (case counters m k of None \<Rightarrow> None | Some (p, e) \<Rightarrow> if e > now then Some (p, e) else None)"

text \<open>The upsert: insert the row, or on conflict restart or advance its window.\<close>

definition db_upsert ::
  "rate_limit_row list \<Rightarrow> string \<Rightarrow> int \<Rightarrow> int \<Rightarrow> int \<Rightarrow> rate_limit_row list \<times> (int \<times> int)" where
  "db_upsert rows k points window_end now =
     (case find (\<lambda>r. rl_key r = k) rows of
        None \<Rightarrow>
          (rows @ [\<lparr>rl_key = k, rl_points = max points 0, rl_expire = window_end\<rparr>],
           (max points 0, window_end))
      | Some r \<Rightarrow>
          (let p = (if rl_expire r \<le> now then max points 0 else max (rl_points r + points) 0);
               e = (if rl_expire r \<le> now then window_end else rl_expire r) in
           (update_where (\<lambda>x. rl_key x = k) (\<lambda>x. x\<lparr>rl_points := p, rl_expire := e\<rparr>) rows, (p, e))))"

definition sweep_database :: "rate_limit_row list \<Rightarrow> int \<Rightarrow> int \<Rightarrow> rate_limit_row list \<times> int" where
  "sweep_database rows swept now =
     (if now - swept \<le> SWEEP_INTERVAL_MS then (rows, swept)
      else (delete_where (\<lambda>r. rl_expire r \<le> now) rows, now))"

definition memory_sweep :: "MemoryStore \<Rightarrow> int \<Rightarrow> MemoryStore" where
  "memory_sweep m now =
     (if now - mem_swept_at m > SWEEP_INTERVAL_MS
      then \<lparr>counters = (\<lambda>k. case counters m k of None \<Rightarrow> None
              | Some (p, e) \<Rightarrow> if e > now then Some (p, e) else None), mem_swept_at = now\<rparr>
      else m)"

definition memory_add :: "MemoryStore \<Rightarrow> string \<Rightarrow> int \<Rightarrow> int \<Rightarrow> int \<Rightarrow> MemoryStore \<times> (int \<times> int)" where
  "memory_add m k points window_end now =
     (let m1 = memory_sweep m now;
          entry = (case counters m1 k of None \<Rightarrow> (0, window_end) | Some e \<Rightarrow> e);
          entry = (if snd entry \<le> now then (0, window_end) else entry);
          entry = (max (fst entry + points) 0, snd entry) in
      (m1\<lparr>counters := (counters m1)(k \<mapsto> entry)\<rparr>, entry))"

definition database_add ::
  "rate_limit_row list \<times> int \<Rightarrow> string \<Rightarrow> int \<Rightarrow> int \<Rightarrow> int
     \<Rightarrow> (rate_limit_row list \<times> int) \<times> (int \<times> int)" where
  "database_add s k points window_end now =
     (let (rows1, sw) = sweep_database (fst s) (snd s) now;
          (rows2, ce) = db_upsert rows1 k points window_end now in
      ((rows2, sw), ce))"

definition database_forget :: "rate_limit_row list \<Rightarrow> string \<Rightarrow> rate_limit_row list" where
  "database_forget rows k = delete_where (\<lambda>r. rl_key r = k) rows"

definition memory_forget :: "MemoryStore \<Rightarrow> string \<Rightarrow> MemoryStore" where
  "memory_forget m k = m\<lparr>counters := (counters m)(k := None)\<rparr>"

section \<open>Operations of a limiter\<close>

definition limiter_look :: "Limiter \<Rightarrow> string \<Rightarrow> int \<Rightarrow> (int \<times> int) option" where
  "limiter_look l key now =
     (case store l of
        StoreDatabase rows \<Rightarrow> db_look rows (storage_key l key) now
      | StoreMemory m \<Rightarrow> memory_look m (storage_key l key) now)"

definition limiter_get :: "Limiter \<Rightarrow> string \<Rightarrow> int \<Rightarrow> LimiterResponse option" where
  "limiter_get l key now =
     map_option (\<lambda>(p, e). limiter_response l p e now) (limiter_look l key now)"

definition limiter_bump :: "Limiter \<Rightarrow> string \<Rightarrow> int \<Rightarrow> int \<Rightarrow> Limiter \<times> (int \<times> int)" where
  "limiter_bump l key points now =
     (let k = storage_key l key; window_end = now + int (duration_ms l) in
      case store l of
        StoreDatabase rows \<Rightarrow>
          (let ((rows1, sw), ce) = database_add (rows, swept_at l) k points window_end now in
           (l\<lparr>store := StoreDatabase rows1, swept_at := sw\<rparr>, ce))
      | StoreMemory m \<Rightarrow>
          (let (m1, ce) = memory_add m k points window_end now in
           (l\<lparr>store := StoreMemory m1\<rparr>, ce)))"

definition limiter_add :: "Limiter \<Rightarrow> string \<Rightarrow> int \<Rightarrow> int \<Rightarrow> Limiter \<times> LimiterResponse" where
  "limiter_add l key points now =
     (let (l1, (c, e)) = limiter_bump l key points now in (l1, limiter_response l c e now))"

definition consume ::
  "Limiter \<Rightarrow> string \<Rightarrow> int \<Rightarrow> Limiter \<times> (LimiterError, LimiterResponse) result" where
  "consume l key now =
     (let (l1, r) = limiter_add l key 1 now in
      (l1, if consumed r > requests l then Inl (TooManyRequests r) else Inr r))"

definition attempt :: "Limiter \<Rightarrow> string \<Rightarrow> int \<Rightarrow> int \<Rightarrow> Limiter \<times> bool" where
  "attempt l key now1 now2 =
     (if (case limiter_get l key now1 of None \<Rightarrow> False | Some r \<Rightarrow> consumed r > limit r)
      then (l, False)
      else (let (l1, r) = consume l key now2 in (l1, is_ok r)))"

definition increment :: "Limiter \<Rightarrow> string \<Rightarrow> int \<Rightarrow> Limiter \<times> LimiterResponse" where
  "increment l key now = limiter_add l key 1 now"

definition decrement :: "Limiter \<Rightarrow> string \<Rightarrow> int \<Rightarrow> int \<Rightarrow> Limiter" where
  "decrement l key now1 now2 =
     (if limiter_get l key now1 \<noteq> None then fst (limiter_add l key (-1) now2) else l)"

definition limiter_delete :: "Limiter \<Rightarrow> string \<Rightarrow> Limiter" where
  "limiter_delete l key =
     (case store l of
        StoreDatabase rows \<Rightarrow> l\<lparr>store := StoreDatabase (database_forget rows (storage_key l key))\<rparr>
      | StoreMemory m \<Rightarrow> l\<lparr>store := StoreMemory (memory_forget m (storage_key l key))\<rparr>)"

definition limiter_remaining :: "Limiter \<Rightarrow> string \<Rightarrow> int \<Rightarrow> 32 word" where
  "limiter_remaining l key now =
     (case limiter_get l key now of None \<Rightarrow> requests l | Some r \<Rightarrow> remaining_points r)"

definition limiter_available_in :: "Limiter \<Rightarrow> string \<Rightarrow> int \<Rightarrow> int" where
  "limiter_available_in l key now =
     (case limiter_get l key now of
        None \<Rightarrow> 0
      | Some r \<Rightarrow> if remaining_points r = 0 then available_in_secs r else 0)"

definition limiter_clear :: "Limiter \<Rightarrow> Limiter" where
  "limiter_clear l =
     (case store l of
        StoreDatabase rows \<Rightarrow> l\<lparr>store := StoreDatabase []\<rparr>
      | StoreMemory m \<Rightarrow> l\<lparr>store := StoreMemory (m\<lparr>counters := Map.empty\<rparr>)\<rparr>)"


section \<open>The contract of a store\<close>

text \<open>
  What a window does, whatever holds it: a counter is visible until its window ends, and
  adding points advances a running window or opens a new one.
\<close>

definition still_running :: "int \<Rightarrow> (int \<times> int) option \<Rightarrow> (int \<times> int) option" where
  "still_running t ce =
     (case ce of None \<Rightarrow> None | Some (c, e) \<Rightarrow> if e > t then Some (c, e) else None)"

definition advance :: "(int \<times> int) option \<Rightarrow> int \<Rightarrow> int \<Rightarrow> int \<times> int" where
  "advance ce points window_end =
     (case ce of None \<Rightarrow> (max points 0, window_end) | Some (c, e) \<Rightarrow> (max (c + points) 0, e))"

locale counter_store =
  fixes good :: "'s \<Rightarrow> bool"
    and look :: "'s \<Rightarrow> string \<Rightarrow> int \<Rightarrow> (int \<times> int) option"
    and add :: "'s \<Rightarrow> string \<Rightarrow> int \<Rightarrow> int \<Rightarrow> int \<Rightarrow> 's \<times> (int \<times> int)"
    and forget :: "'s \<Rightarrow> string \<Rightarrow> 's"
  assumes look_later: "good s \<Longrightarrow> t \<le> t' \<Longrightarrow> look s k t' = still_running t' (look s k t)"
    and look_nonneg: "good s \<Longrightarrow> look s k t = Some (c, e) \<Longrightarrow> 0 \<le> c \<and> t < e"
    and good_add: "good s \<Longrightarrow> good (fst (add s k p w now))"
    and add_result: "good s \<Longrightarrow> snd (add s k p w now) = advance (look s k now) p w"
    and look_add: "good s \<Longrightarrow>
          look (fst (add s k p w now)) k' now =
            (if k' = k then still_running now (Some (snd (add s k p w now))) else look s k' now)"
    and good_forget: "good s \<Longrightarrow> good (forget s k)"
    and look_forget: "good s \<Longrightarrow> look (forget s k) k' now = (if k' = k then None else look s k' now)"
begin

lemma look_add_later:
  assumes "good s" and "now \<le> t"
  shows "look (fst (add s k p w now)) k' t =
           (if k' = k then still_running t (Some (advance (look s k now) p w)) else look s k' t)"
proof -
  have "look (fst (add s k p w now)) k' t =
          still_running t (look (fst (add s k p w now)) k' now)"
    using assms by (simp add: look_later good_add)
  also have "\<dots> = (if k' = k then still_running t (Some (advance (look s k now) p w))
                  else still_running t (look s k' now))"
    using assms by (auto simp: look_add add_result still_running_def split: option.splits prod.splits)
  finally show ?thesis
    using assms by (simp add: look_later)
qed

end

text \<open>Two stores that keep the contract and show the same counters answer every call alike.\<close>

locale two_stores =
  a: counter_store good look add forget + b: counter_store good' look' add' forget'
  for good :: "'s \<Rightarrow> bool" and look add forget
    and good' :: "'t \<Rightarrow> bool" and look' add' forget'
begin

definition agree :: "int \<Rightarrow> 's \<Rightarrow> 't \<Rightarrow> bool" where
  "agree now s s' \<longleftrightarrow> good s \<and> good' s' \<and> (\<forall>k t. now \<le> t \<longrightarrow> look s k t = look' s' k t)"

lemma agree_add:
  assumes "agree t0 s s'" and "t0 \<le> now"
  shows "snd (add s k p w now) = snd (add' s' k p w now)
         \<and> agree now (fst (add s k p w now)) (fst (add' s' k p w now))"
  using assms
  by (auto simp: agree_def a.add_result b.add_result a.look_add_later b.look_add_later
      a.good_add b.good_add)

lemma agree_forget: "agree now s s' \<Longrightarrow> agree now (forget s k) (forget' s' k)"
  by (auto simp: agree_def a.look_forget b.look_forget a.good_forget b.good_forget)

end

section \<open>Both stores keep the contract\<close>

definition memory_good :: "MemoryStore \<Rightarrow> bool" where
  "memory_good m \<longleftrightarrow> (\<forall>k p e. counters m k = Some (p, e) \<longrightarrow> 0 \<le> p)"

definition database_good :: "rate_limit_row list \<Rightarrow> bool" where
  "database_good rows \<longleftrightarrow> distinct (map rl_key rows) \<and> (\<forall>r \<in> set rows. 0 \<le> rl_points r)"

interpretation memory: counter_store memory_good memory_look memory_add memory_forget
proof (standard, goal_cases)
  case (1 s t t' k)
  then show ?case
    by (auto simp: memory_look_def still_running_def split: option.splits)
next
  case (2 s k t c e)
  then show ?case
    by (fastforce simp: memory_look_def memory_good_def split: option.splits if_splits)
next
  case (3 s k p w now)
  then show ?case
    by (auto simp: memory_good_def memory_add_def memory_sweep_def Let_def split: option.splits if_splits)
next
  case (4 s k p w now)
  then show ?case
    by (auto simp: memory_look_def memory_add_def memory_sweep_def advance_def Let_def
        split: option.splits)
next
  case (5 s k p w now k')
  then show ?case
    by (auto simp: memory_look_def memory_add_def memory_sweep_def still_running_def Let_def
        split: option.splits)
next
  case (6 s k)
  then show ?case
    by (auto simp: memory_good_def memory_forget_def)
next
  case (7 s k k' now)
  then show ?case
    by (auto simp: memory_look_def memory_forget_def)
qed

text \<open>With the key as primary key, the table is a map from keys to counters.\<close>

definition db_map :: "rate_limit_row list \<Rightarrow> string \<rightharpoonup> int \<times> int" where
  "db_map rows = map_of (map (\<lambda>r. (rl_key r, (rl_points r, rl_expire r))) rows)"

lemma db_map_simps [simp]:
  "db_map [] = Map.empty"
  "db_map (r # rows) = (db_map rows)(rl_key r \<mapsto> (rl_points r, rl_expire r))"
  by (simp_all add: db_map_def)

lemma db_map_None: "db_map rows k = None \<longleftrightarrow> k \<notin> rl_key ` set rows"
  by (induction rows) auto

lemma db_look_map:
  "distinct (map rl_key rows) \<Longrightarrow> db_look rows k now = still_running now (db_map rows k)"
proof (induction rows)
  case (Cons r rows)
  then show ?case
    by (auto simp: db_look_def still_running_def find_None_iff db_map_None image_iff
        split: option.splits dest!: find_Some_set)
qed (simp add: db_look_def still_running_def)

lemma db_map_append: "rl_key r \<notin> rl_key ` set rows \<Longrightarrow>
    db_map (rows @ [r]) = (db_map rows)(rl_key r \<mapsto> (rl_points r, rl_expire r))"
  by (induction rows) (auto simp: fun_upd_twist)

lemma db_map_update:
  "k \<in> rl_key ` set rows \<Longrightarrow> distinct (map rl_key rows) \<Longrightarrow>
    db_map (update_where (\<lambda>x. rl_key x = k) (\<lambda>x. x\<lparr>rl_points := p, rl_expire := e\<rparr>) rows)
      = (db_map rows)(k \<mapsto> (p, e))"
proof (induction rows)
  case (Cons r rows)
  have *: "rl_key r \<notin> rl_key ` set rows \<Longrightarrow>
    update_where (\<lambda>x. rl_key x = rl_key r) (\<lambda>x. x\<lparr>rl_points := p, rl_expire := e\<rparr>) rows = rows"
    by (rule update_where_id) (auto simp: image_iff)
  show ?case
    using Cons by (auto simp: fun_upd_twist *)
qed simp

lemma db_map_delete:
  "distinct (map rl_key rows) \<Longrightarrow>
    db_map (delete_where P rows) k =
      (if exists_where (\<lambda>r. rl_key r = k \<and> P r) rows then None else db_map rows k)"
  by (induction rows)
     (auto simp: delete_where_def exists_where_def db_map_None list_ex_iff image_iff
      dest: distinct_map_unique)

lemma db_map_forget:
  "distinct (map rl_key rows) \<Longrightarrow>
    db_map (delete_where (\<lambda>r. rl_key r = k) rows) = (db_map rows)(k := None)"
  by (rule ext) (auto simp: db_map_delete exists_where_iff db_map_None)

lemma db_find_map:
  "distinct (map rl_key rows) \<Longrightarrow> find (\<lambda>r. rl_key r = k) rows = Some r \<Longrightarrow>
    db_map rows k = Some (rl_points r, rl_expire r)"
  by (induction rows) (auto split: if_splits dest!: find_Some_set)

lemma database_good_delete: "database_good rows \<Longrightarrow> database_good (delete_where P rows)"
  by (auto simp: database_good_def distinct_map_delete_where table_simps)

lemma sweep_database_look:
  assumes "database_good rows" and "sweep_database rows sw now = (rows', sw')" and "now \<le> t"
  shows "database_good rows'" and "db_look rows' k t = db_look rows k t"
proof -
  show good: "database_good rows'"
    using assms by (auto simp: sweep_database_def database_good_delete split: if_splits)
  have "db_map rows k = Some (rl_points r, rl_expire r)"
    if "r \<in> set rows" "rl_key r = k" for r
    using that assms(1) find_by_key [of rl_key rows r] db_find_map [of rows k r]
    by (simp add: database_good_def)
  then show "db_look rows' k t = db_look rows k t"
    using assms good
    by (fastforce simp: sweep_database_def database_good_def db_look_map db_map_delete
        still_running_def table_simps split: if_splits option.splits)
qed

lemma db_upsert_correct:
  assumes "database_good rows" and "db_upsert rows k p w now = (rows', ce)"
  shows "database_good rows'" and "db_map rows' = (db_map rows)(k \<mapsto> ce)"
    and "ce = advance (still_running now (db_map rows k)) p w"
proof -
  show "db_map rows' = (db_map rows)(k \<mapsto> ce)"
    using assms
    by (auto simp: db_upsert_def database_good_def Let_def find_None_set
        split: option.splits dest!: find_Some_set intro!: db_map_update db_map_append [THEN trans])
  show "ce = advance (still_running now (db_map rows k)) p w"
    using assms db_map_None [of rows k] db_find_map [of rows k]
    by (auto simp: db_upsert_def database_good_def Let_def find_None_set advance_def
        still_running_def split: option.splits if_splits)
  have "map rl_key (update_where (\<lambda>x. rl_key x = k) (\<lambda>x. x\<lparr>rl_points := a, rl_expire := b\<rparr>) rows)
        = map rl_key rows" for a b
    by (rule map_update_where_same) simp
  then show "database_good rows'"
    using assms
    by (auto simp: db_upsert_def database_good_def Let_def find_None_set table_simps
        split: option.splits if_splits)
qed

lemma database_add_correct:
  assumes "database_good (fst s)"
  shows "database_good (fst (fst (database_add s k p w now)))"
    and "snd (database_add s k p w now) = advance (db_look (fst s) k now) p w"
    and "db_look (fst (fst (database_add s k p w now))) k' now =
           (if k' = k then still_running now (Some (snd (database_add s k p w now)))
            else db_look (fst s) k' now)"
proof -
  obtain rows1 sw where sweep: "sweep_database (fst s) (snd s) now = (rows1, sw)"
    by (cases "sweep_database (fst s) (snd s) now")
  obtain rows2 ce where up: "db_upsert rows1 k p w now = (rows2, ce)"
    by (cases "db_upsert rows1 k p w now")
  have eq: "database_add s k p w now = ((rows2, sw), ce)"
    by (simp add: database_add_def sweep up)
  have g1: "database_good rows1" and l1: "db_look rows1 x now = db_look (fst s) x now" for x
    using sweep_database_look [OF assms sweep] by auto
  note u = db_upsert_correct [OF g1 up]
  show "database_good (fst (fst (database_add s k p w now)))"
    using u(1) by (simp add: eq)
  show "snd (database_add s k p w now) = advance (db_look (fst s) k now) p w"
    using u(3) g1 l1 [of k] by (simp add: eq database_good_def db_look_map)
  show "db_look (fst (fst (database_add s k p w now))) k' now =
          (if k' = k then still_running now (Some (snd (database_add s k p w now)))
           else db_look (fst s) k' now)"
    using u(1,2) g1 l1 [of k'] by (simp add: eq database_good_def db_look_map)
qed

interpretation database: counter_store
  "\<lambda>s. database_good (fst s)" "\<lambda>s. db_look (fst s)" database_add
  "\<lambda>s k. (database_forget (fst s) k, snd s)"
proof (standard, goal_cases)
  case (1 s t t' k)
  then show ?case
    by (auto simp: database_good_def db_look_map still_running_def split: option.splits)
next
  case (2 s k t c e)
  then show ?case
    by (auto simp: db_look_def database_good_def dest!: find_Some_set)
next
  case (3 s k p w now)
  then show ?case by (rule database_add_correct)
next
  case (4 s k p w now)
  then show ?case by (rule database_add_correct)
next
  case (5 s k p w now k')
  then show ?case by (rule database_add_correct)
next
  case (6 s k)
  then show ?case by (simp add: database_forget_def database_good_delete)
next
  case (7 s k k' now)
  then have *: "database_good (delete_where (\<lambda>r. rl_key r = k) (fst s))"
    by (simp add: database_good_delete)
  with 7 show ?case
    by (simp add: database_good_def database_forget_def db_look_map db_map_forget still_running_def)
qed

interpretation stores: two_stores
  memory_good memory_look memory_add memory_forget
  "\<lambda>s. database_good (fst s)" "\<lambda>s. db_look (fst s)" database_add
  "\<lambda>s k. (database_forget (fst s) k, snd s)"
  by (rule two_stores.intro) (rule memory.counter_store_axioms database.counter_store_axioms)+

section \<open>What a fixed window admits\<close>

text \<open>
  An upper bound on what may still be admitted before time \<open>B\<close>, for an allowance \<open>Q\<close>: what the
  running window has left, and a whole new window if the running one ends before \<open>B\<close>.
\<close>

definition budget :: "int \<Rightarrow> int \<Rightarrow> (int \<times> int) option \<Rightarrow> int" where
  "budget Q B ce =
     (case ce of None \<Rightarrow> Q | Some (c, e) \<Rightarrow> max (Q - c) 0 + (if e < B then Q else 0))"

locale window_limiter =
  fixes good :: "'s \<Rightarrow> bool"
    and look :: "'s \<Rightarrow> string \<Rightarrow> int \<Rightarrow> (int \<times> int) option"
    and bump :: "'s \<Rightarrow> string \<Rightarrow> int \<Rightarrow> int \<Rightarrow> 's \<times> (int \<times> int)"
    and duration :: "'s \<Rightarrow> int"
  assumes look_later: "good s \<Longrightarrow> t \<le> t' \<Longrightarrow> look s k t' = still_running t' (look s k t)"
    and look_nonneg: "good s \<Longrightarrow> look s k t = Some (c, e) \<Longrightarrow> 0 \<le> c \<and> t < e"
    and good_bump: "good s \<Longrightarrow> good (fst (bump s k p now))"
    and duration_bump: "duration (fst (bump s k p now)) = duration s"
    and bump_result: "good s \<Longrightarrow> snd (bump s k p now) = advance (look s k now) p (now + duration s)"
    and look_bump: "good s \<Longrightarrow>
          look (fst (bump s k p now)) k' now =
            (if k' = k then still_running now (Some (snd (bump s k p now))) else look s k' now)"
begin

lemma budget_later:
  assumes "good s" and "0 \<le> Q" and "t \<le> t'" and "t' < B"
  shows "budget Q B (look s k t') \<le> budget Q B (look s k t)"
  using assms look_later [of s t t' k]
  by (auto simp: budget_def still_running_def split: option.splits)

lemma budget_bump:
  assumes "good s" and "0 \<le> Q" and "now < B" and "B \<le> now + duration s"
  shows "(if fst (snd (bump s k 1 now)) \<le> Q then 1 else 0)
           + budget Q B (look (fst (bump s k 1 now)) k now) \<le> budget Q B (look s k now)"
proof (cases "look s k now")
  case None
  then show ?thesis
    using assms by (auto simp: bump_result look_bump advance_def still_running_def budget_def)
next
  case (Some ce)
  moreover obtain c e where "ce = (c, e)" by (cases ce)
  ultimately show ?thesis
    using assms look_nonneg [of s k now c e]
    by (auto simp: bump_result look_bump advance_def still_running_def budget_def)
qed

lemma budget_bump_other:
  "good s \<Longrightarrow> k' \<noteq> k \<Longrightarrow> budget Q B (look (fst (bump s k p now)) k' now) = budget Q B (look s k' now)"
  by (simp add: look_bump)

end

definition limiter_good :: "Limiter \<Rightarrow> bool" where
  "limiter_good l =
     (case store l of StoreDatabase rows \<Rightarrow> database_good rows | StoreMemory m \<Rightarrow> memory_good m)"

lemma storage_key_inject:
  "storage_key l key = storage_key l' key' \<longleftrightarrow>
     requests l = requests l' \<and> duration_ms l div 1000 = duration_ms l' div 1000 \<and> key = key'"
proof
  assume "storage_key l key = storage_key l' key'"
  then have "show_nat (unat (requests l)) @ CHR '':'' # (show_nat (duration_ms l div 1000) @ CHR '':'' # key)
      = show_nat (unat (requests l')) @ CHR '':'' # (show_nat (duration_ms l' div 1000) @ CHR '':'' # key')"
    by (simp add: storage_key_def)
  then have "show_nat (unat (requests l)) = show_nat (unat (requests l'))"
    and "show_nat (duration_ms l div 1000) @ CHR '':'' # key
         = show_nat (duration_ms l' div 1000) @ CHR '':'' # key'"
    by (auto dest!: split_at_separator)
  then show "requests l = requests l' \<and> duration_ms l div 1000 = duration_ms l' div 1000 \<and> key = key'"
    by (auto dest!: split_at_separator simp: word_unat_eq_iff)
qed (simp add: storage_key_def)

lemma limiter_bump_keeps:
  "requests (fst (limiter_bump l k p now)) = requests l"
  "duration_ms (fst (limiter_bump l k p now)) = duration_ms l"
  "storage_key (fst (limiter_bump l k p now)) k' = storage_key l k'"
  by (auto simp: limiter_bump_def storage_key_def Let_def split: limiter_store.splits prod.splits)

lemma limiter_bump_memory:
  "store l = StoreMemory m \<Longrightarrow>
    limiter_bump l k p now =
      (l\<lparr>store := StoreMemory (fst (memory_add m (storage_key l k) p (now + int (duration_ms l)) now))\<rparr>,
       snd (memory_add m (storage_key l k) p (now + int (duration_ms l)) now))"
  by (simp add: limiter_bump_def case_prod_unfold Let_def)

lemma limiter_bump_database:
  "store l = StoreDatabase rows \<Longrightarrow>
    limiter_bump l k p now =
      (let r = database_add (rows, swept_at l) (storage_key l k) p (now + int (duration_ms l)) now in
       (l\<lparr>store := StoreDatabase (fst (fst r)), swept_at := snd (fst r)\<rparr>, snd r))"
  by (simp add: limiter_bump_def case_prod_unfold Let_def)

lemma storage_key_store [simp]:
  "storage_key (l\<lparr>store := x\<rparr>) = storage_key l"
  "storage_key (l\<lparr>store := x, swept_at := y\<rparr>) = storage_key l"
  by (simp_all add: storage_key_def fun_eq_iff)

lemmas limiter_store_simps = limiter_good_def limiter_look_def limiter_bump_memory
  limiter_bump_database storage_key_inject

lemma storage_key_inj [simp]: "storage_key l k = storage_key l k' \<longleftrightarrow> k = k'"
  by (simp add: storage_key_inject)

interpretation limiter: window_limiter limiter_good limiter_look limiter_bump "\<lambda>l. int (duration_ms l)"
proof (standard, goal_cases)
  case (1 s t t' k)
  then show ?case
    using memory.look_later database.look_later [where s = "(x, 0)" for x]
    by (cases "store s") (simp_all add: limiter_store_simps)
next
  case (2 s k t c e)
  then show ?case
    using memory.look_nonneg database.look_nonneg [where s = "(x, 0)" for x]
    by (cases "store s") (auto simp: limiter_store_simps)
next
  case (3 s k p now)
  then show ?case
    by (cases "store s") (simp_all add: limiter_store_simps memory.good_add database.good_add Let_def)
next
  case (4 s k p now)
  then show ?case by (simp add: limiter_bump_keeps)
next
  case (5 s k p now)
  then show ?case
    by (cases "store s") (simp_all add: limiter_store_simps memory.add_result database.add_result Let_def)
next
  case (6 s k p now k')
  then show ?case
    by (cases "store s") (simp_all add: limiter_store_simps memory.look_add database.look_add Let_def)
qed

section \<open>Sequences of calls\<close>

datatype limiter_op =
    OpGet string | OpConsume string | OpAttempt string | OpIncrement string | OpDecrement string
  | OpDelete string | OpRemaining string | OpAvailableIn string | OpClear

datatype limiter_output =
    OutGet "LimiterResponse option" | OutConsume "(LimiterError, LimiterResponse) result"
  | OutAttempt bool | OutIncrement LimiterResponse | OutUnit | OutRemaining "32 word"
  | OutAvailableIn int

definition limiter_exec :: "Limiter \<Rightarrow> int \<Rightarrow> limiter_op \<Rightarrow> Limiter \<times> limiter_output" where
  "limiter_exec l now oper =
     (case oper of
        OpGet k \<Rightarrow> (l, OutGet (limiter_get l k now))
      | OpConsume k \<Rightarrow> apsnd OutConsume (consume l k now)
      | OpAttempt k \<Rightarrow> apsnd OutAttempt (attempt l k now now)
      | OpIncrement k \<Rightarrow> apsnd OutIncrement (increment l k now)
      | OpDecrement k \<Rightarrow> (decrement l k now now, OutUnit)
      | OpDelete k \<Rightarrow> (limiter_delete l k, OutUnit)
      | OpRemaining k \<Rightarrow> (l, OutRemaining (limiter_remaining l k now))
      | OpAvailableIn k \<Rightarrow> (l, OutAvailableIn (limiter_available_in l k now))
      | OpClear \<Rightarrow> (limiter_clear l, OutUnit))"

fun limiter_run :: "Limiter \<Rightarrow> (int \<times> limiter_op) list \<Rightarrow> (limiter_op \<times> limiter_output) list" where
  "limiter_run l [] = []"
| "limiter_run l ((now, oper) # calls) =
     (let (l1, out) = limiter_exec l now oper in (oper, out) # limiter_run l1 calls)"

text \<open>A request for the key that was let through.\<close>

definition admitted :: "string \<Rightarrow> limiter_op \<times> limiter_output \<Rightarrow> bool" where
  "admitted k call =
     (case call of
        (OpConsume k', OutConsume r) \<Rightarrow> k' = k \<and> is_ok r
      | (OpAttempt k', OutAttempt b) \<Rightarrow> k' = k \<and> b
      | _ \<Rightarrow> False)"

text \<open>Calls that hand nothing back to the key.\<close>

definition keeps_count :: "string \<Rightarrow> limiter_op \<Rightarrow> bool" where
  "keeps_count k oper = (oper \<notin> {OpDecrement k, OpDelete k, OpClear})"

lemma word_of_int_gt_iff:
  "0 \<le> x \<Longrightarrow> x < 2 ^ 32 \<Longrightarrow> (word_of_int x > (w :: 32 word)) \<longleftrightarrow> x > uint w"
  by (simp add: word_less_def uint_word_of_int_eq take_bit_int_eq_self)

lemma consumed_gt_iff:
  assumes "uint (requests l) < 2 ^ 32 - 1"
  shows "consumed (limiter_response l c e now) > requests l \<longleftrightarrow> c > uint (requests l)"
proof -
  have "min (max c 0) (2 ^ 32 - 1) > uint (requests l) \<longleftrightarrow> c > uint (requests l)"
    using assms by (simp add: less_max_iff_disj)
  moreover have "consumed (limiter_response l c e now) > requests l \<longleftrightarrow>
      min (max c 0) (2 ^ 32 - 1) > uint (requests l)"
    unfolding limiter_response_def Let_def LimiterResponse.simps by (rule word_of_int_gt_iff) simp_all
  ultimately show ?thesis by simp
qed

lemma consume_unfold:
  assumes "uint (requests l) < 2 ^ 32 - 1"
  shows "fst (consume l k now) = fst (limiter_bump l k 1 now)"
    and "is_ok (snd (consume l k now)) \<longleftrightarrow> fst (snd (limiter_bump l k 1 now)) \<le> uint (requests l)"
  using consumed_gt_iff [OF assms]
  by (simp_all add: consume_def limiter_add_def case_prod_unfold Let_def not_less [symmetric])

text \<open>One call that hands nothing back spends at most the budget it admits from.\<close>

lemma attempt_cases:
  "attempt l k now now = (l, False) \<or>
   attempt l k now now = (fst (consume l k now), is_ok (snd (consume l k now)))"
  by (auto simp: attempt_def case_prod_unfold Let_def)

lemma consume_budget:
  assumes "limiter_good l" and "uint (requests l) < 2 ^ 32 - 1"
    and "now < B" and "B \<le> now + int (duration_ms l)"
  shows "(if k' = k \<and> is_ok (snd (consume l k' now)) then 1 else 0)
           + budget (uint (requests l)) B (limiter_look (fst (consume l k' now)) k now)
         \<le> budget (uint (requests l)) B (limiter_look l k now)"
  using assms limiter.budget_bump [of l "uint (requests l)" now B k]
    limiter.budget_bump_other [of l k k']
  by (cases "k' = k") (simp_all add: consume_unfold)

definition same_allowance :: "Limiter \<Rightarrow> Limiter \<Rightarrow> bool" where
  "same_allowance l l' \<longleftrightarrow> requests l' = requests l \<and> duration_ms l' = duration_ms l"

lemma bump_invariants:
  "limiter_good l \<Longrightarrow> limiter_good (fst (limiter_bump l k p now))
     \<and> same_allowance l (fst (limiter_bump l k p now))"
  by (simp add: limiter.good_bump limiter_bump_keeps same_allowance_def)

lemma same_allowance_refl [simp]: "same_allowance l l"
  by (simp add: same_allowance_def)

lemma limiter_delete_good:
  "limiter_good l \<Longrightarrow> limiter_good (limiter_delete l k) \<and> same_allowance l (limiter_delete l k)"
  by (cases "store l")
     (simp_all add: limiter_good_def limiter_delete_def memory.good_forget same_allowance_def
      database_good_delete database_forget_def)

lemma limiter_clear_good:
  "limiter_good (limiter_clear l) \<and> same_allowance l (limiter_clear l)"
  by (cases "store l")
     (simp_all add: limiter_good_def limiter_clear_def memory_good_def database_good_def
      same_allowance_def)

lemma limiter_exec_good:
  assumes "limiter_good l"
  shows "limiter_good (fst (limiter_exec l now oper)) \<and> same_allowance l (fst (limiter_exec l now oper))"
  using assms bump_invariants [OF assms] limiter_delete_good [OF assms] limiter_clear_good [of l]
  by (simp add: limiter_exec_def consume_def attempt_def increment_def decrement_def limiter_add_def
      case_prod_unfold Let_def split: limiter_op.splits)

lemma limiter_delete_look:
  "limiter_good l \<Longrightarrow>
    limiter_look (limiter_delete l k) k' t = (if k' = k then None else limiter_look l k' t)"
  using database.look_forget [where s = "(x, 0)" for x]
  by (cases "store l")
     (auto simp: limiter_good_def limiter_delete_def limiter_look_def memory.look_forget)

text \<open>Every call that hands nothing back pays from the budget what it admits.\<close>

lemma limiter_exec_budget:
  assumes "limiter_good l" and "uint (requests l) < 2 ^ 32 - 1"
    and "now < B" and "B \<le> now + int (duration_ms l)" and "keeps_count k oper"
  shows "(if admitted k (oper, snd (limiter_exec l now oper)) then 1 else 0)
           + budget (uint (requests l)) B (limiter_look (fst (limiter_exec l now oper)) k now)
         \<le> budget (uint (requests l)) B (limiter_look l k now)"
proof -
  note spend = consume_budget [OF assms(1-4), where k = k]
  have other: "limiter_look (fst (limiter_bump l k' p now)) k now = limiter_look l k now"
    if "k' \<noteq> k" for k' p
    using that assms(1) by (simp add: limiter.look_bump)
  show ?thesis
  proof (cases oper)
    case (OpConsume k')
    then show ?thesis
      using spend [of k'] by (simp add: limiter_exec_def admitted_def)
  next
    case (OpAttempt k')
    then show ?thesis
      using spend [of k'] attempt_cases [of l k' now]
      by (auto simp: limiter_exec_def admitted_def split: if_splits)
  next
    case (OpIncrement k')
    then show ?thesis
      using spend [of k'] assms(2)
      by (simp add: limiter_exec_def admitted_def increment_def limiter_add_def consume_unfold
          case_prod_unfold Let_def split: if_splits)
  next
    case (OpDecrement k')
    then show ?thesis
      using assms(5) other
      by (auto simp: limiter_exec_def admitted_def keeps_count_def decrement_def limiter_add_def
          case_prod_unfold Let_def)
  next
    case (OpDelete k')
    then show ?thesis
      using assms(1,5) by (simp add: limiter_exec_def admitted_def keeps_count_def limiter_delete_look)
  qed (use assms(5) in \<open>simp_all add: limiter_exec_def admitted_def keeps_count_def\<close>)
qed

lemma limiter_run_budget:
  assumes "limiter_good l" and "uint (requests l) < 2 ^ 32 - 1"
    and "sorted (map fst calls)" and "\<forall>c \<in> set calls. t \<le> fst c \<and> keeps_count k (snd c)"
    and "\<forall>c \<in> set calls. fst c < B" and "B \<le> t + int (duration_ms l)"
  shows "int (count_where (admitted k) (limiter_run l calls))
           \<le> budget (uint (requests l)) B (limiter_look l k t)"
  using assms
proof (induction calls arbitrary: l t)
  case Nil
  then show ?case
    using limiter.look_nonneg [of l k t]
    by (auto simp: budget_def split: option.splits)
next
  case (Cons c calls)
  obtain now oper where c: "c = (now, oper)" by (cases c)
  let ?l = "fst (limiter_exec l now oper)"
  let ?Q = "uint (requests l)"
  have good: "limiter_good ?l" "requests ?l = requests l" "duration_ms ?l = duration_ms l"
    using limiter_exec_good [of l now oper] Cons.prems by (auto simp: same_allowance_def)
  have "int (count_where (admitted k) (limiter_run ?l calls)) \<le> budget ?Q B (limiter_look ?l k now)"
    using Cons.IH [of ?l now] Cons.prems good c by auto
  moreover have "(if admitted k (oper, snd (limiter_exec l now oper)) then 1 else 0)
      + budget ?Q B (limiter_look ?l k now) \<le> budget ?Q B (limiter_look l k now)"
    using limiter_exec_budget [of l now B k oper] Cons.prems c by auto
  moreover have "budget ?Q B (limiter_look l k now) \<le> budget ?Q B (limiter_look l k t)"
    using limiter.budget_later [of l ?Q t now B k] Cons.prems c by auto
  ultimately show ?case
    by (simp add: c case_prod_unfold Let_def split: if_splits)
qed

section \<open>The two stores are interchangeable\<close>

lemma empty_stores [simp]:
  "memory_good (m\<lparr>counters := \<lambda>k. None\<rparr>)"
  "memory_good \<lparr>counters = \<lambda>k. None, mem_swept_at = t\<rparr>"
  "database_good []"
  "memory_look (m\<lparr>counters := \<lambda>k. None\<rparr>) k t = None"
  "memory_look \<lparr>counters = \<lambda>k. None, mem_swept_at = t'\<rparr> k t = None"
  "db_look [] k t = None"
  by (simp_all add: memory_good_def database_good_def memory_look_def db_look_def)

text \<open>A memory limiter and a database limiter that show the same counters from \<open>t\<close> on.\<close>

definition twins :: "int \<Rightarrow> Limiter \<Rightarrow> Limiter \<Rightarrow> bool" where
  "twins t a b \<longleftrightarrow> same_allowance a b \<and>
     (\<exists>m rows. store a = StoreMemory m \<and> store b = StoreDatabase rows
        \<and> stores.agree t m (rows, swept_at b))"

lemma twins_look:
  assumes "twins t a b" and "t \<le> now"
  shows "limiter_look a k now = limiter_look b k now"
proof -
  have "storage_key a k = storage_key b k"
    using assms by (simp add: twins_def storage_key_inject same_allowance_def)
  then show ?thesis
    using assms by (auto simp: twins_def limiter_look_def stores.agree_def)
qed

lemma twins_response: "twins t a b \<Longrightarrow> limiter_response a = limiter_response b"
  by (simp add: twins_def same_allowance_def limiter_response_def fun_eq_iff Let_def)

lemma twins_get:
  assumes "twins t a b" and "t \<le> now"
  shows "limiter_get a k now = limiter_get b k now"
  using twins_look [OF assms] twins_response [OF assms(1)] by (simp add: limiter_get_def)

lemma twins_bump:
  assumes "twins t a b" and "t \<le> now"
  shows "snd (limiter_bump a k p now) = snd (limiter_bump b k p now)
         \<and> twins now (fst (limiter_bump a k p now)) (fst (limiter_bump b k p now))"
proof -
  obtain m rows where st: "store a = StoreMemory m" "store b = StoreDatabase rows"
    "stores.agree t m (rows, swept_at b)" and al: "same_allowance a b"
    using assms by (auto simp: twins_def)
  have key: "storage_key b k = storage_key a k" and dur: "duration_ms b = duration_ms a"
    using al by (simp_all add: storage_key_inject same_allowance_def)
  show ?thesis
    using stores.agree_add [OF st(3) assms(2), of "storage_key a k" p "now + int (duration_ms a)"] al
    by (simp add: limiter_bump_memory [OF st(1)] limiter_bump_database [OF st(2)] key dur Let_def
        twins_def same_allowance_def)
qed

lemma twins_later: "twins t a b \<Longrightarrow> t \<le> now \<Longrightarrow> twins now a b"
  by (fastforce simp: twins_def stores.agree_def)

lemma twins_delete: "twins t a b \<Longrightarrow> twins t (limiter_delete a k) (limiter_delete b k)"
  using stores.agree_forget
  by (fastforce simp: twins_def limiter_delete_def same_allowance_def storage_key_def)

lemma twins_clear: "twins t a b \<Longrightarrow> twins t (limiter_clear a) (limiter_clear b)"
  by (auto simp: twins_def limiter_clear_def same_allowance_def stores.agree_def)

lemma twins_add:
  assumes "twins t a b" and "t \<le> now"
  shows "snd (limiter_add a k p now) = snd (limiter_add b k p now)
         \<and> twins now (fst (limiter_add a k p now)) (fst (limiter_add b k p now))"
  using twins_bump [OF assms, of k p] twins_response [OF assms(1)]
  by (simp add: limiter_add_def case_prod_unfold Let_def)

lemma twins_consume:
  assumes "twins t a b" and "t \<le> now"
  shows "snd (consume a k now) = snd (consume b k now)
         \<and> twins now (fst (consume a k now)) (fst (consume b k now))"
  using twins_add [OF assms, of k 1] assms(1)
  by (simp add: consume_def case_prod_unfold Let_def twins_def same_allowance_def)

lemma twins_exec:
  assumes "twins t a b" and "t \<le> now"
  shows "snd (limiter_exec a now oper) = snd (limiter_exec b now oper)
         \<and> twins now (fst (limiter_exec a now oper)) (fst (limiter_exec b now oper))"
proof -
  note tw = assms twins_later [OF assms]
  have req: "requests b = requests a"
    using assms by (simp add: twins_def same_allowance_def)
  show ?thesis
    using tw twins_get [OF assms] twins_consume [OF assms] twins_add [OF assms]
    by (cases oper)
       (simp_all add: limiter_exec_def attempt_def increment_def decrement_def limiter_remaining_def
        limiter_available_in_def req twins_delete twins_clear case_prod_unfold Let_def
        split: option.splits)
qed

lemma twins_run:
  assumes "twins t a b" and "sorted (map fst calls)" and "\<forall>c \<in> set calls. t \<le> fst c"
  shows "limiter_run a calls = limiter_run b calls"
  using assms
proof (induction calls arbitrary: a b t)
  case (Cons c calls)
  obtain now oper where c: "c = (now, oper)" by (cases c)
  with Cons show ?case
    using twins_exec [of t a b now oper] by (auto simp: case_prod_unfold Let_def)
qed simp

section \<open>Properties\<close>

text \<open>C25: A rate limiter never lets through more than its allowance. Take any calls for any keys,
  at times that do not run backwards and that all lie in a span of one window length. Unless a
  call hands a request back (\<open>decrement\<close>, \<open>delete\<close>, \<open>clear\<close>), at most \<open>requests\<close> of them are
  admitted for a key with no running window, and at most twice that many when a window is
  already running and may end within the span. It holds for both stores, whatever they sweep.\<close>

theorem limiter_window_bound:
  assumes "limiter_good l" and "uint (requests l) < 2 ^ 32 - 1"
    and "sorted (map fst calls)"
    and "\<forall>c \<in> set calls. t \<le> fst c \<and> fst c < t + int (duration_ms l) \<and> keeps_count k (snd c)"
  shows "count_where (admitted k) (limiter_run l calls)
           \<le> (if limiter_look l k t = None then unat (requests l) else 2 * unat (requests l))"
proof -
  have "int (count_where (admitted k) (limiter_run l calls))
      \<le> budget (uint (requests l)) (t + int (duration_ms l)) (limiter_look l k t)"
    by (rule limiter_run_budget) (use assms in auto)
  also have "\<dots> \<le> int (if limiter_look l k t = None then unat (requests l) else 2 * unat (requests l))"
    using limiter.look_nonneg [OF assms(1), of k t]
    by (auto simp: budget_def split: option.splits intro: order_trans [OF _ uint_ge_0])
  finally show ?thesis by linarith
qed

theorem limiter_window_bound_witness:
  "count_where (admitted ''a'')
     (limiter_run (limiter_memory 1 1000)
        [(5, OpConsume ''a''), (6, OpAttempt ''b''), (7, OpAttempt ''a''), (8, OpConsume ''a'')])
   \<le> 1"
  using limiter_window_bound [where l = "limiter_memory 1 1000" and t = 5 and k = "''a''"
    and calls = "[(5, OpConsume ''a''), (6, OpAttempt ''b''), (7, OpAttempt ''a''), (8, OpConsume ''a'')]"]
  by (simp add: limiter_memory_def limiter_good_def memory_good_def keeps_count_def limiter_look_def
      memory_look_def)

text \<open>A limiter counted in memory and one counted in the \<open>rate_limits\<close> table answer every
  sequence of calls alike, as long as the clock does not run backwards: counters that a store
  has swept, or not yet, make no difference to what a caller sees.\<close>

theorem limiter_stores_agree:
  assumes "sorted (map fst calls)"
  shows "limiter_run (limiter_memory n d) calls = limiter_run (limiter_database [] n d) calls"
proof (cases calls)
  case (Cons c cs)
  have "twins (fst c) (limiter_memory n d) (limiter_database [] n d)"
    by (simp add: twins_def same_allowance_def limiter_memory_def limiter_database_def
        stores.agree_def)
  then show ?thesis
    by (rule twins_run) (use assms Cons in auto)
qed simp

theorem limiter_stores_agree_witness:
  "limiter_run (limiter_memory 2 1000) [(0, OpConsume ''a''), (400000, OpDecrement ''a''), (400001, OpGet ''a'')]
   = limiter_run (limiter_database [] 2 1000)
       [(0, OpConsume ''a''), (400000, OpDecrement ''a''), (400001, OpGet ''a'')]"
  by (rule limiter_stores_agree) simp

text \<open>\<open>consume\<close> counts the request whatever it answers, and lets it through exactly when fewer
  than \<open>requests\<close> were counted in the key's running window. A key without one starts a window that
  ends one duration later; a running window keeps its end.\<close>

theorem consume_counts_and_decides:
  assumes "limiter_good l" and "uint (requests l) < 2 ^ 32 - 1" and "0 < duration_ms l"
  shows "limiter_look (fst (consume l k now)) k now =
           (case limiter_look l k now of
              None \<Rightarrow> Some (1, now + int (duration_ms l))
            | Some (c, e) \<Rightarrow> Some (c + 1, e))
         \<and> (is_ok (snd (consume l k now)) \<longleftrightarrow>
              (case limiter_look l k now of None \<Rightarrow> 0 | Some (c, e) \<Rightarrow> c) < uint (requests l))"
proof (cases "limiter_look l k now")
  case None
  then show ?thesis
    using assms
    by (auto simp: consume_unfold limiter.bump_result limiter.look_bump advance_def still_running_def)
next
  case (Some ce)
  moreover obtain c e where "ce = (c, e)" by (cases ce)
  moreover have "0 \<le> c \<and> now < e"
    using limiter.look_nonneg [OF assms(1), of k now c e] calculation by simp
  ultimately show ?thesis
    using assms
    by (auto simp: consume_unfold limiter.bump_result limiter.look_bump advance_def still_running_def)
qed

theorem consume_counts_and_decides_witness:
  "is_ok (snd (consume (limiter_memory 1 1000) ''a'' 5))"
  using consume_counts_and_decides [where l = "limiter_memory 1 1000" and k = "''a''" and now = 5]
  by (simp add: limiter_memory_def limiter_good_def memory_good_def limiter_look_def memory_look_def)

end
