(* ===== verification/Database.thy ===== *)
theory Database
  imports Prelude
begin

text \<open>
  The SQLite database of the server: the rows of \<open>crates/core/src/models\<close>, their tables, and
  the statements every component is written with. A table is its rows in the order of their
  ids, with the \<open>autoincrement\<close> sequence. Inserting checks the unique indexes and foreign keys
  of \<open>crates/core/src/db/migrations.rs\<close>; deleting follows its \<open>on delete\<close> clauses. Times are
  seconds; a statement that stamps a row takes the time as an argument. Statements that fail
  leave the database as it was (a transaction that is not committed is rolled back).
\<close>

section \<open>Rows\<close>

datatype db_error = UniqueViolation | ForeignKeyViolation | NotNullViolation | RowNotFound

datatype TeamRole = Member | Admin | Owner

record User =
  u_id :: int
  full_name :: "string option"
  email :: string
  password :: string
  u_created_at :: int
  u_updated_at :: "int option"
  session_version :: int
  current_team_id :: "int option"
  is_super_admin :: bool
  two_factor_secret :: "string option"
  two_factor_confirmed_at :: "int option"
  two_factor_last_step :: "int option"

record Team =
  t_id :: int
  t_name :: string
  t_description :: "string option"
  personal_team :: bool
  t_created_at :: int
  t_updated_at :: "int option"

record TeamMember =
  tm_id :: int
  tm_team_id :: int
  tm_user_id :: int
  tm_role :: TeamRole
  tm_created_at :: int
  tm_updated_at :: "int option"

datatype McpTransport = Http | Npm | Builtin

datatype McpAuthType = AuthAuto | AuthBearer | AuthHeader

datatype McpStatus = Draft | Ready | McpError

text \<open>An MCP with all its columns; those that hold secrets hold ciphertext, and JSON columns their text.\<close>

record Mcp =
  mcp_id :: int
  mcp_name :: string
  mcp_slug :: string
  mcp_description :: "string option"
  mcp_transport :: McpTransport
  mcp_http_url :: "string option"
  mcp_npm_package :: "string option"
  mcp_npm_version :: "string option"
  mcp_npm_args :: "string option"
  mcp_auth_type :: McpAuthType
  mcp_auth_bearer :: "string option"
  mcp_auth_header_name :: "string option"
  mcp_auth_header_value :: "string option"
  mcp_oauth_authorize_url :: "string option"
  mcp_oauth_token_url :: "string option"
  mcp_oauth_scopes :: "string option"
  mcp_oauth_client_id :: "string option"
  mcp_oauth_client_secret :: "string option"
  mcp_oauth_access_token :: "string option"
  mcp_oauth_refresh_token :: "string option"
  mcp_oauth_token_expires_at :: "int option"
  mcp_status :: McpStatus
  mcp_last_error :: "string option"
  mcp_enabled :: bool
  mcp_created_by :: int
  mcp_created_at :: int
  mcp_updated_at :: "int option"
  mcp_oauth_issuer :: "string option"
  mcp_oauth_resource :: "string option"
  mcp_oauth_redirect_uri :: "string option"
  mcp_oauth_client_auth_method :: "string option"
  mcp_oauth_token_type :: "string option"
  mcp_npm_env :: "string option"
  mcp_oauth_required :: bool
  mcp_builtin_key :: "string option"
  mcp_builtin_write_enabled :: bool
  mcp_builtin_username :: "string option"
  mcp_builtin_password :: "string option"
  mcp_builtin_permissions :: "string option"
  mcp_builtin_aliases :: "string option"
  mcp_tool_approvals :: "string option"
  mcp_builtin_settings :: "string option"
  mcp_team_id :: int
  mcp_tool_timeout_seconds :: "int option"
  mcp_tailnet_id :: "int option"
  mcp_oauth_generation :: int

datatype ScopeMode = ScopeAll | ScopeSelected

datatype TokenSource = Manual | Oauth

record AccessToken =
  at_id :: int
  at_name :: string
  token_prefix :: string
  token_hash :: string
  scope_mode :: ScopeMode
  expires_at :: "int option"
  revoked_at :: "int option"
  last_used_at :: "int option"
  at_created_by :: int
  at_created_at :: int
  at_updated_at :: "int option"
  token_source :: TokenSource
  at_oauth_client_id :: "int option"
  oauth_scopes :: "string option"
  oauth_resource :: "string option"
  oauth_refresh_token_hash :: "string option"
  oauth_refresh_token_prefix :: "string option"
  oauth_refresh_expires_at :: "int option"
  at_team_id :: int

record access_token_mcp =
  atm_access_token_id :: int
  atm_mcp_id :: int

record refresh_history =
  rh_access_token_id :: int
  rh_token_hash :: string
  rh_invalidated_at :: int

record OauthClient =
  oc_id :: int
  client_id :: string
  client_secret_hash :: "string option"
  client_secret_prefix :: "string option"
  client_secret_expires_at :: "int option"
  client_name :: string
  redirect_uris :: "string list"
  token_endpoint_auth_method :: string
  grant_types :: "string list"
  response_types :: "string list"
  oc_scope :: string
  oc_created_at :: int
  oc_updated_at :: "int option"

record OauthAuthorizationCode =
  code_id :: int
  code_hash :: string
  code_oauth_client_id :: int
  code_user_id :: int
  redirect_uri :: string
  code_challenge :: string
  code_scopes :: string
  code_resource :: string
  code_expires_at :: int
  code_created_at :: int
  code_team_id :: int

record Invite =
  inv_id :: int
  inv_token :: string
  inv_email :: string
  inv_role :: TeamRole
  inv_created_by :: int
  accepted_at :: "int option"
  inv_expires_at :: int
  inv_created_at :: int
  inv_updated_at :: "int option"
  inv_team_id :: int

record Tailnet =
  tn_id :: int
  tn_team_id :: int
  tn_name :: string
  tn_control_url :: "string option"
  tn_hostname :: string
  tn_magic_dns_suffix :: "string option"
  tn_created_by :: int
  tn_created_at :: int
  tn_updated_at :: "int option"

datatype ApprovalDecision = Pending | Approved | Denied

record ApprovalRequest =
  ar_id :: int
  public_id :: string
  ar_mcp_id :: int
  ar_access_token_id :: int
  ar_tool_name :: string
  ar_arguments :: string
  arguments_hash :: string
  ar_summary :: string
  ar_status :: ApprovalDecision
  decided_by :: "int option"
  decided_at :: "int option"
  consumed_at :: "int option"
  ar_expires_at :: int
  ar_created_at :: int
  ar_updated_at :: "int option"

record RecoveryCode =
  rc_id :: int
  rc_user_id :: int
  rc_code_hash :: string
  used_at :: "int option"
  rc_created_at :: int

record Passkey =
  pk_id :: int
  pk_user_id :: int
  pk_name :: string
  credential_id :: string
  public_key :: string
  sign_count :: int
  backed_up :: bool
  pk_created_at :: int
  pk_last_used_at :: "int option"

record remember_me_token =
  rm_id :: int
  rm_tokenable_id :: int
  rm_hash :: string
  rm_created_at :: int
  rm_updated_at :: int
  rm_expires_at :: int

section \<open>Tables\<close>

record 'r table =
  rows :: "'r list"
  seq :: int

definition append_row :: "(int \<Rightarrow> 'r) \<Rightarrow> 'r table \<Rightarrow> 'r table" where
  "append_row mk t = \<lparr>rows = rows t @ [mk (seq t + 1)], seq = seq t + 1\<rparr>"

definition upd :: "('r \<Rightarrow> bool) \<Rightarrow> ('r \<Rightarrow> 'r) \<Rightarrow> 'r table \<Rightarrow> 'r table" where
  "upd P f t = t\<lparr>rows := update_where P f (rows t)\<rparr>"

definition del :: "('r \<Rightarrow> bool) \<Rightarrow> 'r table \<Rightarrow> 'r table" where
  "del P t = t\<lparr>rows := delete_where P (rows t)\<rparr>"

lemma table_ops [simp]:
  "rows (append_row mk t) = rows t @ [mk (seq t + 1)]" "seq (append_row mk t) = seq t + 1"
  "rows (upd P f t) = update_where P f (rows t)" "seq (upd P f t) = seq t"
  "rows (del P t) = delete_where P (rows t)" "seq (del P t) = seq t"
  by (simp_all add: append_row_def upd_def del_def)

text \<open>A table whose ids grow with its rows, and were all drawn from its sequence.\<close>

definition table_ok :: "('r \<Rightarrow> int) \<Rightarrow> 'r table \<Rightarrow> bool" where
  "table_ok key t \<longleftrightarrow> sorted_wrt (<) (map key (rows t)) \<and> (\<forall>r \<in> set (rows t). key r \<le> seq t)"

lemma table_ok_distinct: "table_ok key t \<Longrightarrow> distinct (map key (rows t))"
  unfolding table_ok_def by (metis strict_sorted_iff)

lemma table_ok_append:
  "table_ok key t \<Longrightarrow> (\<And>i. key (mk i) = i) \<Longrightarrow> table_ok key (append_row mk t)"
  by (fastforce simp: table_ok_def sorted_wrt_append)

lemma table_ok_upd:
  "table_ok key t \<Longrightarrow> (\<And>r. key (f r) = key r) \<Longrightarrow> table_ok key (upd P f t)"
  by (auto simp: table_ok_def table_simps map_update_where_same)

lemma table_ok_del: "table_ok key t \<Longrightarrow> table_ok key (del P t)"
  by (auto simp: table_ok_def delete_where_def sorted_wrt_map sorted_wrt_filter)

lemma table_ok_unique:
  "table_ok key t \<Longrightarrow> r \<in> set (rows t) \<Longrightarrow> r' \<in> set (rows t) \<Longrightarrow> key r = key r' \<Longrightarrow> r = r'"
  by (rule distinct_map_unique [OF table_ok_distinct])

lemma table_ok_fresh: "table_ok key t \<Longrightarrow> r \<in> set (rows t) \<Longrightarrow> key r \<noteq> seq t + 1"
  by (fastforce simp: table_ok_def)

text \<open>Selecting by id finds the row with that id.\<close>

definition find_row :: "('r \<Rightarrow> bool) \<Rightarrow> 'r table \<Rightarrow> 'r option" where
  "find_row P t = find P (rows t)"

lemma find_row_Some: "find_row P t = Some r \<Longrightarrow> r \<in> set (rows t) \<and> P r"
  by (simp add: find_row_def find_Some_set)

lemma find_row_None: "find_row P t = None \<longleftrightarrow> (\<forall>r \<in> set (rows t). \<not> P r)"
  by (simp add: find_row_def find_None_set)

lemma find_row_by_id:
  "table_ok key t \<Longrightarrow> r \<in> set (rows t) \<Longrightarrow> find_row (\<lambda>x. key x = key r) t = Some r"
  by (simp add: find_row_def find_by_key table_ok_distinct)

definition has_row :: "('r \<Rightarrow> bool) \<Rightarrow> 'r table \<Rightarrow> bool" where
  "has_row P t = exists_where P (rows t)"

definition count_rows :: "('r \<Rightarrow> bool) \<Rightarrow> 'r table \<Rightarrow> nat" where
  "count_rows P t = count_where P (rows t)"

lemma has_row_iff [table_simps]: "has_row P t \<longleftrightarrow> (\<exists>r \<in> set (rows t). P r)"
  by (simp add: has_row_def table_simps)

lemma has_row_upd [simp]: "(\<And>r. Q (f r) \<longleftrightarrow> Q r) \<Longrightarrow> has_row Q (upd P f t) \<longleftrightarrow> has_row Q t"
  by (simp add: has_row_iff bex_update_where)

lemma has_row_del: "has_row Q (del P t) \<longleftrightarrow> has_row (\<lambda>r. \<not> P r \<and> Q r) t"
  by (simp add: has_row_iff bex_delete_where)

lemma has_row_append [simp]: "has_row Q (append_row mk t) \<longleftrightarrow> has_row Q t \<or> Q (mk (seq t + 1))"
  by (auto simp: has_row_iff)

section \<open>The database\<close>

record db =
  users :: "User table"
  teams :: "Team table"
  team_user :: "TeamMember table"
  mcps :: "Mcp table"
  access_tokens :: "AccessToken table"
  access_token_mcps :: "access_token_mcp table"
  refresh_token_history :: "refresh_history table"
  oauth_clients :: "OauthClient table"
  authorization_codes :: "OauthAuthorizationCode table"
  invites :: "Invite table"
  tailnets :: "Tailnet table"
  approval_requests :: "ApprovalRequest table"
  recovery_codes :: "RecoveryCode table"
  passkeys :: "Passkey table"
  remember_me_tokens :: "remember_me_token table"

abbreviation empty_table :: "'r table" where
  "empty_table \<equiv> \<lparr>rows = [], seq = 0\<rparr>"

text \<open>A database after the migrations: no account, and the Root Team.\<close>

definition migrated_db :: "int \<Rightarrow> db" where
  "migrated_db now =
     \<lparr>users = empty_table,
      teams = \<lparr>rows = [\<lparr>t_id = 1, t_name = ''Root Team'', t_description = None, personal_team = True,
                        t_created_at = now, t_updated_at = None\<rparr>], seq = 1\<rparr>,
      team_user = empty_table, mcps = empty_table, access_tokens = empty_table,
      access_token_mcps = empty_table, refresh_token_history = empty_table,
      oauth_clients = empty_table, authorization_codes = empty_table, invites = empty_table,
      tailnets = empty_table, approval_requests = empty_table, recovery_codes = empty_table,
      passkeys = empty_table, remember_me_tokens = empty_table\<rparr>"

abbreviation user_exists :: "db \<Rightarrow> int \<Rightarrow> bool" where
  "user_exists d u \<equiv> has_row (\<lambda>x. u_id x = u) (users d)"

abbreviation team_exists :: "db \<Rightarrow> int \<Rightarrow> bool" where
  "team_exists d t \<equiv> has_row (\<lambda>x. t_id x = t) (teams d)"

subsection \<open>Inserting\<close>

definition insert_user :: "User \<Rightarrow> int \<Rightarrow> db \<Rightarrow> (db_error, db \<times> User) result" where
  "insert_user u now d =
     (let u1 = u\<lparr>u_id := seq (users d) + 1, u_created_at := now, u_updated_at := Some now\<rparr> in
      ensure (\<not> has_row (\<lambda>x. email x = email u) (users d)) UniqueViolation
      (Inr (d\<lparr>users := append_row (\<lambda>i. u1\<lparr>u_id := i\<rparr>) (users d)\<rparr>, u1)))"

definition insert_team :: "Team \<Rightarrow> int \<Rightarrow> db \<Rightarrow> db \<times> Team" where
  "insert_team t now d =
     (let t1 = t\<lparr>t_id := seq (teams d) + 1, t_created_at := now, t_updated_at := Some now\<rparr> in
      (d\<lparr>teams := append_row (\<lambda>i. t1\<lparr>t_id := i\<rparr>) (teams d)\<rparr>, t1))"

definition insert_team_member :: "int \<Rightarrow> int \<Rightarrow> TeamRole \<Rightarrow> int \<Rightarrow> db \<Rightarrow> (db_error, db) result" where
  "insert_team_member t u role now d =
     ensure (\<not> has_row (\<lambda>x. tm_team_id x = t \<and> tm_user_id x = u) (team_user d)) UniqueViolation
     (ensure (team_exists d t \<and> user_exists d u) ForeignKeyViolation
      (Inr (d\<lparr>team_user := append_row (\<lambda>i. \<lparr>tm_id = i, tm_team_id = t, tm_user_id = u, tm_role = role,
                tm_created_at = now, tm_updated_at = Some now\<rparr>) (team_user d)\<rparr>)))"

definition insert_mcp :: "Mcp \<Rightarrow> int \<Rightarrow> db \<Rightarrow> (db_error, db \<times> Mcp) result" where
  "insert_mcp m now d =
     (let m1 = m\<lparr>mcp_id := seq (mcps d) + 1, mcp_created_at := now, mcp_updated_at := Some now\<rparr> in
      ensure (\<not> has_row (\<lambda>x. mcp_team_id x = mcp_team_id m \<and> mcp_slug x = mcp_slug m) (mcps d)) UniqueViolation
      (ensure (team_exists d (mcp_team_id m) \<and> user_exists d (mcp_created_by m)
               \<and> (case mcp_tailnet_id m of None \<Rightarrow> True | Some n \<Rightarrow> has_row (\<lambda>x. tn_id x = n) (tailnets d)))
         ForeignKeyViolation
      (Inr (d\<lparr>mcps := append_row (\<lambda>i. m1\<lparr>mcp_id := i\<rparr>) (mcps d)\<rparr>, m1))))"

text \<open>The names of the tailnets of a team differ beyond the case of their letters. There is no foreign key on who created one.\<close>

definition insert_tailnet :: "Tailnet \<Rightarrow> int \<Rightarrow> db \<Rightarrow> (db_error, db \<times> Tailnet) result" where
  "insert_tailnet n now d =
     (let n1 = n\<lparr>tn_id := seq (tailnets d) + 1, tn_created_at := now, tn_updated_at := Some now\<rparr> in
      ensure (\<not> has_row (\<lambda>x. tn_team_id x = tn_team_id n \<and> ascii_lower (tn_name x) = ascii_lower (tn_name n)) (tailnets d))
        UniqueViolation
      (ensure (team_exists d (tn_team_id n)) ForeignKeyViolation
      (Inr (d\<lparr>tailnets := append_row (\<lambda>i. n1\<lparr>tn_id := i\<rparr>) (tailnets d)\<rparr>, n1))))"

subsection \<open>Deleting, with what goes along\<close>

definition delete_approvals :: "(ApprovalRequest \<Rightarrow> bool) \<Rightarrow> db \<Rightarrow> db" where
  "delete_approvals P d = d\<lparr>approval_requests := del P (approval_requests d)\<rparr>"

definition delete_mcps :: "(Mcp \<Rightarrow> bool) \<Rightarrow> db \<Rightarrow> db" where
  "delete_mcps P d =
     (let gone = map mcp_id (filter P (rows (mcps d))) in
      d\<lparr>mcps := del P (mcps d),
        access_token_mcps := del (\<lambda>x. atm_mcp_id x \<in> set gone) (access_token_mcps d),
        approval_requests := del (\<lambda>x. ar_mcp_id x \<in> set gone) (approval_requests d)\<rparr>)"

definition delete_tokens :: "(AccessToken \<Rightarrow> bool) \<Rightarrow> db \<Rightarrow> db" where
  "delete_tokens P d =
     (let gone = map at_id (filter P (rows (access_tokens d))) in
      d\<lparr>access_tokens := del P (access_tokens d),
        access_token_mcps := del (\<lambda>x. atm_access_token_id x \<in> set gone) (access_token_mcps d),
        refresh_token_history := del (\<lambda>x. rh_access_token_id x \<in> set gone) (refresh_token_history d),
        approval_requests := del (\<lambda>x. ar_access_token_id x \<in> set gone) (approval_requests d)\<rparr>)"

definition delete_tailnets :: "(Tailnet \<Rightarrow> bool) \<Rightarrow> db \<Rightarrow> db" where
  "delete_tailnets P d =
     (let gone = map tn_id (filter P (rows (tailnets d))) in
      d\<lparr>tailnets := del P (tailnets d),
        mcps := upd (\<lambda>m. case mcp_tailnet_id m of None \<Rightarrow> False | Some n \<Rightarrow> n \<in> set gone)
                  (\<lambda>m. m\<lparr>mcp_tailnet_id := None\<rparr>) (mcps d)\<rparr>)"

definition delete_clients :: "(OauthClient \<Rightarrow> bool) \<Rightarrow> db \<Rightarrow> db" where
  "delete_clients P d =
     (let gone = map oc_id (filter P (rows (oauth_clients d))) in
      d\<lparr>oauth_clients := del P (oauth_clients d),
        authorization_codes := del (\<lambda>c. code_oauth_client_id c \<in> set gone) (authorization_codes d),
        access_tokens := upd (\<lambda>a. case at_oauth_client_id a of None \<Rightarrow> False | Some c \<Rightarrow> c \<in> set gone)
                  (\<lambda>a. a\<lparr>at_oauth_client_id := None\<rparr>) (access_tokens d)\<rparr>)"

definition delete_team :: "int \<Rightarrow> db \<Rightarrow> db" where
  "delete_team t d =
     (let d = delete_mcps (\<lambda>m. mcp_team_id m = t) d;
          d = delete_tokens (\<lambda>a. at_team_id a = t) d;
          d = delete_tailnets (\<lambda>n. tn_team_id n = t) d in
      d\<lparr>teams := del (\<lambda>x. t_id x = t) (teams d),
        team_user := del (\<lambda>x. tm_team_id x = t) (team_user d),
        invites := del (\<lambda>x. inv_team_id x = t) (invites d),
        authorization_codes := del (\<lambda>x. code_team_id x = t) (authorization_codes d),
        users := upd (\<lambda>u. current_team_id u = Some t) (\<lambda>u. u\<lparr>current_team_id := None\<rparr>) (users d)\<rparr>)"

definition delete_user :: "int \<Rightarrow> db \<Rightarrow> db" where
  "delete_user u d =
     (let d = delete_mcps (\<lambda>m. mcp_created_by m = u) d;
          d = delete_tokens (\<lambda>a. at_created_by a = u) d in
      d\<lparr>users := del (\<lambda>x. u_id x = u) (users d),
        team_user := del (\<lambda>x. tm_user_id x = u) (team_user d),
        invites := del (\<lambda>x. inv_created_by x = u) (invites d),
        authorization_codes := del (\<lambda>x. code_user_id x = u) (authorization_codes d),
        approval_requests := upd (\<lambda>x. decided_by x = Some u) (\<lambda>x. x\<lparr>decided_by := None\<rparr>)
           (approval_requests d),
        recovery_codes := del (\<lambda>x. rc_user_id x = u) (recovery_codes d),
        passkeys := del (\<lambda>x. pk_user_id x = u) (passkeys d),
        remember_me_tokens := del (\<lambda>x. rm_tokenable_id x = u) (remember_me_tokens d)\<rparr>)"

end
