(* ===== verification/Teams.thy ===== *)
theory Teams
  imports Database
begin

text \<open>
  Accounts and teams: \<open>crates/core/src/models/team.rs\<close> and \<open>user.rs\<close>, and the handlers of
  \<open>crates/web/src/routes/teams.rs\<close> and \<open>invites.rs\<close> that change them. A handler takes who is
  signed in and the team they work in as the request read them, which may be out of date, and
  what its validator accepted; it returns the refusal it shows, or the database it commits.
\<close>

section \<open>Roles\<close>

fun rank :: "TeamRole \<Rightarrow> nat" where
  "rank Member = 0"
| "rank Admin = 1"
| "rank Owner = 2"

definition is_admin :: "TeamRole \<Rightarrow> bool" where
  "is_admin r \<longleftrightarrow> rank r \<ge> rank Admin"

definition is_owner :: "TeamRole \<Rightarrow> bool" where
  "is_owner r \<longleftrightarrow> r = Owner"

definition may_grant :: "TeamRole \<Rightarrow> TeamRole \<Rightarrow> bool" where
  "may_grant self role \<longleftrightarrow> is_admin self \<and> rank role \<le> rank self"

definition may_manage :: "TeamRole \<Rightarrow> TeamRole \<Rightarrow> bool" where
  "may_manage self other \<longleftrightarrow> is_admin self \<and> rank other \<le> rank self"

lemma rank_inject: "rank a = rank b \<longleftrightarrow> a = b"
  by (cases a; cases b) simp_all

text \<open>The order \<open>impl Ord for TeamRole\<close> gives.\<close>

definition role_at_most :: "TeamRole \<Rightarrow> TeamRole \<Rightarrow> bool" where
  "role_at_most a b \<longleftrightarrow> rank a \<le> rank b"

instantiation TeamRole :: linorder
begin

definition less_eq_TeamRole :: "TeamRole \<Rightarrow> TeamRole \<Rightarrow> bool" where
  "less_eq_TeamRole = role_at_most"

definition less_TeamRole :: "TeamRole \<Rightarrow> TeamRole \<Rightarrow> bool" where
  "less_TeamRole a b \<longleftrightarrow> role_at_most a b \<and> \<not> role_at_most b a"

instance
  by standard (auto simp: less_eq_TeamRole_def less_TeamRole_def role_at_most_def rank_inject)

end

text \<open>\<open>BY_RANK\<close>: owners first, members last.\<close>

fun by_rank :: "TeamRole \<Rightarrow> nat" where
  "by_rank Owner = 0"
| "by_rank Admin = 1"
| "by_rank Member = 2"

section \<open>Teams\<close>

definition ROOT_ID :: int where
  "ROOT_ID = 1"

record Membership =
  ms_team :: Team
  ms_role :: TeamRole

definition is_root :: "Team \<Rightarrow> bool" where
  "is_root t \<longleftrightarrow> t_id t = ROOT_ID"

definition display_name :: "User \<Rightarrow> string" where
  "display_name u = (case full_name u of Some n \<Rightarrow> if n = [] then email u else n | None \<Rightarrow> email u)"

text \<open>\<open>chars().take(n)\<close> on a text in UTF-8: a byte from 128 to 191 goes on with the character before it.\<close>

definition continues_char :: "char \<Rightarrow> bool" where
  "continues_char c = (let n = (of_char c :: nat) in 128 \<le> n \<and> n < 192)"

fun take_chars :: "nat \<Rightarrow> string \<Rightarrow> string" where
  "take_chars n [] = []"
| "take_chars n (c # s) =
     (if continues_char c then c # take_chars n s
      else case n of 0 \<Rightarrow> [] | Suc k \<Rightarrow> c # take_chars k s)"

definition personal_name :: "User \<Rightarrow> string" where
  "personal_name u = take_chars 113 (display_name u) @ [CHR 0x27] @ ''s Team''"

definition new_team :: "string \<Rightarrow> string option \<Rightarrow> bool \<Rightarrow> Team" where
  "new_team name description personal =
     \<lparr>t_id = 0, t_name = name, t_description = description, personal_team = personal,
      t_created_at = 0, t_updated_at = None\<rparr>"

definition attach :: "int \<Rightarrow> int \<Rightarrow> TeamRole \<Rightarrow> int \<Rightarrow> db \<Rightarrow> (db_error, db) result" where
  "attach t u role now d = insert_team_member t u role now d"

definition create_personal :: "User \<Rightarrow> int \<Rightarrow> db \<Rightarrow> (db_error, db \<times> Team) result" where
  "create_personal user now d =
     (let (d1, team) = insert_team (new_team (personal_name user) None True) now d in
      and_then (attach (t_id team) (u_id user) Owner now d1) (\<lambda>d2. Inr (d2, team)))"

definition create_owned ::
  "string \<Rightarrow> string option \<Rightarrow> User \<Rightarrow> int \<Rightarrow> db \<Rightarrow> (db_error, db \<times> Team) result" where
  "create_owned name description owner now d =
     (let (d1, team) = insert_team (new_team name description False) now d in
      and_then (attach (t_id team) (u_id owner) Owner now d1) (\<lambda>d2. Inr (d2, team)))"

definition role_of :: "db \<Rightarrow> int \<Rightarrow> int \<Rightarrow> TeamRole option" where
  "role_of d t u =
     map_option tm_role (find_row (\<lambda>m. tm_team_id m = t \<and> tm_user_id m = u) (team_user d))"

definition membership :: "db \<Rightarrow> int \<Rightarrow> int \<Rightarrow> Membership option" where
  "membership d t u =
     (case find_row (\<lambda>x. t_id x = t) (teams d) of
        None \<Rightarrow> None
      | Some team \<Rightarrow> map_option (\<lambda>r. \<lparr>ms_team = team, ms_role = r\<rparr>) (role_of d t u))"

definition memberships :: "db \<Rightarrow> int \<Rightarrow> Membership list" where
  "memberships d u =
     List.map_filter (\<lambda>m. if tm_user_id m = u
         then map_option (\<lambda>team. \<lparr>ms_team = team, ms_role = tm_role m\<rparr>)
                (find_row (\<lambda>x. t_id x = tm_team_id m) (teams d))
         else None) (rows (team_user d))"

definition owner_count :: "db \<Rightarrow> int \<Rightarrow> nat" where
  "owner_count d t = count_rows (\<lambda>m. tm_team_id m = t \<and> tm_role m = Owner) (team_user d)"

definition detach :: "int \<Rightarrow> int \<Rightarrow> int \<Rightarrow> db \<Rightarrow> db" where
  "detach t u now d =
     d\<lparr>access_tokens := upd (\<lambda>a. at_team_id a = t \<and> at_created_by a = u \<and> revoked_at a = None)
          (\<lambda>a. a\<lparr>revoked_at := Some now\<rparr>) (access_tokens d),
       authorization_codes := del (\<lambda>c. code_team_id c = t \<and> code_user_id c = u) (authorization_codes d),
       team_user := del (\<lambda>m. tm_team_id m = t \<and> tm_user_id m = u) (team_user d),
       users := upd (\<lambda>x. u_id x = u \<and> current_team_id x = Some t)
          (\<lambda>x. x\<lparr>current_team_id := None\<rparr>) (users d)\<rparr>"

text \<open>\<open>order by BY_RANK, id asc limit 1\<close>: rows are in the order of their ids, and the sort is
  stable.\<close>

definition first_by_rank :: "db \<Rightarrow> int \<Rightarrow> TeamMember option" where
  "first_by_rank d t =
     (case sort_key (\<lambda>m. by_rank (tm_role m)) (filter (\<lambda>m. tm_team_id m = t) (rows (team_user d))) of
        [] \<Rightarrow> None | m # _ \<Rightarrow> Some m)"

definition ensure_owner :: "int \<Rightarrow> int \<Rightarrow> db \<Rightarrow> (db_error, db) result" where
  "ensure_owner t now d =
     (case first_by_rank d t of
        None \<Rightarrow> Inl RowNotFound
      | Some m \<Rightarrow>
          if \<not> is_owner (tm_role m)
          then Inr (d\<lparr>team_user := upd (\<lambda>x. tm_id x = tm_id m)
                  (\<lambda>x. x\<lparr>tm_role := Owner, tm_updated_at := Some now\<rparr>) (team_user d)\<rparr>)
          else Inr d)"

datatype AccountRemovalRefusal = LastSuperAdmin

definition other_super_admins :: "db \<Rightarrow> int \<Rightarrow> nat" where
  "other_super_admins d u = count_rows (\<lambda>x. is_super_admin x \<and> u_id x \<noteq> u) (users d)"

definition account_teams :: "db \<Rightarrow> int \<Rightarrow> (int \<times> nat) list" where
  "account_teams d u =
     map (\<lambda>m. (tm_team_id m,
               count_rows (\<lambda>x. tm_team_id x = tm_team_id m \<and> tm_user_id x \<noteq> u) (team_user d)))
       (filter (\<lambda>m. tm_user_id m = u) (rows (team_user d)))"

fun settle_teams :: "int \<Rightarrow> int \<Rightarrow> (int \<times> nat) list \<Rightarrow> db \<Rightarrow> (db_error, db) result" where
  "settle_teams u now [] d = Inr d"
| "settle_teams u now ((t, others) # ts) d =
     (if others = 0 then settle_teams u now ts (delete_team t d)
      else and_then (ensure_owner t now (detach t u now d)) (settle_teams u now ts))"

text \<open>Who takes over what an account made in a team: \<open>null\<close> when nobody is left in it.\<close>

definition heir :: "db \<Rightarrow> int \<Rightarrow> int option" where
  "heir d t = map_option tm_user_id (first_by_rank d t)"

definition hand_over ::
  "db \<Rightarrow> int \<Rightarrow> ('r \<Rightarrow> int) \<Rightarrow> ('r \<Rightarrow> int) \<Rightarrow> (int \<Rightarrow> 'r \<Rightarrow> 'r) \<Rightarrow> 'r table
     \<Rightarrow> (db_error, 'r table) result" where
  "hand_over d u creator team set_creator t =
     ensure (\<not> has_row (\<lambda>r. creator r = u \<and> heir d (team r) = None) t) NotNullViolation
     (Inr (upd (\<lambda>r. creator r = u) (\<lambda>r. set_creator (the (heir d (team r))) r) t))"

definition hand_over_all :: "int \<Rightarrow> db \<Rightarrow> (db_error, db) result" where
  "hand_over_all u d =
     and_then (hand_over d u mcp_created_by mcp_team_id (\<lambda>c m. m\<lparr>mcp_created_by := c\<rparr>) (mcps d)) (\<lambda>m.
     and_then (hand_over d u at_created_by at_team_id (\<lambda>c a. a\<lparr>at_created_by := c\<rparr>) (access_tokens d)) (\<lambda>a.
     and_then (hand_over d u inv_created_by inv_team_id (\<lambda>c i. i\<lparr>inv_created_by := c\<rparr>) (invites d)) (\<lambda>i.
     and_then (hand_over d u tn_created_by tn_team_id (\<lambda>c n. n\<lparr>tn_created_by := c\<rparr>) (tailnets d)) (\<lambda>n.
     Inr (d\<lparr>mcps := m, access_tokens := a, invites := i, tailnets := n\<rparr>)))))"

definition delete_account ::
  "int \<Rightarrow> int \<Rightarrow> db \<Rightarrow> (db_error, (AccountRemovalRefusal, db) result) result" where
  "delete_account u now d =
     (if other_super_admins d u = 0 then Inr (Inl LastSuperAdmin)
      else and_then (settle_teams u now (account_teams d u) d) (\<lambda>d1.
           and_then (hand_over_all u d1) (\<lambda>d2.
           Inr (Inr (delete_user u d2)))))"

section \<open>Accounts\<close>

text \<open>The scrypt hash of a password is a parameter.\<close>

definition with_password :: "(string \<Rightarrow> string) \<Rightarrow> string \<Rightarrow> string option \<Rightarrow> string \<Rightarrow> User" where
  "with_password hash_password mail name pass =
     \<lparr>u_id = 0, full_name = name, email = mail, password = hash_password pass, u_created_at = 0,
      u_updated_at = None, session_version = 1, current_team_id = None, is_super_admin = False,
      two_factor_secret = None, two_factor_confirmed_at = None, two_factor_last_step = None\<rparr>"

definition create_first :: "User \<Rightarrow> int \<Rightarrow> db \<Rightarrow> (db_error, db \<times> User) result" where
  "create_first user now d =
     and_then (insert_user (user\<lparr>is_super_admin := True\<rparr>) now d) (\<lambda>(d1, user).
     and_then (attach ROOT_ID (u_id user) Owner now d1) (\<lambda>d2. Inr (d2, user)))"

definition create :: "User \<Rightarrow> int \<Rightarrow> db \<Rightarrow> (db_error, db \<times> User \<times> Team) result" where
  "create user now d =
     and_then (insert_user user now d) (\<lambda>(d1, user).
     and_then (create_personal user now d1) (\<lambda>(d2, team). Inr (d2, user, team)))"

definition super_admin_count :: "db \<Rightarrow> nat" where
  "super_admin_count d = count_rows is_super_admin (users d)"

definition set_super_admin :: "int \<Rightarrow> bool \<Rightarrow> int \<Rightarrow> db \<Rightarrow> db \<times> bool" where
  "set_super_admin u super now d =
     (if \<not> super \<and> other_super_admins d u = 0 then (d, False)
      else (d\<lparr>users := upd (\<lambda>x. u_id x = u)
               (\<lambda>x. x\<lparr>is_super_admin := super, u_updated_at := Some now\<rparr>) (users d)\<rparr>, True))"

text \<open>\<open>save\<close> writes the column only when it changed since the row was read.\<close>

definition remember_team :: "User \<Rightarrow> int \<Rightarrow> int \<Rightarrow> db \<Rightarrow> (db_error, db) result" where
  "remember_team user t now d =
     (if current_team_id user = Some t then Inr d
      else ensure (team_exists d t \<or> \<not> user_exists d (u_id user)) ForeignKeyViolation
        (Inr (d\<lparr>users := upd (\<lambda>x. u_id x = u_id user)
                 (\<lambda>x. x\<lparr>current_team_id := Some t, u_updated_at := Some now\<rparr>) (users d)\<rparr>)))"

definition find_by_email :: "db \<Rightarrow> string \<Rightarrow> User option" where
  "find_by_email d mail =
     (case sort_key (\<lambda>u. if email u = mail then 0 else (1 :: nat))
        (filter (\<lambda>u. ascii_lower (email u) = ascii_lower mail) (rows (users d))) of
        [] \<Rightarrow> None | u # _ \<Rightarrow> Some u)"

definition setup_complete :: "db \<Rightarrow> bool" where
  "setup_complete d \<longleftrightarrow> count_rows (\<lambda>_. True) (users d) > 0"

definition verify_credentials ::
  "(string \<Rightarrow> string \<Rightarrow> bool) \<Rightarrow> db \<Rightarrow> string \<Rightarrow> string \<Rightarrow> User option" where
  "verify_credentials verify_password d mail pass =
     (case find_by_email d mail of
        Some u \<Rightarrow> if verify_password (password u) pass then Some u else None
      | None \<Rightarrow> None)"

definition invalidate_sessions :: "int \<Rightarrow> db \<Rightarrow> (db_error, db) result" where
  "invalidate_sessions u d =
     ensure (user_exists d u) RowNotFound
     (Inr (d\<lparr>users := upd (\<lambda>x. u_id x = u)
              (\<lambda>x. x\<lparr>session_version := session_version x + 1\<rparr>) (users d)\<rparr>))"

definition change_password ::
  "(string \<Rightarrow> string) \<Rightarrow> User \<Rightarrow> string \<Rightarrow> int \<Rightarrow> db \<Rightarrow> (db_error, db) result" where
  "change_password hash_password user new now d =
     (let hashed = hash_password new;
          d1 = (if hashed = password user then d
                else d\<lparr>users := upd (\<lambda>x. u_id x = u_id user)
                        (\<lambda>x. x\<lparr>password := hashed, u_updated_at := Some now\<rparr>) (users d)\<rparr>) in
      and_then (invalidate_sessions (u_id user) d1) (\<lambda>d2.
      Inr (d2\<lparr>remember_me_tokens := del (\<lambda>r. rm_tokenable_id r = u_id user) (remember_me_tokens d2)\<rparr>)))"

end
