(* ===== verification/TeamRoutes.thy ===== *)
theory TeamRoutes
  imports Teams
begin

text \<open>
  The handlers of \<open>crates/web/src/routes/teams.rs\<close> and \<open>invites.rs\<close> that write: creating,
  switching, changing and deleting teams, changing and removing members, super admins, account
  deletion, and invites. Route guards and form validation come first in the code; a handler
  here takes what they let through. Flash messages and pages are left out, refusals are kept.
\<close>

text \<open>How a request ends that does not go through: a message shown, a form drawn again, another
  page first, or a database error.\<close>

datatype web_error =
    Refused string | InvalidForm | WrongPassword | TooManyAttempts | OtherAccount | SignInFirst
  | Failed db_error

definition db_call :: "(db_error, 'a) result \<Rightarrow> (web_error, 'a) result" where
  "db_call r = (case r of Inl e \<Rightarrow> Inl (Failed e) | Inr x \<Rightarrow> Inr x)"

lemma db_call_simps [simp]:
  "db_call (Inl e) = Inl (Failed e)" "db_call (Inr x) = Inr x"
  by (simp_all add: db_call_def)

lemma db_call_eq_Inr [result_simps]: "db_call r = Inr x \<longleftrightarrow> r = Inr x"
  by (cases r) simp_all

record Session =
  session_team :: "int option"

section \<open>Signing up\<close>

text \<open>The transactions of \<open>crates/web/src/routes/auth.rs\<close>: the first account, then any other
  while registration is open.\<close>

definition onboarding :: "User \<Rightarrow> int \<Rightarrow> db \<Rightarrow> (db_error, db \<times> User option) result" where
  "onboarding user now d =
     (if setup_complete d then Inr (d, None)
      else and_then (create_first user now d) (\<lambda>(d1, created). Inr (d1, Some created)))"

definition REGISTRATION_DISABLED :: string where
  "REGISTRATION_DISABLED = ''Registration is disabled on this instance''"

definition register :: "bool \<Rightarrow> User \<Rightarrow> int \<Rightarrow> db \<Rightarrow> (web_error, db \<times> User) result" where
  "register registration_enabled user now d =
     ensure registration_enabled (Refused REGISTRATION_DISABLED)
     (ensure (find_by_email d (email user) = None) (Refused ''The email has already been taken'')
     (and_then (db_call (create user now d)) (\<lambda>(d1, created, _). Inr (d1, created))))"

definition logout :: "User \<Rightarrow> db \<Rightarrow> (db_error, db) result" where
  "logout user d = invalidate_sessions (u_id user) d"

section \<open>Teams\<close>

definition resolve_teams ::
  "User \<Rightarrow> Session \<Rightarrow> int \<Rightarrow> db \<Rightarrow> (db_error, db \<times> Session \<times> Membership list \<times> Membership) result" where
  "resolve_teams user s now d =
     and_then
       (if memberships d (u_id user) = []
        then and_then (create_personal user now d)
               (\<lambda>(d1, team). Inr (d1, [\<lparr>ms_team = team, ms_role = Owner\<rparr>]))
        else Inr (d, memberships d (u_id user)))
       (\<lambda>(d1, ts).
          let wanted = List.map_filter id [session_team s, current_team_id user];
              chosen = List.map_filter (\<lambda>i. find (\<lambda>m. t_id (ms_team m) = i) ts) wanted;
              current = (case chosen of [] \<Rightarrow> hd ts | m # _ \<Rightarrow> m) in
          Inr (d1, s\<lparr>session_team := Some (t_id (ms_team current))\<rparr>, ts, current))"

definition switch_team :: "User \<Rightarrow> int \<Rightarrow> Session \<Rightarrow> int \<Rightarrow> db \<Rightarrow> db \<times> Session \<times> (web_error, unit) result" where
  "switch_team user t s now d =
     (case remember_team user t now d of
        Inl e \<Rightarrow> (d, s\<lparr>session_team := Some t\<rparr>, Inl (Failed e))
      | Inr d1 \<Rightarrow> (d1, s\<lparr>session_team := Some t\<rparr>, Inr ()))"

definition given_description :: "string option \<Rightarrow> string option" where
  "given_description x = (case x of Some s \<Rightarrow> if s = [] then None else Some s | None \<Rightarrow> None)"

definition store_team ::
  "User \<Rightarrow> string \<Rightarrow> string option \<Rightarrow> Session \<Rightarrow> int \<Rightarrow> db \<Rightarrow> db \<times> Session \<times> (web_error, unit) result" where
  "store_team user name description s now d =
     (case create_owned name (given_description description) user now d of
        Inl e \<Rightarrow> (d, s, Inl (Failed e))
      | Inr (d1, team) \<Rightarrow> switch_team user (t_id team) s now d1)"

definition switch_handler ::
  "User \<Rightarrow> Membership list \<Rightarrow> int option \<Rightarrow> Session \<Rightarrow> int \<Rightarrow> db \<Rightarrow> db \<times> Session \<times> (web_error, unit) result" where
  "switch_handler user ts choice s now d =
     (case (case choice of None \<Rightarrow> None | Some t \<Rightarrow> find (\<lambda>m. t_id (ms_team m) = t) ts) of
        None \<Rightarrow> (d, s, Inl (Refused ''Team not found''))
      | Some m \<Rightarrow> switch_team user (t_id (ms_team m)) s now d)"

definition update_team :: "Membership \<Rightarrow> string \<Rightarrow> string option \<Rightarrow> int \<Rightarrow> db \<Rightarrow> db" where
  "update_team team name description now d =
     (let old = ms_team team; new_description = given_description description in
      if t_name old = name \<and> t_description old = new_description then d
      else d\<lparr>teams := upd (\<lambda>t. t_id t = t_id old)
               (\<lambda>t. t\<lparr>t_name := (if t_name old = name then t_name t else name),
                      t_description := (if t_description old = new_description then t_description t
                                        else new_description),
                      t_updated_at := Some now\<rparr>) (teams d)\<rparr>)"

definition destroy_team :: "Membership \<Rightarrow> db \<Rightarrow> (web_error, db) result" where
  "destroy_team team d =
     ensure (is_owner (ms_role team)) (Refused ''Only an owner can delete a team'')
     (ensure (\<not> is_root (ms_team team)) (Refused ''The Root Team cannot be deleted'')
     (ensure (\<not> personal_team (ms_team team)) (Refused ''A personal team cannot be deleted'')
     (ensure (\<not> has_row (\<lambda>m. mcp_team_id m = t_id (ms_team team)) (mcps d))
        (Refused ''Delete the MCPs of this team first'')
     (Inr (delete_team (t_id (ms_team team)) d)))))"

section \<open>Members\<close>

definition find_account :: "db \<Rightarrow> int option \<Rightarrow> User option" where
  "find_account d i = (case i of None \<Rightarrow> None | Some i \<Rightarrow> find_row (\<lambda>u. u_id u = i) (users d))"

definition MEMBER_NOT_FOUND :: string where
  "MEMBER_NOT_FOUND = ''Member not found''"

definition member_refusal :: "db \<Rightarrow> int \<Rightarrow> User \<Rightarrow> User \<Rightarrow> string \<Rightarrow> string \<Rightarrow> string option" where
  "member_refusal d t actor member own higher =
     (case role_of d t (u_id member) of
        None \<Rightarrow> Some MEMBER_NOT_FOUND
      | Some member_role \<Rightarrow>
          if u_id member = u_id actor then Some own
          else if \<not> (case role_of d t (u_id actor) of None \<Rightarrow> False | Some r \<Rightarrow> may_manage r member_role)
          then Some higher
          else None)"

text \<open>The member is looked up before the transaction, in \<open>d0\<close>; the transaction runs on \<open>d\<close>.\<close>

definition update_member ::
  "User \<Rightarrow> int \<Rightarrow> int option \<Rightarrow> TeamRole option \<Rightarrow> int \<Rightarrow> db \<Rightarrow> db \<Rightarrow> (web_error, db) result" where
  "update_member actor t i choice now d0 d =
     (case find_account d0 i of
        None \<Rightarrow> Inl (Refused MEMBER_NOT_FOUND)
      | Some member \<Rightarrow>
     (case choice of
        None \<Rightarrow> Inl (Refused ''Choose a role: member, admin or owner'')
      | Some role \<Rightarrow>
     (case member_refusal d t actor member ''You cannot change your own role''
             ''Only an owner can change an owner'' of
        Some message \<Rightarrow> Inl (Refused message)
      | None \<Rightarrow>
          ensure (case role_of d t (u_id actor) of None \<Rightarrow> False | Some r \<Rightarrow> may_grant r role)
            (Refused ''Only an owner can make someone an owner'')
            (Inr (d\<lparr>team_user := upd (\<lambda>m. tm_team_id m = t \<and> tm_user_id m = u_id member)
                     (\<lambda>m. m\<lparr>tm_role := role, tm_updated_at := Some now\<rparr>) (team_user d)\<rparr>)))))"

definition destroy_member ::
  "User \<Rightarrow> int \<Rightarrow> int option \<Rightarrow> int \<Rightarrow> db \<Rightarrow> db \<Rightarrow> (web_error, db) result" where
  "destroy_member actor t i now d0 d =
     (case find_account d0 i of
        None \<Rightarrow> Inl (Refused MEMBER_NOT_FOUND)
      | Some member \<Rightarrow>
     (case member_refusal d t actor member ''You cannot remove yourself from a team''
             ''Only an owner can remove an owner'' of
        Some message \<Rightarrow> Inl (Refused message)
      | None \<Rightarrow> Inr (detach t (u_id member) now d)))"

section \<open>Super admins and accounts\<close>

definition SUPER_ADMIN_REQUIRED :: string where
  "SUPER_ADMIN_REQUIRED = ''Super admin access required''"

definition LAST_SUPER_ADMIN :: string where
  "LAST_SUPER_ADMIN = ''The instance needs at least one super admin''"

datatype UserDialog = DialogSuperAdmin | DialogProtection | DialogDelete

fun own_account_refusal :: "UserDialog \<Rightarrow> string" where
  "own_account_refusal DialogSuperAdmin = ''You cannot change your own super admin access''"
| "own_account_refusal DialogProtection = ''Turn your own sign-in protection off under Settings''"
| "own_account_refusal DialogDelete = ''You cannot delete your own account''"

datatype PasswordCheck = Confirmed | Wrong | Limited

definition still_super_admin :: "db \<Rightarrow> User \<Rightarrow> bool" where
  "still_super_admin d actor =
     (case find_row (\<lambda>u. u_id u = u_id actor) (users d) of None \<Rightarrow> False | Some u \<Rightarrow> is_super_admin u)"

text \<open>What every dialog of the Users page checks before its transaction.\<close>

definition user_dialog_checks ::
  "UserDialog \<Rightarrow> User \<Rightarrow> int option \<Rightarrow> PasswordCheck \<Rightarrow> db \<Rightarrow> (web_error, User) result" where
  "user_dialog_checks dialog actor i check d0 =
     (case find_account d0 i of
        None \<Rightarrow> Inl (Refused ''User not found'')
      | Some account \<Rightarrow>
          ensure (u_id account \<noteq> u_id actor) (Refused (own_account_refusal dialog))
          (case check of
             Confirmed \<Rightarrow> Inr account
           | Wrong \<Rightarrow> Inl WrongPassword
           | Limited \<Rightarrow> Inl TooManyAttempts))"

definition update_super_admin ::
  "User \<Rightarrow> int option \<Rightarrow> bool \<Rightarrow> PasswordCheck \<Rightarrow> int \<Rightarrow> db \<Rightarrow> db \<Rightarrow> (web_error, db) result" where
  "update_super_admin actor i super check now d0 d =
     and_then (user_dialog_checks DialogSuperAdmin actor i check d0) (\<lambda>account.
     ensure (still_super_admin d actor) (Refused SUPER_ADMIN_REQUIRED)
     (let (d1, ok) = set_super_admin (u_id account) super now d in
      ensure ok (Refused LAST_SUPER_ADMIN) (Inr d1)))"

definition destroy_user ::
  "User \<Rightarrow> int option \<Rightarrow> PasswordCheck \<Rightarrow> int \<Rightarrow> db \<Rightarrow> db \<Rightarrow> (web_error, db) result" where
  "destroy_user actor i check now d0 d =
     and_then (user_dialog_checks DialogDelete actor i check d0) (\<lambda>account.
     ensure (still_super_admin d actor) (Refused SUPER_ADMIN_REQUIRED)
     (and_then (db_call (delete_account (u_id account) now d)) (\<lambda>r.
      case r of Inl LastSuperAdmin \<Rightarrow> Inl (Refused LAST_SUPER_ADMIN) | Inr d1 \<Rightarrow> Inr d1)))"

section \<open>Invites\<close>

definition INVITE_DAYS :: int where
  "INVITE_DAYS = 7"

definition is_accepted :: "Invite \<Rightarrow> bool" where
  "is_accepted i \<longleftrightarrow> accepted_at i \<noteq> None"

definition invite_is_expired :: "Invite \<Rightarrow> int \<Rightarrow> bool" where
  "invite_is_expired i now \<longleftrightarrow> inv_expires_at i < now"

definition invite_is_usable :: "Invite \<Rightarrow> int \<Rightarrow> bool" where
  "invite_is_usable i now \<longleftrightarrow> \<not> is_accepted i \<and> \<not> invite_is_expired i now"

definition insert_invite :: "Invite \<Rightarrow> int \<Rightarrow> db \<Rightarrow> (db_error, db) result" where
  "insert_invite i now d =
     ensure (\<not> has_row (\<lambda>x. inv_token x = inv_token i) (invites d)) UniqueViolation
     (ensure (team_exists d (inv_team_id i) \<and> user_exists d (inv_created_by i)) ForeignKeyViolation
     (Inr (d\<lparr>invites := append_row (\<lambda>n. i\<lparr>inv_id := n, inv_created_at := now,
              inv_updated_at := Some now\<rparr>) (invites d)\<rparr>)))"

text \<open>The random token of the link is an argument.\<close>

definition store_invite ::
  "User \<Rightarrow> Membership \<Rightarrow> string \<Rightarrow> TeamRole option \<Rightarrow> string \<Rightarrow> int \<Rightarrow> db \<Rightarrow> (web_error, db) result" where
  "store_invite user team mail choice token now d =
     (let role = (case choice of None \<Rightarrow> Member | Some r \<Rightarrow> r);
          t = t_id (ms_team team) in
      ensure (may_grant (ms_role team) role) (Refused ''Only an owner can invite an owner'')
      (ensure (\<not> has_row (\<lambda>u. ascii_lower (email u) = ascii_lower mail \<and>
                 has_row (\<lambda>m. tm_team_id m = t \<and> tm_user_id m = u_id u) (team_user d)) (users d))
         (Refused ''That person is already a member of this team'')
      (ensure (\<not> has_row (\<lambda>i. inv_team_id i = t \<and> ascii_lower (inv_email i) = ascii_lower mail
                 \<and> accepted_at i = None \<and> inv_expires_at i > now) (invites d))
         (Refused ''A pending invite already exists for that email'')
      (db_call (insert_invite
         \<lparr>inv_id = 0, inv_token = token, inv_email = mail, inv_role = role,
          inv_created_by = u_id user, accepted_at = None,
          inv_expires_at = now + INVITE_DAYS * 86400, inv_created_at = 0, inv_updated_at = None,
          inv_team_id = t\<rparr> now d)))))"

definition destroy_invite :: "Membership \<Rightarrow> int option \<Rightarrow> db \<Rightarrow> (web_error, db) result" where
  "destroy_invite team i d =
     (case (case i of None \<Rightarrow> None | Some i \<Rightarrow> find_row (\<lambda>x. inv_id x = i) (invites d)) of
        None \<Rightarrow> Inl (Refused ''Invite not found'')
      | Some x \<Rightarrow>
          ensure (inv_team_id x = t_id (ms_team team) \<and> may_grant (ms_role team) (inv_role x))
            (Refused ''Invite not found'')
            (Inr (d\<lparr>invites := del (\<lambda>y. inv_id y = inv_id x) (invites d)\<rparr>)))"

definition find_by_token :: "db \<Rightarrow> string \<Rightarrow> Invite option" where
  "find_by_token d token = find_row (\<lambda>i. inv_token i = token) (invites d)"

definition is_invited :: "db \<Rightarrow> User \<Rightarrow> Invite \<Rightarrow> bool" where
  "is_invited d user i =
     (case find_by_email d (inv_email i) of None \<Rightarrow> False | Some a \<Rightarrow> u_id a = u_id user)"

definition find_usable :: "db \<Rightarrow> string \<Rightarrow> int \<Rightarrow> Invite option" where
  "find_usable d token now =
     (case find_by_token d token of
        None \<Rightarrow> None | Some i \<Rightarrow> if invite_is_usable i now then Some i else None)"

definition usable_invite :: "db \<Rightarrow> string \<Rightarrow> int \<Rightarrow> (Invite \<times> Team) option" where
  "usable_invite d token now =
     (case find_usable d token now of
        None \<Rightarrow> None
      | Some i \<Rightarrow> map_option (\<lambda>t. (i, t)) (find_row (\<lambda>t. t_id t = inv_team_id i) (teams d)))"

definition INVALID_INVITE :: string where
  "INVALID_INVITE = ''This invite is invalid or has expired''"

definition mark_accepted :: "Invite \<Rightarrow> int \<Rightarrow> db \<Rightarrow> db" where
  "mark_accepted i now d =
     d\<lparr>invites := upd (\<lambda>x. inv_id x = inv_id i)
        (\<lambda>x. x\<lparr>accepted_at := Some now, inv_updated_at := Some now\<rparr>) (invites d)\<rparr>"

text \<open>Accepting with the account that is signed in: the transaction reads the invite again.\<close>

definition accept_signed_in ::
  "User \<Rightarrow> Invite \<Rightarrow> int \<Rightarrow> db \<Rightarrow> (web_error, db \<times> Invite) result" where
  "accept_signed_in user seen now d =
     ensure (is_invited d user seen) OtherAccount
     (case find_usable d (inv_token seen) now of
        None \<Rightarrow> Inl (Refused INVALID_INVITE)
      | Some i \<Rightarrow>
          and_then
            (if role_of d (inv_team_id i) (u_id user) = None
             then db_call (attach (inv_team_id i) (u_id user) (inv_role i) now d) else Inr d)
            (\<lambda>d1. Inr (mark_accepted i now d1, i)))"

text \<open>Accepting with a new account for the invited address.\<close>

definition accept_visitor :: "User \<Rightarrow> Invite \<Rightarrow> int \<Rightarrow> db \<Rightarrow> (web_error, db \<times> User \<times> Invite) result" where
  "accept_visitor user seen now d =
     (case find_usable d (inv_token seen) now of
        None \<Rightarrow> Inl (Refused INVALID_INVITE)
      | Some i \<Rightarrow>
          ensure (find_by_email d (inv_email i) = None) SignInFirst
          (and_then (db_call (create (user\<lparr>email := inv_email i\<rparr>) now d)) (\<lambda>(d1, created, personal).
           and_then (db_call (attach (inv_team_id i) (u_id created) (inv_role i) now d1)) (\<lambda>d2.
           and_then (db_call (remember_team created (inv_team_id i) now d2)) (\<lambda>d3.
           Inr (mark_accepted i now d3, created, i))))))"

text \<open>The whole handler. The link is first read outside the transaction, in \<open>d0\<close>; afterwards
  the browser works in the team.\<close>

definition accept ::
  "(string \<Rightarrow> string) \<Rightarrow> User option \<Rightarrow> string option \<Rightarrow> (string \<times> string) option \<Rightarrow> Session \<Rightarrow> int
     \<Rightarrow> db \<Rightarrow> db \<Rightarrow> db \<times> Session \<times> (web_error, unit) result" where
  "accept hash_password user token payload s now d0 d =
     (case (case token of None \<Rightarrow> None | Some t \<Rightarrow> usable_invite d0 t now) of
        None \<Rightarrow> (d, s, Inl (Refused INVALID_INVITE))
      | Some (seen, _) \<Rightarrow>
     (case user of
        Some user \<Rightarrow>
          (case accept_signed_in user seen now d of
             Inl e \<Rightarrow> (d, s, Inl e)
           | Inr (d1, i) \<Rightarrow> switch_team user (inv_team_id i) s now d1)
      | None \<Rightarrow>
          if find_by_email d0 (inv_email seen) \<noteq> None then (d, s, Inl SignInFirst)
          else
          (case payload of
             None \<Rightarrow> (d, s, Inl InvalidForm)
           | Some (name, pass) \<Rightarrow>
               (case accept_visitor (with_password hash_password (inv_email seen) (Some name) pass)
                       seen now d of
                  Inl e \<Rightarrow> (d, s, Inl e)
                | Inr (d1, created, i) \<Rightarrow> (d1, s\<lparr>session_team := Some (inv_team_id i)\<rparr>, Inr ())))))"

end
