(* ===== verification/TeamInvariants.thy ===== *)
theory TeamInvariants
  imports TeamRoutes
begin

text \<open>
  What stays true of accounts and teams whatever requests are answered, in whatever order:
  every team has an owner, the instance has a super admin, live credentials belong to members,
  and every reference names a row that exists.
\<close>

section \<open>The invariant\<close>

definition is_member :: "db \<Rightarrow> int \<Rightarrow> int \<Rightarrow> bool" where
  "is_member d t u \<longleftrightarrow> (\<exists>m \<in> set (rows (team_user d)). tm_team_id m = t \<and> tm_user_id m = u)"

definition ids_ok :: "db \<Rightarrow> bool" where
  "ids_ok d \<longleftrightarrow> table_ok u_id (users d) \<and> table_ok t_id (teams d) \<and> table_ok tm_id (team_user d)"

definition members_ok :: "db \<Rightarrow> bool" where
  "members_ok d \<longleftrightarrow>
     distinct (map (\<lambda>m. (tm_team_id m, tm_user_id m)) (rows (team_user d)))
     \<and> (\<forall>m \<in> set (rows (team_user d)). team_exists d (tm_team_id m) \<and> user_exists d (tm_user_id m))"

definition has_owner :: "db \<Rightarrow> int \<Rightarrow> bool" where
  "has_owner d t \<longleftrightarrow> (\<exists>m \<in> set (rows (team_user d)). tm_team_id m = t \<and> tm_role m = Owner)"

definition owned :: "db \<Rightarrow> bool" where
  "owned d \<longleftrightarrow> (\<forall>t \<in> set (rows (teams d)). has_owner d (t_id t))"

definition governed :: "db \<Rightarrow> bool" where
  "governed d \<longleftrightarrow> (\<exists>u \<in> set (rows (users d)). is_super_admin u)"

text \<open>
  Who made a live credential is a member of its team, except for the memberships in \<open>late\<close>: those that a request
  had read before it wrote a token or a code, and that were gone when it wrote. With \<open>{}\<close> every such write
  found the membership that its request had read.
\<close>

definition creds_ok :: "(int \<times> int) set \<Rightarrow> db \<Rightarrow> bool" where
  "creds_ok late d \<longleftrightarrow>
     (\<forall>a \<in> set (rows (access_tokens d)).
        revoked_at a = None \<longrightarrow> is_member d (at_team_id a) (at_created_by a) \<or> (at_team_id a, at_created_by a) \<in> late)
     \<and> (\<forall>c \<in> set (rows (authorization_codes d)).
        is_member d (code_team_id c) (code_user_id c) \<or> (code_team_id c, code_user_id c) \<in> late)"

definition refs_ok :: "db \<Rightarrow> bool" where
  "refs_ok d \<longleftrightarrow>
     (\<forall>m \<in> set (rows (mcps d)). team_exists d (mcp_team_id m) \<and> user_exists d (mcp_created_by m))
     \<and> (\<forall>a \<in> set (rows (access_tokens d)). team_exists d (at_team_id a) \<and> user_exists d (at_created_by a))
     \<and> (\<forall>c \<in> set (rows (authorization_codes d)). team_exists d (code_team_id c) \<and> user_exists d (code_user_id c))
     \<and> (\<forall>i \<in> set (rows (invites d)). team_exists d (inv_team_id i) \<and> user_exists d (inv_created_by i))
     \<and> (\<forall>n \<in> set (rows (tailnets d)). team_exists d (tn_team_id n))"

definition team_inv :: "(int \<times> int) set \<Rightarrow> db \<Rightarrow> bool" where
  "team_inv late d \<longleftrightarrow>
     ids_ok d \<and> members_ok d \<and> owned d \<and> governed d \<and> creds_ok late d \<and> refs_ok d"

lemmas team_inv_parts = ids_ok_def members_ok_def owned_def has_owner_def governed_def creds_ok_def
  refs_ok_def is_member_def

lemma role_of_None: "role_of d t u = None \<longleftrightarrow> \<not> is_member d t u"
  by (auto simp: role_of_def is_member_def find_row_None)

lemma role_of_Some:
  assumes "role_of d t u = Some r"
  shows "\<exists>m \<in> set (rows (team_user d)). tm_team_id m = t \<and> tm_user_id m = u \<and> tm_role m = r"
  using assms by (auto simp: role_of_def dest!: find_row_Some)

lemma role_of_unique:
  assumes "members_ok d" and "m \<in> set (rows (team_user d))"
  shows "role_of d (tm_team_id m) (tm_user_id m) = Some (tm_role m)"
  using find_by_key [of "\<lambda>m. (tm_team_id m, tm_user_id m)" "rows (team_user d)" m] assms
  by (simp add: members_ok_def role_of_def find_row_def)

section \<open>The first member by rank\<close>

lemma first_by_rank_Some:
  assumes "first_by_rank d t = Some m"
  shows "m \<in> set (rows (team_user d))" "tm_team_id m = t"
    and "\<And>x. x \<in> set (rows (team_user d)) \<Longrightarrow> tm_team_id x = t \<Longrightarrow> by_rank (tm_role m) \<le> by_rank (tm_role x)"
proof -
  let ?ms = "filter (\<lambda>m. tm_team_id m = t) (rows (team_user d))"
  obtain ms where s: "sort_key (\<lambda>m. by_rank (tm_role m)) ?ms = m # ms"
    using assms by (auto simp: first_by_rank_def split: list.splits)
  then have eq: "set ?ms = insert m (set ms)"
    by (metis set_sort list.simps(15))
  then show "m \<in> set (rows (team_user d))" "tm_team_id m = t"
    by auto
  have "sorted (map (\<lambda>m. by_rank (tm_role m)) (m # ms))"
    by (metis s sorted_sort_key)
  then show "by_rank (tm_role m) \<le> by_rank (tm_role x)"
    if "x \<in> set (rows (team_user d))" "tm_team_id x = t" for x
    using that eq by auto
qed

lemma first_by_rank_None:
  "first_by_rank d t = None \<longleftrightarrow> (\<forall>m \<in> set (rows (team_user d)). tm_team_id m \<noteq> t)"
proof -
  let ?ms = "filter (\<lambda>m. tm_team_id m = t) (rows (team_user d))"
  have "first_by_rank d t = None \<longleftrightarrow> sort_key (\<lambda>m. by_rank (tm_role m)) ?ms = []"
    by (simp add: first_by_rank_def split: list.splits)
  also have "\<dots> \<longleftrightarrow> ?ms = []"
    by (metis set_empty set_sort)
  finally show ?thesis
    by (simp add: filter_empty_conv)
qed

lemma first_by_rank_owner:
  assumes "has_owner d t"
  shows "\<exists>m. first_by_rank d t = Some m \<and> tm_role m = Owner"
proof -
  obtain o' where o: "o' \<in> set (rows (team_user d))" "tm_team_id o' = t" "tm_role o' = Owner"
    using assms by (auto simp: has_owner_def)
  then obtain m where m: "first_by_rank d t = Some m"
    using first_by_rank_None [of d t] by (cases "first_by_rank d t") auto
  then have "by_rank (tm_role m) \<le> 0"
    using first_by_rank_Some(3) [OF m o(1,2)] o(3) by simp
  then show ?thesis
    using m by (cases "tm_role m") auto
qed

section \<open>Deleting a team\<close>

lemma delete_team_fields:
  "users (delete_team t d) =
     upd (\<lambda>u. current_team_id u = Some t) (\<lambda>u. u\<lparr>current_team_id := None\<rparr>) (users d)"
  "teams (delete_team t d) = del (\<lambda>x. t_id x = t) (teams d)"
  "team_user (delete_team t d) = del (\<lambda>x. tm_team_id x = t) (team_user d)"
  "access_tokens (delete_team t d) = del (\<lambda>a. at_team_id a = t) (access_tokens d)"
  "authorization_codes (delete_team t d) = del (\<lambda>x. code_team_id x = t) (authorization_codes d)"
  "invites (delete_team t d) = del (\<lambda>x. inv_team_id x = t) (invites d)"
  "tailnets (delete_team t d) = del (\<lambda>n. tn_team_id n = t) (tailnets d)"
  by (simp_all add: delete_team_def delete_mcps_def delete_tokens_def delete_tailnets_def Let_def)

lemma delete_team_mcps:
  "set (rows (mcps (delete_team t d))) \<subseteq>
     {m\<lparr>mcp_tailnet_id := n\<rparr> | m n. m \<in> set (rows (mcps d)) \<and> mcp_team_id m \<noteq> t}"
proof -
  have "r \<in> {m\<lparr>mcp_tailnet_id := n\<rparr> | m n. m \<in> set (rows (mcps d)) \<and> mcp_team_id m \<noteq> t}"
    if "r \<in> set (rows (mcps d))" "mcp_team_id r \<noteq> t" for r
    using that by (intro CollectI exI [of _ r] exI [of _ "mcp_tailnet_id r"]) simp
  then show ?thesis
    by (auto simp: delete_team_def delete_mcps_def delete_tokens_def delete_tailnets_def Let_def
        table_simps)
qed

lemma delete_team_inv:
  assumes "team_inv late d"
  shows "team_inv late (delete_team t d)"
proof -
  have "ids_ok (delete_team t d)"
    using assms by (simp add: team_inv_def ids_ok_def delete_team_fields table_ok_del table_ok_upd)
  moreover have users: "user_exists (delete_team t d) u \<longleftrightarrow> user_exists d u" for u
    by (simp add: delete_team_fields)
  have teams: "team_exists (delete_team t d) x \<longleftrightarrow> team_exists d x \<and> x \<noteq> t" for x
    by (auto simp: delete_team_fields table_simps)
  have "members_ok (delete_team t d)"
    using assms unfolding team_inv_def members_ok_def users teams
    by (auto simp: delete_team_fields distinct_map_delete_where set_delete_where)
  moreover have "owned (delete_team t d)"
    using assms by (fastforce simp: team_inv_def owned_def has_owner_def delete_team_fields set_delete_where)
  moreover have "governed (delete_team t d)"
    using assms by (simp add: team_inv_def governed_def delete_team_fields bex_update_where)
  moreover have "creds_ok late (delete_team t d)"
    using assms by (fastforce simp: team_inv_def creds_ok_def is_member_def delete_team_fields set_delete_where)
  moreover have "refs_ok (delete_team t d)"
    using assms delete_team_mcps [of t d] unfolding team_inv_def refs_ok_def users teams
    by (fastforce simp: delete_team_fields set_delete_where)
  ultimately show ?thesis
    by (simp add: team_inv_def)
qed

section \<open>Leaving a team\<close>

lemma detach_fields:
  "teams (detach t u now d) = teams d"
  "mcps (detach t u now d) = mcps d"
  "invites (detach t u now d) = invites d"
  "tailnets (detach t u now d) = tailnets d"
  "team_user (detach t u now d) = del (\<lambda>m. tm_team_id m = t \<and> tm_user_id m = u) (team_user d)"
  "users (detach t u now d) = upd (\<lambda>x. u_id x = u \<and> current_team_id x = Some t)
     (\<lambda>x. x\<lparr>current_team_id := None\<rparr>) (users d)"
  "access_tokens (detach t u now d) =
     upd (\<lambda>a. at_team_id a = t \<and> at_created_by a = u \<and> revoked_at a = None)
       (\<lambda>a. a\<lparr>revoked_at := Some now\<rparr>) (access_tokens d)"
  "authorization_codes (detach t u now d) =
     del (\<lambda>c. code_team_id c = t \<and> code_user_id c = u) (authorization_codes d)"
  by (simp_all add: detach_def)

lemma is_member_detach:
  "is_member (detach t u now d) t' u' \<longleftrightarrow> is_member d t' u' \<and> \<not> (t' = t \<and> u' = u)"
  by (auto simp: is_member_def detach_fields bex_delete_where)

lemma has_owner_detach: "t' \<noteq> t \<Longrightarrow> has_owner (detach t u now d) t' \<longleftrightarrow> has_owner d t'"
  by (auto simp: has_owner_def detach_fields bex_delete_where)

text \<open>All of the invariant but the owner of the team that was left.\<close>

lemma detach_inv:
  assumes "team_inv late d"
  shows "ids_ok (detach t u now d)" "members_ok (detach t u now d)" "governed (detach t u now d)"
    and "creds_ok late (detach t u now d)" "refs_ok (detach t u now d)"
    and "\<And>x. x \<in> set (rows (teams d)) \<Longrightarrow> t_id x \<noteq> t \<Longrightarrow> has_owner (detach t u now d) (t_id x)"
proof -
  note inv = assms [unfolded team_inv_def]
  show "ids_ok (detach t u now d)"
    using inv by (simp add: ids_ok_def detach_fields table_ok_del table_ok_upd)
  have refs: "user_exists (detach t u now d) x \<longleftrightarrow> user_exists d x"
    "team_exists (detach t u now d) x \<longleftrightarrow> team_exists d x" for x
    by (simp_all add: detach_fields)
  show "members_ok (detach t u now d)"
    using inv unfolding members_ok_def refs
    by (simp add: detach_fields distinct_map_delete_where ball_delete_where)
  show "governed (detach t u now d)"
    using inv by (simp add: governed_def detach_fields bex_update_where)
  show "creds_ok late (detach t u now d)"
    using inv unfolding creds_ok_def is_member_detach
    by (auto simp: detach_fields set_update_where set_delete_where)
  show "refs_ok (detach t u now d)"
    using inv unfolding refs_ok_def refs
    by (simp add: detach_fields ball_update_where ball_delete_where)
  show "has_owner (detach t u now d) (t_id x)" if "x \<in> set (rows (teams d))" "t_id x \<noteq> t" for x
    using inv that by (simp add: owned_def has_owner_detach)
qed

lemma ensure_owner_ok:
  assumes "is_member d t v"
  shows "\<exists>d'. ensure_owner t now d = Inr d'"
  using assms first_by_rank_None [of d t]
  by (auto simp: ensure_owner_def is_member_def split: option.splits)

text \<open>Giving members another role changes who owns, and nothing else.\<close>

definition set_roles :: "(TeamMember \<Rightarrow> bool) \<Rightarrow> TeamRole \<Rightarrow> int \<Rightarrow> db \<Rightarrow> db" where
  "set_roles P r now d =
     d\<lparr>team_user := upd P (\<lambda>x. x\<lparr>tm_role := r, tm_updated_at := Some now\<rparr>) (team_user d)\<rparr>"

lemma set_roles_keeps:
  "is_member (set_roles P r now d) = is_member d"
  "ids_ok (set_roles P r now d) \<longleftrightarrow> ids_ok d"
  "members_ok (set_roles P r now d) \<longleftrightarrow> members_ok d"
  "governed (set_roles P r now d) \<longleftrightarrow> governed d"
  "creds_ok late (set_roles P r now d) \<longleftrightarrow> creds_ok late d"
  "refs_ok (set_roles P r now d) \<longleftrightarrow> refs_ok d"
  "teams (set_roles P r now d) = teams d"
proof -
  show m: "is_member (set_roles P r now d) = is_member d"
    by (simp add: is_member_def fun_eq_iff set_roles_def bex_update_where)
  show "creds_ok late (set_roles P r now d) \<longleftrightarrow> creds_ok late d"
    unfolding creds_ok_def m by (simp add: set_roles_def)
qed (simp_all add: set_roles_def ids_ok_def table_ok_def map_update_where_same ball_update_where
       members_ok_def governed_def refs_ok_def)

lemma set_roles_owner:
  "has_owner (set_roles P r now d) t \<longleftrightarrow>
     (\<exists>m \<in> set (rows (team_user d)). tm_team_id m = t \<and> (if P m then r = Owner else tm_role m = Owner))"
  by (simp add: set_roles_def has_owner_def bex_update_where_if)

lemma ensure_owner_cases:
  assumes "ensure_owner t now d = Inr d'"
  shows "(has_owner d t \<and> d' = d) \<or>
    (\<exists>m \<in> set (rows (team_user d)). tm_team_id m = t \<and> d' = set_roles (\<lambda>x. tm_id x = tm_id m) Owner now d)"
proof -
  obtain m where m: "first_by_rank d t = Some m"
    using assms by (auto simp: ensure_owner_def split: option.splits)
  then show ?thesis
    using assms first_by_rank_Some(1,2) [OF m]
    by (auto simp: ensure_owner_def is_owner_def has_owner_def set_roles_def split: if_splits)
qed

lemma ensure_owner_keeps:
  assumes "ensure_owner t now d = Inr d'"
  shows "is_member d' = is_member d" and "has_owner d' t"
    and "\<And>t'. has_owner d t' \<Longrightarrow> has_owner d' t'" and "teams d' = teams d"
    and "ids_ok d' \<longleftrightarrow> ids_ok d" and "members_ok d' \<longleftrightarrow> members_ok d" and "governed d' \<longleftrightarrow> governed d"
    and "creds_ok late d' \<longleftrightarrow> creds_ok late d" and "refs_ok d' \<longleftrightarrow> refs_ok d"
  using ensure_owner_cases [OF assms] set_roles_keeps set_roles_owner
  by (auto simp: has_owner_def)

lemma leave_team_inv:
  assumes "team_inv late d" and "is_member d t v" and "v \<noteq> u"
  shows "\<exists>d'. ensure_owner t now (detach t u now d) = Inr d' \<and> team_inv late d'
            \<and> (\<forall>t' u'. is_member d' t' u' \<longleftrightarrow> is_member d t' u' \<and> \<not> (t' = t \<and> u' = u))"
proof -
  have "is_member (detach t u now d) t v"
    using assms by (simp add: is_member_detach)
  then obtain d' where d': "ensure_owner t now (detach t u now d) = Inr d'"
    using ensure_owner_ok by blast
  note dt = detach_inv [OF assms(1), where t = t and u = u and now = now]
  note eo = ensure_owner_keeps [OF d']
  have "owned d'"
    using dt(6) eo(2,3) unfolding owned_def eo(4) detach_fields by metis
  then have "team_inv late d'"
    using dt eo by (simp add: team_inv_def)
  then show ?thesis
    using d' eo(1) by (auto simp: is_member_detach)
qed

section \<open>Deleting an account\<close>

lemma delete_team_member:
  "is_member (delete_team t d) t' u' \<longleftrightarrow> is_member d t' u' \<and> t' \<noteq> t"
  by (auto simp: is_member_def delete_team_fields bex_delete_where)

lemma delete_team_super_admins:
  "other_super_admins (delete_team t d) u = other_super_admins d u"
  by (simp add: other_super_admins_def count_rows_def delete_team_fields count_where_update_same)

lemma leave_team_super_admins:
  assumes "ensure_owner t now (detach t u now d) = Inr d'"
  shows "other_super_admins d' v = other_super_admins d v"
proof -
  have "users d' = users (detach t u now d)"
    using ensure_owner_cases [OF assms] by (auto simp: set_roles_def)
  then show ?thesis
    by (simp add: other_super_admins_def count_rows_def detach_fields count_where_update_same)
qed

text \<open>Settling the teams of an account succeeds, and leaves it in none of them.\<close>

lemma settle_teams_inv:
  assumes "team_inv late d" and "distinct (map fst ts)"
    and "\<forall>(t, n) \<in> set ts. 0 < n \<longrightarrow> (\<exists>v. v \<noteq> u \<and> is_member d t v)"
  shows "\<exists>d'. settle_teams u now ts d = Inr d' \<and> team_inv late d'
           \<and> other_super_admins d' u = other_super_admins d u
           \<and> (\<forall>t u'. is_member d' t u' \<longleftrightarrow>
                 is_member d t u' \<and> (\<forall>n. (t, n) \<in> set ts \<longrightarrow> 0 < n \<and> u' \<noteq> u))"
  using assms
proof (induction ts arbitrary: d)
  case (Cons x ts)
  obtain t n where x: "x = (t, n)" by (cases x)
  show ?case
  proof (cases "n = 0")
    case True
    have others: "\<forall>(t', n) \<in> set ts. 0 < n \<longrightarrow> (\<exists>v. v \<noteq> u \<and> is_member (delete_team t d) t' v)"
    proof clarify
      fix t' n' assume *: "(t', n') \<in> set ts" "0 < n'"
      then have "t' \<noteq> t"
        using Cons.prems(2) x by (force simp: image_iff)
      moreover obtain v where "v \<noteq> u" "is_member d t' v"
        using Cons.prems(3) * by auto
      ultimately show "\<exists>v. v \<noteq> u \<and> is_member (delete_team t d) t' v"
        by (auto simp: delete_team_member)
    qed
    obtain d' where "settle_teams u now ts (delete_team t d) = Inr d'" "team_inv late d'"
      "other_super_admins d' u = other_super_admins (delete_team t d) u"
      "\<And>t' u'. is_member d' t' u' \<longleftrightarrow> is_member (delete_team t d) t' u'
         \<and> (\<forall>n. (t', n) \<in> set ts \<longrightarrow> 0 < n \<and> u' \<noteq> u)"
      using Cons.IH [OF delete_team_inv [OF Cons.prems(1)] _ others] Cons.prems(2) by auto
    then show ?thesis
      using True by (intro exI [of _ d']) (auto simp: x delete_team_member delete_team_super_admins)
  next
    case False
    then obtain v where v: "v \<noteq> u" "is_member d t v"
      using Cons.prems x by auto
    obtain d1 where d1: "ensure_owner t now (detach t u now d) = Inr d1" "team_inv late d1"
      "\<And>t' u'. is_member d1 t' u' \<longleftrightarrow> is_member d t' u' \<and> \<not> (t' = t \<and> u' = u)"
      using leave_team_inv [OF Cons.prems(1) v(2,1)] by blast
    have others: "\<forall>(t', n) \<in> set ts. 0 < n \<longrightarrow> (\<exists>v. v \<noteq> u \<and> is_member d1 t' v)"
      using Cons.prems(3) x d1(3) by fastforce
    obtain d' where "settle_teams u now ts d1 = Inr d'" "team_inv late d'"
      "other_super_admins d' u = other_super_admins d1 u"
      "\<And>t' u'. is_member d' t' u' \<longleftrightarrow> is_member d1 t' u'
         \<and> (\<forall>n. (t', n) \<in> set ts \<longrightarrow> 0 < n \<and> u' \<noteq> u)"
      using Cons.IH [OF d1(2) _ others] Cons.prems(2) by auto
    then show ?thesis
      using False by (intro exI [of _ d']) (auto simp: x d1 leave_team_super_admins [OF d1(1)])
  qed
qed simp

lemma account_teams_set:
  "(t, n) \<in> set (account_teams d u) \<longleftrightarrow>
     is_member d t u \<and> n = count_rows (\<lambda>x. tm_team_id x = t \<and> tm_user_id x \<noteq> u) (team_user d)"
  by (auto simp: account_teams_def is_member_def)

lemma account_teams_distinct:
  assumes "members_ok d"
  shows "distinct (map fst (account_teams d u))"
proof -
  let ?ms = "filter (\<lambda>m. tm_user_id m = u) (rows (team_user d))"
  have "distinct (map (\<lambda>m. (tm_team_id m, tm_user_id m)) ?ms)"
    using assms by (simp add: members_ok_def distinct_map_filter)
  moreover have "map (\<lambda>m. (tm_team_id m, tm_user_id m)) ?ms = map (\<lambda>t. (t, u)) (map tm_team_id ?ms)"
    by auto
  ultimately have "distinct (map tm_team_id ?ms)"
    by (metis distinct_map)
  then show ?thesis
    by (simp add: account_teams_def comp_def)
qed

lemma other_members:
  "0 < count_rows (\<lambda>x. tm_team_id x = t \<and> tm_user_id x \<noteq> u) (team_user d) \<longleftrightarrow>
     (\<exists>v. v \<noteq> u \<and> is_member d t v)"
  by (auto simp: count_rows_def count_where_pos_iff is_member_def)

lemma settle_account:
  assumes "team_inv late d"
  shows "\<exists>d'. settle_teams u now (account_teams d u) d = Inr d' \<and> team_inv late d'
           \<and> other_super_admins d' u = other_super_admins d u \<and> (\<forall>t. \<not> is_member d' t u)
           \<and> (\<forall>t v. v \<noteq> u \<longrightarrow> is_member d' t v \<longleftrightarrow> is_member d t v)"
proof -
  have "\<forall>(t, n) \<in> set (account_teams d u). 0 < n \<longrightarrow> (\<exists>v. v \<noteq> u \<and> is_member d t v)"
    by (auto simp: account_teams_set other_members)
  moreover have "distinct (map fst (account_teams d u))"
    using assms by (simp add: team_inv_def account_teams_distinct)
  ultimately obtain d' where d': "settle_teams u now (account_teams d u) d = Inr d'" "team_inv late d'"
    "other_super_admins d' u = other_super_admins d u"
    "\<And>t u'. is_member d' t u' \<longleftrightarrow> is_member d t u'
       \<and> (\<forall>n. (t, n) \<in> set (account_teams d u) \<longrightarrow> 0 < n \<and> u' \<noteq> u)"
    using settle_teams_inv [OF assms] by blast
  have "\<not> is_member d' t u" for t
    using d'(4) [of t u] by (auto simp: account_teams_set)
  moreover have "is_member d' t v \<longleftrightarrow> is_member d t v" if "v \<noteq> u" for t v
    using d'(4) [of t v] that by (auto simp: account_teams_set other_members)
  ultimately show ?thesis
    using d'(1-3) by blast
qed

lemma settle_teams_rows:
  assumes "settle_teams u now ts d = Inr d'"
  shows "team_exists d' t \<longleftrightarrow> team_exists d t \<and> (t, 0) \<notin> set ts"
    and "m \<in> set (rows (mcps d)) \<Longrightarrow> (mcp_team_id m, 0) \<notin> set ts \<Longrightarrow>
           \<exists>m' \<in> set (rows (mcps d')). mcp_id m' = mcp_id m \<and> mcp_team_id m' = mcp_team_id m"
  using assms
proof (induction u now ts d arbitrary: m rule: settle_teams.induct)
  case (2 u now t' n ts d)
  {
    case 1
    show ?case
    proof (cases "n = 0")
      case True
      then show ?thesis
        using 2(1) 1 by (auto simp: delete_team_fields has_row_del table_simps)
    next
      case False
      then obtain d1 where d1: "ensure_owner t' now (detach t' u now d) = Inr d1"
        "settle_teams u now ts d1 = Inr d'"
        using 1 by (auto simp: result_simps)
      then show ?thesis
        using 2(3) [OF False] False ensure_owner_keeps(4) [OF d1(1)] by (simp add: detach_fields)
    qed
  next
    case 2: 2
    show ?case
    proof (cases "n = 0")
      case True
      have "\<exists>x \<in> set (rows (mcps (delete_team t' d))). mcp_id x = mcp_id m \<and> mcp_team_id x = mcp_team_id m"
        using 2(1,2) True
        by (auto simp: delete_team_def delete_mcps_def delete_tokens_def delete_tailnets_def Let_def
            bex_update_where bex_delete_where)
      then show ?thesis
        using 2 True "2.IH"(2) [OF True] by fastforce
    next
      case False
      then obtain d1 where d1: "ensure_owner t' now (detach t' u now d) = Inr d1"
        "settle_teams u now ts d1 = Inr d'"
        using 2 by (auto simp: result_simps)
      have "mcps d1 = mcps d"
        using ensure_owner_cases [OF d1(1)] by (auto simp: set_roles_def detach_fields)
      then show ?thesis
        using "2.IH"(4) [OF False _ _ d1(2)] 2 by simp
    qed
  }
qed auto

lemma heir_member:
  assumes "team_inv late d" and "team_exists d t"
  shows "\<exists>v. heir d t = Some v \<and> is_member d t v \<and> user_exists d v"
proof -
  have "has_owner d t"
    using assms by (auto simp: team_inv_def owned_def has_row_iff)
  then obtain m where m: "first_by_rank d t = Some m"
    using first_by_rank_owner by blast
  then have "m \<in> set (rows (team_user d))" "tm_team_id m = t"
    by (rule first_by_rank_Some)+
  then show ?thesis
    using assms m by (auto simp: heir_def is_member_def team_inv_def members_ok_def)
qed

definition handed :: "db \<Rightarrow> int \<Rightarrow> ('r \<Rightarrow> int) \<Rightarrow> ('r \<Rightarrow> int) \<Rightarrow> (int \<Rightarrow> 'r \<Rightarrow> 'r) \<Rightarrow> 'r table \<Rightarrow> 'r table" where
  "handed d u creator team set_creator t =
     upd (\<lambda>r. creator r = u) (\<lambda>r. set_creator (the (heir d (team r))) r) t"

lemma hand_over_all_eq:
  assumes "team_inv late d"
  shows "hand_over_all u d = Inr (d\<lparr>
    mcps := handed d u mcp_created_by mcp_team_id (\<lambda>c m. m\<lparr>mcp_created_by := c\<rparr>) (mcps d),
    access_tokens := handed d u at_created_by at_team_id (\<lambda>c a. a\<lparr>at_created_by := c\<rparr>) (access_tokens d),
    invites := handed d u inv_created_by inv_team_id (\<lambda>c i. i\<lparr>inv_created_by := c\<rparr>) (invites d),
    tailnets := handed d u tn_created_by tn_team_id (\<lambda>c n. n\<lparr>tn_created_by := c\<rparr>) (tailnets d)\<rparr>)"
proof -
  have some: "heir d t \<noteq> None" if "team_exists d t" for t
    using heir_member [OF assms that] by auto
  have "\<not> has_row (\<lambda>r. mcp_created_by r = u \<and> heir d (mcp_team_id r) = None) (mcps d)"
    "\<not> has_row (\<lambda>r. at_created_by r = u \<and> heir d (at_team_id r) = None) (access_tokens d)"
    "\<not> has_row (\<lambda>r. inv_created_by r = u \<and> heir d (inv_team_id r) = None) (invites d)"
    "\<not> has_row (\<lambda>r. tn_created_by r = u \<and> heir d (tn_team_id r) = None) (tailnets d)"
    using assms some unfolding team_inv_def refs_ok_def has_row_iff by blast+
  then show ?thesis
    by (simp add: hand_over_all_def hand_over_def handed_def)
qed

lemma delete_user_fields:
  "users (delete_user u d) = del (\<lambda>x. u_id x = u) (users d)"
  "teams (delete_user u d) = teams d"
  "team_user (delete_user u d) = del (\<lambda>x. tm_user_id x = u) (team_user d)"
  "mcps (delete_user u d) = del (\<lambda>m. mcp_created_by m = u) (mcps d)"
  "access_tokens (delete_user u d) = del (\<lambda>a. at_created_by a = u) (access_tokens d)"
  "authorization_codes (delete_user u d) = del (\<lambda>x. code_user_id x = u) (authorization_codes d)"
  "invites (delete_user u d) = del (\<lambda>x. inv_created_by x = u) (invites d)"
  "tailnets (delete_user u d) = tailnets d"
  by (simp_all add: delete_user_def delete_mcps_def delete_tokens_def Let_def)

lemma delete_user_inv:
  assumes "team_inv late d" and "\<forall>t. \<not> is_member d t u" and "0 < other_super_admins d u"
  shows "team_inv late (delete_user u d)"
proof -
  note inv = assms(1) [unfolded team_inv_def]
  have tu: "del (\<lambda>x. tm_user_id x = u) (team_user d) = team_user d"
    using assms(2) by (simp add: del_def delete_where_id is_member_def)
  have mem: "is_member (delete_user u d) = is_member d" "has_owner (delete_user u d) = has_owner d"
    by (simp_all add: is_member_def has_owner_def fun_eq_iff delete_user_fields tu)
  have refs: "user_exists (delete_user u d) x \<longleftrightarrow> user_exists d x \<and> x \<noteq> u"
    "team_exists (delete_user u d) x \<longleftrightarrow> team_exists d x" for x
    by (auto simp: delete_user_fields has_row_iff bex_delete_where)
  have "ids_ok (delete_user u d)"
    using inv by (simp add: ids_ok_def delete_user_fields table_ok_del)
  moreover have "members_ok (delete_user u d)"
    using inv assms(2) unfolding members_ok_def refs by (auto simp: delete_user_fields tu is_member_def)
  moreover have "owned (delete_user u d)"
    using inv by (simp add: owned_def mem delete_user_fields)
  moreover have "governed (delete_user u d)"
    using assms(3) by (auto simp: governed_def other_super_admins_def count_rows_def delete_user_fields
        count_where_pos_iff bex_delete_where)
  moreover have "creds_ok late (delete_user u d)"
    using inv by (simp add: creds_ok_def mem delete_user_fields ball_delete_where)
  moreover have "refs_ok (delete_user u d)"
    using inv unfolding refs_ok_def refs by (simp add: delete_user_fields ball_delete_where)
  ultimately show ?thesis
    by (simp add: team_inv_def)
qed

lemma hand_over_all_inv:
  assumes "team_inv late d" and "\<forall>t. \<not> is_member d t u" and "hand_over_all u d = Inr d'"
  shows "team_inv late d'" and "is_member d' = is_member d" and "users d' = users d" and "teams d' = teams d"
    and "\<forall>m \<in> set (rows (mcps d')). mcp_created_by m \<noteq> u"
    and "map (\<lambda>m. (mcp_id m, mcp_team_id m)) (rows (mcps d')) = map (\<lambda>m. (mcp_id m, mcp_team_id m)) (rows (mcps d))"
    and "\<forall>a \<in> set (rows (access_tokens d')). at_created_by a \<noteq> u"
proof -
  note inv = assms(1) [unfolded team_inv_def]
  note d' = hand_over_all_eq [OF assms(1), of u, unfolded assms(3) sum.inject]
  have heir: "\<And>t. team_exists d t \<Longrightarrow> the (heir d t) \<noteq> u \<and> user_exists d (the (heir d t))"
    using heir_member [OF assms(1)] assms(2) by fastforce
  have heir_in: "\<And>t. team_exists d t \<Longrightarrow> is_member d t (the (heir d t))"
    using heir_member [OF assms(1)] by fastforce
  show same: "is_member d' = is_member d" "users d' = users d" "teams d' = teams d"
    by (simp_all add: d' is_member_def fun_eq_iff)
  show "\<forall>m \<in> set (rows (mcps d')). mcp_created_by m \<noteq> u"
    "\<forall>a \<in> set (rows (access_tokens d')). at_created_by a \<noteq> u"
    using heir inv by (simp_all add: d' handed_def ball_update_where_if refs_ok_def)
  show "map (\<lambda>m. (mcp_id m, mcp_team_id m)) (rows (mcps d')) = map (\<lambda>m. (mcp_id m, mcp_team_id m)) (rows (mcps d))"
    by (simp add: d' handed_def map_update_where_same)
  have "ids_ok d'" "members_ok d'" "owned d'" "governed d'"
    using inv by (simp_all add: d' ids_ok_def members_ok_def owned_def has_owner_def governed_def)
  moreover have "creds_ok late d'"
    using inv heir_in unfolding creds_ok_def same refs_ok_def
    by (simp add: d' handed_def ball_update_where_if)
  moreover have "refs_ok d'"
    using inv heir unfolding refs_ok_def same
    by (simp add: d' handed_def ball_update_where_if)
  ultimately show "team_inv late d'"
    by (simp add: team_inv_def)
qed

lemma delete_account_ok:
  assumes "team_inv late d" and "0 < other_super_admins d u"
  shows "\<exists>d'. delete_account u now d = Inr (Inr d') \<and> team_inv late d' \<and> \<not> user_exists d' u
     \<and> (\<forall>t v. is_member d' t v \<longleftrightarrow> is_member d t v \<and> v \<noteq> u)
     \<and> (\<forall>t. team_exists d' t \<longleftrightarrow>
           team_exists d t \<and> (is_member d t u \<longrightarrow> (\<exists>v. v \<noteq> u \<and> is_member d t v)))
     \<and> (\<forall>m \<in> set (rows (mcps d)). team_exists d' (mcp_team_id m) \<longrightarrow>
           (\<exists>m' \<in> set (rows (mcps d')). mcp_id m' = mcp_id m \<and> mcp_team_id m' = mcp_team_id m))"
proof -
  obtain d1 where d1: "settle_teams u now (account_teams d u) d = Inr d1" "team_inv late d1"
    "other_super_admins d1 u = other_super_admins d u" "\<forall>t. \<not> is_member d1 t u"
    "\<And>t v. v \<noteq> u \<Longrightarrow> is_member d1 t v \<longleftrightarrow> is_member d t v"
    using settle_account [OF assms(1)] by blast
  obtain d2 where d2: "hand_over_all u d1 = Inr d2"
    using hand_over_all_eq [OF d1(2)] by blast
  note ho = hand_over_all_inv [OF d1(2,4) d2]
  let ?d = "delete_user u d2"
  have res: "delete_account u now d = Inr (Inr ?d)"
    using assms(2) by (simp add: delete_account_def d1(1) d2)
  have inv: "team_inv late ?d"
    using assms(2) d1(3,4) ho by (intro delete_user_inv) (simp_all add: other_super_admins_def)
  have mem: "is_member ?d t v \<longleftrightarrow> is_member d t v \<and> v \<noteq> u" for t v
    using d1(4,5) ho(2)
    by (auto simp: is_member_def delete_user_fields bex_delete_where fun_eq_iff) metis+
  have team: "team_exists ?d t \<longleftrightarrow>
      team_exists d t \<and> (is_member d t u \<longrightarrow> (\<exists>v. v \<noteq> u \<and> is_member d t v))" for t
    using settle_teams_rows(1) [OF d1(1), of t] other_members [of t u d]
    by (auto simp: delete_user_fields ho(4) account_teams_set)
  have mcps: "\<exists>m' \<in> set (rows (mcps ?d)). mcp_id m' = mcp_id m \<and> mcp_team_id m' = mcp_team_id m"
    if m: "m \<in> set (rows (mcps d))" and te: "team_exists ?d (mcp_team_id m)" for m
  proof -
    have "(mcp_team_id m, 0) \<notin> set (account_teams d u)"
      using te by (simp add: delete_user_fields ho(4) settle_teams_rows(1) [OF d1(1)])
    then obtain m1 where "m1 \<in> set (rows (mcps d1))" "mcp_id m1 = mcp_id m" "mcp_team_id m1 = mcp_team_id m"
      using settle_teams_rows(2) [OF d1(1) m] by blast
    then have "(mcp_id m, mcp_team_id m) \<in> set (map (\<lambda>m. (mcp_id m, mcp_team_id m)) (rows (mcps d1)))"
      by (metis (no_types, lifting) image_eqI image_set)
    then have "(mcp_id m, mcp_team_id m) \<in> (\<lambda>m. (mcp_id m, mcp_team_id m)) ` set (rows (mcps d2))"
      unfolding ho(6) [symmetric] by simp
    then show ?thesis
      using ho(5) by (auto simp: delete_user_fields bex_delete_where)
  qed
  have "\<not> user_exists ?d u"
    by (simp add: delete_user_fields has_row_del) (simp add: has_row_iff)
  then show ?thesis
    using res inv mem team mcps by blast
qed

section \<open>Accounts and teams that begin\<close>

lemma team_inv_extend:
  assumes "team_inv late d"
  shows "ids_ok d" "members_ok d" "owned d" "governed d" "creds_ok late d" "refs_ok d"
  using assms by (simp_all add: team_inv_def)

lemma insert_user_inv:
  assumes "team_inv late d" and "insert_user user now d = Inr (d', u')"
  shows "team_inv late d'" and "user_exists d' (u_id u')" and "is_member d' = is_member d"
    and "\<not> user_exists d (u_id u')" and "teams d' = teams d"
    and "\<And>x. user_exists d x \<Longrightarrow> user_exists d' x"
proof -
  note inv = team_inv_extend [OF assms(1)]
  have d': "d' = d\<lparr>users := append_row (\<lambda>i. u'\<lparr>u_id := i\<rparr>) (users d)\<rparr>" and i: "u_id u' = seq (users d) + 1"
    using assms(2) by (auto simp: insert_user_def Let_def result_simps)
  have refs: "user_exists d' x \<longleftrightarrow> user_exists d x \<or> x = seq (users d) + 1"
    "team_exists d' x = team_exists d x" for x
    by (auto simp: d' has_row_append)
  show mem: "is_member d' = is_member d" and "teams d' = teams d"
    by (simp_all add: d' is_member_def fun_eq_iff)
  show "user_exists d' (u_id u')" "\<And>x. user_exists d x \<Longrightarrow> user_exists d' x"
    unfolding refs by (simp_all add: i)
  show "\<not> user_exists d (u_id u')"
    using inv(1) by (auto simp: i ids_ok_def has_row_iff dest: table_ok_fresh)
  have "ids_ok d'"
    using inv(1) by (simp add: d' ids_ok_def table_ok_append)
  moreover have "members_ok d'"
    using inv(2) unfolding members_ok_def refs by (auto simp: d')
  moreover have "owned d'" "governed d'"
    using inv(3,4) by (auto simp: d' owned_def has_owner_def governed_def)
  moreover have "creds_ok late d'"
    using inv(5) unfolding creds_ok_def mem by (simp add: d')
  moreover have "refs_ok d'"
    using inv(6) unfolding refs_ok_def refs by (auto simp: d')
  ultimately show "team_inv late d'"
    by (simp add: team_inv_def)
qed

lemma attach_fields:
  assumes "attach t u role now d = Inr d'"
  shows "d' = d\<lparr>team_user := append_row (\<lambda>i. \<lparr>tm_id = i, tm_team_id = t, tm_user_id = u,
             tm_role = role, tm_created_at = now, tm_updated_at = Some now\<rparr>) (team_user d)\<rparr>"
    and "\<not> is_member d t u" "team_exists d t" "user_exists d u"
  using assms by (auto simp: attach_def insert_team_member_def result_simps is_member_def has_row_iff)

lemma attach_member:
  "attach t u role now d = Inr d' \<Longrightarrow>
    is_member d' t' u' \<longleftrightarrow> is_member d t' u' \<or> (t' = t \<and> u' = u)"
  by (drule attach_fields(1)) (auto simp: is_member_def)

text \<open>Attaching keeps everything but may be what gives a new team its owner.\<close>

lemma attach_keeps:
  assumes "attach t u role now d = Inr d'"
  shows "ids_ok d \<Longrightarrow> ids_ok d'" and "members_ok d \<Longrightarrow> members_ok d'"
    and "has_owner d' x \<longleftrightarrow> has_owner d x \<or> (x = t \<and> role = Owner)"
    and "governed d' \<longleftrightarrow> governed d" and "creds_ok late d \<Longrightarrow> creds_ok late d'" and "refs_ok d' \<longleftrightarrow> refs_ok d"
    and "teams d' = teams d" and "users d' = users d"
proof -
  note f = attach_fields [OF assms]
  show "ids_ok d \<Longrightarrow> ids_ok d'" and "has_owner d' x \<longleftrightarrow> has_owner d x \<or> (x = t \<and> role = Owner)"
    and "governed d' \<longleftrightarrow> governed d" and "refs_ok d' \<longleftrightarrow> refs_ok d"
    and "teams d' = teams d" and "users d' = users d"
    by (auto simp: f(1) ids_ok_def table_ok_append has_owner_def governed_def refs_ok_def)
  show "members_ok d \<Longrightarrow> members_ok d'"
    using f(2-4) unfolding members_ok_def by (auto simp: f(1) is_member_def has_row_iff)
  show "creds_ok late d \<Longrightarrow> creds_ok late d'"
    unfolding creds_ok_def attach_member [OF assms] by (auto simp: f(1))
qed

lemma attach_inv:
  assumes "team_inv late d" and "attach t u role now d = Inr d'"
  shows "team_inv late d'"
  using attach_keeps [OF assms(2)] team_inv_extend [OF assms(1)]
  by (simp add: team_inv_def owned_def)

text \<open>A new team and its owner come together.\<close>

lemma insert_owned_team:
  assumes "team_inv late d" and "user_exists d u"
    and "insert_team team now d = (d1, t)"
  shows "\<exists>d2. attach (t_id t) u Owner now d1 = Inr d2 \<and> team_inv late d2"
    and "\<And>d2. attach (t_id t) u Owner now d1 = Inr d2 \<Longrightarrow> team_inv late d2 \<and> users d2 = users d \<and>
          (\<forall>t' u'. is_member d2 t' u' \<longleftrightarrow> is_member d t' u' \<or> t' = t_id t \<and> u' = u) \<and>
          (\<forall>x. team_exists d2 x \<longleftrightarrow> team_exists d x \<or> x = t_id t)"
proof -
  note inv = team_inv_extend [OF assms(1)]
  have d1: "d1 = d\<lparr>teams := append_row (\<lambda>i. t\<lparr>t_id := i\<rparr>) (teams d)\<rparr>" and i: "t_id t = seq (teams d) + 1"
    using assms(3) by (auto simp: insert_team_def Let_def)
  have refs: "team_exists d1 x \<longleftrightarrow> team_exists d x \<or> x = t_id t" "user_exists d1 x = user_exists d x" for x
    by (auto simp: d1 i)
  have fresh: "\<not> team_exists d (t_id t)"
    using inv(1) by (auto simp: i ids_ok_def has_row_iff dest: table_ok_fresh)
  have mem: "is_member d1 = is_member d"
    by (simp add: d1 is_member_def fun_eq_iff)
  have "\<not> is_member d (t_id t) u"
    using fresh inv(2) by (auto simp: members_ok_def is_member_def)
  then have ok: "\<exists>d2. attach (t_id t) u Owner now d1 = Inr d2"
    using assms(2) mem refs
    by (auto simp: attach_def insert_team_member_def is_member_def fun_eq_iff has_row_iff ensure_def)
  have parts: "ids_ok d1" "members_ok d1" "governed d1" "creds_ok late d1" "refs_ok d1"
    using inv unfolding members_ok_def creds_ok_def refs_ok_def refs mem
    by (auto simp: d1 ids_ok_def table_ok_append governed_def)
  have own: "has_owner d1 (t_id x)" if "x \<in> set (rows (teams d1))" "t_id x \<noteq> t_id t" for x
    using that inv(3) i by (auto simp: d1 owned_def has_owner_def)
  show all: "team_inv late d2 \<and> users d2 = users d \<and>
          (\<forall>t' u'. is_member d2 t' u' \<longleftrightarrow> is_member d t' u' \<or> t' = t_id t \<and> u' = u) \<and>
          (\<forall>x. team_exists d2 x \<longleftrightarrow> team_exists d x \<or> x = t_id t)"
    if at: "attach (t_id t) u Owner now d1 = Inr d2" for d2
  proof -
    note k = attach_keeps [OF at]
    have "owned d2"
      unfolding owned_def k(3,7) using own by blast
    then have "team_inv late d2"
      using k parts by (simp add: team_inv_def)
    then show ?thesis
      using refs(1) by (simp add: k attach_member [OF at] mem) (simp add: d1)
  qed
  show "\<exists>d2. attach (t_id t) u Owner now d1 = Inr d2 \<and> team_inv late d2"
    using ok all by blast
qed

lemma create_owned_inv:
  assumes "team_inv late d" and "create_owned name description owner now d = Inr (d', team)"
  shows "team_inv late d'" and "is_member d' (t_id team) (u_id owner)" and "team_exists d' (t_id team)"
proof -
  obtain d1 where ins: "insert_team (new_team name description False) now d = (d1, team)"
    and at: "attach (t_id team) (u_id owner) Owner now d1 = Inr d'"
    using assms(2) by (auto simp: create_owned_def case_prod_unfold Let_def result_simps prod_eq_iff)
  have "users d1 = users d"
    using ins by (auto simp: insert_team_def Let_def)
  then have "user_exists d (u_id owner)"
    using attach_fields(4) [OF at] by simp
  from insert_owned_team(2) [OF assms(1) this ins at]
  show "team_inv late d'" "is_member d' (t_id team) (u_id owner)" "team_exists d' (t_id team)"
    by auto
qed

lemma create_inv:
  assumes "team_inv late d" and "create user now d = Inr (d', user', team)"
  shows "team_inv late d'" and "user_exists d' (u_id user')" and "is_member d' (t_id team) (u_id user')"
    and "\<And>t. team_exists d t \<Longrightarrow> team_exists d' t \<and> t \<noteq> t_id team"
    and "\<And>t. team_exists d t \<Longrightarrow> \<not> is_member d' t (u_id user')"
proof -
  obtain d1 d2 where u: "insert_user user now d = Inr (d1, user')"
    and ins: "insert_team (new_team (personal_name user') None True) now d1 = (d2, team)"
    and at: "attach (t_id team) (u_id user') Owner now d2 = Inr d'"
    using assms(2)
    by (auto simp: create_def create_personal_def case_prod_unfold Let_def result_simps prod_eq_iff)
  note iu = insert_user_inv [OF assms(1) u]
  note it = insert_owned_team(2) [OF iu(1,2) ins at]
  show "team_inv late d'" "user_exists d' (u_id user')" "is_member d' (t_id team) (u_id user')"
    using it iu(2) by auto
  have "t_id team = seq (teams d) + 1"
    using ins iu(5) by (auto simp: insert_team_def Let_def)
  then have fresh: "team_exists d t \<Longrightarrow> t \<noteq> t_id team" for t
    using team_inv_extend(1) [OF assms(1)] by (auto simp: ids_ok_def has_row_iff dest: table_ok_fresh)
  then show "team_exists d t \<Longrightarrow> team_exists d' t \<and> t \<noteq> t_id team" for t
    using it iu(5) by auto
  have "\<not> is_member d t (u_id user')" for t
    using iu(4) team_inv_extend(2) [OF assms(1)] by (auto simp: members_ok_def is_member_def)
  then show "team_exists d t \<Longrightarrow> \<not> is_member d' t (u_id user')" for t
    using it fresh iu(3) by auto
qed

lemma create_first_inv:
  assumes "create_first user now (migrated_db t0) = Inr (d, user')"
  shows "team_inv late d"
  using assms
  by (auto simp: create_first_def insert_user_def attach_def insert_team_member_def result_simps Let_def
      migrated_db_def team_inv_def team_inv_parts table_ok_def has_row_iff ROOT_ID_def)

section \<open>Changes to accounts\<close>

lemma users_upd_inv:
  assumes "team_inv late d" and "\<And>x. u_id (f x) = u_id x"
    and "\<exists>x \<in> set (rows (users d)). if P x then is_super_admin (f x) else is_super_admin x"
  shows "team_inv late (d\<lparr>users := upd P f (users d)\<rparr>)" (is "team_inv late ?d")
proof -
  note inv = team_inv_extend [OF assms(1)]
  have refs: "user_exists ?d x \<longleftrightarrow> user_exists d x" "team_exists ?d x \<longleftrightarrow> team_exists d x" for x
    by (simp_all add: assms(2))
  have mem: "is_member ?d = is_member d"
    by (simp add: is_member_def fun_eq_iff)
  have "members_ok ?d" "creds_ok late ?d" "refs_ok ?d"
    using inv unfolding members_ok_def creds_ok_def refs_ok_def refs mem by simp_all
  moreover have "governed ?d"
    using assms(3) by (simp add: governed_def bex_update_where_if)
  moreover have "ids_ok ?d" "owned ?d"
    using inv by (simp_all add: ids_ok_def table_ok_upd assms(2) owned_def has_owner_def)
  ultimately show ?thesis
    by (simp add: team_inv_def)
qed

lemma users_upd_inv_same:
  assumes "team_inv late d" and "\<And>x. u_id (f x) = u_id x" and "\<And>x. is_super_admin (f x) = is_super_admin x"
  shows "team_inv late (d\<lparr>users := upd P f (users d)\<rparr>)"
  using assms by (intro users_upd_inv) (auto simp: team_inv_def governed_def)

lemma set_super_admin_inv:
  assumes "team_inv late d"
  shows "team_inv late (fst (set_super_admin u super now d))"
proof (cases "\<not> super \<and> other_super_admins d u = 0")
  case False
  then have "\<exists>x \<in> set (rows (users d)). (u_id x = u \<longrightarrow> super) \<and> (u_id x \<noteq> u \<longrightarrow> is_super_admin x)"
    using assms
    by (auto simp: team_inv_def governed_def other_super_admins_def count_rows_def count_where_zero_iff)
  then have "team_inv late (d\<lparr>users := upd (\<lambda>x. u_id x = u)
      (\<lambda>x. x\<lparr>is_super_admin := super, u_updated_at := Some now\<rparr>) (users d)\<rparr>)"
    using assms by (intro users_upd_inv) simp_all
  then show ?thesis
    using False by (auto simp: set_super_admin_def)
qed (use assms in \<open>simp add: set_super_admin_def\<close>)

lemma remember_team_inv: "team_inv late d \<Longrightarrow> remember_team user t now d = Inr d' \<Longrightarrow> team_inv late d'"
  by (auto simp: remember_team_def result_simps split: if_splits intro!: users_upd_inv_same)

lemma remember_team_keeps:
  "remember_team user t now d = Inr d' \<Longrightarrow> team_user d' = team_user d \<and> teams d' = teams d"
  by (auto simp: remember_team_def result_simps split: if_splits)

lemma remember_tokens_inv: "team_inv late (d\<lparr>remember_me_tokens := x\<rparr>) \<longleftrightarrow> team_inv late d"
  by (simp add: team_inv_def team_inv_parts)

lemma invalidate_sessions_inv: "team_inv late d \<Longrightarrow> invalidate_sessions u d = Inr d' \<Longrightarrow> team_inv late d'"
  by (auto simp: invalidate_sessions_def result_simps intro!: users_upd_inv_same)

lemma change_password_inv:
  assumes "team_inv late d" and "change_password hash user new now d = Inr d'"
  shows "team_inv late d'"
proof -
  let ?d1 = "if hash new = password user then d
    else d\<lparr>users := upd (\<lambda>x. u_id x = u_id user)
            (\<lambda>x. x\<lparr>password := hash new, u_updated_at := Some now\<rparr>) (users d)\<rparr>"
  obtain d2 where d2: "invalidate_sessions (u_id user) ?d1 = Inr d2"
    "d' = d2\<lparr>remember_me_tokens := del (\<lambda>r. rm_tokenable_id r = u_id user) (remember_me_tokens d2)\<rparr>"
    using assms(2) by (auto simp: change_password_def Let_def result_simps)
  have "team_inv late ?d1"
    using assms(1) by (simp add: users_upd_inv_same)
  then have "team_inv late d2"
    using d2(1) by (rule invalidate_sessions_inv)
  then show ?thesis
    by (simp add: d2(2) remember_tokens_inv)
qed

section \<open>Changes to members\<close>

lemma member_refusal_None:
  assumes "member_refusal d t actor member own higher = None"
  shows "u_id member \<noteq> u_id actor"
    and "\<exists>r mr. role_of d t (u_id member) = Some mr \<and> role_of d t (u_id actor) = Some r \<and> may_manage r mr"
  using assms by (auto simp: member_refusal_def split: option.splits if_splits)

lemma may_manage_Owner: "may_manage r Owner \<Longrightarrow> r = Owner"
  by (cases r) (auto simp: may_manage_def is_admin_def)

lemma may_grant_Owner: "may_grant r Owner \<Longrightarrow> r = Owner"
  by (cases r) (auto simp: may_grant_def is_admin_def)

text \<open>Nobody reaches the owner who stays: whoever changes an owner is another owner.\<close>

lemma owner_besides:
  assumes "members_ok d" and "member_refusal d t actor member own higher = None" and "has_owner d t"
  shows "\<exists>m \<in> set (rows (team_user d)). tm_team_id m = t \<and> tm_user_id m \<noteq> u_id member \<and> tm_role m = Owner"
proof -
  obtain o' where o': "o' \<in> set (rows (team_user d))" "tm_team_id o' = t" "tm_role o' = Owner"
    using assms(3) by (auto simp: has_owner_def)
  show ?thesis
  proof (cases "tm_user_id o' = u_id member")
    case True
    then have "role_of d t (u_id member) = Some Owner"
      using role_of_unique [OF assms(1) o'(1)] o' by simp
    then have "role_of d t (u_id actor) = Some Owner" "u_id member \<noteq> u_id actor"
      using member_refusal_None [OF assms(2)] may_manage_Owner by auto
    then show ?thesis
      using role_of_Some [of d t "u_id actor" Owner] by fastforce
  qed (use o' in blast)
qed

lemma update_member_result:
  assumes "update_member actor t i choice now d0 d = Inr d'"
  shows "\<exists>member role r. member_refusal d t actor member ''You cannot change your own role''
             ''Only an owner can change an owner'' = None
     \<and> role_of d t (u_id actor) = Some r \<and> may_grant r role
     \<and> d' = set_roles (\<lambda>m. tm_team_id m = t \<and> tm_user_id m = u_id member) role now d
     \<and> find_account d0 i = Some member \<and> choice = Some role"
  using assms
  by (auto simp: update_member_def set_roles_def result_simps split: option.splits)

lemma update_member_inv:
  assumes "team_inv late d" and "update_member actor t i choice now d0 d = Inr d'"
  shows "team_inv late d'"
proof -
  obtain member role where ref: "member_refusal d t actor member ''You cannot change your own role''
             ''Only an owner can change an owner'' = None"
    and d': "d' = set_roles (\<lambda>m. tm_team_id m = t \<and> tm_user_id m = u_id member) role now d"
    using update_member_result [OF assms(2)] by blast
  note inv = team_inv_extend [OF assms(1)]
  have "has_owner d' x" if x: "has_owner d x" for x
  proof (cases "x = t")
    case True
    then show ?thesis
      unfolding d' set_roles_owner using owner_besides [OF inv(2) ref] x by auto
  next
    case False
    then show ?thesis
      unfolding d' set_roles_owner using x by (auto simp: has_owner_def)
  qed
  then have "owned d'"
    using inv(3) unfolding d' owned_def set_roles_keeps by blast
  then show ?thesis
    using inv by (simp add: team_inv_def d' set_roles_keeps)
qed

lemma destroy_member_result:
  assumes "destroy_member actor t i now d0 d = Inr d'"
  shows "\<exists>member. member_refusal d t actor member ''You cannot remove yourself from a team''
             ''Only an owner can remove an owner'' = None
     \<and> d' = detach t (u_id member) now d \<and> find_account d0 i = Some member"
  using assms by (auto simp: destroy_member_def split: option.splits)

lemma destroy_member_inv:
  assumes "team_inv late d" and "destroy_member actor t i now d0 d = Inr d'"
  shows "team_inv late d'"
proof -
  obtain member where ref: "member_refusal d t actor member ''You cannot remove yourself from a team''
             ''Only an owner can remove an owner'' = None" and d': "d' = detach t (u_id member) now d"
    using destroy_member_result [OF assms(2)] by blast
  note inv = team_inv_extend [OF assms(1)]
  note dt = detach_inv [OF assms(1), where t = t and u = "u_id member" and now = now]
  have "has_owner d' t" if "has_owner d t"
    using owner_besides [OF inv(2) ref that]
    by (auto simp: d' has_owner_def detach_fields bex_delete_where)
  moreover have "x \<noteq> t \<Longrightarrow> has_owner d' x \<longleftrightarrow> has_owner d x" for x
    by (simp add: d' has_owner_detach)
  ultimately have "owned d'"
    using inv(3) unfolding owned_def by (metis d' detach_fields(1))
  then show ?thesis
    using dt d' by (simp add: team_inv_def)
qed

section \<open>Invites\<close>

lemma invites_inv:
  assumes "team_inv late d" and "\<And>i. i \<in> set (rows x) \<Longrightarrow> team_exists d (inv_team_id i) \<and> user_exists d (inv_created_by i)"
  shows "team_inv late (d\<lparr>invites := x\<rparr>)"
  using assms by (auto simp: team_inv_def ids_ok_def members_ok_def owned_def has_owner_def governed_def
      creds_ok_def refs_ok_def is_member_def)

lemma mark_accepted_inv:
  assumes "team_inv late d"
  shows "team_inv late (mark_accepted i now d)"
  unfolding mark_accepted_def
  using assms by (intro invites_inv) (auto simp: team_inv_def refs_ok_def update_where_def)

lemma invite_refs:
  "team_inv late d \<Longrightarrow> i \<in> set (rows (invites d)) \<Longrightarrow>
    team_exists d (inv_team_id i) \<and> user_exists d (inv_created_by i)"
  by (simp add: team_inv_def refs_ok_def)

lemma insert_invite_inv: "team_inv late d \<Longrightarrow> insert_invite i now d = Inr d' \<Longrightarrow> team_inv late d'"
  by (auto simp: insert_invite_def result_simps invite_refs intro!: invites_inv)

lemma accept_signed_in_inv:
  assumes "team_inv late d" and "accept_signed_in user seen now d = Inr (d', i)"
  shows "team_inv late d'"
  using assms attach_inv [OF assms(1)]
  by (auto simp: accept_signed_in_def result_simps split: option.splits if_splits intro!: mark_accepted_inv)

lemma accept_visitor_inv:
  assumes "team_inv late d" and "accept_visitor user seen now d = Inr (d', created, i)"
  shows "team_inv late d'"
proof -
  obtain d1 d2 d3 personal where c: "create (user\<lparr>email := inv_email i\<rparr>) now d = Inr (d1, created, personal)"
    and at: "attach (inv_team_id i) (u_id created) (inv_role i) now d1 = Inr d2"
    and rt: "remember_team created (inv_team_id i) now d2 = Inr d3" and d': "d' = mark_accepted i now d3"
    using assms(2) by (auto simp: accept_visitor_def result_simps split: option.splits)
  show ?thesis
    using remember_team_inv [OF attach_inv [OF create_inv(1) [OF assms(1) c] at] rt]
    by (simp add: d' mark_accepted_inv)
qed

section \<open>Requests one after the other\<close>

text \<open>Every transaction on accounts and teams, for any caller, any arguments and any time.\<close>

inductive account_step :: "db \<Rightarrow> db \<Rightarrow> bool" where
  register: "register enabled (with_password h mail name pass) now d = Inr (d', created) \<Longrightarrow> account_step d d'"
| logout: "logout user d = Inr d' \<Longrightarrow> account_step d d'"
| change_password: "change_password h user new now d = Inr d' \<Longrightarrow> account_step d d'"
| resolve_teams: "resolve_teams user s now d = Inr (d', s', ts, m) \<Longrightarrow> account_step d d'"
| store_team: "store_team user name description s now d = (d', s', r) \<Longrightarrow> account_step d d'"
| switch_team: "switch_handler user ts choice s now d = (d', s', r) \<Longrightarrow> account_step d d'"
| update_team: "account_step d (update_team team name description now d)"
| destroy_team: "destroy_team team d = Inr d' \<Longrightarrow> account_step d d'"
| update_member: "update_member actor t i choice now d0 d = Inr d' \<Longrightarrow> account_step d d'"
| destroy_member: "destroy_member actor t i now d0 d = Inr d' \<Longrightarrow> account_step d d'"
| update_super_admin: "update_super_admin actor i super check now d0 d = Inr d' \<Longrightarrow> account_step d d'"
| destroy_user: "destroy_user actor i check now d0 d = Inr d' \<Longrightarrow> account_step d d'"
| store_invite: "store_invite user team mail choice token now d = Inr d' \<Longrightarrow> account_step d d'"
| destroy_invite: "destroy_invite team i d = Inr d' \<Longrightarrow> account_step d d'"
| accept: "accept h user token payload s now d0 d = (d', s', r) \<Longrightarrow> account_step d d'"

lemma switch_team_inv: "team_inv late d \<Longrightarrow> switch_team user t s now d = (d', s', r) \<Longrightarrow> team_inv late d'"
  by (auto simp: switch_team_def split: sum.splits intro: remember_team_inv)

lemma create_personal_inv:
  assumes "team_inv late d" and "create_personal user now d = Inr (d', team)"
  shows "team_inv late d'"
proof -
  obtain d1 where ins: "insert_team (new_team (personal_name user) None True) now d = (d1, team)"
    and at: "attach (t_id team) (u_id user) Owner now d1 = Inr d'"
    using assms(2) by (auto simp: create_personal_def case_prod_unfold Let_def result_simps prod_eq_iff)
  have "users d1 = users d"
    using ins by (auto simp: insert_team_def Let_def)
  then have "user_exists d (u_id user)"
    using attach_fields(4) [OF at] by simp
  then show ?thesis
    using insert_owned_team(2) [OF assms(1) _ ins at] by blast
qed

lemma resolve_teams_inv:
  assumes "team_inv late d" and "resolve_teams user s now d = Inr (d', s', ts, m)"
  shows "team_inv late d'"
proof -
  have "d' = d \<or> (\<exists>team. create_personal user now d = Inr (d', team))"
    using assms(2) by (auto simp: resolve_teams_def Let_def result_simps split: if_splits)
  then show ?thesis
    using assms(1) create_personal_inv by blast
qed

lemma update_team_inv: "team_inv late d \<Longrightarrow> team_inv late (update_team team name description now d)"
proof -
  have "team_inv late (d\<lparr>teams := upd P f (teams d)\<rparr>)"
    if inv: "team_inv late d" and f: "\<And>x. t_id (f x) = t_id x" for P f
  proof -
    let ?d = "d\<lparr>teams := upd P f (teams d)\<rparr>"
    note i = team_inv_extend [OF inv]
    have refs: "team_exists ?d x \<longleftrightarrow> team_exists d x" "user_exists ?d x \<longleftrightarrow> user_exists d x" for x
      by (simp_all add: f)
    have "members_ok ?d" "refs_ok ?d"
      using i unfolding members_ok_def refs_ok_def refs by simp_all
    then show ?thesis
      using i by (simp add: team_inv_def ids_ok_def table_ok_upd f governed_def creds_ok_def
          is_member_def owned_def has_owner_def ball_update_where)
  qed
  then show "team_inv late d \<Longrightarrow> team_inv late (update_team team name description now d)"
    by (simp add: update_team_def Let_def)
qed

lemma accept_cases:
  assumes "accept h user token payload s now d0 d = (d', s', r)"
  shows "d' = d
    \<or> (\<exists>u seen d1 i. accept_signed_in u seen now d = Inr (d1, i)
         \<and> switch_team u (inv_team_id i) s now d1 = (d', s', r))
    \<or> (\<exists>u seen created i. accept_visitor u seen now d = Inr (d', created, i))"
  using assms unfolding accept_def
  by (simp split: option.split_asm prod.split_asm sum.split_asm if_split_asm) blast+

lemma accept_inv:
  assumes "team_inv late d" and "accept h user token payload s now d0 d = (d', s', r)"
  shows "team_inv late d'"
  using accept_cases [OF assms(2)]
proof (elim disjE exE conjE)
  fix u seen d1 i
  assume "accept_signed_in u seen now d = Inr (d1, i)"
    and sw: "switch_team u (inv_team_id i) s now d1 = (d', s', r)"
  then show ?thesis
    using accept_signed_in_inv [OF assms(1)] switch_team_inv [OF _ sw] by blast
qed (use assms(1) accept_visitor_inv in blast)+

lemma store_team_inv:
  assumes "team_inv late d" and "store_team user name description s now d = (d', s', r)"
  shows "team_inv late d'"
proof (cases "create_owned name (given_description description) user now d")
  case (Inl e)
  then show ?thesis using assms by (simp add: store_team_def)
next
  case (Inr p)
  obtain d1 team where "p = (d1, team)" by (cases p)
  then show ?thesis
    using assms Inr switch_team_inv [OF create_owned_inv(1) [OF assms(1)]]
    by (auto simp: store_team_def)
qed

section \<open>MCPs and tailnets\<close>

text \<open>
  What the pages of MCPs and tailnets, and an agent that manages MCPs, write of them: a new row with whatever the form
  gave, a row edited (no form changes the team of an MCP or who made it), a row deleted with what hangs on it.
\<close>

inductive registry_step :: "db \<Rightarrow> db \<Rightarrow> bool" where
  mcp_created: "insert_mcp m now d = Inr (d', m') \<Longrightarrow> registry_step d d'"
| mcp_edited:
    "(\<And>m. (mcp_id (f m), mcp_team_id (f m), mcp_created_by (f m)) = (mcp_id m, mcp_team_id m, mcp_created_by m)) \<Longrightarrow>
     registry_step d (d\<lparr>mcps := upd (\<lambda>m. mcp_id m = i) f (mcps d)\<rparr>)"
| mcp_deleted: "registry_step d (delete_mcps (\<lambda>m. mcp_id m = i) d)"
| tailnet_created: "insert_tailnet n now d = Inr (d', n') \<Longrightarrow> registry_step d d'"
| tailnet_deleted: "registry_step d (delete_tailnets (\<lambda>n. tn_id n = i) d)"

lemma registry_inv:
  assumes "team_inv late d" and "(users d', teams d', team_user d', access_tokens d', authorization_codes d', invites d')
      = (users d, teams d, team_user d, access_tokens d, authorization_codes d, invites d)"
    and "\<And>m. m \<in> set (rows (mcps d')) \<Longrightarrow> team_exists d (mcp_team_id m) \<and> user_exists d (mcp_created_by m)"
    and "\<And>n. n \<in> set (rows (tailnets d')) \<Longrightarrow> team_exists d (tn_team_id n)"
  shows "team_inv late d'"
  using assms by (simp add: team_inv_def team_inv_parts)

lemma registry_step_inv:
  assumes "registry_step d d'" and "team_inv late d"
  shows "team_inv late d'"
proof -
  have refs: "\<And>m. m \<in> set (rows (mcps d)) \<Longrightarrow> team_exists d (mcp_team_id m) \<and> user_exists d (mcp_created_by m)"
    "\<And>n. n \<in> set (rows (tailnets d)) \<Longrightarrow> team_exists d (tn_team_id n)"
    using assms(2) by (simp_all add: team_inv_def refs_ok_def)
  show ?thesis
    using assms(1)
  proof cases
    case (mcp_created m now m')
    then show ?thesis
      using refs by (intro registry_inv [OF assms(2)]) (auto simp: insert_mcp_def Let_def result_simps)
  next
    case (mcp_edited f i)
    then show ?thesis
      using refs by (intro registry_inv [OF assms(2)]) (auto simp: set_update_where)
  next
    case (mcp_deleted i)
    then show ?thesis
      using refs by (intro registry_inv [OF assms(2)]) (auto simp: delete_mcps_def Let_def set_delete_where)
  next
    case (tailnet_created n now n')
    then show ?thesis
      using refs by (intro registry_inv [OF assms(2)]) (auto simp: insert_tailnet_def Let_def result_simps)
  next
    case (tailnet_deleted i)
    then show ?thesis
      using refs by (intro registry_inv [OF assms(2)]) (auto simp: delete_tailnets_def Let_def set_delete_where set_update_where)
  qed
qed

lemma destroy_user_result:
  assumes "destroy_user actor i check now d0 d = Inr d'"
  shows "\<exists>account. delete_account (u_id account) now d = Inr (Inr d') \<and> still_super_admin d actor
     \<and> find_account d0 i = Some account \<and> u_id account \<noteq> u_id actor \<and> check = Confirmed"
  using assms
  by (auto simp: destroy_user_def user_dialog_checks_def result_simps
      split: option.split_asm PasswordCheck.split_asm)
     (auto split: sum.split_asm AccountRemovalRefusal.split_asm)

interpretation accounts: invariant_system account_step "team_inv late" for late
proof
  fix d d' assume "account_step d d'" and inv: "team_inv late d"
  then show "team_inv late d'"
  proof cases
    case register
    then show ?thesis using create_inv(1) [OF inv] by (auto simp: register_def result_simps)
  next
    case logout
    then show ?thesis using invalidate_sessions_inv [OF inv] by (simp add: logout_def)
  next
    case store_team
    then show ?thesis by (rule store_team_inv [OF inv])
  next
    case switch_team
    then show ?thesis
      using switch_team_inv inv by (fastforce simp: switch_handler_def split: option.splits)
  next
    case destroy_team
    then show ?thesis by (auto simp: destroy_team_def result_simps delete_team_inv inv)
  next
    case (update_super_admin actor i super check now d0)
    then show ?thesis
      using set_super_admin_inv [OF inv] by (auto simp: update_super_admin_def result_simps Let_def case_prod_unfold)
  next
    case (destroy_user actor i check now d0)
    then obtain u where u: "delete_account u now d = Inr (Inr d')"
      using destroy_user_result by blast
    then have "0 < other_super_admins d u"
      by (auto simp: delete_account_def split: if_splits)
    then show ?thesis using delete_account_ok [OF inv, of u now] u by auto
  next
    case store_invite
    then show ?thesis using insert_invite_inv [OF inv] by (auto simp: store_invite_def result_simps Let_def)
  next
    case destroy_invite
    then show ?thesis
      using inv by (auto simp: destroy_invite_def result_simps delete_where_def invite_refs
          split: option.splits intro!: invites_inv)
  next
    case change_password
    then show ?thesis by (rule change_password_inv [OF inv])
  next
    case resolve_teams
    then show ?thesis by (rule resolve_teams_inv [OF inv])
  next
    case update_team
    then show ?thesis by (simp add: update_team_inv inv)
  next
    case update_member
    then show ?thesis by (rule update_member_inv [OF inv])
  next
    case destroy_member
    then show ?thesis by (rule destroy_member_inv [OF inv])
  next
    case accept
    then show ?thesis by (rule accept_inv [OF inv])
  qed
qed

section \<open>Invites work once\<close>

datatype invite_attempt = AttemptSignedIn User Invite int | AttemptVisitor User Invite int

fun accept_attempt :: "invite_attempt \<Rightarrow> db \<Rightarrow> db \<times> bool" where
  "accept_attempt (AttemptSignedIn user seen now) d =
     (case accept_signed_in user seen now d of Inl _ \<Rightarrow> (d, False) | Inr (d', _) \<Rightarrow> (d', True))"
| "accept_attempt (AttemptVisitor user seen now) d =
     (case accept_visitor user seen now d of Inl _ \<Rightarrow> (d, False) | Inr (d', _) \<Rightarrow> (d', True))"

fun attempt_token :: "invite_attempt \<Rightarrow> string" where
  "attempt_token (AttemptSignedIn user seen now) = inv_token seen"
| "attempt_token (AttemptVisitor user seen now) = inv_token seen"

text \<open>The unique index on the token of an invite, and ids that are its primary key.\<close>

definition invites_unique :: "db \<Rightarrow> bool" where
  "invites_unique d \<longleftrightarrow>
     table_ok inv_id (invites d) \<and> distinct (map inv_token (rows (invites d)))"

definition invite_spent :: "string \<Rightarrow> db \<Rightarrow> bool" where
  "invite_spent token d \<longleftrightarrow>
     (\<forall>i \<in> set (rows (invites d)). inv_token i = token \<longrightarrow> accepted_at i \<noteq> None)"

lemma find_usable_Some:
  assumes "find_usable d token now = Some i"
  shows "i \<in> set (rows (invites d))" "inv_token i = token" "invite_is_usable i now"
  using assms
  by (auto simp: find_usable_def find_by_token_def dest!: find_row_Some split: option.splits if_splits)

lemma accept_attempt_fails: "\<not> snd (accept_attempt a d) \<Longrightarrow> fst (accept_attempt a d) = d"
  by (cases a) (auto split: sum.splits)

lemma accept_attempt_result:
  assumes "snd (accept_attempt a d)"
  shows "\<exists>i now. find_usable d (attempt_token a) now = Some i
    \<and> invites (fst (accept_attempt a d)) = upd (\<lambda>x. inv_id x = inv_id i)
        (\<lambda>x. x\<lparr>accepted_at := Some now, inv_updated_at := Some now\<rparr>) (invites d)"
proof (cases a)
  case (AttemptSignedIn user seen now)
  then obtain d' i where r: "accept_signed_in user seen now d = Inr (d', i)"
    using assms by (auto split: sum.splits)
  then have "find_usable d (inv_token seen) now = Some i"
    "invites d' = upd (\<lambda>x. inv_id x = inv_id i)
        (\<lambda>x. x\<lparr>accepted_at := Some now, inv_updated_at := Some now\<rparr>) (invites d)"
    by (auto simp: accept_signed_in_def result_simps mark_accepted_def attach_def insert_team_member_def
        split: option.split_asm if_split_asm)
  then show ?thesis
    using AttemptSignedIn r by auto
next
  case (AttemptVisitor user seen now)
  then obtain d' c i where r: "accept_visitor user seen now d = Inr (d', c, i)"
    using assms by (auto split: sum.splits)
  then have "find_usable d (inv_token seen) now = Some i"
    "invites d' = upd (\<lambda>x. inv_id x = inv_id i)
        (\<lambda>x. x\<lparr>accepted_at := Some now, inv_updated_at := Some now\<rparr>) (invites d)"
    by (auto simp: accept_visitor_def result_simps mark_accepted_def attach_def insert_team_member_def
        create_def create_personal_def insert_user_def insert_team_def remember_team_def Let_def
        split: option.split_asm if_split_asm)
  then show ?thesis
    using AttemptVisitor r by auto
qed

interpretation invite: one_shot accept_attempt attempt_token invite_spent invites_unique
proof (standard, goal_cases)
  case (1 d a)
  then show ?case
    using accept_attempt_result [of a d] accept_attempt_fails [of a d]
    by (cases "snd (accept_attempt a d)")
       (auto simp: invites_unique_def table_ok_upd map_update_where_same)
next
  case (2 d a)
  obtain i now where i: "find_usable d (attempt_token a) now = Some i"
    and d': "invites (fst (accept_attempt a d)) = upd (\<lambda>x. inv_id x = inv_id i)
        (\<lambda>x. x\<lparr>accepted_at := Some now, inv_updated_at := Some now\<rparr>) (invites d)"
    using accept_attempt_result [OF 2(2)] by blast
  have "x = i" if "x \<in> set (rows (invites d))" "inv_token x = attempt_token a" for x
    using that find_usable_Some(1,2) [OF i] 2(1)
    by (auto simp: invites_unique_def dest: distinct_map_unique)
  then show ?case
    by (auto simp: invite_spent_def d' ball_update_where_if)
next
  case (3 d a)
  then have "find_usable d (attempt_token a) now = None" for now
    using find_usable_Some [of d "attempt_token a" now]
    by (cases "find_usable d (attempt_token a) now")
       (auto simp: invite_spent_def invite_is_usable_def is_accepted_def)
  then show ?case
    using accept_attempt_result [of a d] by auto
next
  case (4 d k a)
  then show ?case
    using accept_attempt_result [of a d] accept_attempt_fails [of a d]
    by (cases "snd (accept_attempt a d)") (auto simp: invite_spent_def bex_update_where_if update_where_def)
qed

section \<open>A small instance\<close>

definition sample_user :: "int \<Rightarrow> string \<Rightarrow> bool \<Rightarrow> User" where
  "sample_user i mail super =
     \<lparr>u_id = i, full_name = None, email = mail, password = ''hash'', u_created_at = 1,
      u_updated_at = None, session_version = 1, current_team_id = None, is_super_admin = super,
      two_factor_secret = None, two_factor_confirmed_at = None, two_factor_last_step = None\<rparr>"

definition sample_member :: "int \<Rightarrow> int \<Rightarrow> int \<Rightarrow> TeamRole \<Rightarrow> TeamMember" where
  "sample_member i t u r =
     \<lparr>tm_id = i, tm_team_id = t, tm_user_id = u, tm_role = r, tm_created_at = 1, tm_updated_at = None\<rparr>"

definition sample_token :: "int \<Rightarrow> int \<Rightarrow> int \<Rightarrow> AccessToken" where
  "sample_token i t u =
     \<lparr>at_id = i, at_name = ''t'', token_prefix = ''p'', token_hash = ''h'' @ show_int i, scope_mode = ScopeAll,
      expires_at = None, revoked_at = None, last_used_at = None, at_created_by = u, at_created_at = 1,
      at_updated_at = None, token_source = Manual, at_oauth_client_id = None, oauth_scopes = None,
      oauth_resource = None, oauth_refresh_token_hash = None, oauth_refresh_token_prefix = None,
      oauth_refresh_expires_at = None, at_team_id = t\<rparr>"

definition sample_invite :: Invite where
  "sample_invite =
     \<lparr>inv_id = 1, inv_token = ''tok'', inv_email = ''Cy@x'', inv_role = Admin, inv_created_by = 1,
      accepted_at = None, inv_expires_at = 1000, inv_created_at = 1, inv_updated_at = None,
      inv_team_id = 1\<rparr>"

definition sample_mcp :: "int \<Rightarrow> int \<Rightarrow> int \<Rightarrow> Mcp" where
  "sample_mcp i t u =
     \<lparr>mcp_id = i, mcp_name = ''m'', mcp_slug = ''m'', mcp_description = None, mcp_transport = Http,
      mcp_http_url = Some ''https://m.example/mcp'', mcp_npm_package = None, mcp_npm_version = None, mcp_npm_args = None,
      mcp_auth_type = AuthAuto, mcp_auth_bearer = None, mcp_auth_header_name = None, mcp_auth_header_value = None,
      mcp_oauth_authorize_url = None, mcp_oauth_token_url = None, mcp_oauth_scopes = None, mcp_oauth_client_id = None,
      mcp_oauth_client_secret = None, mcp_oauth_access_token = None, mcp_oauth_refresh_token = None,
      mcp_oauth_token_expires_at = None, mcp_status = Ready, mcp_last_error = None, mcp_enabled = True,
      mcp_created_by = u, mcp_created_at = 1, mcp_updated_at = None, mcp_oauth_issuer = None, mcp_oauth_resource = None,
      mcp_oauth_redirect_uri = None, mcp_oauth_client_auth_method = None, mcp_oauth_token_type = None, mcp_npm_env = None,
      mcp_oauth_required = False, mcp_builtin_key = None, mcp_builtin_write_enabled = False, mcp_builtin_username = None,
      mcp_builtin_password = None, mcp_builtin_permissions = None, mcp_builtin_aliases = None, mcp_tool_approvals = None,
      mcp_builtin_settings = None, mcp_team_id = t, mcp_tool_timeout_seconds = None, mcp_tailnet_id = None,
      mcp_oauth_generation = 0\<rparr>"

text \<open>Ann runs the instance and owns the Root Team with Bob, who made an MCP and a token there;
  Bob and Cy have personal teams; Cy is invited.\<close>

definition sample_db :: db where
  "sample_db = (migrated_db 1)\<lparr>
     users := \<lparr>rows = [sample_user 1 ''ann@x'' True, sample_user 2 ''bob@x'' False, sample_user 3 ''cy@x'' False], seq = 3\<rparr>,
     teams := append_row (\<lambda>i. (new_team ''Cy'' None True)\<lparr>t_id := i\<rparr>)
        (append_row (\<lambda>i. (new_team ''Bob'' None True)\<lparr>t_id := i\<rparr>) (teams (migrated_db 1))),
     team_user := \<lparr>rows = [sample_member 1 1 1 Owner, sample_member 2 2 2 Owner,
        sample_member 3 1 2 Admin, sample_member 4 3 3 Owner], seq = 4\<rparr>,
     mcps := \<lparr>rows = [sample_mcp 1 1 2], seq = 1\<rparr>,
     access_tokens := \<lparr>rows = [sample_token 1 1 2, sample_token 2 2 2, sample_token 3 1 1], seq = 3\<rparr>,
     invites := \<lparr>rows = [sample_invite], seq = 1\<rparr>\<rparr>"

lemmas sample_defs = sample_db_def sample_user_def sample_member_def sample_token_def
  sample_invite_def sample_mcp_def migrated_db_def new_team_def

lemma sample_inv: "team_inv late sample_db"
  by code_simp

section \<open>Properties\<close>

text \<open>C30: Deleting an account always settles. In a sound database it is refused only when no other
  super admin would be left. Otherwise the transaction succeeds: the account is gone, every
  team it shared stays, with its other members, an owner and all of its MCPs, a team it was
  alone in is deleted, and the database is sound again, so no live credential is left without
  a member behind it, but for those of \<open>late\<close> that had none before.\<close>

theorem delete_account_settles:
  assumes "team_inv late d"
  shows "if other_super_admins d u = 0 then delete_account u now d = Inr (Inl LastSuperAdmin)
    else \<exists>d'. delete_account u now d = Inr (Inr d') \<and> team_inv late d' \<and> \<not> user_exists d' u
     \<and> (\<forall>t v. is_member d' t v \<longleftrightarrow> is_member d t v \<and> v \<noteq> u)
     \<and> (\<forall>t. team_exists d' t \<longleftrightarrow>
           team_exists d t \<and> (is_member d t u \<longrightarrow> (\<exists>v. v \<noteq> u \<and> is_member d t v)))
     \<and> (\<forall>m \<in> set (rows (mcps d)). team_exists d' (mcp_team_id m) \<longrightarrow>
           (\<exists>m' \<in> set (rows (mcps d')). mcp_id m' = mcp_id m \<and> mcp_team_id m' = mcp_team_id m))"
proof (cases "other_super_admins d u = 0")
  case False
  then show ?thesis
    unfolding if_not_P [OF False] using delete_account_ok [OF assms, of u now] by simp
qed (simp add: delete_account_def)

theorem delete_account_settles_witness:
  "team_inv {} sample_db \<and> other_super_admins sample_db 2 \<noteq> 0 \<and>
   (\<exists>d'. delete_account 2 50 sample_db = Inr (Inr d') \<and> team_exists d' 1 \<and> \<not> team_exists d' 2)"
proof -
  have o: "other_super_admins sample_db 2 = 1"
    and t: "team_exists sample_db 1" "is_member sample_db 1 1" "is_member sample_db 2 2"
    by code_simp+
  have "\<not> (\<exists>v. v \<noteq> 2 \<and> is_member sample_db 2 v)"
    by (auto simp: is_member_def sample_defs)
  moreover obtain d' where "delete_account 2 50 sample_db = Inr (Inr d')"
    "\<forall>t. team_exists d' t \<longleftrightarrow>
        team_exists sample_db t \<and> (is_member sample_db t 2 \<longrightarrow> (\<exists>v. v \<noteq> 2 \<and> is_member sample_db t v))"
    using delete_account_settles [OF sample_inv, of 2 50] by (simp only: o one_neq_zero if_False) blast
  moreover have "(1 :: int) \<noteq> 2"
    by simp
  ultimately show ?thesis
    using sample_inv o t by (metis one_neq_zero)
qed

lemma role_of_set_roles:
  "role_of (set_roles (\<lambda>m. tm_team_id m = t \<and> tm_user_id m = u) r now d) t' u' =
     (if t' = t \<and> u' = u then map_option (\<lambda>_. r) (role_of d t u) else role_of d t' u')"
proof -
  have "map_option tm_role (find (\<lambda>m. tm_team_id m = t' \<and> tm_user_id m = u')
      (update_where (\<lambda>m. tm_team_id m = t \<and> tm_user_id m = u)
         (\<lambda>x. x\<lparr>tm_role := r, tm_updated_at := Some now\<rparr>) ms)) =
    (if t' = t \<and> u' = u then map_option (\<lambda>_. r) (find (\<lambda>m. tm_team_id m = t \<and> tm_user_id m = u) ms)
     else map_option tm_role (find (\<lambda>m. tm_team_id m = t' \<and> tm_user_id m = u') ms))" for ms
    by (induction ms) auto
  then show ?thesis
    by (auto simp: role_of_def find_row_def set_roles_def option.map_comp comp_def)
qed

text \<open>C29: Changing what a member is never lifts anyone above the person who does it. When the
  request goes through, the person is still an administrator or an owner of the team at that
  moment, is not the member, and neither the member's old role nor the new one ranks above
  theirs; the member then has the new role, and every other membership is as it was.\<close>

theorem update_member_no_escalation:
  assumes "update_member actor t i choice now d0 d = Inr d'"
  shows "\<exists>member role actor_role old. find_account d0 i = Some member \<and> choice = Some role
     \<and> u_id member \<noteq> u_id actor
     \<and> role_of d t (u_id actor) = Some actor_role \<and> Admin \<le> actor_role
     \<and> role_of d t (u_id member) = Some old \<and> old \<le> actor_role \<and> role \<le> actor_role
     \<and> (\<forall>t' u'. role_of d' t' u' =
            (if t' = t \<and> u' = u_id member then Some role else role_of d t' u'))"
proof -
  obtain member role r where ref: "member_refusal d t actor member ''You cannot change your own role''
             ''Only an owner can change an owner'' = None"
    and r: "role_of d t (u_id actor) = Some r" "may_grant r role"
    and d': "d' = set_roles (\<lambda>m. tm_team_id m = t \<and> tm_user_id m = u_id member) role now d"
    and m: "find_account d0 i = Some member" "choice = Some role"
    using update_member_result [OF assms] by blast
  then obtain old where "role_of d t (u_id member) = Some old" "may_manage r old"
    using member_refusal_None(2) [OF ref] by auto
  then show ?thesis
    using member_refusal_None(1) [OF ref] r m
    by (auto simp: d' role_of_set_roles may_grant_def may_manage_def is_admin_def less_eq_TeamRole_def role_at_most_def)
qed

theorem update_member_no_escalation_witness:
  "\<exists>d'. update_member (sample_user 1 ''ann@x'' True) 1 (Some 2) (Some Owner) 60 sample_db sample_db = Inr d'
     \<and> role_of d' 1 2 = Some Owner"
proof -
  have "is_ok (update_member (sample_user 1 ''ann@x'' True) 1 (Some 2) (Some Owner) 60 sample_db sample_db)"
    by code_simp
  then obtain d' where d': "update_member (sample_user 1 ''ann@x'' True) 1 (Some 2) (Some Owner) 60
      sample_db sample_db = Inr d'"
    by (auto simp: is_ok_iff)
  have "find_account sample_db (Some 2) = Some (sample_user 2 ''bob@x'' False)"
    by (simp add: find_account_def find_row_def sample_defs)
  then show ?thesis
    using d' update_member_no_escalation [OF d'] by (auto simp: sample_user_def)
qed

text \<open>Taking a member out of a team cuts off what they could do there. When the request goes
  through, someone else did it who ranks at least as high; the member is in the team no longer,
  none of the access tokens they made there is live, no authorization code of theirs for the team
  can still become a token, and everybody else keeps their memberships and their tokens.\<close>

theorem destroy_member_cuts_access:
  assumes "destroy_member actor t i now d0 d = Inr d'"
  shows "\<exists>member. find_account d0 i = Some member \<and> u_id member \<noteq> u_id actor
     \<and> (\<exists>r mr. role_of d t (u_id actor) = Some r \<and> role_of d t (u_id member) = Some mr \<and> mr \<le> r)
     \<and> (\<forall>t' u'. is_member d' t' u' = (is_member d t' u' \<and> \<not> (t' = t \<and> u' = u_id member)))
     \<and> (\<forall>a \<in> set (rows (access_tokens d')).
           at_team_id a = t \<and> at_created_by a = u_id member \<longrightarrow> revoked_at a \<noteq> None)
     \<and> (\<forall>c \<in> set (rows (authorization_codes d')).
           \<not> (code_team_id c = t \<and> code_user_id c = u_id member))
     \<and> (\<forall>a \<in> set (rows (access_tokens d)).
           \<not> (at_team_id a = t \<and> at_created_by a = u_id member) \<longrightarrow> a \<in> set (rows (access_tokens d')))"
proof -
  obtain member where ref: "member_refusal d t actor member ''You cannot remove yourself from a team''
             ''Only an owner can remove an owner'' = None" and d': "d' = detach t (u_id member) now d"
    and m: "find_account d0 i = Some member"
    using destroy_member_result [OF assms] by blast
  have "\<exists>r mr. role_of d t (u_id actor) = Some r \<and> role_of d t (u_id member) = Some mr \<and> mr \<le> r"
    using member_refusal_None(2) [OF ref] by (auto simp: may_manage_def less_eq_TeamRole_def role_at_most_def)
  moreover have "\<forall>a \<in> set (rows (access_tokens d')).
           at_team_id a = t \<and> at_created_by a = u_id member \<longrightarrow> revoked_at a \<noteq> None"
    by (simp add: d' detach_fields ball_update_where_if)
  moreover have "\<forall>a \<in> set (rows (access_tokens d)).
           \<not> (at_team_id a = t \<and> at_created_by a = u_id member) \<longrightarrow> a \<in> set (rows (access_tokens d'))"
    by (auto simp: d' detach_fields update_where_def)
  moreover have "\<forall>c \<in> set (rows (authorization_codes d')).
           \<not> (code_team_id c = t \<and> code_user_id c = u_id member)"
    by (simp add: d' detach_fields ball_delete_where)
  moreover have "\<forall>t' u'. is_member d' t' u' = (is_member d t' u' \<and> \<not> (t' = t \<and> u' = u_id member))"
    by (simp add: d' is_member_detach)
  ultimately show ?thesis
    using member_refusal_None(1) [OF ref] m by (intro exI [of _ member] conjI)
qed

theorem destroy_member_cuts_access_witness:
  "\<exists>d'. destroy_member (sample_user 1 ''ann@x'' True) 1 (Some 2) 60 sample_db sample_db = Inr d'
     \<and> \<not> is_member d' 1 2 \<and> is_member d' 2 2"
proof -
  have "is_ok (destroy_member (sample_user 1 ''ann@x'' True) 1 (Some 2) 60 sample_db sample_db)"
    by code_simp
  then obtain d' where d': "destroy_member (sample_user 1 ''ann@x'' True) 1 (Some 2) 60
      sample_db sample_db = Inr d'"
    by (auto simp: is_ok_iff)
  have "find_account sample_db (Some 2) = Some (sample_user 2 ''bob@x'' False)" "is_member sample_db 2 2"
    by (simp_all add: find_account_def find_row_def is_member_def sample_defs)
  then show ?thesis
    using d' destroy_member_cuts_access [OF d'] by (auto simp: sample_user_def)
qed

text \<open>An invite link brings in at most one person. Whatever attempts are made to accept links,
  by whom, signed in or not, at whatever times and in whatever order, at most one of the
  attempts on the same link succeeds: each transaction reads the invite again.\<close>

theorem invite_accepted_once:
  assumes "invites_unique d"
  shows "count_where (\<lambda>(a, ok). ok \<and> attempt_token a = token) (run_uses accept_attempt d attempts) \<le> 1"
  by (rule invite.at_most_once [OF assms])

theorem invite_accepted_once_witness:
  "count_where (\<lambda>(a, ok). ok \<and> attempt_token a = ''tok'')
     (run_uses accept_attempt sample_db
        [AttemptSignedIn (sample_user 3 ''cy@x'' False) sample_invite 20,
         AttemptSignedIn (sample_user 3 ''cy@x'' False) sample_invite 21]) \<le> 1"
proof (rule invite_accepted_once)
  show "invites_unique sample_db" by code_simp
qed

text \<open>Accepting an invite while signed in joins the team in the invited role, only with the
  account of the invited address, and only while the invite is neither used nor expired. Someone
  who is in the team already keeps the role they have, and nobody else's membership changes.\<close>

theorem accept_signed_in_joins:
  assumes "members_ok d" and "accept_signed_in user seen now d = Inr (d', i)"
  shows "find_by_token d (inv_token seen) = Some i \<and> invite_is_usable i now
     \<and> map_option u_id (find_by_email d (inv_email seen)) = Some (u_id user)
     \<and> (\<forall>t u. role_of d' t u =
           (if t = inv_team_id i \<and> u = u_id user \<and> role_of d t u = None then Some (inv_role i)
            else role_of d t u))"
proof -
  have i: "is_invited d user seen" "find_usable d (inv_token seen) now = Some i"
    and d': "(role_of d (inv_team_id i) (u_id user) \<noteq> None \<and> team_user d' = team_user d) \<or>
       (role_of d (inv_team_id i) (u_id user) = None \<and>
        (\<exists>d1. attach (inv_team_id i) (u_id user) (inv_role i) now d = Inr d1 \<and> team_user d' = team_user d1))"
    using assms(2)
    by (auto simp: accept_signed_in_def result_simps mark_accepted_def split: option.split_asm if_split_asm)
  have "role_of d' t u = (if t = inv_team_id i \<and> u = u_id user \<and> role_of d t u = None
      then Some (inv_role i) else role_of d t u)" for t u
    using d'
    by (auto simp: role_of_def find_row_def find_append dest!: attach_fields(1) split: option.splits)
  then show ?thesis
    using i by (auto simp: is_invited_def find_usable_def split: option.splits if_splits)
qed

theorem accept_signed_in_joins_witness:
  "\<exists>d' i. accept_signed_in (sample_user 3 ''cy@x'' False) sample_invite 20 sample_db = Inr (d', i)
     \<and> role_of d' 1 3 = Some Admin"
proof -
  have "is_ok (accept_signed_in (sample_user 3 ''cy@x'' False) sample_invite 20 sample_db)"
    by code_simp
  then obtain d' i where d': "accept_signed_in (sample_user 3 ''cy@x'' False) sample_invite 20 sample_db
      = Inr (d', i)"
    by (auto simp: is_ok_iff)
  have "find_by_token sample_db ''tok'' = Some sample_invite" "role_of sample_db 1 3 = None"
    "members_ok sample_db"
    using sample_inv by (auto simp: find_by_token_def role_of_def find_row_def sample_defs team_inv_def)
  then show ?thesis
    using d' accept_signed_in_joins [OF _ d'] by (auto simp: sample_invite_def sample_user_def)
qed

end
