(* ===== verification/AccessTokens.thy ===== *)
theory AccessTokens
  imports TeamInvariants "HOL-Library.Char_ord" "HOL-Library.List_Lexorder"
begin

text \<open>
  Access tokens: \<open>crates/gateway/src/access_token.rs\<close>, what an \<open>AccessToken\<close> says of itself in
  \<open>crates/core/src/models/access_token.rs\<close>, the scopes of \<open>crates/gateway/src/oauth/constants.rs\<close>,
  and the handlers of \<open>crates/web/src/routes/tokens.rs\<close>. SHA-256 is a parameter \<open>sha\<close>; random
  tokens are arguments. A refresh reads, then commits in a transaction: both parts are
  definitions of their own, so that requests can interleave.
\<close>

section \<open>Scopes\<close>

fun split_on :: "char \<Rightarrow> string \<Rightarrow> string list" where
  "split_on c [] = [[]]"
| "split_on c (x # xs) =
     (if x = c then [] # split_on c xs
      else case split_on c xs of [] \<Rightarrow> [[x]] | w # ws \<Rightarrow> (x # w) # ws)"

definition scope_names :: "string \<Rightarrow> string list" where
  "scope_names scopes = filter (\<lambda>s. s \<noteq> []) (split_on (CHR '' '') scopes)"

definition has_scope :: "string \<Rightarrow> string \<Rightarrow> bool" where
  "has_scope scopes scope \<longleftrightarrow> scope \<in> set (scope_names scopes)"

definition GATEWAY_OAUTH_SCOPE :: string where
  "GATEWAY_OAUTH_SCOPE = ''mcp:tools''"

definition MCPS_MANAGE_SCOPE :: string where
  "MCPS_MANAGE_SCOPE = ''mcps:manage''"

definition SUPPORTED_OAUTH_SCOPES :: "string list" where
  "SUPPORTED_OAUTH_SCOPES = [GATEWAY_OAUTH_SCOPE, MCPS_MANAGE_SCOPE]"

definition grant_scopes :: "bool \<Rightarrow> string" where
  "grant_scopes manage_mcps = (if manage_mcps then ''mcp:tools mcps:manage'' else GATEWAY_OAUTH_SCOPE)"

definition is_usable_grant :: "string \<Rightarrow> bool" where
  "is_usable_grant scopes \<longleftrightarrow> has_scope scopes GATEWAY_OAUTH_SCOPE
     \<and> list_all (\<lambda>name. name \<in> set SUPPORTED_OAUTH_SCOPES) (scope_names scopes)"

section \<open>What a token says of itself\<close>

definition is_revoked :: "AccessToken \<Rightarrow> bool" where
  "is_revoked a \<longleftrightarrow> revoked_at a \<noteq> None"

definition is_expired :: "AccessToken \<Rightarrow> int \<Rightarrow> bool" where
  "is_expired a now \<longleftrightarrow> (case expires_at a of None \<Rightarrow> False | Some e \<Rightarrow> e < now)"

definition is_usable :: "AccessToken \<Rightarrow> int \<Rightarrow> bool" where
  "is_usable a now \<longleftrightarrow> \<not> is_revoked a \<and> \<not> is_expired a now"

definition is_oauth_session_active :: "AccessToken \<Rightarrow> int \<Rightarrow> bool" where
  "is_oauth_session_active a now =
     (if token_source a \<noteq> Oauth \<or> is_revoked a then False
      else case (case oauth_refresh_expires_at a of None \<Rightarrow> expires_at a | Some e \<Rightarrow> Some e) of
        Some e \<Rightarrow> e > now | None \<Rightarrow> True)"

definition is_active :: "AccessToken \<Rightarrow> int \<Rightarrow> bool" where
  "is_active a now = (if token_source a = Oauth then is_oauth_session_active a now else is_usable a now)"

definition grants_mcp_management :: "AccessToken \<Rightarrow> bool" where
  "grants_mcp_management a \<longleftrightarrow> token_source a = Oauth \<and>
     (case oauth_scopes a of None \<Rightarrow> False | Some s \<Rightarrow> has_scope s MCPS_MANAGE_SCOPE)"

section \<open>Creating tokens\<close>

definition OAUTH_ACCESS_TOKEN_TTL_SECONDS :: int where
  "OAUTH_ACCESS_TOKEN_TTL_SECONDS = 60 * 60"

definition OAUTH_REFRESH_TOKEN_TTL_DAYS :: int where
  "OAUTH_REFRESH_TOKEN_TTL_DAYS = 30"

definition LAST_USED_WRITE_INTERVAL_MINUTES :: int where
  "LAST_USED_WRITE_INTERVAL_MINUTES = 5"

definition prefix :: "string \<Rightarrow> string" where
  "prefix plaintext = take 12 plaintext"

definition client_exists :: "db \<Rightarrow> int \<Rightarrow> bool" where
  "client_exists d c = has_row (\<lambda>x. oc_id x = c) (oauth_clients d)"

definition insert_token :: "AccessToken \<Rightarrow> int \<Rightarrow> db \<Rightarrow> (db_error, db \<times> AccessToken) result" where
  "insert_token a now d =
     (let a1 = a\<lparr>at_id := seq (access_tokens d) + 1, at_created_at := now, at_updated_at := Some now\<rparr> in
      ensure (\<not> has_row (\<lambda>x. token_hash x = token_hash a) (access_tokens d)
              \<and> (oauth_refresh_token_hash a = None \<or>
                 \<not> has_row (\<lambda>x. oauth_refresh_token_hash x = oauth_refresh_token_hash a) (access_tokens d)))
        UniqueViolation
      (ensure (team_exists d (at_team_id a) \<and> user_exists d (at_created_by a)
               \<and> (case at_oauth_client_id a of None \<Rightarrow> True | Some c \<Rightarrow> client_exists d c))
        ForeignKeyViolation
      (Inr (d\<lparr>access_tokens := append_row (\<lambda>i. a1\<lparr>at_id := i\<rparr>) (access_tokens d)\<rparr>, a1))))"

text \<open>One statement that inserts a row for each MCP, or none.\<close>

fun fresh_links :: "db \<Rightarrow> int \<Rightarrow> int list \<Rightarrow> bool" where
  "fresh_links d t [] = True"
| "fresh_links d t (m # ms) =
     (m \<notin> set ms \<and>
      \<not> has_row (\<lambda>x. atm_access_token_id x = t \<and> atm_mcp_id x = m) (access_token_mcps d) \<and>
      fresh_links d t ms)"

definition attach_mcps :: "int \<Rightarrow> int list \<Rightarrow> db \<Rightarrow> (db_error, db) result" where
  "attach_mcps t ms d =
     ensure (fresh_links d t ms) UniqueViolation
     (ensure (list_all (\<lambda>m. has_row (\<lambda>x. mcp_id x = m) (mcps d)) ms
              \<and> has_row (\<lambda>x. at_id x = t) (access_tokens d)) ForeignKeyViolation
     (Inr (d\<lparr>access_token_mcps := (access_token_mcps d)
              \<lparr>rows := rows (access_token_mcps d) @
                 map (\<lambda>m. \<lparr>atm_access_token_id = t, atm_mcp_id = m\<rparr>) ms,
               seq := seq (access_token_mcps d) + int (length ms)\<rparr>\<rparr>)))"

record NewAccessToken =
  na_name :: string
  na_scope_mode :: ScopeMode
  na_mcp_ids :: "int list"
  na_expires_at :: "int option"
  na_created_by :: int
  na_team_id :: int

definition default_token :: AccessToken where
  "default_token =
     \<lparr>at_id = 0, at_name = [], token_prefix = [], token_hash = [], scope_mode = ScopeAll,
      expires_at = None, revoked_at = None, last_used_at = None, at_created_by = 0,
      at_created_at = 0, at_updated_at = None, token_source = Manual, at_oauth_client_id = None,
      oauth_scopes = None, oauth_resource = None, oauth_refresh_token_hash = None,
      oauth_refresh_token_prefix = None, oauth_refresh_expires_at = None, at_team_id = 0\<rparr>"

text \<open>Two statements, not one transaction: a token whose MCPs cannot be attached stays.\<close>

definition create_token ::
  "(string \<Rightarrow> string) \<Rightarrow> NewAccessToken \<Rightarrow> string \<Rightarrow> int \<Rightarrow> db \<Rightarrow> db \<times> (db_error, AccessToken) result" where
  "create_token sha params plaintext now d =
     (case insert_token (default_token\<lparr>at_name := na_name params, token_prefix := prefix plaintext,
             token_hash := sha plaintext, scope_mode := na_scope_mode params,
             expires_at := na_expires_at params, at_created_by := na_created_by params,
             token_source := Manual, at_team_id := na_team_id params\<rparr>) now d of
        Inl e \<Rightarrow> (d, Inl e)
      | Inr (d1, token) \<Rightarrow>
          if na_scope_mode params = ScopeSelected \<and> na_mcp_ids params \<noteq> []
          then (case attach_mcps (at_id token) (na_mcp_ids params) d1 of
                  Inl e \<Rightarrow> (d1, Inl e) | Inr d2 \<Rightarrow> (d2, Inr token))
          else (d1, Inr token))"

record NewOauthGrant =
  ng_name :: string
  ng_client_id :: int
  ng_client_supports_refresh :: bool
  ng_scopes :: string
  ng_resource :: string
  ng_created_by :: int
  ng_team_id :: int

record CreatedOauthTokens =
  created_token :: AccessToken
  created_plaintext :: string
  created_refresh_token :: "string option"

definition create_oauth_grant ::
  "(string \<Rightarrow> string) \<Rightarrow> NewOauthGrant \<Rightarrow> string \<Rightarrow> string \<Rightarrow> int \<Rightarrow> db
     \<Rightarrow> (db_error, db \<times> CreatedOauthTokens) result" where
  "create_oauth_grant sha params plaintext fresh_refresh now d =
     (let refresh_token = (if ng_client_supports_refresh params then Some fresh_refresh else None) in
      and_then (insert_token (default_token\<lparr>at_name := ng_name params, token_prefix := prefix plaintext,
          token_hash := sha plaintext, scope_mode := ScopeAll,
          expires_at := Some (now + OAUTH_ACCESS_TOKEN_TTL_SECONDS),
          at_created_by := ng_created_by params, token_source := Oauth,
          at_oauth_client_id := Some (ng_client_id params), oauth_scopes := Some (ng_scopes params),
          oauth_resource := Some (ng_resource params),
          oauth_refresh_token_hash := map_option sha refresh_token,
          oauth_refresh_token_prefix := map_option prefix refresh_token,
          oauth_refresh_expires_at :=
            map_option (\<lambda>_. now + OAUTH_REFRESH_TOKEN_TTL_DAYS * 86400) refresh_token,
          at_team_id := ng_team_id params\<rparr>) now d) (\<lambda>(d1, token).
      Inr (d1, \<lparr>created_token = token, created_plaintext = plaintext,
                created_refresh_token = refresh_token\<rparr>)))"

section \<open>Revoking and reading\<close>

text \<open>\<open>revoke\<close> writes the column of the row it was given, whatever else changed there.\<close>

definition revoke :: "AccessToken \<Rightarrow> int \<Rightarrow> db \<Rightarrow> db" where
  "revoke token now d =
     (if revoked_at token = Some now then d
      else d\<lparr>access_tokens := upd (\<lambda>a. at_id a = at_id token)
              (\<lambda>a. a\<lparr>revoked_at := Some now, at_updated_at := Some now\<rparr>) (access_tokens d)\<rparr>)"

definition find_oauth_grant_by_refresh_history ::
  "db \<Rightarrow> string \<Rightarrow> int \<Rightarrow> string option \<Rightarrow> AccessToken option" where
  "find_oauth_grant_by_refresh_history d refresh_hash client resource =
     (case find_row (\<lambda>h. rh_token_hash h = refresh_hash) (refresh_token_history d) of
        None \<Rightarrow> None
      | Some h \<Rightarrow>
          find_row (\<lambda>a. at_id a = rh_access_token_id h \<and> at_oauth_client_id a = Some client
             \<and> token_source a = Oauth
             \<and> (case resource of None \<Rightarrow> True | Some r \<Rightarrow> oauth_resource a = Some r)) (access_tokens d))"

definition revoke_oauth_grant_for_refresh_reuse ::
  "string \<Rightarrow> int \<Rightarrow> string \<Rightarrow> int \<Rightarrow> db \<Rightarrow> db \<times> bool" where
  "revoke_oauth_grant_for_refresh_reuse refresh_hash client resource now d =
     (case find_oauth_grant_by_refresh_history d refresh_hash client (Some resource) of
        None \<Rightarrow> (d, False)
      | Some token \<Rightarrow> (if \<not> is_revoked token then revoke token now d else d, True))"

definition revoke_oauth_token :: "(string \<Rightarrow> string) \<Rightarrow> int \<Rightarrow> string \<Rightarrow> int \<Rightarrow> db \<Rightarrow> db" where
  "revoke_oauth_token sha client plaintext now d =
     (let h = sha plaintext;
          token = (case find_row (\<lambda>a. at_oauth_client_id a = Some client \<and> token_source a = Oauth
                          \<and> (token_hash a = h \<or> oauth_refresh_token_hash a = Some h)) (access_tokens d) of
                     Some a \<Rightarrow> Some a
                   | None \<Rightarrow> find_oauth_grant_by_refresh_history d h client None) in
      case token of None \<Rightarrow> d | Some a \<Rightarrow> if \<not> is_revoked a then revoke a now d else d)"

definition find_usable_by_plaintext :: "(string \<Rightarrow> string) \<Rightarrow> db \<Rightarrow> string \<Rightarrow> int \<Rightarrow> AccessToken option" where
  "find_usable_by_plaintext sha d plaintext now =
     (case find_row (\<lambda>a. token_hash a = sha plaintext) (access_tokens d) of
        None \<Rightarrow> None | Some a \<Rightarrow> if is_usable a now then Some a else None)"

definition touch_last_used :: "AccessToken \<Rightarrow> int \<Rightarrow> db \<Rightarrow> db" where
  "touch_last_used token now d =
     (if (case last_used_at token of None \<Rightarrow> False
          | Some u \<Rightarrow> u > now - LAST_USED_WRITE_INTERVAL_MINUTES * 60) then d
      else d\<lparr>access_tokens := upd (\<lambda>a. at_id a = at_id token)
              (\<lambda>a. a\<lparr>last_used_at := Some now, at_updated_at := Some now\<rparr>) (access_tokens d)\<rparr>)"

text \<open>Rows that tie in their name keep the order of their ids.\<close>

definition resolve_allowed_mcps :: "db \<Rightarrow> AccessToken \<Rightarrow> Mcp list" where
  "resolve_allowed_mcps d token =
     sort_key mcp_name (filter (\<lambda>m. mcp_team_id m = at_team_id token \<and> mcp_enabled m \<and>
       (scope_mode token = ScopeAll \<or>
        has_row (\<lambda>x. atm_access_token_id x = at_id token \<and> atm_mcp_id x = mcp_id m)
          (access_token_mcps d))) (rows (mcps d)))"

definition remove_mcp_management :: "AccessToken \<Rightarrow> db \<Rightarrow> db \<times> bool" where
  "remove_mcp_management token d =
     (if \<not> grants_mcp_management token \<or> is_revoked token then (d, False)
      else
       (let remaining = join_with '' '' (filter (\<lambda>s. s \<noteq> MCPS_MANAGE_SCOPE)
              (scope_names (case oauth_scopes token of None \<Rightarrow> [] | Some s \<Rightarrow> s)));
            P = (\<lambda>a. at_id a = at_id token \<and> revoked_at a = None) in
        (d\<lparr>access_tokens := upd P (\<lambda>a. a\<lparr>oauth_scopes := Some remaining\<rparr>) (access_tokens d)\<rparr>,
         count_rows P (access_tokens d) = 1)))"

section \<open>Refreshing a grant\<close>

datatype OauthGrantRotation = Rotated CreatedOauthTokens | RotationInvalid | Reused | ScopeExceeded

datatype rotation_read = Answered OauthGrantRotation | Current AccessToken

text \<open>What a refresh does before its transaction.\<close>

definition rotate_read ::
  "(string \<Rightarrow> string) \<Rightarrow> string \<Rightarrow> int \<Rightarrow> string \<Rightarrow> string list \<Rightarrow> int \<Rightarrow> db \<Rightarrow> db \<times> rotation_read" where
  "rotate_read sha refresh_token client resource requested_scopes now d =
     (let h = sha refresh_token;
          (d1, reused) = revoke_oauth_grant_for_refresh_reuse h client resource now d in
      if reused then (d1, Answered Reused)
      else case find_row (\<lambda>a. oauth_refresh_token_hash a = Some h \<and> at_oauth_client_id a = Some client
               \<and> oauth_resource a = Some resource \<and> token_source a = Oauth \<and> revoked_at a = None)
               (access_tokens d1) of
        None \<Rightarrow> (d1, Answered RotationInvalid)
      | Some current \<Rightarrow>
          if \<not> (case oauth_refresh_expires_at current of None \<Rightarrow> False | Some e \<Rightarrow> e > now)
          then (d1, Answered RotationInvalid)
          else if \<not> list_all (has_scope (case oauth_scopes current of None \<Rightarrow> [] | Some s \<Rightarrow> s)) requested_scopes
          then (d1, Answered ScopeExceeded)
          else (d1, Current current))"

text \<open>The transaction: \<open>None\<close> when the row is no longer the one that was read.\<close>

definition rotate_commit ::
  "(string \<Rightarrow> string) \<Rightarrow> AccessToken \<Rightarrow> string \<Rightarrow> string \<Rightarrow> string \<Rightarrow> int \<Rightarrow> db
     \<Rightarrow> (db_error, db \<times> CreatedOauthTokens option) result" where
  "rotate_commit sha current refresh_token plaintext next_refresh now d =
     (let h = sha refresh_token;
          P = (\<lambda>a. at_id a = at_id current \<and> oauth_refresh_token_hash a = Some h \<and> revoked_at a = None);
          d1 = d\<lparr>access_tokens := upd P (\<lambda>a. a\<lparr>token_hash := sha plaintext, token_prefix := prefix plaintext,
                  expires_at := Some (now + OAUTH_ACCESS_TOKEN_TTL_SECONDS),
                  oauth_refresh_token_hash := Some (sha next_refresh),
                  oauth_refresh_token_prefix := Some (prefix next_refresh),
                  last_used_at := None\<rparr>) (access_tokens d)\<rparr> in
      ensure (\<not> has_row P (access_tokens d) \<or>
              \<not> has_row (\<lambda>a. \<not> P a \<and> (token_hash a = sha plaintext \<or>
                   oauth_refresh_token_hash a = Some (sha next_refresh))) (access_tokens d)) UniqueViolation
      (if count_rows P (access_tokens d) = 1
       then ensure (\<not> has_row (\<lambda>x. rh_token_hash x = h) (refresh_token_history d)) UniqueViolation
         (let d2 = d1\<lparr>refresh_token_history := append_row (\<lambda>_. \<lparr>rh_access_token_id = at_id current,
                     rh_token_hash = h, rh_invalidated_at = now\<rparr>) (refresh_token_history d1)\<rparr> in
          case find_row (\<lambda>a. at_id a = at_id current) (access_tokens d2) of
            None \<Rightarrow> Inl RowNotFound
          | Some token \<Rightarrow> Inr (d2, Some \<lparr>created_token = token, created_plaintext = plaintext,
                                  created_refresh_token = Some next_refresh\<rparr>))
       else Inr (d1, None)))"

text \<open>What follows a transaction that found the row changed.\<close>

definition rotate_recheck :: "(string \<Rightarrow> string) \<Rightarrow> string \<Rightarrow> int \<Rightarrow> string \<Rightarrow> int \<Rightarrow> db \<Rightarrow> db \<times> OauthGrantRotation" where
  "rotate_recheck sha refresh_token client resource now d =
     (let (d1, reused) = revoke_oauth_grant_for_refresh_reuse (sha refresh_token) client resource now d in
      (d1, if reused then Reused else RotationInvalid))"

definition rotate_oauth_grant ::
  "(string \<Rightarrow> string) \<Rightarrow> string \<Rightarrow> int \<Rightarrow> string \<Rightarrow> string list \<Rightarrow> string \<Rightarrow> string \<Rightarrow> int \<Rightarrow> db
     \<Rightarrow> db \<times> (db_error, OauthGrantRotation) result" where
  "rotate_oauth_grant sha refresh_token client resource requested_scopes plaintext next_refresh now d =
     (let (d1, r) = rotate_read sha refresh_token client resource requested_scopes now d in
      case r of
        Answered x \<Rightarrow> (d1, Inr x)
      | Current current \<Rightarrow>
          (case rotate_commit sha current refresh_token plaintext next_refresh now d1 of
             Inl e \<Rightarrow> (d1, Inl e)
           | Inr (d2, Some tokens) \<Rightarrow> (d2, Inr (Rotated tokens))
           | Inr (d2, None) \<Rightarrow> apsnd Inr (rotate_recheck sha refresh_token client resource now d2)))"

section \<open>Changing what a token reaches\<close>

record AccessTokenUpdate =
  au_name :: string
  au_scope_mode :: ScopeMode
  au_mcp_ids :: "int list"
  au_expires_at :: "int option"

definition links_of :: "db \<Rightarrow> int \<Rightarrow> int list" where
  "links_of d t =
     map atm_mcp_id (filter (\<lambda>x. atm_access_token_id x = t) (rows (access_token_mcps d)))"

definition sync_mcps :: "int \<Rightarrow> int list \<Rightarrow> db \<Rightarrow> (db_error, db) result" where
  "sync_mcps t mcp_ids d =
     (let wanted = remdups (sort mcp_ids);
          existing = filter (\<lambda>m. m \<in> set wanted) (links_of d t);
          added = filter (\<lambda>m. m \<notin> set existing) wanted in
      and_then (if wanted = [] \<or> added = [] then Inr d else attach_mcps t added d) (\<lambda>d1.
      Inr (d1\<lparr>access_token_mcps := del (\<lambda>x. atm_access_token_id x = t \<and> atm_mcp_id x \<notin> set wanted)
              (access_token_mcps d1)\<rparr>)))"

definition update_token :: "AccessToken \<Rightarrow> AccessTokenUpdate \<Rightarrow> int \<Rightarrow> db \<Rightarrow> (db_error, db) result" where
  "update_token token params now d =
     (let same = (at_name token = au_name params \<and> scope_mode token = au_scope_mode params
                  \<and> expires_at token = au_expires_at params);
          d1 = (if same then d
                else d\<lparr>access_tokens := upd (\<lambda>a. at_id a = at_id token)
                   (\<lambda>a. a\<lparr>at_name := (if at_name token = au_name params then at_name a else au_name params),
                          scope_mode := (if scope_mode token = au_scope_mode params then scope_mode a
                                         else au_scope_mode params),
                          expires_at := (if expires_at token = au_expires_at params then expires_at a
                                         else au_expires_at params),
                          at_updated_at := Some now\<rparr>) (access_tokens d)\<rparr>) in
      sync_mcps (at_id token)
        (case au_scope_mode params of ScopeSelected \<Rightarrow> au_mcp_ids params | ScopeAll \<Rightarrow> []) d1)"

section \<open>The Tokens page\<close>

definition TOKEN_NOT_FOUND :: string where
  "TOKEN_NOT_FOUND = ''Token not found''"

definition UNKNOWN_MCPS :: string where
  "UNKNOWN_MCPS = ''One or more selected MCPs do not exist''"

record TokenScope =
  ts_team_id :: int
  ts_user_id :: int
  ts_admin :: bool

definition token_scope :: "User \<Rightarrow> Membership \<Rightarrow> TokenScope" where
  "token_scope user team =
     \<lparr>ts_team_id = t_id (ms_team team), ts_user_id = u_id user, ts_admin = is_admin (ms_role team)\<rparr>"

definition holds :: "TokenScope \<Rightarrow> AccessToken \<Rightarrow> bool" where
  "holds scope a \<longleftrightarrow> at_team_id a = ts_team_id scope \<and> (ts_admin scope \<or> at_created_by a = ts_user_id scope)"

definition find_token :: "db \<Rightarrow> TokenScope \<Rightarrow> int option \<Rightarrow> AccessToken option" where
  "find_token d scope i =
     (case (case i of None \<Rightarrow> None | Some i \<Rightarrow> find_row (\<lambda>a. at_id a = i) (access_tokens d)) of
        None \<Rightarrow> None | Some a \<Rightarrow> if holds scope a then Some a else None)"

definition all_mcps_exist :: "db \<Rightarrow> TokenScope \<Rightarrow> int list \<Rightarrow> bool" where
  "all_mcps_exist d scope ids \<longleftrightarrow> ids = [] \<or>
     count_rows (\<lambda>m. mcp_team_id m = ts_team_id scope \<and> mcp_id m \<in> set ids) (mcps d) = length ids"

text \<open>The dash of the message, in UTF-8.\<close>

definition em_dash :: string where
  "em_dash = [CHR 0xE2, CHR 0x80, CHR 0x94]"

definition edit_refusal :: "AccessToken \<Rightarrow> string option" where
  "edit_refusal a =
     (if is_revoked a then Some ''Revoked tokens cannot be edited''
      else if token_source a = Oauth then Some (''OAuth connections cannot be edited '' @ em_dash @ '' revoke the connection instead'')
      else None)"

text \<open>Statements after the checks run on a later database: \<open>d0\<close> is what the checks read.\<close>

definition store_token ::
  "(string \<Rightarrow> string) \<Rightarrow> User \<Rightarrow> Membership \<Rightarrow> string \<Rightarrow> ScopeMode \<Rightarrow> int list \<Rightarrow> int option \<Rightarrow> string \<Rightarrow> int
     \<Rightarrow> db \<Rightarrow> db \<Rightarrow> db \<times> (web_error, AccessToken) result" where
  "store_token sha user team name mode ids expiry plaintext now d0 d =
     (let scope = token_scope user team in
      if mode = ScopeSelected \<and> \<not> all_mcps_exist d0 scope ids
      then (d, Inl (Refused UNKNOWN_MCPS))
      else apsnd db_call (create_token sha
             \<lparr>na_name = name, na_scope_mode = mode,
              na_mcp_ids = (case mode of ScopeSelected \<Rightarrow> ids | ScopeAll \<Rightarrow> []),
              na_expires_at = expiry, na_created_by = u_id user, na_team_id = ts_team_id scope\<rparr>
             plaintext now d))"

definition update_token_handler ::
  "User \<Rightarrow> Membership \<Rightarrow> int option \<Rightarrow> AccessTokenUpdate \<Rightarrow> int \<Rightarrow> db \<Rightarrow> db \<Rightarrow> (web_error, db) result" where
  "update_token_handler user team i payload now d0 d =
     (let scope = token_scope user team in
      case find_token d0 scope i of
        None \<Rightarrow> Inl (Refused TOKEN_NOT_FOUND)
      | Some token \<Rightarrow>
     (case edit_refusal token of
        Some message \<Rightarrow> Inl (Refused message)
      | None \<Rightarrow>
          ensure (au_scope_mode payload = ScopeSelected \<longrightarrow> all_mcps_exist d0 scope (au_mcp_ids payload))
            (Refused UNKNOWN_MCPS)
            (db_call (update_token token payload now d))))"

definition revoke_handler ::
  "User \<Rightarrow> Membership \<Rightarrow> int option \<Rightarrow> int \<Rightarrow> db \<Rightarrow> db \<Rightarrow> (web_error, db) result" where
  "revoke_handler user team i now d0 d =
     (case find_token d0 (token_scope user team) i of
        None \<Rightarrow> Inl (Refused TOKEN_NOT_FOUND)
      | Some token \<Rightarrow>
          ensure (\<not> is_revoked token) (Refused ''Token already revoked'') (Inr (revoke token now d)))"

definition remove_mcp_management_handler ::
  "User \<Rightarrow> Membership \<Rightarrow> int option \<Rightarrow> db \<Rightarrow> db \<Rightarrow> db \<times> (web_error, unit) result" where
  "remove_mcp_management_handler user team i d0 d =
     (case find_token d0 (token_scope user team) i of
        None \<Rightarrow> (d, Inl (Refused TOKEN_NOT_FOUND))
      | Some token \<Rightarrow>
          (let (d1, removed) = remove_mcp_management token d in
           (d1, if removed then Inr () else Inl (Refused ''This connection cannot manage MCPs''))))"

datatype CleanupRefusal = Missing | Active

definition deletable :: "AccessToken \<Rightarrow> int \<Rightarrow> bool" where
  "deletable a now \<longleftrightarrow> revoked_at a \<noteq> None
     \<or> (token_source a = Manual \<and> (case expires_at a of None \<Rightarrow> False | Some e \<Rightarrow> e < now))
     \<or> (token_source a = Oauth \<and> revoked_at a = None \<and>
         (case oauth_refresh_expires_at a of
            Some e \<Rightarrow> e < now
          | None \<Rightarrow> (case expires_at a of None \<Rightarrow> False | Some e \<Rightarrow> e < now)))"

definition delete_inactive :: "TokenScope \<Rightarrow> int list \<Rightarrow> int \<Rightarrow> db \<Rightarrow> (CleanupRefusal, db) result" where
  "delete_inactive scope ids now d =
     ensure (count_rows (\<lambda>a. holds scope a \<and> at_id a \<in> set ids) (access_tokens d) = length ids) Missing
     (ensure (count_rows (\<lambda>a. holds scope a \<and> at_id a \<in> set ids \<and> deletable a now) (access_tokens d)
              = length ids) Active
     (Inr (delete_tokens (\<lambda>a. holds scope a \<and> at_id a \<in> set ids \<and> deletable a now) d)))"

definition destroy_tokens ::
  "User \<Rightarrow> Membership \<Rightarrow> int list \<Rightarrow> int \<Rightarrow> db \<Rightarrow> (CleanupRefusal, db) result" where
  "destroy_tokens user team ids now d =
     delete_inactive (token_scope user team) (rev (remdups (rev ids))) now d"

section \<open>Scope texts\<close>

lemma split_on_not_Nil [simp]: "split_on c xs \<noteq> []"
  by (induction xs) (auto split: list.splits)

lemma split_on_append:
  "c \<notin> set w \<Longrightarrow> split_on c (w @ c # ys) = w # split_on c ys"
  by (induction w) auto

lemma split_on_word: "c \<notin> set w \<Longrightarrow> split_on c w = [w]"
  by (induction w) auto

text \<open>Joining words with spaces and reading the names back gives the words.\<close>

lemma scope_names_join:
  "list_all (\<lambda>w. w \<noteq> [] \<and> CHR '' '' \<notin> set w) ws \<Longrightarrow> scope_names (join_with '' '' ws) = ws"
proof (induction ws)
  case (Cons w ws)
  then show ?case
    by (cases ws) (simp_all add: scope_names_def split_on_append split_on_word)
qed (simp add: scope_names_def)

lemma split_on_words: "w \<in> set (split_on c xs) \<Longrightarrow> c \<notin> set w"
proof (induction xs arbitrary: w)
  case (Cons x xs)
  then show ?case
    by (cases "split_on c xs") (auto split: if_splits)
qed simp

lemma scope_names_words: "list_all (\<lambda>w. w \<noteq> [] \<and> CHR '' '' \<notin> set w) (scope_names s)"
  by (auto simp: list_all_iff scope_names_def dest: split_on_words)

lemma scope_names_remaining:
  "scope_names (join_with '' '' (filter P (scope_names s))) = filter P (scope_names s)"
  by (rule scope_names_join) (use scope_names_words [of s] in \<open>auto simp: list_all_iff\<close>)

section \<open>Tokens in a sound table\<close>

text \<open>The primary key and the unique indexes of \<open>access_tokens\<close> and of the refresh history.\<close>

definition tokens_ok :: "db \<Rightarrow> bool" where
  "tokens_ok d \<longleftrightarrow> table_ok at_id (access_tokens d)
     \<and> distinct (map token_hash (rows (access_tokens d)))
     \<and> distinct (map rh_token_hash (rows (refresh_token_history d)))"

lemma filter_eq_single: "distinct xs \<Longrightarrow> r \<in> set xs \<Longrightarrow> filter (\<lambda>x. x = r) xs = [r]"
  by (induction xs) (auto simp: filter_empty_conv)

lemma count_by_id:
  assumes "table_ok key t" and "r \<in> set (rows t)" and "P r" and "\<And>x. P x \<Longrightarrow> key x = key r"
  shows "count_rows P t = 1"
proof -
  have "x = r" if "x \<in> set (rows t)" "P x" for x
    using that assms by (auto intro: table_ok_unique)
  then have "filter P (rows t) = filter (\<lambda>x. x = r) (rows t)"
    using assms(3) by (auto intro!: filter_cong)
  moreover have "distinct (rows t)"
    using table_ok_distinct [OF assms(1)] by (simp add: distinct_map)
  ultimately show ?thesis
    using assms(2) by (simp add: count_rows_def count_where_def filter_eq_single)
qed

text \<open>Revoking names a row by its id, and changes only when it was revoked.\<close>

lemma revoke_rows:
  "rows (access_tokens (revoke token now d)) =
     (if revoked_at token = Some now then rows (access_tokens d)
      else update_where (\<lambda>a. at_id a = at_id token)
        (\<lambda>a. a\<lparr>revoked_at := Some now, at_updated_at := Some now\<rparr>) (rows (access_tokens d)))"
  by (simp add: revoke_def)

lemma revoke_keeps:
  "refresh_token_history (revoke token now d) = refresh_token_history d"
  "tokens_ok d \<Longrightarrow> tokens_ok (revoke token now d)"
  by (simp_all add: revoke_def tokens_ok_def table_ok_upd map_update_where_same)

lemma find_history_Some:
  assumes "find_oauth_grant_by_refresh_history d h client res = Some a"
  shows "a \<in> set (rows (access_tokens d))" "at_oauth_client_id a = Some client" "token_source a = Oauth"
    and "\<exists>x \<in> set (rows (refresh_token_history d)). rh_token_hash x = h \<and> rh_access_token_id x = at_id a"
    and "\<And>r. res = Some r \<Longrightarrow> oauth_resource a = Some r"
  using assms
  by (auto simp: find_oauth_grant_by_refresh_history_def split: option.splits dest!: find_row_Some)

lemma find_history_hit:
  assumes "tokens_ok d" and "x \<in> set (rows (refresh_token_history d))" and "a \<in> set (rows (access_tokens d))"
    and "rh_access_token_id x = at_id a" and "at_oauth_client_id a = Some client"
    and "token_source a = Oauth" and "oauth_resource a = Some resource"
  shows "find_oauth_grant_by_refresh_history d (rh_token_hash x) client (Some resource) = Some a"
proof -
  have "find_row (\<lambda>h. rh_token_hash h = rh_token_hash x) (refresh_token_history d) = Some x"
    using assms(1,2) by (simp add: find_row_def find_by_key tokens_ok_def)
  moreover have "find_row (\<lambda>b. at_id b = at_id a \<and> at_oauth_client_id b = Some client
      \<and> token_source b = Oauth \<and> oauth_resource b = Some resource) (access_tokens d) = Some a"
  proof (cases "find_row (\<lambda>b. at_id b = at_id a \<and> at_oauth_client_id b = Some client
      \<and> token_source b = Oauth \<and> oauth_resource b = Some resource) (access_tokens d)")
    case None
    then show ?thesis using assms by (auto simp: find_row_None)
  next
    case (Some b)
    then show ?thesis
      using assms(1,3) by (auto simp: tokens_ok_def dest!: find_row_Some intro: table_ok_unique)
  qed
  ultimately show ?thesis
    using assms(4) by (simp add: find_oauth_grant_by_refresh_history_def)
qed

text \<open>A refresh token that was given up revokes the grant it belonged to.\<close>

lemma reuse_revokes:
  assumes "tokens_ok d" and "x \<in> set (rows (refresh_token_history d))" and "a \<in> set (rows (access_tokens d))"
    and "rh_access_token_id x = at_id a" and "at_oauth_client_id a = Some client"
    and "token_source a = Oauth" and "oauth_resource a = Some resource"
    and "revoke_oauth_grant_for_refresh_reuse (rh_token_hash x) client resource now d = (d', r)"
  shows "r" and "\<forall>b \<in> set (rows (access_tokens d')). at_id b = at_id a \<longrightarrow> revoked_at b \<noteq> None"
proof -
  note hit = find_history_hit [OF assms(1-7)]
  show "r"
    using assms(8) by (simp add: revoke_oauth_grant_for_refresh_reuse_def hit)
  have only: "b = a" if "b \<in> set (rows (access_tokens d))" "at_id b = at_id a" for b
    using that assms(1,3) by (auto simp: tokens_ok_def intro: table_ok_unique)
  have d': "d' = (if is_revoked a then d else revoke a now d)"
    using assms(8) by (auto simp: revoke_oauth_grant_for_refresh_reuse_def hit)
  show "\<forall>b \<in> set (rows (access_tokens d')). at_id b = at_id a \<longrightarrow> revoked_at b \<noteq> None"
  proof (cases "is_revoked a")
    case True
    then show ?thesis
      unfolding d' if_P [OF True] using only by (auto simp: is_revoked_def)
  next
    case False
    then show ?thesis
      unfolding d' if_not_P [OF False] by (simp add: is_revoked_def revoke_rows ball_update_where_if)
  qed
qed

section \<open>Refresh tokens are good for one exchange\<close>

definition rotation_spent :: "string \<Rightarrow> db \<Rightarrow> bool" where
  "rotation_spent h d \<longleftrightarrow> has_row (\<lambda>x. rh_token_hash x = h) (refresh_token_history d)"

text \<open>The transaction of one refresh request: what it had read, the refresh token it presents, and
  the tokens it drew.\<close>

fun rotate_attempt ::
  "(string \<Rightarrow> string) \<Rightarrow> AccessToken \<times> string \<times> string \<times> string \<times> int \<Rightarrow> db \<Rightarrow> db \<times> bool" where
  "rotate_attempt sha (current, refresh_token, plaintext, next_refresh, now) d =
     (case rotate_commit sha current refresh_token plaintext next_refresh now d of
        Inl e \<Rightarrow> (d, False)
      | Inr (d', r) \<Rightarrow> (d', r \<noteq> None))"

lemma rotate_commit_result:
  assumes "rotate_commit sha current refresh_token plaintext next_refresh now d = Inr (d', r)"
  shows "r \<noteq> None \<Longrightarrow> \<not> rotation_spent (sha refresh_token) d \<and> rotation_spent (sha refresh_token) d'"
    and "rotation_spent h d \<Longrightarrow> rotation_spent h d'"
  using assms
  by (auto simp: rotate_commit_def rotation_spent_def result_simps Let_def split: if_splits option.splits)

interpretation refresh: one_shot "rotate_attempt sha" "\<lambda>(current, refresh_token, plaintext, next_refresh, now). sha refresh_token"
  rotation_spent "\<lambda>d. True" for sha
proof (standard, goal_cases)
  case (2 d a)
  obtain c rt p n t where a: "a = (c, rt, p, n, t)" by (cases a)
  show ?case
    using 2(2) rotate_commit_result(1) [of sha c rt p n t d]
    by (auto simp: a split: sum.splits)
next
  case (3 d a)
  obtain c rt p n t where a: "a = (c, rt, p, n, t)" by (cases a)
  show ?case
    using 3(2) rotate_commit_result(1) [of sha c rt p n t d]
    by (auto simp: a split: sum.splits) (metis option.exhaust)
next
  case (4 d k a)
  obtain c rt p n t where a: "a = (c, rt, p, n, t)" by (cases a)
  show ?case
    using 4(2) rotate_commit_result(2) [of sha c rt p n t d]
    by (auto simp: a split: sum.splits)
qed simp

section \<open>What a rotation changes\<close>

definition rotated :: "(string \<Rightarrow> string) \<Rightarrow> string \<Rightarrow> string \<Rightarrow> int \<Rightarrow> AccessToken \<Rightarrow> AccessToken" where
  "rotated sha plaintext next_refresh now a =
     a\<lparr>token_hash := sha plaintext, token_prefix := prefix plaintext,
       expires_at := Some (now + OAUTH_ACCESS_TOKEN_TTL_SECONDS),
       oauth_refresh_token_hash := Some (sha next_refresh),
       oauth_refresh_token_prefix := Some (prefix next_refresh), last_used_at := None\<rparr>"

lemma rotate_commit_Some:
  assumes "rotate_commit sha current refresh_token plaintext next_refresh now d = Inr (d', Some tokens)"
    and "table_ok at_id (access_tokens d)"
  shows "\<exists>a. a \<in> set (rows (access_tokens d)) \<and> at_id a = at_id current
     \<and> oauth_refresh_token_hash a = Some (sha refresh_token) \<and> revoked_at a = None
     \<and> created_token tokens = rotated sha plaintext next_refresh now a
     \<and> rows (access_tokens d') = update_where (\<lambda>x. at_id x = at_id current)
          (rotated sha plaintext next_refresh now) (rows (access_tokens d))
     \<and> (\<forall>x \<in> set (rows (access_tokens d)). at_id x \<noteq> at_id current \<longrightarrow> token_hash x \<noteq> sha plaintext)"
proof -
  let ?P = "\<lambda>a. at_id a = at_id current \<and> oauth_refresh_token_hash a = Some (sha refresh_token) \<and> revoked_at a = None"
  let ?f = "rotated sha plaintext next_refresh now"
  have one: "count_rows ?P (access_tokens d) = 1"
    and uniq: "\<not> has_row (\<lambda>a. \<not> ?P a \<and> (token_hash a = sha plaintext \<or>
         oauth_refresh_token_hash a = Some (sha next_refresh))) (access_tokens d) \<or> \<not> has_row ?P (access_tokens d)"
    and rows: "rows (access_tokens d') = update_where ?P ?f (rows (access_tokens d))"
    and tok: "find_row (\<lambda>a. at_id a = at_id current) (upd ?P ?f (access_tokens d)) = Some (created_token tokens)"
    using assms(1)
    by (auto simp: rotate_commit_def rotated_def [abs_def] result_simps Let_def split: if_splits option.splits)
  obtain a where a: "a \<in> set (rows (access_tokens d))" "?P a"
    using one count_where_pos_iff [of ?P "rows (access_tokens d)"] by (auto simp: count_rows_def)
  have only: "?P x \<longleftrightarrow> at_id x = at_id current" if "x \<in> set (rows (access_tokens d))" for x
    using that a table_ok_unique [OF assms(2), of x a] by auto
  then have rows': "rows (access_tokens d') = update_where (\<lambda>x. at_id x = at_id current) ?f (rows (access_tokens d))"
    unfolding rows update_where_def by auto
  have "created_token tokens = ?f a"
  proof -
    obtain y where "y \<in> set (rows (access_tokens d))" "at_id (if ?P y then ?f y else y) = at_id current"
      "created_token tokens = (if ?P y then ?f y else y)"
      using find_row_Some [OF tok] by (auto simp: update_where_def)
    moreover have "at_id (?f y) = at_id y"
      by (simp add: rotated_def)
    ultimately have "?P y" "at_id y = at_id a"
      using only a by (auto split: if_splits)
    then show ?thesis
      using table_ok_unique [OF assms(2) \<open>y \<in> _\<close> a(1)] \<open>created_token tokens = _\<close> by simp
  qed
  moreover have "token_hash x \<noteq> sha plaintext"
    if "x \<in> set (rows (access_tokens d))" "at_id x \<noteq> at_id current" for x
    using uniq a that by (auto simp: has_row_iff)
  ultimately show ?thesis
    using a rows' by blast
qed

section \<open>How tokens evolve\<close>

text \<open>
  What every operation on existing tokens keeps: no table that says who is in which team
  changes, and a token that is there came from one that was, with the same team and creator,
  and revoked if that one was.
\<close>

definition same_people :: "db \<Rightarrow> db \<Rightarrow> bool" where
  "same_people d d' \<longleftrightarrow> users d' = users d \<and> teams d' = teams d \<and> team_user d' = team_user d
     \<and> mcps d' = mcps d \<and> invites d' = invites d \<and> tailnets d' = tailnets d"

definition tokens_evolve :: "db \<Rightarrow> db \<Rightarrow> bool" where
  "tokens_evolve d d' \<longleftrightarrow> same_people d d' \<and> seq (access_tokens d') = seq (access_tokens d)
     \<and> authorization_codes d' = authorization_codes d
     \<and> (\<forall>a' \<in> set (rows (access_tokens d')). \<exists>a \<in> set (rows (access_tokens d)).
           at_id a' = at_id a \<and> at_team_id a' = at_team_id a \<and> at_created_by a' = at_created_by a
           \<and> (revoked_at a \<noteq> None \<longrightarrow> revoked_at a' \<noteq> None))"

lemma same_people_member: "same_people d d' \<Longrightarrow> is_member d' = is_member d"
  by (simp add: same_people_def is_member_def fun_eq_iff)

lemma tokens_evolve_refl [simp]: "tokens_evolve d d"
  by (auto simp: tokens_evolve_def same_people_def)

lemma tokens_evolve_trans: "tokens_evolve d d1 \<Longrightarrow> tokens_evolve d1 d2 \<Longrightarrow> tokens_evolve d d2"
  unfolding tokens_evolve_def same_people_def by (auto 0 3) metis

lemma tokens_evolve_upd:
  assumes "\<And>a. at_id (f a) = at_id a \<and> at_team_id (f a) = at_team_id a \<and> at_created_by (f a) = at_created_by a
       \<and> (revoked_at a \<noteq> None \<longrightarrow> revoked_at (f a) \<noteq> None)"
  shows "tokens_evolve d (d\<lparr>access_tokens := upd P f (access_tokens d)\<rparr>)"
  using assms by (auto simp: tokens_evolve_def same_people_def update_where_def)

lemma tokens_evolve_inv:
  assumes "tokens_evolve d d'" and "team_inv late d"
  shows "team_inv late d'"
proof -
  note inv = team_inv_extend [OF assms(2)]
  have p: "same_people d d'" and codes: "authorization_codes d' = authorization_codes d"
    and tok: "\<And>a'. a' \<in> set (rows (access_tokens d')) \<Longrightarrow> \<exists>a \<in> set (rows (access_tokens d)).
       at_id a' = at_id a \<and> at_team_id a' = at_team_id a \<and> at_created_by a' = at_created_by a
       \<and> (revoked_at a \<noteq> None \<longrightarrow> revoked_at a' \<noteq> None)"
    using assms(1) by (auto simp: tokens_evolve_def)
  note eqs = p [unfolded same_people_def]
  have "ids_ok d'" "members_ok d'" "owned d'" "governed d'"
    using inv(1-4) eqs by (simp_all add: ids_ok_def members_ok_def owned_def has_owner_def governed_def)
  moreover have "creds_ok late d'"
    unfolding creds_ok_def same_people_member [OF p] codes
  proof
    show "\<forall>a \<in> set (rows (access_tokens d')). revoked_at a = None \<longrightarrow>
        is_member d (at_team_id a) (at_created_by a) \<or> (at_team_id a, at_created_by a) \<in> late"
    proof (intro ballI impI)
      fix a' assume "a' \<in> set (rows (access_tokens d'))" "revoked_at a' = None"
      then obtain a where "a \<in> set (rows (access_tokens d))" "at_team_id a' = at_team_id a"
        "at_created_by a' = at_created_by a" "revoked_at a = None"
        using tok by blast
      then show "is_member d (at_team_id a') (at_created_by a') \<or> (at_team_id a', at_created_by a') \<in> late"
        using inv(5) by (simp add: creds_ok_def)
    qed
  qed (use inv(5) in \<open>simp add: creds_ok_def\<close>)
  moreover have "refs_ok d'"
  proof -
    have "\<forall>a' \<in> set (rows (access_tokens d')). team_exists d (at_team_id a') \<and> user_exists d (at_created_by a')"
      using tok inv(6) unfolding refs_ok_def by metis
    then show ?thesis
      using inv(6) eqs codes by (simp add: refs_ok_def)
  qed
  ultimately show ?thesis
    by (simp add: team_inv_def)
qed

lemma revoke_evolves: "tokens_evolve d (revoke token now d)"
  by (simp add: revoke_def tokens_evolve_upd)

lemma reuse_evolves: "tokens_evolve d (fst (revoke_oauth_grant_for_refresh_reuse h c r now d))"
  by (auto simp: revoke_oauth_grant_for_refresh_reuse_def revoke_evolves split: option.split)

lemma tokens_evolve_history: "tokens_evolve d (d'\<lparr>refresh_token_history := x\<rparr>) \<longleftrightarrow> tokens_evolve d d'"
  by (simp add: tokens_evolve_def same_people_def)

lemma tokens_evolve_links: "tokens_evolve d (d'\<lparr>access_token_mcps := x\<rparr>) \<longleftrightarrow> tokens_evolve d d'"
  by (simp add: tokens_evolve_def same_people_def)

lemma rotate_commit_evolves:
  assumes "rotate_commit sha current rt p n now d = Inr (d', r)"
  shows "tokens_evolve d d'"
proof -
  let ?P = "\<lambda>a. at_id a = at_id current \<and> oauth_refresh_token_hash a = Some (sha rt) \<and> revoked_at a = None"
  have "access_tokens d' = upd ?P (rotated sha p n now) (access_tokens d) \<and> same_people d d'
      \<and> authorization_codes d' = authorization_codes d"
    using assms
    by (auto simp: rotate_commit_def rotated_def [abs_def] same_people_def result_simps Let_def
        split: if_splits option.splits)
  moreover have "tokens_evolve d (d\<lparr>access_tokens := upd ?P (rotated sha p n now) (access_tokens d)\<rparr>)"
    by (rule tokens_evolve_upd) (simp add: rotated_def)
  ultimately show ?thesis
    by (simp add: tokens_evolve_def)
qed

lemma sync_mcps_evolves: "sync_mcps t ids d = Inr d' \<Longrightarrow> tokens_evolve d d'"
  by (auto simp: sync_mcps_def attach_mcps_def result_simps tokens_evolve_links Let_def split: if_splits)

lemma update_token_evolves:
  assumes "update_token token params now d = Inr d'"
  shows "tokens_evolve d d'"
proof -
  let ?d1 = "d\<lparr>access_tokens := upd (\<lambda>a. at_id a = at_id token)
       (\<lambda>a. a\<lparr>at_name := (if at_name token = au_name params then at_name a else au_name params),
              scope_mode := (if scope_mode token = au_scope_mode params then scope_mode a
                             else au_scope_mode params),
              expires_at := (if expires_at token = au_expires_at params then expires_at a
                             else au_expires_at params),
              at_updated_at := Some now\<rparr>) (access_tokens d)\<rparr>"
  have "tokens_evolve d ?d1"
    by (rule tokens_evolve_upd) simp
  moreover have "\<exists>d1 ids. (d1 = d \<or> d1 = ?d1) \<and> sync_mcps (at_id token) ids d1 = Inr d'"
    using assms by (auto simp: update_token_def Let_def split: if_splits)
  ultimately show ?thesis
    using sync_mcps_evolves tokens_evolve_trans tokens_evolve_refl by blast
qed

lemma delete_tokens_evolves: "tokens_evolve d (delete_tokens P d)"
  by (auto simp: tokens_evolve_def same_people_def delete_tokens_def Let_def set_delete_where)

text \<open>
  Every statement or transaction on tokens, in any interleaving: a refresh contributes its
  reading part, its transaction and its recheck as separate steps, each with whatever it had
  read before. The two that make a token rest on a membership that their request had read and
  that the code does not read again: it is still there when they write, or is one of \<open>late\<close>.
\<close>

inductive token_step :: "(int \<times> int) set \<Rightarrow> (string \<Rightarrow> string) \<Rightarrow> db \<Rightarrow> db \<Rightarrow> bool" for late sha where
  store: "store_token sha user team name mode ids expiry plaintext now d0 d = (d', r) \<Longrightarrow>
     is_member d (t_id (ms_team team)) (u_id user) \<or> (t_id (ms_team team), u_id user) \<in> late \<Longrightarrow> token_step late sha d d'"
| grant: "create_oauth_grant sha params plaintext fresh now d = Inr (d', tokens) \<Longrightarrow>
     is_member d (ng_team_id params) (ng_created_by params) \<or> (ng_team_id params, ng_created_by params) \<in> late \<Longrightarrow> token_step late sha d d'"
| update: "update_token_handler user team i payload now d0 d = Inr d' \<Longrightarrow> token_step late sha d d'"
| revoke: "revoke_handler user team i now d0 d = Inr d' \<Longrightarrow> token_step late sha d d'"
| manage: "remove_mcp_management_handler user team i d0 d = (d', r) \<Longrightarrow> token_step late sha d d'"
| destroy: "destroy_tokens user team ids now d = Inr d' \<Longrightarrow> token_step late sha d d'"
| revoke_oauth: "token_step late sha d (revoke_oauth_token sha client plaintext now d)"
| touch: "token_step late sha d (touch_last_used token now d)"
| rotate_read: "rotate_read sha rt client resource scopes now d = (d', r) \<Longrightarrow> token_step late sha d d'"
| rotate_commit: "rotate_commit sha current rt plaintext fresh now d = Inr (d', r) \<Longrightarrow> token_step late sha d d'"
| rotate_recheck: "rotate_recheck sha rt client resource now d = (d', r) \<Longrightarrow> token_step late sha d d'"

inductive_cases token_stepE: "token_step late sha d d'"

text \<open>A new token: one row more, with the next id, for a member or one of \<open>late\<close>.\<close>

definition token_added :: "(int \<times> int) set \<Rightarrow> db \<Rightarrow> db \<Rightarrow> bool" where
  "token_added late d d' \<longleftrightarrow> (\<exists>a. same_people d d' \<and> authorization_codes d' = authorization_codes d
     \<and> access_tokens d' = append_row (\<lambda>i. a\<lparr>at_id := i\<rparr>) (access_tokens d)
     \<and> (is_member d (at_team_id a) (at_created_by a) \<or> (at_team_id a, at_created_by a) \<in> late)
     \<and> team_exists d (at_team_id a) \<and> user_exists d (at_created_by a))"

lemma insert_token_added:
  assumes "insert_token a now d = Inr (d', a')"
    and "is_member d (at_team_id a) (at_created_by a) \<or> (at_team_id a, at_created_by a) \<in> late"
  shows "token_added late d d'"
  using assms
  by (auto simp: token_added_def insert_token_def same_people_def result_simps Let_def
      intro!: exI [of _ "a\<lparr>at_created_at := now, at_updated_at := Some now\<rparr>"])

lemma token_added_links: "token_added late d (d'\<lparr>access_token_mcps := x\<rparr>) \<longleftrightarrow> token_added late d d'"
  by (simp add: token_added_def same_people_def)

lemma create_token_cases:
  assumes "is_member d (na_team_id params) (na_created_by params) \<or> (na_team_id params, na_created_by params) \<in> late"
  shows "fst (create_token sha params plaintext now d) = d
      \<or> token_added late d (fst (create_token sha params plaintext now d))"
proof -
  let ?a = "default_token\<lparr>at_name := na_name params, token_prefix := prefix plaintext,
             token_hash := sha plaintext, scope_mode := na_scope_mode params,
             expires_at := na_expires_at params, at_created_by := na_created_by params,
             token_source := Manual, at_team_id := na_team_id params\<rparr>"
  show ?thesis
  proof (cases "insert_token ?a now d")
    case (Inl e)
    then show ?thesis by (simp add: create_token_def)
  next
    case (Inr r)
    obtain d1 token where r: "r = (d1, token)" by (cases r)
    have "token_added late d d1"
      using insert_token_added [of ?a now d d1 token] Inr assms by (simp add: r)
    then show ?thesis
      using Inr by (auto simp: create_token_def r attach_mcps_def ensure_def token_added_links)
  qed
qed

lemma store_token_cases:
  assumes "store_token sha user team name mode ids expiry plaintext now d0 d = (d', r)"
    and "is_member d (t_id (ms_team team)) (u_id user) \<or> (t_id (ms_team team), u_id user) \<in> late"
  shows "d' = d \<or> token_added late d d'"
proof -
  let ?params = "\<lparr>na_name = name, na_scope_mode = mode,
      na_mcp_ids = (case mode of ScopeSelected \<Rightarrow> ids | ScopeAll \<Rightarrow> []), na_expires_at = expiry,
      na_created_by = u_id user, na_team_id = t_id (ms_team team)\<rparr>"
  have "d' = d \<or> d' = fst (create_token sha ?params plaintext now d)"
    using arg_cong [OF assms(1), of fst]
    by (auto simp: store_token_def token_scope_def Let_def split: if_splits)
  moreover have "fst (create_token sha ?params plaintext now d) = d
      \<or> token_added late d (fst (create_token sha ?params plaintext now d))"
    by (rule create_token_cases) (use assms(2) in simp)
  ultimately show ?thesis by auto
qed

lemma token_step_cases:
  assumes "token_step late sha d d'"
  shows "tokens_evolve d d' \<or> token_added late d d'"
  using assms
proof (rule token_stepE, goal_cases)
  case 1
  then show ?thesis using store_token_cases by (metis tokens_evolve_refl)
next
  case (2 params plaintext fresh now tokens)
  then show ?thesis
    using insert_token_added
    by (fastforce simp: create_oauth_grant_def result_simps Let_def default_token_def)
next
  case 3
  then show ?thesis
    using update_token_evolves by (auto simp: update_token_handler_def result_simps Let_def split: option.splits)
next
  case 4
  then show ?thesis
    by (auto simp: revoke_handler_def result_simps revoke_evolves split: option.splits)
next
  case 5
  then show ?thesis
    by (auto simp: remove_mcp_management_handler_def remove_mcp_management_def Let_def
        split: option.splits if_splits intro!: disjI1 tokens_evolve_upd)
next
  case 6
  then show ?thesis
    by (auto simp: destroy_tokens_def delete_inactive_def result_simps delete_tokens_evolves)
next
  case 7
  then show ?thesis
    by (auto simp: revoke_oauth_token_def Let_def revoke_evolves split: option.split)
next
  case 8
  then show ?thesis
    by (auto simp: touch_last_used_def intro!: tokens_evolve_upd)
next
  case (9 rt client resource scopes now r)
  then have "d' = fst (revoke_oauth_grant_for_refresh_reuse (sha rt) client resource now d)"
    by (auto simp: rotate_read_def Let_def case_prod_unfold split: if_splits option.splits)
  then show ?thesis by (simp add: reuse_evolves)
next
  case 10
  then show ?thesis using rotate_commit_evolves by blast
next
  case (11 rt client resource now r)
  then have "d' = fst (revoke_oauth_grant_for_refresh_reuse (sha rt) client resource now d)"
    by (auto simp: rotate_recheck_def Let_def case_prod_unfold)
  then show ?thesis by (simp add: reuse_evolves)
qed

lemma token_added_inv:
  assumes "token_added late d d'" and "team_inv late d"
  shows "team_inv late d'"
proof -
  obtain a where p: "same_people d d'" and codes: "authorization_codes d' = authorization_codes d"
    and tok: "access_tokens d' = append_row (\<lambda>i. a\<lparr>at_id := i\<rparr>) (access_tokens d)"
    and a: "is_member d (at_team_id a) (at_created_by a) \<or> (at_team_id a, at_created_by a) \<in> late" "team_exists d (at_team_id a)" "user_exists d (at_created_by a)"
    using assms(1) by (auto simp: token_added_def)
  note inv = team_inv_extend [OF assms(2)]
  note eqs = p [unfolded same_people_def]
  have "ids_ok d'" "members_ok d'" "owned d'" "governed d'"
    using inv(1-4) eqs by (simp_all add: ids_ok_def members_ok_def owned_def has_owner_def governed_def)
  moreover have "creds_ok late d'"
    using inv(5) a(1) unfolding creds_ok_def same_people_member [OF p] codes by (auto simp: tok)
  moreover have "refs_ok d'"
    using inv(6) a(2,3) eqs codes by (auto simp: refs_ok_def tok)
  ultimately show ?thesis
    by (simp add: team_inv_def)
qed

text \<open>A token that is revoked, or was deleted.\<close>

definition dead_token :: "int \<Rightarrow> db \<Rightarrow> bool" where
  "dead_token i d \<longleftrightarrow> i \<le> seq (access_tokens d)
     \<and> (\<forall>a \<in> set (rows (access_tokens d)). at_id a = i \<longrightarrow> revoked_at a \<noteq> None)"

interpretation tokens: invariant_system "token_step late sha" "team_inv late" for late sha
  using token_step_cases tokens_evolve_inv token_added_inv by unfold_locales blast

interpretation dead_tokens: invariant_system "token_step late sha" "dead_token i" for late sha i
proof
  fix d d' assume "token_step late sha d d'" and dead: "dead_token i d"
  from token_step_cases [OF this(1)] show "dead_token i d'"
  proof
    assume "tokens_evolve d d'"
    then show ?thesis
      using dead unfolding tokens_evolve_def dead_token_def by metis
  next
    assume "token_added late d d'"
    then show ?thesis
      using dead by (auto simp: token_added_def dead_token_def)
  qed
qed

section \<open>A small instance\<close>

text \<open>Bob's connection: an OAuth grant of the Root Team that may manage MCPs, with a token that
  was already exchanged.\<close>

definition sample_grant :: AccessToken where
  "sample_grant =
     default_token\<lparr>at_id := 4, token_hash := ''acc'', expires_at := Some 100, at_created_by := 2,
       token_source := Oauth, at_oauth_client_id := Some 7, oauth_scopes := Some ''mcp:tools mcps:manage'',
       oauth_resource := Some ''res'', oauth_refresh_token_hash := Some ''ref'',
       oauth_refresh_expires_at := Some 1000, at_team_id := 1\<rparr>"

definition granted_db :: db where
  "granted_db = sample_db\<lparr>access_tokens := append_row (\<lambda>i. sample_grant\<lparr>at_id := i\<rparr>) (access_tokens sample_db),
     refresh_token_history := \<lparr>rows = [\<lparr>rh_access_token_id = 4, rh_token_hash = ''old'', rh_invalidated_at = 5\<rparr>],
       seq = 1\<rparr>\<rparr>"

lemmas granted_defs = granted_db_def sample_grant_def default_token_def sample_defs

section \<open>Properties\<close>

lemma reuse_miss:
  "\<not> snd (revoke_oauth_grant_for_refresh_reuse h client resource now d) \<Longrightarrow>
   fst (revoke_oauth_grant_for_refresh_reuse h client resource now d) = d"
  by (auto simp: revoke_oauth_grant_for_refresh_reuse_def split: option.splits)

lemma rotate_read_Current:
  assumes "rotate_read sha rt client resource scopes now d = (d', Current current)"
  shows "d' = d" "current \<in> set (rows (access_tokens d))" "oauth_refresh_token_hash current = Some (sha rt)"
    "at_oauth_client_id current = Some client" "oauth_resource current = Some resource"
    "token_source current = Oauth" "revoked_at current = None"
    "\<exists>e. oauth_refresh_expires_at current = Some e \<and> now < e"
    "list_all (has_scope (case oauth_scopes current of None \<Rightarrow> [] | Some s \<Rightarrow> s)) scopes"
  using assms
  by (auto simp: rotate_read_def Let_def case_prod_unfold split: if_splits option.splits
      dest!: find_row_Some simp: reuse_miss)

lemma rotate_Rotated:
  assumes "rotate_oauth_grant sha rt client resource scopes p n now d = (d', Inr (Rotated tokens))"
  obtains current where "rotate_read sha rt client resource scopes now d = (d, Current current)"
    and "rotate_commit sha current rt p n now d = Inr (d', Some tokens)"
proof -
  obtain d1 r where read: "rotate_read sha rt client resource scopes now d = (d1, r)"
    by (cases "rotate_read sha rt client resource scopes now d")
  moreover have "r \<noteq> Answered (Rotated tokens)"
    using read by (auto simp: rotate_read_def Let_def case_prod_unfold split: if_splits option.splits)
  ultimately obtain current where "r = Current current" and "rotate_commit sha current rt p n now d1 = Inr (d', Some tokens)"
    using assms
    by (auto simp: rotate_oauth_grant_def rotate_recheck_def case_prod_unfold Let_def
        split: rotation_read.split_asm sum.split_asm option.split_asm if_split_asm)
  with read show thesis
    using rotate_read_Current(1) that by blast
qed

lemma find_usable_unique:
  assumes "a \<in> set (rows (access_tokens d))" and "token_hash a = sha p"
    and "\<And>b. b \<in> set (rows (access_tokens d)) \<Longrightarrow> token_hash b = sha p \<Longrightarrow> b = a"
  shows "find_usable_by_plaintext sha d p now = (if is_usable a now then Some a else None)"
proof -
  have "find_row (\<lambda>x. token_hash x = sha p) (access_tokens d) = Some a"
  proof (cases "find_row (\<lambda>x. token_hash x = sha p) (access_tokens d)")
    case None
    then show ?thesis using assms(1,2) by (simp add: find_row_None)
  next
    case (Some b)
    then show ?thesis using assms(3) find_row_Some [OF Some] by simp
  qed
  then show ?thesis by (simp add: find_usable_by_plaintext_def)
qed

lemma find_usable_none:
  "\<forall>a \<in> set (rows (access_tokens d)). token_hash a \<noteq> sha p \<Longrightarrow> find_usable_by_plaintext sha d p now = None"
  by (simp add: find_usable_by_plaintext_def find_row_None [THEN iffD2])

text \<open>Exchanging a refresh token renews the grant it belongs to. The grant was the client's own for
  that resource, not revoked, with time left, and held every scope that was asked for. It gets a
  new access token that works at once for an hour and a new refresh token, and keeps everything
  else: team, creator, scopes, resource and the end of the refresh period. The access token it
  had stops working.\<close>

theorem rotation_renews_grant:
  assumes "tokens_ok d"
    and "rotate_oauth_grant sha refresh_token client resource scopes plaintext next_refresh now d
           = (d', Inr (Rotated tokens))"
  shows "\<exists>a \<in> set (rows (access_tokens d)). oauth_refresh_token_hash a = Some (sha refresh_token)
    \<and> at_oauth_client_id a = Some client \<and> oauth_resource a = Some resource \<and> token_source a = Oauth
    \<and> revoked_at a = None \<and> (\<exists>e. oauth_refresh_expires_at a = Some e \<and> now < e)
    \<and> list_all (has_scope (case oauth_scopes a of None \<Rightarrow> [] | Some s \<Rightarrow> s)) scopes
    \<and> created_token tokens = a\<lparr>token_hash := sha plaintext, token_prefix := prefix plaintext,
         expires_at := Some (now + 3600), oauth_refresh_token_hash := Some (sha next_refresh),
         oauth_refresh_token_prefix := Some (prefix next_refresh), last_used_at := None\<rparr>
    \<and> find_usable_by_plaintext sha d' plaintext now = Some (created_token tokens)
    \<and> (\<forall>q t. sha q = token_hash a \<and> sha q \<noteq> sha plaintext \<longrightarrow> find_usable_by_plaintext sha d' q t = None)"
proof -
  from assms(2) obtain current where read: "rotate_read sha refresh_token client resource scopes now d = (d, Current current)"
    and commit: "rotate_commit sha current refresh_token plaintext next_refresh now d = Inr (d', Some tokens)"
    by (rule rotate_Rotated)
  note c = rotate_read_Current [OF read]
  let ?f = "rotated sha plaintext next_refresh now"
  have tab: "table_ok at_id (access_tokens d)" and dist: "distinct (map token_hash (rows (access_tokens d)))"
    using assms(1) by (auto simp: tokens_ok_def)
  obtain a where "a \<in> set (rows (access_tokens d))" "at_id a = at_id current"
    and made: "created_token tokens = ?f a"
    and rows: "rows (access_tokens d') = update_where (\<lambda>x. at_id x = at_id current) ?f (rows (access_tokens d))"
    and fresh: "\<forall>x \<in> set (rows (access_tokens d)). at_id x \<noteq> at_id current \<longrightarrow> token_hash x \<noteq> sha plaintext"
    using rotate_commit_Some [OF commit tab] by blast
  then have a: "a = current"
    using table_ok_unique [OF tab] c(2) by blast
  have mem: "x \<in> set (rows (access_tokens d')) \<Longrightarrow>
      x = ?f current \<or> (x \<in> set (rows (access_tokens d)) \<and> at_id x \<noteq> at_id current)" for x
    using table_ok_unique [OF tab _ c(2)] unfolding rows by (auto simp: update_where_def)
  have in': "?f current \<in> set (rows (access_tokens d'))"
    using c(2) unfolding rows by (force simp: update_where_def)
  have "find_usable_by_plaintext sha d' plaintext now = Some (?f current)"
    using find_usable_unique [OF in', of sha plaintext now] mem fresh c(7)
    by (fastforce simp: rotated_def is_usable_def is_revoked_def is_expired_def OAUTH_ACCESS_TOKEN_TTL_SECONDS_def)
  moreover have "find_usable_by_plaintext sha d' q t = None"
    if q: "sha q = token_hash current" "sha q \<noteq> sha plaintext" for q t
  proof (intro find_usable_none ballI)
    fix x assume "x \<in> set (rows (access_tokens d'))"
    from mem [OF this] show "token_hash x \<noteq> sha q"
      using q distinct_map_unique [OF dist _ c(2)] by (auto simp: rotated_def)
  qed
  ultimately show ?thesis
    using c made by (intro bexI [of _ current]) (auto simp: a rotated_def OAUTH_ACCESS_TOKEN_TTL_SECONDS_def)
qed

theorem rotation_renews_grant_witness:
  "\<exists>d' tokens. rotate_oauth_grant (\<lambda>s. s) ''ref'' 7 ''res'' [''mcp:tools''] ''new'' ''next'' 50 granted_db
      = (d', Inr (Rotated tokens))
    \<and> find_usable_by_plaintext (\<lambda>s. s) d' ''new'' 50 = Some (created_token tokens)
    \<and> find_usable_by_plaintext (\<lambda>s. s) d' ''acc'' 50 = None"
proof -
  have ok: "tokens_ok granted_db" by code_simp
  have "case snd (rotate_oauth_grant (\<lambda>s. s) ''ref'' 7 ''res'' [''mcp:tools''] ''new'' ''next'' 50 granted_db) of
      Inr (Rotated tokens) \<Rightarrow> True | _ \<Rightarrow> False"
    by code_simp
  then obtain d' tokens where r: "rotate_oauth_grant (\<lambda>s. s) ''ref'' 7 ''res'' [''mcp:tools''] ''new'' ''next'' 50 granted_db
      = (d', Inr (Rotated tokens))"
    by (auto split: sum.split_asm OauthGrantRotation.split_asm) (metis prod.collapse)
  have "a = sample_grant" if "a \<in> set (rows (access_tokens granted_db))" "oauth_refresh_token_hash a = Some ''ref''" for a
    using that by (auto simp: granted_defs)
  then show ?thesis
    using r rotation_renews_grant [OF ok r] by (fastforce simp: granted_defs)
qed

text \<open>C24: A refresh token is exchanged at most once. Of all the refresh transactions that present the
  same token, in any order and whatever each of them had read before, at most one hands out new
  tokens.\<close>

theorem refresh_token_once:
  "count_where (\<lambda>((current, refresh_token, plaintext, next_refresh, now), ok). ok \<and> sha refresh_token = h)
     (run_uses (rotate_attempt sha) d attempts) \<le> 1"
proof -
  have eq: "(\<lambda>((current, refresh_token, plaintext, next_refresh, now), ok). ok \<and> sha refresh_token = h) =
    (\<lambda>(a, ok). ok \<and> (case a of (current, refresh_token, plaintext, next_refresh, now) \<Rightarrow> sha refresh_token) = h)"
    by (auto simp: fun_eq_iff)
  show ?thesis
    unfolding eq by (rule refresh.at_most_once) simp
qed

text \<open>Presenting a refresh token that was already exchanged takes the whole grant back: the answer
  is that it was reused, no token is handed out, and whatever access token the grant had by then
  no longer works.\<close>

theorem replay_revokes_grant:
  assumes "tokens_ok d" and "x \<in> set (rows (refresh_token_history d))" and "a \<in> set (rows (access_tokens d))"
    and "rh_access_token_id x = at_id a" and "rh_token_hash x = sha refresh_token"
    and "at_oauth_client_id a = Some client" and "token_source a = Oauth" and "oauth_resource a = Some resource"
    and "rotate_oauth_grant sha refresh_token client resource scopes plaintext next_refresh now d = (d', r)"
  shows "r = Inr Reused \<and> (\<forall>q t. find_usable_by_plaintext sha d' q t \<noteq> None \<longrightarrow>
     at_id (the (find_usable_by_plaintext sha d' q t)) \<noteq> at_id a)"
proof -
  obtain d1 b where reuse: "revoke_oauth_grant_for_refresh_reuse (rh_token_hash x) client resource now d = (d1, b)"
    by (cases "revoke_oauth_grant_for_refresh_reuse (rh_token_hash x) client resource now d")
  note revoked = reuse_revokes [OF assms(1-4,6-8) reuse]
  have "rotate_oauth_grant sha refresh_token client resource scopes plaintext next_refresh now d = (d1, Inr Reused)"
    using reuse revoked(1) by (simp add: rotate_oauth_grant_def rotate_read_def assms(5))
  then have r: "r = Inr Reused" "d' = d1"
    using assms(9) by simp_all
  then show ?thesis
    using revoked(2)
    by (auto simp: find_usable_by_plaintext_def is_usable_def is_revoked_def split: option.splits if_splits
        dest!: find_row_Some)
qed

theorem replay_revokes_grant_witness:
  "snd (rotate_oauth_grant (\<lambda>s. s) ''old'' 7 ''res'' [] ''new'' ''next'' 50 granted_db) = Inr Reused"
proof -
  let ?x = "\<lparr>rh_access_token_id = 4, rh_token_hash = ''old'', rh_invalidated_at = 5\<rparr>"
  have "tokens_ok granted_db" by code_simp
  moreover have "?x \<in> set (rows (refresh_token_history granted_db))" "sample_grant \<in> set (rows (access_tokens granted_db))"
    by (simp_all add: granted_defs)
  moreover have "rh_access_token_id ?x = at_id sample_grant" "at_oauth_client_id sample_grant = Some 7"
    "token_source sample_grant = Oauth" "oauth_resource sample_grant = Some ''res''"
    by (simp_all add: sample_grant_def)
  ultimately show ?thesis
    using replay_revokes_grant [where x = ?x and a = sample_grant and d = granted_db and sha = "\<lambda>s. s"
      and refresh_token = "''old''", OF _ _ _ _ _ _ _ _ prod.collapse [symmetric]] by simp
qed

interpretation drawn_ids: invariant_system "token_step late sha" "\<lambda>d. i \<le> seq (access_tokens d)" for late sha i
proof
  fix d d' assume "token_step late sha d d'" and i: "i \<le> seq (access_tokens d)"
  from token_step_cases [OF this(1)] show "i \<le> seq (access_tokens d')"
    using i by (auto simp: tokens_evolve_def token_added_def)
qed

lemma dead_token_unusable:
  "dead_token i d \<Longrightarrow> find_usable_by_plaintext sha d plaintext t = Some a \<Longrightarrow> at_id a \<noteq> i"
  by (auto simp: dead_token_def find_usable_by_plaintext_def is_usable_def is_revoked_def
      split: option.splits if_splits dest!: find_row_Some)

lemma revoke_handler_dead:
  assumes "revoke_handler user team (Some i) now d0 d = Inr d1" and "i \<le> seq (access_tokens d)"
  shows "dead_token i d1"
  using assms
  by (auto simp: revoke_handler_def result_simps find_token_def dead_token_def is_revoked_def
      update_where_def revoke_def split: option.splits if_splits dest!: find_row_Some)

text \<open>C20: A revoked token never works again. Once the Tokens page has revoked a token, no sequence of
  operations on tokens, of any user, client or refresh request, in any order, makes a lookup by
  any plaintext return it.\<close>

theorem revoked_token_never_works:
  assumes "table_ok at_id (access_tokens d0)" and "(token_step late sha)\<^sup>*\<^sup>* d0 d"
    and "revoke_handler user team (Some i) now d0 d = Inr d1"
    and "(token_step late sha)\<^sup>*\<^sup>* d1 d2" and "find_usable_by_plaintext sha d2 plaintext t = Some a"
  shows "at_id a \<noteq> i"
proof -
  have "i \<le> seq (access_tokens d0)"
    using assms(1,3) by (auto simp: revoke_handler_def find_token_def table_ok_def split: option.splits if_splits
        dest!: find_row_Some)
  then have "i \<le> seq (access_tokens d)"
    by (rule drawn_ids.reachable_inv [OF assms(2)])
  then have "dead_token i d1"
    by (rule revoke_handler_dead [OF assms(3)])
  then have "dead_token i d2"
    by (rule dead_tokens.reachable_inv [OF assms(4)])
  then show ?thesis
    using assms(5) by (rule dead_token_unusable)
qed

definition sample_seat :: Membership where
  "sample_seat = \<lparr>ms_team = (new_team ''Root Team'' None True)\<lparr>t_id := 1\<rparr>, ms_role = Owner\<rparr>"

theorem revoked_token_never_works_witness:
  "\<exists>d1. revoke_handler (sample_user 1 ''ann@x'' True) sample_seat (Some 4) 50 granted_db granted_db = Inr d1
    \<and> (\<exists>a. find_usable_by_plaintext (\<lambda>s. s) d1 ''h3'' 50 = Some a \<and> at_id a \<noteq> 4)"
proof -
  let ?r = "revoke_handler (sample_user 1 ''ann@x'' True) sample_seat (Some 4) 50 granted_db granted_db"
  have tab: "table_ok at_id (access_tokens granted_db)" by code_simp
  have "case ?r of Inl e \<Rightarrow> False | Inr d1 \<Rightarrow> find_usable_by_plaintext (\<lambda>s. s) d1 ''h3'' 50 \<noteq> None"
    by code_simp
  then obtain d1 a where r: "?r = Inr d1" "find_usable_by_plaintext (\<lambda>s. s) d1 ''h3'' 50 = Some a"
    by (auto split: sum.split_asm)
  moreover have "at_id a \<noteq> 4"
    by (rule revoked_token_never_works [OF tab rtranclp.rtrancl_refl r(1) rtranclp.rtrancl_refl r(2)])
  ultimately show ?thesis by blast
qed

lemma links_of_iff:
  "m \<in> set (links_of d t) \<longleftrightarrow> has_row (\<lambda>x. atm_access_token_id x = t \<and> atm_mcp_id x = m) (access_token_mcps d)"
  by (auto simp: links_of_def has_row_iff)

lemma sort_eq_Nil: "sort xs = [] \<longleftrightarrow> xs = []"
  by (metis set_empty set_sort)

lemma sync_mcps_rows:
  assumes "sync_mcps t ids d = Inr d'"
  shows "set (rows (access_token_mcps d')) =
      {x \<in> set (rows (access_token_mcps d)). atm_access_token_id x = t \<longrightarrow> atm_mcp_id x \<in> set ids}
      \<union> (\<lambda>m. \<lparr>atm_access_token_id = t, atm_mcp_id = m\<rparr>) ` (set ids - set (links_of d t))"
    and "access_tokens d' = access_tokens d" and "mcps d' = mcps d"
  using assms
  by (auto simp: sync_mcps_def attach_mcps_def result_simps Let_def delete_where_def filter_empty_conv sort_eq_Nil
      split: if_splits)

lemma sync_mcps_links:
  assumes "sync_mcps t ids d = Inr d'"
  shows "m \<in> set (links_of d' t) \<longleftrightarrow> m \<in> set ids"
    and "t' \<noteq> t \<Longrightarrow> m \<in> set (links_of d' t') \<longleftrightarrow> m \<in> set (links_of d t')"
  unfolding links_of_iff has_row_iff sync_mcps_rows(1) [OF assms] bex_Un bex_simps(7)
  by (auto simp: links_of_iff has_row_iff)

lemma find_token_Some:
  "find_token d scope (Some i) = Some a \<Longrightarrow> a \<in> set (rows (access_tokens d)) \<and> at_id a = i \<and> holds scope a"
  by (auto simp: find_token_def split: option.splits if_splits dest!: find_row_Some)

lemma resolve_allowed_iff:
  "m \<in> set (resolve_allowed_mcps d a) \<longleftrightarrow> m \<in> set (rows (mcps d)) \<and> mcp_team_id m = at_team_id a
     \<and> mcp_enabled m \<and> (scope_mode a = ScopeAll \<or> mcp_id m \<in> set (links_of d (at_id a)))"
  by (auto simp: resolve_allowed_mcps_def links_of_iff)

text \<open>Saving the form of a token gives it exactly the reach that was chosen. The form is refused for
  a token of someone else (but not for an admin of the team), one that is revoked and one that
  comes from OAuth; when it is saved, the token has the name, the mode and the expiry of the form,
  reaches the enabled MCPs of its team that were ticked (all of them in mode All) and no other, and
  no other token changes or reaches anything else.\<close>

theorem update_token_reach:
  assumes "table_ok at_id (access_tokens d)" and "update_token_handler user team (Some i) payload now d d = Inr d'"
  shows "\<exists>a' \<in> set (rows (access_tokens d')). at_id a' = i \<and> at_name a' = au_name payload
    \<and> scope_mode a' = au_scope_mode payload \<and> expires_at a' = au_expires_at payload
    \<and> revoked_at a' = None \<and> token_source a' \<noteq> Oauth \<and> holds (token_scope user team) a'
    \<and> (\<forall>m. m \<in> set (resolve_allowed_mcps d' a') \<longleftrightarrow>
         m \<in> set (rows (mcps d)) \<and> mcp_team_id m = t_id (ms_team team) \<and> mcp_enabled m
         \<and> (au_scope_mode payload = ScopeAll \<or> mcp_id m \<in> set (au_mcp_ids payload)))
    \<and> (\<forall>b \<in> set (rows (access_tokens d)). at_id b \<noteq> i \<longrightarrow> b \<in> set (rows (access_tokens d'))
         \<and> set (resolve_allowed_mcps d' b) = set (resolve_allowed_mcps d b))"
proof -
  obtain a where found: "find_token d (token_scope user team) (Some i) = Some a"
    and refusal: "edit_refusal a = None" and upd: "update_token a payload now d = Inr d'"
    using assms(2) by (auto simp: update_token_handler_def Let_def result_simps split: option.splits)
  note a = find_token_Some [OF found]
  let ?same = "at_name a = au_name payload \<and> scope_mode a = au_scope_mode payload \<and> expires_at a = au_expires_at payload"
  let ?g = "\<lambda>x. x\<lparr>at_name := (if at_name a = au_name payload then at_name x else au_name payload),
              scope_mode := (if scope_mode a = au_scope_mode payload then scope_mode x else au_scope_mode payload),
              expires_at := (if expires_at a = au_expires_at payload then expires_at x else au_expires_at payload),
              at_updated_at := Some now\<rparr>"
  let ?ids = "case au_scope_mode payload of ScopeSelected \<Rightarrow> au_mcp_ids payload | ScopeAll \<Rightarrow> []"
  define d1 where "d1 = (if ?same then d else d\<lparr>access_tokens := upd (\<lambda>x. at_id x = at_id a) ?g (access_tokens d)\<rparr>)"
  have sync: "sync_mcps i ?ids d1 = Inr d'"
    using upd a by (simp add: update_token_def d1_def Let_def)
  let ?a' = "if ?same then a else ?g a"
  have rows: "?a' \<in> set (rows (access_tokens d'))"
    using a unfolding sync_mcps_rows(2) [OF sync] by (force simp: d1_def update_where_def)
  have others: "b \<in> set (rows (access_tokens d'))" if "b \<in> set (rows (access_tokens d))" "at_id b \<noteq> i" for b
    using a that unfolding sync_mcps_rows(2) [OF sync] by (force simp: d1_def update_where_def)
  have mcps: "mcps d' = mcps d" "links_of d1 = links_of d"
    by (simp_all add: sync_mcps_rows(3) [OF sync] d1_def links_of_def fun_eq_iff)
  have team: "at_team_id ?a' = t_id (ms_team team)"
    using a by (simp add: holds_def token_scope_def)
  have "m \<in> set (resolve_allowed_mcps d' ?a') \<longleftrightarrow>
         m \<in> set (rows (mcps d)) \<and> mcp_team_id m = t_id (ms_team team) \<and> mcp_enabled m
         \<and> (au_scope_mode payload = ScopeAll \<or> mcp_id m \<in> set (au_mcp_ids payload))" for m
    unfolding resolve_allowed_iff team mcps using a sync_mcps_links(1) [OF sync]
    by (cases "au_scope_mode payload") auto
  moreover have "set (resolve_allowed_mcps d' b) = set (resolve_allowed_mcps d b)" if "at_id b \<noteq> i" for b
    using sync_mcps_links(2) [OF sync that] by (auto simp: resolve_allowed_iff mcps)
  ultimately show ?thesis
    using rows others a refusal
    by (intro bexI [OF _ rows]) (auto simp: edit_refusal_def is_revoked_def holds_def split: if_splits)
qed

theorem update_token_reach_witness:
  "\<exists>d'. update_token_handler (sample_user 1 ''ann@x'' True) sample_seat (Some 1)
      \<lparr>au_name = ''one'', au_scope_mode = ScopeSelected, au_mcp_ids = [1], au_expires_at = None\<rparr> 50
      sample_db sample_db = Inr d'
    \<and> (\<exists>a' \<in> set (rows (access_tokens d')). at_id a' = 1 \<and> sample_mcp 1 1 2 \<in> set (resolve_allowed_mcps d' a'))"
proof -
  let ?p = "\<lparr>au_name = ''one'', au_scope_mode = ScopeSelected, au_mcp_ids = [1], au_expires_at = None\<rparr>"
  let ?r = "update_token_handler (sample_user 1 ''ann@x'' True) sample_seat (Some 1) ?p 50 sample_db sample_db"
  have tab: "table_ok at_id (access_tokens sample_db)" by code_simp
  have "is_ok ?r" by code_simp
  then obtain d' where r: "?r = Inr d'" by (cases ?r) auto
  have "sample_mcp 1 1 2 \<in> set (rows (mcps sample_db))" "mcp_team_id (sample_mcp 1 1 2) = t_id (ms_team sample_seat)"
    "mcp_enabled (sample_mcp 1 1 2)" "mcp_id (sample_mcp 1 1 2) \<in> set (au_mcp_ids ?p)"
    by (simp_all add: sample_defs sample_seat_def)
  then show ?thesis
    using r update_token_reach [OF tab r] by blast
qed

lemma deletable_inactive: "deletable a now \<Longrightarrow> \<not> is_active a now"
  by (auto simp: deletable_def is_active_def is_usable_def is_oauth_session_active_def is_revoked_def is_expired_def
      split: option.splits if_splits)

lemma delete_tokens_rows: "rows (access_tokens (delete_tokens P d)) = delete_where P (rows (access_tokens d))"
  by (simp add: delete_tokens_def Let_def)

lemma count_selected_all:
  assumes "table_ok key t" and "distinct ids" and "count_rows (\<lambda>r. P r \<and> key r \<in> set ids) t = length ids" and "i \<in> set ids"
  shows "\<exists>r \<in> set (rows t). key r = i \<and> P r"
proof -
  let ?ks = "map key (filter (\<lambda>r. P r \<and> key r \<in> set ids) (rows t))"
  have "distinct ?ks"
    using table_ok_distinct [OF assms(1)] by (simp add: distinct_map_filter)
  moreover have "set ?ks \<subseteq> set ids" and "length ?ks = length ids"
    using assms(3) by (auto simp: count_rows_def count_where_def)
  ultimately have "set ?ks = set ids"
    using assms(2) by (metis card_subset_eq distinct_card List.finite_set)
  then have "i \<in> set ?ks"
    using assms(4) by simp
  then show ?thesis
    by auto
qed

text \<open>Cleaning up tokens deletes what was selected and nothing that is in use. It is all or nothing:
  when it is carried out, every selected token was one the user may see and is inactive, is gone
  afterwards, and every other token stays; otherwise it says whether one was missing or in use,
  and nothing is deleted.\<close>

theorem destroy_tokens_only_inactive:
  assumes "table_ok at_id (access_tokens d)"
  shows "case destroy_tokens user team ids now d of
      Inr d' \<Rightarrow> (\<forall>i \<in> set ids. \<exists>a \<in> set (rows (access_tokens d)). at_id a = i
             \<and> holds (token_scope user team) a \<and> \<not> is_active a now)
         \<and> rows (access_tokens d') = filter (\<lambda>a. at_id a \<notin> set ids) (rows (access_tokens d))
    | Inl Missing \<Rightarrow> \<exists>i \<in> set ids. \<forall>a \<in> set (rows (access_tokens d)). at_id a = i \<longrightarrow> \<not> holds (token_scope user team) a
    | Inl Active \<Rightarrow> \<exists>a \<in> set (rows (access_tokens d)). at_id a \<in> set ids \<and> \<not> deletable a now"
proof -
  let ?held = "holds (token_scope user team)"
  let ?t = "access_tokens d"
  let ?ids = "rev (remdups (rev ids))"
  have dist: "distinct ?ids" by simp
  have cnt: "count_rows (\<lambda>a. P a \<and> at_id a \<in> set ?ids) ?t = length ?ids"
    if "\<forall>i \<in> set ids. \<exists>a \<in> set (rows ?t). at_id a = i \<and> P a" for P
  proof -
    let ?ks = "map at_id (filter (\<lambda>a. P a \<and> at_id a \<in> set ?ids) (rows ?t))"
    have "distinct ?ks"
      using table_ok_distinct [OF assms] by (simp add: distinct_map_filter)
    moreover have "set ?ks = set ?ids"
      using that by force
    ultimately have "length ?ks = length ?ids"
      using dist by (metis distinct_card)
    then show ?thesis
      by (simp add: count_rows_def count_where_def)
  qed
  have order: "(\<lambda>a. ?held a \<and> at_id a \<in> set ids \<and> deletable a now)
      = (\<lambda>a. (?held a \<and> deletable a now) \<and> at_id a \<in> set ids)"
    by auto
  consider (missing) "count_rows (\<lambda>a. ?held a \<and> at_id a \<in> set ?ids) ?t \<noteq> length ?ids"
    | (active) "count_rows (\<lambda>a. ?held a \<and> at_id a \<in> set ?ids) ?t = length ?ids"
        "count_rows (\<lambda>a. ?held a \<and> at_id a \<in> set ids \<and> deletable a now) ?t \<noteq> length ?ids"
    | (gone) "count_rows (\<lambda>a. ?held a \<and> at_id a \<in> set ?ids) ?t = length ?ids"
        "count_rows (\<lambda>a. ?held a \<and> at_id a \<in> set ids \<and> deletable a now) ?t = length ?ids"
    by blast
  then show ?thesis
  proof cases
    case missing
    then show ?thesis
      using cnt [of ?held] by (auto simp: destroy_tokens_def delete_inactive_def)
  next
    case active
    have "\<exists>i \<in> set ids. \<forall>a \<in> set (rows ?t). at_id a = i \<longrightarrow> \<not> (?held a \<and> deletable a now)"
      using cnt [of "\<lambda>a. ?held a \<and> deletable a now"] active(2) by (auto simp only: order set_remdups set_rev)
    moreover have "\<forall>i \<in> set ids. \<exists>a \<in> set (rows ?t). at_id a = i \<and> ?held a"
      using count_selected_all [OF assms dist active(1)] by simp
    ultimately have "\<exists>a \<in> set (rows ?t). at_id a \<in> set ids \<and> \<not> deletable a now"
      by metis
    then show ?thesis
      using active by (simp add: destroy_tokens_def delete_inactive_def)
  next
    case gone
    have all: "\<forall>i \<in> set ids. \<exists>a \<in> set (rows ?t). at_id a = i \<and> ?held a \<and> deletable a now"
      using count_selected_all [OF assms dist, of "\<lambda>a. ?held a \<and> deletable a now"]
      gone(2) by (simp only: order set_remdups set_rev) blast
    then have "delete_where (\<lambda>a. ?held a \<and> at_id a \<in> set ids \<and> deletable a now) (rows ?t)
        = filter (\<lambda>a. at_id a \<notin> set ids) (rows ?t)"
      unfolding delete_where_def using table_ok_unique [OF assms] by (intro filter_cong refl) metis
    moreover have "\<forall>i \<in> set ids. \<exists>a \<in> set (rows ?t). at_id a = i \<and> ?held a \<and> \<not> is_active a now"
      using all deletable_inactive by blast
    ultimately show ?thesis
      using gone by (simp add: destroy_tokens_def delete_inactive_def delete_tokens_rows)
  qed
qed

theorem destroy_tokens_only_inactive_witness:
  "case destroy_tokens (sample_user 1 ''ann@x'' True) sample_seat [4, 4] 2000 granted_db of
      Inr d' \<Rightarrow> length (rows (access_tokens d')) = 3 | Inl e \<Rightarrow> False"
proof -
  let ?r = "destroy_tokens (sample_user 1 ''ann@x'' True) sample_seat [4, 4] 2000 granted_db"
  have tab: "table_ok at_id (access_tokens granted_db)" by code_simp
  have "is_ok ?r" by code_simp
  then obtain d' where r: "?r = Inr d'" by (cases ?r) auto
  then show ?thesis
    using destroy_tokens_only_inactive [OF tab, of "[4, 4]" "sample_user 1 ''ann@x'' True" sample_seat 2000]
    by (simp add: granted_defs)
qed

text \<open>Taking MCP management away from a connection takes that and nothing else. The connection keeps
  its other scopes, in order, and if it could reach the gateway it still can; no other token
  changes. It is refused when the connection has no such scope or is revoked.\<close>

theorem management_removed_alone:
  assumes "table_ok at_id (access_tokens d)"
    and "remove_mcp_management_handler user team (Some i) d d = (d', Inr ())"
  shows "\<exists>a s s'. a \<in> set (rows (access_tokens d)) \<and> at_id a = i \<and> oauth_scopes a = Some s
    \<and> rows (access_tokens d') = map (\<lambda>b. if at_id b = i then b\<lparr>oauth_scopes := Some s'\<rparr> else b) (rows (access_tokens d))
    \<and> has_scope s MCPS_MANAGE_SCOPE \<and> \<not> has_scope s' MCPS_MANAGE_SCOPE
    \<and> scope_names s' = filter (\<lambda>n. n \<noteq> MCPS_MANAGE_SCOPE) (scope_names s)
    \<and> (is_usable_grant s \<longrightarrow> is_usable_grant s')"
proof -
  obtain a where found: "find_token d (token_scope user team) (Some i) = Some a"
    and rem: "remove_mcp_management a d = (d', True)"
    using assms(2) by (auto simp: remove_mcp_management_handler_def Let_def case_prod_unfold prod_eq_iff
        split: option.splits if_splits)
  note a = find_token_Some [OF found]
  obtain s where s: "oauth_scopes a = Some s" "has_scope s MCPS_MANAGE_SCOPE" "revoked_at a = None"
    using rem by (auto simp: remove_mcp_management_def grants_mcp_management_def is_revoked_def split: if_splits option.splits)
  let ?s' = "join_with '' '' (filter (\<lambda>n. n \<noteq> MCPS_MANAGE_SCOPE) (scope_names s))"
  have "rows (access_tokens d') = update_where (\<lambda>b. at_id b = i \<and> revoked_at b = None)
      (\<lambda>b. b\<lparr>oauth_scopes := Some ?s'\<rparr>) (rows (access_tokens d))"
    using rem s a by (auto simp: remove_mcp_management_def Let_def split: if_splits)
  also have "\<dots> = map (\<lambda>b. if at_id b = i then b\<lparr>oauth_scopes := Some ?s'\<rparr> else b) (rows (access_tokens d))"
    unfolding update_where_def using s(3) a table_ok_unique [OF assms(1)] by (intro map_cong refl) metis
  finally have rows: "rows (access_tokens d') = \<dots>" .
  have names: "scope_names ?s' = filter (\<lambda>n. n \<noteq> MCPS_MANAGE_SCOPE) (scope_names s)"
    by (rule scope_names_remaining)
  moreover have "is_usable_grant s \<longrightarrow> is_usable_grant ?s'" "\<not> has_scope ?s' MCPS_MANAGE_SCOPE"
    unfolding is_usable_grant_def has_scope_def names list_all_iff
    by (auto simp: GATEWAY_OAUTH_SCOPE_def MCPS_MANAGE_SCOPE_def)
  ultimately show ?thesis
    using a s rows by blast
qed

theorem management_removed_alone_witness:
  "\<exists>d'. remove_mcp_management_handler (sample_user 1 ''ann@x'' True) sample_seat (Some 4) granted_db granted_db = (d', Inr ())
    \<and> (\<forall>a \<in> set (rows (access_tokens d')). \<not> grants_mcp_management a)"
proof -
  let ?r = "remove_mcp_management_handler (sample_user 1 ''ann@x'' True) sample_seat (Some 4) granted_db granted_db"
  have tab: "table_ok at_id (access_tokens granted_db)" by code_simp
  have "snd ?r = Inr ()" by code_simp
  then have r: "?r = (fst ?r, Inr ())" by (simp add: prod_eq_iff)
  show ?thesis
    using r management_removed_alone [OF tab r]
    by (intro exI [of _ "fst ?r"]) (auto simp: granted_defs grants_mcp_management_def)
qed

text \<open>Ann removes Bob from the Root Team.\<close>

definition after_removal :: db where
  "after_removal = (case destroy_member (sample_user 1 ''ann@x'' True) 1 (Some 2) 60 sample_db sample_db of
     Inr d \<Rightarrow> d | Inl e \<Rightarrow> sample_db)"

text \<open>C34: The Tokens page creates a token without asking again who is in the team. Whenever a member is removed from a team
  while a request of theirs for a new token of all its MCPs is between what it read and its write, the request succeeds, for
  any text of the token that is new. The database is left with a token of the team that is found and works until it expires, and
  whose creator is not a member: removing them has revoked only the tokens that were there.\<close>

theorem token_outlives_membership:
  assumes "destroy_member actor (t_id (ms_team team)) (Some (u_id user)) removed read before = Inr after"
    and "team_exists before (t_id (ms_team team))" and "user_exists before (u_id user)"
    and "\<not> has_row (\<lambda>a. token_hash a = sha plaintext) (access_tokens before)"
    and "case expiry of None \<Rightarrow> True | Some e \<Rightarrow> used \<le> e"
  shows "\<exists>d a. store_token sha user team name ScopeAll ids expiry plaintext now d0 after = (d, Inr a)
    \<and> find_usable_by_plaintext sha d plaintext used = Some a
    \<and> at_team_id a = t_id (ms_team team) \<and> at_created_by a = u_id user
    \<and> \<not> is_member d (t_id (ms_team team)) (u_id user)"
proof -
  have after: "after = detach (t_id (ms_team team)) (u_id user) removed before"
    using assms(1) by (auto simp: destroy_member_def find_account_def dest!: find_row_Some split: option.split_asm)
  have tokens: "\<not> has_row (\<lambda>a. token_hash a = sha plaintext) (access_tokens after)"
    using assms(4) by (simp add: after detach_fields has_row_iff ball_update_where)
  have out: "\<not> is_member after (t_id (ms_team team)) (u_id user)"
    by (simp add: after is_member_detach)
  have refs: "team_exists after (t_id (ms_team team))" "user_exists after (u_id user)"
    using assms(2,3) by (simp_all add: after detach_fields)
  have none: "find (\<lambda>a. token_hash a = sha plaintext) (rows (access_tokens after)) = None"
    using tokens by (simp add: has_row_iff find_None_iff)
  have member: "is_member (after\<lparr>access_tokens := t\<rparr>) = is_member after" for t
    by (simp add: is_member_def fun_eq_iff)
  show ?thesis
    using assms(5) none out refs tokens
    by (simp add: store_token_def token_scope_def create_token_def insert_token_def default_token_def Let_def
        find_usable_by_plaintext_def find_row_def find_append is_usable_def is_revoked_def is_expired_def member db_call_def
        split: option.splits)
qed

theorem token_outlives_membership_witness:
  "\<exists>d a. destroy_member (sample_user 1 ''ann@x'' True) 1 (Some 2) 60 sample_db sample_db = Inr after_removal
    \<and> store_token (\<lambda>s. s) (sample_user 2 ''bob@x'' False) (sample_seat\<lparr>ms_role := Admin\<rparr>) ''late'' ScopeAll []
        None ''secret'' 61 sample_db after_removal = (d, Inr a)
    \<and> find_usable_by_plaintext (\<lambda>s. s) d ''secret'' 62 = Some a
    \<and> at_team_id a = 1 \<and> at_created_by a = 2 \<and> \<not> is_member d 1 2"
proof -
  let ?team = "sample_seat\<lparr>ms_role := Admin\<rparr>"
  let ?bob = "sample_user 2 ''bob@x'' False"
  let ?rem = "destroy_member (sample_user 1 ''ann@x'' True) 1 (Some 2) 60 sample_db sample_db"
  have "is_ok ?rem" by code_simp
  then have rem: "?rem = Inr after_removal" by (cases ?rem) (auto simp: after_removal_def)
  have ids: "t_id (ms_team ?team) = 1" "u_id ?bob = 2" by code_simp+
  have refs: "team_exists sample_db 1" "user_exists sample_db 2" by code_simp+
  have new: "\<not> has_row (\<lambda>a. token_hash a = (\<lambda>s. s) ''secret'') (access_tokens sample_db)" by code_simp
  show ?thesis
    using rem token_outlives_membership [where team = ?team and user = ?bob and sha = "\<lambda>s. s" and plaintext = "''secret''"
        and expiry = None and used = 62 and name = "''late''" and ids = "[]" and now = 61 and ?d0.0 = sample_db, unfolded ids, OF rem refs new]
    by simp
qed

end
