(* ===== verification/Totp.thy ===== *)
theory Totp
  imports Prelude
begin

text \<open>
  \<open>crates/core/src/crypto/totp.rs\<close>: one-time passwords of authenticator apps. Base32 is
  modelled with the 32-bit buffer of the code; HMAC-SHA1 is a parameter. The round trip of
  base32 goes through the bits both directions stand for.
\<close>

unbundle bit_operations_syntax

section \<open>Base32\<close>

definition STEP_SECONDS :: int where
  "STEP_SECONDS = 30"

definition DIGITS :: nat where
  "DIGITS = 6"

definition WINDOW :: int where
  "WINDOW = 1"

definition BASE32 :: string where
  "BASE32 = ''ABCDEFGHIJKLMNOPQRSTUVWXYZ234567''"

text \<open>The inner loop: push a letter while five bits are left.\<close>

fun base32_drain :: "32 word \<Rightarrow> nat \<Rightarrow> string \<Rightarrow> nat \<times> string" where
  "base32_drain buffer bits text =
     (if 5 \<le> bits
      then base32_drain buffer (bits - 5)
             (text @ [BASE32 ! unat (drop_bit (bits - 5) buffer AND 31)])
      else (bits, text))"

declare base32_drain.simps [simp del]

fun base32_bytes :: "8 word list \<Rightarrow> 32 word \<Rightarrow> nat \<Rightarrow> string \<Rightarrow> 32 word \<times> nat \<times> string" where
  "base32_bytes [] buffer bits text = (buffer, bits, text)"
| "base32_bytes (byte # bytes) buffer bits text =
     (let buffer = push_bit 8 buffer OR ucast byte;
          (bits, text) = base32_drain buffer (bits + 8) text in
      base32_bytes bytes buffer bits text)"

definition encode_base32 :: "8 word list \<Rightarrow> string" where
  "encode_base32 bytes =
     (let (buffer, bits, text) = base32_bytes bytes 0 0 [] in
      if bits > 0 then text @ [BASE32 ! unat (push_bit (5 - bits) buffer AND 31)] else text)"

definition ascii_upper_char :: "char \<Rightarrow> char" where
  "ascii_upper_char c =
     (let n = (of_char c :: nat) in if 97 \<le> n \<and> n \<le> 122 then char_of (n - 32) else c)"

fun position :: "char \<Rightarrow> string \<Rightarrow> nat option" where
  "position c [] = None"
| "position c (x # xs) = (if x = c then Some 0 else map_option Suc (position c xs))"

fun base32_chars :: "string \<Rightarrow> 32 word \<Rightarrow> nat \<Rightarrow> 8 word list \<Rightarrow> 8 word list option" where
  "base32_chars [] buffer bits bytes = Some bytes"
| "base32_chars (c # cs) buffer bits bytes =
     (if c \<in> {CHR '' '', CHR ''-'', CHR ''=''} then base32_chars cs buffer bits bytes
      else case position (ascii_upper_char c) BASE32 of
        None \<Rightarrow> None
      | Some value \<Rightarrow>
          (let buffer = (push_bit 5 buffer OR of_nat value) AND 0xffff; bits = bits + 5 in
           if 8 \<le> bits
           then base32_chars cs buffer (bits - 8) (bytes @ [ucast (drop_bit (bits - 8) buffer)])
           else base32_chars cs buffer bits bytes))"

definition decode_base32 :: "string \<Rightarrow> 8 word list option" where
  "decode_base32 text =
     (case base32_chars text 0 0 [] of
        None \<Rightarrow> None | Some bytes \<Rightarrow> if bytes = [] then None else Some bytes)"

section \<open>Codes\<close>

definition step_at :: "int \<Rightarrow> int" where
  "step_at unix_seconds = unix_seconds div STEP_SECONDS"

text \<open>\<open>to_be_bytes\<close> of a 64-bit integer.\<close>

definition to_be_bytes :: "64 word \<Rightarrow> 8 word list" where
  "to_be_bytes w = map (\<lambda>i. ucast (drop_bit (56 - 8 * i) w)) [0..<8]"

definition pad_zeros :: "nat \<Rightarrow> string \<Rightarrow> string" where
  "pad_zeros n s = replicate (n - length s) (CHR ''0'') @ s"

definition code_at :: "(8 word list \<Rightarrow> 8 word list \<Rightarrow> 8 word list) \<Rightarrow> 8 word list \<Rightarrow> int \<Rightarrow> string" where
  "code_at hmac_sha1 secret step =
     (let digest = hmac_sha1 secret (to_be_bytes (word_of_int step));
          offset = unat (digest ! (length digest - 1) AND 0x0f);
          binary = (\<Sum>i \<leftarrow> [0..<4].
             unat (digest ! (offset + i) AND (if i = 0 then 0x7f else 0xff)) * 256 ^ (3 - i)) in
      pad_zeros DIGITS (show_nat (binary mod 10 ^ DIGITS)))"

definition current_code ::
  "(8 word list \<Rightarrow> 8 word list \<Rightarrow> 8 word list) \<Rightarrow> string \<Rightarrow> int \<Rightarrow> string option" where
  "current_code hmac_sha1 secret unix_seconds =
     map_option (\<lambda>key. code_at hmac_sha1 key (step_at unix_seconds)) (decode_base32 secret)"

text \<open>
  \<open>filter(|character| !character.is_whitespace())\<close> on a text in UTF-8: the white space of Unicode is one byte
  (tab to carriage return, space), two (U+0085, U+00A0) or three (U+1680, U+2000 to U+200A, U+2028, U+2029, U+202F,
  U+205F, U+3000). No byte of another character begins like one of these and is followed the same way.
\<close>

definition white_len :: "nat list \<Rightarrow> nat" where
  "white_len bs = (case bs of
       [] \<Rightarrow> 0
     | a # bs1 \<Rightarrow>
         if (9 \<le> a \<and> a \<le> 13) \<or> a = 32 then 1
         else case bs1 of
           [] \<Rightarrow> 0
         | b # bs2 \<Rightarrow>
             if a = 0xC2 \<and> (b = 0x85 \<or> b = 0xA0) then 2
             else case bs2 of
               [] \<Rightarrow> 0
             | c # _ \<Rightarrow>
                 if (a, b, c) = (0xE1, 0x9A, 0x80)
                    \<or> (a, b) = (0xE2, 0x80) \<and> (0x80 \<le> c \<and> c \<le> 0x8A \<or> c = 0xA8 \<or> c = 0xA9 \<or> c = 0xAF)
                    \<or> (a, b, c) = (0xE2, 0x81, 0x9F) \<or> (a, b, c) = (0xE3, 0x80, 0x80)
                 then 3 else 0)"

function without_whitespace :: "string \<Rightarrow> string" where
  "without_whitespace [] = []"
| "without_whitespace (c # s) =
     (case white_len (map of_char (c # s)) of
        0 \<Rightarrow> c # without_whitespace s
      | Suc k \<Rightarrow> without_whitespace (drop k s))"
  by pat_completeness auto
termination by (relation "measure length") auto

text \<open>The loop over the window: the first step that matches and is new is kept.\<close>

fun scan_steps :: "(int \<Rightarrow> bool) \<Rightarrow> int option \<Rightarrow> int list \<Rightarrow> int option \<Rightarrow> int option" where
  "scan_steps matches last_step [] accepted = accepted"
| "scan_steps matches last_step (step # steps) accepted =
     scan_steps matches last_step steps
       (if matches step \<and> (case last_step of None \<Rightarrow> True | Some l \<Rightarrow> step > l) \<and> accepted = None
        then Some step else accepted)"

definition verify ::
  "(8 word list \<Rightarrow> 8 word list \<Rightarrow> 8 word list) \<Rightarrow> string \<Rightarrow> string \<Rightarrow> int \<Rightarrow> int option \<Rightarrow> int option" where
  "verify hmac_sha1 secret code unix_seconds last_step =
     (let code = without_whitespace code in
      if length code \<noteq> DIGITS \<or> \<not> list_all is_digit_char code then None
      else case decode_base32 secret of
        None \<Rightarrow> None
      | Some key \<Rightarrow>
          (let current = step_at unix_seconds in
           scan_steps (\<lambda>step. code_at hmac_sha1 key step = code) last_step
             [current - WINDOW .. current + WINDOW] None))"

section \<open>The round trip of base32\<close>

text \<open>The low \<open>k\<close> bits of a word, the highest first.\<close>

definition low_bits :: "nat \<Rightarrow> 'a::len word \<Rightarrow> bool list" where
  "low_bits k w = map (\<lambda>i. bit w (k - 1 - i)) [0..<k]"

lemma length_low_bits [simp]: "length (low_bits k w) = k"
  by (simp add: low_bits_def)

lemma nth_low_bits: "i < k \<Longrightarrow> low_bits k w ! i = bit w (k - 1 - i)"
  by (simp add: low_bits_def)

lemma low_bits_split:
  "low_bits (n + k) w = low_bits n (drop_bit k w) @ low_bits k w"
  by (rule nth_equalityI) (auto simp: nth_low_bits nth_append bit_simps intro!: arg_cong [where f = "bit w"])

lemma low_bits_mask:
  "n \<le> m \<Longrightarrow> low_bits n (w AND mask m) = low_bits n w"
  by (rule nth_equalityI) (auto simp: nth_low_bits bit_simps dest: bit_imp_le_length)

lemma low_bits_push:
  fixes w v :: "'a::len word"
  assumes "n + k \<le> LENGTH('a)" and "v AND mask n = v"
  shows "low_bits (k + n) (push_bit n w OR v) = low_bits k w @ low_bits n v"
proof (rule nth_equalityI)
  have v: "\<not> bit v i" if "n \<le> i" for i
    using that assms(2) by (metis bit_and_iff bit_mask_iff not_le)
  show "low_bits (k + n) (push_bit n w OR v) ! i = (low_bits k w @ low_bits n v) ! i"
    if "i < length (low_bits (k + n) (push_bit n w OR v))" for i
    using that assms(1) v
    by (auto simp: nth_low_bits nth_append bit_simps possible_bit_def add.commute [of k])
qed simp

lemma low_bits_ucast:
  fixes w :: "'a::len word"
  assumes "n \<le> LENGTH('b::len)" and "n \<le> LENGTH('a)"
  shows "low_bits n (ucast w :: 'b word) = low_bits n w"
  using assms by (intro nth_equalityI) (auto simp: nth_low_bits bit_simps)

lemma low_bits_all_eq:
  fixes v w :: "'a::len word"
  assumes "low_bits LENGTH('a) v = low_bits LENGTH('a) w"
  shows "v = w"
proof (rule bit_word_eqI)
  fix n assume "n < LENGTH('a)"
  then show "bit v n = bit w n"
    using arg_cong [OF assms, of "\<lambda>xs. xs ! (LENGTH('a) - 1 - n)"] by (simp add: nth_low_bits)
qed

definition bits8 :: "8 word \<Rightarrow> bool list" where
  "bits8 b = low_bits 8 b"

definition bits5 :: "nat \<Rightarrow> bool list" where
  "bits5 v = low_bits 5 (of_nat v :: 32 word)"

lemma length_bits [simp]: "length (bits8 b) = 8" "length (bits5 v) = 5"
  by (simp_all add: bits8_def bits5_def)

lemma concat_bits8_inject:
  "length xs = length ys \<Longrightarrow> concat (map bits8 xs) @ r = concat (map bits8 ys) @ s \<Longrightarrow> xs = ys"
proof (induction xs ys rule: list_induct2)
  case (Cons x xs y ys)
  then have "bits8 x = bits8 y" and *: "concat (map bits8 xs) @ r = concat (map bits8 ys) @ s"
    by (auto simp: append_eq_append_conv)
  then show ?case
    using Cons.IH [OF *] low_bits_all_eq [of x y] by (simp add: bits8_def)
qed simp

lemma and_31: "(w :: 32 word) AND 31 = take_bit 5 w"
  by (simp add: take_bit_eq_mask mask_eq_exp_minus_1)

lemma and_31_less: "unat ((w :: 32 word) AND 31) < 32"
proof -
  have "unat (take_bit 5 w) = take_bit 5 (unat w)"
    by (rule unsigned_take_bit_eq)
  also have "\<dots> < 2 ^ 5"
    by (rule take_bit_nat_less_exp)
  finally show ?thesis
    by (simp add: and_31)
qed

lemma bits5_and_31: "bits5 (unat ((w :: 32 word) AND 31)) = low_bits 5 w"
  by (simp add: bits5_def and_31 take_bit_eq_mask low_bits_mask)

text \<open>What the letters of a text stand for.\<close>

definition letter_bits :: "char \<Rightarrow> bool list" where
  "letter_bits c = (case position (ascii_upper_char c) BASE32 of None \<Rightarrow> [] | Some v \<Rightarrow> bits5 v)"

definition is_letter :: "char \<Rightarrow> bool" where
  "is_letter c \<longleftrightarrow> c \<notin> {CHR '' '', CHR ''-'', CHR ''=''} \<and>
     (case position (ascii_upper_char c) BASE32 of None \<Rightarrow> False | Some v \<Rightarrow> v < 32)"

lemma position_nth: "distinct xs \<Longrightarrow> v < length xs \<Longrightarrow> position (xs ! v) xs = Some v"
proof (induction xs arbitrary: v)
  case (Cons x xs)
  then show ?case by (cases v) auto
qed simp

lemma BASE32_facts:
  "distinct BASE32" "length BASE32 = 32" "map ascii_upper_char BASE32 = BASE32"
  "set BASE32 \<inter> {CHR '' '', CHR ''-'', CHR ''=''} = {}"
  by (simp_all add: BASE32_def ascii_upper_char_def)

lemma base32_letters:
  assumes "v < 32"
  shows "position (ascii_upper_char (BASE32 ! v)) BASE32 = Some v \<and>
     BASE32 ! v \<notin> {CHR '' '', CHR ''-'', CHR ''=''}"
proof -
  have v: "v < length BASE32"
    using assms by (simp add: BASE32_facts)
  then have "ascii_upper_char (BASE32 ! v) = BASE32 ! v"
    by (metis BASE32_facts(3) nth_map)
  moreover have "BASE32 ! v \<in> set BASE32"
    using v by (rule nth_mem)
  ultimately show ?thesis
    using position_nth [OF BASE32_facts(1) v] BASE32_facts(4) by auto
qed

lemma letter_of_word:
  "is_letter (BASE32 ! unat ((w :: 32 word) AND 31))"
  "letter_bits (BASE32 ! unat ((w :: 32 word) AND 31)) = low_bits 5 w"
  using base32_letters [OF and_31_less [of w]] and_31_less [of w]
  by (simp_all add: is_letter_def letter_bits_def bits5_and_31)

lemma base32_drain_correct:
  assumes "base32_drain buffer bits text = (bits', text')"
  shows "\<exists>new. text' = text @ new \<and> list_all is_letter new \<and> bits' < 5 \<and>
     concat (map letter_bits new) @ low_bits bits' buffer = low_bits bits buffer"
  using assms
proof (induction buffer bits "text" rule: base32_drain.induct)
  case (1 buffer bits out)
  show ?case
  proof (cases "5 \<le> bits")
    case True
    let ?c = "BASE32 ! unat (drop_bit (bits - 5) buffer AND 31)"
    obtain new where new: "text' = (out @ [?c]) @ new" "list_all is_letter new" "bits' < 5"
      "concat (map letter_bits new) @ low_bits bits' buffer = low_bits (bits - 5) buffer"
      using 1 True by (subst (asm) base32_drain.simps) auto
    have "low_bits bits buffer = low_bits (5 + (bits - 5)) buffer"
      using True by simp
    also have "\<dots> = letter_bits ?c @ low_bits (bits - 5) buffer"
      by (simp add: low_bits_split letter_of_word)
    finally show ?thesis
      using new letter_of_word(1) [of "drop_bit (bits - 5) buffer"]
      by (intro exI [of _ "?c # new"]) simp
  next
    case False
    then show ?thesis
      using 1(2) by (subst (asm) base32_drain.simps) auto
  qed
qed

lemma ucast_byte_mask: "(ucast (b :: 8 word) :: 32 word) AND mask 8 = ucast b"
  by (rule bit_word_eqI) (auto simp: bit_simps dest: bit_imp_le_length)

lemma base32_bytes_correct:
  assumes "base32_bytes bytes buffer bits text = (buffer', bits', text')" and "bits < 5"
  shows "\<exists>new. text' = text @ new \<and> list_all is_letter new \<and> bits' < 5 \<and>
     concat (map letter_bits new) @ low_bits bits' buffer' = low_bits bits buffer @ concat (map bits8 bytes)"
  using assms
proof (induction bytes buffer bits "text" rule: base32_bytes.induct)
  case (2 byte bytes buffer bits out)
  let ?w = "push_bit 8 buffer OR ucast byte :: 32 word"
  obtain bits1 text1 where drain: "base32_drain ?w (bits + 8) out = (bits1, text1)"
    by (cases "base32_drain ?w (bits + 8) out")
  obtain new1 where n1: "text1 = out @ new1" "list_all is_letter new1" "bits1 < 5"
    "concat (map letter_bits new1) @ low_bits bits1 ?w = low_bits (bits + 8) ?w"
    using base32_drain_correct [OF drain] by blast
  obtain new2 where n2: "text' = text1 @ new2" "list_all is_letter new2" "bits' < 5"
    "concat (map letter_bits new2) @ low_bits bits' buffer' = low_bits bits1 ?w @ concat (map bits8 bytes)"
    using "2.IH" [OF refl, of "(bits1, text1)" bits1 text1] 2(2) drain n1(3) by auto
  have "low_bits (bits + 8) ?w = low_bits bits buffer @ bits8 byte"
    using low_bits_push [of 8 bits "ucast byte :: 32 word" buffer] 2(3)
    by (simp add: ucast_byte_mask low_bits_ucast bits8_def)
  then show ?case
    using n1 n2 by (intro exI [of _ "new1 @ new2"]) simp
qed auto

lemma position_less: "position c xs = Some v \<Longrightarrow> v < length xs"
  by (induction xs arbitrary: v) (auto split: if_splits)

lemma value_mask: "v < 32 \<Longrightarrow> (of_nat v :: 32 word) AND mask 5 = of_nat v"
  by (simp flip: take_bit_eq_mask add: take_bit_of_nat take_bit_nat_eq_self)

text \<open>Reading letters adds their bits; whole bytes are taken off the front.\<close>

lemma base32_chars_correct:
  assumes "list_all is_letter cs" and "bits < 8"
  shows "\<exists>new rest. base32_chars cs buffer bits bytes = Some (bytes @ new) \<and> length rest < 8 \<and>
     concat (map bits8 new) @ rest = low_bits bits buffer @ concat (map letter_bits cs)"
  using assms
proof (induction cs arbitrary: buffer bits bytes)
  case Nil
  then show ?case
    by (intro exI [of _ "[]"] exI [of _ "low_bits bits buffer"]) simp
next
  case (Cons c cs)
  have "is_letter c" and cs: "list_all is_letter cs"
    using Cons.prems(1) by simp_all
  then obtain v where v: "position (ascii_upper_char c) BASE32 = Some v" "v < 32"
    and c: "c \<notin> {CHR '' '', CHR ''-'', CHR ''=''}"
    by (auto simp: is_letter_def split: option.splits)
  let ?b = "(push_bit 5 buffer OR of_nat v) AND 0xffff :: 32 word"
  have "(0xffff :: 32 word) = mask 16"
    by (simp add: mask_eq_exp_minus_1)
  then have pushed: "low_bits (bits + 5) ?b = low_bits bits buffer @ letter_bits c"
    using low_bits_push [of 5 bits "of_nat v :: 32 word" buffer] Cons.prems(2) v
    by (simp only: low_bits_mask) (simp add: value_mask letter_bits_def bits5_def)
  show ?case
  proof (cases "8 \<le> bits + 5")
    case True
    let ?byte = "ucast (drop_bit (bits + 5 - 8) ?b) :: 8 word"
    have "bits + 5 - 8 < 8"
      using Cons.prems(2) by simp
    from Cons.IH [OF cs this, of ?b "bytes @ [?byte]"] obtain new rest where
      "base32_chars cs ?b (bits + 5 - 8) (bytes @ [?byte]) = Some ((bytes @ [?byte]) @ new)"
      "length rest < 8"
      "concat (map bits8 new) @ rest = low_bits (bits + 5 - 8) ?b @ concat (map letter_bits cs)"
      by blast
    moreover have "low_bits (bits + 5) ?b = bits8 ?byte @ low_bits (bits + 5 - 8) ?b"
      using low_bits_split [of 8 "bits + 5 - 8" ?b] True by (simp add: bits8_def low_bits_ucast add.commute)
    ultimately show ?thesis
      using True pushed v c by (intro exI [of _ "?byte # new"] exI [of _ rest]) (simp add: Let_def)
  next
    case False
    then have "bits + 5 < 8" by simp
    from Cons.IH [OF cs this, of ?b bytes] show ?thesis
      using False pushed v c by (simp add: Let_def)
  qed
qed

lemma encode_base32_bits:
  "\<exists>pad. list_all is_letter (encode_base32 bytes) \<and> length pad < 5 \<and>
     concat (map letter_bits (encode_base32 bytes)) = concat (map bits8 bytes) @ pad"
proof -
  obtain buffer bits out where res: "base32_bytes bytes 0 0 [] = (buffer, bits, out)"
    by (cases "base32_bytes bytes 0 0 []")
  have e: "list_all is_letter out" "bits < 5"
    "concat (map letter_bits out) @ low_bits bits buffer = concat (map bits8 bytes)"
    using base32_bytes_correct [OF res] by (auto simp: low_bits_def)
  show ?thesis
  proof (cases "bits > 0")
    case True
    have "low_bits 5 (push_bit (5 - bits) buffer) = low_bits bits buffer @ low_bits (5 - bits) (0 :: 32 word)"
      using low_bits_push [of "5 - bits" bits "0 :: 32 word" buffer] e(2) by simp
    then show ?thesis
      using True e by (intro exI [of _ "low_bits (5 - bits) (0 :: 32 word)"])
        (simp add: encode_base32_def res letter_of_word flip: e(3))
  next
    case False
    then show ?thesis
      using e by (intro exI [of _ "[]"]) (simp add: encode_base32_def res low_bits_def)
  qed
qed

lemma length_concat_bits8 [simp]: "length (concat (map bits8 xs)) = 8 * length xs"
  by (induction xs) simp_all

lemma decode_encode_base32:
  assumes "bytes \<noteq> []"
  shows "decode_base32 (encode_base32 bytes) = Some bytes"
proof -
  obtain pad where pad: "list_all is_letter (encode_base32 bytes)" "length pad < 5"
    "concat (map letter_bits (encode_base32 bytes)) = concat (map bits8 bytes) @ pad"
    using encode_base32_bits by blast
  obtain new rest where d: "base32_chars (encode_base32 bytes) 0 0 [] = Some new" "length rest < 8"
    "concat (map bits8 new) @ rest = concat (map bits8 bytes) @ pad"
    using base32_chars_correct [OF pad(1), of 0 0 "[]"] pad(3) by (auto simp: low_bits_def)
  have "8 * length new + length rest = 8 * length bytes + length pad"
    using arg_cong [OF d(3), of length] by simp
  then have "length new = length bytes"
    using d(2) pad(2) by linarith
  then have "new = bytes"
    using d(3) by (rule concat_bits8_inject)
  then show ?thesis
    using assms by (simp add: decode_base32_def d(1))
qed

section \<open>What is accepted\<close>

lemma scan_steps_Some: "scan_steps matches l steps (Some s) = Some s"
  by (induction steps) auto

lemma scan_steps_find:
  "scan_steps matches l steps None =
     find (\<lambda>s. matches s \<and> (case l of None \<Rightarrow> True | Some l \<Rightarrow> s > l)) steps"
  by (induction steps) (auto simp: scan_steps_Some)

lemma length_code_at [simp]: "length (code_at h key step) = DIGITS"
proof -
  have digits: "length (show_nat n) \<le> k" if "n < 10 ^ k" "0 < k" for n k
    using that
  proof (induction n arbitrary: k rule: show_nat.induct)
    case (1 n)
    show ?case
    proof (cases "n < 10")
      case True
      then show ?thesis using 1(3) by (subst show_nat.simps) simp
    next
      case False
      then obtain k' where k: "k = Suc k'" "0 < k'"
        using 1(2,3) by (cases k; cases "k - 1") auto
      then have "length (show_nat (n div 10)) \<le> k'"
        using 1(1) [OF False, of k'] 1(2) by (simp add: less_mult_imp_div_less mult.commute)
      then show ?thesis
        using False k by (subst show_nat.simps) simp
    qed
  qed
  have "length (show_nat (b mod 10 ^ 6)) \<le> 6" for b
    by (rule digits) simp_all
  then show ?thesis
    by (simp add: code_at_def Let_def pad_zeros_def DIGITS_def)
qed

interpretation base32: codec encode_base32 decode_base32 "\<lambda>bytes. bytes \<noteq> []"
  by standard (rule decode_encode_base32)

lemma verify_find:
  assumes "decode_base32 secret = Some key" and "length (without_whitespace code) = DIGITS"
    and "list_all is_digit_char (without_whitespace code)"
  shows "verify h secret code t l =
     find (\<lambda>s. code_at h key s = without_whitespace code
            \<and> (case l of None \<Rightarrow> True | Some l \<Rightarrow> s > l)) [step_at t - 1 .. step_at t + 1]"
  using assms by (simp add: verify_def scan_steps_find WINDOW_def Let_def)

text \<open>The first of three successive steps.\<close>

lemma find_three:
  fixes a :: int
  shows "find P [a - 1, a, a + 1] = Some s \<longleftrightarrow>
     \<bar>s - a\<bar> \<le> 1 \<and> P s \<and> (\<forall>s'. a - 1 \<le> s' \<and> s' < s \<longrightarrow> \<not> P s')"
proof -
  have range: "a - 1 \<le> s' \<and> s' < a \<longleftrightarrow> s' = a - 1" "a - 1 \<le> s' \<and> s' < a + 1 \<longleftrightarrow> s' = a - 1 \<or> s' = a" for s'
    by arith+
  consider "s = a - 1" | "s = a" | "s = a + 1" | "\<bar>s - a\<bar> > 1"
    by arith
  then show ?thesis
  proof cases
    case 2
    then show ?thesis unfolding 2 range by auto
  next
    case 3
    then show ?thesis unfolding 3 range by auto
  qed auto
qed

section \<open>Properties\<close>

text \<open>The secret an authenticator app is given reads back as the bytes it was made from:
  decoding the base32 text of any bytes gives those bytes, so different secrets are shown as
  different texts.\<close>

theorem base32_round_trip:
  assumes "bytes \<noteq> []"
  shows "decode_base32 (encode_base32 bytes) = Some bytes
    \<and> (\<forall>other. other \<noteq> [] \<and> encode_base32 other = encode_base32 bytes \<longrightarrow> other = bytes)"
  using base32.round_trip [OF assms] base32.encode_inject [OF _ assms] by blast

theorem base32_round_trip_witness:
  "decode_base32 (encode_base32 [0xde, 0xad, 0xbe, 0xef]) = Some [0xde, 0xad, 0xbe, 0xef]"
  using base32_round_trip [of "[0xde, 0xad, 0xbe, 0xef]"] by simp

text \<open>A one-time code is accepted exactly when it is the code of the current step, the one
  before or the one after, for a step later than the last accepted one; the earliest such step
  is the one reported. A text that is not six digits, spaces aside, is never accepted.\<close>

theorem totp_accepts_window:
  assumes "decode_base32 secret = Some key"
  shows "(verify h secret code t l = Some s) =
    (\<bar>s - t div 30\<bar> \<le> 1 \<and> (\<forall>x. l = Some x \<longrightarrow> x < s)
     \<and> length (without_whitespace code) = 6
     \<and> list_all is_digit_char (without_whitespace code)
     \<and> code_at h key s = without_whitespace code
     \<and> (\<forall>s'. t div 30 - 1 \<le> s' \<and> s' < s \<and> (\<forall>x. l = Some x \<longrightarrow> x < s')
           \<longrightarrow> code_at h key s' \<noteq> without_whitespace code))"
proof (cases "length (without_whitespace code) = DIGITS
    \<and> list_all is_digit_char (without_whitespace code)")
  case True
  have steps: "[step_at t - 1 .. step_at t + 1] = [t div 30 - 1, t div 30, t div 30 + 1]"
    by (simp add: step_at_def STEP_SECONDS_def upto.simps)
  have new: "(case l of None \<Rightarrow> True | Some l \<Rightarrow> s > l) \<longleftrightarrow> (\<forall>x. l = Some x \<longrightarrow> x < s)" for s
    by (cases l) auto
  show ?thesis
    using True unfolding verify_find [OF assms conjunct1 [OF True] conjunct2 [OF True]] steps new find_three
    by (auto simp: DIGITS_def)
next
  case False
  then show ?thesis
    by (auto simp: verify_def Let_def DIGITS_def)
qed

theorem totp_accepts_window_witness:
  "verify (\<lambda>key m. replicate 20 0) ''AAAAAAAA'' ''000 000'' 95 (Some 2) = Some 3"
proof -
  have "decode_base32 ''AAAAAAAA'' = Some [0, 0, 0, 0, 0]"
    by code_simp
  moreover have "code_at (\<lambda>key m. replicate 20 0) key s = ''000000''" for key s
  proof -
    have "[0..<4] = [0, 1, 2, 3 :: nat]"
      by (simp add: upt_rec)
    moreover have "replicate 5 (CHR ''0'') = ''00000''"
      by (simp add: numeral_eq_Suc)
    moreover have "digit_char 0 = CHR ''0''"
      by code_simp
    ultimately show ?thesis
      by (simp add: code_at_def pad_zeros_def DIGITS_def show_nat_digit)
  qed
  moreover have "without_whitespace ''000 000'' = ''000000''"
    by (simp add: white_len_def)
  ultimately show ?thesis
    using totp_accepts_window [of "''AAAAAAAA''" "[0, 0, 0, 0, 0]" "\<lambda>key m. replicate 20 0" "''000 000''" 95
      "Some 2" 3]
    by (simp add: is_digit_char_def)
qed

end
