(* ===== verification/TwoFactor.thy ===== *)
theory TwoFactor
  imports TeamInvariants Totp
begin

text \<open>
  \<open>crates/core/src/models/two_factor.rs\<close> and \<open>passkey.rs\<close>: recovery codes, the authenticator
  app and the passkeys of an account, and the handler that takes them away. SHA-256, HMAC-SHA1
  and the encryption of the secret are parameters; random letters are arguments.
\<close>

section \<open>Recovery codes\<close>

definition RECOVERY_CODES :: nat where
  "RECOVERY_CODES = 8"

definition RECOVERY_ALPHABET :: string where
  "RECOVERY_ALPHABET = ''abcdefghjkmnpqrstuvwxyz23456789''"

definition RECOVERY_CODE_LENGTH :: nat where
  "RECOVERY_CODE_LENGTH = 10"

definition recovery_generate :: "nat list \<Rightarrow> string" where
  "recovery_generate picks =
     concat (map (\<lambda>position.
        (if position = RECOVERY_CODE_LENGTH div 2 then ''-'' else []) @
        [RECOVERY_ALPHABET ! (picks ! position)]) [0..<RECOVERY_CODE_LENGTH])"

definition is_ascii_alphanumeric :: "char \<Rightarrow> bool" where
  "is_ascii_alphanumeric c =
     (let n = (of_char c :: nat) in
      (48 \<le> n \<and> n \<le> 57) \<or> (65 \<le> n \<and> n \<le> 90) \<or> (97 \<le> n \<and> n \<le> 122))"

definition recovery_hash :: "(string \<Rightarrow> string) \<Rightarrow> string \<Rightarrow> string" where
  "recovery_hash sha256_hex code = sha256_hex (map ascii_lower_char (filter is_ascii_alphanumeric code))"

definition recovery_delete_all :: "int \<Rightarrow> db \<Rightarrow> db" where
  "recovery_delete_all u d = d\<lparr>recovery_codes := del (\<lambda>r. rc_user_id r = u) (recovery_codes d)\<rparr>"

definition insert_recovery_code :: "int \<Rightarrow> string \<Rightarrow> int \<Rightarrow> db \<Rightarrow> (db_error, db) result" where
  "insert_recovery_code u hash now d =
     ensure (user_exists d u) ForeignKeyViolation
     (Inr (d\<lparr>recovery_codes := append_row (\<lambda>i. \<lparr>rc_id = i, rc_user_id = u, rc_code_hash = hash,
              used_at = None, rc_created_at = now\<rparr>) (recovery_codes d)\<rparr>))"

fun insert_recovery_codes ::
  "(string \<Rightarrow> string) \<Rightarrow> int \<Rightarrow> string list \<Rightarrow> int \<Rightarrow> db \<Rightarrow> (db_error, db) result" where
  "insert_recovery_codes sha256_hex u [] now d = Inr d"
| "insert_recovery_codes sha256_hex u (code # codes) now d =
     and_then (insert_recovery_code u (recovery_hash sha256_hex code) now d)
       (insert_recovery_codes sha256_hex u codes now)"

definition replace_all ::
  "(string \<Rightarrow> string) \<Rightarrow> int \<Rightarrow> nat list list \<Rightarrow> int \<Rightarrow> db \<Rightarrow> (db_error, db \<times> string list) result" where
  "replace_all sha256_hex u picks now d =
     (let codes = map (\<lambda>i. recovery_generate (picks ! i)) [0..<RECOVERY_CODES] in
      and_then (insert_recovery_codes sha256_hex u codes now (recovery_delete_all u d))
        (\<lambda>d1. Inr (d1, codes)))"

definition recovery_remaining :: "db \<Rightarrow> int \<Rightarrow> nat" where
  "recovery_remaining d u = count_rows (\<lambda>r. rc_user_id r = u \<and> used_at r = None) (recovery_codes d)"

definition recovery_consume :: "(string \<Rightarrow> string) \<Rightarrow> int \<Rightarrow> string \<Rightarrow> int \<Rightarrow> db \<Rightarrow> db \<times> bool" where
  "recovery_consume sha256_hex u code now d =
     (let P = (\<lambda>r. rc_user_id r = u \<and> rc_code_hash r = recovery_hash sha256_hex code \<and> used_at r = None) in
      (d\<lparr>recovery_codes := upd P (\<lambda>r. r\<lparr>used_at := Some now\<rparr>) (recovery_codes d)\<rparr>,
       count_rows P (recovery_codes d) = 1))"

section \<open>The authenticator app\<close>

definition has_authenticator :: "User \<Rightarrow> bool" where
  "has_authenticator u \<longleftrightarrow> two_factor_secret u \<noteq> None \<and> two_factor_confirmed_at u \<noteq> None"

definition count_of_user :: "db \<Rightarrow> int \<Rightarrow> nat" where
  "count_of_user d u = count_rows (\<lambda>p. pk_user_id p = u) (passkeys d)"

definition is_protected :: "db \<Rightarrow> User \<Rightarrow> bool" where
  "is_protected d user \<longleftrightarrow> has_authenticator user \<or> count_of_user d (u_id user) > 0"

text \<open>\<open>save\<close> of the three columns: it writes those that differ from what was read.\<close>

definition save_authenticator ::
  "User \<Rightarrow> string option \<Rightarrow> int option \<Rightarrow> int option \<Rightarrow> int \<Rightarrow> db \<Rightarrow> db \<times> User" where
  "save_authenticator user secret confirmed step now d =
     (let self = user\<lparr>two_factor_secret := secret, two_factor_confirmed_at := confirmed,
                      two_factor_last_step := step\<rparr> in
      if self = user then (d, user)
      else (d\<lparr>users := upd (\<lambda>x. u_id x = u_id user)
               (\<lambda>x. x\<lparr>two_factor_secret :=
                        (if secret = two_factor_secret user then two_factor_secret x else secret),
                      two_factor_confirmed_at :=
                        (if confirmed = two_factor_confirmed_at user then two_factor_confirmed_at x
                         else confirmed),
                      two_factor_last_step :=
                        (if step = two_factor_last_step user then two_factor_last_step x else step),
                      u_updated_at := Some now\<rparr>) (users d)\<rparr>,
            self\<lparr>u_updated_at := Some now\<rparr>))"

definition enable_authenticator ::
  "(string \<Rightarrow> string) \<Rightarrow> User \<Rightarrow> string \<Rightarrow> int \<Rightarrow> int \<Rightarrow> db \<Rightarrow> db \<times> User" where
  "enable_authenticator encrypt user secret step now d =
     save_authenticator user (Some (encrypt secret)) (Some now) (Some step) now d"

definition disable_authenticator :: "User \<Rightarrow> int \<Rightarrow> db \<Rightarrow> db \<times> User" where
  "disable_authenticator user now d = save_authenticator user None None None now d"

definition accept_authenticator_code ::
  "(8 word list \<Rightarrow> 8 word list \<Rightarrow> 8 word list) \<Rightarrow> (string \<Rightarrow> string option)
     \<Rightarrow> User \<Rightarrow> string \<Rightarrow> int \<Rightarrow> db \<Rightarrow> db \<times> bool" where
  "accept_authenticator_code hmac_sha1 decrypt user code unix_seconds d =
     (if \<not> has_authenticator user then (d, False)
      else case (case Option.bind (two_factor_secret user) decrypt of
                   None \<Rightarrow> None
                 | Some secret \<Rightarrow> verify hmac_sha1 secret code unix_seconds (two_factor_last_step user)) of
        None \<Rightarrow> (d, False)
      | Some step \<Rightarrow>
          (let P = (\<lambda>x. u_id x = u_id user \<and>
                (case two_factor_last_step x of None \<Rightarrow> True | Some l \<Rightarrow> l < step)) in
           (d\<lparr>users := upd P (\<lambda>x. x\<lparr>two_factor_last_step := Some step\<rparr>) (users d)\<rparr>,
            count_rows P (users d) = 1)))"

definition settle_recovery_codes :: "User \<Rightarrow> db \<Rightarrow> db" where
  "settle_recovery_codes user d =
     (if \<not> is_protected d user then recovery_delete_all (u_id user) d else d)"

definition remove_protection :: "User \<Rightarrow> int \<Rightarrow> db \<Rightarrow> db" where
  "remove_protection user now d =
     (let d1 = fst (disable_authenticator user now d) in
      recovery_delete_all (u_id user)
        (d1\<lparr>passkeys := del (\<lambda>p. pk_user_id p = u_id user) (passkeys d1)\<rparr>))"

text \<open>\<open>DELETE /users/{id}/protection\<close>: the account is read before the transaction, in \<open>d0\<close>.\<close>

definition reset_protection ::
  "User \<Rightarrow> int option \<Rightarrow> PasswordCheck \<Rightarrow> int \<Rightarrow> db \<Rightarrow> db \<Rightarrow> (web_error, db) result" where
  "reset_protection actor i check now d0 d =
     and_then (user_dialog_checks DialogProtection actor i check d0) (\<lambda>account.
     ensure (still_super_admin d actor) (Refused SUPER_ADMIN_REQUIRED)
     (Inr (remove_protection account now d)))"

section \<open>Passkeys\<close>

record Assertion =
  as_sign_count :: "32 word"
  as_backed_up :: bool

definition passkeys_of_user :: "db \<Rightarrow> int \<Rightarrow> Passkey list" where
  "passkeys_of_user d u = filter (\<lambda>p. pk_user_id p = u) (rows (passkeys d))"

definition find_by_credential_id :: "db \<Rightarrow> string \<Rightarrow> Passkey option" where
  "find_by_credential_id d c = find_row (\<lambda>p. credential_id p = c) (passkeys d)"

definition record_use :: "Passkey \<Rightarrow> Assertion \<Rightarrow> int \<Rightarrow> db \<Rightarrow> db \<times> bool" where
  "record_use self assertion now d =
     (let n = uint (as_sign_count assertion);
          P = (\<lambda>p. pk_id p = pk_id self \<and> (sign_count p < n \<or> (sign_count p = 0 \<and> n = 0))) in
      (d\<lparr>passkeys := upd P (\<lambda>p. p\<lparr>sign_count := n, backed_up := as_backed_up assertion,
                             pk_last_used_at := Some now\<rparr>) (passkeys d)\<rparr>,
       count_rows P (passkeys d) = 1))"

section \<open>Codes that work once\<close>

definition recovery_spent :: "(string \<Rightarrow> string) \<Rightarrow> int \<times> string \<Rightarrow> db \<Rightarrow> bool" where
  "recovery_spent sha k d \<longleftrightarrow>
     (\<forall>r \<in> set (rows (recovery_codes d)).
        rc_user_id r = fst k \<and> rc_code_hash r = snd k \<longrightarrow> used_at r \<noteq> None)"

interpretation recovery: one_shot
  "\<lambda>(u, code, now). recovery_consume sha u code now" "\<lambda>(u, code, now). (u, recovery_hash sha code)"
  "recovery_spent sha" "\<lambda>d. True" for sha
proof (standard, goal_cases)
  case (2 d a)
  obtain u code now where a: "a = (u, code, now)" by (cases a)
  show ?case
    by (simp add: a recovery_consume_def recovery_spent_def ball_update_where_if Let_def)
next
  case (3 d a)
  obtain u code now where a: "a = (u, code, now)" by (cases a)
  have "count_rows (\<lambda>r. rc_user_id r = u \<and> rc_code_hash r = recovery_hash sha code \<and> used_at r = None)
      (recovery_codes d) = 0"
    using 3 by (auto simp: a recovery_spent_def count_rows_def count_where_zero_iff)
  then show ?case
    by (simp add: a recovery_consume_def Let_def)
next
  case (4 d k a)
  obtain u code now where "a = (u, code, now)" by (cases a)
  then show ?case
    using 4 by (auto simp: recovery_consume_def recovery_spent_def update_where_def Let_def)
qed simp

text \<open>The step a code stands for when it was checked against what was read of the account.\<close>

definition attempt_step ::
  "(8 word list \<Rightarrow> 8 word list \<Rightarrow> 8 word list) \<Rightarrow> (string \<Rightarrow> string option)
     \<Rightarrow> User \<times> string \<times> int \<Rightarrow> int \<times> int option" where
  "attempt_step h decrypt = (\<lambda>(user, code, t).
     (u_id user,
      case Option.bind (two_factor_secret user) decrypt of
        None \<Rightarrow> None | Some secret \<Rightarrow> verify h secret code t (two_factor_last_step user)))"

definition step_spent :: "int \<times> int option \<Rightarrow> db \<Rightarrow> bool" where
  "step_spent k d \<longleftrightarrow> (case snd k of None \<Rightarrow> True | Some step \<Rightarrow>
     (\<forall>x \<in> set (rows (users d)). u_id x = fst k \<longrightarrow>
        (\<exists>l. two_factor_last_step x = Some l \<and> step \<le> l)))"

lemma accept_code_unfold:
  "accept_authenticator_code h decrypt user code t d =
     (if \<not> has_authenticator user then (d, False)
      else case snd (attempt_step h decrypt (user, code, t)) of
        None \<Rightarrow> (d, False)
      | Some step \<Rightarrow>
          (d\<lparr>users := upd (\<lambda>x. u_id x = u_id user \<and>
                (case two_factor_last_step x of None \<Rightarrow> True | Some l \<Rightarrow> l < step))
               (\<lambda>x. x\<lparr>two_factor_last_step := Some step\<rparr>) (users d)\<rparr>,
           count_rows (\<lambda>x. u_id x = u_id user \<and>
                (case two_factor_last_step x of None \<Rightarrow> True | Some l \<Rightarrow> l < step)) (users d) = 1))"
  by (simp add: accept_authenticator_code_def attempt_step_def Let_def split: option.split)

interpretation totp: one_shot
  "\<lambda>(user, code, t). accept_authenticator_code h decrypt user code t" "attempt_step h decrypt"
  step_spent "\<lambda>d. True" for h decrypt
proof (standard, goal_cases)
  case (2 d a)
  obtain user code t where a: "a = (user, code, t)" by (cases a)
  have key: "fst (attempt_step h decrypt a) = u_id user"
    by (simp add: a attempt_step_def)
  show ?case
    using 2 key
    by (auto simp: a accept_code_unfold step_spent_def ball_update_where_if split: option.splits if_splits)
next
  case (3 d a)
  obtain user code t where a: "a = (user, code, t)" by (cases a)
  have key: "fst (attempt_step h decrypt a) = u_id user"
    by (simp add: a attempt_step_def)
  have "count_rows (\<lambda>x. u_id x = u_id user \<and>
      (case two_factor_last_step x of None \<Rightarrow> True | Some l \<Rightarrow> l < step)) (users d) = 0"
    if "snd (attempt_step h decrypt a) = Some step" for step
    using 3 that key by (fastforce simp: step_spent_def count_rows_def count_where_zero_iff)
  then show ?case
    by (auto simp: a accept_code_unfold split: option.splits)
next
  case (4 d k a)
  obtain user code t where a: "a = (user, code, t)" by (cases a)
  show ?case
    using 4
    by (auto simp: a accept_code_unfold step_spent_def ball_update_where_if update_where_def
        split: option.splits if_splits)
qed simp

lemma insert_recovery_codes_ok:
  assumes "user_exists d u"
  shows "\<exists>d'. insert_recovery_codes sha u codes now d = Inr d' \<and> users d' = users d
     \<and> map (\<lambda>r. (rc_user_id r, rc_code_hash r, used_at r)) (rows (recovery_codes d')) =
        map (\<lambda>r. (rc_user_id r, rc_code_hash r, used_at r)) (rows (recovery_codes d))
        @ map (\<lambda>c. (u, recovery_hash sha c, None)) codes"
  using assms
proof (induction codes arbitrary: d)
  case (Cons c codes)
  let ?d1 = "d\<lparr>recovery_codes := append_row (\<lambda>i. \<lparr>rc_id = i, rc_user_id = u,
      rc_code_hash = recovery_hash sha c, used_at = None, rc_created_at = now\<rparr>) (recovery_codes d)\<rparr>"
  have "insert_recovery_code u (recovery_hash sha c) now d = Inr ?d1"
    using Cons.prems by (simp add: insert_recovery_code_def)
  then show ?case
    using Cons.IH [of ?d1] Cons.prems by auto
qed simp

section \<open>Properties\<close>

text \<open>A recovery code signs in at most once. Whatever codes are sent, for whatever accounts and
  however they are typed, at most one request with the same code for the same account is told
  that it worked.\<close>

theorem recovery_code_once:
  "count_where (\<lambda>((u, code, now), ok). ok \<and> u = user \<and> recovery_hash sha code = h)
     (run_uses (\<lambda>(u, code, now). recovery_consume sha u code now) d uses) \<le> 1"
proof -
  have eq: "(\<lambda>((u, code, now), ok). ok \<and> u = user \<and> recovery_hash sha code = h) =
    (\<lambda>(a, ok). ok \<and> (case a of (u, code, now) \<Rightarrow> (u, recovery_hash sha code)) = (user, h))"
    by (auto simp: fun_eq_iff)
  show ?thesis
    unfolding eq by (rule recovery.at_most_once) simp
qed

text \<open>Giving an account new recovery codes forgets those it had and stores eight that work: each
  one that is returned is accepted by the account, typed in any case and with or without its
  dash, as long as no two of the eight have the same hash; and eight are then left.\<close>

theorem new_recovery_codes_work:
  assumes "user_exists d u" and "replace_all sha u picks now d = Inr (d', codes)"
    and "distinct (map (recovery_hash sha) codes)" and "code \<in> set codes"
    and "map ascii_lower_char (filter is_ascii_alphanumeric typed) =
         map ascii_lower_char (filter is_ascii_alphanumeric code)"
  shows "snd (recovery_consume sha u typed t d') \<and> recovery_remaining d' u = 8 \<and> length codes = 8"
proof -
  let ?f = "\<lambda>r. (rc_user_id r, rc_code_hash r, used_at r)"
  let ?d0 = "recovery_delete_all u d"
  have codes: "codes = map (\<lambda>i. recovery_generate (picks ! i)) [0..<RECOVERY_CODES]"
    and ins: "insert_recovery_codes sha u codes now ?d0 = Inr d'"
    using assms(2) by (auto simp: replace_all_def result_simps Let_def)
  have rows: "map ?f (rows (recovery_codes d')) =
      map ?f (rows (recovery_codes ?d0)) @ map (\<lambda>c. (u, recovery_hash sha c, None)) codes"
    using insert_recovery_codes_ok [where d = ?d0 and u = u and sha = sha and codes = codes and now = now] assms(1) ins
    by (auto simp: recovery_delete_all_def)
  have none: "count_where (\<lambda>(v, h, x). v = u \<and> P h x) (map ?f (rows (recovery_codes ?d0))) = 0" for P
    by (auto simp: count_where_zero_iff recovery_delete_all_def set_delete_where)
  have count: "count_rows (\<lambda>r. rc_user_id r = u \<and> P (rc_code_hash r) (used_at r)) (recovery_codes d')
      = count_where (\<lambda>c. P (recovery_hash sha c) None) codes" for P
  proof -
    have "count_rows (\<lambda>r. rc_user_id r = u \<and> P (rc_code_hash r) (used_at r)) (recovery_codes d')
        = count_where (\<lambda>(v, h, x). v = u \<and> P h x) (map ?f (rows (recovery_codes d')))"
      by (simp add: count_rows_def count_where_map)
    then show ?thesis
      unfolding rows count_where_append none by (simp add: count_where_map)
  qed
  have "recovery_hash sha typed = recovery_hash sha code"
    using assms(5) by (simp add: recovery_hash_def)
  moreover have "count_where (\<lambda>c. recovery_hash sha c = recovery_hash sha code) codes = 1"
    using assms(3,4) by (induction codes) (auto simp: count_where_zero_iff image_iff)
  ultimately have "count_rows (\<lambda>r. rc_user_id r = u \<and> rc_code_hash r = recovery_hash sha typed
      \<and> used_at r = None) (recovery_codes d') = 1"
    using count [of "\<lambda>h x. h = recovery_hash sha typed \<and> x = None"] by simp
  moreover have "recovery_remaining d' u = 8"
    using count [of "\<lambda>h x. x = None"]
    by (simp add: recovery_remaining_def codes RECOVERY_CODES_def count_where_def)
  ultimately show ?thesis
    by (simp add: recovery_consume_def Let_def codes RECOVERY_CODES_def)
qed

definition sample_picks :: "nat list list" where
  "sample_picks = map (\<lambda>i. replicate 10 i) [0..<8]"

theorem new_recovery_codes_work_witness:
  "\<exists>d'. replace_all (\<lambda>s. s) 2 sample_picks 5 sample_db
        = Inr (d', map (\<lambda>i. recovery_generate (sample_picks ! i)) [0..<RECOVERY_CODES])
     \<and> snd (recovery_consume (\<lambda>s. s) 2 '' AAAAA aaaaa'' 9 d')"
proof -
  let ?codes = "map (\<lambda>i. recovery_generate (sample_picks ! i)) [0..<RECOVERY_CODES]"
  have "user_exists sample_db 2"
    by code_simp
  then obtain d' where d': "replace_all (\<lambda>s. s) 2 sample_picks 5 sample_db = Inr (d', ?codes)"
    using insert_recovery_codes_ok [where d = "recovery_delete_all 2 sample_db" and u = 2
      and sha = "\<lambda>s. s" and codes = ?codes and now = 5]
    by (auto simp: replace_all_def recovery_delete_all_def Let_def)
  moreover have "distinct (map (recovery_hash (\<lambda>s. s)) ?codes)"
    by code_simp
  moreover have "recovery_generate (sample_picks ! 0) \<in> set ?codes"
    by (simp add: RECOVERY_CODES_def)
  moreover have "map ascii_lower_char (filter is_ascii_alphanumeric '' AAAAA aaaaa'') =
      map ascii_lower_char (filter is_ascii_alphanumeric (recovery_generate (sample_picks ! 0)))"
    by code_simp
  ultimately show ?thesis
    using new_recovery_codes_work [OF \<open>user_exists sample_db 2\<close> d'] by blast
qed

text \<open>A code of an authenticator app signs in at most once. Of all requests for an account whose
  code stands for the same time step, however they interleave and whatever each of them had
  read of the account before, at most one is told that the code is good.\<close>

theorem totp_code_once:
  "count_where (\<lambda>(a, ok). ok \<and> attempt_step h decrypt a = (user, Some step))
     (run_uses (\<lambda>(user, code, t). accept_authenticator_code h decrypt user code t) d attempts) \<le> 1"
  by (rule totp.at_most_once) simp

text \<open>The counter of a passkey only moves forward. A use is accepted exactly when the counter of
  the passkey grew, or when the authenticator counts nothing (zero before and after); a use that
  is not accepted changes nothing, and no other passkey is ever touched.\<close>

theorem passkey_counter_moves_forward:
  assumes "table_ok pk_id (passkeys d)" and "p \<in> set (rows (passkeys d))"
  shows "snd (record_use p assertion now d) =
           (sign_count p < uint (as_sign_count assertion) \<or>
            sign_count p = 0 \<and> uint (as_sign_count assertion) = 0)
    \<and> (if snd (record_use p assertion now d)
       then p\<lparr>sign_count := uint (as_sign_count assertion), backed_up := as_backed_up assertion,
              pk_last_used_at := Some now\<rparr> \<in> set (rows (passkeys (fst (record_use p assertion now d))))
       else fst (record_use p assertion now d) = d)
    \<and> (\<forall>q \<in> set (rows (passkeys d)). pk_id q \<noteq> pk_id p \<longrightarrow>
           q \<in> set (rows (passkeys (fst (record_use p assertion now d)))))"
proof -
  let ?n = "uint (as_sign_count assertion)"
  let ?P = "\<lambda>q. pk_id q = pk_id p \<and> (sign_count q < ?n \<or> (sign_count q = 0 \<and> ?n = 0))"
  let ?ok = "sign_count p < ?n \<or> sign_count p = 0 \<and> ?n = 0"
  have only: "?P q \<longleftrightarrow> q = p \<and> ?ok" if "q \<in> set (rows (passkeys d))" for q
    using that assms table_ok_unique [OF assms(1), of q p] by blast
  have "distinct (rows (passkeys d))"
    using table_ok_distinct [OF assms(1)] by (simp add: distinct_map)
  then have "count_where (\<lambda>q. q = p) (rows (passkeys d)) = 1"
    using assms(2) by (induction "rows (passkeys d)" arbitrary: d)
      (auto simp: count_where_def filter_empty_conv distinct_length_filter)
  then have one: "count_where ?P (rows (passkeys d)) = (if ?ok then 1 else 0)"
    using only by (cases ?ok) (auto simp: count_where_def cong: filter_cong)
  have ok: "snd (record_use p assertion now d) = ?ok"
    using one by (simp add: record_use_def Let_def count_rows_def)
  have same: "\<not> ?ok \<Longrightarrow> fst (record_use p assertion now d) = d"
    using only by (simp add: record_use_def Let_def upd_def update_where_id)
  have new: "?ok \<Longrightarrow> p\<lparr>sign_count := ?n, backed_up := as_backed_up assertion,
      pk_last_used_at := Some now\<rparr> \<in> set (rows (passkeys (fst (record_use p assertion now d))))"
    using assms(2) by (force simp: record_use_def Let_def update_where_def)
  have "\<forall>q \<in> set (rows (passkeys d)). pk_id q \<noteq> pk_id p \<longrightarrow>
      q \<in> set (rows (passkeys (fst (record_use p assertion now d))))"
    by (auto simp: record_use_def Let_def update_where_def)
  then show ?thesis
    using ok same new by auto
qed

definition sample_passkey :: Passkey where
  "sample_passkey =
     \<lparr>pk_id = 1, pk_user_id = 2, pk_name = ''phone'', credential_id = ''c'', public_key = ''k'',
      sign_count = 4, backed_up = False, pk_created_at = 1, pk_last_used_at = None\<rparr>"

theorem passkey_counter_moves_forward_witness:
  "\<not> snd (record_use sample_passkey \<lparr>as_sign_count = 4, as_backed_up = False\<rparr> 9
       (sample_db\<lparr>passkeys := \<lparr>rows = [sample_passkey], seq = 1\<rparr>\<rparr>))"
  using passkey_counter_moves_forward [of "sample_db\<lparr>passkeys := \<lparr>rows = [sample_passkey], seq = 1\<rparr>\<rparr>"
    sample_passkey "\<lparr>as_sign_count = 4, as_backed_up = False\<rparr>" 9]
  by (simp add: table_ok_def sample_passkey_def)

text \<open>Taking the protection of an account away leaves its password alone to sign in, when the
  account is still as it was read: no authenticator app, no passkey and no recovery code is left
  of it, and every other account keeps its own.\<close>

theorem remove_protection_clears:
  assumes "table_ok u_id (users d)" and "user \<in> set (rows (users d))"
  shows "(\<forall>x \<in> set (rows (users (remove_protection user now d))). u_id x = u_id user \<longrightarrow>
            \<not> has_authenticator x \<and> \<not> is_protected (remove_protection user now d) x)
    \<and> recovery_remaining (remove_protection user now d) (u_id user) = 0
    \<and> (\<forall>x \<in> set (rows (users d)). u_id x \<noteq> u_id user \<longrightarrow>
            x \<in> set (rows (users (remove_protection user now d))))
    \<and> (\<forall>r \<in> set (rows (recovery_codes d)). rc_user_id r \<noteq> u_id user \<longrightarrow>
            r \<in> set (rows (recovery_codes (remove_protection user now d))))"
proof -
  let ?d = "remove_protection user now d"
  have users: "users ?d = users (fst (disable_authenticator user now d))"
    by (simp add: remove_protection_def recovery_delete_all_def Let_def)
  have only: "x = user" if "x \<in> set (rows (users d))" "u_id x = u_id user" for x
    using table_ok_unique [OF assms(1) that(1) assms(2) that(2)] .
  have "\<forall>x \<in> set (rows (users ?d)). u_id x = u_id user \<longrightarrow> two_factor_secret x = None"
  proof (cases "user\<lparr>two_factor_secret := None, two_factor_confirmed_at := None, two_factor_last_step := None\<rparr> = user")
    case True
    then have "two_factor_secret user = None"
      by (metis User.select_convs(10) User.surjective User.update_convs(10,11,12))
    then show ?thesis
      using True only by (auto simp: users disable_authenticator_def save_authenticator_def Let_def)
  next
    case False
    then show ?thesis
      by (auto simp: users disable_authenticator_def save_authenticator_def Let_def update_where_def
          dest: only)
  qed
  then have "\<forall>x \<in> set (rows (users ?d)). u_id x = u_id user \<longrightarrow> \<not> has_authenticator x \<and> \<not> is_protected ?d x"
    by (auto simp: has_authenticator_def is_protected_def count_of_user_def count_rows_def
        count_where_pos_iff remove_protection_def recovery_delete_all_def Let_def set_delete_where)
  moreover have "recovery_remaining ?d (u_id user) = 0"
    by (auto simp: recovery_remaining_def count_rows_def count_where_zero_iff remove_protection_def
        recovery_delete_all_def Let_def set_delete_where)
  moreover have "\<forall>x \<in> set (rows (users d)). u_id x \<noteq> u_id user \<longrightarrow> x \<in> set (rows (users ?d))"
    by (auto simp: users disable_authenticator_def save_authenticator_def Let_def update_where_def)
  moreover have "recovery_codes (fst (disable_authenticator user now d)) = recovery_codes d"
    by (simp add: disable_authenticator_def save_authenticator_def Let_def)
  then have "\<forall>r \<in> set (rows (recovery_codes d)). rc_user_id r \<noteq> u_id user \<longrightarrow> r \<in> set (rows (recovery_codes ?d))"
    by (simp add: remove_protection_def recovery_delete_all_def Let_def set_delete_where)
  ultimately show ?thesis by blast
qed

theorem remove_protection_clears_witness:
  "recovery_remaining (remove_protection (sample_user 2 ''bob@x'' False) 9 sample_db) 2 = 0"
proof -
  have "table_ok u_id (users sample_db)"
    using sample_inv by (simp add: team_inv_def ids_ok_def)
  moreover have "sample_user 2 ''bob@x'' False \<in> set (rows (users sample_db))"
    by (simp add: sample_db_def)
  ultimately show ?thesis
    using remove_protection_clears [of sample_db "sample_user 2 ''bob@x'' False" 9]
    by (simp add: sample_user_def)
qed

definition after_enabling :: db where
  "after_enabling =
     (case replace_all (\<lambda>s. s) 2 sample_picks 40
        (fst (enable_authenticator (\<lambda>s. s) (sample_user 2 ''bob@x'' False) ''AAAAAAAA'' 1 40 sample_db)) of
        Inr (d, codes) \<Rightarrow> d | Inl e \<Rightarrow> sample_db)"

text \<open>C33: The reset of someone's protection works on the account as it was read before the
  transaction, and saves only the columns that differ from that reading. Whoever had no authenticator app when the account was
  read and has one in the database of the transaction keeps it, exactly as it is: the reset of a super admin, with the right
  password, is reported as done, the account goes on asking for the codes of the app, and no recovery code of it is left.\<close>

theorem reset_protection_misses_late_authenticator:
  assumes "find_account d0 (Some i) = Some account" and "two_factor_secret account = None"
    and "two_factor_confirmed_at account = None" and "two_factor_last_step account = None"
    and "x \<in> set (rows (users d))" and "u_id x = i" and "has_authenticator x"
    and "i \<noteq> u_id actor" and "still_super_admin d actor"
  shows "\<exists>d'. reset_protection actor (Some i) Confirmed now d0 d = Inr d'
     \<and> x \<in> set (rows (users d')) \<and> is_protected d' x \<and> recovery_remaining d' i = 0"
proof -
  have account: "u_id account = i"
    using assms(1) by (auto simp: find_account_def dest!: find_row_Some split: option.split_asm)
  have "account\<lparr>two_factor_secret := None, two_factor_confirmed_at := None, two_factor_last_step := None\<rparr> = account"
    using assms(2-4) by (cases account) simp
  then have "disable_authenticator account now d = (d, account)"
    by (simp add: disable_authenticator_def save_authenticator_def)
  then have users: "users (remove_protection account now d) = users d"
    by (simp add: remove_protection_def recovery_delete_all_def)
  have "recovery_remaining (remove_protection account now d) i = 0"
    by (auto simp: account recovery_remaining_def count_rows_def count_where_zero_iff remove_protection_def
        recovery_delete_all_def Let_def set_delete_where)
  moreover have "reset_protection actor (Some i) Confirmed now d0 d = Inr (remove_protection account now d)"
    using assms(1,8,9) account by (simp add: reset_protection_def user_dialog_checks_def)
  ultimately show ?thesis
    using assms(5,7) users by (simp add: is_protected_def)
qed

theorem reset_protection_misses_late_authenticator_witness:
  "\<exists>d x. reset_protection (sample_user 1 ''ann@x'' True) (Some 2) Confirmed 50 sample_db after_enabling = Inr d
     \<and> x \<in> set (rows (users d)) \<and> u_id x = 2 \<and> is_protected d x
     \<and> recovery_remaining after_enabling 2 = 8 \<and> recovery_remaining d 2 = 0"
proof -
  let ?ann = "sample_user 1 ''ann@x'' True"
  let ?bob = "sample_user 2 ''bob@x'' False"
  have read: "find_account sample_db (Some 2) = Some ?bob" by code_simp
  have columns: "two_factor_secret ?bob = None" "two_factor_confirmed_at ?bob = None" "two_factor_last_step ?bob = None"
    by (simp_all add: sample_user_def)
  have "\<exists>x \<in> set (rows (users after_enabling)). u_id x = 2 \<and> has_authenticator x" by code_simp
  then obtain x where x: "x \<in> set (rows (users after_enabling))" "u_id x = 2" "has_authenticator x" by blast
  have ann: "(2::int) \<noteq> u_id ?ann" "still_super_admin after_enabling ?ann" by code_simp+
  have "recovery_remaining after_enabling 2 = 8" by code_simp
  with x(2) reset_protection_misses_late_authenticator [OF read columns x ann, of 50] show ?thesis by blast
qed

end
