(* ===== verification/OauthRequests.thy ===== *)
theory OauthRequests
  imports AccessTokens TwoFactor
begin

text \<open>
  What the OAuth server reads of a request before it touches the database: the public address
  (\<open>crates/core/src/public_url.rs\<close>), the validators of
  \<open>crates/gateway/src/validators/gateway_oauth.rs\<close>, the metadata of a client
  (\<open>oauth/client_metadata.rs\<close>) and the pure functions of \<open>oauth/mod.rs\<close>. Texts are their UTF-8
  bytes. The url crate is a parameter: \<open>parse\<close> gives the parts of a URL, the query of a URL
  is read and written by \<open>query_pairs\<close> and \<open>with_pairs\<close>.
\<close>

section \<open>Texts as JavaScript counts and trims them\<close>

definition JS_SPACES :: "string list" where
  "JS_SPACES =
     [[CHR 0x09], [CHR 0x0A], [CHR 0x0B], [CHR 0x0C], [CHR 0x0D], [CHR 0x20], [CHR 0xC2, CHR 0xA0],
      [CHR 0xE1, CHR 0x9A, CHR 0x80]]
     @ map (\<lambda>n. [CHR 0xE2, CHR 0x80, char_of n]) ([0x80..<0x8B :: nat] @ [0xA8, 0xA9, 0xAF])
     @ [[CHR 0xE2, CHR 0x81, CHR 0x9F], [CHR 0xE3, CHR 0x80, CHR 0x80], [CHR 0xEF, CHR 0xBB, CHR 0xBF]]"

function strip :: "string list \<Rightarrow> string \<Rightarrow> string" where
  "strip ws s =
     (case find (\<lambda>w. w \<noteq> [] \<and> take (length w) s = w) ws of
        None \<Rightarrow> s
      | Some w \<Rightarrow> strip ws (drop (length w) s))"
  by pat_completeness auto
termination
proof (relation "measure (\<lambda>(ws, s). length s)", goal_cases)
  case (2 ws s w)
  then have "w \<noteq> []" "take (length w) s = w"
    by (auto dest: find_Some_set)
  then show ?case
    by (cases s) auto
qed simp

declare strip.simps [simp del]

definition trim :: "string \<Rightarrow> string" where
  "trim s = rev (strip (map rev JS_SPACES) (rev (strip JS_SPACES s)))"

text \<open>Of the UTF-8 encoding: a continuation byte counts nothing, a lead of four bytes is a pair.\<close>

definition utf16_len :: "string \<Rightarrow> nat" where
  "utf16_len s = sum_list (map (\<lambda>c. let n = (of_char c :: nat) in
     if 0x80 \<le> n \<and> n < 0xC0 then 0 else if 0xF0 \<le> n then 2 else 1) s)"

section \<open>JSON values\<close>

datatype Value =
    JNull
  | JBool bool
  | JNumber int
  | JString string
  | JArray "Value list"
  | JObject "(string \<times> Value) list"

fun as_str :: "Value option \<Rightarrow> string option" where
  "as_str (Some (JString s)) = Some s"
| "as_str _ = None"

definition json_get :: "(string \<times> Value) list \<Rightarrow> string \<Rightarrow> Value option" where
  "json_get m k = map_of m k"

section \<open>Addresses\<close>

record Url =
  url_text :: string
  scheme :: string
  host_str :: "string option"
  path :: string
  query :: "string option"
  fragment :: "string option"
  username :: string
  url_password :: "string option"

definition LOOPBACK_HOSTS :: "string list" where
  "LOOPBACK_HOSTS = [''localhost'', ''127.0.0.1'', ''[::1]'']"

definition has_loopback_host :: "Url \<Rightarrow> bool" where
  "has_loopback_host url \<longleftrightarrow> (case host_str url of None \<Rightarrow> False | Some host \<Rightarrow> host \<in> set LOOPBACK_HOSTS)"

datatype PublicUrlError = NotConfigured | NotAnOrigin

definition normalize_public_app_url :: "string option \<Rightarrow> string option" where
  "normalize_public_app_url value =
     (case value of
        None \<Rightarrow> None
      | Some v \<Rightarrow>
          (let trimmed = (if v \<noteq> [] \<and> last v = CHR ''/'' then butlast v else v) in
           if trimmed \<noteq> [] then Some trimmed else None))"

definition validate_public_app_url ::
  "(string \<Rightarrow> Url option) \<Rightarrow> (Url \<Rightarrow> string) \<Rightarrow> string \<Rightarrow> bool \<Rightarrow> (PublicUrlError, string) result" where
  "validate_public_app_url parse origin value allow_insecure_loopback =
     (case parse value of
        None \<Rightarrow> Inl NotAnOrigin
      | Some url \<Rightarrow>
          (let is_origin_only = (path url = ''/'' \<and> query url = None \<and> fragment url = None
                                 \<and> username url = [] \<and> url_password url = None);
               is_secure = (scheme url = ''https'');
               is_allowed_loopback = (allow_insecure_loopback \<and> scheme url = ''http'' \<and> has_loopback_host url) in
           if \<not> is_origin_only \<or> (\<not> is_secure \<and> \<not> is_allowed_loopback) then Inl NotAnOrigin
           else Inr (origin url)))"

record Config =
  app_url :: "string option"
  is_development :: bool
  is_test :: bool

definition require_public_app_url ::
  "(string \<Rightarrow> Url option) \<Rightarrow> (Url \<Rightarrow> string) \<Rightarrow> Config \<Rightarrow> (PublicUrlError, string) result" where
  "require_public_app_url parse origin config =
     (case normalize_public_app_url (app_url config) of
        None \<Rightarrow> Inl NotConfigured
      | Some configured \<Rightarrow>
          validate_public_app_url parse origin configured (is_development config \<or> is_test config))"

definition gateway_resource_url ::
  "(string \<Rightarrow> Url option) \<Rightarrow> (Url \<Rightarrow> string) \<Rightarrow> Config \<Rightarrow> (PublicUrlError, string) result" where
  "gateway_resource_url parse origin config =
     and_then (require_public_app_url parse origin config) (\<lambda>base. Inr (base @ ''/mcp''))"

definition same_url :: "(string \<Rightarrow> Url option) \<Rightarrow> string \<Rightarrow> string \<Rightarrow> bool" where
  "same_url parse first second \<longleftrightarrow>
     (case (parse first, parse second) of (Some a, Some b) \<Rightarrow> url_text a = url_text b | _ \<Rightarrow> False)"

definition is_loopback_redirect_uri :: "(string \<Rightarrow> Url option) \<Rightarrow> string \<Rightarrow> bool" where
  "is_loopback_redirect_uri parse value \<longleftrightarrow>
     (case parse value of None \<Rightarrow> False | Some url \<Rightarrow> has_loopback_host url)"

section \<open>The query of a redirect\<close>

text \<open>The first pair of that name gets the value, later ones go; a new name goes to the end.\<close>

fun set_param :: "(string \<times> string) list \<Rightarrow> string \<Rightarrow> string \<Rightarrow> (string \<times> string) list" where
  "set_param [] name value = [(name, value)]"
| "set_param ((k, v) # ps) name value =
     (if k = name then (name, value) # filter (\<lambda>p. fst p \<noteq> name) ps
      else (k, v) # set_param ps name value)"

fun set_params ::
  "(string \<times> string option) list \<Rightarrow> (string \<times> string) list \<Rightarrow> bool \<Rightarrow> (string \<times> string) list \<times> bool" where
  "set_params [] pairs changed = (pairs, changed)"
| "set_params ((name, None) # ps) pairs changed = set_params ps pairs changed"
| "set_params ((name, Some value) # ps) pairs changed = set_params ps (set_param pairs name value) True"

definition oauth_redirect ::
  "(string \<Rightarrow> Url option) \<Rightarrow> (Url \<Rightarrow> (string \<times> string) list) \<Rightarrow> (Url \<Rightarrow> (string \<times> string) list \<Rightarrow> string)
     \<Rightarrow> string \<Rightarrow> (string \<times> string option) list \<Rightarrow> string option" where
  "oauth_redirect parse query_pairs with_pairs redirect params =
     (case parse redirect of
        None \<Rightarrow> None
      | Some url \<Rightarrow>
          (let (pairs, changed) = set_params params (query_pairs url) False in
           Some (if changed then with_pairs url pairs else url_text url)))"

section \<open>Validators\<close>

definition NATIVE_APP_REDIRECT_URIS :: "string list" where
  "NATIVE_APP_REDIRECT_URIS = [''cursor://anysphere.cursor-mcp/oauth/callback'']"

definition AUTH_METHODS :: "string list" where
  "AUTH_METHODS = [''none'', ''client_secret_post'', ''client_secret_basic'']"

definition GRANT_TYPES :: "string list" where
  "GRANT_TYPES = [''authorization_code'', ''refresh_token'']"

definition scope_list :: "Value option \<Rightarrow> string list option" where
  "scope_list value = map_option scope_names (as_str value)"

text \<open>What tells two members of a list apart: two lists, or two objects, are never the same.\<close>

fun never_same :: "Value \<Rightarrow> bool" where
  "never_same (JArray _) = True"
| "never_same (JObject _) = True"
| "never_same _ = False"

fun distinct_items :: "Value list \<Rightarrow> Value list \<Rightarrow> Value list" where
  "distinct_items seen [] = []"
| "distinct_items seen (x # xs) =
     (if never_same x then x # distinct_items seen xs
      else if x \<in> set seen then distinct_items seen xs
      else x # distinct_items (x # seen) xs)"

fun distinct_values :: "Value \<Rightarrow> Value" where
  "distinct_values (JArray items) = JArray (distinct_items [] items)"
| "distinct_values v = v"

definition required_parameter :: "Value option \<Rightarrow> string option" where
  "required_parameter v =
     (case as_str v of None \<Rightarrow> None | Some s \<Rightarrow> if utf16_len s < 1 then None else Some s)"

definition redirect_target :: "(string \<Rightarrow> Url option) \<Rightarrow> string \<Rightarrow> bool" where
  "redirect_target parse value \<longleftrightarrow> value \<in> set NATIVE_APP_REDIRECT_URIS \<or>
     (case parse value of
        None \<Rightarrow> False
      | Some url \<Rightarrow>
          (scheme url = ''https'' \<or> (scheme url = ''http'' \<and> has_loopback_host url))
          \<and> (fragment url = None \<or> fragment url = Some [])
          \<and> username url = [] \<and> (url_password url = None \<or> url_password url = Some []))"

definition non_empty :: "string option \<Rightarrow> string option" where
  "non_empty s = (if s = Some [] then None else s)"

definition redirect_uri_matches :: "(string \<Rightarrow> Url option) \<Rightarrow> string \<Rightarrow> string \<Rightarrow> bool" where
  "redirect_uri_matches parse requested registered =
     (if requested = registered then True
      else case (parse requested, parse registered) of
        (Some request_url, Some registered_url) \<Rightarrow>
          if \<not> has_loopback_host request_url \<or> \<not> has_loopback_host registered_url then False
          else scheme request_url = scheme registered_url
            \<and> host_str request_url = host_str registered_url
            \<and> path request_url = path registered_url
            \<and> non_empty (query request_url) = non_empty (query registered_url)
            \<and> non_empty (fragment request_url) = non_empty (fragment registered_url)
      | _ \<Rightarrow> False)"

text \<open>A member of a list of texts, each of which passes; \<open>None\<close> is a refusal throughout.\<close>

fun text_items :: "(string \<Rightarrow> bool) \<Rightarrow> Value list \<Rightarrow> string list option" where
  "text_items P [] = Some []"
| "text_items P (JString s # xs) = (if P s then map_option (Cons s) (text_items P xs) else None)"
| "text_items P (_ # xs) = None"

definition text_array :: "(string \<Rightarrow> bool) \<Rightarrow> Value option \<Rightarrow> string list option" where
  "text_array P v = (case v of Some (JArray items) \<Rightarrow> text_items P items | _ \<Rightarrow> None)"

definition CLIENT_REDIRECT_URIS :: "(string \<Rightarrow> Url option) \<Rightarrow> Value option \<Rightarrow> string list option" where
  "CLIENT_REDIRECT_URIS parse v =
     (case text_array (\<lambda>s. utf16_len s \<le> 2048 \<and> redirect_target parse s) v of
        None \<Rightarrow> None
      | Some uris \<Rightarrow> if 1 \<le> length uris \<and> length uris \<le> 10 then Some uris else None)"

definition given_or :: "Value option \<Rightarrow> Value \<Rightarrow> Value" where
  "given_or v fallback = (case v of None \<Rightarrow> fallback | Some JNull \<Rightarrow> fallback | Some x \<Rightarrow> x)"

definition CLIENT_AUTH_METHOD :: "Value option \<Rightarrow> string option" where
  "CLIENT_AUTH_METHOD v =
     (case as_str (Some (given_or v (JString ''client_secret_basic''))) of
        None \<Rightarrow> None
      | Some m \<Rightarrow> if m \<in> set AUTH_METHODS then Some m else None)"

definition CLIENT_GRANT_TYPES :: "Value option \<Rightarrow> string list option" where
  "CLIENT_GRANT_TYPES v =
     (case text_array (\<lambda>s. s \<in> set GRANT_TYPES)
             (Some (distinct_values (given_or v (JArray (map JString GRANT_TYPES))))) of
        None \<Rightarrow> None
      | Some types \<Rightarrow>
          if length types \<le> length GRANT_TYPES \<and> ''authorization_code'' \<in> set types then Some types else None)"

definition CLIENT_RESPONSE_TYPES :: "Value option \<Rightarrow> string list option" where
  "CLIENT_RESPONSE_TYPES v =
     (case text_array (\<lambda>s. s = ''code'') (Some (distinct_values (given_or v (JArray [JString ''code''])))) of
        None \<Rightarrow> None
      | Some types \<Rightarrow> if length types = 1 then Some types else None)"

text \<open>An optional parameter: \<open>None\<close> refused, \<open>Some None\<close> left out.\<close>

definition known_scopes :: "Value option \<Rightarrow> string list option option" where
  "known_scopes v =
     (case scope_list v of
        None \<Rightarrow> Some None
      | Some names \<Rightarrow>
          if 1 \<le> length names \<and> list_all (\<lambda>n. n \<in> set SUPPORTED_OAUTH_SCOPES) names \<and> distinct names
          then Some (Some names) else None)"

definition CLIENT_NAME :: "Value option \<Rightarrow> string option option" where
  "CLIENT_NAME v =
     (case v of
        None \<Rightarrow> Some None
      | Some JNull \<Rightarrow> Some None
      | Some (JString s) \<Rightarrow> if utf16_len (trim s) \<le> 120 then Some (Some (trim s)) else None
      | _ \<Rightarrow> None)"

definition base64url_char :: "char \<Rightarrow> bool" where
  "base64url_char c \<longleftrightarrow> is_ascii_alphanumeric c \<or> c = CHR ''_'' \<or> c = CHR ''-''"

definition PKCE_CHALLENGE :: "(string \<times> Value) list \<Rightarrow> string option" where
  "PKCE_CHALLENGE input =
     (case (as_str (json_get input ''code_challenge''), as_str (json_get input ''code_challenge_method'')) of
        (Some c, Some m) \<Rightarrow>
          if list_all base64url_char c \<and> 43 \<le> length c \<and> length c \<le> 128 \<and> m = ''S256'' then Some c else None
      | _ \<Rightarrow> None)"

definition PKCE_VERIFIER :: "string \<Rightarrow> bool" where
  "PKCE_VERIFIER v \<longleftrightarrow>
     list_all (\<lambda>c. is_ascii_alphanumeric c \<or> c \<in> set ''._~-'') v \<and> 43 \<le> length v \<and> length v \<le> 128"

definition GATEWAY_RESOURCE :: "(string \<Rightarrow> Url option) \<Rightarrow> string \<Rightarrow> Value option \<Rightarrow> bool" where
  "GATEWAY_RESOURCE parse gateway v \<longleftrightarrow>
     (case as_str v of
        None \<Rightarrow> False
      | Some value \<Rightarrow> map_option url_text (parse value) = Some gateway)"

definition requested_scopes :: "string list option \<Rightarrow> string" where
  "requested_scopes requested =
     (let names = (case requested of None \<Rightarrow> [] | Some names \<Rightarrow> names);
          known = filter (\<lambda>scope. scope \<in> set names) SUPPORTED_OAUTH_SCOPES in
      if known = [] then GATEWAY_OAUTH_SCOPE else join_with '' '' known)"

section \<open>Client metadata\<close>

datatype metadata_member = MText | MTextList | MUrl | MUrlOrEmpty | MUrlList | MAny

definition MEMBERS :: "(string \<times> metadata_member \<times> bool) list" where
  "MEMBERS =
     [(''redirect_uris'', MUrlList, True), (''token_endpoint_auth_method'', MText, False),
      (''grant_types'', MTextList, False), (''response_types'', MTextList, False),
      (''client_name'', MText, False), (''client_uri'', MUrl, False), (''logo_uri'', MUrlOrEmpty, False),
      (''scope'', MText, False), (''contacts'', MTextList, False), (''tos_uri'', MUrlOrEmpty, False),
      (''policy_uri'', MText, False), (''jwks_uri'', MUrl, False), (''jwks'', MAny, False),
      (''software_id'', MText, False), (''software_version'', MText, False),
      (''software_statement'', MText, False)]"

definition safe_url :: "(string \<Rightarrow> Url option) \<Rightarrow> Value \<Rightarrow> Value option" where
  "safe_url parse value =
     (case as_str (Some value) of
        None \<Rightarrow> None
      | Some s \<Rightarrow>
          (let trimmed = trim s;
               stripped = filter (\<lambda>c. c \<noteq> CHR 0x09 \<and> c \<noteq> CHR 0x0A \<and> c \<noteq> CHR 0x0D) trimmed in
           if parse trimmed = None then None
           else case parse stripped of
             None \<Rightarrow> None
           | Some url \<Rightarrow>
               if scheme url \<in> {''javascript'', ''data'', ''vbscript''} then None
               else Some (JString stripped)))"

fun all_members :: "(Value \<Rightarrow> Value option) \<Rightarrow> Value list \<Rightarrow> Value list option" where
  "all_members f [] = Some []"
| "all_members f (x # xs) =
     (case f x of None \<Rightarrow> None | Some y \<Rightarrow> map_option (Cons y) (all_members f xs))"

fun list_member :: "(Value \<Rightarrow> Value option) \<Rightarrow> Value \<Rightarrow> Value option" where
  "list_member f (JArray items) = map_option JArray (all_members f items)"
| "list_member f _ = None"

fun text_member :: "Value \<Rightarrow> Value option" where
  "text_member (JString s) = Some (JString s)"
| "text_member _ = None"

text \<open>\<open>Some None\<close>: the member counts as left out.\<close>

fun read_member :: "(string \<Rightarrow> Url option) \<Rightarrow> metadata_member \<Rightarrow> Value \<Rightarrow> Value option option" where
  "read_member parse MText value = map_option Some (text_member value)"
| "read_member parse MTextList value = map_option Some (list_member text_member value)"
| "read_member parse MUrl value = map_option Some (safe_url parse value)"
| "read_member parse MUrlOrEmpty value =
     (if value = JString [] then Some None else map_option Some (safe_url parse value))"
| "read_member parse MUrlList value = map_option Some (list_member (safe_url parse) value)"
| "read_member parse MAny value = Some (Some value)"

fun read_members ::
  "(string \<Rightarrow> Url option) \<Rightarrow> (string \<times> Value) list \<Rightarrow> (string \<times> metadata_member \<times> bool) list
     \<Rightarrow> (string \<times> Value) list option" where
  "read_members parse input [] = Some []"
| "read_members parse input ((name, member, required) # ms) =
     (case json_get input name of
        None \<Rightarrow> if required then None else read_members parse input ms
      | Some value \<Rightarrow>
          (case read_member parse member value of
             None \<Rightarrow> None
           | Some None \<Rightarrow> read_members parse input ms
           | Some (Some parsed) \<Rightarrow> map_option (Cons (name, parsed)) (read_members parse input ms)))"

fun parse_client_metadata :: "(string \<Rightarrow> Url option) \<Rightarrow> Value \<Rightarrow> (string \<times> Value) list option" where
  "parse_client_metadata parse (JObject input) = read_members parse input MEMBERS"
| "parse_client_metadata parse _ = None"

end
