(* ===== verification/OauthServer.thy ===== *)
theory OauthServer
  imports OauthRequests
begin

text \<open>
  The OAuth 2.1 authorization server: \<open>crates/gateway/src/oauth/mod.rs\<close>, its errors
  (\<open>crates/gateway/src/error.rs\<close>) and the consent handler of
  \<open>crates/web/src/routes/oauth_server.rs\<close>. What third-party crates compute is one record of
  functions: parsing a URL, its origin, the SHA-256 of a text in hexadecimal, and the base64url
  SHA-256 that PKCE compares. Random identifiers and clock readings are arguments. Where the code
  reads first and opens a transaction after, the two halves are definitions of their own. The
  stored lists of a client are held decoded; credentials of a Basic header are taken as read.
\<close>

record Crates =
  url_parse :: "string \<Rightarrow> Url option"
  url_origin :: "Url \<Rightarrow> string"
  sha256_hex :: "string \<Rightarrow> string"
  s256 :: "string \<Rightarrow> string"

section \<open>Errors\<close>

record GatewayOauthError =
  oe_code :: string
  oe_message :: string
  oe_status :: nat
  oe_redirect_uri :: "string option"
  oe_state :: "string option"

definition with_status :: "string \<Rightarrow> string \<Rightarrow> nat \<Rightarrow> GatewayOauthError" where
  "with_status code message status =
     \<lparr>oe_code = code, oe_message = message, oe_status = status, oe_redirect_uri = None, oe_state = None\<rparr>"

definition oauth_error :: "string \<Rightarrow> string \<Rightarrow> GatewayOauthError" where
  "oauth_error code message = with_status code message 400"

datatype Error =
    OauthError GatewayOauthError
  | DatabaseError db_error
  | PublicUrl PublicUrlError
  | RedirectUri

fun to_oauth :: "Error \<Rightarrow> GatewayOauthError" where
  "to_oauth (OauthError e) = e"
| "to_oauth (PublicUrl _) =
     with_status ''temporarily_unavailable'' ''OAuth requires APP_URL to be a public HTTPS origin'' 503"
| "to_oauth (DatabaseError _) = with_status ''server_error'' ''The OAuth request could not be completed'' 500"
| "to_oauth RedirectUri = with_status ''server_error'' ''The OAuth request could not be completed'' 500"

fun database :: "(db_error, 'a) result \<Rightarrow> (Error, 'a) result" where
  "database (Inl e) = Inl (DatabaseError e)"
| "database (Inr x) = Inr x"

lemma database_eq_Inr [result_simps]: "database r = Inr x \<longleftrightarrow> r = Inr x"
  by (cases r) auto

abbreviation refuse :: "string \<Rightarrow> string \<Rightarrow> (Error, 'a) result" where
  "refuse code message \<equiv> Inl (OauthError (oauth_error code message))"

definition gateway_resource :: "Crates \<Rightarrow> Config \<Rightarrow> (Error, string) result" where
  "gateway_resource cr config =
     (case gateway_resource_url (url_parse cr) (url_origin cr) config of
        Inl e \<Rightarrow> Inl (PublicUrl e) | Inr r \<Rightarrow> Inr r)"

definition verify_code_challenge :: "Crates \<Rightarrow> string \<Rightarrow> string \<Rightarrow> bool" where
  "verify_code_challenge cr code_verifier expected_challenge =
     (let actual = s256 cr code_verifier in
      length actual = length expected_challenge \<and> actual = expected_challenge)"

section \<open>Clients\<close>

definition MAX_OAUTH_CLIENTS :: int where
  "MAX_OAUTH_CLIENTS = 1000"

definition UNUSED_CLIENT_RETENTION_DAYS :: int where
  "UNUSED_CLIENT_RETENTION_DAYS = 90"

definition CLIENT_SECRET_TTL_DAYS :: int where
  "CLIENT_SECRET_TTL_DAYS = 365"

definition CLIENT_PRUNE_INTERVAL :: int where
  "CLIENT_PRUNE_INTERVAL = 60 * 60"

definition AUTHORIZATION_CODE_TTL_MINUTES :: int where
  "AUTHORIZATION_CODE_TTL_MINUTES = 5"

definition find_client :: "db \<Rightarrow> string \<Rightarrow> OauthClient option" where
  "find_client d c = find_row (\<lambda>x. client_id x = c) (oauth_clients d)"

definition later :: "int option \<Rightarrow> int \<Rightarrow> bool" where
  "later t now \<longleftrightarrow> (case t of None \<Rightarrow> False | Some t \<Rightarrow> t > now)"

definition unused_client :: "db \<Rightarrow> int \<Rightarrow> int \<Rightarrow> OauthClient \<Rightarrow> bool" where
  "unused_client d active_since now c \<longleftrightarrow>
     \<not> has_row (\<lambda>x. code_oauth_client_id x = oc_id c \<and> code_expires_at x > now) (authorization_codes d)
     \<and> \<not> has_row (\<lambda>a. at_oauth_client_id a = Some (oc_id c) \<and>
          ((case at_updated_at a of None \<Rightarrow> False | Some t \<Rightarrow> t \<ge> active_since)
           \<or> (revoked_at a = None \<and> (later (expires_at a) now \<or> later (oauth_refresh_expires_at a) now))))
          (access_tokens d)"

text \<open>The server keeps when it last pruned, on a clock of its own.\<close>

definition prune_unused_clients ::
  "bool \<Rightarrow> int \<Rightarrow> int \<Rightarrow> int option \<Rightarrow> db \<Rightarrow> int option \<times> db" where
  "prune_unused_clients force instant now last_prune_at d =
     (if \<not> force \<and> (case last_prune_at of None \<Rightarrow> False | Some at \<Rightarrow> instant - at < CLIENT_PRUNE_INTERVAL)
      then (last_prune_at, d)
      else
       (let cutoff = now - UNUSED_CLIENT_RETENTION_DAYS * 86400 in
        (Some instant, delete_clients (\<lambda>c. unused_client d cutoff now c \<and> oc_created_at c < cutoff) d)))"

definition make_room_for_client :: "int \<Rightarrow> db \<Rightarrow> (Error, db) result" where
  "make_room_for_client now d =
     (let total = int (length (rows (oauth_clients d)));
          excess = total - MAX_OAUTH_CLIENTS + 1 in
      if excess \<le> 0 then Inr d
      else
       (let active_since = now - UNUSED_CLIENT_RETENTION_DAYS * 86400;
            evictable = take (nat excess) (map oc_id
              (filter (unused_client d active_since now) (rows (oauth_clients d)))) in
        if int (length evictable) < excess
        then Inl (OauthError (with_status ''temporarily_unavailable'' ''Too many OAuth clients are registered'' 503))
        else Inr (delete_clients (\<lambda>c. unused_client d active_since now c \<and> oc_id c \<in> set evictable) d)))"

definition insert_client :: "OauthClient \<Rightarrow> int \<Rightarrow> db \<Rightarrow> (db_error, db \<times> OauthClient) result" where
  "insert_client c now d =
     (let c1 = c\<lparr>oc_id := seq (oauth_clients d) + 1, oc_created_at := now, oc_updated_at := Some now\<rparr> in
      ensure (\<not> has_row (\<lambda>x. client_id x = client_id c) (oauth_clients d)) UniqueViolation
      (Inr (d\<lparr>oauth_clients := append_row (\<lambda>i. c1\<lparr>oc_id := i\<rparr>) (oauth_clients d)\<rparr>, c1)))"

text \<open>What the metadata of a registration has to say, in the order the errors are given.\<close>

record Registration =
  reg_redirect_uris :: "string list"
  reg_auth_method :: string
  reg_grant_types :: "string list"
  reg_response_types :: "string list"
  reg_scope :: string
  reg_client_name :: string

definition check_registration :: "Crates \<Rightarrow> Value \<Rightarrow> (Error, Registration) result" where
  "check_registration cr input =
     (case parse_client_metadata (url_parse cr) input of
        None \<Rightarrow> refuse ''invalid_client_metadata'' ''Invalid OAuth client metadata''
      | Some metadata \<Rightarrow>
     (case CLIENT_REDIRECT_URIS (url_parse cr) (json_get metadata ''redirect_uris'') of
        None \<Rightarrow> refuse ''invalid_redirect_uri''
          ''Redirect URIs must use HTTPS, HTTP on an exact loopback host, or an approved native-app callback''
      | Some uris \<Rightarrow>
     (case CLIENT_AUTH_METHOD (json_get metadata ''token_endpoint_auth_method'') of
        None \<Rightarrow> refuse ''invalid_client_metadata'' ''Unsupported token endpoint authentication method''
      | Some auth_method \<Rightarrow>
     (case CLIENT_GRANT_TYPES (json_get metadata ''grant_types'') of
        None \<Rightarrow> refuse ''invalid_client_metadata'' ''Unsupported OAuth grant type''
      | Some types \<Rightarrow>
     (case CLIENT_RESPONSE_TYPES (json_get metadata ''response_types'') of
        None \<Rightarrow> refuse ''invalid_client_metadata'' ''Only the code response type is supported''
      | Some responses \<Rightarrow>
     (case known_scopes (json_get metadata ''scope'') of
        None \<Rightarrow> refuse ''invalid_client_metadata'' ''Unsupported OAuth scope''
      | Some scope \<Rightarrow>
     (case CLIENT_NAME (json_get metadata ''client_name'') of
        None \<Rightarrow> refuse ''invalid_client_metadata'' ''Client name is too long''
      | Some name \<Rightarrow>
          Inr \<lparr>reg_redirect_uris = uris, reg_auth_method = auth_method, reg_grant_types = types,
               reg_response_types = responses, reg_scope = requested_scopes scope,
               reg_client_name = (case non_empty name of None \<Rightarrow> ''MCP client'' | Some n \<Rightarrow> n)\<rparr>)))))))"

definition new_client :: "Crates \<Rightarrow> Registration \<Rightarrow> string \<Rightarrow> string \<Rightarrow> int \<Rightarrow> OauthClient" where
  "new_client cr reg rand_id rand_secret now =
     (let secret = (if reg_auth_method reg \<noteq> ''none'' then Some (''mcp_secret_'' @ rand_secret) else None) in
      \<lparr>oc_id = 0, client_id = ''mcp_client_'' @ rand_id,
       client_secret_hash = map_option (sha256_hex cr) secret,
       client_secret_prefix = map_option prefix secret,
       client_secret_expires_at = map_option (\<lambda>_. now + CLIENT_SECRET_TTL_DAYS * 86400) secret,
       client_name = reg_client_name reg, redirect_uris = reg_redirect_uris reg,
       token_endpoint_auth_method = reg_auth_method reg, grant_types = reg_grant_types reg,
       response_types = reg_response_types reg, oc_scope = reg_scope reg,
       oc_created_at = 0, oc_updated_at = None\<rparr>)"

text \<open>Pruning and making room are statements of their own: they stay when the insert fails.\<close>

definition register_client ::
  "Crates \<Rightarrow> Value \<Rightarrow> string \<Rightarrow> string \<Rightarrow> int \<Rightarrow> int \<Rightarrow> int option \<times> db
     \<Rightarrow> (int option \<times> db) \<times> (Error, OauthClient) result" where
  "register_client cr input rand_id rand_secret instant now server =
     (case check_registration cr input of
        Inl e \<Rightarrow> (server, Inl e)
      | Inr reg \<Rightarrow>
          (let (last_prune, d1) = prune_unused_clients False instant now (fst server) (snd server) in
           case make_room_for_client now d1 of
             Inl e \<Rightarrow> ((last_prune, d1), Inl e)
           | Inr d2 \<Rightarrow>
               (case insert_client (new_client cr reg rand_id rand_secret now) now d2 of
                  Inl e \<Rightarrow> ((last_prune, d2), Inl (DatabaseError e))
                | Inr (d3, client) \<Rightarrow> ((last_prune, d3), Inr client))))"

section \<open>Authorization requests\<close>

record GatewayAuthorizationRequest =
  gar_client :: OauthClient
  gar_redirect_uri :: string
  gar_state :: "string option"
  gar_code_challenge :: string
  gar_scopes :: string
  gar_resource :: string

definition redirect_error :: "string \<Rightarrow> string option \<Rightarrow> string \<Rightarrow> string \<Rightarrow> (Error, 'a) result" where
  "redirect_error redirect state code message =
     Inl (OauthError ((oauth_error code message)\<lparr>oe_redirect_uri := Some redirect, oe_state := state\<rparr>))"

definition parse_authorization_request ::
  "Crates \<Rightarrow> Config \<Rightarrow> (string \<times> Value) list \<Rightarrow> db \<Rightarrow> (Error, GatewayAuthorizationRequest) result" where
  "parse_authorization_request cr config input d =
     (case required_parameter (json_get input ''client_id'') of
        None \<Rightarrow> refuse ''invalid_request'' ''client_id is required''
      | Some c \<Rightarrow>
     (case find_client d c of
        None \<Rightarrow> refuse ''invalid_client'' ''Unknown OAuth client''
      | Some client \<Rightarrow>
     (case required_parameter (json_get input ''redirect_uri'') of
        None \<Rightarrow> refuse ''invalid_request'' ''Unregistered redirect_uri''
      | Some redirect \<Rightarrow>
          if \<not> list_ex (redirect_uri_matches (url_parse cr) redirect) (redirect_uris client)
          then refuse ''invalid_request'' ''Unregistered redirect_uri''
          else
           (let state = as_str (json_get input ''state'') in
            if as_str (json_get input ''response_type'') \<noteq> Some ''code''
            then redirect_error redirect state ''unsupported_response_type'' ''Only the code response type is supported''
            else case PKCE_CHALLENGE input of
              None \<Rightarrow> redirect_error redirect state ''invalid_request'' ''PKCE with the S256 method is required''
            | Some challenge \<Rightarrow>
           (case known_scopes (json_get input ''scope'') of
              None \<Rightarrow> redirect_error redirect state ''invalid_scope'' ''Unsupported OAuth scope''
            | Some scope \<Rightarrow>
                and_then (gateway_resource cr config) (\<lambda>gateway.
                if \<not> GATEWAY_RESOURCE (url_parse cr) gateway (json_get input ''resource'')
                then redirect_error redirect state ''invalid_target'' ''The OAuth resource must be the MyMCPs gateway''
                else if (case state of None \<Rightarrow> False | Some s \<Rightarrow> utf16_len s > 2048)
                then redirect_error redirect state ''invalid_request'' ''OAuth state is too long''
                else Inr \<lparr>gar_client = client, gar_redirect_uri = redirect, gar_state = state,
                          gar_code_challenge = challenge, gar_scopes = requested_scopes scope,
                          gar_resource = gateway\<rparr>))))))"

definition insert_code :: "OauthAuthorizationCode \<Rightarrow> int \<Rightarrow> db \<Rightarrow> (db_error, db) result" where
  "insert_code c now d =
     ensure (\<not> has_row (\<lambda>x. code_hash x = code_hash c) (authorization_codes d)) UniqueViolation
     (ensure (client_exists d (code_oauth_client_id c) \<and> user_exists d (code_user_id c)
              \<and> team_exists d (code_team_id c)) ForeignKeyViolation
     (Inr (d\<lparr>authorization_codes := append_row (\<lambda>i. c\<lparr>code_id := i, code_created_at := now\<rparr>)
              (authorization_codes d)\<rparr>)))"

definition create_authorization_code ::
  "Crates \<Rightarrow> GatewayAuthorizationRequest \<Rightarrow> int \<Rightarrow> int \<Rightarrow> bool \<Rightarrow> string \<Rightarrow> int \<Rightarrow> db
     \<Rightarrow> db \<times> (Error, string) result" where
  "create_authorization_code cr request user_id team_id manage_mcps plaintext now d =
     (if manage_mcps \<and> \<not> (case role_of d team_id user_id of None \<Rightarrow> False | Some role \<Rightarrow> is_admin role)
      then (d, redirect_error (gar_redirect_uri request) (gar_state request) ''invalid_request''
              ''Only team admins and owners can let an agent manage MCPs'')
      else
       (let d1 = d\<lparr>authorization_codes := del (\<lambda>c. code_expires_at c < now) (authorization_codes d)\<rparr> in
        case insert_code \<lparr>code_id = 0, code_hash = sha256_hex cr plaintext,
               code_oauth_client_id = oc_id (gar_client request), code_user_id = user_id,
               redirect_uri = gar_redirect_uri request, code_challenge = gar_code_challenge request,
               code_scopes = grant_scopes manage_mcps, code_resource = gar_resource request,
               code_expires_at = now + AUTHORIZATION_CODE_TTL_MINUTES * 60, code_created_at = 0,
               code_team_id = team_id\<rparr> now d1 of
          Inl e \<Rightarrow> (d1, Inl (DatabaseError e))
        | Inr d2 \<Rightarrow> (d2, Inr plaintext)))"

text \<open>
  The answer to a consent form of someone who is signed in: \<open>mine\<close> are their memberships, \<open>current\<close>
  the one they work in, \<open>team_id\<close> the id the form named (\<open>Some None\<close> when it is not an id). The
  result is where the browser goes.
\<close>

definition answer_consent ::
  "Crates \<Rightarrow> (Url \<Rightarrow> (string \<times> string) list) \<Rightarrow> (Url \<Rightarrow> (string \<times> string) list \<Rightarrow> string) \<Rightarrow> Config
     \<Rightarrow> User \<Rightarrow> Membership list \<Rightarrow> Membership \<Rightarrow> int option option \<Rightarrow> (string \<times> Value) list \<Rightarrow> string
     \<Rightarrow> int \<Rightarrow> db \<Rightarrow> db \<Rightarrow> db \<times> (Error, string) result" where
  "answer_consent cr query_pairs with_pairs config user mine current team_id input plaintext now d0 d =
     (let redirect = (\<lambda>uri params. case oauth_redirect (url_parse cr) query_pairs with_pairs uri params of
             None \<Rightarrow> Inl RedirectUri | Some l \<Rightarrow> Inr l) in
      case parse_authorization_request cr config input d0 of
        Inl e \<Rightarrow> (d, Inl e)
      | Inr request \<Rightarrow>
          if as_str (json_get input ''decision'') \<noteq> Some ''approve''
          then (d, redirect (gar_redirect_uri request)
                 [(''error'', Some ''access_denied''),
                  (''error_description'', Some ''The user denied the authorization request''),
                  (''state'', gar_state request)])
          else case (case team_id of
                       None \<Rightarrow> Some current
                     | Some None \<Rightarrow> None
                     | Some (Some i) \<Rightarrow> find (\<lambda>m. t_id (ms_team m) = i) mine) of
            None \<Rightarrow> (d, refuse ''invalid_request'' ''Unknown team'')
          | Some team \<Rightarrow>
              (case create_authorization_code cr request (u_id user) (t_id (ms_team team))
                      (as_str (json_get input ''manage_mcps'') = Some ''on'') plaintext now d of
                 (d1, Inl e) \<Rightarrow> (d1, Inl e)
               | (d1, Inr code) \<Rightarrow>
                   (d1, redirect (gar_redirect_uri request) [(''code'', Some code), (''state'', gar_state request)])))"

section \<open>The token endpoint\<close>

record ClientCredentials =
  cc_client_id :: string
  cc_client_secret :: "string option"
  cc_method :: string

definition hex_digit :: "char \<Rightarrow> nat option" where
  "hex_digit c =
     (let n = (of_char c :: nat) in
      if 48 \<le> n \<and> n \<le> 57 then Some (n - 48)
      else if 97 \<le> n \<and> n \<le> 102 then Some (n - 87)
      else if 65 \<le> n \<and> n \<le> 70 then Some (n - 55)
      else None)"

fun decode_hex :: "string \<Rightarrow> nat list" where
  "decode_hex (h # l # rest) =
     (case (hex_digit h, hex_digit l) of
        (Some a, Some b) \<Rightarrow> (16 * a + b) # decode_hex rest
      | _ \<Rightarrow> [])"
| "decode_hex _ = []"

definition secure_secret_match :: "Crates \<Rightarrow> string \<Rightarrow> string \<Rightarrow> bool" where
  "secure_secret_match cr plaintext expected_hash =
     (let actual = decode_hex (sha256_hex cr plaintext); expected = decode_hex expected_hash in
      length actual = length expected \<and> actual = expected)"

definition posted_client_credentials :: "(string \<times> Value) list \<Rightarrow> ClientCredentials option" where
  "posted_client_credentials input =
     (case required_parameter (json_get input ''client_id'') of
        None \<Rightarrow> None
      | Some c \<Rightarrow>
          (let secret = non_empty (as_str (json_get input ''client_secret'')) in
           Some \<lparr>cc_client_id = c, cc_client_secret = secret,
                 cc_method = (if secret \<noteq> None then ''client_secret_post'' else ''none'')\<rparr>))"

definition authenticate_client ::
  "Crates \<Rightarrow> ClientCredentials option \<Rightarrow> (string \<times> Value) list \<Rightarrow> int \<Rightarrow> db \<Rightarrow> (Error, OauthClient) result" where
  "authenticate_client cr basic input now d =
     (case (case basic of None \<Rightarrow> posted_client_credentials input | Some b \<Rightarrow> Some b) of
        None \<Rightarrow> Inl (OauthError (with_status ''invalid_client'' ''OAuth client authentication is required'' 401))
      | Some credentials \<Rightarrow>
          (let invalid_credentials =
             Inl (OauthError (with_status ''invalid_client'' ''Invalid OAuth client credentials'' 401)) in
           case find_client d (cc_client_id credentials) of
             None \<Rightarrow> invalid_credentials
           | Some client \<Rightarrow>
               if token_endpoint_auth_method client \<noteq> cc_method credentials then invalid_credentials
               else case non_empty (client_secret_hash client) of
                 None \<Rightarrow> Inr client
               | Some secret_hash \<Rightarrow>
                   (let secret_matches = (case non_empty (cc_client_secret credentials) of
                          None \<Rightarrow> False | Some secret \<Rightarrow> secure_secret_match cr secret secret_hash);
                        secret_expired = (case client_secret_expires_at client of
                          None \<Rightarrow> False | Some e \<Rightarrow> e \<le> now) in
                    if \<not> secret_matches \<or> secret_expired then invalid_credentials else Inr client)))"

record AuthorizationCodeExchange =
  ex_client :: OauthClient
  ex_code :: string
  ex_code_verifier :: string
  ex_redirect_uri :: string
  ex_resource :: string

text \<open>What an exchange reads before its transaction.\<close>

definition exchange_read ::
  "Crates \<Rightarrow> Config \<Rightarrow> AuthorizationCodeExchange \<Rightarrow> int \<Rightarrow> db \<Rightarrow> (Error, OauthAuthorizationCode) result" where
  "exchange_read cr config params now d =
     and_then (gateway_resource cr config) (\<lambda>gateway.
     (let malformed_verifier = (\<not> PKCE_VERIFIER (ex_code_verifier params));
          foreign_resource = (\<not> GATEWAY_RESOURCE (url_parse cr) gateway (Some (JString (ex_resource params))));
          invalid_grant = refuse ''invalid_grant'' ''Invalid or expired authorization code'' in
      case find_row (\<lambda>c. code_hash c = sha256_hex cr (ex_code params)) (authorization_codes d) of
        None \<Rightarrow> invalid_grant
      | Some c \<Rightarrow>
          if \<not> malformed_verifier \<and> \<not> foreign_resource
             \<and> code_oauth_client_id c = oc_id (ex_client params)
             \<and> code_expires_at c > now
             \<and> redirect_uri c = ex_redirect_uri params
             \<and> same_url (url_parse cr) (code_resource c) (ex_resource params)
             \<and> verify_code_challenge cr (ex_code_verifier params) (code_challenge c)
          then Inr c else invalid_grant))"

definition code_grant :: "OauthClient \<Rightarrow> OauthAuthorizationCode \<Rightarrow> NewOauthGrant" where
  "code_grant client c =
     \<lparr>ng_name = client_name client, ng_client_id = oc_id client,
      ng_client_supports_refresh = list_ex (\<lambda>g. g = ''refresh_token'') (grant_types client),
      ng_scopes = code_scopes c, ng_resource = code_resource c,
      ng_created_by = code_user_id c, ng_team_id = code_team_id c\<rparr>"

definition exchange_commit ::
  "Crates \<Rightarrow> OauthClient \<Rightarrow> OauthAuthorizationCode \<Rightarrow> string \<Rightarrow> string \<Rightarrow> int \<Rightarrow> db
     \<Rightarrow> (Error, db \<times> CreatedOauthTokens) result" where
  "exchange_commit cr client c plaintext fresh_refresh now d =
     (let deleted = count_rows (\<lambda>x. code_id x = code_id c) (authorization_codes d);
          d1 = d\<lparr>authorization_codes := del (\<lambda>x. code_id x = code_id c) (authorization_codes d)\<rparr> in
      ensure (deleted = 1) (OauthError (oauth_error ''invalid_grant'' ''Authorization code was already used''))
      (database (create_oauth_grant (sha256_hex cr) (code_grant client c) plaintext fresh_refresh now d1)))"

definition exchange_authorization_code ::
  "Crates \<Rightarrow> Config \<Rightarrow> AuthorizationCodeExchange \<Rightarrow> string \<Rightarrow> string \<Rightarrow> int \<Rightarrow> db
     \<Rightarrow> (Error, db \<times> CreatedOauthTokens) result" where
  "exchange_authorization_code cr config params plaintext fresh_refresh now d =
     and_then (exchange_read cr config params now d) (\<lambda>c.
     exchange_commit cr (ex_client params) c plaintext fresh_refresh now d)"

record RefreshTokenExchange =
  rx_client :: OauthClient
  rx_refresh_token :: string
  rx_scope :: "string option"
  rx_resource :: string

definition exchange_refresh_token ::
  "Crates \<Rightarrow> Config \<Rightarrow> RefreshTokenExchange \<Rightarrow> string \<Rightarrow> string \<Rightarrow> int \<Rightarrow> db
     \<Rightarrow> db \<times> (Error, CreatedOauthTokens) result" where
  "exchange_refresh_token cr config params plaintext next_refresh now d =
     (if \<not> list_ex (\<lambda>g. g = ''refresh_token'') (grant_types (rx_client params))
      then (d, refuse ''unauthorized_client'' ''This OAuth client cannot refresh tokens'')
      else case known_scopes (map_option JString (rx_scope params)) of
        None \<Rightarrow> (d, refuse ''invalid_scope'' ''Unsupported OAuth scope'')
      | Some requested \<Rightarrow>
     (case gateway_resource cr config of
        Inl e \<Rightarrow> (d, Inl e)
      | Inr gateway \<Rightarrow>
          if \<not> GATEWAY_RESOURCE (url_parse cr) gateway (Some (JString (rx_resource params)))
          then (d, refuse ''invalid_target'' ''The OAuth resource must be the MyMCPs gateway'')
          else
           (let (d1, rotation) = rotate_oauth_grant (sha256_hex cr) (rx_refresh_token params)
                  (oc_id (rx_client params)) gateway (case requested of None \<Rightarrow> [] | Some names \<Rightarrow> names)
                  plaintext next_refresh now d in
            (d1, and_then (database rotation) (\<lambda>r. case r of
               Rotated tokens \<Rightarrow> Inr tokens
             | ScopeExceeded \<Rightarrow> refuse ''invalid_scope'' ''Unsupported OAuth scope''
             | RotationInvalid \<Rightarrow> refuse ''invalid_grant'' ''Invalid, expired, or revoked refresh token''
             | Reused \<Rightarrow> refuse ''invalid_grant'' ''Invalid, expired, or revoked refresh token'')))))"

text \<open>The first parameter that is missing is named by the error.\<close>

fun required_parameters :: "string list \<Rightarrow> (string \<times> Value) list \<Rightarrow> (Error, unit) result" where
  "required_parameters [] input = Inr ()"
| "required_parameters (f # fs) input =
     (case required_parameter (json_get input f) of
        None \<Rightarrow> refuse ''invalid_request'' (f @ '' is required'')
      | Some _ \<Rightarrow> required_parameters fs input)"

definition parameter :: "(string \<times> Value) list \<Rightarrow> string \<Rightarrow> string" where
  "parameter input f = (case as_str (json_get input f) of None \<Rightarrow> [] | Some s \<Rightarrow> s)"

definition issue_tokens ::
  "Crates \<Rightarrow> Config \<Rightarrow> ClientCredentials option \<Rightarrow> (string \<times> Value) list \<Rightarrow> string \<Rightarrow> string \<Rightarrow> int \<Rightarrow> db
     \<Rightarrow> db \<times> (Error, CreatedOauthTokens) result" where
  "issue_tokens cr config basic input plaintext fresh_refresh now d =
     (case authenticate_client cr basic input now d of
        Inl e \<Rightarrow> (d, Inl e)
      | Inr client \<Rightarrow>
     (case required_parameters [''grant_type''] input of
        Inl e \<Rightarrow> (d, Inl e)
      | Inr _ \<Rightarrow>
          if parameter input ''grant_type'' = ''authorization_code''
          then (case required_parameters [''code'', ''code_verifier'', ''redirect_uri'', ''resource''] input of
                  Inl e \<Rightarrow> (d, Inl e)
                | Inr _ \<Rightarrow>
                    (case exchange_authorization_code cr config
                            \<lparr>ex_client = client, ex_code = parameter input ''code'',
                             ex_code_verifier = parameter input ''code_verifier'',
                             ex_redirect_uri = parameter input ''redirect_uri'',
                             ex_resource = parameter input ''resource''\<rparr> plaintext fresh_refresh now d of
                       Inl e \<Rightarrow> (d, Inl e)
                     | Inr (d1, tokens) \<Rightarrow> (d1, Inr tokens)))
          else if parameter input ''grant_type'' = ''refresh_token''
          then (case required_parameters [''refresh_token'', ''resource''] input of
                  Inl e \<Rightarrow> (d, Inl e)
                | Inr _ \<Rightarrow>
                    exchange_refresh_token cr config
                      \<lparr>rx_client = client, rx_refresh_token = parameter input ''refresh_token'',
                       rx_scope = as_str (json_get input ''scope''),
                       rx_resource = parameter input ''resource''\<rparr> plaintext fresh_refresh now d)
          else (d, refuse ''unsupported_grant_type''
                 ''Only authorization_code and refresh_token grants are supported'')))"

definition revoke_token ::
  "Crates \<Rightarrow> ClientCredentials option \<Rightarrow> (string \<times> Value) list \<Rightarrow> int \<Rightarrow> db \<Rightarrow> db \<times> (Error, unit) result" where
  "revoke_token cr basic input now d =
     (case authenticate_client cr basic input now d of
        Inl e \<Rightarrow> (d, Inl e)
      | Inr client \<Rightarrow>
     (case required_parameters [''token''] input of
        Inl e \<Rightarrow> (d, Inl e)
      | Inr _ \<Rightarrow>
          (revoke_oauth_token (sha256_hex cr) (oc_id client) (parameter input ''token'') now d, Inr ())))"

section \<open>The bound on clients\<close>

lemma delete_clients_rows:
  "rows (oauth_clients (delete_clients P d)) = delete_where P (rows (oauth_clients d))"
  "table_ok oc_id (oauth_clients d) \<Longrightarrow> table_ok oc_id (oauth_clients (delete_clients P d))"
  by (simp_all add: delete_clients_def Let_def table_ok_del)

text \<open>Deleting unused clients leaves the others as they were, and in use.\<close>

lemma delete_clients_spares:
  assumes "table_ok oc_id (oauth_clients d)" and "\<And>x. P x \<Longrightarrow> unused_client d s now x"
    and "c \<in> set (rows (oauth_clients d))" and "\<not> unused_client d s now c"
  shows "c \<in> set (rows (oauth_clients (delete_clients P d)))"
    and "\<not> unused_client (delete_clients P d) s now c"
proof -
  have "\<not> P c" using assms(2,4) by blast
  then show "c \<in> set (rows (oauth_clients (delete_clients P d)))"
    using assms(3) by (simp add: delete_clients_rows delete_where_def)
  have kept: "oc_id c \<notin> oc_id ` {x \<in> set (rows (oauth_clients d)). P x}"
  proof
    assume "oc_id c \<in> oc_id ` {x \<in> set (rows (oauth_clients d)). P x}"
    then obtain x where "x \<in> set (rows (oauth_clients d))" "P x" "oc_id x = oc_id c" by auto
    then show False
      using table_ok_unique [OF assms(1), of x c] assms(3) \<open>\<not> P c\<close> by simp
  qed
  define G where "G = oc_id ` {x \<in> set (rows (oauth_clients d)). P x}"
  have c: "oc_id c \<notin> G" using kept by (simp add: G_def)
  have eqs: "authorization_codes (delete_clients P d) = del (\<lambda>x. code_oauth_client_id x \<in> G) (authorization_codes d)"
    "access_tokens (delete_clients P d) = upd (\<lambda>a. case at_oauth_client_id a of None \<Rightarrow> False | Some i \<Rightarrow> i \<in> G)
          (\<lambda>a. a\<lparr>at_oauth_client_id := None\<rparr>) (access_tokens d)"
    by (simp_all add: delete_clients_def Let_def G_def cong: option.case_cong)
  have codes: "has_row (\<lambda>x. code_oauth_client_id x = oc_id c \<and> Q x) (authorization_codes (delete_clients P d)) \<longleftrightarrow>
      has_row (\<lambda>x. code_oauth_client_id x = oc_id c \<and> Q x) (authorization_codes d)" for Q
    unfolding eqs has_row_del using c by (simp add: has_row_iff) metis
  have "has_row (\<lambda>a. at_oauth_client_id a = Some (oc_id c) \<and> Q a) (access_tokens (delete_clients P d)) \<longleftrightarrow>
      has_row (\<lambda>a. at_oauth_client_id a = Some (oc_id c) \<and> Q a) (access_tokens d)" for Q
    unfolding eqs using c by (auto simp: has_row_iff bex_update_where_if split: option.splits if_splits)
  with codes show "\<not> unused_client (delete_clients P d) s now c"
    using assms(4) unfolding unused_client_def by simp
qed

lemma make_room_length:
  assumes "table_ok oc_id (oauth_clients d)" and "make_room_for_client now d = Inr d'"
  shows "length (rows (oauth_clients d')) \<le> 999"
proof (cases "int (length (rows (oauth_clients d))) - MAX_OAUTH_CLIENTS + 1 \<le> 0")
  case True
  then show ?thesis
    using assms(2) by (simp add: make_room_for_client_def MAX_OAUTH_CLIENTS_def)
next
  case False
  let ?rs = "rows (oauth_clients d)"
  let ?U = "unused_client d (now - UNUSED_CLIENT_RETENTION_DAYS * 86400) now"
  let ?n = "nat (int (length ?rs) - MAX_OAUTH_CLIENTS + 1)"
  define ev where "ev = take ?n (map oc_id (filter ?U ?rs))"
  let ?P = "\<lambda>c. ?U c \<and> oc_id c \<in> set ev"
  have len: "length ev = ?n" and d': "d' = delete_clients ?P d"
    using assms(2) False by (auto simp: make_room_for_client_def Let_def ev_def split: if_splits)
  have ids: "distinct (map oc_id ?rs)"
    by (rule table_ok_distinct [OF assms(1)])
  have "set ev \<subseteq> set (map oc_id (filter ?U ?rs))"
    unfolding ev_def by (rule set_take_subset)
  then have "set (map oc_id (filter ?P ?rs)) = set ev"
    unfolding set_map set_filter by blast
  moreover have "distinct ev" "distinct (map oc_id (filter ?P ?rs))"
    using ids by (simp_all add: ev_def distinct_map_filter distinct_take)
  ultimately have "length (map oc_id (filter ?P ?rs)) = length ev"
    by (metis distinct_card)
  then have "length (filter ?P ?rs) = ?n"
    using len by simp
  moreover have "length (filter (\<lambda>c. \<not> ?P c) ?rs) + length (filter ?P ?rs) = length ?rs"
    using sum_length_filter_compl [of ?P ?rs] by simp
  ultimately have "int (length (rows (oauth_clients d'))) = 999"
    using False by (simp add: d' delete_clients_rows delete_where_def MAX_OAUTH_CLIENTS_def)
  then show ?thesis by simp
qed

text \<open>At most the thousand clients the server keeps, with ids as the table gives them.\<close>

definition clients_bounded :: "int option \<times> db \<Rightarrow> bool" where
  "clients_bounded server \<longleftrightarrow> table_ok oc_id (oauth_clients (snd server))
     \<and> length (rows (oauth_clients (snd server))) \<le> 1000"

lemma prune_cases:
  assumes "prune_unused_clients force instant now last_prune d = (l, d')"
  shows "d' = d \<or> (\<exists>P. d' = delete_clients P d \<and>
     (\<forall>c. P c \<longrightarrow> unused_client d (now - UNUSED_CLIENT_RETENTION_DAYS * 86400) now c))"
proof -
  let ?P = "\<lambda>c. unused_client d (now - UNUSED_CLIENT_RETENTION_DAYS * 86400) now c
      \<and> oc_created_at c < now - UNUSED_CLIENT_RETENTION_DAYS * 86400"
  have "d' = d \<or> d' = delete_clients ?P d"
    using assms by (auto simp: prune_unused_clients_def Let_def split: if_splits)
  then show ?thesis
  proof
    assume "d' = delete_clients ?P d"
    then show ?thesis by (intro disjI2 exI [of _ ?P]) simp
  qed simp
qed

lemma make_room_cases:
  assumes "make_room_for_client now d = Inr d'"
  shows "d' = d \<or> (\<exists>P. d' = delete_clients P d \<and>
     (\<forall>c. P c \<longrightarrow> unused_client d (now - UNUSED_CLIENT_RETENTION_DAYS * 86400) now c))"
proof -
  let ?U = "unused_client d (now - UNUSED_CLIENT_RETENTION_DAYS * 86400) now"
  have "d' = d \<or> (\<exists>ev. d' = delete_clients (\<lambda>c. ?U c \<and> oc_id c \<in> set ev) d)"
    using assms by (auto simp: make_room_for_client_def Let_def split: if_splits)
  then show ?thesis
  proof
    assume "\<exists>ev. d' = delete_clients (\<lambda>c. ?U c \<and> oc_id c \<in> set ev) d"
    then obtain ev where "d' = delete_clients (\<lambda>c. ?U c \<and> oc_id c \<in> set ev) d" ..
    then show ?thesis by (intro disjI2 exI [of _ "\<lambda>c. ?U c \<and> oc_id c \<in> set ev"]) simp
  qed simp
qed

text \<open>What a registration leaves: clients that were deleted were unused, and one may be new.\<close>

lemma register_cases:
  assumes "register_client cr input rand_id rand_secret instant now server = (server', r)"
  obtains (refused) e where "check_registration cr input = Inl e" "server' = server" "r = Inl e"
  | (full) reg l d1 e where "check_registration cr input = Inr reg"
      "prune_unused_clients False instant now (fst server) (snd server) = (l, d1)"
      "make_room_for_client now d1 = Inl e" "server' = (l, d1)" "r = Inl e"
  | (clash) reg l d1 d2 e where "check_registration cr input = Inr reg"
      "prune_unused_clients False instant now (fst server) (snd server) = (l, d1)"
      "make_room_for_client now d1 = Inr d2" "server' = (l, d2)" "r = Inl (DatabaseError e)"
  | (registered) reg l d1 d2 d3 c where "check_registration cr input = Inr reg"
      "prune_unused_clients False instant now (fst server) (snd server) = (l, d1)"
      "make_room_for_client now d1 = Inr d2"
      "insert_client (new_client cr reg rand_id rand_secret now) now d2 = Inr (d3, c)"
      "server' = (l, d3)" "r = Inr c"
  using assms unfolding register_client_def
  by (auto simp: Let_def split: sum.splits prod.splits)

lemma prune_bounded:
  assumes "prune_unused_clients force instant now l d = (l', d')" and "clients_bounded (l, d)"
  shows "clients_bounded (l', d')"
  using prune_cases [OF assms(1)] assms(2)
  by (auto simp: clients_bounded_def delete_clients_rows delete_where_def intro: le_trans [OF length_filter_le])

lemma make_room_bounded:
  assumes "make_room_for_client now d = Inr d'" and "clients_bounded (l, d)"
  shows "clients_bounded (l, d')" and "length (rows (oauth_clients d')) \<le> 999"
  using make_room_cases [OF assms(1)] make_room_length [OF _ assms(1)] assms(2)
  by (auto simp: clients_bounded_def delete_clients_rows)

lemma insert_client_ok:
  assumes "insert_client c now d = Inr (d', c')"
  shows "rows (oauth_clients d') = rows (oauth_clients d) @ [c']"
    and "c' = c\<lparr>oc_id := seq (oauth_clients d) + 1, oc_created_at := now, oc_updated_at := Some now\<rparr>"
    and "table_ok oc_id (oauth_clients d) \<Longrightarrow> table_ok oc_id (oauth_clients d')"
  using assms by (auto simp: insert_client_def Let_def result_simps table_ok_append)

lemma register_bounded:
  assumes "register_client cr input rand_id rand_secret instant now server = (server', r)" and "clients_bounded server"
  shows "clients_bounded server'"
  using assms(1)
proof (cases rule: register_cases)
  case refused
  then show ?thesis using assms(2) by simp
next
  case full
  then show ?thesis using prune_bounded assms(2) by (metis prod.collapse)
next
  case clash
  then show ?thesis using prune_bounded make_room_bounded assms(2) by (metis prod.collapse)
next
  case (registered reg l d1 d2 d3 c)
  have "clients_bounded (l, d2)" "length (rows (oauth_clients d2)) \<le> 999"
    using prune_bounded [OF registered(2)] make_room_bounded [OF registered(3)] assms(2) by simp_all
  then show ?thesis
    using insert_client_ok [OF registered(4)] registered(5) by (simp add: clients_bounded_def)
qed

text \<open>Every registration anyone may ask for.\<close>

inductive registration_step :: "Crates \<Rightarrow> int option \<times> db \<Rightarrow> int option \<times> db \<Rightarrow> bool" for cr where
  registration: "register_client cr input rand_id rand_secret instant now server = (server', r) \<Longrightarrow>
     registration_step cr server server'"

inductive_cases registration_stepE: "registration_step cr server server'"

interpretation registrations: invariant_system "registration_step cr" clients_bounded for cr
  by unfold_locales (auto elim!: registration_stepE intro: register_bounded)

lemma register_spares:
  assumes "register_client cr input rand_id rand_secret instant now (pruned, d) = ((pruned', d'), r)"
    and "table_ok oc_id (oauth_clients d)" and "c \<in> set (rows (oauth_clients d))"
    and "\<not> unused_client d (now - UNUSED_CLIENT_RETENTION_DAYS * 86400) now c"
  shows "c \<in> set (rows (oauth_clients d'))"
proof -
  let ?s = "now - UNUSED_CLIENT_RETENTION_DAYS * 86400"
  have after_prune: "c \<in> set (rows (oauth_clients d1)) \<and> \<not> unused_client d1 ?s now c \<and> table_ok oc_id (oauth_clients d1)"
    if "prune_unused_clients False instant now pruned d = (l1, d1)" for l1 d1
    using prune_cases [OF that] assms(2-4) delete_clients_spares [OF assms(2) _ assms(3,4)]
    by (auto simp: delete_clients_rows(2))
  have after_room: "c \<in> set (rows (oauth_clients d2))"
    if "prune_unused_clients False instant now pruned d = (l1, d1)" "make_room_for_client now d1 = Inr d2" for l1 d1 d2
    using make_room_cases [OF that(2)] after_prune [OF that(1)] delete_clients_spares(1) [of d1 _ ?s now c] by blast
  from assms(1) show ?thesis
  proof (cases rule: register_cases)
    case refused
    then show ?thesis using assms(3) by simp
  next
    case full
    then show ?thesis using after_prune by simp
  next
    case clash
    then show ?thesis using after_room by simp
  next
    case (registered reg l d1 d2 d3 c')
    then show ?thesis
      using after_room insert_client_ok(1) [OF registered(4)] by simp
  qed
qed

section \<open>What is registered\<close>

lemma text_items_Some: "text_items P xs = Some ys \<Longrightarrow> xs = map JString ys \<and> list_all P ys"
proof (induction xs arbitrary: ys)
  case (Cons x xs)
  then show ?case by (cases x) (auto split: if_splits)
qed simp

lemma text_array_Some: "text_array P v = Some ys \<Longrightarrow> list_all P ys"
  by (auto simp: text_array_def split: option.splits Value.splits dest: text_items_Some)

lemma check_registration_ok:
  assumes "check_registration cr input = Inr reg"
  shows "list_all (redirect_target (url_parse cr)) (reg_redirect_uris reg)"
    and "1 \<le> length (reg_redirect_uris reg)" and "length (reg_redirect_uris reg) \<le> 10"
    and "reg_auth_method reg \<in> set AUTH_METHODS" and "set (reg_grant_types reg) \<subseteq> set GRANT_TYPES"
    and "''authorization_code'' \<in> set (reg_grant_types reg)"
proof -
  obtain m where uris: "CLIENT_REDIRECT_URIS (url_parse cr) (json_get m ''redirect_uris'') = Some (reg_redirect_uris reg)"
    and meth: "CLIENT_AUTH_METHOD (json_get m ''token_endpoint_auth_method'') = Some (reg_auth_method reg)"
    and types: "CLIENT_GRANT_TYPES (json_get m ''grant_types'') = Some (reg_grant_types reg)"
    using assms by (auto simp: check_registration_def split: option.splits)
  show "list_all (redirect_target (url_parse cr)) (reg_redirect_uris reg)"
    "1 \<le> length (reg_redirect_uris reg)" "length (reg_redirect_uris reg) \<le> 10"
    using uris by (auto simp: CLIENT_REDIRECT_URIS_def list_all_iff split: option.splits if_splits dest!: text_array_Some)
  show "reg_auth_method reg \<in> set AUTH_METHODS"
    using meth by (auto simp: CLIENT_AUTH_METHOD_def split: option.splits if_splits)
  show "set (reg_grant_types reg) \<subseteq> set GRANT_TYPES" "''authorization_code'' \<in> set (reg_grant_types reg)"
    using types by (auto simp: CLIENT_GRANT_TYPES_def list_all_iff split: option.splits if_splits dest!: text_array_Some)
qed

section \<open>Authorization codes are good for one exchange\<close>

definition code_spent :: "int \<Rightarrow> db \<Rightarrow> bool" where
  "code_spent i d \<longleftrightarrow> i \<le> seq (authorization_codes d) \<and> \<not> has_row (\<lambda>x. code_id x = i) (authorization_codes d)"

fun exchange_attempt ::
  "Crates \<Rightarrow> OauthClient \<times> OauthAuthorizationCode \<times> string \<times> string \<times> int \<Rightarrow> db \<Rightarrow> db \<times> bool" where
  "exchange_attempt cr (client, c, plaintext, fresh, now) d =
     (case exchange_commit cr client c plaintext fresh now d of
        Inl e \<Rightarrow> (d, False) | Inr (d', tokens) \<Rightarrow> (d', True))"

lemma create_grant_codes:
  "create_oauth_grant sha params p f now d = Inr (d', tokens) \<Longrightarrow> authorization_codes d' = authorization_codes d"
  by (auto simp: create_oauth_grant_def insert_token_def result_simps Let_def)

lemma exchange_commit_Inr:
  assumes "exchange_commit cr client c p f now d = Inr (d', tokens)"
  shows "authorization_codes d' = del (\<lambda>x. code_id x = code_id c) (authorization_codes d)"
    and "has_row (\<lambda>x. code_id x = code_id c) (authorization_codes d)"
    and "create_oauth_grant (sha256_hex cr) (code_grant client c) p f now
         (d\<lparr>authorization_codes := del (\<lambda>x. code_id x = code_id c) (authorization_codes d)\<rparr>) = Inr (d', tokens)"
proof -
  let ?d1 = "d\<lparr>authorization_codes := del (\<lambda>x. code_id x = code_id c) (authorization_codes d)\<rparr>"
  have one: "count_rows (\<lambda>x. code_id x = code_id c) (authorization_codes d) = 1"
    and grant: "create_oauth_grant (sha256_hex cr) (code_grant client c) p f now ?d1 = Inr (d', tokens)"
    using assms by (simp_all add: exchange_commit_def Let_def result_simps)
  show "create_oauth_grant (sha256_hex cr) (code_grant client c) p f now ?d1 = Inr (d', tokens)"
    by (fact grant)
  show "authorization_codes d' = del (\<lambda>x. code_id x = code_id c) (authorization_codes d)"
    using create_grant_codes [OF grant] by simp
  show "has_row (\<lambda>x. code_id x = code_id c) (authorization_codes d)"
    using one count_where_pos_iff [of "\<lambda>x. code_id x = code_id c" "rows (authorization_codes d)"]
    by (auto simp: count_rows_def has_row_iff)
qed

lemma exchange_commit_spent:
  assumes "code_spent i d" and "exchange_commit cr client c p f now d = Inr (d', tokens)"
  shows "code_id c \<noteq> i" and "code_spent i d'"
  using assms(1) exchange_commit_Inr(1,2) [OF assms(2)] by (auto simp: code_spent_def has_row_del) (auto simp: has_row_iff)

lemma exchange_commit_spends:
  assumes "table_ok code_id (authorization_codes d)" and "exchange_commit cr client c p f now d = Inr (d', tokens)"
  shows "code_spent (code_id c) d'"
proof -
  obtain x where "x \<in> set (rows (authorization_codes d))" "code_id x = code_id c"
    using exchange_commit_Inr(2) [OF assms(2)] by (auto simp: has_row_iff)
  then have "code_id c \<le> seq (authorization_codes d)"
    using assms(1) unfolding table_ok_def by metis
  then show ?thesis
    unfolding code_spent_def exchange_commit_Inr(1) [OF assms(2)] has_row_del by (simp add: has_row_iff)
qed

interpretation code: one_shot "exchange_attempt cr" "\<lambda>(client, c, plaintext, fresh, now). code_id c"
  code_spent "\<lambda>d. table_ok code_id (authorization_codes d)" for cr
proof (standard, goal_cases)
  case (1 d a)
  obtain cl c p f t where a: "a = (cl, c, p, f, t)" by (cases a)
  show ?case
    using 1 exchange_commit_Inr(1) [of cr cl c p f t d] by (auto simp: a table_ok_del split: sum.splits)
next
  case (2 d a)
  obtain cl c p f t where a: "a = (cl, c, p, f, t)" by (cases a)
  show ?case
    using 2 exchange_commit_spends [of d cr cl c p f t] by (auto simp: a split: sum.splits)
next
  case (3 d a)
  obtain cl c p f t where a: "a = (cl, c, p, f, t)" by (cases a)
  show ?case
    using 3 exchange_commit_spent(1) [of "code_id c" d cr cl c p f t] by (auto simp: a split: sum.splits)
next
  case (4 d k a)
  obtain cl c p f t where a: "a = (cl, c, p, f, t)" by (cases a)
  show ?case
    using 4 exchange_commit_spent(2) [of k d cr cl c p f t] by (auto simp: a split: sum.splits)
qed

section \<open>A small instance\<close>

definition hex_of :: "nat \<Rightarrow> char" where
  "hex_of n = (if n < 10 then char_of (48 + n) else char_of (87 + n))"

text \<open>In place of the crates: every text that starts like an https URL is one, hashing is writing in
  hexadecimal, and a challenge is its verifier.\<close>

definition sample_crates :: Crates where
  "sample_crates =
     \<lparr>url_parse = (\<lambda>s. if take 8 s = ''https://''
        then Some \<lparr>url_text = s, scheme = ''https'', host_str = Some ''h'', path = ''/'', query = None,
                   fragment = None, username = [], url_password = None\<rparr> else None),
      url_origin = url_text,
      sha256_hex = (\<lambda>s. concat (map (\<lambda>c. [hex_of (of_char c div 16), hex_of (of_char c mod 16)]) s)),
      s256 = (\<lambda>s. s)\<rparr>"

definition sample_config :: Config where
  "sample_config = \<lparr>app_url = Some ''https://a'', is_development = False, is_test = False\<rparr>"

definition sample_challenge :: string where
  "sample_challenge = replicate 43 (CHR ''x'')"

definition sample_client :: OauthClient where
  "sample_client =
     \<lparr>oc_id = 1, client_id = ''cl'', client_secret_hash = Some ''7365'', client_secret_prefix = None,
      client_secret_expires_at = Some 900, client_name = ''App'', redirect_uris = [''https://c/cb''],
      token_endpoint_auth_method = ''client_secret_post'', grant_types = [''authorization_code''],
      response_types = [''code''], oc_scope = ''mcp:tools'', oc_created_at = 1, oc_updated_at = None\<rparr>"

definition sample_code :: OauthAuthorizationCode where
  "sample_code =
     \<lparr>code_id = 1, code_hash = ''63'', code_oauth_client_id = 1, code_user_id = 2,
      redirect_uri = ''https://c/cb'', code_challenge = sample_challenge, code_scopes = ''mcp:tools'',
      code_resource = ''https://a/mcp'', code_expires_at = 400, code_created_at = 10, code_team_id = 1\<rparr>"

definition oauth_db :: db where
  "oauth_db = sample_db\<lparr>oauth_clients := \<lparr>rows = [sample_client], seq = 1\<rparr>,
     authorization_codes := \<lparr>rows = [sample_code], seq = 1\<rparr>\<rparr>"

definition sample_query :: "(string \<times> Value) list" where
  "sample_query =
     [(''client_id'', JString ''cl''), (''redirect_uri'', JString ''https://c/cb''), (''response_type'', JString ''code''),
      (''code_challenge'', JString sample_challenge), (''code_challenge_method'', JString ''S256''),
      (''scope'', JString ''mcp:tools''), (''resource'', JString ''https://a/mcp''), (''decision'', JString ''approve''),
      (''manage_mcps'', JString ''on'')]"

section \<open>Properties\<close>

text \<open>The server never keeps more than a thousand clients. However many registrations arrive one
  after the other, with whatever metadata, the table of clients stays within the bound.\<close>

theorem registration_bounded:
  assumes "(registration_step cr)\<^sup>*\<^sup>* server server'" and "clients_bounded server"
  shows "length (rows (oauth_clients (snd server'))) \<le> 1000"
  using registrations.reachable_inv [OF assms] by (simp add: clients_bounded_def)

theorem registration_bounded_witness:
  "\<exists>server'. registration_step sample_crates (None, oauth_db) server'
     \<and> length (rows (oauth_clients (snd server'))) \<le> 1000"
proof -
  let ?r = "register_client sample_crates (JObject [(''redirect_uris'', JArray [JString ''https://c/cb''])]) ''r'' ''s'' 5 20
      (None, oauth_db)"
  have step: "registration_step sample_crates (None, oauth_db) (fst ?r)"
    by (rule registration [where r = "snd ?r"]) simp
  moreover have "clients_bounded (None, oauth_db)" by code_simp
  ultimately show ?thesis
    using registration_bounded [OF r_into_rtranclp [of "registration_step sample_crates"]] by blast
qed

text \<open>Making room for a client never takes one that is in use. A client with a pending code, a token
  that still works, or a token issued or used in the last ninety days is still registered, as it
  was, after any registration.\<close>

theorem registration_spares_used:
  assumes "register_client cr input rand_id rand_secret instant now (pruned, d) = ((pruned', d'), r)"
    and "table_ok oc_id (oauth_clients d)" and "c \<in> set (rows (oauth_clients d))"
    and "(\<exists>x \<in> set (rows (authorization_codes d)). code_oauth_client_id x = oc_id c \<and> now < code_expires_at x)
       \<or> (\<exists>a \<in> set (rows (access_tokens d)). at_oauth_client_id a = Some (oc_id c) \<and>
            ((\<exists>t. at_updated_at a = Some t \<and> now - 90 * 86400 \<le> t)
             \<or> (revoked_at a = None \<and> (\<exists>e. (expires_at a = Some e \<or> oauth_refresh_expires_at a = Some e) \<and> now < e))))"
  shows "c \<in> set (rows (oauth_clients d'))"
proof (rule register_spares [OF assms(1-3)])
  show "\<not> unused_client d (now - UNUSED_CLIENT_RETENTION_DAYS * 86400) now c"
    using assms(4) unfolding unused_client_def UNUSED_CLIENT_RETENTION_DAYS_def later_def has_row_iff
    by (fastforce split: option.splits)
qed

theorem registration_spares_used_witness:
  "sample_client \<in> set (rows (oauth_clients (snd (fst (register_client sample_crates
      (JObject [(''redirect_uris'', JArray [JString ''https://c/cb''])]) ''r'' ''s'' 5 20 (None, oauth_db))))))"
proof -
  have t: "table_ok oc_id (oauth_clients oauth_db)" by code_simp
  have c: "sample_client \<in> set (rows (oauth_clients oauth_db))" by (simp add: oauth_db_def)
  have u: "(\<exists>x \<in> set (rows (authorization_codes oauth_db)). code_oauth_client_id x = oc_id sample_client \<and> 20 < code_expires_at x)"
    by (simp add: oauth_db_def sample_code_def sample_client_def)
  obtain l d r where reg: "register_client sample_crates
      (JObject [(''redirect_uris'', JArray [JString ''https://c/cb''])]) ''r'' ''s'' 5 20 (None, oauth_db) = ((l, d), r)"
    by (metis prod.collapse)
  show ?thesis
    using registration_spares_used [OF reg t c disjI1 [OF u]] by (simp add: reg)
qed

text \<open>A client is registered only with addresses that are safe to send a code to, and a secret of its
  own unless it is public. Every redirect address is over HTTPS, over HTTP on the user's own
  device, or the one approved native callback, and carries no fragment or password; there are at most ten.\<close>

theorem registered_client_sound:
  assumes "register_client cr input rand_id rand_secret instant now server = (server', Inr c)"
  shows "c \<in> set (rows (oauth_clients (snd server')))
    \<and> redirect_uris c \<noteq> [] \<and> length (redirect_uris c) \<le> 10
    \<and> (\<forall>u \<in> set (redirect_uris c). u = ''cursor://anysphere.cursor-mcp/oauth/callback'' \<or>
         (\<exists>url. url_parse cr u = Some url \<and> (scheme url = ''https'' \<or> scheme url = ''http'' \<and> is_loopback_redirect_uri (url_parse cr) u)
            \<and> non_empty (fragment url) = None \<and> username url = [] \<and> non_empty (url_password url) = None))
    \<and> token_endpoint_auth_method c \<in> {''none'', ''client_secret_post'', ''client_secret_basic''}
    \<and> (client_secret_hash c = None \<longleftrightarrow> token_endpoint_auth_method c = ''none'')
    \<and> ''authorization_code'' \<in> set (grant_types c)"
  using assms
proof (cases rule: register_cases)
  case (registered reg l d1 d2 d3 c')
  note reg = check_registration_ok [OF registered(1)]
  have c: "c = (new_client cr reg rand_id rand_secret now)\<lparr>oc_id := seq (oauth_clients d2) + 1, oc_created_at := now,
      oc_updated_at := Some now\<rparr>" and mem: "c \<in> set (rows (oauth_clients (snd server')))"
    using insert_client_ok(1,2) [OF registered(4)] registered(5,6) by simp_all
  have uris: "redirect_uris c = reg_redirect_uris reg" "token_endpoint_auth_method c = reg_auth_method reg"
    "grant_types c = reg_grant_types reg" "client_secret_hash c = None \<longleftrightarrow> reg_auth_method reg = ''none''"
    by (simp_all add: c new_client_def Let_def)
  have "u = ''cursor://anysphere.cursor-mcp/oauth/callback'' \<or>
         (\<exists>url. url_parse cr u = Some url \<and> (scheme url = ''https'' \<or> scheme url = ''http'' \<and> is_loopback_redirect_uri (url_parse cr) u)
            \<and> non_empty (fragment url) = None \<and> username url = [] \<and> non_empty (url_password url) = None)"
    if "u \<in> set (reg_redirect_uris reg)" for u
    using that reg(1)
    by (auto simp: list_all_iff redirect_target_def NATIVE_APP_REDIRECT_URIS_def is_loopback_redirect_uri_def non_empty_def
        split: option.splits)
  then show ?thesis
    using mem reg(2-6) uris by (auto simp: AUTH_METHODS_def)
qed simp_all

theorem registered_client_sound_witness:
  "\<exists>c. snd (register_client sample_crates (JObject [(''redirect_uris'', JArray [JString ''https://c/cb''])]) ''r'' ''s'' 5 20
      (None, oauth_db)) = Inr c \<and> token_endpoint_auth_method c = ''client_secret_basic'' \<and> client_secret_hash c \<noteq> None"
proof -
  let ?r = "register_client sample_crates (JObject [(''redirect_uris'', JArray [JString ''https://c/cb''])]) ''r'' ''s'' 5 20
      (None, oauth_db)"
  have "case snd ?r of Inl e \<Rightarrow> False | Inr c \<Rightarrow> token_endpoint_auth_method c = ''client_secret_basic''"
    by code_simp
  then obtain c where c: "snd ?r = Inr c" "token_endpoint_auth_method c = ''client_secret_basic''"
    by (auto split: sum.split_asm)
  then have "?r = (fst ?r, Inr c)" by (simp add: prod_eq_iff)
  from registered_client_sound [OF this] show ?thesis
    using c by auto
qed

lemma redirect_uri_matches_cases:
  assumes "redirect_uri_matches parse requested registered"
  shows "requested = registered \<or>
    (\<exists>u v. parse requested = Some u \<and> parse registered = Some v \<and> has_loopback_host u \<and> has_loopback_host v
       \<and> scheme u = scheme v \<and> host_str u = host_str v \<and> path u = path v)"
  using assms by (auto simp: redirect_uri_matches_def split: option.splits if_splits)

lemma find_client_Some: "find_client d c = Some client \<Longrightarrow> client \<in> set (rows (oauth_clients d)) \<and> client_id client = c"
  by (auto simp: find_client_def dest: find_row_Some)

text \<open>A request that got as far as naming a registered address.\<close>

definition registered_redirect :: "Crates \<Rightarrow> db \<Rightarrow> string \<Rightarrow> bool" where
  "registered_redirect cr d uri \<longleftrightarrow> (\<exists>c \<in> set (rows (oauth_clients d)). \<exists>u \<in> set (redirect_uris c).
     uri = u \<or> (\<exists>x y. url_parse cr uri = Some x \<and> url_parse cr u = Some y \<and> has_loopback_host x \<and> has_loopback_host y
       \<and> scheme x = scheme y \<and> host_str x = host_str y \<and> path x = path y))"

lemma registered_redirectI:
  assumes "find_client d c = Some client"
    and "list_ex (redirect_uri_matches (url_parse cr) uri) (redirect_uris client)"
  shows "registered_redirect cr d uri"
  using find_client_Some [OF assms(1)] assms(2)
  unfolding registered_redirect_def by (auto simp: list_ex_iff dest!: redirect_uri_matches_cases)

lemma gateway_resource_plain: "gateway_resource cr config = Inl e \<Longrightarrow> \<exists>x. e = PublicUrl x"
  by (auto simp: gateway_resource_def split: sum.splits)

lemma parse_authorization_Inr:
  assumes "parse_authorization_request cr config input d = Inr r"
  shows "registered_redirect cr d (gar_redirect_uri r)" "gar_client r \<in> set (rows (oauth_clients d))"
    "list_all base64url_char (gar_code_challenge r)" "43 \<le> length (gar_code_challenge r)"
    "gateway_resource cr config = Inr (gar_resource r)"
  using assms
  by (auto simp: parse_authorization_request_def redirect_error_def Let_def result_simps PKCE_CHALLENGE_def
      split: option.splits if_splits intro: registered_redirectI dest: find_client_Some)

text \<open>An authorization request is only ever answered at an address its client registered: exactly
  that address, or for an address on the user's own device the same one on another port. This
  holds of the requests that are accepted and of every error that names an address to send it to.
  An accepted request carries a well-formed S256 challenge and is for this gateway.\<close>

theorem authorization_redirect_registered:
  "case parse_authorization_request cr config input d of
     Inr r \<Rightarrow> registered_redirect cr d (gar_redirect_uri r) \<and> gar_client r \<in> set (rows (oauth_clients d))
        \<and> list_all base64url_char (gar_code_challenge r) \<and> 43 \<le> length (gar_code_challenge r)
        \<and> gateway_resource cr config = Inr (gar_resource r)
   | Inl e \<Rightarrow> oe_redirect_uri (to_oauth e) = None
        \<or> registered_redirect cr d (the (oe_redirect_uri (to_oauth e)))"
proof (cases "parse_authorization_request cr config input d")
  case (Inr r)
  then show ?thesis
    using parse_authorization_Inr [OF Inr] by simp
next
  case (Inl e)
  then show ?thesis
    by (auto simp: parse_authorization_request_def redirect_error_def Let_def result_simps oauth_error_def with_status_def
        split: option.splits if_splits intro: registered_redirectI dest!: gateway_resource_plain)
qed

lemma answer_consent_state:
  assumes "answer_consent cr query_pairs with_pairs config user mine current team_id input plaintext now d0 d = (d', r)"
  shows "d' = d \<or> (\<exists>request team. parse_authorization_request cr config input d0 = Inr request
     \<and> team \<in> set (current # mine)
     \<and> d' = fst (create_authorization_code cr request (u_id user) (t_id (ms_team team))
          (as_str (json_get input ''manage_mcps'') = Some ''on'') plaintext now d))"
proof (cases "parse_authorization_request cr config input d0")
  case (Inl e)
  then show ?thesis using assms by (simp add: answer_consent_def)
next
  case (Inr request)
  let ?chosen = "case team_id of None \<Rightarrow> Some current | Some None \<Rightarrow> None
      | Some (Some i) \<Rightarrow> find (\<lambda>m. t_id (ms_team m) = i) mine"
  show ?thesis
  proof (cases ?chosen)
    case None
    then show ?thesis
      using assms Inr by (simp add: answer_consent_def Let_def split: if_splits)
  next
    case (Some team)
    have "team \<in> set (current # mine)"
      using Some by (auto split: option.splits dest: find_Some_set)
    moreover have "d' = d \<or> d' = fst (create_authorization_code cr request (u_id user) (t_id (ms_team team))
          (as_str (json_get input ''manage_mcps'') = Some ''on'') plaintext now d)"
      using assms Inr Some by (simp add: answer_consent_def Let_def split: if_splits prod.splits sum.splits)
    ultimately show ?thesis
      using Inr by blast
  qed
qed

text \<open>C31: A consent grants no more than its person may give. The codes it adds are theirs, for a team
  they are in (the one named on the form, or else the one they work in), with the address and the
  challenge of the request; the permission to manage MCPs is in it only if the box was ticked and
  the person is an admin or an owner of that team when the code is made.\<close>

theorem consent_grants_own:
  assumes "answer_consent cr query_pairs with_pairs config user mine current team_id input plaintext now d0 d = (d', r)"
    and "c \<in> set (rows (authorization_codes d'))" and "c \<notin> set (rows (authorization_codes d))"
  shows "code_user_id c = u_id user \<and> code_team_id c \<in> (\<lambda>m. t_id (ms_team m)) ` set (current # mine)
    \<and> registered_redirect cr d0 (redirect_uri c) \<and> code_expires_at c = now + 300
    \<and> code_hash c = sha256_hex cr plaintext
    \<and> (if as_str (json_get input ''manage_mcps'') = Some ''on''
       then (\<exists>role. role_of d (code_team_id c) (u_id user) = Some role \<and> is_admin role)
            \<and> scope_names (code_scopes c) = [GATEWAY_OAUTH_SCOPE, MCPS_MANAGE_SCOPE]
       else scope_names (code_scopes c) = [GATEWAY_OAUTH_SCOPE])"
proof -
  obtain request team where req: "parse_authorization_request cr config input d0 = Inr request"
    and team: "team \<in> set (current # mine)"
    and made: "fst (create_authorization_code cr request (u_id user) (t_id (ms_team team))
        (as_str (json_get input ''manage_mcps'') = Some ''on'') plaintext now d) = d'"
    using answer_consent_state [OF assms(1)] assms(2,3) by blast
  let ?on = "as_str (json_get input ''manage_mcps'') = Some ''on''"
  have c: "c = \<lparr>code_id = code_id c, code_hash = sha256_hex cr plaintext,
               code_oauth_client_id = oc_id (gar_client request), code_user_id = u_id user,
               redirect_uri = gar_redirect_uri request, code_challenge = gar_code_challenge request,
               code_scopes = grant_scopes ?on, code_resource = gar_resource request,
               code_expires_at = now + 300, code_created_at = now, code_team_id = t_id (ms_team team)\<rparr>"
    and admin: "?on \<Longrightarrow> \<exists>role. role_of d (t_id (ms_team team)) (u_id user) = Some role \<and> is_admin role"
    using made assms(2,3)
    by (auto simp: create_authorization_code_def insert_code_def Let_def ensure_def set_delete_where
        AUTHORIZATION_CODE_TTL_MINUTES_def split: if_splits option.splits)
  have "scope_names (grant_scopes True) = [GATEWAY_OAUTH_SCOPE, MCPS_MANAGE_SCOPE]"
    "scope_names (grant_scopes False) = [GATEWAY_OAUTH_SCOPE]"
    by (simp_all add: scope_names_def grant_scopes_def GATEWAY_OAUTH_SCOPE_def MCPS_MANAGE_SCOPE_def)
  moreover have "registered_redirect cr d0 (gar_redirect_uri request)"
    by (rule parse_authorization_Inr(1) [OF req])
  ultimately show ?thesis
    using team admin by (subst (1 2 3 4 5 6 7 8) c) auto
qed

theorem consent_grants_own_witness:
  "\<exists>d' r c. answer_consent sample_crates (\<lambda>u. []) (\<lambda>u ps. url_text u) sample_config (sample_user 2 ''bob@x'' False)
      [] sample_seat None sample_query ''z'' 20 oauth_db oauth_db = (d', r)
    \<and> c \<in> set (rows (authorization_codes d')) \<and> c \<noteq> sample_code
    \<and> scope_names (code_scopes c) = [GATEWAY_OAUTH_SCOPE, MCPS_MANAGE_SCOPE]"
proof -
  let ?a = "answer_consent sample_crates (\<lambda>u. []) (\<lambda>u ps. url_text u) sample_config (sample_user 2 ''bob@x'' False)
      [] sample_seat None sample_query ''z'' 20 oauth_db oauth_db"
  have "map code_id (rows (authorization_codes (fst ?a))) = [1, 2]" by code_simp
  then have "2 \<in> code_id ` set (rows (authorization_codes (fst ?a)))"
    by (metis list.set_intros set_map)
  then obtain c where c: "c \<in> set (rows (authorization_codes (fst ?a)))" "code_id c = 2"
    by auto
  have new: "c \<notin> set (rows (authorization_codes oauth_db))"
    using c(2) by (auto simp: oauth_db_def sample_code_def)
  have "as_str (json_get sample_query ''manage_mcps'') = Some ''on''"
    by (simp add: sample_query_def json_get_def)
  then show ?thesis
    using consent_grants_own [OF prod.collapse [symmetric] c(1) new] c new
    by (intro exI [of _ "fst ?a"] exI [of _ "snd ?a"] exI [of _ c]) (simp add: oauth_db_def)
qed

lemma exchange_read_checks:
  assumes "exchange_read cr config params now d = Inr c"
  shows "find_row (\<lambda>c. code_hash c = sha256_hex cr (ex_code params)) (authorization_codes d) = Some c"
    and "code_oauth_client_id c = oc_id (ex_client params)" and "redirect_uri c = ex_redirect_uri params"
    and "now < code_expires_at c" and "verify_code_challenge cr (ex_code_verifier params) (code_challenge c)"
proof -
  obtain x where "find_row (\<lambda>c. code_hash c = sha256_hex cr (ex_code params)) (authorization_codes d) = Some x"
    using assms by (cases "find_row (\<lambda>c. code_hash c = sha256_hex cr (ex_code params)) (authorization_codes d)")
      (auto simp: exchange_read_def result_simps Let_def)
  then show "find_row (\<lambda>c. code_hash c = sha256_hex cr (ex_code params)) (authorization_codes d) = Some c"
    "code_oauth_client_id c = oc_id (ex_client params)" "redirect_uri c = ex_redirect_uri params"
    "now < code_expires_at c" "verify_code_challenge cr (ex_code_verifier params) (code_challenge c)"
    using assms by (auto simp: exchange_read_def result_simps Let_def simp del: split_paired_Ex split: if_split_asm)
qed

text \<open>C18: A code is exchanged only by the client it was made for, at the address it was sent to, with the
  verifier behind its challenge and before it expires. The grant is for the person, the team,
  the scopes and the resource of the code, works for an hour, can be refreshed if the client
  registered for that, and the code is gone.\<close>

theorem exchange_gives_what_was_granted:
  assumes "exchange_authorization_code cr config params plaintext fresh now d = Inr (d', tokens)"
  shows "\<exists>c \<in> set (rows (authorization_codes d)). code_hash c = sha256_hex cr (ex_code params)
    \<and> code_oauth_client_id c = oc_id (ex_client params) \<and> redirect_uri c = ex_redirect_uri params
    \<and> s256 cr (ex_code_verifier params) = code_challenge c \<and> now < code_expires_at c
    \<and> created_token tokens \<in> set (rows (access_tokens d'))
    \<and> token_hash (created_token tokens) = sha256_hex cr plaintext
    \<and> at_created_by (created_token tokens) = code_user_id c \<and> at_team_id (created_token tokens) = code_team_id c
    \<and> oauth_scopes (created_token tokens) = Some (code_scopes c)
    \<and> oauth_resource (created_token tokens) = Some (code_resource c)
    \<and> at_oauth_client_id (created_token tokens) = Some (oc_id (ex_client params))
    \<and> expires_at (created_token tokens) = Some (now + 3600) \<and> is_active (created_token tokens) now
    \<and> (created_refresh_token tokens = (if ''refresh_token'' \<in> set (grant_types (ex_client params)) then Some fresh else None))
    \<and> (\<forall>x \<in> set (rows (authorization_codes d')). code_id x \<noteq> code_id c)"
proof -
  obtain c where read: "exchange_read cr config params now d = Inr c"
    and commit: "exchange_commit cr (ex_client params) c plaintext fresh now d = Inr (d', tokens)"
    using assms by (auto simp: exchange_authorization_code_def result_simps)
  have c: "c \<in> set (rows (authorization_codes d))" "code_hash c = sha256_hex cr (ex_code params)"
    "code_oauth_client_id c = oc_id (ex_client params)" "redirect_uri c = ex_redirect_uri params"
    "s256 cr (ex_code_verifier params) = code_challenge c" "now < code_expires_at c"
    using exchange_read_checks [OF read] find_row_Some [OF exchange_read_checks(1) [OF read]]
    by (simp_all add: verify_code_challenge_def Let_def)
  note grant = exchange_commit_Inr(3) [OF commit]
  have refresh: "ng_client_supports_refresh (code_grant (ex_client params) c) \<longleftrightarrow> ''refresh_token'' \<in> set (grant_types (ex_client params))"
    by (auto simp: code_grant_def list_ex_iff)
  have "created_token tokens \<in> set (rows (access_tokens d'))
    \<and> token_hash (created_token tokens) = sha256_hex cr plaintext
    \<and> at_created_by (created_token tokens) = code_user_id c \<and> at_team_id (created_token tokens) = code_team_id c
    \<and> oauth_scopes (created_token tokens) = Some (code_scopes c)
    \<and> oauth_resource (created_token tokens) = Some (code_resource c)
    \<and> at_oauth_client_id (created_token tokens) = Some (oc_id (ex_client params))
    \<and> expires_at (created_token tokens) = Some (now + 3600) \<and> is_active (created_token tokens) now
    \<and> created_refresh_token tokens = (if ''refresh_token'' \<in> set (grant_types (ex_client params)) then Some fresh else None)"
    using grant unfolding create_oauth_grant_def refresh
    by (auto simp: insert_token_def result_simps Let_def code_grant_def default_token_def is_active_def
        is_oauth_session_active_def is_revoked_def OAUTH_ACCESS_TOKEN_TTL_SECONDS_def OAUTH_REFRESH_TOKEN_TTL_DAYS_def)
  then show ?thesis
    using c exchange_commit_Inr(1) [OF commit] by (intro bexI [OF _ c(1)]) (auto simp: delete_where_def)
qed

theorem exchange_gives_what_was_granted_witness:
  "\<exists>d' tokens. exchange_authorization_code sample_crates sample_config
      \<lparr>ex_client = sample_client, ex_code = ''c'', ex_code_verifier = sample_challenge,
       ex_redirect_uri = ''https://c/cb'', ex_resource = ''https://a/mcp''\<rparr> ''p'' ''r'' 50 oauth_db = Inr (d', tokens)
    \<and> at_team_id (created_token tokens) = 1 \<and> created_refresh_token tokens = None"
proof -
  let ?e = "exchange_authorization_code sample_crates sample_config
      \<lparr>ex_client = sample_client, ex_code = ''c'', ex_code_verifier = sample_challenge,
       ex_redirect_uri = ''https://c/cb'', ex_resource = ''https://a/mcp''\<rparr> ''p'' ''r'' 50 oauth_db"
  have "is_ok ?e" by code_simp
  then obtain d' tokens where e: "?e = Inr (d', tokens)" by (cases ?e) auto
  show ?thesis
    using e exchange_gives_what_was_granted [OF e] by (auto simp: oauth_db_def sample_code_def sample_client_def)
qed

text \<open>C23: An authorization code gives at most one grant. Of all the exchanges whose transaction is for
  the same code, in any order and whatever each of them had read before, at most one succeeds.\<close>

theorem authorization_code_once:
  assumes "table_ok code_id (authorization_codes d)"
  shows "count_where (\<lambda>((client, c, plaintext, fresh, now), ok). ok \<and> code_id c = i)
     (run_uses (exchange_attempt cr) d attempts) \<le> 1"
proof -
  have eq: "(\<lambda>((client, c, plaintext, fresh, now), ok). ok \<and> code_id c = i) =
    (\<lambda>(a, ok). ok \<and> (case a of (client, c, plaintext, fresh, now) \<Rightarrow> code_id c) = i)"
    by (auto simp: fun_eq_iff)
  show ?thesis
    unfolding eq by (rule code.at_most_once [OF assms])
qed

theorem authorization_code_once_witness:
  "count_where (\<lambda>((client, c, plaintext, fresh, now), ok). ok \<and> code_id c = 1)
     (run_uses (exchange_attempt sample_crates) oauth_db
        [(sample_client, sample_code, ''p'', ''r'', 50), (sample_client, sample_code, ''q'', ''s'', 50)]) \<le> 1"
proof (rule authorization_code_once)
  show "table_ok code_id (authorization_codes oauth_db)" by code_simp
qed

definition lower_digit :: "char \<Rightarrow> bool" where
  "lower_digit c \<longleftrightarrow> (let n = (of_char c :: nat) in (48 \<le> n \<and> n \<le> 57) \<or> (97 \<le> n \<and> n \<le> 102))"

definition lower_hex :: "string \<Rightarrow> bool" where
  "lower_hex s \<longleftrightarrow> even (length s) \<and> list_all lower_digit s"

lemma hex_digit_lower: "lower_digit c \<Longrightarrow> \<exists>n < 16. hex_digit c = Some n"
  by (auto simp: hex_digit_def lower_digit_def Let_def)

lemma hex_digit_inject:
  assumes "lower_digit c" and "lower_digit c'" and "hex_digit c = hex_digit c'"
  shows "c = c'"
proof -
  have "(of_char c :: nat) = of_char c'"
    using assms by (auto simp: hex_digit_def lower_digit_def Let_def simp del: of_char_eq_iff split: if_splits)
  then show ?thesis by simp
qed

lemma decode_hex_inject:
  "lower_hex s \<Longrightarrow> lower_hex t \<Longrightarrow> decode_hex s = decode_hex t \<Longrightarrow> s = t"
proof (induction s arbitrary: t rule: decode_hex.induct)
  case (1 h l rest)
  obtain a b where ab: "hex_digit h = Some a" "hex_digit l = Some b" "a < 16" "b < 16"
    using 1(2) hex_digit_lower [of h] hex_digit_lower [of l] by (auto simp: lower_hex_def)
  obtain h' l' rest' where t: "t = h' # l' # rest'"
    using 1(4) ab by (cases t rule: decode_hex.cases) auto
  obtain a' b' where ab': "hex_digit h' = Some a'" "hex_digit l' = Some b'" "a' < 16" "b' < 16"
    using 1(3) hex_digit_lower [of h'] hex_digit_lower [of l'] by (auto simp: t lower_hex_def)
  have sum: "16 * a + b = 16 * a' + b'" and rest: "decode_hex rest = decode_hex rest'"
    using 1(4) ab(1,2) ab'(1,2) by (simp_all add: t)
  have "a = a'" "b = b'"
    using arg_cong [OF sum, of "\<lambda>n. n div 16"] arg_cong [OF sum, of "\<lambda>n. n mod 16"] ab(4) ab'(4) by simp_all
  have low: "lower_hex rest" "lower_hex rest'"
    using 1(2,3) by (simp_all add: t lower_hex_def)
  have "rest = rest'"
    by (rule 1(1) [OF refl ab(1,2) low rest])
  moreover have "h = h'" "l = l'"
    using hex_digit_inject [of h h'] hex_digit_inject [of l l'] 1(2,3) ab(1,2) ab'(1,2) \<open>a = a'\<close> \<open>b = b'\<close>
    by (simp_all add: t lower_hex_def)
  ultimately show ?case by (simp add: t)
next
  case "2_1"
  then show ?case
    by (cases t rule: decode_hex.cases) (auto simp: lower_hex_def split: option.splits dest: hex_digit_lower)
next
  case "2_2"
  then show ?case by (simp add: lower_hex_def)
qed

text \<open>A client is let in only as it registered: with the method it chose, and a confidential one
  with the secret it was given, as long as that has not expired. SHA-256 is taken to write two
  lower-case hexadecimal digits a byte.\<close>

theorem client_needs_its_secret:
  assumes "authenticate_client cr basic input now d = Inr client"
    and "\<And>x. lower_hex (sha256_hex cr x) \<and> sha256_hex cr x \<noteq> []"
    and "client_secret_hash client = Some (sha256_hex cr secret)"
  shows "client \<in> set (rows (oauth_clients d))
    \<and> (\<exists>credentials. (basic = Some credentials \<or> basic = None \<and> posted_client_credentials input = Some credentials)
         \<and> cc_client_id credentials = client_id client \<and> cc_method credentials = token_endpoint_auth_method client
         \<and> (\<exists>s. cc_client_secret credentials = Some s \<and> sha256_hex cr s = sha256_hex cr secret))
    \<and> (\<forall>e. client_secret_expires_at client = Some e \<longrightarrow> now < e)"
proof -
  obtain credentials where cred: "(case basic of None \<Rightarrow> posted_client_credentials input | Some b \<Rightarrow> Some b) = Some credentials"
    and found: "find_client d (cc_client_id credentials) = Some client"
    and meth: "token_endpoint_auth_method client = cc_method credentials"
    and sec: "\<exists>s. non_empty (cc_client_secret credentials) = Some s \<and> secure_secret_match cr s (sha256_hex cr secret)"
    and expiry: "\<not> (case client_secret_expires_at client of None \<Rightarrow> False | Some e \<Rightarrow> e \<le> now)"
    using assms unfolding authenticate_client_def
    by (auto simp: Let_def non_empty_def split: option.split_asm if_split_asm)
  obtain s where s: "cc_client_secret credentials = Some s" "decode_hex (sha256_hex cr s) = decode_hex (sha256_hex cr secret)"
    using sec by (auto simp: non_empty_def secure_secret_match_def Let_def split: if_splits)
  have "sha256_hex cr s = sha256_hex cr secret"
    using decode_hex_inject assms(2) s(2) by blast
  then show ?thesis
    using find_client_Some [OF found] cred meth s(1) expiry by (auto split: option.splits)
qed

theorem client_needs_its_secret_witness:
  "\<exists>client. authenticate_client (sample_crates\<lparr>sha256_hex := (\<lambda>_. ''7365'')\<rparr>) None
        [(''client_id'', JString ''cl''), (''client_secret'', JString ''se'')] 50 oauth_db = Inr client
      \<and> client \<in> set (rows (oauth_clients oauth_db))"
proof -
  let ?cr = "sample_crates\<lparr>sha256_hex := (\<lambda>_. ''7365'')\<rparr>"
  let ?a = "authenticate_client ?cr None [(''client_id'', JString ''cl''), (''client_secret'', JString ''se'')] 50 oauth_db"
  have "case ?a of Inl e \<Rightarrow> False | Inr c \<Rightarrow> client_secret_hash c = Some ''7365''" by code_simp
  then obtain c where a: "?a = Inr c" and h: "client_secret_hash c = Some (sha256_hex ?cr ''se'')"
    by (auto split: sum.split_asm)
  have hex: "\<And>x. lower_hex (sha256_hex ?cr x) \<and> sha256_hex ?cr x \<noteq> []"
    by (simp add: lower_hex_def lower_digit_def)
  show ?thesis
    using client_needs_its_secret [OF a hex h] a by auto
qed

end
