(* ===== verification/Sse.thy ===== *)
theory Sse
  imports Prelude
begin

text \<open>
  Server-sent events: the incremental parser of \<open>crates/mcp/src/sse.rs\<close>, with the part of
  \<open>std::str::from_utf8\<close> it rests on, and the frames \<open>crates/mcp/src/server.rs\<close> writes. Bytes are
  characters of 8 bits and texts are their UTF-8 bytes, so a place that \<open>find\<close> gives in a text is a place
  in the list. The loops are total functions.
\<close>

section \<open>Streams that may be cut anywhere\<close>

text \<open>
  The contract of an incremental reader: feeding two pieces one after the other is feeding them
  joined, and feeding nothing to a reader at rest gives nothing. Then however a stream is cut, its
  reader ends in the same state and gives the same items.
\<close>

fun feed_all :: "('p \<Rightarrow> 'c list \<Rightarrow> 'p \<times> 'i list) \<Rightarrow> 'p \<Rightarrow> 'c list list \<Rightarrow> 'p \<times> 'i list" where
  "feed_all feed p [] = (p, [])"
| "feed_all feed p (c # cs) = (let (p1, i1) = feed p c; (p2, i2) = feed_all feed p1 cs in (p2, i1 @ i2))"

locale incremental =
  fixes feed :: "'p \<Rightarrow> 'c list \<Rightarrow> 'p \<times> 'i list"
    and rest :: "'p \<Rightarrow> bool"
  assumes feed_rest: "rest p \<Longrightarrow> rest (fst (feed p c))"
    and feed_nothing: "rest p \<Longrightarrow> feed p [] = (p, [])"
    and feed_append: "rest p \<Longrightarrow> feed p (c @ c') = (let (p1, i1) = feed p c; (p2, i2) = feed p1 c' in (p2, i1 @ i2))"
begin

lemma feed_all_concat: "rest p \<Longrightarrow> feed_all feed p cs = feed p (concat cs)"
proof (induction cs arbitrary: p)
  case (Cons c cs)
  then show ?case
    using feed_rest [of p c] by (simp add: feed_append case_prod_unfold)
qed (simp add: feed_nothing)

end

section \<open>UTF-8\<close>

abbreviation byte :: "char \<Rightarrow> nat" where
  "byte \<equiv> of_char"

definition continuation :: "char \<Rightarrow> bool" where
  "continuation c \<longleftrightarrow> 0x80 \<le> byte c \<and> byte c < 0xC0"

definition utf8_width :: "char \<Rightarrow> nat" where
  "utf8_width c =
     (let b = byte c in
      if b < 0x80 then 1 else if 0xC2 \<le> b \<and> b < 0xE0 then 2 else if 0xE0 \<le> b \<and> b < 0xF0 then 3
      else if 0xF0 \<le> b \<and> b < 0xF5 then 4 else 0)"

definition second_fits :: "char \<Rightarrow> char \<Rightarrow> bool" where
  "second_fits first c \<longleftrightarrow> continuation c
     \<and> (byte first = 0xE0 \<longrightarrow> 0xA0 \<le> byte c) \<and> (byte first = 0xED \<longrightarrow> byte c < 0xA0)
     \<and> (byte first = 0xF0 \<longrightarrow> 0x90 \<le> byte c) \<and> (byte first = 0xF4 \<longrightarrow> byte c < 0x90)"

text \<open>What stands at the front of some bytes: a character of so many bytes, so many bytes that no
  character begins with, or the beginning of a character that the bytes end in.\<close>

datatype utf8_front = Complete nat | Broken nat | Cut

fun utf8_next :: "string \<Rightarrow> utf8_front" where
  "utf8_next [] = Cut"
| "utf8_next (b1 # bs) =
     (if utf8_width b1 = 0 then Broken 1
      else if utf8_width b1 = 1 then Complete 1
      else case bs of
        [] \<Rightarrow> Cut
      | b2 # bs \<Rightarrow>
          if \<not> second_fits b1 b2 then Broken 1
          else if utf8_width b1 = 2 then Complete 2
          else case bs of
            [] \<Rightarrow> Cut
          | b3 # bs \<Rightarrow>
              if \<not> continuation b3 then Broken 2
              else if utf8_width b1 = 3 then Complete 3
              else case bs of
                [] \<Rightarrow> Cut
              | b4 # _ \<Rightarrow> if \<not> continuation b4 then Broken 3 else Complete 4)"

lemma utf8_next_bounds:
  "utf8_next s = Complete n \<Longrightarrow> 0 < n \<and> n \<le> length s"
  "utf8_next s = Broken n \<Longrightarrow> 0 < n \<and> n \<le> length s"
  by (cases s rule: utf8_next.cases; auto split: if_splits list.splits)+

text \<open>\<open>from_utf8\<close>: \<open>None\<close> when all is well, else \<open>valid_up_to\<close> and \<open>error_len\<close>.\<close>

function from_utf8 :: "string \<Rightarrow> (nat \<times> nat option) option" where
  "from_utf8 s =
     (if s = [] then None
      else case utf8_next s of
        Complete n \<Rightarrow> map_option (apfst ((+) n)) (from_utf8 (drop n s))
      | Broken n \<Rightarrow> Some (0, Some n)
      | Cut \<Rightarrow> Some (0, None))"
  by auto
termination
  by (relation "measure length") (auto dest: utf8_next_bounds)

declare from_utf8.simps [simp del]

lemma from_utf8_error:
  "from_utf8 s = Some (v, e) \<Longrightarrow> v + (case e of None \<Rightarrow> 1 | Some n \<Rightarrow> n) \<le> length s \<and> e \<noteq> Some 0"
proof (induction s arbitrary: v rule: from_utf8.induct)
  case (1 s)
  have "s \<noteq> []" using 1(2) by (auto simp: from_utf8.simps)
  show ?case
  proof (cases "utf8_next s")
    case (Complete n)
    then obtain v' where v': "from_utf8 (drop n s) = Some (v', e)" "v = n + v'"
      using 1(2) \<open>s \<noteq> []\<close> by (auto simp: from_utf8.simps [of s])
    then show ?thesis
      using 1(1) [OF \<open>s \<noteq> []\<close> Complete v'(1)] utf8_next_bounds(1) [OF Complete] by (auto split: option.splits)
  next
    case (Broken n)
    then show ?thesis
      using 1(2) \<open>s \<noteq> []\<close> utf8_next_bounds(2) [OF Broken] by (auto simp: from_utf8.simps [of s])
  next
    case Cut
    then show ?thesis
      using 1(2) \<open>s \<noteq> []\<close> by (cases s) (auto simp: from_utf8.simps)
  qed
qed

definition REPLACEMENT :: string where
  "REPLACEMENT = [CHR 0xEF, CHR 0xBF, CHR 0xBD]"

section \<open>The parser\<close>

record SseEvent =
  ev_id :: "string option"
  ev_event :: "string option"
  ev_data :: string

datatype SseItem = Event SseEvent | Retry "64 word"

record SseParser =
  partial_character :: string
  pending :: string
  started :: bool
  sse_id :: "string option"
  sse_event :: "string option"
  sse_data :: string
  data_lines :: nat

definition new_parser :: SseParser where
  "new_parser = \<lparr>partial_character = [], pending = [], started = False, sse_id = None, sse_event = None,
     sse_data = [], data_lines = 0\<rparr>"

text \<open>The text of some bytes and what is kept of them for the next chunk.\<close>

function decode_loop :: "string \<Rightarrow> string \<times> string" where
  "decode_loop rest =
     (case from_utf8 rest of
        None \<Rightarrow> (rest, [])
      | Some (v, None) \<Rightarrow> (take v rest, drop v rest)
      | Some (v, Some n) \<Rightarrow>
          (let (t, kept) = decode_loop (drop n (drop v rest)) in (take v rest @ REPLACEMENT @ t, kept)))"
  by auto
termination
  by (relation "measure length") (auto dest!: from_utf8_error)

declare decode_loop.simps [simp del]

definition decode :: "SseParser \<Rightarrow> string \<Rightarrow> SseParser \<times> string" where
  "decode p chunk =
     (let (t, kept) = decode_loop (partial_character p @ chunk) in (p\<lparr>partial_character := kept\<rparr>, t))"

definition data_line :: "SseParser \<Rightarrow> string \<Rightarrow> SseParser" where
  "data_line p v =
     p\<lparr>sse_data := (if data_lines p > 0 then sse_data p @ [CHR 0x0A] else sse_data p) @ v,
       data_lines := data_lines p + 1\<rparr>"

definition set_id :: "SseParser \<Rightarrow> string \<Rightarrow> SseParser" where
  "set_id p v = (if CHR 0x00 \<in> set v then p else p\<lparr>sse_id := Some v\<rparr>)"

definition set_event :: "SseParser \<Rightarrow> string \<Rightarrow> SseParser" where
  "set_event p v = p\<lparr>sse_event := (if v = [] then None else Some v)\<rparr>"

definition dispatch :: "SseParser \<Rightarrow> SseParser \<times> SseItem list" where
  "dispatch p =
     (p\<lparr>sse_id := None, sse_event := None, sse_data := [], data_lines := 0\<rparr>,
      if data_lines p > 0 then [Event \<lparr>ev_id = sse_id p, ev_event = sse_event p, ev_data = sse_data p\<rparr>] else [])"

definition strip_prefix :: "string \<Rightarrow> string \<Rightarrow> string option" where
  "strip_prefix prefix s = (if take (length prefix) s = prefix then Some (drop (length prefix) s) else None)"

definition skip_space :: "string \<Rightarrow> string" where
  "skip_space v = (case strip_prefix '' '' v of Some w \<Rightarrow> w | None \<Rightarrow> v)"

definition value_after :: "string \<Rightarrow> string \<Rightarrow> string option" where
  "value_after prefix line = map_option skip_space (strip_prefix prefix line)"

definition split_field :: "string \<Rightarrow> string \<times> string" where
  "split_field line =
     (if CHR '':'' \<in> set line
      then (takeWhile (\<lambda>c. c \<noteq> CHR '':'') line, skip_space (tl (dropWhile (\<lambda>c. c \<noteq> CHR '':'') line)))
      else (line, []))"

definition parse_u64 :: "string \<Rightarrow> 64 word" where
  "parse_u64 v = word_of_nat (min (read_nat 0 v) (2 ^ 64 - 1))"

definition line :: "SseParser \<Rightarrow> string \<Rightarrow> SseParser \<times> SseItem list" where
  "line p l =
     (if l = [] then dispatch p
      else case value_after ''data:'' l of
        Some v \<Rightarrow> (data_line p v, [])
      | None \<Rightarrow>
      (case value_after ''event:'' l of
        Some v \<Rightarrow> (set_event p v, [])
      | None \<Rightarrow>
      (case value_after ''id:'' l of
        Some v \<Rightarrow> (set_id p v, [])
      | None \<Rightarrow>
          if take 1 l = '':'' then (p, [])
          else
            (let (field, v) = split_field l in
             if field = ''event'' then (set_event p v, [])
             else if field = ''data'' then (data_line p v, [])
             else if field = ''id'' then (set_id p v, [])
             else if field = ''retry'' \<and> v \<noteq> [] \<and> list_all is_digit_char v then (p, [Retry (parse_u64 v)])
             else (p, [])))))"

text \<open>Where the first line of a text ends and the next begins: a carriage return at the very end may
  be the first half of a CRLF.\<close>

definition line_break :: "char \<Rightarrow> bool" where
  "line_break c \<longleftrightarrow> c = CHR 0x0D \<or> c = CHR 0x0A"

definition next_line :: "string \<Rightarrow> (string \<times> string) option" where
  "next_line rest =
     (let l = takeWhile (\<lambda>c. \<not> line_break c) rest in
      case dropWhile (\<lambda>c. \<not> line_break c) rest of
        [] \<Rightarrow> None
      | c # after \<Rightarrow>
          if c = CHR 0x0D \<and> after = [] then None
          else Some (l, if c = CHR 0x0D \<and> hd after = CHR 0x0A then tl after else after))"

lemma next_line_shorter: "next_line rest = Some (l, after) \<Longrightarrow> length after < length rest"
proof -
  assume n: "next_line rest = Some (l, after)"
  obtain c more where d: "dropWhile (\<lambda>c. \<not> line_break c) rest = c # more" "length after \<le> length more"
    using n by (auto simp: next_line_def Let_def split: list.splits if_splits)
  then show ?thesis
    using length_dropWhile_le [of "\<lambda>c. \<not> line_break c" rest] by simp
qed

function feed_lines :: "SseParser \<Rightarrow> string \<Rightarrow> SseParser \<times> SseItem list" where
  "feed_lines p rest =
     (case next_line rest of
        None \<Rightarrow> (p\<lparr>pending := rest\<rparr>, [])
      | Some (l, after) \<Rightarrow>
          (let (p1, items) = line p l; (p2, more) = feed_lines p1 after in (p2, items @ more)))"
  by auto
termination
  by (relation "measure (\<lambda>(p, s). length s)") (auto dest: next_line_shorter)

declare feed_lines.simps [simp del]

definition BOM :: string where
  "BOM = [CHR 0xEF, CHR 0xBB, CHR 0xBF]"

definition feed :: "SseParser \<Rightarrow> string \<Rightarrow> SseParser \<times> SseItem list" where
  "feed p chunk =
     (let (p1, t) = decode p chunk;
          (p2, t2) = (if \<not> started p1 \<and> t \<noteq> []
            then (p1\<lparr>started := True\<rparr>, case strip_prefix BOM t of Some stripped \<Rightarrow> stripped | None \<Rightarrow> t)
            else (p1, t)) in
      feed_lines (p2\<lparr>pending := []\<rparr>) (pending p2 @ t2))"

definition frame :: "string \<Rightarrow> string" where
  "frame message = ''event: message'' @ [CHR 0x0A] @ ''data: '' @ message @ [CHR 0x0A, CHR 0x0A]"


section \<open>The decoder, one character at a time\<close>

lemma decode_loop_Nil [simp]: "decode_loop [] = ([], [])"
  by (simp add: decode_loop.simps from_utf8.simps)

lemma decode_loop_Cut: "utf8_next s = Cut \<Longrightarrow> decode_loop s = ([], s)"
  by (cases "s = []") (simp_all add: decode_loop.simps [of s] from_utf8.simps)

lemma decode_loop_Broken:
  "utf8_next s = Broken n \<Longrightarrow> decode_loop s = apfst ((@) REPLACEMENT) (decode_loop (drop n s))"
  by (cases "s = []") (simp_all add: decode_loop.simps [of s] from_utf8.simps [of s] case_prod_unfold Let_def apfst_def map_prod_def)

lemma decode_loop_Complete:
  assumes "utf8_next s = Complete n"
  shows "decode_loop s = apfst ((@) (take n s)) (decode_loop (drop n s))"
proof -
  have "s \<noteq> []" using assms by auto
  then have f: "from_utf8 s = map_option (apfst ((+) n)) (from_utf8 (drop n s))"
    using assms by (simp add: from_utf8.simps [of s])
  have d: "drop (n + v) s = drop v (drop n s)" for v by (simp add: add.commute)
  show ?thesis
    by (simp add: decode_loop.simps [of s] decode_loop.simps [of "drop n s"] f take_add d
        case_prod_unfold Let_def del: drop_drop split: option.split)
qed

lemma utf8_next_append: "utf8_next s \<noteq> Cut \<Longrightarrow> utf8_next (s @ s') = utf8_next s"
  by (cases s rule: utf8_next.cases) (auto split: if_splits list.splits)

lemma utf8_next_induct [case_names Cut Broken Complete]:
  assumes "\<And>s. utf8_next s = Cut \<Longrightarrow> P s"
    and "\<And>s n. utf8_next s = Broken n \<Longrightarrow> n \<le> length s \<Longrightarrow> P (drop n s) \<Longrightarrow> P s"
    and "\<And>s n. utf8_next s = Complete n \<Longrightarrow> n \<le> length s \<Longrightarrow> P (drop n s) \<Longrightarrow> P s"
  shows "P s"
proof (induction "length s" arbitrary: s rule: less_induct)
  case less
  show ?case
    using less assms utf8_next_bounds [of s] by (cases "utf8_next s") auto
qed

lemma decode_loop_append:
  "decode_loop (s @ s') = (let (t, k) = decode_loop s; (t', k') = decode_loop (k @ s') in (t @ t', k'))"
proof (induction s rule: utf8_next_induct)
  case (Cut s)
  then show ?case by (simp add: decode_loop_Cut)
next
  case (Broken s n)
  then show ?case
    by (simp add: decode_loop_Broken [OF Broken(1)] decode_loop_Broken [of "s @ s'" n] utf8_next_append
        case_prod_unfold Let_def)
next
  case (Complete s n)
  then show ?case
    by (simp add: decode_loop_Complete [OF Complete(1)] decode_loop_Complete [of "s @ s'" n] utf8_next_append
        case_prod_unfold Let_def)
qed

lemma decode_loop_kept: "decode_loop (snd (decode_loop s)) = ([], snd (decode_loop s))"
proof (induction s rule: utf8_next_induct)
  case (Cut s)
  then show ?case by (simp add: decode_loop_Cut)
qed (simp_all add: decode_loop_Broken decode_loop_Complete)

lemma decode_loop_first:
  "fst (decode_loop s) \<noteq> [] \<Longrightarrow> byte (hd (fst (decode_loop s))) = 0xEF \<Longrightarrow> 3 \<le> length (fst (decode_loop s))"
proof (cases "utf8_next s")
  case (Complete n)
  assume "byte (hd (fst (decode_loop s))) = 0xEF"
  moreover have "0 < n" "n \<le> length s" using utf8_next_bounds(1) [OF Complete] by auto
  moreover from this have "hd (take n s) = hd s" "take n s \<noteq> []" by auto
  ultimately have "byte (hd s) = 0xEF"
    by (simp add: decode_loop_Complete [OF Complete])
  then have "n = 3"
    using Complete by (cases s rule: utf8_next.cases) (auto simp: utf8_width_def split: if_splits list.splits)
  then show ?thesis using \<open>n \<le> length s\<close> by (simp add: decode_loop_Complete [OF Complete])
next
  case (Broken n)
  then show ?thesis by (simp add: decode_loop_Broken REPLACEMENT_def)
qed (simp add: decode_loop_Cut)

definition strip_bom :: "string \<Rightarrow> string" where
  "strip_bom t = (case strip_prefix BOM t of Some stripped \<Rightarrow> stripped | None \<Rightarrow> t)"

lemma strip_bom_append:
  assumes "t \<noteq> []" "byte (hd t) = 0xEF \<longrightarrow> 3 \<le> length t"
  shows "strip_bom (t @ t') = strip_bom t @ t'"
proof (cases "3 \<le> length t")
  case True
  then show ?thesis by (simp add: strip_bom_def strip_prefix_def BOM_def)
next
  case False
  then have "hd t \<noteq> CHR 0xEF" using assms by auto
  then show ?thesis using assms(1) by (cases t) (auto simp: strip_bom_def strip_prefix_def BOM_def)
qed

section \<open>Lines\<close>

lemma next_line_append:
  assumes "next_line s = Some (l, after)"
  shows "next_line (s @ s') = Some (l, after @ s')"
proof -
  obtain c more where d: "dropWhile (\<lambda>c. \<not> line_break c) s = c # more"
    using assms by (auto simp: next_line_def Let_def split: list.splits)
  then have "\<exists>x \<in> set s. line_break x"
    by (metis (no_types, lifting) dropWhile_eq_Nil_conv list.distinct(1))
  then have "dropWhile (\<lambda>c. \<not> line_break c) (s @ s') = dropWhile (\<lambda>c. \<not> line_break c) s @ s'"
    "takeWhile (\<lambda>c. \<not> line_break c) (s @ s') = takeWhile (\<lambda>c. \<not> line_break c) s"
    by (auto intro: dropWhile_append1 takeWhile_append1)
  then show ?thesis
    using assms d by (cases more) (auto simp: next_line_def Let_def split: if_splits)
qed

lemma line_fields [simp]:
  "partial_character (fst (line p l)) = partial_character p" "started (fst (line p l)) = started p"
  "pending (fst (line p l)) = pending p"
  by (simp_all add: line_def dispatch_def data_line_def set_event_def set_id_def case_prod_unfold Let_def split: option.split)

lemma line_frame:
  "line (p\<lparr>partial_character := k, pending := r, started := b\<rparr>) l =
     apfst (\<lambda>q. q\<lparr>partial_character := k, pending := r, started := b\<rparr>) (line p l)"
  by (simp add: line_def dispatch_def data_line_def set_event_def set_id_def case_prod_unfold Let_def apfst_def split: option.split)

lemma feed_lines_frame:
  "feed_lines (p\<lparr>partial_character := k, pending := r, started := b\<rparr>) s =
     apfst (\<lambda>q. q\<lparr>partial_character := k, started := b\<rparr>) (feed_lines p s)"
proof (induction p s rule: feed_lines.induct)
  case (1 p s)
  show ?case
  proof (cases "next_line s")
    case None
    then show ?thesis by (simp add: feed_lines.simps)
  next
    case (Some x)
    obtain l after where x: "x = (l, after)" by (cases x)
    show ?thesis
      using 1 [OF Some x [symmetric] refl prod.collapse]
      by (simp add: Some x feed_lines.simps [of _ s] line_frame case_prod_unfold Let_def)
  qed
qed

lemma feed_lines_keeps:
  "partial_character (fst (feed_lines p s)) = partial_character p \<and> started (fst (feed_lines p s)) = started p
   \<and> next_line (pending (fst (feed_lines p s))) = None"
proof (induction p s rule: feed_lines.induct)
  case (1 p s)
  show ?case
  proof (cases "next_line s")
    case None
    then show ?thesis by (simp add: feed_lines.simps)
  next
    case (Some x)
    obtain l after where x: "x = (l, after)" by (cases x)
    show ?thesis
      using 1 [OF Some x [symmetric] refl prod.collapse]
      by (simp add: Some x feed_lines.simps [of p s] case_prod_unfold Let_def)
  qed
qed

lemma feed_lines_fields [simp]:
  "partial_character (fst (feed_lines p s)) = partial_character p" "started (fst (feed_lines p s)) = started p"
  "next_line (pending (fst (feed_lines p s))) = None"
  using feed_lines_keeps by blast+

lemma feed_lines_pending: "feed_lines (p\<lparr>pending := r\<rparr>) s = feed_lines p s"
proof (induction p s rule: feed_lines.induct)
  case (1 p s)
  show ?case
  proof (cases "next_line s")
    case None
    then show ?thesis by (simp add: feed_lines.simps)
  next
    case (Some x)
    obtain l after where x: "x = (l, after)" by (cases x)
    have "line (p\<lparr>pending := r\<rparr>) l = apfst (\<lambda>q. q\<lparr>pending := r\<rparr>) (line p l)"
      by (simp add: line_def dispatch_def data_line_def set_event_def set_id_def case_prod_unfold Let_def apfst_def split: option.split)
    then show ?thesis
      using 1 [OF Some x [symmetric] refl prod.collapse]
      by (simp add: Some x feed_lines.simps [of _ s] case_prod_unfold Let_def)
  qed
qed

lemma feed_lines_append:
  "feed_lines p (s @ s') =
     (let (p1, i1) = feed_lines p s; (p2, i2) = feed_lines p1 (pending p1 @ s') in (p2, i1 @ i2))"
proof (induction p s rule: feed_lines.induct)
  case (1 p s)
  show ?case
  proof (cases "next_line s")
    case None
    then show ?thesis by (simp add: feed_lines.simps [of p s] feed_lines_pending)
  next
    case (Some x)
    obtain l after where x: "x = (l, after)" by (cases x)
    have n: "next_line (s @ s') = Some (l, after @ s')"
      using Some x by (simp add: next_line_append)
    show ?thesis
      using 1 [OF Some x [symmetric] refl prod.collapse]
      by (simp add: Some x n feed_lines.simps [of p s] feed_lines.simps [of p "s @ s'"] case_prod_unfold Let_def)
  qed
qed

section \<open>Cutting a stream changes nothing\<close>

text \<open>What a chunk means: its text without a byte order mark at the front of the stream.\<close>

definition text_of :: "SseParser \<Rightarrow> string \<Rightarrow> string" where
  "text_of p t = (if \<not> started p \<and> t \<noteq> [] then strip_bom t else t)"

lemma feed_unfold:
  "feed p chunk =
     (let (t, k) = decode_loop (partial_character p @ chunk) in
      feed_lines (p\<lparr>partial_character := k, pending := [], started := started p \<or> t \<noteq> []\<rparr>) (pending p @ text_of p t))"
  by (cases p) (auto simp: feed_def decode_def text_of_def strip_bom_def case_prod_unfold Let_def cong: option.case_cong)

definition at_rest :: "SseParser \<Rightarrow> bool" where
  "at_rest p \<longleftrightarrow> decode_loop (partial_character p) = ([], partial_character p) \<and> next_line (pending p) = None"

lemma feed_nothing_more: "at_rest p \<Longrightarrow> feed p [] = (p, [])"
  by (cases p) (simp add: feed_unfold at_rest_def text_of_def feed_lines.simps)

lemma feed_at_rest: "at_rest (fst (feed p c))"
  by (simp add: feed_unfold at_rest_def case_prod_unfold Let_def decode_loop_kept)

lemma feed_joined:
  "feed p (c @ c') = (let (p1, i1) = feed p c; (p2, i2) = feed p1 c' in (p2, i1 @ i2))"
proof -
  obtain t k where t: "decode_loop (partial_character p @ c) = (t, k)" by (cases "decode_loop (partial_character p @ c)")
  obtain t' k' where t': "decode_loop (k @ c') = (t', k')" by (cases "decode_loop (k @ c')")
  have tt: "decode_loop (partial_character p @ c @ c') = (t @ t', k')"
    using decode_loop_append [of "partial_character p @ c" c'] t t' by simp
  define b where "b = (started p \<or> t \<noteq> [])"
  define q where "q = p\<lparr>partial_character := k, pending := [], started := b\<rparr>"
  define q' where "q' = p\<lparr>partial_character := k', pending := [], started := b \<or> t' \<noteq> []\<rparr>"
  have first: "feed p c = feed_lines q (pending p @ text_of p t)"
    by (simp add: feed_unfold t q_def b_def)
  define r where "r = fst (feed p c)"
  have r: "partial_character r = k" "started r = b"
    by (simp_all add: r_def first q_def)
  have texts: "text_of p (t @ t') = text_of p t @ text_of r t'"
  proof (cases "started p \<or> t = []")
    case True
    then show ?thesis by (auto simp: text_of_def r b_def)
  next
    case False
    have "strip_bom (t @ t') = strip_bom t @ t'"
      using False decode_loop_first [of "partial_character p @ c"] by (intro strip_bom_append) (auto simp: t)
    then show ?thesis using False by (simp add: text_of_def r b_def)
  qed
  have second: "feed r c' = feed_lines (r\<lparr>partial_character := k', pending := [], started := b \<or> t' \<noteq> []\<rparr>) (pending r @ text_of r t')"
    by (simp add: feed_unfold r t')
  have frame: "feed_lines q' x = apfst (\<lambda>z. z\<lparr>partial_character := k', started := b \<or> t' \<noteq> []\<rparr>) (feed_lines q x)" for x
    using feed_lines_frame [where p = q and k = k' and r = "[]" and b = "b \<or> t' \<noteq> []" and s = x] by (simp add: q_def q'_def)
  have app: "feed_lines q (pending p @ text_of p t @ text_of r t') =
      (let (p2, i2) = feed_lines r (pending r @ text_of r t') in (p2, snd (feed p c) @ i2))"
    using feed_lines_append [of q "pending p @ text_of p t" "text_of r t'"]
    by (simp add: first [symmetric] r_def [symmetric] case_prod_unfold Let_def)
  have "feed p (c @ c') = feed_lines q' (pending p @ text_of p t @ text_of r t')"
    by (simp add: feed_unfold tt texts q'_def b_def)
  also have "\<dots> = apfst (\<lambda>z. z\<lparr>partial_character := k', started := b \<or> t' \<noteq> []\<rparr>)
      (let (p2, i2) = feed_lines r (pending r @ text_of r t') in (p2, snd (feed p c) @ i2))"
    by (simp only: frame app)
  also have "\<dots> = (let (p2, i2) = feed r c' in (p2, snd (feed p c) @ i2))"
    by (simp add: second feed_lines_frame case_prod_unfold Let_def)
  finally show ?thesis by (simp add: r_def case_prod_unfold Let_def)
qed

interpretation sse: incremental feed at_rest
  by unfold_locales (rule feed_at_rest, erule feed_nothing_more, rule feed_joined)

lemma new_parser_at_rest: "at_rest new_parser"
  by (simp add: at_rest_def new_parser_def next_line_def)

text \<open>C22: However the bytes of a stream are cut, inside a character, between the bytes of a line ending or
  in the middle of a field, the parser gives the same items and ends in the same state as when it
  reads the stream whole. The parser is a total function: decoding and splitting into lines end.\<close>

theorem sse_cut_anywhere: "feed_all feed new_parser chunks = feed new_parser (concat chunks)"
  by (rule sse.feed_all_concat [OF new_parser_at_rest])

section \<open>Frames are read back\<close>

definition clean :: "SseParser \<Rightarrow> bool" where
  "clean p \<longleftrightarrow> partial_character p = [] \<and> pending p = [] \<and> sse_id p = None \<and> sse_event p = None
     \<and> sse_data p = [] \<and> data_lines p = 0"

definition message_event :: "string \<Rightarrow> SseItem" where
  "message_event m = Event \<lparr>ev_id = None, ev_event = Some ''message'', ev_data = m\<rparr>"

lemma next_line_LF:
  assumes "list_all (\<lambda>c. \<not> line_break c) l"
  shows "next_line (l @ CHR 0x0A # s) = Some (l, s)"
proof -
  have "takeWhile (\<lambda>c. \<not> line_break c) (l @ CHR 0x0A # s) = l"
    "dropWhile (\<lambda>c. \<not> line_break c) (l @ CHR 0x0A # s) = CHR 0x0A # s"
    using assms by (simp_all add: list_all_iff takeWhile_append dropWhile_append line_break_def)
  then show ?thesis by (simp add: next_line_def)
qed

lemma feed_lines_LF:
  "list_all (\<lambda>c. \<not> line_break c) l \<Longrightarrow> feed_lines p (l @ CHR 0x0A # s) =
     (let (p1, items) = line p l; (p2, more) = feed_lines p1 s in (p2, items @ more))"
  by (simp add: feed_lines.simps [of p "l @ CHR 0x0A # s"] next_line_LF)

lemma line_event: "line p ''event: message'' = (p\<lparr>sse_event := Some ''message''\<rparr>, [])"
  by (simp add: line_def value_after_def strip_prefix_def skip_space_def set_event_def)

lemma line_data: "line p (''data: '' @ m) = (data_line p m, [])"
  by (simp add: line_def value_after_def strip_prefix_def skip_space_def)

lemma feed_lines_frame_text:
  assumes "clean p" "list_all (\<lambda>c. \<not> line_break c) m"
  shows "feed_lines p (frame m) = (p, [message_event m])"
proof -
  have f: "frame m = ''event: message'' @ CHR 0x0A # ((''data: '' @ m) @ CHR 0x0A # ([] @ CHR 0x0A # []))"
    by (simp add: frame_def)
  have l: "list_all (\<lambda>c. \<not> line_break c) ''event: message''" "list_all (\<lambda>c. \<not> line_break c) (''data: '' @ m)"
      "list_all (\<lambda>c. \<not> line_break c) []"
    using assms(2) by (simp_all add: line_break_def)
  have none: "next_line [] = None" by (simp add: next_line_def)
  show ?thesis
    unfolding f feed_lines_LF [OF l(1)] feed_lines_LF [OF l(2)] feed_lines_LF [OF l(3)] line_event line_data
    using assms(1) by (cases p) (simp add: clean_def feed_lines.simps [of _ "[]"] none line_def data_line_def dispatch_def message_event_def)
qed

lemma decode_loop_valid: "from_utf8 s = None \<Longrightarrow> decode_loop s = (s, [])"
  by (simp add: decode_loop.simps)

lemma decode_frame: "from_utf8 m = None \<Longrightarrow> decode_loop (frame m) = (frame m, [])"
proof -
  assume m: "from_utf8 m = None"
  have "decode_loop (''event: message'' @ [CHR 0x0A] @ ''data: '') = (''event: message'' @ [CHR 0x0A] @ ''data: '', [])"
    "decode_loop [CHR 0x0A, CHR 0x0A] = ([CHR 0x0A, CHR 0x0A], [])"
    by (simp_all add: decode_loop_Complete [where n = 1] utf8_width_def)
  then show ?thesis
    unfolding frame_def
    using decode_loop_append [of "''event: message'' @ [CHR 0x0A] @ ''data: ''" "m @ [CHR 0x0A, CHR 0x0A]"]
      decode_loop_append [of m "[CHR 0x0A, CHR 0x0A]"] decode_loop_valid [OF m] by simp
qed

lemma feed_frame:
  assumes "clean p" "from_utf8 m = None" "list_all (\<lambda>c. \<not> line_break c) m"
  shows "feed p (frame m) = (p\<lparr>started := True\<rparr>, [message_event m])"
proof -
  have "text_of p (frame m) = frame m" "frame m \<noteq> []"
    by (simp_all add: text_of_def strip_bom_def strip_prefix_def BOM_def frame_def)
  moreover have c: "clean (p\<lparr>started := True\<rparr>)" using assms(1) by (simp add: clean_def)
  moreover have q: "p\<lparr>partial_character := [], pending := [], started := True\<rparr> = p\<lparr>started := True\<rparr>"
    using assms(1) by (cases p) (simp add: clean_def)
  moreover have "partial_character p = []" "pending p = []" using assms(1) by (simp_all add: clean_def)
  ultimately show ?thesis
    by (simp add: feed_unfold decode_frame [OF assms(2)] q feed_lines_frame_text [OF c assms(3)])
qed

lemma feed_frames:
  assumes "clean p" "list_all (\<lambda>m. from_utf8 m = None \<and> list_all (\<lambda>c. \<not> line_break c) m) ms"
  shows "snd (feed_all feed p (map frame ms)) = map message_event ms"
  using assms
proof (induction ms arbitrary: p)
  case (Cons m ms)
  have "clean (p\<lparr>started := True\<rparr>)" using Cons.prems(1) by (simp add: clean_def)
  then show ?case
    using Cons feed_frame [of p m] by (simp add: case_prod_unfold Let_def)
qed simp

text \<open>What a server of this gateway writes, a client of it reads. The frames of any messages in UTF-8
  without line breaks (which JSON text never has), sent one after the other and received cut in
  whatever way, give exactly those messages, in order, as \<open>message\<close> events.\<close>

theorem sse_frames_round_trip:
  assumes "list_all (\<lambda>m. from_utf8 m = None \<and> list_all (\<lambda>c. \<not> line_break c) m) ms"
    and "concat chunks = concat (map frame ms)"
  shows "snd (feed_all feed new_parser chunks) = map message_event ms"
proof -
  have "feed_all feed new_parser chunks = feed_all feed new_parser (map frame ms)"
    by (simp add: sse.feed_all_concat [OF new_parser_at_rest] assms(2))
  then show ?thesis
    using feed_frames [OF _ assms(1), of new_parser] by (simp add: clean_def new_parser_def)
qed

theorem sse_frames_round_trip_witness:
  "snd (feed_all feed new_parser
      [''event: mess'', ''age'' @ [CHR 0x0A] @ ''data: '' @ [CHR 0xC3], [CHR 0xA9, CHR 0x0A, CHR 0x0A]])
    = [message_event [CHR 0xC3, CHR 0xA9]]"
proof -
  have "from_utf8 [CHR 0xC3, CHR 0xA9] = None"
    by (simp add: from_utf8.simps utf8_width_def second_fits_def continuation_def)
  then show ?thesis
    using sse_frames_round_trip [of "[[CHR 0xC3, CHR 0xA9]]"
        "[''event: mess'', ''age'' @ [CHR 0x0A] @ ''data: '' @ [CHR 0xC3], [CHR 0xA9, CHR 0x0A, CHR 0x0A]]"]
    by (simp add: frame_def line_break_def del: feed_all.simps)
qed

end
