(* ===== verification/Bearer.thy ===== *)
theory Bearer
  imports Limiter OauthRequests
begin

text \<open>
  How a request to \<open>/mcp\<close> is let in: \<open>crates/gateway/src/bearer.rs\<close> and the allowances of
  \<open>rate_limiter.rs\<close>. It puts the access tokens, the scopes of OAuth, the public address and the
  memory limiter together. Header values are UTF-8 texts held as their bytes; URL parsing and SHA-256
  are parameters. A request reads the token in one database and writes in a later one.
\<close>

section \<open>Allowances\<close>

definition GATEWAY_REQUESTS_PER_MINUTE :: "32 word" where
  "GATEWAY_REQUESTS_PER_MINUTE = 600"

definition gateway_rate_limiter :: Limiter where
  "gateway_rate_limiter = limiter_memory GATEWAY_REQUESTS_PER_MINUTE 60000"

definition REGISTRY_CALLS_PER_MINUTE :: "32 word" where
  "REGISTRY_CALLS_PER_MINUTE = 30"

definition registry_rate_limiter :: Limiter where
  "registry_rate_limiter = limiter_memory REGISTRY_CALLS_PER_MINUTE 60000"

section \<open>Rejections\<close>

record BearerAccess =
  ba_access_token :: AccessToken
  ba_allowed_mcps :: "Mcp list"

datatype BearerRejection = BearerMissing | BearerEmpty | BearerInvalid | BearerRateLimited int

fun rejection_message :: "BearerRejection \<Rightarrow> string" where
  "rejection_message BearerMissing = ''Missing Bearer access token''"
| "rejection_message BearerEmpty = ''Empty Bearer access token''"
| "rejection_message BearerInvalid = ''Invalid, expired, or revoked access token''"
| "rejection_message (BearerRateLimited _) = ''Too many requests for this access token''"

fun rejection_status :: "BearerRejection \<Rightarrow> nat" where
  "rejection_status (BearerRateLimited _) = 429"
| "rejection_status _ = 401"

definition rejection_body :: "BearerRejection \<Rightarrow> Value" where
  "rejection_body r =
     JObject [(''error'', JString (case r of BearerRateLimited _ \<Rightarrow> ''rate_limited'' | _ \<Rightarrow> ''unauthorized'')),
              (''message'', JString (rejection_message r))]"

definition protected_resource_metadata_url ::
  "(string \<Rightarrow> Url option) \<Rightarrow> (Url \<Rightarrow> string) \<Rightarrow> Config \<Rightarrow> (PublicUrlError, string) result" where
  "protected_resource_metadata_url parse origin config =
     and_then (require_public_app_url parse origin config)
       (\<lambda>base. Inr (base @ ''/.well-known/oauth-protected-resource/mcp''))"

definition quoted :: "string \<Rightarrow> string \<Rightarrow> string" where
  "quoted name value = name @ ''='' @ [CHR 0x22] @ value @ [CHR 0x22]"

definition www_authenticate ::
  "(string \<Rightarrow> Url option) \<Rightarrow> (Url \<Rightarrow> string) \<Rightarrow> Config \<Rightarrow> BearerRejection \<Rightarrow> string option" where
  "www_authenticate parse origin config r =
     (case r of
        BearerRateLimited _ \<Rightarrow> None
      | _ \<Rightarrow> Some (''Bearer '' @ join_with '', ''
          ((if r = BearerInvalid then [quoted ''error'' ''invalid_token''] else [])
           @ (case protected_resource_metadata_url parse origin config of
                Inr u \<Rightarrow> [quoted ''resource_metadata'' u] | Inl _ \<Rightarrow> [])
           @ [quoted ''scope'' GATEWAY_OAUTH_SCOPE])))"

fun rejection_retry_after :: "BearerRejection \<Rightarrow> int option" where
  "rejection_retry_after (BearerRateLimited retry_after) = Some retry_after"
| "rejection_retry_after _ = None"

section \<open>Letting a request in\<close>

definition has_valid_oauth_audience_and_scope ::
  "(string \<Rightarrow> Url option) \<Rightarrow> (Url \<Rightarrow> string) \<Rightarrow> Config \<Rightarrow> AccessToken \<Rightarrow> bool" where
  "has_valid_oauth_audience_and_scope parse origin config token =
     (if token_source token \<noteq> Oauth then True
      else
        (case (oauth_resource token, gateway_resource_url parse origin config) of
           (Some resource, Inr gateway_resource) \<Rightarrow>
             (case parse resource of None \<Rightarrow> False | Some u \<Rightarrow> url_text u = gateway_resource)
             \<and> (case oauth_scopes token of None \<Rightarrow> False | Some scopes \<Rightarrow> is_usable_grant scopes)
         | _ \<Rightarrow> False))"

text \<open>A place in a UTF-8 text is a boundary when it is the end or no continuation byte stands there.\<close>

definition is_char_boundary :: "string \<Rightarrow> nat \<Rightarrow> bool" where
  "is_char_boundary s n \<longleftrightarrow>
     n = length s \<or> (n < length s \<and> \<not> (let b = (of_char (s ! n) :: nat) in 0x80 \<le> b \<and> b < 0xC0))"

definition split_at_checked :: "string \<Rightarrow> nat \<Rightarrow> (string \<times> string) option" where
  "split_at_checked s n = (if is_char_boundary s n then Some (take n s, drop n s) else None)"

definition bearer_credentials :: "string option \<Rightarrow> string option" where
  "bearer_credentials authorization_header =
     (case authorization_header of
        None \<Rightarrow> None
      | Some header \<Rightarrow>
          (case split_at_checked header 7 of
             None \<Rightarrow> None
           | Some (given, credentials) \<Rightarrow>
               if eq_ignore_ascii_case given ''bearer '' then Some credentials else None))"

definition limiter_key :: "AccessToken \<Rightarrow> string" where
  "limiter_key token = ''mcp:'' @ show_int (at_id token)"

text \<open>The row in memory after \<open>touch_last_used\<close>.\<close>

definition touched :: "AccessToken \<Rightarrow> int \<Rightarrow> AccessToken" where
  "touched token now =
     (if (case last_used_at token of None \<Rightarrow> False
          | Some u \<Rightarrow> u > now - LAST_USED_WRITE_INTERVAL_MINUTES * 60) then token
      else token\<lparr>last_used_at := Some now, at_updated_at := Some now\<rparr>)"

text \<open>\<open>d0\<close> is read at \<open>now\<close>, the limiter reads its own clock \<open>ms\<close>, and \<open>d\<close> is written to.\<close>

definition authenticate_bearer ::
  "(string \<Rightarrow> string) \<Rightarrow> (string \<Rightarrow> Url option) \<Rightarrow> (Url \<Rightarrow> string) \<Rightarrow> Config \<Rightarrow> string option \<Rightarrow> int \<Rightarrow> int
     \<Rightarrow> Limiter \<Rightarrow> db \<Rightarrow> db \<Rightarrow> Limiter \<times> db \<times> (BearerRejection, BearerAccess) result" where
  "authenticate_bearer sha parse origin config authorization_header now ms l d0 d =
     (case bearer_credentials authorization_header of
        None \<Rightarrow> (l, d, Inl BearerMissing)
      | Some credentials \<Rightarrow>
          (let plaintext = trim credentials in
           if plaintext = [] then (l, d, Inl BearerEmpty)
           else
             (case find_usable_by_plaintext sha d0 plaintext now of
                None \<Rightarrow> (l, d, Inl BearerInvalid)
              | Some token \<Rightarrow>
                  if \<not> has_valid_oauth_audience_and_scope parse origin config token then (l, d, Inl BearerInvalid)
                  else
                    (case consume l (limiter_key token) ms of
                       (l1, Inl (TooManyRequests response)) \<Rightarrow>
                         (l1, d, Inl (BearerRateLimited (available_in_secs response)))
                     | (l1, Inr _) \<Rightarrow>
                         (let d1 = touch_last_used token now d; token = touched token now in
                          (l1, d1, Inr \<lparr>ba_access_token = token, ba_allowed_mcps = resolve_allowed_mcps d1 token\<rparr>))))))"

section \<open>What is let in\<close>

lemma touched_same [simp]:
  "at_id (touched a now) = at_id a" "token_hash (touched a now) = token_hash a"
  "at_team_id (touched a now) = at_team_id a" "scope_mode (touched a now) = scope_mode a"
  "oauth_scopes (touched a now) = oauth_scopes a" "token_source (touched a now) = token_source a"
  "oauth_resource (touched a now) = oauth_resource a"
  by (simp_all add: touched_def split: option.splits)

text \<open>The one place where a request gets in.\<close>

lemma authenticate_bearer_Inr:
  assumes "authenticate_bearer sha parse origin config header now ms l d0 d = (l', d', Inr access)"
  obtains credentials token response where
    "bearer_credentials header = Some credentials" "trim credentials \<noteq> []"
    "find_usable_by_plaintext sha d0 (trim credentials) now = Some token"
    "has_valid_oauth_audience_and_scope parse origin config token"
    "consume l (limiter_key token) ms = (l', Inr response)" "d' = touch_last_used token now d"
    "access = \<lparr>ba_access_token = touched token now, ba_allowed_mcps = resolve_allowed_mcps d' (touched token now)\<rparr>"
  using assms
  by (auto simp: authenticate_bearer_def Let_def
      split: option.split_asm if_split_asm prod.split_asm sum.split_asm LimiterError.split_asm)

lemma touch_last_used_mcps [simp]:
  "mcps (touch_last_used token now d) = mcps d"
  "access_token_mcps (touch_last_used token now d) = access_token_mcps d"
  by (simp_all add: touch_last_used_def split: option.split)

section \<open>Many requests\<close>

record bearer_request =
  br_header :: "string option"
  br_now :: int
  br_ms :: int
  br_read :: db
  br_write :: db

text \<open>The answers to a sequence of requests, each on the databases it meets, sharing the limiter.\<close>

fun bearer_run ::
  "(string \<Rightarrow> string) \<Rightarrow> (string \<Rightarrow> Url option) \<Rightarrow> (Url \<Rightarrow> string) \<Rightarrow> Config \<Rightarrow> Limiter \<Rightarrow> bearer_request list
     \<Rightarrow> (BearerRejection, BearerAccess) result list" where
  "bearer_run sha parse origin config l [] = []"
| "bearer_run sha parse origin config l (r # rs) =
     (let (l1, _, answer) =
        authenticate_bearer sha parse origin config (br_header r) (br_now r) (br_ms r) l (br_read r) (br_write r) in
      answer # bearer_run sha parse origin config l1 rs)"

definition let_in :: "int \<Rightarrow> (BearerRejection, BearerAccess) result \<Rightarrow> bool" where
  "let_in i answer = (case answer of Inl _ \<Rightarrow> False | Inr access \<Rightarrow> at_id (ba_access_token access) = i)"

text \<open>A request reaches the limiter once or not at all.\<close>

lemma authenticate_bearer_limiter:
  assumes "authenticate_bearer sha parse origin config header now ms l d0 d = (l', d', answer)"
  obtains (apart) "l' = l" "\<not> let_in i answer"
    | (counted) token r where "consume l (limiter_key token) ms = (l', r)" "let_in i answer \<Longrightarrow> at_id token = i \<and> is_ok r"
  using assms
  by (auto simp: authenticate_bearer_def let_in_def Let_def
      split: option.split_asm if_split_asm prod.split_asm sum.split_asm LimiterError.split_asm)

definition bearer_key :: "int \<Rightarrow> string" where
  "bearer_key i = ''mcp:'' @ show_int i"

lemma bearer_run_calls:
  assumes "sorted (map br_ms rs)"
  shows "\<exists>calls. sorted (map fst calls) \<and> fst ` set calls \<subseteq> br_ms ` set rs
    \<and> (\<forall>c \<in> set calls. \<exists>k. snd c = OpConsume k)
    \<and> count_where (let_in i) (bearer_run sha parse origin config l rs)
        \<le> count_where (admitted (bearer_key i)) (limiter_run l calls)"
  using assms
proof (induction rs arbitrary: l)
  case Nil
  then show ?case by (intro exI [of _ "[]"]) simp
next
  case (Cons r rs)
  obtain l1 d1 answer where a: "authenticate_bearer sha parse origin config (br_header r) (br_now r) (br_ms r) l (br_read r) (br_write r)
      = (l1, d1, answer)" by (metis prod_cases3)
  obtain calls where calls: "sorted (map fst calls)" "fst ` set calls \<subseteq> br_ms ` set rs"
      "\<forall>c \<in> set calls. \<exists>k. snd c = OpConsume k"
      "count_where (let_in i) (bearer_run sha parse origin config l1 rs) \<le> count_where (admitted (bearer_key i)) (limiter_run l1 calls)"
    using Cons.IH [of l1] Cons.prems by auto
  from a show ?case
  proof (cases rule: authenticate_bearer_limiter [where i = i])
    case apart
    then show ?thesis
      using calls a by (intro exI [of _ calls]) auto
  next
    case (counted token x)
    have "sorted (map fst ((br_ms r, OpConsume (limiter_key token)) # calls))"
      using calls(1,2) Cons.prems by auto
    moreover have "admitted (bearer_key i) (OpConsume (limiter_key token), OutConsume x)" if "let_in i answer"
      using counted(2) [OF that] by (simp add: admitted_def bearer_key_def limiter_key_def)
    ultimately show ?thesis
      using calls a counted(1)
      by (intro exI [of _ "(br_ms r, OpConsume (limiter_key token)) # calls"]) (auto simp: limiter_exec_def)
  qed
qed

text \<open>An access token gets at most its allowance of requests in. Of any requests to \<open>/mcp\<close>, with
  whatever headers, for whatever tokens and on whatever databases, that arrive within one minute in
  the order of the limiter's clock, at most six hundred are let in for one token when the minute finds
  none of its requests still counted, and never more than twice that.\<close>

theorem bearer_allowance:
  assumes "limiter_good l" and "requests l = GATEWAY_REQUESTS_PER_MINUTE" and "duration_ms l = 60000"
    and "sorted (map br_ms rs)" and "list_all (\<lambda>r. t \<le> br_ms r \<and> br_ms r < t + 60000) rs"
  shows "count_where (let_in i) (bearer_run sha parse origin config l rs)
    \<le> (if limiter_look l (bearer_key i) t = None then 600 else 1200)"
proof -
  obtain calls where calls: "sorted (map fst calls)" "fst ` set calls \<subseteq> br_ms ` set rs"
      "\<forall>c \<in> set calls. \<exists>k. snd c = OpConsume k"
      "count_where (let_in i) (bearer_run sha parse origin config l rs)
        \<le> count_where (admitted (bearer_key i)) (limiter_run l calls)"
    using bearer_run_calls [OF assms(4)] by blast
  have req: "uint (requests l) = 600" by (simp add: assms(2) GATEWAY_REQUESTS_PER_MINUTE_def)
  have "\<forall>c \<in> set calls. t \<le> fst c \<and> keeps_count (bearer_key i) (snd c)" "\<forall>c \<in> set calls. fst c < t + 60000"
    using calls(2,3) assms(5) by (fastforce simp: list_all_iff keeps_count_def)+
  from limiter_run_budget [OF assms(1) _ calls(1) this]
  have "int (count_where (admitted (bearer_key i)) (limiter_run l calls))
      \<le> budget 600 (t + 60000) (limiter_look l (bearer_key i) t)"
    by (simp add: req assms(3))
  also have "\<dots> \<le> (if limiter_look l (bearer_key i) t = None then 600 else 1200)"
    using limiter.look_nonneg [OF assms(1), of "bearer_key i" t] by (auto simp: budget_def split: option.splits)
  finally show ?thesis using calls(4) by (auto split: if_splits)
qed

definition presented :: "(string \<Rightarrow> string) \<Rightarrow> string option \<Rightarrow> AccessToken \<Rightarrow> bool" where
  "presented sha header token \<longleftrightarrow> (\<exists>h. header = Some h \<and> eq_ignore_ascii_case (take 7 h) ''bearer ''
     \<and> trim (drop 7 h) \<noteq> [] \<and> token_hash token = sha (trim (drop 7 h)))"

definition issued_here :: "(string \<Rightarrow> Url option) \<Rightarrow> (Url \<Rightarrow> string) \<Rightarrow> Config \<Rightarrow> AccessToken \<Rightarrow> bool" where
  "issued_here parse origin config token \<longleftrightarrow>
     (\<exists>r u s. oauth_resource token = Some r \<and> parse r = Some u
        \<and> gateway_resource_url parse origin config = Inr (url_text u)
        \<and> oauth_scopes token = Some s \<and> has_scope s GATEWAY_OAUTH_SCOPE)"

text \<open>C7: What is let in at \<open>/mcp\<close>. The header names the Bearer scheme, in any case; what follows, trimmed,
  hashes to the token of the access; that token stood in the database read, neither revoked nor
  expired, and when it comes from OAuth was issued for this gateway with the scope of tools. The MCPs
  of the access are exactly the enabled ones of the token's team, within its selection; and the
  request changed nothing but when this token was last used.\<close>

theorem bearer_lets_in_live_tokens:
  assumes "authenticate_bearer sha parse origin config header now ms l d0 d = (l', d', Inr access)"
  shows "\<exists>token \<in> set (rows (access_tokens d0)).
      presented sha header token \<and> is_usable token now \<and> at_id (ba_access_token access) = at_id token
      \<and> (token_source token = Manual \<or> issued_here parse origin config token)
      \<and> (\<forall>m. m \<in> set (ba_allowed_mcps access) \<longleftrightarrow>
           m \<in> set (rows (mcps d)) \<and> mcp_enabled m \<and> mcp_team_id m = at_team_id token
           \<and> (scope_mode token = ScopeAll \<or> mcp_id m \<in> set (links_of d (at_id token))))
      \<and> (d' = d \<or> d' = d\<lparr>access_tokens := upd (\<lambda>a. at_id a = at_id token)
           (\<lambda>a. a\<lparr>last_used_at := Some now, at_updated_at := Some now\<rparr>) (access_tokens d)\<rparr>)"
proof -
  obtain credentials token response where o:
    "bearer_credentials header = Some credentials" "trim credentials \<noteq> []"
    "find_usable_by_plaintext sha d0 (trim credentials) now = Some token"
    "has_valid_oauth_audience_and_scope parse origin config token"
    "consume l (limiter_key token) ms = (l', Inr response)" "d' = touch_last_used token now d"
    "access = \<lparr>ba_access_token = touched token now, ba_allowed_mcps = resolve_allowed_mcps d' (touched token now)\<rparr>"
    using authenticate_bearer_Inr [OF assms] .
  have token: "token \<in> set (rows (access_tokens d0))" "token_hash token = sha (trim credentials)" "is_usable token now"
    using o(3) by (auto simp: find_usable_by_plaintext_def split: option.split_asm if_split_asm dest!: find_row_Some)
  moreover from this(2) have "presented sha header token"
    using o(1,2) by (auto simp: presented_def bearer_credentials_def split_at_checked_def split: option.split_asm if_split_asm)
  moreover have "token_source token = Manual \<or> issued_here parse origin config token"
    using o(4) by (cases "token_source token")
      (auto simp: issued_here_def is_usable_grant_def has_valid_oauth_audience_and_scope_def split: option.split_asm sum.split_asm)
  moreover have "m \<in> set (ba_allowed_mcps access) \<longleftrightarrow>
      m \<in> set (rows (mcps d)) \<and> mcp_enabled m \<and> mcp_team_id m = at_team_id token
      \<and> (scope_mode token = ScopeAll \<or> mcp_id m \<in> set (links_of d (at_id token)))" for m
    by (auto simp: o(6,7) resolve_allowed_mcps_def links_of_iff)
  moreover have "d' = d \<or> d' = d\<lparr>access_tokens := upd (\<lambda>a. at_id a = at_id token)
      (\<lambda>a. a\<lparr>last_used_at := Some now, at_updated_at := Some now\<rparr>) (access_tokens d)\<rparr>"
    by (auto simp: o(6) touch_last_used_def split: option.split)
  ultimately show ?thesis using o(7) by (intro bexI [of _ token]) auto
qed

theorem bearer_lets_in_live_tokens_witness:
  "\<exists>access l' d'. authenticate_bearer (\<lambda>s. s) (\<lambda>_. None) url_text \<lparr>app_url = None, is_development = False, is_test = False\<rparr>
      (Some ''beaRer  h3'') 50 0 gateway_rate_limiter granted_db granted_db = (l', d', Inr access)
    \<and> presented (\<lambda>s. s) (Some ''beaRer  h3'') (ba_access_token access)"
proof -
  let ?run = "authenticate_bearer (\<lambda>s. s) (\<lambda>_. None) url_text \<lparr>app_url = None, is_development = False, is_test = False\<rparr>
      (Some ''beaRer  h3'') 50 0 gateway_rate_limiter granted_db granted_db"
  have b: "bearer_credentials (Some ''beaRer  h3'') = Some '' h3''" by code_simp
  have t: "trim '' h3'' = ''h3''" by code_simp
  obtain token where f: "find_usable_by_plaintext (\<lambda>s. s) granted_db ''h3'' 50 = Some token" "token_source token = Manual"
  proof -
    have "case find_usable_by_plaintext (\<lambda>s. s) granted_db ''h3'' 50 of None \<Rightarrow> False | Some a \<Rightarrow> token_source a = Manual"
      by code_simp
    then show ?thesis using that by (auto split: option.split_asm)
  qed
  have "is_ok (snd (consume gateway_rate_limiter (limiter_key token) 0))"
    by (simp add: consume_unfold gateway_rate_limiter_def limiter_memory_def GATEWAY_REQUESTS_PER_MINUTE_def limiter_bump_def
        memory_add_def memory_sweep_def SWEEP_INTERVAL_MS_def Let_def)
  then have "is_ok (snd (snd ?run))"
    by (auto simp: authenticate_bearer_def b t f has_valid_oauth_audience_and_scope_def Let_def
        split: prod.split sum.split LimiterError.split)
  then obtain access l' d' where run: "?run = (l', d', Inr access)"
    by (metis is_ok_iff prod.collapse)
  obtain token where token: "presented (\<lambda>s. s) (Some ''beaRer  h3'') token" "at_id (ba_access_token access) = at_id token"
      "token \<in> set (rows (access_tokens granted_db))"
    using bearer_lets_in_live_tokens [OF run] by blast
  obtain credentials found where "access = \<lparr>ba_access_token = touched found 50, ba_allowed_mcps = resolve_allowed_mcps d' (touched found 50)\<rparr>"
      "find_usable_by_plaintext (\<lambda>s. s) granted_db (trim credentials) 50 = Some found"
    using authenticate_bearer_Inr [OF run] by metis
  moreover from this(2) have "found \<in> set (rows (access_tokens granted_db))"
    by (auto simp: find_usable_by_plaintext_def split: option.split_asm if_split_asm dest!: find_row_Some)
  moreover have "table_ok at_id (access_tokens granted_db)" by code_simp
  ultimately have "found = token" using token(2,3) table_ok_unique by (metis BearerAccess.select_convs(1) touched_same(1))
  then show ?thesis
    using run token(1) \<open>access = _\<close> by (auto simp: presented_def)
qed

theorem bearer_allowance_witness:
  "count_where (let_in 3) (bearer_run (\<lambda>s. s) (\<lambda>_. None) url_text \<lparr>app_url = None, is_development = False, is_test = False\<rparr>
     gateway_rate_limiter
     [\<lparr>br_header = Some ''Bearer h3'', br_now = 50, br_ms = 5, br_read = granted_db, br_write = granted_db\<rparr>,
      \<lparr>br_header = None, br_now = 50, br_ms = 6, br_read = granted_db, br_write = granted_db\<rparr>]) \<le> 600"
  using bearer_allowance [of gateway_rate_limiter
      "[\<lparr>br_header = Some ''Bearer h3'', br_now = 50, br_ms = 5, br_read = granted_db, br_write = granted_db\<rparr>,
        \<lparr>br_header = None, br_now = 50, br_ms = 6, br_read = granted_db, br_write = granted_db\<rparr>]" 5 3]
  by (simp add: gateway_rate_limiter_def limiter_memory_def limiter_good_def memory_good_def limiter_look_def memory_look_def
      del: bearer_run.simps)

lemma revoked_not_let_in:
  assumes "authenticate_bearer sha parse origin config header now ms l d0 d = (l', d', Inr access)"
    and "dead_token i e" and "(token_step late sha)\<^sup>*\<^sup>* e d0"
  shows "at_id (ba_access_token access) \<noteq> i"
  using authenticate_bearer_Inr [OF assms(1)] dead_token_unusable [OF dead_tokens.reachable_inv [OF assms(3,2)]]
  by (metis BearerAccess.select_convs(1) touched_same(1))

end
