(* ===== verification/Approvals.thy ===== *)
theory Approvals
  imports OauthRequests
begin

text \<open>
  Tool calls that wait for a person: \<open>crates/upstream/src/approvals.rs\<close> (which tools ask),
  \<open>crates/gateway/src/approvals/mod.rs\<close> (the gate, the requests, the decisions) and the handler of
  \<open>crates/web/src/routes/approvals.rs\<close>. Reading and writing JSON is a parameter, as are hashing and
  encryption, the built-in tools' own word on whether they ask, and the summary an MCP gives of a
  call. The calls of one access token pass the gate one at a time, as \<open>in_turn\<close> makes them; a
  decision may fall anywhere, so what a gate reads and what it writes take a database each.
\<close>

section \<open>Which tools ask\<close>

datatype ToolApprovalMode = Auto | Ask

fun mode_text :: "ToolApprovalMode \<Rightarrow> string" where
  "mode_text Auto = ''auto''"
| "mode_text Ask = ''ask''"

definition mode_parse :: "string \<Rightarrow> ToolApprovalMode option" where
  "mode_parse value =
     (if value = ''auto'' then Some Auto else if value = ''ask'' then Some Ask else None)"

fun read_modes :: "(string \<times> Value) list \<Rightarrow> (string \<times> ToolApprovalMode) list option" where
  "read_modes [] = Some []"
| "read_modes ((name, v) # rest) =
     (case as_str (Some v) of
        None \<Rightarrow> None
      | Some s \<Rightarrow>
          (case mode_parse s of
             None \<Rightarrow> None | Some m \<Rightarrow> map_option (Cons (name, m)) (read_modes rest)))"

definition saved_tool_approvals ::
  "(string \<Rightarrow> Value option) \<Rightarrow> Mcp \<Rightarrow> (string \<times> ToolApprovalMode) list option" where
  "saved_tool_approvals from_str mcp =
     (case non_empty (mcp_tool_approvals mcp) of
        None \<Rightarrow> Some []
      | Some saved \<Rightarrow>
          (case from_str saved of
             Some (JObject entries) \<Rightarrow> read_modes entries
           | _ \<Rightarrow> None))"

definition MAX_CHOOSABLE_NAME_UNITS :: nat where
  "MAX_CHOOSABLE_NAME_UNITS = 254"

definition can_be_chosen :: "string \<Rightarrow> bool" where
  "can_be_chosen tool \<longleftrightarrow> (let name = trim tool in name \<noteq> [] \<and> utf16_len name \<le> MAX_CHOOSABLE_NAME_UNITS)"

text \<open>\<open>asks mcp tool\<close>: the MCP is a built-in one, has the tool, and the tool asks.\<close>

definition default_tool_approval :: "(Mcp \<Rightarrow> string \<Rightarrow> bool) \<Rightarrow> Mcp \<Rightarrow> string \<Rightarrow> ToolApprovalMode" where
  "default_tool_approval asks mcp tool =
     (if \<not> can_be_chosen tool then Ask else if asks mcp tool then Ask else Auto)"

definition mode_of ::
  "(Mcp \<Rightarrow> string \<Rightarrow> bool) \<Rightarrow> (string \<times> ToolApprovalMode) list option \<Rightarrow> Mcp \<Rightarrow> string \<Rightarrow> ToolApprovalMode" where
  "mode_of asks saved mcp tool =
     (case saved of
        None \<Rightarrow> Ask
      | Some modes \<Rightarrow>
          (case map_of modes tool of None \<Rightarrow> default_tool_approval asks mcp tool | Some m \<Rightarrow> m))"

definition tool_approval_mode ::
  "(string \<Rightarrow> Value option) \<Rightarrow> (Mcp \<Rightarrow> string \<Rightarrow> bool) \<Rightarrow> Mcp \<Rightarrow> string \<Rightarrow> ToolApprovalMode" where
  "tool_approval_mode from_str asks mcp tool = mode_of asks (saved_tool_approvals from_str mcp) mcp tool"

definition tool_approval_modes ::
  "(string \<Rightarrow> Value option) \<Rightarrow> (Mcp \<Rightarrow> string \<Rightarrow> bool) \<Rightarrow> Mcp \<Rightarrow> string list \<Rightarrow> (string \<times> ToolApprovalMode) list" where
  "tool_approval_modes from_str asks mcp names =
     (let saved = saved_tool_approvals from_str mcp in map (\<lambda>name. (name, mode_of asks saved mcp name)) names)"

definition APPROVAL_NOTE :: string where
  "APPROVAL_NOTE = ''Needs approval: the first call is not run and returns a link for a person to approve in MyMCPs. Once they have, call the tool again with the same arguments.''"

record UpstreamTool =
  tool_name :: string
  tool_description :: "string option"
  tool_input_schema :: Value

definition with_approval_notes ::
  "(string \<Rightarrow> Value option) \<Rightarrow> (Mcp \<Rightarrow> string \<Rightarrow> bool) \<Rightarrow> Mcp \<Rightarrow> UpstreamTool list \<Rightarrow> UpstreamTool list" where
  "with_approval_notes from_str asks mcp tools =
     (let saved = saved_tool_approvals from_str mcp in
      map (\<lambda>tool. if mode_of asks saved mcp (tool_name tool) = Ask
             then tool\<lparr>tool_description := Some (case non_empty (tool_description tool) of
                    Some description \<Rightarrow> description @ [CHR 0x0A, CHR 0x0A] @ APPROVAL_NOTE
                  | None \<Rightarrow> APPROVAL_NOTE)\<rparr>
             else tool) tools)"

text \<open>Writing a name again replaces its mode where it stands.\<close>

fun map_insert :: "string \<Rightarrow> Value \<Rightarrow> (string \<times> Value) list \<Rightarrow> (string \<times> Value) list" where
  "map_insert k v [] = [(k, v)]"
| "map_insert k v ((k', v') # m) = (if k' = k then (k, v) # m else (k', v') # map_insert k v m)"

fun differing ::
  "(Mcp \<Rightarrow> string \<Rightarrow> bool) \<Rightarrow> Mcp \<Rightarrow> (string \<times> ToolApprovalMode) list \<Rightarrow> (string \<times> Value) list \<Rightarrow> (string \<times> Value) list" where
  "differing asks mcp [] saved = saved"
| "differing asks mcp ((name, mode) # choices) saved =
     differing asks mcp choices
       (if mode \<noteq> default_tool_approval asks mcp name then map_insert name (JString (mode_text mode)) saved else saved)"

definition assign_tool_approvals ::
  "(Value \<Rightarrow> string) \<Rightarrow> (Mcp \<Rightarrow> string \<Rightarrow> bool) \<Rightarrow> Mcp \<Rightarrow> (string \<times> ToolApprovalMode) list \<Rightarrow> Mcp" where
  "assign_tool_approvals to_string asks mcp choices =
     (let saved = differing asks mcp choices [] in
      mcp\<lparr>mcp_tool_approvals := (if saved \<noteq> [] then Some (to_string (JObject saved)) else None)\<rparr>)"

section \<open>Requests\<close>

datatype ApprovalState = StatePending | StateApproved | StateUsed | StateDenied | StateExpired

definition request_is_expired :: "ApprovalRequest \<Rightarrow> int \<Rightarrow> bool" where
  "request_is_expired r now \<longleftrightarrow> ar_expires_at r \<le> now"

definition request_state :: "ApprovalRequest \<Rightarrow> int \<Rightarrow> ApprovalState" where
  "request_state r now =
     (if ar_status r = Denied then StateDenied
      else if ar_status r = Approved \<and> consumed_at r \<noteq> None then StateUsed
      else if request_is_expired r now then StateExpired
      else if ar_status r = Approved then StateApproved
      else StatePending)"

definition APPROVAL_PENDING_HOURS :: int where
  "APPROVAL_PENDING_HOURS = 24"

definition APPROVAL_GRANT_HOURS :: int where
  "APPROVAL_GRANT_HOURS = 24"

definition MAX_PENDING_PER_TOKEN :: nat where
  "MAX_PENDING_PER_TOKEN = 20"

definition MAX_ARGUMENT_BYTES :: nat where
  "MAX_ARGUMENT_BYTES = 256 * 1024"

definition KEPT_DAYS :: int where
  "KEPT_DAYS = 30"

definition PRUNE_INTERVAL :: int where
  "PRUNE_INTERVAL = 60 * 60"

record GatedCall =
  gc_access_token :: AccessToken
  gc_mcp :: Mcp
  gc_tool_name :: string
  gc_args :: "(string \<times> Value) list option"

datatype ApprovalGate =
    Open
  | HeldDenied
  | HeldWaiting ApprovalRequest bool
  | HeldRefused string

datatype approval_error = ApprovalDatabase db_error | ApprovalUpstream

text \<open>What the gate asks of the rest: the hash of the arguments, their text, encryption, and the
  summary (\<open>Inl (Some message)\<close> a refusal said to the agent, \<open>Inl None\<close> a failure).\<close>

record approval_env =
  env_hash :: "(string \<times> Value) list option \<Rightarrow> string"
  env_serialize :: "(string \<times> Value) list option \<Rightarrow> string"
  env_encrypt :: "string \<Rightarrow> string"
  env_summarize :: "GatedCall \<Rightarrow> (string option, string) result"

definition same_call :: "approval_env \<Rightarrow> GatedCall \<Rightarrow> ApprovalRequest \<Rightarrow> bool" where
  "same_call env call r \<longleftrightarrow> ar_access_token_id r = at_id (gc_access_token call)
     \<and> ar_mcp_id r = mcp_id (gc_mcp call) \<and> ar_tool_name r = gc_tool_name call
     \<and> arguments_hash r = env_hash env (gc_args call)"

definition latest_request :: "approval_env \<Rightarrow> GatedCall \<Rightarrow> int \<Rightarrow> db \<Rightarrow> ApprovalRequest option" where
  "latest_request env call now d =
     find (\<lambda>r. same_call env call r \<and> consumed_at r = None \<and> ar_expires_at r > now)
       (rev (rows (approval_requests d)))"

definition consume_request :: "ApprovalRequest \<Rightarrow> int \<Rightarrow> db \<Rightarrow> db \<times> bool" where
  "consume_request r now d =
     (let P = (\<lambda>x. ar_id x = ar_id r \<and> ar_status x = ar_status r \<and> consumed_at x = None) in
      (d\<lparr>approval_requests := upd P (\<lambda>x. x\<lparr>consumed_at := Some now\<rparr>) (approval_requests d)\<rparr>,
       count_rows P (approval_requests d) = 1))"

definition insert_request :: "ApprovalRequest \<Rightarrow> int \<Rightarrow> db \<Rightarrow> (db_error, db \<times> ApprovalRequest) result" where
  "insert_request r now d =
     (let r1 = r\<lparr>ar_id := seq (approval_requests d) + 1, ar_created_at := now, ar_updated_at := Some now\<rparr> in
      ensure (\<not> has_row (\<lambda>x. public_id x = public_id r) (approval_requests d)) UniqueViolation
      (ensure (has_row (\<lambda>m. mcp_id m = ar_mcp_id r) (mcps d)
               \<and> has_row (\<lambda>a. at_id a = ar_access_token_id r) (access_tokens d)) ForeignKeyViolation
      (Inr (d\<lparr>approval_requests := append_row (\<lambda>i. r1\<lparr>ar_id := i\<rparr>) (approval_requests d)\<rparr>, r1))))"

definition pending_of :: "int \<Rightarrow> int \<Rightarrow> db \<Rightarrow> nat" where
  "pending_of token now d =
     count_rows (\<lambda>r. ar_access_token_id r = token \<and> ar_status r = Pending \<and> ar_expires_at r > now)
       (approval_requests d)"

text \<open>Between the count and the insert lies the summary, which may take long: the count is of \<open>d0\<close>.
  A request error is \<open>Inl (Inl message)\<close> when the agent is told, \<open>Inl (Inr e)\<close> a failure.\<close>

definition request_approval ::
  "approval_env \<Rightarrow> GatedCall \<Rightarrow> string \<Rightarrow> int \<Rightarrow> db \<Rightarrow> db \<Rightarrow> (string + approval_error, db \<times> ApprovalRequest) result" where
  "request_approval env call fresh now d0 d =
     (let serialized = env_serialize env (gc_args call);
          mcp = mcp_name (gc_mcp call) in
      ensure (length serialized \<le> MAX_ARGUMENT_BYTES)
        (Inl (gc_tool_name call @ '' on '' @ mcp @
          '' needs the approval of a person, who cannot be shown arguments of more than '' @
          show_nat (MAX_ARGUMENT_BYTES div 1024) @ '' KB. Make the call smaller.''))
      (ensure (pending_of (at_id (gc_access_token call)) now d0 < MAX_PENDING_PER_TOKEN)
        (Inl (show_nat MAX_PENDING_PER_TOKEN @
          '' calls of this access token already wait for approval in MyMCPs. Ask the person to decide them before asking for more.''))
      (case env_summarize env call of
         Inl (Some message) \<Rightarrow> Inl (Inl message)
       | Inl None \<Rightarrow> Inl (Inr ApprovalUpstream)
       | Inr summary \<Rightarrow>
           (case insert_request \<lparr>ar_id = 0, public_id = fresh, ar_mcp_id = mcp_id (gc_mcp call),
                   ar_access_token_id = at_id (gc_access_token call), ar_tool_name = gc_tool_name call,
                   ar_arguments = env_encrypt env serialized,
                   arguments_hash = env_hash env (gc_args call), ar_summary = env_encrypt env summary,
                   ar_status = Pending, decided_by = None, decided_at = None, consumed_at = None,
                   ar_expires_at = now + APPROVAL_PENDING_HOURS * 3600, ar_created_at = 0,
                   ar_updated_at = None\<rparr> now d of
              Inl e \<Rightarrow> Inl (Inr (ApprovalDatabase e))
            | Inr x \<Rightarrow> Inr x))))"

text \<open>A new request: \<open>d0\<close> is what it counts in, \<open>d\<close> what it is inserted in.\<close>

definition ask_person ::
  "approval_env \<Rightarrow> GatedCall \<Rightarrow> string \<Rightarrow> int \<Rightarrow> db \<Rightarrow> db \<Rightarrow> db \<times> (approval_error, ApprovalGate) result" where
  "ask_person env call fresh t1 d0 d =
     (case request_approval env call fresh t1 d0 d of
        Inr (d1, r) \<Rightarrow> (d1, Inr (HeldWaiting r True))
      | Inl (Inl message) \<Rightarrow> (d, Inr (HeldRefused message))
      | Inl (Inr e) \<Rightarrow> (d, Inl e))"

text \<open>One call at the gate: \<open>d0\<close> is what it first reads, at \<open>t0\<close>, and \<open>d\<close> what it then writes to, at \<open>t1\<close>.\<close>

definition decided ::
  "approval_env \<Rightarrow> GatedCall \<Rightarrow> string \<Rightarrow> int \<Rightarrow> int \<Rightarrow> db \<Rightarrow> db \<Rightarrow> db \<times> (approval_error, ApprovalGate) result" where
  "decided env call fresh t0 t1 d0 d =
     (case latest_request env call t0 d0 of
        None \<Rightarrow> ask_person env call fresh t1 d d
      | Some latest \<Rightarrow>
          (case ar_status latest of
             Approved \<Rightarrow>
               (let (d1, ok) = consume_request latest t1 d in
                if ok then (d1, Inr Open) else ask_person env call fresh t1 d1 d1)
           | Denied \<Rightarrow> (fst (consume_request latest t1 d), Inr HeldDenied)
           | Pending \<Rightarrow> (d, Inr (HeldWaiting latest False))))"

definition gate ::
  "(string \<Rightarrow> Value option) \<Rightarrow> (Mcp \<Rightarrow> string \<Rightarrow> bool) \<Rightarrow> approval_env \<Rightarrow> GatedCall \<Rightarrow> string \<Rightarrow> int \<Rightarrow> int
     \<Rightarrow> db \<Rightarrow> db \<Rightarrow> db \<times> (approval_error, ApprovalGate) result" where
  "gate from_str asks env call fresh t0 t1 d0 d =
     (if tool_approval_mode from_str asks (gc_mcp call) (gc_tool_name call) = Auto then (d, Inr Open)
      else decided env call fresh t0 t1 d0 d)"

section \<open>Decisions\<close>

datatype Decision = Approve | Deny

record ApprovalScope =
  as_team_id :: int
  as_user_id :: int
  as_admin :: bool

definition scope_of :: "User \<Rightarrow> Membership \<Rightarrow> ApprovalScope" where
  "scope_of user team =
     \<lparr>as_team_id = t_id (ms_team team), as_user_id = u_id user, as_admin = is_admin (ms_role team)\<rparr>"

definition visible_to :: "db \<Rightarrow> ApprovalScope \<Rightarrow> ApprovalRequest \<Rightarrow> bool" where
  "visible_to d scope r \<longleftrightarrow> has_row (\<lambda>a. at_id a = ar_access_token_id r \<and> at_team_id a = as_team_id scope
     \<and> (as_admin scope \<or> at_created_by a = as_user_id scope)) (access_tokens d)"

definition find_request :: "db \<Rightarrow> string \<Rightarrow> ApprovalScope \<Rightarrow> ApprovalRequest option" where
  "find_request d public scope = find_row (\<lambda>r. visible_to d scope r \<and> public_id r = public) (approval_requests d)"

definition decide_request :: "ApprovalRequest \<Rightarrow> Decision \<Rightarrow> int \<Rightarrow> int \<Rightarrow> db \<Rightarrow> db \<times> bool" where
  "decide_request r decision user now d =
     (let P = (\<lambda>x. ar_id x = ar_id r \<and> ar_status x = Pending \<and> ar_expires_at x > now) in
      (d\<lparr>approval_requests := upd P (\<lambda>x. x\<lparr>ar_status := (case decision of Approve \<Rightarrow> Approved | Deny \<Rightarrow> Denied),
            decided_by := Some user, decided_at := Some now, ar_updated_at := Some now,
            ar_expires_at := (if decision = Approve then now + APPROVAL_GRANT_HOURS * 3600 else ar_expires_at x)\<rparr>)
          (approval_requests d)\<rparr>,
       count_rows P (approval_requests d) = 1))"

definition APPROVAL_NOT_FOUND :: string where
  "APPROVAL_NOT_FOUND = ''This approval request does not exist, was deleted after it expired, or belongs to the access token of another member''"

definition decide_handler ::
  "User \<Rightarrow> Membership \<Rightarrow> string option \<Rightarrow> Decision \<Rightarrow> int \<Rightarrow> db \<Rightarrow> db \<Rightarrow> db \<times> (web_error, unit) result" where
  "decide_handler user team link decision now d0 d =
     (case (case link of None \<Rightarrow> None | Some public \<Rightarrow> find_request d0 public (scope_of user team)) of
        None \<Rightarrow> (d, Inl (Refused APPROVAL_NOT_FOUND))
      | Some r \<Rightarrow>
          (let (d1, ok) = decide_request r decision (u_id user) now d in
           (d1, if ok then Inr () else Inl (Refused ''This request has expired or was already decided''))))"

definition pending_count :: "db \<Rightarrow> ApprovalScope \<Rightarrow> int \<Rightarrow> nat" where
  "pending_count d scope now =
     count_rows (\<lambda>r. visible_to d scope r \<and> ar_status r = Pending \<and> ar_expires_at r > now) (approval_requests d)"

definition team_of :: "db \<Rightarrow> string \<Rightarrow> int option" where
  "team_of d public =
     (case find_row (\<lambda>r. public_id r = public) (approval_requests d) of
        None \<Rightarrow> None
      | Some r \<Rightarrow> map_option at_team_id (find_row (\<lambda>a. at_id a = ar_access_token_id r) (access_tokens d)))"

definition prune_expired :: "bool \<Rightarrow> int \<Rightarrow> int \<Rightarrow> int option \<Rightarrow> db \<Rightarrow> int option \<times> db" where
  "prune_expired force instant now last_pruned_at d =
     (if \<not> force \<and> (case last_pruned_at of None \<Rightarrow> False | Some at \<Rightarrow> instant - at < PRUNE_INTERVAL)
      then (last_pruned_at, d)
      else (Some instant, delete_approvals (\<lambda>r. ar_expires_at r < now - KEPT_DAYS * 86400) d))"

section \<open>Tool modes round trip\<close>

lemma mode_parse_text [simp]: "mode_parse (mode_text m) = Some m"
  by (cases m) (simp_all add: mode_parse_def)

lemma map_of_map_insert: "map_of (map_insert k v m) = (map_of m)(k \<mapsto> v)"
  by (induction m rule: map_insert.induct) (auto simp: fun_eq_iff)

lemma map_of_differing:
  "distinct (map fst choices) \<Longrightarrow> map_of (differing asks mcp choices saved) name =
     (case map_of choices name of
        Some m \<Rightarrow> if m \<noteq> default_tool_approval asks mcp name then Some (JString (mode_text m)) else map_of saved name
      | None \<Rightarrow> map_of saved name)"
proof (induction choices arbitrary: saved)
  case (Cons c choices)
  obtain n m where c: "c = (n, m)" by (cases c)
  have "map_of choices n = None"
    using Cons.prems by (simp add: c map_of_eq_None_iff)
  then show ?case
    using Cons by (auto simp: c map_of_map_insert split: option.splits)
qed simp

lemma differing_texts:
  "list_all (\<lambda>p. \<exists>m. snd p = JString (mode_text m)) saved \<Longrightarrow>
   list_all (\<lambda>p. \<exists>m. snd p = JString (mode_text m)) (differing asks mcp choices saved)"
proof (induction asks mcp choices saved rule: differing.induct)
  case (2 asks mcp name mode choices saved)
  have "list_all (\<lambda>p. \<exists>m. snd p = JString (mode_text m)) (map_insert name (JString (mode_text mode)) saved)"
    using 2(2) by (induction name "JString (mode_text mode)" saved rule: map_insert.induct) auto
  then show ?case using 2 by simp
qed simp

lemma read_modes_texts:
  "list_all (\<lambda>p. \<exists>m. snd p = JString (mode_text m)) saved \<Longrightarrow>
   \<exists>ms. read_modes saved = Some ms \<and> (\<forall>n. map_option (\<lambda>m. JString (mode_text m)) (map_of ms n) = map_of saved n)"
proof (induction saved)
  case (Cons p saved)
  then obtain m ms where "snd p = JString (mode_text m)" "read_modes saved = Some ms"
    "\<forall>n. map_option (\<lambda>m. JString (mode_text m)) (map_of ms n) = map_of saved n"
    by auto
  then show ?case
    by (cases p) auto
qed simp

lemma mode_text_inject [simp]: "mode_text m = mode_text m' \<longleftrightarrow> m = m'"
  by (cases m; cases m') auto

section \<open>What each step does to the requests\<close>

lemma consume_rows:
  "rows (approval_requests (fst (consume_request r now d))) =
     update_where (\<lambda>x. ar_id x = ar_id r \<and> ar_status x = ar_status r \<and> consumed_at x = None)
       (\<lambda>x. x\<lparr>consumed_at := Some now\<rparr>) (rows (approval_requests d))"
  by (simp add: consume_request_def Let_def)

lemma decide_rows:
  "rows (approval_requests (fst (decide_request r decision user now d))) =
     update_where (\<lambda>x. ar_id x = ar_id r \<and> ar_status x = Pending \<and> ar_expires_at x > now)
       (\<lambda>x. x\<lparr>ar_status := (case decision of Approve \<Rightarrow> Approved | Deny \<Rightarrow> Denied),
            decided_by := Some user, decided_at := Some now, ar_updated_at := Some now,
            ar_expires_at := (if decision = Approve then now + APPROVAL_GRANT_HOURS * 3600 else ar_expires_at x)\<rparr>)
       (rows (approval_requests d))"
  by (simp add: decide_request_def Let_def)

lemma prune_rows:
  assumes "prune_expired force instant now l d = (l', d')"
  shows "\<exists>P. rows (approval_requests d') = filter P (rows (approval_requests d))
     \<and> seq (approval_requests d') = seq (approval_requests d)"
proof -
  have "d' = d \<or> d' = delete_approvals (\<lambda>r. ar_expires_at r < now - KEPT_DAYS * 86400) d"
    using assms by (auto simp: prune_expired_def split: if_splits)
  then show ?thesis
    by (auto simp: delete_approvals_def delete_where_def intro: exI [of _ "\<lambda>_. True"])
qed

lemma ask_person_cases:
  assumes "ask_person env call fresh now d0 d = (d', g)"
  shows "d' = d \<or> (\<exists>r. rows (approval_requests d') = rows (approval_requests d) @ [r]
     \<and> seq (approval_requests d') = seq (approval_requests d) + 1 \<and> ar_id r = seq (approval_requests d) + 1
     \<and> ar_status r = Pending \<and> consumed_at r = None \<and> same_call env call r
     \<and> g = Inr (HeldWaiting r True)
     \<and> pending_of (at_id (gc_access_token call)) now d0 < MAX_PENDING_PER_TOKEN)"
  using assms
  by (auto simp: ask_person_def request_approval_def insert_request_def same_call_def Let_def ensure_def
      split: if_splits sum.splits option.splits)


section \<open>A small instance\<close>

text \<open>Bob's token called the MCP once, and the call waits; another call of it was approved.\<close>

definition sample_call :: GatedCall where
  "sample_call = \<lparr>gc_access_token = sample_token 2 1 2, gc_mcp = sample_mcp 1 1 2, gc_tool_name = ''send'', gc_args = None\<rparr>"

definition sample_env :: approval_env where
  "sample_env = \<lparr>env_hash = (\<lambda>args. if args = None then ''h'' else ''g''), env_serialize = (\<lambda>_. ''{}''),
     env_encrypt = (\<lambda>s. s), env_summarize = (\<lambda>_. Inr ''s'')\<rparr>"

definition sample_request :: "int \<Rightarrow> string \<Rightarrow> ApprovalDecision \<Rightarrow> ApprovalRequest" where
  "sample_request i h status =
     \<lparr>ar_id = i, public_id = ''r'' @ h, ar_mcp_id = 1, ar_access_token_id = 2, ar_tool_name = ''send'',
      ar_arguments = ''{}'', arguments_hash = h, ar_summary = ''s'', ar_status = status, decided_by = None,
      decided_at = None, consumed_at = None, ar_expires_at = 100, ar_created_at = 1, ar_updated_at = None\<rparr>"

definition approval_db :: db where
  "approval_db = sample_db\<lparr>approval_requests :=
     \<lparr>rows = [sample_request 1 ''g'' Pending, sample_request 2 ''h'' Approved], seq = 2\<rparr>\<rparr>"

lemmas approval_sample_defs = approval_db_def sample_request_def sample_env_def sample_call_def

section \<open>A call runs on an approval of its own\<close>

lemma latest_request_Some:
  assumes "latest_request env call now d = Some r"
  shows "r \<in> set (rows (approval_requests d)) \<and> same_call env call r \<and> consumed_at r = None \<and> ar_expires_at r > now"
  using find_Some_set [OF assms [unfolded latest_request_def]] by simp

lemma ask_person_never_opens: "snd (ask_person env call fresh now d0 d) \<noteq> Inr Open"
  by (auto simp: ask_person_def split: sum.splits)

lemma count_where_one_key:
  assumes "distinct (map key rs)" and "\<And>r. P r \<Longrightarrow> key r = k"
  shows "count_where P rs \<le> 1"
  using assms(1)
proof (induction rs)
  case (Cons r rs)
  have "count_where P rs = 0" if "P r"
    using Cons.prems assms(2) that by (force simp: count_where_zero_iff)
  then show ?case using Cons by simp
qed simp

lemma update_where_cong:
  "(\<And>r. r \<in> set rs \<Longrightarrow> P r = Q r) \<Longrightarrow> update_where P f rs = update_where Q f rs"
  by (simp add: update_where_def)

lemma consume_request_ok:
  assumes ok: "table_ok ar_id (approval_requests d)" and c: "consume_request r now d = (d', True)"
  shows "\<exists>x \<in> set (rows (approval_requests d)). ar_id x = ar_id r \<and> ar_status x = ar_status r
     \<and> consumed_at x = None
     \<and> rows (approval_requests d') =
         update_where (\<lambda>y. ar_id y = ar_id x) (\<lambda>y. y\<lparr>consumed_at := Some now\<rparr>) (rows (approval_requests d))"
proof -
  have "count_rows (\<lambda>x. ar_id x = ar_id r \<and> ar_status x = ar_status r \<and> consumed_at x = None) (approval_requests d) = 1"
    and d': "d' = fst (consume_request r now d)"
    using c by (auto simp: consume_request_def Let_def)
  then obtain x where x: "x \<in> set (rows (approval_requests d))" "ar_id x = ar_id r" "ar_status x = ar_status r"
      "consumed_at x = None"
    using count_where_pos_iff [of "\<lambda>x. ar_id x = ar_id r \<and> ar_status x = ar_status r \<and> consumed_at x = None"
        "rows (approval_requests d)"] by (auto simp: count_rows_def)
  have "update_where (\<lambda>x. ar_id x = ar_id r \<and> ar_status x = ar_status r \<and> consumed_at x = None)
        (\<lambda>x. x\<lparr>consumed_at := Some now\<rparr>) (rows (approval_requests d)) =
      update_where (\<lambda>y. ar_id y = ar_id x) (\<lambda>y. y\<lparr>consumed_at := Some now\<rparr>) (rows (approval_requests d))"
    by (rule update_where_cong) (metis x table_ok_unique [OF ok _ x(1)])
  then show ?thesis
    using x d' by (auto simp: consume_rows)
qed

lemma consume_request_failed:
  assumes ok: "table_ok ar_id (approval_requests d)" and c: "consume_request r now d = (d', False)"
  shows "rows (approval_requests d') = rows (approval_requests d)
     \<and> seq (approval_requests d') = seq (approval_requests d)"
proof -
  let ?P = "\<lambda>x. ar_id x = ar_id r \<and> ar_status x = ar_status r \<and> consumed_at x = None"
  have "count_where ?P (rows (approval_requests d)) \<le> 1"
    by (rule count_where_one_key [OF table_ok_distinct [OF ok], of _ "ar_id r"]) simp
  moreover have "count_where ?P (rows (approval_requests d)) \<noteq> 1"
    using c by (simp add: consume_request_def Let_def count_rows_def)
  ultimately have "count_where ?P (rows (approval_requests d)) = 0" by linarith
  then have "\<forall>x \<in> set (rows (approval_requests d)). \<not> ?P x"
    by (simp only: count_where_zero_iff)
  then have "rows (approval_requests (fst (consume_request r now d))) = rows (approval_requests d)"
    unfolding consume_rows by (intro update_where_id) blast
  moreover have "d' = fst (consume_request r now d)" using c by simp
  ultimately show ?thesis by (simp add: consume_request_def Let_def)
qed

lemma gate_open_cases:
  assumes ask: "tool_approval_mode from_str asks (gc_mcp call) (gc_tool_name call) = Ask"
    and g: "gate from_str asks env call fresh t0 t1 d0 d = (d', Inr Open)"
  shows "\<exists>r. latest_request env call t0 d0 = Some r \<and> ar_status r = Approved \<and> consume_request r t1 d = (d', True)"
proof -
  have dec: "decided env call fresh t0 t1 d0 d = (d', Inr Open)" using ask g by (simp add: gate_def)
  have never: "ask_person env call fresh t1 e e \<noteq> (d', Inr Open)" for e
    using ask_person_never_opens [of env call fresh t1 e e] by auto
  obtain r where r: "latest_request env call t0 d0 = Some r"
    using dec never by (cases "latest_request env call t0 d0") (auto simp: decided_def)
  moreover have "ar_status r = Approved"
    using dec r by (cases "ar_status r") (auto simp: decided_def)
  moreover obtain e ok where e: "consume_request r t1 d = (e, ok)" by (cases "consume_request r t1 d")
  ultimately show ?thesis
    using dec never [of e] by (auto simp: decided_def split: if_splits)
qed

text \<open>C6: A tool that is set to ask runs only on an approval of its own. When the gate opens for such
  a call, a request for this very call (the same access token, MCP, tool and hash of the arguments)
  stood approved, unused and unexpired in what the gate read; when the gate then wrote, whatever had
  happened in between, that request was still approved and unused; and from then on it is used and
  nothing else of the requests has changed.\<close>

theorem gate_open_needs_approval:
  assumes "tool_approval_mode from_str asks (gc_mcp call) (gc_tool_name call) = Ask"
    and "gate from_str asks env call fresh t0 t1 d0 d = (d', Inr Open)"
    and "table_ok ar_id (approval_requests d)"
  shows "\<exists>r \<in> set (rows (approval_requests d0)). \<exists>x \<in> set (rows (approval_requests d)).
     same_call env call r \<and> request_state r t0 = StateApproved
     \<and> ar_id x = ar_id r \<and> ar_status x = Approved \<and> consumed_at x = None
     \<and> rows (approval_requests d') =
         update_where (\<lambda>y. ar_id y = ar_id x) (\<lambda>y. y\<lparr>consumed_at := Some t1\<rparr>) (rows (approval_requests d))"
proof -
  obtain r where r: "latest_request env call t0 d0 = Some r" "ar_status r = Approved"
      "consume_request r t1 d = (d', True)"
    using gate_open_cases [OF assms(1,2)] by blast
  note l = latest_request_Some [OF r(1)]
  then have "request_state r t0 = StateApproved"
    using r(2) by (simp add: request_state_def request_is_expired_def)
  then show ?thesis
    using l consume_request_ok [OF assms(3) r(3)] r(2) by auto
qed

lemma sample_gate:
  "gate (\<lambda>_. None) (\<lambda>_ _. True) sample_env sample_call ''f'' 50 60 approval_db approval_db
     = (fst (consume_request (sample_request 2 ''h'' Approved) 60 approval_db), Inr Open)"
  by (simp add: gate_def tool_approval_mode_def saved_tool_approvals_def sample_mcp_def non_empty_def mode_of_def
      default_tool_approval_def decided_def latest_request_def same_call_def approval_sample_defs sample_token_def
      consume_request_def Let_def count_rows_def)

theorem gate_open_needs_approval_witness:
  "\<exists>r. request_state r 50 = StateApproved \<and> same_call sample_env sample_call r \<and> ar_id r = 2"
proof -
  have "tool_approval_mode (\<lambda>_. None) (\<lambda>_ _. True) (gc_mcp sample_call) (gc_tool_name sample_call) = Ask"
    by (simp add: tool_approval_mode_def saved_tool_approvals_def sample_call_def sample_mcp_def non_empty_def mode_of_def
        default_tool_approval_def)
  moreover have "table_ok ar_id (approval_requests approval_db)"
    by (simp add: table_ok_def approval_sample_defs)
  ultimately obtain r x where "r \<in> set (rows (approval_requests approval_db))" "same_call sample_env sample_call r"
      "request_state r 50 = StateApproved"
    using gate_open_needs_approval [OF _ sample_gate] by blast
  moreover from this have "ar_id r = 2"
    by (auto simp: approval_sample_defs same_call_def)
  ultimately show ?thesis by blast
qed


section \<open>The life of a request\<close>

text \<open>What the table promises of its requests: each is put to a person once, decided at most once,
  and acted on by the agent at most once. A request may be forgotten at any time, and its number is
  never given to another one. The ledger holds the last number that was given, and the phase of
  each request; a step shows what the outside sees of it: a call let through, a decision of a person, or neither.\<close>

datatype phase = Waiting | Granted | Spent | Rejected | Told

datatype approval_event = Opens | Approves | Denies | Unseen

type_synonym ledger = "int \<times> (int \<rightharpoonup> phase)"

inductive ledger_step :: "ledger \<Rightarrow> approval_event \<Rightarrow> ledger \<Rightarrow> bool" where
  ledger_same: "ledger_step (n, L) Unseen (n, L)"
| ledger_asked: "ledger_step (n, L) Unseen (n + 1, L(n + 1 \<mapsto> Waiting))"
| ledger_granted: "L i = Some Waiting \<Longrightarrow> ledger_step (n, L) Approves (n, L(i \<mapsto> Granted))"
| ledger_rejected: "L i = Some Waiting \<Longrightarrow> ledger_step (n, L) Denies (n, L(i \<mapsto> Rejected))"
| ledger_spent: "L i = Some Granted \<Longrightarrow> ledger_step (n, L) Opens (n, L(i \<mapsto> Spent))"
| ledger_told: "L i = Some Rejected \<Longrightarrow> ledger_step (n, L) Unseen (n, L(i \<mapsto> Told))"
| ledger_forgot: "ledger_step (n, L) Unseen (n, L |` A)"

inductive ledger_run :: "ledger \<Rightarrow> approval_event list \<Rightarrow> ledger \<Rightarrow> bool" where
  run_done: "ledger_run l [] l"
| run_step: "ledger_run l evs l1 \<Longrightarrow> ledger_step l1 ev l2 \<Longrightarrow> ledger_run l (evs @ [ev]) l2"

text \<open>The requests that a person granted and no call has used yet.\<close>

definition granted :: "ledger \<Rightarrow> int set" where
  "granted l = {i. snd l i = Some Granted}"

text \<open>How far a request has come: it never goes back.\<close>

fun progress :: "phase \<Rightarrow> phase \<Rightarrow> bool" where
  "progress Waiting q \<longleftrightarrow> True"
| "progress Granted q \<longleftrightarrow> q \<in> {Granted, Spent}"
| "progress Rejected q \<longleftrightarrow> q \<in> {Rejected, Told}"
| "progress p q \<longleftrightarrow> p = q"

definition moves_on :: "ledger \<Rightarrow> ledger \<Rightarrow> bool" where
  "moves_on l l' \<longleftrightarrow> fst l \<le> fst l'
     \<and> (\<forall>i \<le> fst l. case snd l' i of None \<Rightarrow> True | Some q \<Rightarrow> (case snd l i of None \<Rightarrow> False | Some p \<Rightarrow> progress p q))"

lemma progress_refl [simp]: "progress p p"
  by (cases p) auto

lemma moves_on_refl: "moves_on l l"
  by (auto simp: moves_on_def split: option.split)

lemma progress_trans: "progress p q \<Longrightarrow> progress q r \<Longrightarrow> progress p r"
  by (cases p; cases q) auto

lemma moves_on_trans:
  assumes "moves_on l l1" "moves_on l1 l2"
  shows "moves_on l l2"
  unfolding moves_on_def
proof (intro conjI allI impI)
  show "fst l \<le> fst l2" using assms by (auto simp: moves_on_def)
  fix i assume i: "i \<le> fst l"
  then have i1: "i \<le> fst l1" using assms(1) by (auto simp: moves_on_def)
  have 1: "case snd l1 i of None \<Rightarrow> True | Some q \<Rightarrow> (case snd l i of None \<Rightarrow> False | Some p \<Rightarrow> progress p q)"
    and 2: "case snd l2 i of None \<Rightarrow> True | Some q \<Rightarrow> (case snd l1 i of None \<Rightarrow> False | Some p \<Rightarrow> progress p q)"
    using assms i i1 by (auto simp: moves_on_def)
  show "case snd l2 i of None \<Rightarrow> True | Some q \<Rightarrow> (case snd l i of None \<Rightarrow> False | Some p \<Rightarrow> progress p q)"
    using 1 2 progress_trans by (cases "snd l2 i"; cases "snd l1 i"; cases "snd l i") auto
qed

lemma ledger_step_moves: "ledger_step l ev l' \<Longrightarrow> moves_on l l'"
proof (induction rule: ledger_step.induct)
  case (ledger_asked n L)
  show ?case using moves_on_refl [of "(n, L)"] by (auto simp: moves_on_def)
next
  case (ledger_forgot n L A)
  show ?case using moves_on_refl [of "(n, L)"] by (auto simp: moves_on_def restrict_map_def split: option.split)
qed (auto simp: moves_on_def split: option.split)

lemma granted_update: "granted (n, L(i \<mapsto> p)) = (if p = Granted then insert i (granted (m, L)) else granted (m, L) - {i})"
  by (auto simp: granted_def)

lemma finite_granted: "finite (dom L) \<Longrightarrow> finite (granted (n, L))"
  by (rule finite_subset [of _ "dom L"]) (auto simp: granted_def)

lemma ledger_step_count:
  assumes "ledger_step l ev l'" "finite (dom (snd l))"
  shows "finite (dom (snd l')) \<and> of_bool (ev = Opens) + card (granted l') \<le> card (granted l) + of_bool (ev = Approves)"
  using assms
proof (induction rule: ledger_step.induct)
  case (ledger_granted L i n)
  then show ?case using finite_granted [of L n] by (simp add: granted_update [of n L i _ n] card_insert_if del: fun_upd_apply)
next
  case (ledger_spent L i n)
  moreover have "i \<in> granted (n, L)" using ledger_spent(1) by (simp add: granted_def)
  ultimately show ?case
    using finite_granted [of L n] card_Suc_Diff1 [of "granted (n, L)" i] by (simp add: granted_update [of n L i _ n] del: fun_upd_apply)
next
  case (ledger_asked n L)
  then show ?case using finite_granted [of L n] by (simp add: granted_update [of "n + 1" L "n + 1" _ n] card_Diff1_le del: fun_upd_apply)
next
  case (ledger_rejected L i n)
  then show ?case using finite_granted [of L n] by (simp add: granted_update [of n L i _ n] card_Diff1_le del: fun_upd_apply)
next
  case (ledger_told L i n)
  then show ?case using finite_granted [of L n] by (simp add: granted_update [of n L i _ n] card_Diff1_le del: fun_upd_apply)
next
  case (ledger_forgot n L A)
  have "granted (n, L |` A) \<subseteq> granted (n, L)" by (auto simp: granted_def restrict_map_def split: if_split_asm)
  then show ?case using ledger_forgot finite_granted [of L n] by (simp add: card_mono)
qed simp

lemma ledger_run_facts:
  assumes "ledger_run l evs l'" "finite (dom (snd l))"
  shows "moves_on l l'" "finite (dom (snd l')) \<and> count_list evs Opens + card (granted l') \<le> card (granted l) + count_list evs Approves"
  using assms
proof (induction rule: ledger_run.induct)
  case (run_step l evs l1 ev l2)
  { case 1 then show ?case using run_step moves_on_trans ledger_step_moves by blast }
  { case 2 then show ?case using run_step(3,4) ledger_step_count [OF run_step(2)] by (auto simp: count_list_append split: if_split_asm) }
qed (simp_all add: moves_on_refl)

fun phase_of :: "ApprovalRequest \<Rightarrow> phase" where
  "phase_of r = (case ar_status r of
     Pending \<Rightarrow> Waiting
   | Approved \<Rightarrow> (if consumed_at r = None then Granted else Spent)
   | Denied \<Rightarrow> (if consumed_at r = None then Rejected else Told))"

definition phases_of :: "db \<Rightarrow> int \<rightharpoonup> phase" where
  "phases_of d i = map_option phase_of (find_row (\<lambda>r. ar_id r = i) (approval_requests d))"

definition ledger_of :: "db \<Rightarrow> ledger" where
  "ledger_of d = (seq (approval_requests d), phases_of d)"

text \<open>A pending request is not consumed.\<close>

definition requests_ok :: "db \<Rightarrow> bool" where
  "requests_ok d \<longleftrightarrow> table_ok ar_id (approval_requests d)
     \<and> list_all (\<lambda>r. ar_status r = Pending \<longrightarrow> consumed_at r = None) (rows (approval_requests d))"

lemma find_update_where:
  assumes "distinct (map key rs)" "x \<in> set rs" "key (f x) = key x"
  shows "find (\<lambda>r. key r = i) (update_where (\<lambda>r. key r = key x) f rs) =
    (if i = key x then Some (f x) else find (\<lambda>r. key r = i) rs)"
  using assms
proof (induction rs)
  case (Cons r rs)
  show ?case
  proof (cases "key r = key x")
    case True
    then have "r = x" "\<forall>y \<in> set rs. key y \<noteq> key x"
      using Cons.prems by (auto simp: rev_image_eqI)
    then have "update_where (\<lambda>r. key r = key x) f rs = rs"
      by (auto simp: update_where_def intro: map_idI)
    then show ?thesis using Cons.prems \<open>r = x\<close> by (auto simp: update_where_def)
  next
    case False
    then show ?thesis using Cons by (auto simp: update_where_def)
  qed
qed simp

lemma ledger_update:
  assumes "table_ok ar_id (approval_requests d)" "x \<in> set (rows (approval_requests d))" "ar_id (f x) = ar_id x"
    and "rows (approval_requests d') = update_where (\<lambda>y. ar_id y = ar_id x) f (rows (approval_requests d))"
  shows "phases_of d (ar_id x) = Some (phase_of x)"
    and "phases_of d' = (phases_of d)(ar_id x \<mapsto> phase_of (f x))"
  using find_update_where [where key = ar_id and f = f, OF table_ok_distinct [OF assms(1)] assms(2,3)]
    find_row_by_id [OF assms(1,2)]
  by (auto simp: phases_of_def find_row_def assms(4) fun_eq_iff)

lemma ledger_cong:
  "rows (approval_requests d') = rows (approval_requests d) \<Longrightarrow> phases_of d' = phases_of d"
  by (simp add: phases_of_def find_row_def fun_eq_iff)

lemma ledger_append:
  assumes "table_ok ar_id (approval_requests d)" "rows (approval_requests d') = rows (approval_requests d) @ [r]"
    "ar_id r = seq (approval_requests d) + 1" "ar_status r = Pending"
  shows "phases_of d (ar_id r) = None" and "phases_of d' = (phases_of d)(ar_id r \<mapsto> Waiting)"
proof -
  have new: "\<forall>x \<in> set (rows (approval_requests d)). ar_id x \<noteq> ar_id r"
    using table_ok_fresh [OF assms(1)] assms(3) by metis
  then show "phases_of d (ar_id r) = None"
    by (simp add: phases_of_def find_row_None)
  have "find (\<lambda>x. ar_id x = i) (rs @ [r]) =
      (if i = ar_id r then Some r else find (\<lambda>x. ar_id x = i) rs)"
    if "\<forall>x \<in> set rs. ar_id x \<noteq> ar_id r" for i rs
    using that by (induction rs) auto
  from this [OF new] show "phases_of d' = (phases_of d)(ar_id r \<mapsto> Waiting)"
    by (auto simp: phases_of_def find_row_def assms(2,4) fun_eq_iff)
qed

lemma ledger_filter:
  assumes "table_ok ar_id (approval_requests d)" "rows (approval_requests d') = filter P (rows (approval_requests d))"
  shows "phases_of d' = phases_of d |` (ar_id ` set (rows (approval_requests d')))"
proof -
  have "find (\<lambda>x. ar_id x = i) (filter P rs) =
      (if i \<in> ar_id ` set (filter P rs) then find (\<lambda>x. ar_id x = i) rs else None)"
    if "distinct (map ar_id rs)" for i rs
    using that by (induction rs) (auto simp: find_None_set image_iff)
  from this [OF table_ok_distinct [OF assms(1)]]
  show ?thesis
    by (auto simp: phases_of_def find_row_def assms(2) restrict_map_def fun_eq_iff)
qed

text \<open>
  The instance at work on its requests, one write at a time, with the time of the last one. A gate may
  have read long before it writes; a call that asks may have counted long before it inserts, with no
  other call of its token in between (\<open>in_turn\<close>), so that the token has no more requests waiting than
  it counted.
\<close>

inductive approval_step :: "approval_env \<Rightarrow> int \<times> db \<Rightarrow> int \<times> db \<Rightarrow> bool" for env where
  approval_gate:
    "now \<le> t \<Longrightarrow> gate from_str asks env call fresh before t d0 d = (d', g) \<Longrightarrow> approval_step env (now, d) (t, d')"
| approval_ask:
    "asked \<le> now \<Longrightarrow> pending_of (at_id (gc_access_token call)) asked d \<le> pending_of (at_id (gc_access_token call)) asked d0 \<Longrightarrow>
     ask_person env call fresh asked d0 d = (d', g) \<Longrightarrow> approval_step env (now, d) (now, d')"
| approval_decide:
    "now \<le> t \<Longrightarrow> decide_handler user team link decision t d0 d = (d', res) \<Longrightarrow> approval_step env (now, d) (t, d')"
| approval_prune:
    "now \<le> t \<Longrightarrow> prune_expired force instant t l d = (l', d') \<Longrightarrow> approval_step env (now, d) (t, d')"

text \<open>The same steps with what the outside sees of them: a gate in front of a tool that asks lets a call through, or a person is
  told that their decision was taken.\<close>

inductive approval_act :: "approval_env \<Rightarrow> int \<times> db \<Rightarrow> approval_event \<Rightarrow> int \<times> db \<Rightarrow> bool" for env where
  act_gate:
    "now \<le> t \<Longrightarrow> gate from_str asks env call fresh before t d0 d = (d', g) \<Longrightarrow>
     ev = (if g = Inr Open \<and> tool_approval_mode from_str asks (gc_mcp call) (gc_tool_name call) \<noteq> Auto then Opens else Unseen) \<Longrightarrow>
     approval_act env (now, d) ev (t, d')"
| act_ask:
    "asked \<le> now \<Longrightarrow> pending_of (at_id (gc_access_token call)) asked d \<le> pending_of (at_id (gc_access_token call)) asked d0 \<Longrightarrow>
     ask_person env call fresh asked d0 d = (d', g) \<Longrightarrow> approval_act env (now, d) Unseen (now, d')"
| act_decide:
    "now \<le> t \<Longrightarrow> decide_handler user team link decision t d0 d = (d', res) \<Longrightarrow>
     ev = (if res = Inr () then case decision of Approve \<Rightarrow> Approves | Deny \<Rightarrow> Denies else Unseen) \<Longrightarrow>
     approval_act env (now, d) ev (t, d')"
| act_prune:
    "now \<le> t \<Longrightarrow> prune_expired force instant t l d = (l', d') \<Longrightarrow> approval_act env (now, d) Unseen (t, d')"

inductive approval_run :: "approval_env \<Rightarrow> int \<times> db \<Rightarrow> approval_event list \<Rightarrow> int \<times> db \<Rightarrow> bool" for env where
  acts_done: "approval_run env s [] s"
| acts_step: "approval_run env s evs s1 \<Longrightarrow> approval_act env s1 ev s2 \<Longrightarrow> approval_run env s (evs @ [ev]) s2"

lemma approval_step_act: "approval_step env s s' \<Longrightarrow> \<exists>ev. approval_act env s ev s'"
  by (induction rule: approval_step.induct) (blast intro: approval_act.intros)+

lemma approval_act_step: "approval_act env s ev s' \<Longrightarrow> approval_step env s s'"
  by (induction rule: approval_act.induct) (blast intro: approval_step.intros)+

text \<open>What one write can be.\<close>

inductive request_write :: "int \<Rightarrow> approval_event \<Rightarrow> db \<Rightarrow> db \<Rightarrow> bool" for now where
  write_none:
    "rows (approval_requests d') = rows (approval_requests d) \<Longrightarrow> seq (approval_requests d') = seq (approval_requests d) \<Longrightarrow>
     request_write now Unseen d d'"
| write_consume:
    "x \<in> set (rows (approval_requests d)) \<Longrightarrow> ar_status x \<noteq> Pending \<Longrightarrow> consumed_at x = None \<Longrightarrow>
     rows (approval_requests d') = update_where (\<lambda>y. ar_id y = ar_id x) (\<lambda>y. y\<lparr>consumed_at := Some t\<rparr>) (rows (approval_requests d)) \<Longrightarrow>
     seq (approval_requests d') = seq (approval_requests d) \<Longrightarrow> ev = (if ar_status x = Approved then Opens else Unseen) \<Longrightarrow>
     request_write now ev d d'"
| write_decide:
    "x \<in> set (rows (approval_requests d)) \<Longrightarrow> ar_status x = Pending \<Longrightarrow>
     \<forall>y. ar_id (f y) = ar_id y \<and> ar_status (f y) = status \<and> consumed_at (f y) = consumed_at y \<Longrightarrow> status \<noteq> Pending \<Longrightarrow>
     rows (approval_requests d') = update_where (\<lambda>y. ar_id y = ar_id x) f (rows (approval_requests d)) \<Longrightarrow>
     seq (approval_requests d') = seq (approval_requests d) \<Longrightarrow> ev = (if status = Approved then Approves else Denies) \<Longrightarrow>
     request_write now ev d d'"
| write_ask:
    "rows (approval_requests d') = rows (approval_requests d) @ [r] \<Longrightarrow> seq (approval_requests d') = seq (approval_requests d) + 1 \<Longrightarrow>
     ar_id r = seq (approval_requests d) + 1 \<Longrightarrow> ar_status r = Pending \<Longrightarrow> consumed_at r = None \<Longrightarrow>
     pending_of (ar_access_token_id r) now d < MAX_PENDING_PER_TOKEN \<Longrightarrow> request_write now Unseen d d'"
| write_prune:
    "rows (approval_requests d') = filter P (rows (approval_requests d)) \<Longrightarrow> seq (approval_requests d') = seq (approval_requests d) \<Longrightarrow>
     request_write now Unseen d d'"

lemma pending_of_later: "now \<le> t \<Longrightarrow> pending_of token t d \<le> pending_of token now d"
  unfolding pending_of_def count_rows_def by (rule count_where_mono) auto

lemma ask_person_write:
  assumes "ask_person env call fresh asked d0 d = (d', g)" and "asked \<le> now"
    and "pending_of (at_id (gc_access_token call)) asked d \<le> pending_of (at_id (gc_access_token call)) asked d0"
  shows "request_write now Unseen d d'"
proof -
  consider "d' = d" | r where "rows (approval_requests d') = rows (approval_requests d) @ [r]"
      "seq (approval_requests d') = seq (approval_requests d) + 1" "ar_id r = seq (approval_requests d) + 1"
      "ar_status r = Pending" "consumed_at r = None" "same_call env call r"
      "pending_of (at_id (gc_access_token call)) asked d0 < MAX_PENDING_PER_TOKEN"
    using ask_person_cases [OF assms(1)] by metis
  then show ?thesis
  proof cases
    case 1 then show ?thesis by (simp add: write_none)
  next
    case 2
    then have "ar_access_token_id r = at_id (gc_access_token call)" by (simp add: same_call_def)
    then have "pending_of (ar_access_token_id r) now d < MAX_PENDING_PER_TOKEN"
      using 2(7) assms(3) pending_of_later [OF assms(2), of "ar_access_token_id r" d] by simp
    then show ?thesis using 2 by (rule_tac write_ask)
  qed
qed

lemma consume_request_write:
  assumes "table_ok ar_id (approval_requests d)" "consume_request r t d = (d', ok)" "ar_status r \<noteq> Pending"
  shows "request_write now (if ok \<and> ar_status r = Approved then Opens else Unseen) d d'"
proof -
  have seq: "seq (approval_requests d') = seq (approval_requests d)"
    using assms(2) by (auto simp: consume_request_def Let_def)
  show ?thesis
  proof (cases ok)
    case True
    with consume_request_ok [OF assms(1), of r t d'] assms(2) obtain x where
      "x \<in> set (rows (approval_requests d))" "ar_status x = ar_status r" "consumed_at x = None"
      "rows (approval_requests d') = update_where (\<lambda>y. ar_id y = ar_id x) (\<lambda>y. y\<lparr>consumed_at := Some t\<rparr>) (rows (approval_requests d))"
      by auto
    then show ?thesis using assms(3) seq True by (intro write_consume [of x]) simp_all
  next
    case False
    then show ?thesis using consume_request_failed [OF assms(1), of r t d'] assms(2) write_none by simp
  qed
qed

lemma decided_write:
  assumes ok: "table_ok ar_id (approval_requests d)" and dec: "decided env call fresh before t d0 d = (d', g)"
  shows "request_write t (if g = Inr Open then Opens else Unseen) d d'"
proof (cases "latest_request env call before d0")
  case None
  then show ?thesis
    using dec ask_person_write [of env call fresh t d d d' g t] ask_person_never_opens [of env call fresh t d d] by (auto simp: decided_def)
next
  case (Some r)
  obtain e done' where e: "consume_request r t d = (e, done')" by (cases "consume_request r t d")
  show ?thesis
  proof (cases "ar_status r")
    case Pending
    then have "d' = d" "g \<noteq> Inr Open" using dec Some by (auto simp: decided_def)
    then show ?thesis by (simp add: write_none)
  next
    case Denied
    then show ?thesis using dec Some e consume_request_write [OF ok e] by (auto simp: decided_def)
  next
    case Approved
    show ?thesis
    proof (cases done')
      case True
      then show ?thesis using dec Some e Approved consume_request_write [OF ok e] by (simp add: decided_def)
    next
      case False
      have same: "rows (approval_requests e) = rows (approval_requests d)" "seq (approval_requests e) = seq (approval_requests d)"
        using consume_request_failed [OF ok, of r t e] e False by simp_all
      have asked: "ask_person env call fresh t e e = (d', g)"
        using dec Some e Approved False by (simp add: decided_def)
      then have "g \<noteq> Inr Open" using ask_person_never_opens [of env call fresh t e e] by auto
      moreover have "request_write t Unseen e d'"
        using asked ask_person_write [of env call fresh t e e d' g t] by simp
      then have "request_write t Unseen d d'"
        by (cases rule: request_write.cases)
          (auto simp: same pending_of_def count_rows_def intro: request_write.intros split: if_split_asm)
      ultimately show ?thesis by simp
    qed
  qed
qed

lemma count_where_only:
  "distinct (map key xs) \<Longrightarrow> x \<in> set xs \<Longrightarrow> P x \<Longrightarrow> (\<And>y. P y \<Longrightarrow> key y = key x) \<Longrightarrow> count_where P xs = 1"
proof (induction xs)
  case (Cons y xs)
  show ?case
  proof (cases "P y")
    case True
    then have "key z \<noteq> key x" if "z \<in> set xs" for z using Cons.prems(1,4) that by (metis distinct.simps(2) image_eqI list.map(2) list.set_map)
    then have "\<forall>z \<in> set xs. \<not> P z" using Cons.prems(4) by blast
    then show ?thesis using True by (simp add: count_where_def filter_empty_conv)
  next
    case False
    then have "x \<in> set xs" using Cons.prems(2,3) by auto
    with Cons.prems(1) have "count_where P xs = 1" by (intro Cons.IH [OF _ _ Cons.prems(3,4)]) simp_all
    with False show ?thesis by (simp add: count_where_def)
  qed
qed simp

lemma decide_request_write:
  assumes ok: "table_ok ar_id (approval_requests d)" and dec: "decide_request r decision user t d = (d', done')"
  shows "request_write now (if done' then case decision of Approve \<Rightarrow> Approves | Deny \<Rightarrow> Denies else Unseen) d d'"
proof -
  let ?P = "\<lambda>x. ar_id x = ar_id r \<and> ar_status x = Pending \<and> ar_expires_at x > t"
  let ?f = "\<lambda>x. x\<lparr>ar_status := (case decision of Approve \<Rightarrow> Approved | Deny \<Rightarrow> Denied),
            decided_by := Some user, decided_at := Some t, ar_updated_at := Some t,
            ar_expires_at := (if decision = Approve then t + APPROVAL_GRANT_HOURS * 3600 else ar_expires_at x)\<rparr>"
  have d': "rows (approval_requests d') = update_where ?P ?f (rows (approval_requests d))"
      "seq (approval_requests d') = seq (approval_requests d)"
    using dec decide_rows [of r decision user t d] by (auto simp: decide_request_def Let_def)
  show ?thesis
  proof (cases "\<exists>x \<in> set (rows (approval_requests d)). ?P x")
    case True
    then obtain x where x: "x \<in> set (rows (approval_requests d))" "?P x" by blast
    have "update_where ?P ?f (rows (approval_requests d)) =
        update_where (\<lambda>y. ar_id y = ar_id x) ?f (rows (approval_requests d))"
      by (rule update_where_cong) (metis x table_ok_unique [OF ok _ x(1)])
    moreover have "count_where ?P (rows (approval_requests d)) = 1"
      by (rule count_where_only [OF table_ok_distinct [OF ok] x(1)]) (use x(2) in simp_all)
    then have "done'" using dec by (simp add: decide_request_def Let_def count_rows_def)
    ultimately show ?thesis
      using d' x by (intro write_decide [of x _ ?f "case decision of Approve \<Rightarrow> Approved | Deny \<Rightarrow> Denied"]) (simp_all split: Decision.split)
  next
    case False
    then have "update_where ?P ?f (rows (approval_requests d)) = rows (approval_requests d)"
      by (intro update_where_id) blast
    moreover have "\<not> done'"
      using dec False by (auto simp: decide_request_def Let_def count_rows_def count_where_def filter_empty_conv)
    ultimately show ?thesis using d' write_none by simp
  qed
qed

lemma decide_handler_write:
  assumes "table_ok ar_id (approval_requests d)" "decide_handler user team link decision t d0 d = (d', res)"
  shows "request_write now (if res = Inr () then case decision of Approve \<Rightarrow> Approves | Deny \<Rightarrow> Denies else Unseen) d d'"
proof (cases "case link of None \<Rightarrow> None | Some public \<Rightarrow> find_request d0 public (scope_of user team)")
  case None
  then show ?thesis using assms(2) by (auto simp: decide_handler_def write_none)
next
  case (Some r)
  obtain d1 ok where d1: "decide_request r decision (u_id user) t d = (d1, ok)" by fastforce
  then have "d' = d1" "res = Inr () \<longleftrightarrow> ok" using assms(2) Some by (auto simp: decide_handler_def split: if_split_asm)
  then show ?thesis using decide_request_write [OF assms(1) d1, of now] by simp
qed

lemma approval_act_write:
  assumes "approval_act env (now, d) ev (t, d')" "table_ok ar_id (approval_requests d)"
  shows "now \<le> t \<and> request_write t ev d d'"
  using assms(1)
proof (cases rule: approval_act.cases)
  case (act_gate from_str asks call fresh before d0 g)
  then show ?thesis
    using decided_write [OF assms(2), of env call fresh before t d0 d' g]
    by (cases "tool_approval_mode from_str asks (gc_mcp call) (gc_tool_name call) = Auto") (auto simp: gate_def intro: write_none)
next
  case (act_ask asked call d0 fresh g)
  then show ?thesis using ask_person_write by auto
next
  case (act_decide user team link decision d0 res)
  then show ?thesis using decide_handler_write [OF assms(2)] by simp
next
  case (act_prune force instant l l')
  then show ?thesis using prune_rows write_prune by blast
qed

lemma approval_step_write:
  assumes "approval_step env (now, d) (t, d')" "table_ok ar_id (approval_requests d)"
  obtains ev where "now \<le> t" "request_write t ev d d'"
  using approval_step_act [OF assms(1)] approval_act_write [OF _ assms(2)] by blast

lemma table_ok_update_rows:
  assumes "table_ok key t" "rows t' = update_where P f (rows t)" "seq t' = seq t" "\<And>r. key (f r) = key r"
  shows "table_ok key t'"
  using table_ok_upd [OF assms(1,4), of P] assms(2,3) by (simp add: table_ok_def)

lemma request_write_ok:
  assumes "request_write now ev d d'" "requests_ok d"
  shows "requests_ok d'"
  using assms(1)
proof cases
  case (write_consume x t)
  have "table_ok ar_id (approval_requests d')"
    by (rule table_ok_update_rows [OF _ write_consume(4,5)]) (use assms(2) in \<open>simp_all add: requests_ok_def\<close>)
  moreover have "ar_status y \<noteq> Pending" if "y \<in> set (rows (approval_requests d))" "ar_id y = ar_id x" for y
    using assms(2) write_consume(1,2) table_ok_unique [of ar_id "approval_requests d" y x] that
    by (auto simp: requests_ok_def)
  ultimately show ?thesis
    using assms(2) by (auto simp: requests_ok_def list_all_iff write_consume(4) update_where_def)
next
  case (write_decide x f)
  then show ?thesis
    using assms(2) table_ok_upd [of ar_id "approval_requests d" f "\<lambda>y. ar_id y = ar_id x"]
    by (auto simp: requests_ok_def table_ok_def list_all_iff update_where_def)
next
  case (write_ask r)
  then show ?thesis
    using assms(2) by (fastforce simp: requests_ok_def table_ok_def list_all_iff sorted_wrt_append)
next
  case (write_prune P)
  then show ?thesis
    using assms(2) by (auto simp: requests_ok_def table_ok_def list_all_iff sorted_wrt_map sorted_wrt_filter)
qed (use assms(2) in \<open>simp add: requests_ok_def table_ok_def\<close>)

lemma request_write_ledger:
  assumes "request_write now ev d d'" "requests_ok d"
  shows "ledger_step (ledger_of d) ev (ledger_of d')"
proof -
  have pend: "ar_status r = Pending \<Longrightarrow> consumed_at r = None" if "r \<in> set (rows (approval_requests d))" for r
    using assms(2) that by (auto simp: requests_ok_def list_all_iff)
  have ok: "table_ok ar_id (approval_requests d)" using assms(2) by (simp add: requests_ok_def)
  from assms(1) show ?thesis
  proof cases
    case write_none
    then show ?thesis using ledger_cong [of d' d] by (simp add: ledger_of_def ledger_same)
  next
    case (write_consume x t)
    then show ?thesis
      using ledger_update [OF ok write_consume(1) _ write_consume(4)]
      by (cases "ar_status x") (auto simp: ledger_of_def intro: ledger_spent ledger_told)
  next
    case (write_decide x f status)
    have "phase_of x = Waiting" using write_decide(2) by simp
    then show ?thesis
      using ledger_update [OF ok write_decide(1) _ write_decide(5)] write_decide(2,3,4,6,7) pend [OF write_decide(1)]
      by (cases status) (auto simp: ledger_of_def intro: ledger_granted ledger_rejected)
  next
    case (write_ask r)
    then show ?thesis
      using ledger_append [OF ok write_ask(2,4,5)] ledger_asked [of "seq (approval_requests d)" "phases_of d"] by (simp add: ledger_of_def)
  next
    case (write_prune P)
    then show ?thesis using ledger_filter [OF ok write_prune(2)] ledger_forgot by (simp add: ledger_of_def)
  qed
qed

definition approvals_inv :: "int \<times> db \<Rightarrow> bool" where
  "approvals_inv s \<longleftrightarrow> requests_ok (snd s)
     \<and> (\<forall>token. pending_of token (fst s) (snd s) \<le> MAX_PENDING_PER_TOKEN)"

lemma request_write_pending:
  assumes "request_write now ev d d'" "requests_ok d"
  shows "pending_of token now d' \<le> pending_of token now d
    \<or> pending_of token now d < MAX_PENDING_PER_TOKEN \<and> pending_of token now d' \<le> Suc (pending_of token now d)"
  using assms(1)
proof cases
  case (write_consume x t)
  then show ?thesis by (simp add: pending_of_def count_rows_def count_where_update_same)
next
  case (write_decide x f)
  then show ?thesis
    by (auto simp: pending_of_def count_rows_def count_where_update_where intro!: count_where_mono split: if_splits)
next
  case (write_ask r)
  then show ?thesis by (auto simp: pending_of_def count_rows_def)
next
  case (write_prune P)
  have "count_where Q (filter P rs) \<le> count_where Q rs" for Q :: "ApprovalRequest \<Rightarrow> bool" and rs
    by (induction rs) auto
  then show ?thesis by (simp add: pending_of_def count_rows_def write_prune)
qed (simp add: pending_of_def count_rows_def)

lemma approval_step_inv:
  assumes "approval_step env s s'" "approvals_inv s"
  shows "approvals_inv s'"
proof -
  obtain now d t d' where s: "s = (now, d)" "s' = (t, d')" by (cases s; cases s')
  have ok: "requests_ok d" using assms(2) by (simp add: s approvals_inv_def)
  then obtain ev where w: "now \<le> t" "request_write t ev d d'"
    using approval_step_write [of env now d t d'] assms(1) by (auto simp: s requests_ok_def)
  have "pending_of token t d' \<le> MAX_PENDING_PER_TOKEN" for token
  proof -
    have "pending_of token t d \<le> pending_of token now d" by (rule pending_of_later [OF w(1)])
    also have "\<dots> \<le> MAX_PENDING_PER_TOKEN" using assms(2) by (simp add: s approvals_inv_def)
    finally show ?thesis using request_write_pending [OF w(2) ok, of token] by linarith
  qed
  then show ?thesis
    using request_write_ok [OF w(2) ok] by (simp add: s approvals_inv_def)
qed

interpretation approvals: invariant_system "approval_step env" approvals_inv for env
  by unfold_locales (rule approval_step_inv)

lemma approval_run_ledger:
  assumes "approval_run env s evs s'" "approvals_inv s"
  shows "approvals_inv s' \<and> ledger_run (ledger_of (snd s)) evs (ledger_of (snd s'))"
  using assms
proof (induction rule: approval_run.induct)
  case (acts_step s evs s1 ev s2)
  then have ok: "requests_ok (snd s1)" by (simp add: approvals_inv_def)
  then have "request_write (fst s2) ev (snd s1) (snd s2)"
    using approval_act_write [of env "fst s1" "snd s1" ev "fst s2" "snd s2"] acts_step(2) by (simp add: requests_ok_def)
  from request_write_ledger [OF this ok] show ?case
    using acts_step approval_step_inv [OF approval_act_step [OF acts_step(2)]] by (blast intro: run_step)
qed (simp add: run_done)

lemma ledger_of_finite: "finite (dom (snd (ledger_of d)))"
proof -
  have "dom (phases_of d) \<subseteq> ar_id ` set (rows (approval_requests d))"
    by (auto simp: phases_of_def dest!: find_row_Some)
  then show ?thesis using finite_subset by (fastforce simp: ledger_of_def)
qed

text \<open>C19: The table of requests refines a ledger in which a request is put to a person, decided once
  and acted on once, and a number is never given twice. Whatever sequence of gates, late inserts, decisions and
  prunings runs from a sound state, with each gate writing on what it read any time before, the ledger read off the table
  makes the same calls pass and takes the same decisions. So no request goes back: a decided one is not decided again, a denied one
  is never granted, a used or a forgotten one does not return; and of the tools that ask, no more calls are let through than
  requests were granted at the start or by a person since.\<close>

theorem approvals_refine_ledger:
  assumes "approval_run env (now, d) evs (t, d')" and "approvals_inv (now, d)"
  shows "ledger_run (ledger_of d) evs (ledger_of d') \<and> moves_on (ledger_of d) (ledger_of d')
    \<and> count_list evs Opens \<le> card (granted (ledger_of d)) + count_list evs Approves"
proof -
  have run: "ledger_run (ledger_of d) evs (ledger_of d')" using approval_run_ledger [OF assms] by simp
  from ledger_run_facts [OF run ledger_of_finite] run show ?thesis by auto
qed

lemma sample_approvals_inv: "approvals_inv (50, approval_db)"
proof -
  have "pending_of token 50 approval_db \<le> 1" for token
    by (simp add: pending_of_def count_rows_def approval_sample_defs)
  moreover have "1 \<le> MAX_PENDING_PER_TOKEN" by (simp add: MAX_PENDING_PER_TOKEN_def)
  ultimately have "pending_of token 50 approval_db \<le> MAX_PENDING_PER_TOKEN" for token
    using order_trans by blast
  then show ?thesis
    by (simp add: approvals_inv_def requests_ok_def table_ok_def) (simp add: approval_sample_defs)
qed

theorem approvals_refine_ledger_witness:
  "\<exists>d'. ledger_run (ledger_of approval_db) [Opens] (ledger_of d') \<and> snd (ledger_of approval_db) 2 = Some Granted
     \<and> snd (ledger_of d') 2 = Some Spent"
proof -
  let ?d = "fst (consume_request (sample_request 2 ''h'' Approved) 60 approval_db)"
  have "tool_approval_mode (\<lambda>_. None) (\<lambda>_ _. True) (gc_mcp sample_call) (gc_tool_name sample_call) = Ask"
    by (simp add: tool_approval_mode_def saved_tool_approvals_def sample_call_def sample_mcp_def non_empty_def mode_of_def
        default_tool_approval_def)
  then have "approval_act sample_env (50, approval_db) Opens (60, ?d)"
    by (intro act_gate [OF _ sample_gate]) simp_all
  then have "approval_run sample_env (50, approval_db) [Opens] (60, ?d)"
    using acts_step [OF acts_done] by fastforce
  then have "ledger_run (ledger_of approval_db) [Opens] (ledger_of ?d)"
    using approvals_refine_ledger sample_approvals_inv by blast
  moreover have "snd (ledger_of approval_db) 2 = Some Granted" "snd (ledger_of ?d) 2 = Some Spent"
    by (simp_all add: ledger_of_def phases_of_def find_row_def consume_rows approval_sample_defs)
  ultimately show ?thesis by blast
qed

text \<open>An access token never has more than twenty calls waiting for a person, at whatever time one
  counts them, however gates, decisions and prunings follow one another: a call that asks adds one
  only when fewer waited, and the calls of a token take turns at the gate.\<close>

theorem pending_bounded:
  "(approval_step env)\<^sup>*\<^sup>* (now, d) (t, d') \<Longrightarrow> approvals_inv (now, d) \<Longrightarrow> t \<le> t' \<Longrightarrow>
   pending_of token t' d' \<le> 20"
  using approvals.reachable_inv [of env "(now, d)" "(t, d')"] pending_of_later [of t t' token d']
  unfolding approvals_inv_def MAX_PENDING_PER_TOKEN_def by (metis fst_conv snd_conv order_trans)

theorem pending_bounded_witness:
  "\<exists>d'. approval_step sample_env (50, approval_db) (60, d') \<and> pending_of 2 70 d' \<le> 20"
proof -
  obtain d' where d': "approval_step sample_env (50, approval_db) (60, d')"
    using approval_gate [OF _ sample_gate, of 50] by auto
  show ?thesis
    using pending_bounded [OF r_into_rtranclp [of "approval_step sample_env", OF d'] sample_approvals_inv, of 70 2] d' by auto
qed


text \<open>The modes an administrator saves are the ones the gate reads. With JSON that reads back the
  object that was written, after saving a choice for distinct tools each of them has the mode chosen, every other
  tool has its default, and a column that cannot be read makes every tool ask.\<close>

theorem tool_modes_round_trip:
  assumes "from_str (to_string (JObject (differing asks mcp choices []))) = Some (JObject (differing asks mcp choices []))"
    and "to_string (JObject (differing asks mcp choices [])) \<noteq> []"
    and "\<And>x tool. asks (mcp\<lparr>mcp_tool_approvals := x\<rparr>) tool = asks mcp tool"
    and "distinct (map fst choices)"
  shows "tool_approval_mode from_str asks (assign_tool_approvals to_string asks mcp choices) tool =
      (case map_of choices tool of Some m \<Rightarrow> m | None \<Rightarrow> default_tool_approval asks mcp tool)
    \<and> (bad \<noteq> [] \<and> from_str bad = None \<longrightarrow>
       tool_approval_mode from_str asks (mcp\<lparr>mcp_tool_approvals := Some bad\<rparr>) tool = Ask)"
proof -
  define saved where "saved = differing asks mcp choices []"
  have default: "default_tool_approval asks (mcp\<lparr>mcp_tool_approvals := x\<rparr>) tool = default_tool_approval asks mcp tool" for x
    by (simp add: default_tool_approval_def assms(3))
  obtain ms where ms: "read_modes saved = Some ms"
      "map_option (\<lambda>m. JString (mode_text m)) (map_of ms tool) = map_of saved tool"
    using read_modes_texts [of saved] differing_texts [of "[]" asks mcp choices] by (auto simp: saved_def)
  have read: "saved_tool_approvals from_str (assign_tool_approvals to_string asks mcp choices) = Some ms"
    using assms(1,2) ms(1)
    by (auto simp: saved_tool_approvals_def assign_tool_approvals_def non_empty_def Let_def saved_def [symmetric])
  have "map_of ms tool =
      (case map_of choices tool of
         Some m \<Rightarrow> if m \<noteq> default_tool_approval asks mcp tool then Some m else None | None \<Rightarrow> None)"
    using ms(2) map_of_differing [OF assms(4), of asks mcp "[]" tool]
    by (auto simp: saved_def split: option.splits if_splits)
  then have "tool_approval_mode from_str asks (assign_tool_approvals to_string asks mcp choices) tool =
      (case map_of choices tool of Some m \<Rightarrow> m | None \<Rightarrow> default_tool_approval asks mcp tool)"
    unfolding tool_approval_mode_def read
    by (auto simp: mode_of_def assign_tool_approvals_def Let_def default split: option.splits)
  then show ?thesis
    by (auto simp: tool_approval_mode_def saved_tool_approvals_def non_empty_def mode_of_def)
qed


theorem tool_modes_round_trip_witness:
  "tool_approval_mode (\<lambda>s. if s = ''j'' then Some (JObject [(''send'', JString ''auto'')]) else None) (\<lambda>_ _. True)
     (assign_tool_approvals (\<lambda>_. ''j'') (\<lambda>_ _. True) (sample_mcp 1 1 2) [(''send'', Auto), (''read'', Ask)]) ''send'' = Auto"
proof -
  have diff: "differing (\<lambda>_ _. True) (sample_mcp 1 1 2) [(''send'', Auto), (''read'', Ask)] [] = [(''send'', JString ''auto'')]"
    by (simp add: default_tool_approval_def)
  show ?thesis
    using tool_modes_round_trip [where from_str = "\<lambda>s. if s = ''j'' then Some (JObject [(''send'', JString ''auto'')]) else None"
        and to_string = "\<lambda>_. ''j''" and asks = "\<lambda>_ _. True" and mcp = "sample_mcp 1 1 2"
        and choices = "[(''send'', Auto), (''read'', Ask)]" and tool = "''send''" and bad = "''k''"]
    by (simp add: diff del: differing.simps)
qed

end
