(* ===== verification/CallLog.thy ===== *)
theory CallLog
  imports OauthRequests
begin

text \<open>
  The log of the tool calls agents make: \<open>crates/gateway/src/call_log.rs\<close>, with the settings that decide what
  a record keeps. Records are queued by the calls and written down by one task: the queue, the task and
  the table are one state, and each block the code runs under its lock is one step of it. The text of a
  JSON value, the redaction of error messages and the clock are parameters.
\<close>

section \<open>Settings and records\<close>

datatype McpLogLevel = LogOff | LogMetadata | LogArguments | LogResponses

datatype GatewayToolMode = Eager | Lazy

record InstanceSetting =
  mcp_log_level :: McpLogLevel
  mcp_log_retention_days :: int
  updated_by :: "int option"
  is_created_at :: int
  is_updated_at :: "int option"
  gateway_tool_mode :: GatewayToolMode
  mcp_auto_update_enabled :: bool
  mcp_auto_update_cron :: string
  is_registration_enabled :: bool

definition DEFAULT_MCP_AUTO_UPDATE_CRON :: string where
  "DEFAULT_MCP_AUTO_UPDATE_CRON = ''0 2 * * *''"

text \<open>The one row of settings: read, or created with the defaults when missing.\<close>

definition current_settings :: "int \<Rightarrow> InstanceSetting option \<Rightarrow> InstanceSetting" where
  "current_settings now row =
     (case row of
        Some settings \<Rightarrow> settings
      | None \<Rightarrow> \<lparr>mcp_log_level = LogMetadata, mcp_log_retention_days = 14, updated_by = None, is_created_at = now,
          is_updated_at = Some now, gateway_tool_mode = Eager, mcp_auto_update_enabled = False,
          mcp_auto_update_cron = DEFAULT_MCP_AUTO_UPDATE_CRON, is_registration_enabled = False\<rparr>)"

definition registration_enabled :: "InstanceSetting option \<Rightarrow> bool" where
  "registration_enabled row = (case row of Some settings \<Rightarrow> is_registration_enabled settings | None \<Rightarrow> False)"

datatype CallOutcome = CallSuccess | CallError

datatype CallErrorCategory =
  InvalidTool | DisallowedMcp | UpstreamException | ToolError | ApprovalRequired | ApprovalDenied

record McpCallLog =
  cl_id :: int
  cl_access_token_id :: "int option"
  cl_access_token_name :: string
  cl_access_token_prefix :: string
  cl_mcp_id :: "int option"
  cl_mcp_name :: "string option"
  cl_mcp_slug :: "string option"
  cl_requested_tool_name :: string
  cl_tool_name :: "string option"
  cl_outcome :: CallOutcome
  cl_error_category :: "CallErrorCategory option"
  cl_error_summary :: "string option"
  cl_arguments :: "string option"
  cl_arguments_captured :: bool
  cl_duration_ms :: int
  cl_created_at :: int
  cl_response :: "string option"
  cl_response_captured :: bool
  cl_caller_ip :: "string option"
  cl_team_id :: int

record McpCallLogInput =
  in_access_token :: AccessToken
  in_caller_ip :: "string option"
  in_mcp :: "Mcp option"
  in_mcp_slug :: "string option"
  in_requested_tool_name :: string
  in_tool_name :: "string option"
  in_args :: "Value option"
  in_response :: "Value option"
  in_outcome :: CallOutcome
  in_error_category :: "CallErrorCategory option"
  in_error_summary :: "string option"
  in_duration_ms :: int

definition PRUNE_LOGS_INTERVAL :: int where
  "PRUNE_LOGS_INTERVAL = 60 * 60"

definition MAX_PENDING_WRITES :: nat where
  "MAX_PENDING_WRITES = 1000"

definition WRITE_BATCH :: nat where
  "WRITE_BATCH = 100"

definition MAX_CAPTURE_BYTES :: nat where
  "MAX_CAPTURE_BYTES = 64 * 1024"

definition CAPTURE_PREVIEW_CHARS :: nat where
  "CAPTURE_PREVIEW_CHARS = 8 * 1024"

section \<open>What a record keeps\<close>

text \<open>The characters of a text in UTF-8: a byte that does not continue one, and those that do.\<close>

definition continues :: "char \<Rightarrow> bool" where
  "continues c \<longleftrightarrow> 0x80 \<le> (of_char c :: nat) \<and> (of_char c :: nat) < 0xC0"

fun chars :: "string \<Rightarrow> string list" where
  "chars [] = []"
| "chars (c # s) =
     (case chars s of
        [] \<Rightarrow> [[c]]
      | w # ws \<Rightarrow> if continues (hd w) then (c # w) # ws else [c] # w # ws)"

definition len_utf16 :: "string \<Rightarrow> nat" where
  "len_utf16 character = (if length character = 4 then 2 else 1)"

fun take_units :: "nat \<Rightarrow> nat \<Rightarrow> string list \<Rightarrow> string list" where
  "take_units units limit [] = []"
| "take_units units limit (c # cs) =
     (if units + len_utf16 c > limit then [] else c # take_units (units + len_utf16 c) limit cs)"

definition slice_utf16 :: "string \<Rightarrow> nat \<Rightarrow> string" where
  "slice_utf16 s limit = concat (take_units 0 limit (chars s))"

text \<open>A text as \<open>serde_json\<close> writes it, with its quotes.\<close>

definition QUOTE :: char where "QUOTE = CHR 0x22"

definition BACKSLASH :: char where "BACKSLASH = CHR 0x5C"

definition hex4 :: "int \<Rightarrow> string" where
  "hex4 n = map hex_char [n div 4096 mod 16, n div 256 mod 16, n div 16 mod 16, n mod 16]"

definition json_escape :: "char \<Rightarrow> string" where
  "json_escape c =
     (let b = (of_char c :: int) in
      if c = QUOTE \<or> c = BACKSLASH then [BACKSLASH, c]
      else if b = 8 then [BACKSLASH, CHR ''b''] else if b = 9 then [BACKSLASH, CHR ''t'']
      else if b = 10 then [BACKSLASH, CHR ''n''] else if b = 12 then [BACKSLASH, CHR ''f'']
      else if b = 13 then [BACKSLASH, CHR ''r'']
      else if b < 32 then [BACKSLASH, CHR ''u''] @ hex4 b
      else [c])"

definition json_string :: "string \<Rightarrow> string" where
  "json_string s = QUOTE # concat (map json_escape s) @ [QUOTE]"

text \<open>The number of a character written in UTF-8, and the first of its UTF-16 units.\<close>

definition code_point :: "string \<Rightarrow> int" where
  "code_point character =
     (let lead = (of_char (hd character) :: int);
          bits = (if length character = 1 then lead else if length character = 2 then lead mod 32
                  else if length character = 3 then lead mod 16 else lead mod 8) in
      foldl (\<lambda>n c. n * 64 + of_char c mod 64) bits (tl character))"

definition first_unit :: "string \<Rightarrow> int" where
  "first_unit character =
     (if length character = 4 then 0xD800 + (code_point character - 0x10000) div 1024 else code_point character)"

definition serialize_captured_value :: "(Value \<Rightarrow> string) \<Rightarrow> Value \<Rightarrow> string" where
  "serialize_captured_value to_string value =
     (let serialized = to_string value; original_bytes = length serialized in
      if original_bytes \<le> MAX_CAPTURE_BYTES then serialized
      else
        (let preview = slice_utf16 serialized CAPTURE_PREVIEW_CHARS;
             json = json_string preview;
             json = (case chars (drop (length preview) serialized) of
                       [] \<Rightarrow> json
                     | split # _ \<Rightarrow>
                         if utf16_len preview < CAPTURE_PREVIEW_CHARS
                         then butlast json @ [BACKSLASH, CHR ''u''] @ hex4 (first_unit split) @ [QUOTE] else json) in
         ''{'' @ QUOTE # ''truncated'' @ QUOTE # '':true,'' @ QUOTE # ''originalBytes'' @ QUOTE # '':'' @ show_nat original_bytes
           @ '','' @ QUOTE # ''preview'' @ QUOTE # '':'' @ json @ ''}''))"

text \<open>\<open>sanitize\<close> redacts a message, without the credentials of an MCP when there is one.\<close>

definition sanitize_error_summary :: "(Mcp option \<Rightarrow> string \<Rightarrow> string) \<Rightarrow> string option \<Rightarrow> Mcp option \<Rightarrow> string option" where
  "sanitize_error_summary sanitize value mcp = map_option (sanitize mcp) value"

definition slug_char :: "char \<Rightarrow> bool" where
  "slug_char c \<longleftrightarrow> (let b = (of_char c :: nat) in 97 \<le> b \<and> b \<le> 122) \<or> is_digit_char c \<or> c = CHR ''-''"

definition loggable_mcp_slug :: "string option \<Rightarrow> string option" where
  "loggable_mcp_slug slug =
     (case slug of
        Some s \<Rightarrow> if list_all slug_char s \<and> 1 \<le> length s \<and> length s \<le> 120 then Some s else None
      | None \<Rightarrow> None)"

definition filter_when :: "bool \<Rightarrow> 'a option \<Rightarrow> 'a option" where
  "filter_when b x = (if b then x else None)"

definition record_of ::
  "(Value \<Rightarrow> string) \<Rightarrow> (Mcp option \<Rightarrow> string \<Rightarrow> string) \<Rightarrow> InstanceSetting \<Rightarrow> McpCallLogInput \<Rightarrow> McpCallLog" where
  "record_of to_string sanitize settings input =
     (let arguments_captured = (mcp_log_level settings \<in> {LogArguments, LogResponses});
          response_captured = (mcp_log_level settings = LogResponses);
          mcp = in_mcp input in
      \<lparr>cl_id = 0, cl_access_token_id = Some (at_id (in_access_token input)),
       cl_access_token_name = at_name (in_access_token input),
       cl_access_token_prefix = token_prefix (in_access_token input),
       cl_mcp_id = map_option mcp_id mcp, cl_mcp_name = map_option mcp_name mcp,
       cl_mcp_slug = (case mcp of Some m \<Rightarrow> Some (mcp_slug m) | None \<Rightarrow> loggable_mcp_slug (in_mcp_slug input)),
       cl_requested_tool_name = slice_utf16 (in_requested_tool_name input) 512,
       cl_tool_name = map_option (\<lambda>t. slice_utf16 t 254) (in_tool_name input),
       cl_outcome = in_outcome input, cl_error_category = in_error_category input,
       cl_error_summary = sanitize_error_summary sanitize (in_error_summary input) mcp,
       cl_arguments = map_option (serialize_captured_value to_string) (filter_when arguments_captured (in_args input)),
       cl_arguments_captured = arguments_captured, cl_duration_ms = in_duration_ms input, cl_created_at = 0,
       cl_response = map_option (serialize_captured_value to_string) (filter_when response_captured (in_response input)),
       cl_response_captured = response_captured,
       cl_caller_ip = map_option (\<lambda>ip. slice_utf16 ip 64) (in_caller_ip input),
       cl_team_id = at_team_id (in_access_token input)\<rparr>)"

section \<open>Writing records down\<close>

text \<open>An insert fails when the team, the access token or the MCP it names is gone.\<close>

definition insert_log :: "db \<Rightarrow> int \<Rightarrow> McpCallLog \<Rightarrow> McpCallLog table \<Rightarrow> McpCallLog table" where
  "insert_log d now log logs =
     (if has_row (\<lambda>t. t_id t = cl_team_id log) (teams d)
         \<and> (case cl_access_token_id log of None \<Rightarrow> True | Some i \<Rightarrow> has_row (\<lambda>a. at_id a = i) (access_tokens d))
         \<and> (case cl_mcp_id log of None \<Rightarrow> True | Some i \<Rightarrow> has_row (\<lambda>m. mcp_id m = i) (mcps d))
      then append_row (\<lambda>i. log\<lparr>cl_id := i, cl_created_at := now\<rparr>) logs else logs)"

text \<open>
  The database as a batch finds it: the settings, or that they could not be read, whether its transaction
  began and was committed, and the time of each insert.
\<close>

record log_env =
  le_db :: db
  le_settings :: "InstanceSetting option"
  le_begins :: bool
  le_commits :: bool
  le_clock :: "nat \<Rightarrow> int"

fun insert_logs :: "log_env \<Rightarrow> nat \<Rightarrow> McpCallLog list \<Rightarrow> McpCallLog table \<Rightarrow> McpCallLog table" where
  "insert_logs e i [] logs = logs"
| "insert_logs e i (log # rest) logs = insert_logs e (i + 1) rest (insert_log (le_db e) (le_clock e i) log logs)"

definition persist_batch ::
  "(Value \<Rightarrow> string) \<Rightarrow> (Mcp option \<Rightarrow> string \<Rightarrow> string) \<Rightarrow> log_env \<Rightarrow> McpCallLogInput list \<Rightarrow> McpCallLog table \<Rightarrow> McpCallLog table" where
  "persist_batch to_string sanitize e batch table =
     (case le_settings e of
        None \<Rightarrow> table
      | Some settings \<Rightarrow>
          if mcp_log_level settings = LogOff then table
          else
            (let logs = map (record_of to_string sanitize settings) batch in
             if length logs = 1 then insert_log (le_db e) (le_clock e 0) (hd logs) table
             else if \<not> le_begins e then table
             else (let written = insert_logs e 0 logs table in if le_commits e then written else table)))"

section \<open>The queue and its writer\<close>

text \<open>Where the task that writes the queue down stands, with the batch it holds.\<close>

datatype writer = NoWriter | Takes | Writes "McpCallLogInput list" | Settles nat | Tells nat

record Queue =
  waiting :: "McpCallLogInput list"
  pending_records :: nat
  queued :: nat
  writing :: bool

record CallLogState =
  log_queue :: Queue
  log_written :: nat
  log_writer :: writer
  log_table :: "McpCallLog table"

definition new_call_log :: "McpCallLog table \<Rightarrow> CallLogState" where
  "new_call_log table =
     \<lparr>log_queue = \<lparr>waiting = [], pending_records = 0, queued = 0, writing = False\<rparr>, log_written = 0,
      log_writer = NoWriter, log_table = table\<rparr>"

definition accepts :: "CallLogState \<Rightarrow> bool" where
  "accepts s \<longleftrightarrow> pending_records (log_queue s) < MAX_PENDING_WRITES"

text \<open>A call is recorded only under a runtime to write with.\<close>

definition record_call :: "bool \<Rightarrow> McpCallLogInput \<Rightarrow> CallLogState \<Rightarrow> CallLogState" where
  "record_call runtime input s =
     (if \<not> runtime then s
      else if pending_records (log_queue s) \<ge> MAX_PENDING_WRITES then s
      else
        (let q = log_queue s;
             q1 = q\<lparr>pending_records := pending_records q + 1, queued := queued q + 1, waiting := waiting q @ [input]\<rparr> in
         if \<not> writing q1 then s\<lparr>log_queue := q1\<lparr>writing := True\<rparr>, log_writer := Takes\<rparr>
         else s\<lparr>log_queue := q1\<rparr>))"

definition take_batch :: "CallLogState \<Rightarrow> CallLogState" where
  "take_batch s =
     (let q = log_queue s; count = min (length (waiting q)) WRITE_BATCH in
      if count = 0 then s\<lparr>log_queue := q\<lparr>writing := False\<rparr>, log_writer := NoWriter\<rparr>
      else s\<lparr>log_queue := q\<lparr>waiting := drop count (waiting q)\<rparr>, log_writer := Writes (take count (waiting q))\<rparr>)"

text \<open>The batch is written by a task of its own: one that panics leaves the table as it was.\<close>

definition write_batch ::
  "(Value \<Rightarrow> string) \<Rightarrow> (Mcp option \<Rightarrow> string \<Rightarrow> string) \<Rightarrow> log_env option \<Rightarrow> McpCallLogInput list \<Rightarrow> CallLogState \<Rightarrow> CallLogState" where
  "write_batch to_string sanitize e batch s =
     s\<lparr>log_table := (case e of None \<Rightarrow> log_table s | Some e \<Rightarrow> persist_batch to_string sanitize e batch (log_table s)),
       log_writer := Settles (length batch)\<rparr>"

definition settle_batch :: "nat \<Rightarrow> CallLogState \<Rightarrow> CallLogState" where
  "settle_batch count s =
     s\<lparr>log_queue := (log_queue s)\<lparr>pending_records := pending_records (log_queue s) - count\<rparr>, log_writer := Tells count\<rparr>"

definition tell_written :: "nat \<Rightarrow> CallLogState \<Rightarrow> CallLogState" where
  "tell_written count s = s\<lparr>log_written := log_written s + count, log_writer := Takes\<rparr>"

text \<open>What a flush that read \<open>queued\<close> waits for.\<close>

definition flushed :: "nat \<Rightarrow> CallLogState \<Rightarrow> bool" where
  "flushed n s \<longleftrightarrow> n \<le> log_written s"

definition prune_logs :: "bool \<Rightarrow> int \<Rightarrow> int \<Rightarrow> int option \<Rightarrow> InstanceSetting option \<Rightarrow> McpCallLog table \<Rightarrow> int option \<times> McpCallLog table \<times> nat" where
  "prune_logs force instant now last_pruned_at row table =
     (if \<not> force \<and> (case last_pruned_at of None \<Rightarrow> False | Some at \<Rightarrow> instant - at < PRUNE_LOGS_INTERVAL)
      then (last_pruned_at, table, 0)
      else
        (let cutoff = now - mcp_log_retention_days (current_settings now row) * 86400;
             old = (\<lambda>l. cl_created_at l < cutoff) in
         (Some instant, del old table, count_rows old table)))"

section \<open>Runs of the log\<close>

text \<open>
  A run: how often the writer moved, the records that were accepted, and those that were stored to the
  database, in their order. Calls record at any moment, and the rows may be pruned at any moment.
\<close>

inductive log_run ::
  "(Value \<Rightarrow> string) \<Rightarrow> (Mcp option \<Rightarrow> string \<Rightarrow> string) \<Rightarrow> nat \<Rightarrow> McpCallLogInput list \<Rightarrow> McpCallLogInput list
     \<Rightarrow> CallLogState \<Rightarrow> CallLogState \<Rightarrow> bool" for to_string sanitize where
  run_start: "log_run to_string sanitize 0 [] [] s s"
| run_call: "log_run to_string sanitize n accepted stored s s1 \<Longrightarrow>
    log_run to_string sanitize n (if runtime \<and> accepts s1 then accepted @ [input] else accepted) stored s (record_call runtime input s1)"
| run_take: "log_run to_string sanitize n accepted stored s s1 \<Longrightarrow> log_writer s1 = Takes \<Longrightarrow>
    log_run to_string sanitize (n + 1) accepted stored s (take_batch s1)"
| run_write: "log_run to_string sanitize n accepted stored s s1 \<Longrightarrow> log_writer s1 = Writes batch \<Longrightarrow>
    log_run to_string sanitize (n + 1) accepted (stored @ batch) s (write_batch to_string sanitize e batch s1)"
| run_settle: "log_run to_string sanitize n accepted stored s s1 \<Longrightarrow> log_writer s1 = Settles count \<Longrightarrow>
    log_run to_string sanitize (n + 1) accepted stored s (settle_batch count s1)"
| run_tell: "log_run to_string sanitize n accepted stored s s1 \<Longrightarrow> log_writer s1 = Tells count \<Longrightarrow>
    log_run to_string sanitize (n + 1) accepted stored s (tell_written count s1)"
| run_rows: "log_run to_string sanitize n accepted stored s s1 \<Longrightarrow>
    log_run to_string sanitize n accepted stored s (s1\<lparr>log_table := table\<rparr>)"

fun held :: "writer \<Rightarrow> McpCallLogInput list" where
  "held (Writes batch) = batch"
| "held _ = []"

fun unsettled :: "writer \<Rightarrow> nat" where
  "unsettled (Writes batch) = length batch"
| "unsettled (Settles count) = count"
| "unsettled _ = 0"

fun untold :: "writer \<Rightarrow> nat" where
  "untold (Tells count) = count"
| "untold w = unsettled w"

definition log_inv :: "CallLogState \<Rightarrow> bool" where
  "log_inv s \<longleftrightarrow>
     (let q = log_queue s; w = log_writer s in
      (writing q \<longleftrightarrow> w \<noteq> NoWriter) \<and> (w = NoWriter \<longrightarrow> waiting q = [])
      \<and> pending_records q = length (waiting q) + unsettled w
      \<and> queued q = log_written s + length (waiting q) + untold w
      \<and> pending_records q \<le> MAX_PENDING_WRITES
      \<and> (w \<notin> {NoWriter, Takes} \<longrightarrow> 1 \<le> untold w \<and> untold w \<le> WRITE_BATCH))"

lemmas log_step_defs = record_call_def take_batch_def write_batch_def settle_batch_def tell_written_def

lemma log_inv_new: "log_inv (new_call_log table)"
  by (simp add: log_inv_def new_call_log_def)

lemma log_inv_call: "log_inv s \<Longrightarrow> log_inv (record_call runtime input s)"
  by (cases "log_writer s") (auto simp: log_inv_def record_call_def Let_def)

lemma log_inv_take: "log_inv s \<Longrightarrow> log_writer s = Takes \<Longrightarrow> log_inv (take_batch s)"
  by (auto simp: log_inv_def take_batch_def Let_def WRITE_BATCH_def min_def Suc_le_eq)

lemma log_inv_writes:
  "log_inv s \<Longrightarrow> log_writer s = Writes batch \<Longrightarrow> log_inv (write_batch to_string sanitize e batch s)"
  "log_inv s \<Longrightarrow> log_writer s = Settles count \<Longrightarrow> log_inv (settle_batch count s)"
  "log_inv s \<Longrightarrow> log_writer s = Tells count \<Longrightarrow> log_inv (tell_written count s)"
  "log_inv s \<Longrightarrow> log_inv (s\<lparr>log_table := table\<rparr>)"
  by (auto simp: log_inv_def log_step_defs Let_def)

lemma log_run_inv: "log_run to_string sanitize n accepted stored s s' \<Longrightarrow> log_inv s \<Longrightarrow> log_inv s'"
  by (induction rule: log_run.induct) (auto intro: log_inv_call log_inv_take log_inv_writes)

lemma log_run_order:
  "log_run to_string sanitize n accepted stored s s' \<Longrightarrow> s = new_call_log table \<Longrightarrow>
    accepted = stored @ held (log_writer s') @ waiting (log_queue s')"
proof (induction rule: log_run.induct)
  case (run_start s)
  then show ?case by (simp add: new_call_log_def)
next
  case (run_call n accepted stored s s1 runtime input)
  have "log_inv s1" using log_run_inv run_call.hyps run_call.prems log_inv_new by blast
  then have "log_writer s1 = NoWriter \<or> writing (log_queue s1)" by (auto simp: log_inv_def Let_def)
  then show ?case
    using run_call.IH [OF run_call.prems] by (auto simp: record_call_def accepts_def Let_def)
qed (auto simp: log_step_defs Let_def min_def)

text \<open>How far the writer has come within a batch, and that every move of it counts.\<close>

fun stage :: "writer \<Rightarrow> nat" where
  "stage (Writes batch) = 1"
| "stage (Settles count) = 2"
| "stage (Tells count) = 3"
| "stage _ = 0"

definition distance :: "CallLogState \<Rightarrow> nat" where
  "distance s = 4 * log_written s + stage (log_writer s)"

lemma queued_grows: "log_run to_string sanitize n accepted stored s s' \<Longrightarrow> queued (log_queue s) \<le> queued (log_queue s')"
  by (induction rule: log_run.induct) (auto simp: log_step_defs Let_def)

lemma writer_progress:
  "log_run to_string sanitize n accepted stored s s' \<Longrightarrow> log_inv s \<Longrightarrow>
    flushed (queued (log_queue s)) s' \<or> n + distance s \<le> distance s'"
proof (induction rule: log_run.induct)
  case (run_call n accepted stored s s1 runtime input)
  have "log_inv s1" using log_run_inv run_call.hyps run_call.prems by blast
  then have "distance (record_call runtime input s1) = distance s1" "log_written (record_call runtime input s1) = log_written s1"
    by (auto simp: distance_def record_call_def log_inv_def Let_def)
  then show ?case using run_call.IH [OF run_call.prems] by (auto simp: flushed_def)
next
  case (run_take n accepted stored s s1)
  have "log_inv s1" using log_run_inv run_take.hyps(1) run_take.prems by blast
  then have "waiting (log_queue s1) = [] \<Longrightarrow> log_written (take_batch s1) = queued (log_queue s1)"
    "waiting (log_queue s1) \<noteq> [] \<Longrightarrow> distance (take_batch s1) = distance s1 + 1"
    "log_written (take_batch s1) = log_written s1"
    using run_take.hyps(2) by (auto simp: distance_def take_batch_def log_inv_def Let_def WRITE_BATCH_def)
  then show ?case
    using run_take.IH [OF run_take.prems] queued_grows [OF run_take.hyps(1)] by (cases "waiting (log_queue s1) = []") (auto simp: flushed_def)
next
  case (run_tell n accepted stored s s1 count)
  have "log_inv s1" using log_run_inv run_tell.hyps(1) run_tell.prems by blast
  then have "1 \<le> count" using run_tell.hyps(2) by (auto simp: log_inv_def Let_def)
  then show ?case
    using run_tell.IH [OF run_tell.prems] run_tell.hyps(2) by (auto simp: flushed_def distance_def tell_written_def)
qed (auto simp: flushed_def distance_def log_step_defs)

section \<open>How large a capture is\<close>

text \<open>What a character of UTF-8 is, as far as its length and first byte go.\<close>

definition utf8_char :: "string \<Rightarrow> bool" where
  "utf8_char c \<longleftrightarrow> (case c of
     [] \<Rightarrow> False
   | b # rest \<Rightarrow> list_all continues rest \<and>
       (if length c = 1 then (of_char b :: nat) < 0x80 else if length c < 4 then 0xC0 \<le> (of_char b :: nat)
        else length c = 4 \<and> 0xF0 \<le> (of_char b :: nat)))"

lemma take_units_prefix: "set (take_units u limit cs) \<subseteq> set cs"
  by (induction cs arbitrary: u) auto

lemma take_units_sum: "u \<le> limit \<Longrightarrow> u + sum_list (map len_utf16 (take_units u limit cs)) \<le> limit"
proof (induction cs arbitrary: u)
  case (Cons c cs)
  then show ?case using Cons.IH [of "u + len_utf16 c"] by (auto simp: algebra_simps)
qed simp

lemma json_escape_length: "length (json_escape c) \<le> 6"
  by (simp add: json_escape_def hex4_def Let_def)

lemma json_escape_high: "0x80 \<le> (of_char c :: nat) \<Longrightarrow> json_escape c = [c]"
proof -
  assume "0x80 \<le> (of_char c :: nat)"
  then have "int 0x80 \<le> int (of_char c)" by (simp only: of_nat_le_iff)
  then have "0x80 \<le> (of_char c :: int)" by (simp only: of_nat_of_char of_nat_numeral)
  then show ?thesis by (auto simp: json_escape_def QUOTE_def BACKSLASH_def Let_def)
qed

lemma json_escape_continues: "list_all continues cs \<Longrightarrow> concat (map json_escape cs) = cs"
  by (induction cs) (auto simp: continues_def json_escape_high)

lemma json_escape_char:
  assumes "utf8_char c"
  shows "length (concat (map json_escape c)) \<le> 6 * len_utf16 c"
proof -
  obtain b rest where c: "c = b # rest" "list_all continues rest" using assms by (auto simp: utf8_char_def split: list.split_asm)
  show ?thesis
  proof (cases "rest = []")
    case True
    then show ?thesis using json_escape_length [of b] by (simp add: c len_utf16_def)
  next
    case False
    then have "0x80 \<le> (of_char b :: nat)" "length rest \<le> 3" using assms by (auto simp: utf8_char_def c split: if_split_asm)
    then show ?thesis using c(2) by (simp add: c(1) json_escape_high json_escape_continues len_utf16_def)
  qed
qed

lemma json_escape_chars:
  "list_all utf8_char cs \<Longrightarrow> length (concat (map json_escape (concat cs))) \<le> 6 * sum_list (map len_utf16 cs)"
proof (induction cs)
  case (Cons c cs)
  then show ?case using json_escape_char [of c] by simp
qed simp

lemma show_nat_length: "n < 10 ^ k \<Longrightarrow> 0 < k \<Longrightarrow> length (show_nat n) \<le> k"
proof (induction n arbitrary: k rule: show_nat.induct)
  case (1 n)
  show ?case
  proof (cases "n < 10")
    case True
    then show ?thesis using "1.prems" by (subst show_nat.simps) simp
  next
    case False
    then have "k \<noteq> 1" using "1.prems" by auto
    define j where "j = k - 1"
    have k: "k = Suc j" "0 < j" using \<open>k \<noteq> 1\<close> "1.prems"(2) by (simp_all add: j_def)
    then have "n div 10 < 10 ^ j" using "1.prems" by (simp add: less_mult_imp_div_less mult.commute)
    then have "length (show_nat (n div 10)) \<le> j" using "1.IH" False k(2) by blast
    then show ?thesis using False k(1) by (subst show_nat.simps) simp
  qed
qed

section \<open>Properties of the log\<close>

text \<open>The queue of the call log. Whatever calls record, and however the writing of a batch ends, what is handed
  to the database is what was accepted, in the order of the calls and once each; what is not handed over yet is
  with the writer or waits, a thousand records at most, in batches of at most a hundred, and records only wait
  while a task writes.\<close>

theorem records_kept_in_order:
  assumes "log_run to_string sanitize n accepted stored (new_call_log table) s"
  shows "accepted = stored @ held (log_writer s) @ waiting (log_queue s) \<and> pending_records (log_queue s) \<le> MAX_PENDING_WRITES
    \<and> length (held (log_writer s)) \<le> WRITE_BATCH \<and> (log_writer s = NoWriter \<longrightarrow> accepted = stored)"
proof -
  have o: "accepted = stored @ held (log_writer s) @ waiting (log_queue s)" using log_run_order [OF assms] by simp
  have "log_inv s" using log_run_inv [OF assms log_inv_new] .
  then have "pending_records (log_queue s) \<le> MAX_PENDING_WRITES" "log_writer s = NoWriter \<longrightarrow> waiting (log_queue s) = []"
    by (auto simp: log_inv_def Let_def)
  moreover have "length (held (log_writer s)) \<le> WRITE_BATCH"
    using \<open>log_inv s\<close> by (cases "log_writer s") (auto simp: log_inv_def Let_def)
  ultimately show ?thesis using o by auto
qed

definition sample_input :: McpCallLogInput where
  "sample_input =
     \<lparr>in_access_token = sample_token 2 1 2, in_caller_ip = Some ''::1'', in_mcp = None, in_mcp_slug = Some ''mail'',
      in_requested_tool_name = ''mail__send'', in_tool_name = Some ''send'', in_args = None, in_response = None,
      in_outcome = CallError, in_error_category = Some DisallowedMcp, in_error_summary = None, in_duration_ms = 3\<rparr>"

definition recorded :: CallLogState where
  "recorded = record_call True sample_input (new_call_log empty_table)"

definition recorded_and_written :: CallLogState where
  "recorded_and_written =
     tell_written 1 (settle_batch 1 (write_batch (\<lambda>_. []) (\<lambda>_ m. m) None [sample_input] (take_batch recorded)))"

lemma sample_run: "log_run (\<lambda>_. []) (\<lambda>_ m. m) 0 [sample_input] [] (new_call_log empty_table) recorded"
proof -
  have "accepts (new_call_log empty_table)" by (simp add: accepts_def new_call_log_def MAX_PENDING_WRITES_def)
  then show ?thesis
    using run_call [OF run_start [of "\<lambda>_. []" "\<lambda>_ m. m" "new_call_log empty_table"], of True sample_input]
    by (simp add: recorded_def)
qed

lemma sample_writer_run: "log_run (\<lambda>_. []) (\<lambda>_ m. m) 4 [] [sample_input] recorded recorded_and_written"
proof -
  let ?run = "log_run (\<lambda>_. []) (\<lambda>_ m. m)"
  have s: "log_writer recorded = Takes" "log_writer (take_batch recorded) = Writes [sample_input]"
    by (simp_all add: recorded_def record_call_def take_batch_def new_call_log_def MAX_PENDING_WRITES_def WRITE_BATCH_def Let_def)
  have "?run 1 [] [] recorded (take_batch recorded)" using run_take [OF run_start s(1)] by simp
  then have "?run 2 [] [sample_input] recorded (write_batch (\<lambda>_. []) (\<lambda>_ m. m) None [sample_input] (take_batch recorded))"
    using run_write [OF _ s(2), of _ _ 1 "[]" "[]" recorded None] by (simp add: numeral_2_eq_2)
  from run_settle [OF this, of 1] have "?run 3 [] [sample_input] recorded
      (settle_batch 1 (write_batch (\<lambda>_. []) (\<lambda>_ m. m) None [sample_input] (take_batch recorded)))"
    by (simp add: write_batch_def numeral_3_eq_3)
  from run_tell [OF this, of 1] show ?thesis by (simp add: recorded_and_written_def settle_batch_def)
qed

theorem records_kept_in_order_witness:
  "[sample_input] = [] @ held (log_writer recorded) @ waiting (log_queue recorded)
    \<and> pending_records (log_queue recorded) \<le> MAX_PENDING_WRITES \<and> length (held (log_writer recorded)) \<le> WRITE_BATCH"
  using records_kept_in_order [OF sample_run] by blast

text \<open>C17: A flush returns. From any state of the log, once the writer has moved four times for each record that was
  queued and not written, and whatever was recorded meanwhile, every record queued at the flush is written;
  and until then there is a writer to move.\<close>

theorem flush_returns:
  assumes "log_run to_string sanitize n0 accepted0 stored0 (new_call_log table) s"
    and "log_run to_string sanitize n accepted stored s s'"
  shows "(4 * (queued (log_queue s) - log_written s) \<le> n \<longrightarrow> flushed (queued (log_queue s)) s')
    \<and> (flushed (queued (log_queue s)) s' \<or> log_writer s' \<noteq> NoWriter)"
proof -
  have inv: "log_inv s" using log_run_inv [OF assms(1) log_inv_new] .
  have inv': "log_inv s'" using log_run_inv [OF assms(2) inv] .
  have grows: "queued (log_queue s) \<le> queued (log_queue s')" using queued_grows [OF assms(2)] .
  have "stage w \<le> 3" for w by (cases w) simp_all
  then have "distance s' \<le> 4 * log_written s' + 3" by (simp add: distance_def)
  moreover have "4 * log_written s \<le> distance s" by (simp add: distance_def)
  moreover have "log_written s \<le> queued (log_queue s)" using inv by (auto simp: log_inv_def Let_def)
  ultimately have "4 * (queued (log_queue s) - log_written s) \<le> n \<longrightarrow> flushed (queued (log_queue s)) s'"
    using writer_progress [OF assms(2) inv] by (auto simp: flushed_def)
  moreover have "flushed (queued (log_queue s)) s' \<or> log_writer s' \<noteq> NoWriter"
    using inv' grows by (auto simp: log_inv_def flushed_def Let_def)
  ultimately show ?thesis by blast
qed

theorem flush_returns_witness: "flushed 1 recorded_and_written"
proof -
  have "queued (log_queue recorded) = 1" "log_written recorded = 0"
    by (simp_all add: recorded_def record_call_def new_call_log_def MAX_PENDING_WRITES_def Let_def)
  then show ?thesis using flush_returns [OF sample_run sample_writer_run] by simp
qed

text \<open>What a record keeps of a call's arguments or of its response is at most 64 KiB: a value that is larger is
  replaced by its size and its first 8192 UTF-16 units, and their escaping in JSON still fits.\<close>

theorem capture_bounded:
  assumes "list_all utf8_char (chars (to_string value))" "length (to_string value) < 2 ^ 64"
  shows "length (serialize_captured_value to_string value) \<le> MAX_CAPTURE_BYTES"
proof -
  let ?s = "to_string value"
  let ?preview = "slice_utf16 ?s CAPTURE_PREVIEW_CHARS"
  have "list_all utf8_char (take_units 0 CAPTURE_PREVIEW_CHARS (chars ?s))"
    using assms(1) take_units_prefix by (fastforce simp: list_all_iff)
  then have "length (concat (map json_escape ?preview)) \<le> 6 * CAPTURE_PREVIEW_CHARS"
    using json_escape_chars [of "take_units 0 CAPTURE_PREVIEW_CHARS (chars ?s)"] take_units_sum [of 0 CAPTURE_PREVIEW_CHARS "chars ?s"]
    unfolding slice_utf16_def by linarith
  moreover have "length (show_nat (length ?s)) \<le> 20" using assms(2) by (intro show_nat_length) simp_all
  ultimately show ?thesis
    by (auto simp: serialize_captured_value_def json_string_def MAX_CAPTURE_BYTES_def CAPTURE_PREVIEW_CHARS_def hex4_def Let_def
        split: list.split)
qed

lemma chars_letters: "chars (replicate n (CHR ''a'')) = replicate n [CHR ''a'']"
proof (induction n)
  case (Suc n)
  then show ?case by (cases n) (simp_all add: continues_def)
qed simp

theorem capture_bounded_witness:
  "length (serialize_captured_value (\<lambda>_. replicate 70000 (CHR ''a'')) JNull) \<le> MAX_CAPTURE_BYTES"
proof (rule capture_bounded)
  show "list_all utf8_char (chars (replicate 70000 (CHR ''a'')))"
    unfolding chars_letters by (simp add: list_all_iff utf8_char_def)
  show "length (replicate 70000 (CHR ''a'')) < 2 ^ 64" by simp
qed

end
