(* ===== verification/AddressGuard.thy ===== *)
theory AddressGuard
  imports OauthRequests
begin

unbundle bit_operations_syntax

text \<open>
  Where the gateway may be sent: \<open>crates/net/src/address_guard.rs\<close>, and the reading of IP addresses it
  uses of \<open>std::net\<close>. Addresses are words of 32 and 128 bits. Name resolution is a parameter: what a
  lookup answers at the moment it is made.
\<close>

section \<open>Block lists\<close>

datatype IpAddr = V4 "32 word" | V6 "128 word"

definition ipv4_new :: "int \<Rightarrow> int \<Rightarrow> int \<Rightarrow> int \<Rightarrow> 32 word" where
  "ipv4_new a b c d = word_of_int (((a * 256 + b) * 256 + c) * 256 + d)"

definition ipv6_new :: "int list \<Rightarrow> 128 word" where
  "ipv6_new groups = word_of_int (foldl (\<lambda>n g. n * 65536 + g) 0 groups)"

definition RESTRICTED_IPV4_SUBNETS :: "(32 word \<times> nat) list" where
  "RESTRICTED_IPV4_SUBNETS =
     [(ipv4_new 0 0 0 0, 8), (ipv4_new 10 0 0 0, 8), (ipv4_new 100 64 0 0, 10), (ipv4_new 127 0 0 0, 8),
      (ipv4_new 169 254 0 0, 16), (ipv4_new 172 16 0 0, 12), (ipv4_new 192 0 0 0, 24),
      (ipv4_new 192 168 0 0, 16), (ipv4_new 198 18 0 0, 15), (ipv4_new 224 0 0 0, 4), (ipv4_new 240 0 0 0, 4)]"

definition RESTRICTED_IPV6_SUBNETS :: "(128 word \<times> nat) list" where
  "RESTRICTED_IPV6_SUBNETS =
     [(ipv6_new [0, 0, 0, 0, 0, 0, 0, 0], 128), (ipv6_new [0, 0, 0, 0, 0, 0, 0, 1], 128),
      (ipv6_new [0x64, 0xff9b, 1, 0, 0, 0, 0, 0], 48), (ipv6_new [0xfc00, 0, 0, 0, 0, 0, 0, 0], 7),
      (ipv6_new [0xfe80, 0, 0, 0, 0, 0, 0, 0], 10), (ipv6_new [0xfec0, 0, 0, 0, 0, 0, 0, 0], 10),
      (ipv6_new [0xff00, 0, 0, 0, 0, 0, 0, 0], 8)]"

record BlockList =
  bl_ipv4 :: "(32 word \<times> 32 word) list"
  bl_ipv6 :: "(128 word \<times> 128 word) list"

definition checked_shl :: "'a::len word \<Rightarrow> nat \<Rightarrow> 'a word option" where
  "checked_shl w n = (if n < LENGTH('a) then Some (push_bit n w) else None)"

definition unwrap_or_zero :: "'a::len word option \<Rightarrow> 'a word" where
  "unwrap_or_zero x = (case x of None \<Rightarrow> 0 | Some w \<Rightarrow> w)"

definition add_ipv4_subnet :: "BlockList \<Rightarrow> 32 word \<Rightarrow> nat \<Rightarrow> BlockList" where
  "add_ipv4_subnet l network bits =
     (let mask = unwrap_or_zero (checked_shl (- 1) (32 - bits)) in
      l\<lparr>bl_ipv4 := bl_ipv4 l @ [(network AND mask, mask)]\<rparr>)"

definition add_ipv6_subnet :: "BlockList \<Rightarrow> 128 word \<Rightarrow> nat \<Rightarrow> BlockList" where
  "add_ipv6_subnet l network bits =
     (let mask = unwrap_or_zero (checked_shl (- 1) (128 - bits)) in
      l\<lparr>bl_ipv6 := bl_ipv6 l @ [(network AND mask, mask)]\<rparr>)"

definition contains_ipv4 :: "BlockList \<Rightarrow> 32 word \<Rightarrow> bool" where
  "contains_ipv4 l address \<longleftrightarrow> list_ex (\<lambda>(network, mask). address AND mask = network) (bl_ipv4 l)"

definition contains_ipv6 :: "BlockList \<Rightarrow> 128 word \<Rightarrow> bool" where
  "contains_ipv6 l address \<longleftrightarrow> list_ex (\<lambda>(network, mask). address AND mask = network) (bl_ipv6 l)"

definition to_ipv4_mapped :: "128 word \<Rightarrow> 32 word option" where
  "to_ipv4_mapped address = (if drop_bit 32 address = 0xffff then Some (ucast address) else None)"

fun check :: "BlockList \<Rightarrow> IpAddr \<Rightarrow> bool" where
  "check l (V4 address) = contains_ipv4 l address"
| "check l (V6 address) =
     ((case to_ipv4_mapped address of None \<Rightarrow> False | Some mapped \<Rightarrow> contains_ipv4 l mapped)
      \<or> contains_ipv6 l address)"

fun add_restricted :: "BlockList \<Rightarrow> (32 word \<times> nat) list \<Rightarrow> BlockList" where
  "add_restricted l [] = l"
| "add_restricted l ((network, bits) # subnets) =
     (let ipv4 = ucast network;
          l1 = add_ipv4_subnet l network bits;
          l2 = add_ipv6_subnet l1 ipv4 (96 + bits);
          l3 = add_ipv6_subnet l2 (push_bit 96 0x0064ff9b OR ipv4) (96 + bits);
          l4 = add_ipv6_subnet l3 (push_bit 112 0x2002 OR push_bit 80 ipv4) (16 + bits) in
      add_restricted l4 subnets)"

definition RESTRICTED :: BlockList where
  "RESTRICTED =
     foldl (\<lambda>l (network, bits). add_ipv6_subnet l network bits)
       (add_restricted \<lparr>bl_ipv4 = [], bl_ipv6 = []\<rparr> RESTRICTED_IPV4_SUBNETS) RESTRICTED_IPV6_SUBNETS"

definition is_restricted_ip :: "IpAddr \<Rightarrow> bool" where
  "is_restricted_ip address = check RESTRICTED address"

section \<open>Reading an address\<close>

text \<open>A reader takes what it reads from the front of a text and gives the rest.\<close>

definition digit_value :: "int \<Rightarrow> char \<Rightarrow> int option" where
  "digit_value radix c =
     (let b = (of_char c :: int);
          v = (if 48 \<le> b \<and> b \<le> 57 then b - 48 else if 97 \<le> b \<and> b \<le> 122 then b - 87
               else if 65 \<le> b \<and> b \<le> 90 then b - 55 else 99) in
      if v < radix then Some v else None)"

fun read_digits :: "int \<Rightarrow> int \<Rightarrow> nat \<Rightarrow> string \<Rightarrow> int \<times> nat \<times> string" where
  "read_digits radix n count [] = (n, count, [])"
| "read_digits radix n count (c # s) =
     (case digit_value radix c of
        None \<Rightarrow> (n, count, c # s)
      | Some v \<Rightarrow> read_digits radix (n * radix + v) (count + 1) s)"

text \<open>Fails on no digit, on more than \<open>max_digits\<close>, on a value past \<open>limit\<close>, and on a leading zero.\<close>

definition read_number :: "int \<Rightarrow> nat \<Rightarrow> int \<Rightarrow> bool \<Rightarrow> string \<Rightarrow> (int \<times> string) option" where
  "read_number radix max_digits limit allow_zero_prefix s =
     (let (n, count, rest) = read_digits radix 0 0 s in
      if count = 0 \<or> count > max_digits \<or> n > limit \<or> (\<not> allow_zero_prefix \<and> count > 1 \<and> take 1 s = ''0'') then None
      else Some (n, rest))"

definition read_given_char :: "char \<Rightarrow> string \<Rightarrow> string option" where
  "read_given_char c s = (case s of [] \<Rightarrow> None | d # rest \<Rightarrow> if d = c then Some rest else None)"

definition read_separator :: "char \<Rightarrow> nat \<Rightarrow> (string \<Rightarrow> ('a \<times> string) option) \<Rightarrow> string \<Rightarrow> ('a \<times> string) option" where
  "read_separator sep index inner s =
     (if index > 0 then (case read_given_char sep s of None \<Rightarrow> None | Some rest \<Rightarrow> inner rest) else inner s)"

definition read_octet :: "string \<Rightarrow> (int \<times> string) option" where
  "read_octet = read_number 10 3 255 False"

definition read_ipv4_addr :: "string \<Rightarrow> (32 word \<times> string) option" where
  "read_ipv4_addr s =
     (case read_separator (CHR ''.'') 0 read_octet s of None \<Rightarrow> None | Some (a, s) \<Rightarrow>
     (case read_separator (CHR ''.'') 1 read_octet s of None \<Rightarrow> None | Some (b, s) \<Rightarrow>
     (case read_separator (CHR ''.'') 2 read_octet s of None \<Rightarrow> None | Some (c, s) \<Rightarrow>
     (case read_separator (CHR ''.'') 3 read_octet s of None \<Rightarrow> None | Some (d, s) \<Rightarrow>
        Some (ipv4_new a b c d, s)))))"

text \<open>Groups \<open>i\<close> to \<open>limit\<close> of an address, whether an IPv4 address ended them, and the rest.\<close>

function read_groups :: "nat \<Rightarrow> nat \<Rightarrow> string \<Rightarrow> int list \<times> bool \<times> string" where
  "read_groups i limit s =
     (if i \<ge> limit then ([], False, s)
      else
        (case (if i + 1 < limit then read_separator (CHR '':'') i read_ipv4_addr s else None) of
           Some (v4, rest) \<Rightarrow> ([uint v4 div 65536, uint v4 mod 65536], True, rest)
         | None \<Rightarrow>
             (case read_separator (CHR '':'') i (read_number 16 4 65535 True) s of
                None \<Rightarrow> ([], False, s)
              | Some (g, rest) \<Rightarrow>
                  (let (groups, ipv4, rest) = read_groups (i + 1) limit rest in (g # groups, ipv4, rest)))))"
  by auto
termination
  by (relation "measure (\<lambda>(i, limit, s). limit - i)") auto

declare read_groups.simps [simp del]

definition read_ipv6_addr :: "string \<Rightarrow> (128 word \<times> string) option" where
  "read_ipv6_addr s =
     (let (head, head_ipv4, rest) = read_groups 0 8 s in
      if length head = 8 then Some (ipv6_new head, rest)
      else if head_ipv4 then None
      else case read_given_char (CHR '':'') rest of None \<Rightarrow> None | Some rest \<Rightarrow>
        (case read_given_char (CHR '':'') rest of None \<Rightarrow> None | Some rest \<Rightarrow>
          (let (tail, _, rest) = read_groups 0 (8 - (length head + 1)) rest in
           Some (ipv6_new (head @ replicate (8 - length head - length tail) 0 @ tail), rest))))"

definition parse_whole :: "(string \<Rightarrow> ('a \<times> string) option) \<Rightarrow> string \<Rightarrow> 'a option" where
  "parse_whole read s = (case read s of Some (x, []) \<Rightarrow> Some x | _ \<Rightarrow> None)"

definition parse_ip :: "string \<Rightarrow> IpAddr option" where
  "parse_ip s =
     parse_whole (\<lambda>s. case read_ipv4_addr s of
        Some (a, rest) \<Rightarrow> Some (V4 a, rest)
      | None \<Rightarrow> map_option (apfst V6) (read_ipv6_addr s)) s"

definition parse_ipv6 :: "string \<Rightarrow> 128 word option" where
  "parse_ipv6 = parse_whole read_ipv6_addr"

definition before_percent :: "string \<Rightarrow> string" where
  "before_percent s = takeWhile (\<lambda>c. c \<noteq> CHR ''%'') s"

definition is_restricted_address :: "string \<Rightarrow> bool" where
  "is_restricted_address address =
     (case parse_ip (before_percent address) of Some ip \<Rightarrow> is_restricted_ip ip | None \<Rightarrow> True)"

definition zone_char :: "char \<Rightarrow> bool" where
  "zone_char c \<longleftrightarrow> (let b = (of_char c :: nat) in
     (48 \<le> b \<and> b \<le> 57) \<or> (65 \<le> b \<and> b \<le> 90) \<or> (97 \<le> b \<and> b \<le> 122) \<or> c = CHR ''-'' \<or> c = CHR ''.'' \<or> c = CHR '':'')"

definition is_ip_literal :: "string \<Rightarrow> bool" where
  "is_ip_literal value \<longleftrightarrow> parse_ip value \<noteq> None
     \<or> (CHR ''%'' \<in> set value
        \<and> (let zone = tl (dropWhile (\<lambda>c. c \<noteq> CHR ''%'') value) in
           parse_ipv6 (before_percent value) \<noteq> None \<and> zone \<noteq> [] \<and> list_all zone_char zone))"

section \<open>The guard\<close>

text \<open>What \<open>next_back\<close> leaves of a text in UTF-8 without its last character.\<close>

definition drop_last_char :: "string \<Rightarrow> string" where
  "drop_last_char s = rev (tl (dropWhile (\<lambda>c. 0x80 \<le> (of_char c :: nat) \<and> (of_char c :: nat) < 0xC0) (rev s)))"

definition resolves_to_restricted_address :: "(string \<Rightarrow> IpAddr list option) \<Rightarrow> string \<Rightarrow> bool" where
  "resolves_to_restricted_address lookup hostname =
     (let literal = (case hostname of c # rest \<Rightarrow> if c = CHR ''['' then drop_last_char rest else hostname | [] \<Rightarrow> hostname) in
      if is_ip_literal literal then is_restricted_address literal
      else case lookup hostname of
        Some addresses \<Rightarrow> list_ex is_restricted_ip addresses
      | None \<Rightarrow> False)"

record GuardState =
  mcp_hostname :: string
  mcp_is_restricted :: "bool option"
  verdicts :: "string \<rightharpoonup> bool"

record RestrictedEndpointError =
  re_label :: string
  re_hostname :: string

definition host_or_default :: "Url \<Rightarrow> string" where
  "host_or_default url = (case host_str url of None \<Rightarrow> [] | Some h \<Rightarrow> h)"

definition discovered_endpoint_guard :: "Url \<Rightarrow> GuardState" where
  "discovered_endpoint_guard mcp_url =
     \<lparr>mcp_hostname = host_or_default mcp_url, mcp_is_restricted = None, verdicts = Map.empty\<rparr>"

definition mcp_verdict :: "(string \<Rightarrow> IpAddr list option) \<Rightarrow> GuardState \<Rightarrow> GuardState \<times> bool" where
  "mcp_verdict lookup g =
     (case mcp_is_restricted g of
        Some b \<Rightarrow> (g, b)
      | None \<Rightarrow>
          (let b = resolves_to_restricted_address lookup (mcp_hostname g) in (g\<lparr>mcp_is_restricted := Some b\<rparr>, b)))"

definition must_be_public :: "(string \<Rightarrow> IpAddr list option) \<Rightarrow> GuardState \<Rightarrow> Url \<Rightarrow> GuardState \<times> bool" where
  "must_be_public lookup g target =
     (if host_or_default target = mcp_hostname g then (g, False)
      else let (g1, b) = mcp_verdict lookup g in (g1, \<not> b))"

text \<open>The two lookups of a call fall at different moments.\<close>

definition assert_allowed ::
  "(string \<Rightarrow> IpAddr list option) \<Rightarrow> (string \<Rightarrow> IpAddr list option) \<Rightarrow> GuardState \<Rightarrow> Url \<Rightarrow> string
     \<Rightarrow> GuardState \<times> (RestrictedEndpointError, unit) result" where
  "assert_allowed lookup lookup' g target label =
     (let hostname = host_or_default target in
      if hostname = mcp_hostname g then (g, Inr ())
      else
        (let (g1, mcp_restricted) = mcp_verdict lookup g in
         if mcp_restricted then (g1, Inr ())
         else
           (let restricted = (case verdicts g1 hostname of
                  Some b \<Rightarrow> b | None \<Rightarrow> resolves_to_restricted_address lookup' hostname);
                g2 = g1\<lparr>verdicts := (verdicts g1)(hostname \<mapsto> restricted)\<rparr> in
            if restricted then (g2, Inl \<lparr>re_label = label, re_hostname = hostname\<rparr>) else (g2, Inr ()))))"


section \<open>Endpoints\<close>

text \<open>\<open>crates/net/src/http_url.rs\<close>.\<close>

datatype HttpUrlError = InvalidUrl string | NotHttp string | HasFragment string

definition parse_http_url :: "(string \<Rightarrow> Url option) \<Rightarrow> string \<Rightarrow> string \<Rightarrow> (HttpUrlError, Url) result" where
  "parse_http_url parse value label =
     (case parse value of
        None \<Rightarrow> Inl (InvalidUrl label)
      | Some url \<Rightarrow>
          if scheme url \<noteq> ''http'' \<and> scheme url \<noteq> ''https'' then Inl (NotHttp label)
          else if (case fragment url of None \<Rightarrow> False | Some f \<Rightarrow> f \<noteq> []) then Inl (HasFragment label)
          else Inr url)"

section \<open>Masks are intervals\<close>

lemma uint_shifted: "uint (drop_bit k w) = uint w div 2 ^ k" for w :: "'a::len word"
  by (simp add: unsigned_drop_bit_eq take_bit_int_eq_self flip: drop_bit_eq_div)

lemma masked_eq_iff:
  fixes x y :: "'a::len word"
  shows "x AND NOT (mask k) = y AND NOT (mask k) \<longleftrightarrow> uint x div 2 ^ k = uint y div 2 ^ k"
proof -
  have "x AND NOT (mask k) = y AND NOT (mask k) \<longleftrightarrow> drop_bit k x = drop_bit k y"
  proof
    assume eq: "x AND NOT (mask k) = y AND NOT (mask k)"
    show "drop_bit k x = drop_bit k y"
    proof (rule bit_word_eqI)
      fix n assume n: "n < LENGTH('a)"
      have "bit (x AND NOT (mask k)) (k + n) = bit (y AND NOT (mask k)) (k + n)" by (simp only: eq)
      then show "bit (drop_bit k x) n = bit (drop_bit k y) n"
        using bit_imp_le_length [of x "k + n"] bit_imp_le_length [of y "k + n"]
        by (auto simp: bit_simps)
    qed
  next
    assume eq: "drop_bit k x = drop_bit k y"
    show "x AND NOT (mask k) = y AND NOT (mask k)"
    proof (rule bit_word_eqI)
      fix n assume "n < LENGTH('a)"
      have "bit x n = bit y n" if "k \<le> n"
        using arg_cong [OF eq, of "\<lambda>w. bit w (n - k)"] that by (simp add: bit_simps)
      then show "bit (x AND NOT (mask k)) n = bit (y AND NOT (mask k)) n"
        by (auto simp: bit_simps)
    qed
  qed
  also have "\<dots> \<longleftrightarrow> uint x div 2 ^ k = uint y div 2 ^ k"
    by (simp add: word_uint_eq_iff uint_shifted)
  finally show ?thesis .
qed

text \<open>One subnet: the first \<open>p\<close> of \<open>w\<close> bits of \<open>n\<close> and \<open>m\<close> agree.\<close>

definition same_prefix :: "nat \<Rightarrow> nat \<Rightarrow> int \<Rightarrow> int \<Rightarrow> bool" where
  "same_prefix w p n m \<longleftrightarrow> n div 2 ^ (w - p) = m div 2 ^ (w - p)"

lemma contains_add_ipv4:
  "0 < p \<Longrightarrow> contains_ipv4 (add_ipv4_subnet l network p) a \<longleftrightarrow>
     contains_ipv4 l a \<or> same_prefix 32 p (uint a) (uint network)"
  by (auto simp: contains_ipv4_def add_ipv4_subnet_def checked_shl_def unwrap_or_zero_def masked_eq_iff same_prefix_def Let_def)

lemma contains_add_ipv6:
  "0 < p \<Longrightarrow> contains_ipv6 (add_ipv6_subnet l network p) a \<longleftrightarrow>
     contains_ipv6 l a \<or> same_prefix 128 p (uint a) (uint network)"
  by (auto simp: contains_ipv6_def add_ipv6_subnet_def checked_shl_def unwrap_or_zero_def masked_eq_iff same_prefix_def Let_def)

lemma add_other [simp]:
  "contains_ipv4 (add_ipv6_subnet l n p) a = contains_ipv4 l a"
  "contains_ipv6 (add_ipv4_subnet l m p) b = contains_ipv6 l b"
  by (simp_all add: contains_ipv4_def contains_ipv6_def add_ipv4_subnet_def add_ipv6_subnet_def Let_def)

section \<open>Addresses that carry another\<close>

lemma div_carry:
  fixes x :: int
  assumes "k \<le> w" "0 \<le> m" "m < 2 ^ w"
  shows "x div 2 ^ k = (c * 2 ^ w + m) div 2 ^ k \<longleftrightarrow> x div 2 ^ w = c \<and> (x mod 2 ^ w) div 2 ^ k = m div 2 ^ k"
proof -
  have pow: "(2 ^ w :: int) = 2 ^ k * 2 ^ (w - k)" using assms(1) by (simp flip: power_add)
  have split: "y div 2 ^ k = (y div 2 ^ w) * 2 ^ (w - k) + (y mod 2 ^ w) div 2 ^ k" for y :: int
  proof -
    have "y = y mod 2 ^ w + (y div 2 ^ w) * 2 ^ (w - k) * 2 ^ k"
      using div_mult_mod_eq [of y "2 ^ w"] by (simp add: pow algebra_simps)
    then have "y div 2 ^ k = (y mod 2 ^ w + (y div 2 ^ w) * 2 ^ (w - k) * 2 ^ k) div 2 ^ k" by simp
    then show ?thesis by simp
  qed
  have small: "0 \<le> (y mod 2 ^ w) div 2 ^ k \<and> (y mod 2 ^ w) div 2 ^ k < 2 ^ (w - k)" for y :: int
  proof -
    have "(y mod 2 ^ w) div 2 ^ k * 2 ^ k \<le> y mod 2 ^ w" by (simp add: minus_mod_eq_div_mult [symmetric])
    also have "\<dots> < 2 ^ (w - k) * 2 ^ k" by (simp add: pow mult.commute [of "2 ^ (w - k)"] flip: pow)
    finally show ?thesis by (simp add: pos_imp_zdiv_nonneg_iff)
  qed
  have parts: "(c * 2 ^ w + m) div 2 ^ w = c" "(c * 2 ^ w + m) mod 2 ^ w = m"
    using assms(2,3) by simp_all
  show ?thesis
    unfolding split [of x] split [of "c * 2 ^ w + m"] parts
  proof
    assume eq: "x div 2 ^ w * 2 ^ (w - k) + (x mod 2 ^ w) div 2 ^ k = c * 2 ^ (w - k) + m div 2 ^ k"
    have m: "0 \<le> m div 2 ^ k" "m div 2 ^ k < 2 ^ (w - k)" using small [of m] assms(2,3) by simp_all
    have "x div 2 ^ w = c" using arg_cong [OF eq, of "\<lambda>z. z div 2 ^ (w - k)"] small [of x] m by simp
    then show "x div 2 ^ w = c \<and> (x mod 2 ^ w) div 2 ^ k = m div 2 ^ k" using eq by simp
  qed auto
qed

lemma or_shifted: "0 \<le> m \<Longrightarrow> m < 2 ^ w \<Longrightarrow> push_bit w c OR m = c * 2 ^ w + m" for c m :: int
  using concat_bit_eq [of w m c] by (simp add: concat_bit_def take_bit_int_eq_self push_bit_eq_mult or.commute)

lemma uint_nat64: "uint (push_bit 96 0x0064ff9b OR ucast n :: 128 word) = (0x64ff9b * 2 ^ 64) * 2 ^ 32 + uint n"
  for n :: "32 word"
proof -
  have "uint (ucast n :: 128 word) = uint n" by (simp add: unsigned_ucast_eq take_bit_int_eq_self order_less_trans [OF uint_lt2p])
  moreover have "uint n < 2 ^ 96" using uint_lt2p [of n] by simp
  moreover have "uint (push_bit 96 0x0064ff9b :: 128 word) = push_bit 96 0x64ff9b" by simp
  ultimately show ?thesis
    using or_shifted [of "uint n" 96 "0x64ff9b"] by (simp add: unsigned_or_eq)
qed

lemma uint_6to4: "uint (push_bit 112 0x2002 OR push_bit 80 (ucast n) :: 128 word) = (0x2002 * 2 ^ 32 + uint n) * 2 ^ 80"
  for n :: "32 word"
proof -
  have n: "uint n < 2 ^ 32" using uint_lt2p [of n] by simp
  have "uint (ucast n :: 128 word) = uint n" by (simp add: unsigned_ucast_eq take_bit_int_eq_self order_less_trans [OF uint_lt2p])
  then have "uint (push_bit 80 (ucast n) :: 128 word) = take_bit 128 (push_bit 80 (uint n))"
    by (simp only: unsigned_push_bit_eq len_bit0 len_num1) simp
  also have "\<dots> = uint n * 2 ^ 80"
    using n by (simp add: push_bit_eq_mult take_bit_int_eq_self)
  finally have "uint (push_bit 80 (ucast n) :: 128 word) = uint n * 2 ^ 80" .
  moreover have "uint (push_bit 112 0x2002 :: 128 word) = push_bit 112 0x2002" by simp
  ultimately show ?thesis
    using or_shifted [of "uint n * 2 ^ 80" 112 "0x2002"] n by (simp add: unsigned_or_eq algebra_simps)
qed

text \<open>The IPv4 addresses an IPv6 one delivers to: compatible, mapped, NAT64, 6to4.\<close>

definition carried_ipv4 :: "int \<Rightarrow> int list" where
  "carried_ipv4 x =
     (if x div 2 ^ 32 \<in> {0, 0x64ff9b * 2 ^ 64} then [x mod 2 ^ 32] else [])
     @ (if x div 2 ^ 112 = 0x2002 then [x div 2 ^ 80 mod 2 ^ 32] else [])"

lemma carried_iff:
  fixes n :: "32 word"
  assumes "p \<le> 32"
  shows "same_prefix 128 (96 + p) x (uint n) \<or> same_prefix 128 (96 + p) x ((0x64ff9b * 2 ^ 64) * 2 ^ 32 + uint n)
      \<or> same_prefix 128 (16 + p) x ((0x2002 * 2 ^ 32 + uint n) * 2 ^ 80)
    \<longleftrightarrow> list_ex (\<lambda>m. same_prefix 32 p m (uint n)) (carried_ipv4 x)"
proof -
  have n: "0 \<le> uint n" "uint n < 2 ^ 32" using uint_lt2p [of n] by simp_all
  have k: "128 - (96 + p) = 32 - p" "128 - (16 + p) = 80 + (32 - p)" using assms by simp_all
  have carry: "y div 2 ^ (32 - p) = (c * 2 ^ 32 + uint n) div 2 ^ (32 - p) \<longleftrightarrow>
      y div 2 ^ 32 = c \<and> (y mod 2 ^ 32) div 2 ^ (32 - p) = uint n div 2 ^ (32 - p)" for y c
    by (rule div_carry) (use n in simp_all)
  have six: "same_prefix 128 (16 + p) x ((0x2002 * 2 ^ 32 + uint n) * 2 ^ 80) \<longleftrightarrow>
      x div 2 ^ 80 div 2 ^ 32 = 0x2002 \<and> same_prefix 32 p (x div 2 ^ 80 mod 2 ^ 32) (uint n)"
  proof -
    have d: "z div 2 ^ (80 + (32 - p)) = z div 2 ^ 80 div 2 ^ (32 - p)" for z :: int
      by (simp add: power_add zdiv_zmult2_eq)
    have q: "(0x2002 * 2 ^ 32 + uint n) * 2 ^ 80 div 2 ^ 80 = 0x2002 * 2 ^ 32 + uint n"
      by (rule nonzero_mult_div_cancel_right) simp
    show ?thesis unfolding same_prefix_def k d q by (rule carry)
  qed
  have low: "same_prefix 128 (96 + p) x (uint n) \<longleftrightarrow> x div 2 ^ 32 = 0 \<and> same_prefix 32 p (x mod 2 ^ 32) (uint n)"
    using carry [of x 0] by (simp add: same_prefix_def k)
  have nat64: "same_prefix 128 (96 + p) x ((0x64ff9b * 2 ^ 64) * 2 ^ 32 + uint n) \<longleftrightarrow>
      x div 2 ^ 32 = 0x64ff9b * 2 ^ 64 \<and> same_prefix 32 p (x mod 2 ^ 32) (uint n)"
    using carry [of x "0x64ff9b * 2 ^ 64"] by (simp only: same_prefix_def k)
  have "x div 2 ^ 80 div 2 ^ 32 = x div 2 ^ 112" using zdiv_zmult2_eq [of "2 ^ 32" x "2 ^ 80"] by simp
  then show ?thesis
    unfolding low nat64 six carried_ipv4_def
    by (simp only: insert_iff empty_iff list_ex_append list_ex_Cons_iff list_ex_Nil_iff split: if_split) blast
qed

lemma add_restricted_ipv4:
  "list_all (\<lambda>(n, p). 0 < p \<and> p \<le> 32) subnets \<Longrightarrow>
   contains_ipv4 (add_restricted l subnets) a \<longleftrightarrow>
     contains_ipv4 l a \<or> list_ex (\<lambda>(n, p). same_prefix 32 p (uint a) (uint n)) subnets"
  by (induction l subnets rule: add_restricted.induct) (auto simp: contains_add_ipv4 Let_def)

lemma add_restricted_ipv6:
  "list_all (\<lambda>(n, p). 0 < p \<and> p \<le> 32) subnets \<Longrightarrow>
   contains_ipv6 (add_restricted l subnets) a \<longleftrightarrow>
     contains_ipv6 l a \<or> list_ex (\<lambda>(n, p). list_ex (\<lambda>m. same_prefix 32 p m (uint n)) (carried_ipv4 (uint a))) subnets"
proof (induction l subnets rule: add_restricted.induct)
  case (2 l n p subnets)
  have low: "uint (ucast n :: 128 word) = uint n"
    by (simp add: unsigned_ucast_eq take_bit_int_eq_self order_less_trans [OF uint_lt2p])
  have p: "0 < p" "p \<le> 32" "0 < 96 + p" "0 < 16 + p" using 2(2) by simp_all
  have subnets: "list_all (\<lambda>(n, p). 0 < p \<and> p \<le> 32) subnets" using 2(2) by simp
  show ?case
    unfolding add_restricted.simps Let_def 2(1) [OF refl refl refl refl refl subnets]
      contains_add_ipv6 [OF p(3)] contains_add_ipv6 [OF p(4)] add_other low uint_nat64 uint_6to4
    using carried_iff [OF p(2), of "uint a" n] by (simp only: list_ex_Cons_iff prod.case) blast
qed simp

section \<open>The restricted networks, as ranges\<close>

definition dotted :: "int \<Rightarrow> int \<Rightarrow> int \<Rightarrow> int \<Rightarrow> int" where
  "dotted a b c d = ((a * 256 + b) * 256 + c) * 256 + d"

definition restricted_ipv4 :: "int \<Rightarrow> bool" where
  "restricted_ipv4 n \<longleftrightarrow>
     n < dotted 1 0 0 0
   \<or> (dotted 10 0 0 0 \<le> n \<and> n < dotted 11 0 0 0)
   \<or> (dotted 100 64 0 0 \<le> n \<and> n < dotted 100 128 0 0)
   \<or> (dotted 127 0 0 0 \<le> n \<and> n < dotted 128 0 0 0)
   \<or> (dotted 169 254 0 0 \<le> n \<and> n < dotted 169 255 0 0)
   \<or> (dotted 172 16 0 0 \<le> n \<and> n < dotted 172 32 0 0)
   \<or> (dotted 192 0 0 0 \<le> n \<and> n < dotted 192 0 1 0)
   \<or> (dotted 192 168 0 0 \<le> n \<and> n < dotted 192 169 0 0)
   \<or> (dotted 198 18 0 0 \<le> n \<and> n < dotted 198 20 0 0)
   \<or> dotted 224 0 0 0 \<le> n"

definition restricted_ipv6 :: "int \<Rightarrow> bool" where
  "restricted_ipv6 n \<longleftrightarrow>
     n \<le> 1
   \<or> (0x0064ff9b0001 * 2 ^ 80 \<le> n \<and> n < 0x0064ff9b0002 * 2 ^ 80)
   \<or> (0xfc00 * 2 ^ 112 \<le> n \<and> n < 0xfe00 * 2 ^ 112)
   \<or> 0xfe80 * 2 ^ 112 \<le> n"

lemma div_eq_interval: "0 < b \<Longrightarrow> n div b = q \<longleftrightarrow> q * b \<le> n \<and> n < (q + 1) * b" for n b q :: int
proof
  assume b: "0 < b" and "q * b \<le> n \<and> n < (q + 1) * b"
  then show "n div b = q"
    by (intro int_div_pos_eq [of n b q "n - q * b"]) (simp_all add: algebra_simps)
next
  assume b: "0 < b" and "n div b = q"
  then have "b * q + n mod b = n" by (auto simp: mult_div_mod_eq)
  then have "b * q \<le> n \<and> n < b + b * q"
    using pos_mod_bound [OF b, of n] pos_mod_sign [OF b, of n] by linarith
  then show "q * b \<le> n \<and> n < (q + 1) * b" by (simp add: algebra_simps)
qed

lemma restricted_ipv4_subnets:
  assumes "0 \<le> n" "n < 2 ^ 32"
  shows "list_ex (\<lambda>(m, p). same_prefix 32 p n (uint m)) RESTRICTED_IPV4_SUBNETS \<longleftrightarrow> restricted_ipv4 n"
  using assms
  by (simp add: RESTRICTED_IPV4_SUBNETS_def ipv4_new_def same_prefix_def restricted_ipv4_def dotted_def div_eq_interval) linarith

lemma restricted_ipv6_subnets:
  assumes "0 \<le> n" "n < 2 ^ 128"
  shows "list_ex (\<lambda>(m, p). same_prefix 128 p n (uint m)) RESTRICTED_IPV6_SUBNETS \<longleftrightarrow> restricted_ipv6 n"
  using assms
  by (simp add: RESTRICTED_IPV6_SUBNETS_def ipv6_new_def same_prefix_def restricted_ipv6_def div_eq_interval) linarith

section \<open>Properties\<close>

lemma subnets_fit:
  "list_all (\<lambda>(n, p). 0 < p \<and> p \<le> 32) RESTRICTED_IPV4_SUBNETS" "list_all (\<lambda>(n, p). 0 < p) RESTRICTED_IPV6_SUBNETS"
  by (simp_all add: RESTRICTED_IPV4_SUBNETS_def RESTRICTED_IPV6_SUBNETS_def)

lemma fold_ipv6:
  "list_all (\<lambda>(n, p). 0 < p) subnets \<Longrightarrow>
   contains_ipv6 (foldl (\<lambda>l (n, p). add_ipv6_subnet l n p) l subnets) a \<longleftrightarrow>
     contains_ipv6 l a \<or> list_ex (\<lambda>(n, p). same_prefix 128 p (uint a) (uint n)) subnets"
proof (induction subnets arbitrary: l)
  case (Cons x subnets)
  obtain n p where x: "x = (n, p)" by (cases x)
  then show ?case
    using Cons.IH [of "add_ipv6_subnet l n p"] Cons.prems contains_add_ipv6 [of p l n a] by (simp add: x disj_assoc)
qed simp

lemma fold_ipv6_keeps:
  "contains_ipv4 (foldl (\<lambda>l (n, p). add_ipv6_subnet l n p) l subnets) a = contains_ipv4 l a"
proof (induction subnets arbitrary: l)
  case (Cons x subnets)
  then show ?case by (cases x) (simp only: foldl_Cons prod.case add_other)
qed simp

lemma uint_range: "0 \<le> uint (a :: 'a::len word)" "uint a < 2 ^ LENGTH('a)"
  by simp_all

lemma contains_RESTRICTED_ipv4: "contains_ipv4 RESTRICTED a \<longleftrightarrow> restricted_ipv4 (uint a)"
proof -
  have "contains_ipv4 RESTRICTED a \<longleftrightarrow> list_ex (\<lambda>(n, p). same_prefix 32 p (uint a) (uint n)) RESTRICTED_IPV4_SUBNETS"
    unfolding RESTRICTED_def fold_ipv6_keeps add_restricted_ipv4 [OF subnets_fit(1)] by (simp add: contains_ipv4_def)
  also have "\<dots> \<longleftrightarrow> restricted_ipv4 (uint a)"
    by (rule restricted_ipv4_subnets) (use uint_range [of a] in simp_all)
  finally show ?thesis .
qed

lemma contains_RESTRICTED_ipv6:
  "contains_ipv6 RESTRICTED a \<longleftrightarrow> list_ex restricted_ipv4 (carried_ipv4 (uint a)) \<or> restricted_ipv6 (uint a)"
proof -
  have "list_ex (\<lambda>(n, p). list_ex (\<lambda>m. same_prefix 32 p m (uint n)) (carried_ipv4 (uint a))) RESTRICTED_IPV4_SUBNETS
      \<longleftrightarrow> list_ex (\<lambda>m. list_ex (\<lambda>(n, p). same_prefix 32 p m (uint n)) RESTRICTED_IPV4_SUBNETS) (carried_ipv4 (uint a))"
    unfolding list_ex_iff by blast
  also have "\<dots> \<longleftrightarrow> list_ex restricted_ipv4 (carried_ipv4 (uint a))"
    unfolding list_ex_iff [of _ "carried_ipv4 (uint a)"]
    by (rule bex_cong [OF refl], rule restricted_ipv4_subnets) (auto simp: carried_ipv4_def split: if_splits)
  finally have carried: "contains_ipv6 (add_restricted \<lparr>bl_ipv4 = [], bl_ipv6 = []\<rparr> RESTRICTED_IPV4_SUBNETS) a
      \<longleftrightarrow> list_ex restricted_ipv4 (carried_ipv4 (uint a))"
    unfolding add_restricted_ipv6 [OF subnets_fit(1)] by (simp add: contains_ipv6_def)
  have "list_ex (\<lambda>(n, p). same_prefix 128 p (uint a) (uint n)) RESTRICTED_IPV6_SUBNETS \<longleftrightarrow> restricted_ipv6 (uint a)"
    by (rule restricted_ipv6_subnets) (use uint_range [of a] in simp_all)
  then show ?thesis
    unfolding RESTRICTED_def fold_ipv6 [OF subnets_fit(2)] carried by blast
qed

lemma to_ipv4_mapped_iff:
  "to_ipv4_mapped a = (if uint a div 2 ^ 32 = 0xffff then Some (ucast a) else None)"
proof -
  have "drop_bit 32 a = 0xffff \<longleftrightarrow> uint a div 2 ^ 32 = 0xffff"
    unfolding word_uint_eq_iff uint_shifted by simp
  then show ?thesis by (simp add: to_ipv4_mapped_def)
qed

text \<open>C21: The networks the gateway must not be sent into, whatever form the address takes. The masks of the
  block list mean exactly these ranges: an IPv4 address is refused when it is unspecified, private,
  shared, loopback, link-local, special-purpose, multicast or reserved; an IPv6 address is refused
  when it is unspecified, loopback, local NAT64, unique-local, link-local, site-local or multicast, or
  when it is compatible with, mapped from, or translated (NAT64, 6to4) to a refused IPv4 address.\<close>

theorem restricted_exactly:
  "is_restricted_ip address =
     (case address of
        V4 a \<Rightarrow> restricted_ipv4 (uint a)
      | V6 a \<Rightarrow> restricted_ipv6 (uint a) \<or> list_ex restricted_ipv4 (carried_ipv4 (uint a))
          \<or> (uint a div 2 ^ 32 = 0xffff \<and> restricted_ipv4 (uint a mod 2 ^ 32)))"
proof (cases address)
  case (V4 a)
  then show ?thesis by (simp add: is_restricted_ip_def contains_RESTRICTED_ipv4)
next
  case (V6 a)
  have "uint (ucast a :: 32 word) = uint a mod 2 ^ 32" by (simp add: unsigned_ucast_eq take_bit_eq_mod)
  then show ?thesis
    by (auto simp: V6 is_restricted_ip_def contains_RESTRICTED_ipv4 contains_RESTRICTED_ipv6 to_ipv4_mapped_iff)
qed

section \<open>One guard, many endpoints\<close>

type_synonym guard_call = "(string \<Rightarrow> IpAddr list option) \<times> (string \<Rightarrow> IpAddr list option) \<times> Url \<times> string"

fun guard_run :: "GuardState \<Rightarrow> guard_call list \<Rightarrow> GuardState \<times> (string \<times> bool) list" where
  "guard_run g [] = (g, [])"
| "guard_run g ((lookup, lookup', target, label) # calls) =
     (let (g1, r) = assert_allowed lookup lookup' g target label; (g2, more) = guard_run g1 calls in
      (g2, (host_or_default target, is_ok r) # more))"

text \<open>What a guard has found out it keeps, and its answer to a host follows from it.\<close>

definition grows :: "GuardState \<Rightarrow> GuardState \<Rightarrow> bool" where
  "grows g g' \<longleftrightarrow> mcp_hostname g' = mcp_hostname g
     \<and> (\<forall>b. mcp_is_restricted g = Some b \<longrightarrow> mcp_is_restricted g' = Some b)
     \<and> verdicts g \<subseteq>\<^sub>m verdicts g'"

definition answered :: "GuardState \<Rightarrow> string \<Rightarrow> bool \<Rightarrow> bool" where
  "answered g host ok \<longleftrightarrow>
     (if host = mcp_hostname g then ok
      else mcp_is_restricted g = Some True \<and> ok
        \<or> mcp_is_restricted g = Some False \<and> verdicts g host = Some (\<not> ok))"

text \<open>Each finding was the answer of a lookup of the run.\<close>

definition found_by :: "(string \<Rightarrow> IpAddr list option) set \<Rightarrow> GuardState \<Rightarrow> bool" where
  "found_by L g \<longleftrightarrow>
     (\<forall>b. mcp_is_restricted g = Some b \<longrightarrow> (\<exists>l \<in> L. resolves_to_restricted_address l (mcp_hostname g) = b))
   \<and> (\<forall>h b. verdicts g h = Some b \<longrightarrow> (\<exists>l \<in> L. resolves_to_restricted_address l h = b))"

lemma grows_trans: "grows g g' \<Longrightarrow> grows g' g'' \<Longrightarrow> grows g g''"
  by (auto simp: grows_def intro: map_le_trans)

lemma answered_grows: "answered g host ok \<Longrightarrow> grows g g' \<Longrightarrow> answered g' host ok"
  by (auto simp: answered_def grows_def map_le_def dom_def split: if_splits)

lemma found_by_mono: "found_by L g \<Longrightarrow> L \<subseteq> L' \<Longrightarrow> found_by L' g"
  unfolding found_by_def by blast

lemma found_by_mcp:
  "found_by L g \<Longrightarrow> found_by (insert l L) (g\<lparr>mcp_is_restricted := Some (resolves_to_restricted_address l (mcp_hostname g))\<rparr>)"
  unfolding found_by_def
proof (intro conjI allI impI)
  fix b assume "mcp_is_restricted (g\<lparr>mcp_is_restricted := Some (resolves_to_restricted_address l (mcp_hostname g))\<rparr>) = Some b"
  then show "\<exists>l' \<in> insert l L. resolves_to_restricted_address l' (mcp_hostname
      (g\<lparr>mcp_is_restricted := Some (resolves_to_restricted_address l (mcp_hostname g))\<rparr>)) = b" by simp
next
  fix h b
  assume all: "(\<forall>b. mcp_is_restricted g = Some b \<longrightarrow> (\<exists>l \<in> L. resolves_to_restricted_address l (mcp_hostname g) = b))
      \<and> (\<forall>h b. verdicts g h = Some b \<longrightarrow> (\<exists>l \<in> L. resolves_to_restricted_address l h = b))"
    and "verdicts (g\<lparr>mcp_is_restricted := Some (resolves_to_restricted_address l (mcp_hostname g))\<rparr>) h = Some b"
  then have "verdicts g h = Some b" by simp
  then show "\<exists>l \<in> insert l L. resolves_to_restricted_address l h = b" using all by blast
qed

lemma found_byD:
  "found_by L g \<Longrightarrow> mcp_is_restricted g = Some b \<Longrightarrow> \<exists>l \<in> L. resolves_to_restricted_address l (mcp_hostname g) = b"
  "found_by L g \<Longrightarrow> verdicts g h = Some b \<Longrightarrow> \<exists>l \<in> L. resolves_to_restricted_address l h = b"
  unfolding found_by_def by blast+

lemma assert_allowed_grows:
  assumes "assert_allowed lookup lookup' g target label = (g', r)" "found_by L g"
  shows "grows g g' \<and> answered g' (host_or_default target) (is_ok r) \<and> found_by ({lookup, lookup'} \<union> L) g'"
proof (cases "host_or_default target = mcp_hostname g")
  case True
  then show ?thesis
    using assms found_by_mono [of L g "{lookup, lookup'} \<union> L"] by (auto simp: assert_allowed_def grows_def answered_def)
next
  case False
  obtain g1 b where v: "mcp_verdict lookup g = (g1, b)" by (cases "mcp_verdict lookup g")
  then have g1: "grows g g1" "mcp_is_restricted g1 = Some b" "mcp_hostname g1 = mcp_hostname g"
    by (auto simp: mcp_verdict_def grows_def Let_def split: option.splits)
  have found: "found_by (insert lookup L) g1"
    using v found_by_mcp [OF assms(2)] found_by_mono [OF assms(2), of "insert lookup L"]
    by (auto simp: mcp_verdict_def Let_def split: option.splits)
  show ?thesis
  proof (cases b)
    case True
    then show ?thesis
      using assms(1) False v g1 found_by_mono [OF found, of "{lookup, lookup'} \<union> L"]
      by (auto simp: assert_allowed_def answered_def)
  next
    case free: False
    define c where "c = (case verdicts g1 (host_or_default target) of
      Some b \<Rightarrow> b | None \<Rightarrow> resolves_to_restricted_address lookup' (host_or_default target))"
    have out: "g' = g1\<lparr>verdicts := (verdicts g1)(host_or_default target \<mapsto> c)\<rparr>" "is_ok r = (\<not> c)"
      using assms(1) False v free by (auto simp: assert_allowed_def Let_def c_def split: if_splits)
    have "grows g1 g'"
      by (auto simp: out grows_def map_le_def c_def split: option.split)
    moreover have "found_by ({lookup, lookup'} \<union> L) g'"
      using found by (fastforce simp: found_by_def out c_def split: option.split if_splits)
    ultimately show ?thesis
      using False g1 free grows_trans by (auto simp: out answered_def)
  qed
qed

lemma guard_run_grows:
  assumes "guard_run g calls = (g', answers)" "found_by L g"
  shows "grows g g' \<and> found_by (L \<union> (\<Union>(l, l', _) \<in> set calls. {l, l'})) g' \<and> (\<forall>(h, ok) \<in> set answers. answered g' h ok)"
  using assms
proof (induction calls arbitrary: g L answers)
  case (Cons call calls)
  obtain lookup lookup' target label where call: "call = (lookup, lookup', target, label)" by (metis prod_cases4)
  obtain g1 r where a: "assert_allowed lookup lookup' g target label = (g1, r)" by (cases "assert_allowed lookup lookup' g target label")
  obtain more where more: "guard_run g1 calls = (g', more)" "answers = (host_or_default target, is_ok r) # more"
    using Cons.prems(1) by (auto simp: call a split: prod.splits)
  note one = assert_allowed_grows [OF a Cons.prems(2)]
  note rest = Cons.IH [OF more(1), of "{lookup, lookup'} \<union> L"]
  have "found_by (L \<union> (\<Union>(l, l', _) \<in> set (call # calls). {l, l'})) g'"
    using rest one by (simp add: call Un_commute Un_left_commute insert_commute)
  then show ?case
    using one rest more(2) by (auto intro: grows_trans answered_grows)
qed (simp add: grows_def)

text \<open>One answer for each host in the life of a guard, however names resolve in the meantime: two
  checks of endpoints on the same host answer alike. An endpoint is let through only when it is on the
  MCP's own host, or a lookup found the MCP itself in a restricted network, or a lookup found none
  of the addresses of the endpoint's host restricted.\<close>

theorem guard_answers_once:
  assumes "guard_run (discovered_endpoint_guard mcp_url) calls = (g, answers)"
    and "(host, ok) \<in> set answers" and "(host, ok') \<in> set answers"
  shows "ok' = ok \<and> (ok \<longrightarrow> host = host_or_default mcp_url
     \<or> (\<exists>lookup. resolves_to_restricted_address lookup (host_or_default mcp_url)
          \<and> lookup \<in> (\<Union>(l, l', _) \<in> set calls. {l, l'}))
     \<or> (\<exists>lookup. \<not> resolves_to_restricted_address lookup host
          \<and> lookup \<in> (\<Union>(l, l', _) \<in> set calls. {l, l'})))"
proof -
  have start: "found_by {} (discovered_endpoint_guard mcp_url)"
    by (simp add: found_by_def discovered_endpoint_guard_def)
  note run = guard_run_grows [OF assms(1) start]
  have host: "mcp_hostname g = host_or_default mcp_url"
    using run by (simp add: grows_def discovered_endpoint_guard_def)
  have a: "answered g host ok" "answered g host ok'" using run assms(2,3) by auto
  show ?thesis
  proof
    show "ok' = ok" using a by (auto simp: answered_def split: if_splits)
    have found: "found_by (\<Union>(l, l', _) \<in> set calls. {l, l'}) g" using run by simp
    define L where "L = (\<Union>(l, l', _) \<in> set calls. {l, l'})"
    show "ok \<longrightarrow> host = host_or_default mcp_url
       \<or> (\<exists>lookup. resolves_to_restricted_address lookup (host_or_default mcp_url) \<and> lookup \<in> (\<Union>(l, l', _) \<in> set calls. {l, l'}))
       \<or> (\<exists>lookup. \<not> resolves_to_restricted_address lookup host \<and> lookup \<in> (\<Union>(l, l', _) \<in> set calls. {l, l'}))"
      using a(1) found_byD(1) [OF found, of True] found_byD(2) [OF found, of host False]
      unfolding L_def [symmetric] answered_def host by (auto split: if_splits)
  qed
qed

definition sample_url :: "string \<Rightarrow> Url" where
  "sample_url h = \<lparr>url_text = ''https://'' @ h, scheme = ''https'', host_str = Some h, path = ''/'', query = None,
     fragment = None, username = [], url_password = None\<rparr>"

theorem guard_answers_once_witness:
  "\<exists>g. guard_run (discovered_endpoint_guard (sample_url ''m''))
      [(\<lambda>_. None, \<lambda>_. Some [V4 0x08080808], sample_url ''h'', ''Issuer''), (\<lambda>_. None, \<lambda>_. Some [V4 0x7F000001], sample_url ''h'', ''Issuer'')]
    = (g, [(''h'', True), (''h'', True)]) \<and> mcp_hostname g = ''m''"
proof -
  let ?calls = "[(\<lambda>_. None, \<lambda>_. Some [V4 0x08080808], sample_url ''h'', ''Issuer''), (\<lambda>_. None, \<lambda>_. Some [V4 0x7F000001], sample_url ''h'', ''Issuer'')]"
  have names: "is_ip_literal ''h'' = False" "is_ip_literal ''m'' = False" by code_simp+
  have "is_restricted_ip (V4 0x08080808) = False"
    by (simp add: is_restricted_ip_def contains_RESTRICTED_ipv4 restricted_ipv4_def dotted_def)
  then have "resolves_to_restricted_address (\<lambda>_. Some [V4 0x08080808]) ''h'' = False"
    "resolves_to_restricted_address (\<lambda>_. None) ''m'' = False"
    by (simp_all add: resolves_to_restricted_address_def names)
  then obtain g ok where g: "guard_run (discovered_endpoint_guard (sample_url ''m'')) ?calls = (g, [(''h'', True), (''h'', ok)])"
      "mcp_hostname g = ''m''"
    by (simp add: assert_allowed_def discovered_endpoint_guard_def host_or_default_def sample_url_def mcp_verdict_def Let_def)
  moreover have "ok = True" using guard_answers_once [OF g(1), of "''h''" True ok] by simp
  ultimately show ?thesis by auto
qed

end
