(* ===== verification/ClientIp.thy ===== *)
theory ClientIp
  imports AddressGuard
begin

unbundle bit_operations_syntax

text \<open>
  Which address a request came from, behind zero or more reverse proxies: \<open>crates/core/src/client_ip.rs\<close>.
  IP ranges come from a crate: the operations used of them are a record. Addresses are read as in
  \<open>AddressGuard\<close> and written as \<open>std::net\<close> writes them.
\<close>

section \<open>Writing an address\<close>

function show_radix :: "int \<Rightarrow> int \<Rightarrow> string" where
  "show_radix radix n =
     (if n < radix \<or> radix < 2 then [hex_char n] else show_radix radix (n div radix) @ [hex_char (n mod radix)])"
  by auto
termination
proof (relation "measure (\<lambda>(radix, n). nat n)")
  fix radix n :: int
  assume "\<not> (n < radix \<or> radix < 2)"
  then have "0 < n" "n div radix < n" by (auto intro: int_div_less_self)
  then show "((radix, n div radix), radix, n) \<in> measure (\<lambda>(radix, n). nat n)" by simp
qed simp

declare show_radix.simps [simp del]

definition octets :: "32 word \<Rightarrow> int list" where
  "octets a = map (\<lambda>k. uint (drop_bit k a AND 255)) [24, 16, 8, 0]"

definition ipv4_text :: "32 word \<Rightarrow> string" where
  "ipv4_text a = join_with ''.'' (map (show_radix 10) (octets a))"

definition segments :: "128 word \<Rightarrow> 16 word list" where
  "segments a = map (\<lambda>k. ucast (drop_bit k a)) [112, 96, 80, 64, 48, 32, 16, 0]"

text \<open>The first longest run of zeros: its start and its length.\<close>

fun zero_span :: "nat \<Rightarrow> nat \<times> nat \<Rightarrow> nat \<times> nat \<Rightarrow> 16 word list \<Rightarrow> nat \<times> nat" where
  "zero_span i current longest [] = longest"
| "zero_span i current longest (g # gs) =
     (if g = 0 then
        (let current = (if snd current = 0 then i else fst current, snd current + 1) in
         zero_span (i + 1) current (if snd current > snd longest then current else longest) gs)
      else zero_span (i + 1) (0, 0) longest gs)"

definition groups_text :: "16 word list \<Rightarrow> string" where
  "groups_text gs = join_with '':'' (map (\<lambda>g. show_radix 16 (uint g)) gs)"

definition ipv6_text :: "128 word \<Rightarrow> string" where
  "ipv6_text a =
     (case to_ipv4_mapped a of
        Some v4 \<Rightarrow> ''::ffff:'' @ ipv4_text v4
      | None \<Rightarrow>
          (let (start, len) = zero_span 0 (0, 0) (0, 0) (segments a) in
           if len > 1 then groups_text (take start (segments a)) @ ''::'' @ groups_text (drop (start + len) (segments a))
           else groups_text (segments a)))"

fun ip_text :: "IpAddr \<Rightarrow> string" where
  "ip_text (V4 a) = ipv4_text a"
| "ip_text (V6 a) = ipv6_text a"

fun to_canonical :: "IpAddr \<Rightarrow> IpAddr" where
  "to_canonical (V4 a) = V4 a"
| "to_canonical (V6 a) = (case to_ipv4_mapped a of Some v4 \<Rightarrow> V4 v4 | None \<Rightarrow> V6 a)"

section \<open>Trusted proxies\<close>

text \<open>What is used of a range of addresses.\<close>

record 'n Nets =
  net_parse :: "string \<Rightarrow> 'n option"
  net_from :: "IpAddr \<Rightarrow> 'n"
  net_trunc :: "'n \<Rightarrow> 'n"
  net_contains :: "'n \<Rightarrow> IpAddr \<Rightarrow> bool"

datatype 'n TrustProxy = TrustAll | TrustNone | TrustRanges "'n list"

definition UNKNOWN_IP :: string where
  "UNKNOWN_IP = ''0.0.0.0''"

definition nets :: "'n Nets \<Rightarrow> string list \<Rightarrow> 'n list" where
  "nets ops values = List.map_filter (net_parse ops) values"

definition named_ranges :: "'n Nets \<Rightarrow> string \<Rightarrow> 'n list option" where
  "named_ranges ops name =
     (if name = ''loopback'' then Some (nets ops [''127.0.0.1/8'', ''::1/128''])
      else if name = ''linklocal'' then Some (nets ops [''169.254.0.0/16'', ''fe80::/10''])
      else if name = ''uniquelocal'' then Some (nets ops [''10.0.0.0/8'', ''172.16.0.0/12'', ''192.168.0.0/16'', ''fc00::/7''])
      else None)"

definition default_trust :: "'n Nets \<Rightarrow> 'n TrustProxy" where
  "default_trust ops = TrustRanges (case named_ranges ops ''loopback'' of None \<Rightarrow> [] | Some r \<Rightarrow> r)"

text \<open>White space as \<open>str::trim\<close> knows it, in UTF-8.\<close>

definition RUST_SPACES :: "string list" where
  "RUST_SPACES =
     [[CHR 0x09], [CHR 0x0A], [CHR 0x0B], [CHR 0x0C], [CHR 0x0D], [CHR 0x20], [CHR 0xC2, CHR 0x85], [CHR 0xC2, CHR 0xA0],
      [CHR 0xE1, CHR 0x9A, CHR 0x80]]
     @ map (\<lambda>n. [CHR 0xE2, CHR 0x80, char_of n]) ([0x80..<0x8B :: nat] @ [0xA8, 0xA9, 0xAF])
     @ [[CHR 0xE2, CHR 0x81, CHR 0x9F], [CHR 0xE3, CHR 0x80, CHR 0x80]]"

definition str_trim :: "string \<Rightarrow> string" where
  "str_trim s = rev (strip (map rev RUST_SPACES) (rev (strip RUST_SPACES s)))"

definition trust_entries :: "string option \<Rightarrow> string list" where
  "trust_entries value =
     (let entries = filter (\<lambda>e. e \<noteq> []) (map str_trim (split_on (CHR '','') (case value of None \<Rightarrow> [] | Some v \<Rightarrow> v))) in
      if entries = [] then [''loopback''] else entries)"

fun trust_ranges :: "'n Nets \<Rightarrow> string list \<Rightarrow> (string, 'n list) result" where
  "trust_ranges ops [] = Inr []"
| "trust_ranges ops (entry # entries) =
     (let lowered = ascii_lower entry in
      case named_ranges ops lowered of
        Some named \<Rightarrow> and_then (trust_ranges ops entries) (\<lambda>r. Inr (named @ r))
      | None \<Rightarrow>
          (case parse_ip lowered of
             Some address \<Rightarrow> and_then (trust_ranges ops entries) (\<lambda>r. Inr (net_from ops address # r))
           | None \<Rightarrow>
               (case net_parse ops lowered of
                  Some n \<Rightarrow> and_then (trust_ranges ops entries) (\<lambda>r. Inr (net_trunc ops n # r))
                | None \<Rightarrow> Inl (''Invalid TRUST_PROXY entry '' @ [CHR 0x22] @ entry @ [CHR 0x22] @
                    ''. Use true, false, or a comma-separated list of proxy IPs, CIDR ranges, and the names loopback, linklocal, uniquelocal.''))))"

definition trust_parse :: "'n Nets \<Rightarrow> string option \<Rightarrow> (string, 'n TrustProxy) result" where
  "trust_parse ops value =
     (let entries = trust_entries value in
      if map ascii_lower entries = [''true''] then Inr TrustAll
      else if map ascii_lower entries = [''false''] then Inr TrustNone
      else and_then (trust_ranges ops entries) (\<lambda>r. Inr (TrustRanges r)))"

fun trusts :: "'n Nets \<Rightarrow> 'n TrustProxy \<Rightarrow> string \<Rightarrow> bool" where
  "trusts ops TrustAll address = True"
| "trusts ops TrustNone address = False"
| "trusts ops (TrustRanges ranges) address =
     (case parse_ip address of
        None \<Rightarrow> False
      | Some ip \<Rightarrow> list_ex (\<lambda>r. net_contains ops r (to_canonical ip)) ranges)"

section \<open>The client of a request\<close>

definition hops :: "string option \<Rightarrow> string option \<Rightarrow> string list" where
  "hops socket x_forwarded_for =
     (case socket of None \<Rightarrow> [] | Some s \<Rightarrow> [s])
     @ (case x_forwarded_for of None \<Rightarrow> [] | Some header \<Rightarrow> rev (map str_trim (split_on (CHR '','') header)))"

fun walk_hops :: "(string \<Rightarrow> bool) \<Rightarrow> string list \<Rightarrow> string option" where
  "walk_hops trusted [] = None"
| "walk_hops trusted (hop # rest) = (if rest = [] \<or> \<not> trusted hop then Some hop else walk_hops trusted rest)"

definition forwarded :: "'n Nets \<Rightarrow> 'n TrustProxy \<Rightarrow> string option \<Rightarrow> string option \<Rightarrow> string option" where
  "forwarded ops trust socket x_forwarded_for = walk_hops (trusts ops trust) (hops socket x_forwarded_for)"

definition filter_ip :: "string option \<Rightarrow> string option" where
  "filter_ip value = (case value of Some v \<Rightarrow> if parse_ip v \<noteq> None then Some v else None | None \<Rightarrow> None)"

definition resolve_client_ip :: "string option \<Rightarrow> string option \<Rightarrow> string" where
  "resolve_client_ip value socket =
     (case filter_ip value of
        Some v \<Rightarrow> v
      | None \<Rightarrow> (case filter_ip socket of Some v \<Rightarrow> v | None \<Rightarrow> UNKNOWN_IP))"

definition client_ip :: "'n Nets \<Rightarrow> 'n TrustProxy \<Rightarrow> IpAddr option \<Rightarrow> string option \<Rightarrow> string" where
  "client_ip ops trust socket_address x_forwarded_for =
     (let socket = map_option ip_text socket_address in
      resolve_client_ip (forwarded ops trust socket x_forwarded_for) socket)"

definition rate_limit_client_key :: "string \<Rightarrow> string" where
  "rate_limit_client_key ip =
     (case parse_ipv6 (before_percent ip) of
        None \<Rightarrow> ip
      | Some address \<Rightarrow>
          (let groups = segments address in
           if list_all (\<lambda>g. g = 0) (take 5 groups) \<and> groups ! 5 = 0xffff
           then ipv4_text (push_bit 16 (ucast (groups ! 6)) OR ucast (groups ! 7))
           else groups_text (take 4 groups) @ ''::/64''))"

section \<open>Walking back through the proxies\<close>

lemma walk_hops_append: "list_ex (\<lambda>h. \<not> trusted h) hs \<Longrightarrow> walk_hops trusted (hs @ hs2) = walk_hops trusted hs"
proof (induction hs)
  case (Cons h hs)
  then show ?case by (cases "trusted h"; cases hs) auto
qed simp

lemma walk_hops_member: "hs \<noteq> [] \<Longrightarrow> \<exists>h \<in> set hs. walk_hops trusted hs = Some h"
  by (induction hs) auto

lemma split_on_cut: "split_on c (xs @ c # ys) = split_on c xs @ split_on c ys"
proof (induction xs)
  case (Cons x xs)
  then show ?case by (auto split: list.split)
qed simp

lemma hops_cut: "hops socket (Some (claimed @ CHR '','' # known)) = hops socket (Some known) @ rev (map str_trim (split_on (CHR '','') claimed))"
  by (simp add: hops_def split_on_cut)

text \<open>C28: What a client writes itself never moves it. Whatever stands in \<open>X-Forwarded-For\<close> before what the
  proxies appended, when one of the hops they vouch for is not trusted, the client address is the one
  of the header without it.\<close>

theorem forged_header_ignored:
  assumes "\<not> list_all (trusts ops trust) (hops (map_option ip_text socket) (Some known))"
  shows "client_ip ops trust socket (Some (claimed @ CHR '','' # known)) = client_ip ops trust socket (Some known)"
  using assms walk_hops_append
  by (simp add: client_ip_def forwarded_def hops_cut list_ex_iff list_all_iff)

definition exact_nets :: "IpAddr Nets" where
  "exact_nets = \<lparr>net_parse = (\<lambda>_. None), net_from = (\<lambda>a. a), net_trunc = (\<lambda>n. n), net_contains = (\<lambda>n a. n = a)\<rparr>"

theorem forged_header_ignored_witness:
  "client_ip exact_nets (TrustRanges [V4 (ipv4_new 1 1 1 1)]) (Some (V4 (ipv4_new 1 1 1 1)))
      (Some (''x'' @ CHR '','' # ''8.8.8.8''))
    = client_ip exact_nets (TrustRanges [V4 (ipv4_new 1 1 1 1)]) (Some (V4 (ipv4_new 1 1 1 1))) (Some ''8.8.8.8'')"
  by (rule forged_header_ignored) code_simp

section \<open>Texts of addresses\<close>

lemma of_char_hex_char: "0 \<le> d \<Longrightarrow> d < 16 \<Longrightarrow> (of_char (hex_char d) :: int) = (if d < 10 then 48 + d else 87 + d)"
  by (simp add: hex_char_def)

lemma digit_value_hex_char: "0 \<le> d \<Longrightarrow> d < radix \<Longrightarrow> radix \<le> 16 \<Longrightarrow> digit_value radix (hex_char d) = Some d"
  by (simp add: digit_value_def of_char_hex_char Let_def)

lemma show_radix_value:
  assumes "2 \<le> radix" "radix \<le> 16" "0 \<le> n"
  shows "foldl (\<lambda>v c. v * radix + the (digit_value radix c)) 0 (show_radix radix n) = n"
  using assms
proof (induction radix n rule: show_radix.induct)
  case (1 radix n)
  show ?case
  proof (cases "n < radix")
    case True
    then show ?thesis using 1(2-4) by (subst show_radix.simps) (simp add: digit_value_hex_char)
  next
    case False
    moreover have "0 \<le> n mod radix" "n mod radix < radix" "0 \<le> n div radix" using 1(2,4) by (auto simp: pos_imp_zdiv_nonneg_iff)
    ultimately show ?thesis using 1 by (subst show_radix.simps) (simp add: digit_value_hex_char)
  qed
qed

lemma show_radix_inject:
  "2 \<le> radix \<Longrightarrow> radix \<le> 16 \<Longrightarrow> 0 \<le> m \<Longrightarrow> 0 \<le> n \<Longrightarrow> show_radix radix m = show_radix radix n \<longleftrightarrow> m = n"
  using show_radix_value by metis

lemma show_radix_chars:
  assumes "2 \<le> radix" "radix \<le> 16" "0 \<le> n" "c \<in> set (show_radix radix n)"
  shows "\<exists>d. 0 \<le> d \<and> d < 16 \<and> c = hex_char d"
  using assms
proof (induction radix n rule: show_radix.induct)
  case (1 radix n)
  note IH = "1.IH" and prems = "1.prems"
  show ?case
  proof (cases "n < radix")
    case True
    then show ?thesis using "1.prems" by (subst (asm) show_radix.simps) auto
  next
    case False
    have "n mod radix < radix" using "1.prems"(1) by (intro pos_mod_bound) simp
    then have d: "n mod radix < 16" "0 \<le> n mod radix" using "1.prems"(1,2) by (linarith, simp)
    have "0 \<le> n div radix" using "1.prems" by (simp add: pos_imp_zdiv_nonneg_iff)
    moreover have "c \<in> set (show_radix radix (n div radix)) \<or> c = hex_char (n mod radix)"
      using False "1.prems" by (subst (asm) show_radix.simps) auto
    ultimately consider "c \<in> set (show_radix radix (n div radix))" "0 \<le> n div radix" | "c = hex_char (n mod radix)" by blast
    then show ?thesis
    proof cases
      case 1
      then show ?thesis using IH False prems(1,2) by simp
    next
      case 2
      then show ?thesis using d by blast
    qed
  qed
qed

lemma show_radix_clean:
  assumes "2 \<le> radix" "radix \<le> 16" "0 \<le> n" "(of_char c :: int) < 48 \<or> (of_char c :: int) = 58"
  shows "c \<notin> set (show_radix radix n)"
proof
  assume "c \<in> set (show_radix radix n)"
  then obtain d where "0 \<le> d" "d < 16" "c = hex_char d" using show_radix_chars assms(1-3) by blast
  then show False using assms(4) of_char_hex_char [of d] by (auto split: if_splits)
qed

lemma join_inject:
  assumes "join_with [c] xs = join_with [c] ys" "length xs = length ys"
    and "\<forall>x \<in> set xs \<union> set ys. c \<notin> set x"
  shows "xs = ys"
  using assms
proof (induction xs arbitrary: ys)
  case (Cons x xs)
  then obtain y ys' where ys: "ys = y # ys'" by (cases ys) auto
  show ?case
  proof (cases "xs = []")
    case True
    then show ?thesis using Cons.prems ys by simp
  next
    case False
    then have "x @ c # join_with [c] xs = y @ c # join_with [c] ys'"
      using Cons.prems(1,2) ys by (cases xs; cases ys') auto
    then have "x = y \<and> join_with [c] xs = join_with [c] ys'"
      using split_at_separator Cons.prems(3) ys by (metis UnCI list.set_intros(1))
    then show ?thesis using Cons.IH [of ys'] Cons.prems(2,3) ys by auto
  qed
qed simp

text \<open>The digits of a number to a base, the highest first.\<close>

fun digits :: "int \<Rightarrow> nat \<Rightarrow> int \<Rightarrow> int list" where
  "digits b 0 n = []"
| "digits b (Suc k) n = digits b k (n div b) @ [n mod b]"

lemma div_below: "0 < b \<Longrightarrow> x < c * b \<Longrightarrow> x div b < c" for b c x :: int
proof (rule ccontr)
  assume b: "0 < b" and x: "x < c * b" and "\<not> x div b < c"
  then have "c * b \<le> x div b * b" by (intro mult_right_mono) auto
  moreover have "x div b * b \<le> x" using div_mult_mod_eq [of x b] pos_mod_sign [OF b, of x] by linarith
  ultimately show False using x by linarith
qed

lemma digits_inject:
  assumes "0 < b" "0 \<le> m" "m < b ^ k" "0 \<le> n" "n < b ^ k"
  shows "digits b k m = digits b k n \<longleftrightarrow> m = n"
  using assms
proof (induction k arbitrary: m n)
  case (Suc k)
  have "0 \<le> x div b \<and> x div b < b ^ k" if "0 \<le> x" "x < b ^ Suc k" for x
  proof (intro conjI)
    show "0 \<le> x div b" using that(1) Suc.prems(1) by (simp add: pos_imp_zdiv_nonneg_iff)
    show "x div b < b ^ k" using div_below [OF Suc.prems(1), of x "b ^ k"] that(2) by (simp add: mult.commute)
  qed
  then have "digits b k (m div b) = digits b k (n div b) \<longleftrightarrow> m div b = n div b" using Suc by blast
  then show ?case using div_mult_mod_eq [of m b] div_mult_mod_eq [of n b] by (auto; metis)
qed simp

lemma digits_length [simp]: "length (digits b k n) = k"
  by (induction k arbitrary: n) simp_all

lemma segments_digits: "map uint (segments a) = digits (2 ^ 16) 8 (uint a)"
  by (simp add: segments_def unsigned_ucast_eq take_bit_eq_mod uint_shifted numeral_eq_Suc flip: zdiv_zmult2_eq)

lemma low_octet: "uint (w AND 255) = uint w mod 256" for w :: "32 word"
proof -
  have "w AND 255 = take_bit 8 w" by (simp add: take_bit_eq_mask mask_eq_exp_minus_1)
  then show ?thesis by (simp only: unsigned_take_bit_eq) (simp add: take_bit_eq_mod)
qed

lemma octets_digits: "octets a = digits 256 4 (uint a)"
  by (simp add: octets_def low_octet uint_shifted numeral_eq_Suc flip: zdiv_zmult2_eq)

section \<open>Keys of the limits\<close>

text \<open>What shares an allowance: an IPv4 address, also when it is written as IPv6, and 64 bits of an IPv6 address.\<close>

definition bucket :: "128 word \<Rightarrow> int + int" where
  "bucket a = (if uint a div 2 ^ 32 = 0xffff then Inl (uint a mod 2 ^ 32) else Inr (uint a div 2 ^ 64))"

lemma ipv4_text_inject: "ipv4_text a = ipv4_text b \<longleftrightarrow> a = b"
proof
  have clean: "CHR ''.'' \<notin> set (show_radix 10 n)" if "n \<in> set (octets x)" for n x
    using that by (intro show_radix_clean) (auto simp: octets_def)
  assume "ipv4_text a = ipv4_text b"
  then have "map (show_radix 10) (octets a) = map (show_radix 10) (octets b)"
    unfolding ipv4_text_def by (rule join_inject) (use clean in \<open>auto simp: octets_def\<close>)
  then have "octets a = octets b"
    by (rule list.inj_map_strong [rotated]) (subst (asm) show_radix_inject; auto simp: octets_def)
  then have "uint a = uint b"
    unfolding octets_digits using digits_inject [of 256 "uint a" 4 "uint b"] uint_range [of a] uint_range [of b] by simp
  then show "a = b" by (simp only: word_uint_eq_iff)
qed simp

lemma mapped_groups:
  "(list_all (\<lambda>g. g = 0) (take 5 (segments a)) \<and> segments a ! 5 = 0xffff) \<longleftrightarrow> uint a div 2 ^ 32 = 0xffff"
proof -
  have "(list_all (\<lambda>g. g = 0) (take 5 (segments a)) \<and> segments a ! 5 = 0xffff)
      \<longleftrightarrow> map uint (take 6 (segments a)) = [0, 0, 0, 0, 0, 0xffff]"
    by (simp add: segments_def word_uint_eq_iff)
  also have "map uint (take 6 (segments a)) = digits (2 ^ 16) 6 (uint a div 2 ^ 32)"
    unfolding take_map [symmetric] segments_digits by (simp add: numeral_eq_Suc flip: zdiv_zmult2_eq)
  also have "[0, 0, 0, 0, 0, 0xffff] = digits (2 ^ 16) 6 0xffff" by (simp add: numeral_eq_Suc)
  also have "digits (2 ^ 16) 6 (uint a div 2 ^ 32) = digits (2 ^ 16) 6 0xffff \<longleftrightarrow> uint a div 2 ^ 32 = 0xffff"
    using uint_range [of a] by (intro digits_inject) (auto simp: pos_imp_zdiv_nonneg_iff intro!: div_below)
  finally show ?thesis .
qed

lemma prefix_groups: "map uint (take 4 (segments a)) = digits (2 ^ 16) 4 (uint a div 2 ^ 64)"
  unfolding take_map [symmetric] segments_digits by (simp add: numeral_eq_Suc flip: zdiv_zmult2_eq)

lemma mapped_address:
  "push_bit 16 (ucast (segments a ! 6)) OR ucast (segments a ! 7) = (ucast a :: 32 word)"
  by (rule bit_word_eqI) (auto simp: segments_def bit_simps)

lemma groups_text_inject:
  assumes "length gs = length hs"
  shows "groups_text gs = groups_text hs \<longleftrightarrow> gs = hs"
proof
  have clean: "CHR '':'' \<notin> set (show_radix 16 (uint g))" for g :: "16 word" by (rule show_radix_clean) simp_all
  assume "groups_text gs = groups_text hs"
  then have "map (\<lambda>g. show_radix 16 (uint g)) gs = map (\<lambda>g. show_radix 16 (uint g)) hs"
    unfolding groups_text_def by (rule join_inject) (use assms clean in auto)
  moreover have "show_radix 16 (uint g) = show_radix 16 (uint h) \<longleftrightarrow> g = h" for g h :: "16 word"
    using show_radix_inject [of 16 "uint g" "uint h"] uint_range(1) [of g] uint_range(1) [of h]
    unfolding word_uint_eq_iff by simp
  ultimately show "gs = hs" by (auto intro: list.inj_map_strong [rotated])
qed simp

lemma key_of_ipv6:
  assumes "parse_ipv6 (before_percent s) = Some a"
  shows "rate_limit_client_key s =
    (if uint a div 2 ^ 32 = 0xffff then ipv4_text (ucast a) else groups_text (take 4 (segments a)) @ ''::/64'')"
  using assms mapped_groups [of a] by (simp add: rate_limit_client_key_def Let_def mapped_address)

lemma ipv4_text_chars: "CHR '':'' \<notin> set (ipv4_text a)"
proof -
  have "CHR '':'' \<notin> set (show_radix 10 n)" if "n \<in> set (octets a)" for n
    using that by (intro show_radix_clean) (auto simp: octets_def)
  then show ?thesis by (auto simp: ipv4_text_def octets_def)
qed

text \<open>Rate limits are kept per client and not per address: two IPv6 callers, with whatever zone, count under
  one key exactly when they are the same IPv4 address in its IPv6-mapped form, or neither is one and they
  share their first 64 bits.\<close>

theorem client_keys_are_buckets:
  assumes "parse_ipv6 (before_percent s) = Some a" "parse_ipv6 (before_percent t) = Some b"
  shows "rate_limit_client_key s = rate_limit_client_key t \<longleftrightarrow> bucket a = bucket b"
proof -
  have v4: "ucast a = (ucast b :: 32 word) \<longleftrightarrow> uint a mod 2 ^ 32 = uint b mod 2 ^ 32" for a b :: "128 word"
    by (simp add: word_uint_eq_iff unsigned_ucast_eq take_bit_eq_mod)
  have "uint x div 2 ^ 64 < (2 ^ 16) ^ 4 \<and> 0 \<le> uint x div 2 ^ 64" for x :: "128 word"
    using uint_range [of x] by (auto simp: pos_imp_zdiv_nonneg_iff intro!: div_below)
  then have "digits (2 ^ 16) 4 (uint a div 2 ^ 64) = digits (2 ^ 16) 4 (uint b div 2 ^ 64) \<longleftrightarrow> uint a div 2 ^ 64 = uint b div 2 ^ 64"
    by (intro digits_inject) auto
  moreover have "take 4 (segments a) = take 4 (segments b) \<longleftrightarrow> map uint (take 4 (segments a)) = map uint (take 4 (segments b))"
    by (rule inj_map_eq_map [symmetric]) (auto simp: inj_def word_uint_eq_iff)
  moreover have len: "length (take 4 (segments a)) = length (take 4 (segments b))" by (simp add: segments_def)
  ultimately have v6: "groups_text (take 4 (segments a)) = groups_text (take 4 (segments b)) \<longleftrightarrow> uint a div 2 ^ 64 = uint b div 2 ^ 64"
    using groups_text_inject [of "take 4 (segments a)" "take 4 (segments b)"] len by (simp only: prefix_groups)
  have ne: "ipv4_text x \<noteq> gs @ ''::/64''" "gs @ ''::/64'' \<noteq> ipv4_text x" for x gs
    using ipv4_text_chars [of x] by (auto dest: sym)
  show ?thesis
    unfolding key_of_ipv6 [OF assms(1)] key_of_ipv6 [OF assms(2)] bucket_def
    by (cases "uint a div 2 ^ 32 = 0xffff"; cases "uint b div 2 ^ 32 = 0xffff")
      (simp_all only: if_True if_False simp_thms append_same_eq ipv4_text_inject ne v4 v6 sum.inject sum.distinct)
qed

theorem client_keys_are_buckets_witness:
  "rate_limit_client_key ''1::2'' = rate_limit_client_key ''1::3%e'' \<longleftrightarrow>
    bucket (ipv6_new [1, 0, 0, 0, 0, 0, 0, 2]) = bucket (ipv6_new [1, 0, 0, 0, 0, 0, 0, 3])"
  by (rule client_keys_are_buckets) code_simp+

section \<open>The client address\<close>

text \<open>The client address is always an IP address: of the walk back through the proxies when that ends at one,
  else of the socket, else the unspecified address.\<close>

theorem client_ip_is_address: "parse_ip (client_ip ops trust socket x_forwarded_for) \<noteq> None"
proof -
  have "parse_ip UNKNOWN_IP \<noteq> None" by code_simp
  then show ?thesis
    by (auto simp: client_ip_def resolve_client_ip_def filter_ip_def Let_def split: option.splits if_splits)
qed

end
