(* ===== verification/Cron.thy ===== *)
theory Cron
  imports OauthRequests
begin

unbundle bit_operations_syntax

text \<open>
  The schedule of automatic updates: \<open>crates/gateway/src/auto_update/cron.rs\<close>, a 5-field cron expression
  and the search for its next run. Calendar dates come from a crate: the operations the code uses of
  them are a record, and what it relies on is the locale \<open>calendar\<close>, which the Gregorian calendar
  fulfils. Texts are UTF-8 bytes; every character an expression may hold is one byte.
\<close>

section \<open>Patterns\<close>

definition ANY_WEEK :: "8 word" where
  "ANY_WEEK = 63"

definition LAST_WEEK :: "8 word" where
  "LAST_WEEK = 32"

definition NTH_WEEK :: "8 word list" where
  "NTH_WEEK = [1, 2, 4, 8, 16]"

definition LAST_YEAR :: int where
  "LAST_YEAR = 3000"

datatype Part = Minute | Hour | Day | Month | DayOfWeek | NearestWeekdays

fun part_len :: "Part \<Rightarrow> int" where
  "part_len Minute = 60"
| "part_len Hour = 24"
| "part_len Day = 31"
| "part_len NearestWeekdays = 31"
| "part_len Month = 12"
| "part_len DayOfWeek = 7"

fun part_offset :: "Part \<Rightarrow> int" where
  "part_offset Day = - 1"
| "part_offset NearestWeekdays = - 1"
| "part_offset Month = - 1"
| "part_offset _ = 0"

datatype invalid = Invalid

record CronPattern =
  minute :: "bool list"
  hour :: "bool list"
  day :: "bool list"
  month :: "bool list"
  day_of_week :: "8 word list"
  last_day :: bool
  last_weekday :: bool
  nearest_weekdays :: "bool list"
  star_day :: bool
  star_day_of_week :: bool
  use_and_logic :: bool

definition empty_pattern :: CronPattern where
  "empty_pattern =
     \<lparr>minute = replicate 60 False, hour = replicate 24 False, day = replicate 31 False, month = replicate 12 False,
      day_of_week = replicate 7 0, last_day = False, last_weekday = False,
      nearest_weekdays = replicate 31 False, star_day = False, star_day_of_week = False, use_and_logic = False\<rparr>"

section \<open>Reading an expression\<close>

fun read_decimal :: "int \<Rightarrow> string \<Rightarrow> int" where
  "read_decimal n [] = n"
| "read_decimal n (c # cs) = read_decimal (10 * n + (of_char c - 48)) cs"

definition parse_int :: "string \<Rightarrow> (invalid, int) result" where
  "parse_int s =
     (let digits = takeWhile is_digit_char s; n = read_decimal 0 digits in
      if digits = [] then Inl Invalid
      else Inr (if n > 2 ^ 63 - 1 then (2 ^ 63 - 1) div 2 else n))"

function replace_ignoring_case :: "string \<Rightarrow> string \<Rightarrow> string \<Rightarrow> string" where
  "replace_ignoring_case s name replacement =
     (if s = [] then []
      else if name \<noteq> [] \<and> eq_ignore_ascii_case (take (length name) s) name
      then replacement @ replace_ignoring_case (drop (length name) s) name replacement
      else hd s # replace_ignoring_case (tl s) name replacement)"
  by auto
termination
  by (relation "measure (\<lambda>(s, name, r). length s)") auto

declare replace_ignoring_case.simps [simp del]

fun replace_names :: "(string \<times> nat) list \<Rightarrow> string \<Rightarrow> string" where
  "replace_names [] s = s"
| "replace_names ((name, number) # names) s = replace_names names (replace_ignoring_case s name (show_nat number))"

definition replace_alpha_months :: "string \<Rightarrow> string" where
  "replace_alpha_months =
     replace_names (zip [''jan'', ''feb'', ''mar'', ''apr'', ''may'', ''jun'', ''jul'', ''aug'', ''sep'', ''oct'', ''nov'', ''dec'']
       [1..<13])"

definition replace_alpha_days :: "string \<Rightarrow> string" where
  "replace_alpha_days s =
     replace_names (zip [''sun'', ''mon'', ''tue'', ''wed'', ''thu'', ''fri'', ''sat''] [0..<7])
       (replace_ignoring_case s ''-sun'' ''-7'')"

definition has_illegal_characters :: "string \<Rightarrow> string \<Rightarrow> bool" where
  "has_illegal_characters s also' \<longleftrightarrow>
     list_ex (\<lambda>c. \<not> (is_digit_char c \<or> c \<in> set ''/*,-'' \<or> c \<in> set also')) s"

definition has_char :: "string \<Rightarrow> string \<Rightarrow> bool" where
  "has_char cs s \<longleftrightarrow> list_ex (\<lambda>c. c \<in> set cs) s"

definition extract_nth :: "string \<Rightarrow> Part \<Rightarrow> (invalid, string \<times> string option) result" where
  "extract_nth entry part =
     (if has_char ''#'' entry then
        (if part \<noteq> DayOfWeek then Inl Invalid
         else (case split_on (CHR ''#'') entry of
                 v # which # _ \<Rightarrow> Inr (v, Some which)
               | [v] \<Rightarrow> Inr (v, None)
               | [] \<Rightarrow> Inr ([], None)))
      else if entry \<noteq> [] \<and> last entry \<in> set ''Ll'' then
        (if part \<noteq> DayOfWeek then Inl Invalid else Inr (butlast entry, Some ''L''))
      else Inr (entry, None))"

definition set_at :: "int \<Rightarrow> bool list \<Rightarrow> (invalid, bool list) result" where
  "set_at index values =
     (if index < 0 \<or> nat index \<ge> length values then Inl Invalid else Inr (values[nat index := True]))"

text \<open>The weeks of a weekday, after what \<open>which\<close> adds to them.\<close>

definition add_weeks :: "8 word \<Rightarrow> string option \<Rightarrow> (invalid, 8 word) result" where
  "add_weeks weeks which =
     (case non_empty which of
        None \<Rightarrow> Inr ANY_WEEK
      | Some n \<Rightarrow>
          if eq_ignore_ascii_case n ''L'' then Inr (weeks OR LAST_WEEK)
          else if list_all is_digit_char n then
            and_then (parse_int n) (\<lambda>week.
              if week - 1 < 0 \<or> nat (week - 1) \<ge> length NTH_WEEK then Inl Invalid
              else Inr (weeks OR NTH_WEEK ! nat (week - 1)))
          else Inl Invalid)"

definition cron_set :: "CronPattern \<Rightarrow> Part \<Rightarrow> int \<Rightarrow> string option \<Rightarrow> (invalid, CronPattern) result" where
  "cron_set p part index which =
     (case part of
        DayOfWeek \<Rightarrow>
          (let i = (if index = 7 then 0 else index) in
           if i < 0 \<or> nat i \<ge> length (day_of_week p) then Inl Invalid
           else and_then (add_weeks (day_of_week p ! nat i) which) (\<lambda>w.
             Inr (p\<lparr>day_of_week := (day_of_week p)[nat i := w]\<rparr>)))
      | Minute \<Rightarrow> and_then (set_at index (minute p)) (\<lambda>v. Inr (p\<lparr>minute := v\<rparr>))
      | Hour \<Rightarrow> and_then (set_at index (hour p)) (\<lambda>v. Inr (p\<lparr>hour := v\<rparr>))
      | Day \<Rightarrow> and_then (set_at index (day p)) (\<lambda>v. Inr (p\<lparr>day := v\<rparr>))
      | Month \<Rightarrow> and_then (set_at index (month p)) (\<lambda>v. Inr (p\<lparr>month := v\<rparr>))
      | NearestWeekdays \<Rightarrow> and_then (set_at index (nearest_weekdays p)) (\<lambda>v. Inr (p\<lparr>nearest_weekdays := v\<rparr>)))"

text \<open>From \<open>index\<close> to \<open>upper\<close> in steps: the first value out of the part ends it.\<close>

function set_steps :: "CronPattern \<Rightarrow> Part \<Rightarrow> int \<Rightarrow> int \<Rightarrow> int \<Rightarrow> string option \<Rightarrow> (invalid, CronPattern) result" where
  "set_steps p part index upper step which =
     (if index > upper \<or> step \<le> 0 then Inr p
      else case cron_set p part index which of
        Inl e \<Rightarrow> Inl e
      | Inr p1 \<Rightarrow> set_steps p1 part (index + step) upper step which)"
  by auto
termination
  by (relation "measure (\<lambda>(p, part, index, upper, step, which). nat (upper - index + 1))") auto

declare set_steps.simps [simp del]

definition read_number_entry :: "CronPattern \<Rightarrow> Part \<Rightarrow> string \<Rightarrow> (invalid, CronPattern) result" where
  "read_number_entry p part entry =
     and_then (extract_nth entry part) (\<lambda>(v, which).
     ensure (\<not> (has_char ''Ww'' entry \<and> part \<noteq> Day)) Invalid
     (let part = (if has_char ''Ww'' entry then NearestWeekdays else part) in
      and_then (parse_int v) (\<lambda>n. cron_set p part (n + part_offset part) which)))"

definition read_range :: "CronPattern \<Rightarrow> Part \<Rightarrow> string \<Rightarrow> (invalid, CronPattern) result" where
  "read_range p part entry =
     ensure (\<not> has_char ''Ww'' entry) Invalid
     (and_then (extract_nth entry part) (\<lambda>(v, which).
      case split_on (CHR ''-'') v of
        [lower, upper] \<Rightarrow>
          and_then (parse_int lower) (\<lambda>l. and_then (parse_int upper) (\<lambda>u.
          let lower = l + part_offset part; upper = u + part_offset part in
          if lower > upper then Inl Invalid else set_steps p part lower upper 1 which))
      | _ \<Rightarrow> Inl Invalid))"

definition split_once :: "char \<Rightarrow> string \<Rightarrow> (string \<times> string) option" where
  "split_once c s =
     (if c \<in> set s then Some (takeWhile (\<lambda>x. x \<noteq> c) s, tl (dropWhile (\<lambda>x. x \<noteq> c) s)) else None)"

definition read_range_with_stepping :: "CronPattern \<Rightarrow> Part \<Rightarrow> string \<Rightarrow> (invalid, CronPattern) result" where
  "read_range_with_stepping p part entry =
     ensure (\<not> has_char ''Ww'' entry) Invalid
     (and_then (extract_nth entry part) (\<lambda>(v, which).
      case split_once (CHR ''/'') v of
        None \<Rightarrow> Inl Invalid
      | Some (bounds, step) \<Rightarrow>
          (case split_once (CHR ''-'') bounds of
             None \<Rightarrow> Inl Invalid
           | Some (lower, upper) \<Rightarrow>
               ensure (list_all (\<lambda>n. n \<noteq> [] \<and> list_all is_digit_char n) [lower, upper, step]) Invalid
               (and_then (parse_int lower) (\<lambda>l. and_then (parse_int upper) (\<lambda>u. and_then (parse_int step) (\<lambda>step.
                let lower = l + part_offset part; upper = u + part_offset part in
                if lower > upper \<or> step = 0 \<or> step > part_len part then Inl Invalid
                else set_steps p part lower upper step which)))))))"

definition read_stepping :: "CronPattern \<Rightarrow> Part \<Rightarrow> string \<Rightarrow> (invalid, CronPattern) result" where
  "read_stepping p part entry =
     ensure (\<not> has_char ''Ww'' entry) Invalid
     (and_then (extract_nth entry part) (\<lambda>(v, which).
      case split_on (CHR ''/'') v of
        [star, step] \<Rightarrow>
          ensure (star = ''*'') Invalid
          (and_then (parse_int step) (\<lambda>step.
           if step = 0 \<or> step > part_len part then Inl Invalid
           else set_steps p part 0 (part_len part - 1) step which))
      | _ \<Rightarrow> Inl Invalid))"

definition fill_part :: "CronPattern \<Rightarrow> Part \<Rightarrow> CronPattern" where
  "fill_part p part =
     (case part of
        Minute \<Rightarrow> p\<lparr>minute := map (\<lambda>_. True) (minute p)\<rparr>
      | Hour \<Rightarrow> p\<lparr>hour := map (\<lambda>_. True) (hour p)\<rparr>
      | Day \<Rightarrow> p\<lparr>day := map (\<lambda>_. True) (day p)\<rparr>
      | Month \<Rightarrow> p\<lparr>month := map (\<lambda>_. True) (month p)\<rparr>
      | DayOfWeek \<Rightarrow> p\<lparr>day_of_week := map (\<lambda>_. ANY_WEEK) (day_of_week p)\<rparr>
      | NearestWeekdays \<Rightarrow> p\<lparr>nearest_weekdays := map (\<lambda>_. True) (nearest_weekdays p)\<rparr>)"

text \<open>\<open>read_part\<close> of an entry without a comma.\<close>

definition read_item :: "CronPattern \<Rightarrow> Part \<Rightarrow> string \<Rightarrow> (invalid, CronPattern) result" where
  "read_item p part entry =
     (if entry = [] \<and> \<not> (part = Day \<and> (last_day p \<or> last_weekday p)) then Inl Invalid
      else if entry = ''*'' then Inr (fill_part p part)
      else if has_char ''-'' entry \<and> has_char ''/'' entry then read_range_with_stepping p part entry
      else if has_char ''-'' entry then read_range p part entry
      else if has_char ''/'' entry then read_stepping p part entry
      else if entry \<noteq> [] then read_number_entry p part entry
      else Inr p)"

fun read_items :: "CronPattern \<Rightarrow> Part \<Rightarrow> string list \<Rightarrow> (invalid, CronPattern) result" where
  "read_items p part [] = Inr p"
| "read_items p part (item # rest) = and_then (read_item p part item) (\<lambda>p. read_items p part rest)"

definition read_part :: "CronPattern \<Rightarrow> Part \<Rightarrow> string \<Rightarrow> (invalid, CronPattern) result" where
  "read_part p part entry =
     (if has_char '','' entry then read_items p part (split_on (CHR '','') entry) else read_item p part entry)"

definition open_field :: "string \<Rightarrow> string" where
  "open_field = map (\<lambda>c. if c = CHR ''?'' then CHR ''*'' else c)"

definition cron_parse :: "string \<Rightarrow> string \<Rightarrow> string \<Rightarrow> string \<Rightarrow> string \<Rightarrow> (invalid, CronPattern) result" where
  "cron_parse minutes hours days months weekdays =
     (let (p, days) =
        (if eq_ignore_ascii_case days ''LW'' then (empty_pattern\<lparr>last_weekday := True\<rparr>, [])
         else if has_char ''Ll'' days then (empty_pattern\<lparr>last_day := True\<rparr>, filter (\<lambda>c. c \<notin> set ''Ll'') days)
         else (empty_pattern, days));
          p = p\<lparr>star_day := (days = ''*'')\<rparr>;
          months = (if utf16_len months \<ge> 3 then replace_alpha_months months else months);
          weekdays = (if utf16_len weekdays \<ge> 3 then replace_alpha_days weekdays else weekdays);
          (p, weekdays) = (if take 1 weekdays = ''+'' then (p\<lparr>use_and_logic := True\<rparr>, tl weekdays) else (p, weekdays)) in
      ensure (\<not> (use_and_logic p \<and> weekdays = [])) Invalid
      (let p = p\<lparr>star_day_of_week := (weekdays = ''*'')\<rparr>;
           minutes = open_field minutes; hours = open_field hours; days = open_field days;
           months = open_field months; weekdays = open_field weekdays in
       ensure (\<not> (has_illegal_characters minutes [] \<or> has_illegal_characters hours []
                  \<or> has_illegal_characters days ''WwLl'' \<or> has_illegal_characters months []
                  \<or> has_illegal_characters weekdays ''#Ll'')) Invalid
       (and_then (read_part p Minute minutes) (\<lambda>p.
        and_then (read_part p Hour hours) (\<lambda>p.
        and_then (read_part p Day days) (\<lambda>p.
        and_then (read_part p Month months) (\<lambda>p. read_part p DayOfWeek weekdays)))))))"

function split_spaces :: "string \<Rightarrow> string \<Rightarrow> string list" where
  "split_spaces word s =
     (if s = [] then [word]
      else case find (\<lambda>w. take (length w) s = w) JS_SPACES of
        Some w \<Rightarrow> word # split_spaces [] (drop (max 1 (length w)) s)
      | None \<Rightarrow> split_spaces (word @ [hd s]) (tl s))"
  by auto
termination
  by (relation "measure (\<lambda>(w, s). length s)") auto

declare split_spaces.simps [simp del]

definition parse_five_field_cron :: "string \<Rightarrow> CronPattern option" where
  "parse_five_field_cron value =
     (case filter (\<lambda>f. f \<noteq> []) (split_spaces [] value) of
        [minutes, hours, days, months, weekdays] \<Rightarrow>
          (case cron_parse minutes hours days months weekdays of Inl _ \<Rightarrow> None | Inr p \<Rightarrow> Some p)
      | _ \<Rightarrow> None)"

definition is_valid_five_field_cron :: "string \<Rightarrow> bool" where
  "is_valid_five_field_cron value \<longleftrightarrow> parse_five_field_cron value \<noteq> None"


section \<open>What a read expression holds\<close>

definition wf_pattern :: "CronPattern \<Rightarrow> bool" where
  "wf_pattern p \<longleftrightarrow> length (minute p) = 60 \<and> length (hour p) = 24 \<and> length (day p) = 31 \<and> length (month p) = 12
     \<and> length (day_of_week p) = 7 \<and> length (nearest_weekdays p) = 31 \<and> list_all (\<lambda>w. w AND ANY_WEEK = w) (day_of_week p)"

text \<open>Whether a field names any value at all.\<close>

fun named :: "CronPattern \<Rightarrow> Part \<Rightarrow> bool" where
  "named p Minute = list_ex id (minute p)"
| "named p Hour = list_ex id (hour p)"
| "named p Month = list_ex id (month p)"
| "named p DayOfWeek = list_ex (\<lambda>w. w \<noteq> 0) (day_of_week p)"
| "named p NearestWeekdays = list_ex id (nearest_weekdays p)"
| "named p Day = (list_ex id (day p) \<or> list_ex id (nearest_weekdays p) \<or> last_day p \<or> last_weekday p)"

definition kept :: "CronPattern \<Rightarrow> CronPattern \<Rightarrow> bool" where
  "kept p q \<longleftrightarrow> (wf_pattern p \<longrightarrow> wf_pattern q) \<and> (\<forall>part. named p part \<longrightarrow> named q part)"

lemma kept_refl: "kept p p" by (simp add: kept_def)

lemma kept_trans: "kept p q \<Longrightarrow> kept q r \<Longrightarrow> kept p r" by (simp add: kept_def)

lemma list_ex_update: "i < length xs \<Longrightarrow> P v \<Longrightarrow> list_ex P (xs[i := v])"
  unfolding list_ex_iff by (blast intro: set_update_memI)

lemma list_ex_const: "xs \<noteq> [] \<Longrightarrow> P v \<Longrightarrow> list_ex P (map (\<lambda>_. v) xs)"
  by (cases xs) auto

lemma part_named_split: "(\<forall>part. named p part \<longrightarrow> named q part) \<longleftrightarrow>
    (named p Minute \<longrightarrow> named q Minute) \<and> (named p Hour \<longrightarrow> named q Hour) \<and> (named p Month \<longrightarrow> named q Month)
    \<and> (named p DayOfWeek \<longrightarrow> named q DayOfWeek) \<and> (named p NearestWeekdays \<longrightarrow> named q NearestWeekdays)
    \<and> (named p Day \<longrightarrow> named q Day)"
proof (intro iffI allI)
  fix part
  assume "(named p Minute \<longrightarrow> named q Minute) \<and> (named p Hour \<longrightarrow> named q Hour) \<and> (named p Month \<longrightarrow> named q Month)
    \<and> (named p DayOfWeek \<longrightarrow> named q DayOfWeek) \<and> (named p NearestWeekdays \<longrightarrow> named q NearestWeekdays)
    \<and> (named p Day \<longrightarrow> named q Day)"
  then show "named p part \<longrightarrow> named q part" by (cases part) simp_all
qed blast

lemma set_at_ok: "set_at i xs = Inr ys \<Longrightarrow> length ys = length xs \<and> list_ex id ys"
  by (auto simp: set_at_def list_ex_update split: if_splits)

lemma add_weeks_ok:
  assumes "add_weeks w which = Inr v" "w AND ANY_WEEK = w"
  shows "v \<noteq> 0 \<and> v AND ANY_WEEK = v"
proof -
  have or: "(w OR k) \<noteq> 0 \<and> (w OR k) AND ANY_WEEK = w OR k" if "k \<noteq> 0" "k AND ANY_WEEK = k" for k
    using that assms(2) by (simp add: and.commute bit.conj_disj_distrib or_eq_0_iff)
  have nth: "n < 5 \<Longrightarrow> NTH_WEEK ! n \<noteq> 0 \<and> NTH_WEEK ! n AND ANY_WEEK = NTH_WEEK ! n" for n
    by (auto simp: NTH_WEEK_def ANY_WEEK_def nth_Cons split: nat.splits)
  have last: "LAST_WEEK \<noteq> 0 \<and> LAST_WEEK AND ANY_WEEK = LAST_WEEK" "ANY_WEEK \<noteq> 0"
    by (simp_all add: LAST_WEEK_def ANY_WEEK_def)
  have len: "length NTH_WEEK = 5" by (simp add: NTH_WEEK_def)
  show ?thesis
    using assms(1) last or [of LAST_WEEK] or [of "NTH_WEEK ! n" for n] nth
    by (auto simp: add_weeks_def len and_then_def split: option.splits if_splits sum.splits)
qed

lemma cron_set_ok:
  assumes "cron_set p part i which = Inr q" "wf_pattern p"
  shows "kept p q \<and> named q part"
  using assms by (auto simp: cron_set_def and_then_def kept_def part_named_split wf_pattern_def Let_def
    list_ex_update list_all_length nth_list_update dest!: set_at_ok add_weeks_ok split: Part.splits sum.splits if_splits)

lemma set_steps_ok:
  "set_steps p part i upper step which = Inr q \<Longrightarrow> wf_pattern p \<Longrightarrow>
    kept p q \<and> (i \<le> upper \<longrightarrow> 0 < step \<longrightarrow> named q part)"
proof (induction p part i upper step which rule: set_steps.induct)
  case (1 p part i upper step which)
  show ?case
  proof (cases "i > upper \<or> step \<le> 0")
    case True
    then show ?thesis using "1.prems"(1) by (subst (asm) set_steps.simps) (auto simp: kept_refl)
  next
    case False
    then obtain p1 where p1: "cron_set p part i which = Inr p1" "set_steps p1 part (i + step) upper step which = Inr q"
      using "1.prems"(1) by (subst (asm) set_steps.simps) (auto split: sum.splits)
    have k: "kept p p1" "named p1 part" using cron_set_ok [OF p1(1) "1.prems"(2)] by auto
    then have "kept p1 q" using "1.IH" [OF False p1(1,2)] "1.prems"(2) by (simp add: kept_def)
    then show ?thesis using k kept_trans by (auto simp: kept_def)
  qed
qed

text \<open>Reading a non-empty entry keeps what was named and names the part.\<close>

definition reads :: "Part \<Rightarrow> CronPattern \<Rightarrow> CronPattern \<Rightarrow> bool" where
  "reads part p q \<longleftrightarrow> kept p q \<and> named q part"

lemma read_decimal_nonneg: "0 \<le> n \<Longrightarrow> list_all is_digit_char cs \<Longrightarrow> 0 \<le> read_decimal n cs"
proof (induction cs arbitrary: n)
  case (Cons c cs)
  have "(48 :: nat) \<le> of_char c" using Cons.prems(2) by (simp add: is_digit_char_def)
  then have "int 48 \<le> int (of_char c)" by (simp only: of_nat_le_iff)
  then have "48 \<le> (of_char c :: int)" by (simp only: of_nat_of_char of_nat_numeral)
  then have "0 \<le> 10 * n + (of_char c - 48)" using Cons.prems(1) by linarith
  then show ?case using Cons by simp
qed simp

lemma parse_int_nonneg: "parse_int s = Inr n \<Longrightarrow> 0 \<le> n"
  using read_decimal_nonneg [of 0 "takeWhile is_digit_char s"] set_takeWhileD [of _ is_digit_char s]
  by (auto simp: parse_int_def Let_def list_all_iff split: if_splits)

lemma read_number_ok: "read_number_entry p part entry = Inr q \<Longrightarrow> wf_pattern p \<Longrightarrow> reads part p q"
  by (auto simp: read_number_entry_def result_simps reads_def Let_def dest!: cron_set_ok split: if_splits)

lemma read_range_ok:
  assumes "read_range p part entry = Inr q" "wf_pattern p"
  shows "reads part p q"
proof -
  obtain v which where v: "extract_nth entry part = Inr (v, which)" using assms(1) by (auto simp: read_range_def result_simps)
  consider lower upper where "split_on (CHR ''-'') v = [lower, upper]" | "\<nexists>lower upper. split_on (CHR ''-'') v = [lower, upper]"
    by blast
  then show ?thesis
  proof cases
    case 1
    then show ?thesis using assms v by (auto simp: read_range_def result_simps Let_def reads_def dest!: set_steps_ok split: if_split_asm)
  next
    case 2
    then show ?thesis using assms(1) v by (auto simp: read_range_def result_simps split: list.split_asm)
  qed
qed

lemma read_range_with_stepping_ok:
  assumes "read_range_with_stepping p part entry = Inr q" "wf_pattern p"
  shows "reads part p q"
proof -
  obtain v which where v: "extract_nth entry part = Inr (v, which)"
    using assms(1) by (auto simp: read_range_with_stepping_def result_simps)
  obtain bounds step where b: "split_once (CHR ''/'') v = Some (bounds, step)"
    using assms(1) v by (cases "split_once (CHR ''/'') v") (auto simp: read_range_with_stepping_def result_simps)
  obtain lower upper where "split_once (CHR ''-'') bounds = Some (lower, upper)"
    using assms(1) v b by (cases "split_once (CHR ''-'') bounds") (auto simp: read_range_with_stepping_def result_simps)
  then show ?thesis
    using assms v b by (auto simp: read_range_with_stepping_def result_simps reads_def Let_def
      dest!: set_steps_ok parse_int_nonneg split: if_split_asm)
qed

lemma part_len_pos: "0 < part_len part" by (cases part) simp_all

lemma read_stepping_ok:
  assumes "read_stepping p part entry = Inr q" "wf_pattern p"
  shows "reads part p q"
proof -
  obtain v which where v: "extract_nth entry part = Inr (v, which)" using assms(1) by (auto simp: read_stepping_def result_simps)
  consider star step where "split_on (CHR ''/'') v = [star, step]" | "\<nexists>star step. split_on (CHR ''/'') v = [star, step]"
    by blast
  then show ?thesis
  proof cases
    case 1
    then show ?thesis
      using assms v part_len_pos [of part]
      by (auto simp: read_stepping_def result_simps reads_def dest!: set_steps_ok parse_int_nonneg split: if_split_asm)
  next
    case 2
    then show ?thesis using assms(1) v by (auto simp: read_stepping_def result_simps split: list.split_asm)
  qed
qed

lemma fill_part_ok: "wf_pattern p \<Longrightarrow> reads part p (fill_part p part)"
  by (cases part) (auto simp: reads_def kept_def part_named_split fill_part_def wf_pattern_def ANY_WEEK_def list_all_iff
      intro!: list_ex_const)

lemma read_item_ok: "read_item p part entry = Inr q \<Longrightarrow> wf_pattern p \<Longrightarrow> reads part p q"
  by (auto simp: read_item_def read_number_ok read_range_ok read_stepping_ok read_range_with_stepping_ok fill_part_ok
      split: if_splits) (auto simp: reads_def kept_refl)

lemma read_items_ok: "read_items p part items = Inr q \<Longrightarrow> items \<noteq> [] \<Longrightarrow> wf_pattern p \<Longrightarrow> reads part p q"
proof (induction items arbitrary: p)
  case (Cons item items)
  then obtain p1 where p1: "read_item p part item = Inr p1" "read_items p1 part items = Inr q" by (auto simp: result_simps)
  then have k: "reads part p p1" using read_item_ok Cons.prems(3) by blast
  then show ?case
    using Cons.IH [OF p1(2)] Cons.prems(3) p1(2) kept_trans by (cases "items = []") (auto simp: reads_def kept_def)
qed simp

lemma read_part_ok: "read_part p part entry = Inr q \<Longrightarrow> wf_pattern p \<Longrightarrow> reads part p q"
  by (auto simp: read_part_def read_item_ok read_items_ok split: if_splits)

lemma wf_flags [simp]:
  "wf_pattern empty_pattern"
  "wf_pattern (p\<lparr>last_day := v\<rparr>) = wf_pattern p" "wf_pattern (p\<lparr>last_weekday := v\<rparr>) = wf_pattern p"
  "wf_pattern (p\<lparr>star_day := v\<rparr>) = wf_pattern p" "wf_pattern (p\<lparr>star_day_of_week := v\<rparr>) = wf_pattern p"
  "wf_pattern (p\<lparr>use_and_logic := v\<rparr>) = wf_pattern p"
  by (simp_all add: wf_pattern_def empty_pattern_def list_all_iff)

lemma cron_parse_ok:
  assumes "cron_parse minutes hours days months weekdays = Inr p"
  shows "wf_pattern p \<and> (\<forall>part \<in> {Minute, Hour, Day, Month, DayOfWeek}. named p part)"
proof -
  have "\<exists>p0 m h d mo w. wf_pattern p0 \<and>
      and_then (read_part p0 Minute m) (\<lambda>p. and_then (read_part p Hour h) (\<lambda>p. and_then (read_part p Day d) (\<lambda>p.
        and_then (read_part p Month mo) (\<lambda>p. read_part p DayOfWeek w)))) = Inr p"
    using assms unfolding cron_parse_def Let_def case_prod_unfold ensure_eq_Inr
    by - (elim conjE, intro exI, rule conjI [rotated], assumption, simp split: if_split)
  then obtain p0 p1 p2 p3 p4 m h d mo w where w0: "wf_pattern p0"
    and r: "read_part p0 Minute m = Inr p1" "read_part p1 Hour h = Inr p2" "read_part p2 Day d = Inr p3"
      "read_part p3 Month mo = Inr p4" "read_part p4 DayOfWeek w = Inr p"
    by (auto simp: result_simps)
  have r1: "reads Minute p0 p1" using read_part_ok [OF r(1) w0] .
  then have w1: "wf_pattern p1" using w0 by (simp add: reads_def kept_def)
  have r2: "reads Hour p1 p2" using read_part_ok [OF r(2) w1] .
  then have w2: "wf_pattern p2" using w1 by (simp add: reads_def kept_def)
  have r3: "reads Day p2 p3" using read_part_ok [OF r(3) w2] .
  then have w3: "wf_pattern p3" using w2 by (simp add: reads_def kept_def)
  have r4: "reads Month p3 p4" using read_part_ok [OF r(4) w3] .
  then have w4: "wf_pattern p4" using w3 by (simp add: reads_def kept_def)
  have r5: "reads DayOfWeek p4 p" using read_part_ok [OF r(5) w4] .
  show ?thesis
    using r1 r2 r3 r4 r5 w4 unfolding reads_def kept_def by blast
qed

section \<open>Fields that list numbers\<close>

definition listing :: "nat list \<Rightarrow> string" where
  "listing ns = join_with '','' (map show_nat ns)"

definition schedule_text :: "nat list list \<Rightarrow> string" where
  "schedule_text nss = join_with '' '' (map listing nss)"

text \<open>What a listing means: exactly its numbers, Sunday being both the day 0 and the day 7.\<close>

definition listed :: "nat \<Rightarrow> nat \<Rightarrow> nat list \<Rightarrow> bool list" where
  "listed len first ns = map (\<lambda>i. first + i \<in> set ns) [0..<len]"

definition listed_week :: "nat list \<Rightarrow> 8 word list" where
  "listed_week ns = map (\<lambda>i. if i \<in> set ns \<or> i = 0 \<and> 7 \<in> set ns then ANY_WEEK else 0) [0..<7]"

definition plain :: "char \<Rightarrow> bool" where
  "plain c \<longleftrightarrow> is_digit_char c \<or> c = CHR '',''"

lemma plain_code: "plain c \<longleftrightarrow> (of_char c :: nat) \<in> {44} \<union> {48..57}"
  by (auto simp: plain_def is_digit_char_def of_char_eq_iff [where 'a = nat, of c "CHR '',''", symmetric] simp del: of_char_eq_iff)

lemma listing_plain: "list_all plain (listing ns)"
proof (induction ns rule: induct_list012)
  case (3 n k ns)
  then show ?case using show_nat_digits [of _ n] by (auto simp: listing_def list_all_iff plain_def)
qed (use show_nat_digits in \<open>auto simp: listing_def list_all_iff plain_def\<close>)

lemma listing_not_Nil: "ns \<noteq> [] \<Longrightarrow> listing ns \<noteq> []"
  by (cases ns rule: remdups_adj.cases) (simp_all add: listing_def)

lemma plain_not: "list_all plain s \<Longrightarrow> \<not> plain c \<Longrightarrow> c \<notin> set s"
  by (auto simp: list_all_iff)

lemma plain_has_char: "list_all plain s \<Longrightarrow> list_all (\<lambda>c. \<not> plain c) cs \<Longrightarrow> \<not> has_char cs s"
  by (auto simp: list_all_iff has_char_def list_ex_iff)

lemma digits_comma: "CHR '','' \<notin> set (show_nat n)"
  using show_nat_digits by (fastforce simp: is_digit_char_def)

lemma split_listing: "ns \<noteq> [] \<Longrightarrow> split_on (CHR '','') (listing ns) = map show_nat ns"
proof (induction ns rule: induct_list012)
  case (3 n k ns)
  then show ?case using split_on_append [OF digits_comma, of n "listing (k # ns)"] by (simp add: listing_def)
qed (simp_all add: listing_def split_on_word [OF digits_comma])

lemma read_decimal_append: "read_decimal n (xs @ ys) = read_decimal (read_decimal n xs) ys"
  by (induction xs arbitrary: n) simp_all

lemma read_decimal_show: "read_decimal 0 (show_nat n) = int n"
proof (induction n rule: show_nat.induct)
  case (1 n)
  have digit: "(of_char (digit_char k) :: int) = 48 + int k" if "k < 10" for k
    using of_nat_of_char [where 'a = int, of "digit_char k"] that by simp
  show ?case
  proof (cases "n < 10")
    case True
    then show ?thesis by (subst show_nat.simps) (simp add: digit)
  next
    case False
    then have "read_decimal 0 (show_nat n) = 10 * int (n div 10) + int (n mod 10)"
      using 1 by (subst show_nat.simps) (simp add: read_decimal_append digit)
    also have "\<dots> = int (10 * (n div 10) + n mod 10)" by (simp only: of_nat_add of_nat_mult of_nat_numeral)
    finally show ?thesis by simp
  qed
qed

lemma parse_int_show: "n < 100 \<Longrightarrow> parse_int (show_nat n) = Inr (int n)"
proof -
  assume "n < 100"
  moreover have "takeWhile is_digit_char (show_nat n) = show_nat n"
    using show_nat_digits by (auto simp: takeWhile_eq_all_conv)
  ultimately show ?thesis unfolding parse_int_def Let_def by (simp only:) (simp add: read_decimal_show)
qed

lemma lower_plain: "plain c \<Longrightarrow> ascii_lower_char c = c"
  by (auto simp: ascii_lower_char_def plain_code Let_def)

lemma replace_absent:
  "name \<noteq> [] \<Longrightarrow> list_all (\<lambda>c. ascii_lower_char c \<noteq> ascii_lower_char (hd name)) s \<Longrightarrow> replace_ignoring_case s name r = s"
proof (induction s)
  case Nil
  then show ?case by (subst replace_ignoring_case.simps) simp
next
  case (Cons c s)
  then have "\<not> eq_ignore_ascii_case (take (length name) (c # s)) name"
    by (cases name) (auto simp: eq_ignore_ascii_case_def ascii_lower_def)
  then show ?case using Cons by (subst replace_ignoring_case.simps) simp
qed

lemma replace_plain:
  "list_all plain s \<Longrightarrow> name \<noteq> [] \<Longrightarrow> \<not> plain (ascii_lower_char (hd name)) \<Longrightarrow> replace_ignoring_case s name r = s"
  by (rule replace_absent) (auto simp: list_all_iff lower_plain)

lemma replace_names_plain:
  "list_all plain s \<Longrightarrow> list_all (\<lambda>(name, k). name \<noteq> [] \<and> \<not> plain (ascii_lower_char (hd name))) names \<Longrightarrow> replace_names names s = s"
  by (induction names) (auto simp: replace_plain)

lemma names_not_plain:
  "list_all (\<lambda>name. name \<noteq> [] \<and> \<not> plain (ascii_lower_char (hd name))) (map fst names) \<Longrightarrow>
    list_all (\<lambda>(name, k). name \<noteq> [] \<and> \<not> plain (ascii_lower_char (hd name))) names"
  by (auto simp: list_all_iff)

lemma replace_alpha_plain:
  assumes "list_all plain s"
  shows "replace_alpha_months s = s" "replace_alpha_days s = s"
proof -
  have sun: "replace_ignoring_case s ''-sun'' ''-7'' = s"
    by (rule replace_plain [OF assms]) (simp_all add: plain_code ascii_lower_char_def)
  show "replace_alpha_months s = s" "replace_alpha_days s = s"
    unfolding replace_alpha_months_def replace_alpha_days_def sun
    by (rule replace_names_plain [OF assms names_not_plain], simp add: plain_code ascii_lower_char_def)+
qed

lemma open_plain: "list_all plain s \<Longrightarrow> open_field s = s"
  by (induction s) (auto simp: open_field_def plain_code)

lemma legal_plain: "list_all plain s \<Longrightarrow> \<not> has_illegal_characters s cs"
  by (auto simp: has_illegal_characters_def list_ex_iff list_all_iff plain_def)

lemma plain_word: "list_all plain s \<Longrightarrow> w \<noteq> [] \<Longrightarrow> \<not> plain (hd w) \<Longrightarrow> s \<noteq> w"
  by (cases w) auto

lemma cron_parse_plain:
  assumes "list_all (list_all plain) [m, h, d, mo, w]"
  shows "cron_parse m h d mo w =
    and_then (read_part empty_pattern Minute m) (\<lambda>p. and_then (read_part p Hour h) (\<lambda>p. and_then (read_part p Day d) (\<lambda>p.
        and_then (read_part p Month mo) (\<lambda>p. read_part p DayOfWeek w))))"
proof -
  have pl: "list_all plain m" "list_all plain h" "list_all plain d" "list_all plain mo" "list_all plain w" using assms by auto
  have d: "\<not> eq_ignore_ascii_case d ''LW''" "\<not> has_char ''Ll'' d" "d \<noteq> ''*''"
    using pl(3) by (auto simp: eq_ignore_ascii_case_def ascii_lower_def ascii_lower_char_def plain_code plain_has_char)
  have w: "take 1 w \<noteq> ''+''" "w \<noteq> ''*''" using pl(5) by (cases w; auto simp: plain_code)+
  have e: "empty_pattern\<lparr>star_day := False, star_day_of_week := False\<rparr> = empty_pattern" "\<not> use_and_logic (empty_pattern\<lparr>star_day := v\<rparr>)" for v
    by (simp_all add: empty_pattern_def)
  show ?thesis
    unfolding cron_parse_def Let_def if_not_P [OF d(1)] if_not_P [OF d(2)] case_prod_conv if_cancel replace_alpha_plain [OF pl(4)] replace_alpha_plain [OF pl(5)]
      if_not_P [OF w(1)]
    using d(3) w(2) by (simp add: e legal_plain open_plain pl)
qed


lemma read_part_listing:
  assumes "ns \<noteq> []"
  shows "read_part p part (listing ns) = read_items p part (map show_nat ns)"
proof (cases "has_char '','' (listing ns)")
  case True
  then show ?thesis using split_listing [OF assms] by (simp add: read_part_def)
next
  case False
  then have "split_on (CHR '','') (listing ns) = [listing ns]"
    by (intro split_on_word) (auto simp: has_char_def list_ex_iff)
  then have "map show_nat ns = [listing ns]" using split_listing [OF assms] by simp
  then show ?thesis using False by (simp add: read_part_def and_then_def split: sum.split)
qed

lemma read_item_number:
  assumes "n < 100"
  shows "read_item p part (show_nat n) = cron_set p part (int n + part_offset part) None"
proof -
  have "list_all plain (show_nat n)" using show_nat_digits by (auto simp: list_all_iff plain_def)
  then have no: "\<not> has_char cs (show_nat n)" if "list_all (\<lambda>c. \<not> plain c) cs" for cs
    using that by (rule plain_has_char)
  have "plain (last (show_nat n))" using show_nat_digits [of "last (show_nat n)" n] by (simp add: plain_def)
  then have "last (show_nat n) \<notin> set ''Ll''" by (auto simp: plain_code)
  then have "extract_nth (show_nat n) part = Inr (show_nat n, None)"
    using no [of "''#''"] by (simp add: extract_nth_def plain_code)
  moreover have "show_nat n \<noteq> ''*''" using no [of "''*''"] by (auto simp: has_char_def plain_code)
  ultimately show ?thesis
    using no [of "''-''"] no [of "''/''"] no [of "''Ww''"] parse_int_show [OF assms]
    by (simp add: read_item_def read_number_entry_def plain_code)
qed

lemma read_items_numbers:
  assumes item: "\<And>p n. wf_pattern p \<Longrightarrow> n \<in> set ns \<Longrightarrow> read_item p part (show_nat n) = Inr (upf (\<lambda>xs. xs[f n := v]) p)"
    and upf: "\<And>g h p. upf g (upf h p) = upf (\<lambda>xs. g (h xs)) p" "\<And>p. upf (\<lambda>xs. xs) p = p"
    and wf: "wf_pattern p"
  shows "read_items p part (map show_nat ns) = Inr (upf (fold (\<lambda>n xs. xs[f n := v]) ns) p)"
  using item wf
proof (induction ns arbitrary: p)
  case Nil
  then show ?case using upf(2) by (simp add: id_def)
next
  case (Cons n ns)
  have r: "read_item p part (show_nat n) = Inr (upf (\<lambda>xs. xs[f n := v]) p)" using Cons.prems by simp
  then have "wf_pattern (upf (\<lambda>xs. xs[f n := v]) p)"
    using read_item_ok [OF r Cons.prems(2)] Cons.prems(2) by (simp add: reads_def kept_def)
  then show ?case using Cons.IH Cons.prems(1) r by (simp add: upf(1) comp_def)
qed

lemma fold_update:
  "list_all (\<lambda>n. f n < length xs) ns \<Longrightarrow>
    fold (\<lambda>n xs. xs[f n := v]) ns xs = map (\<lambda>i. if i \<in> f ` set ns then v else xs ! i) [0..<length xs]"
proof (induction ns arbitrary: xs)
  case Nil
  then show ?case by (simp add: map_nth)
next
  case (Cons n ns)
  then show ?case by (auto simp: nth_list_update intro!: map_cong)
qed

lemma fold_update_empty:
  "list_all (\<lambda>n. f n < k) ns \<Longrightarrow>
    fold (\<lambda>n xs. xs[f n := v]) ns (replicate k a) = map (\<lambda>i. if i \<in> f ` set ns then v else a) [0..<k]"
  using fold_update [of f "replicate k a" ns v] by (auto intro!: map_cong)

lemma read_listings:
  assumes "wf_pattern p"
  shows "list_all (\<lambda>n. n < 60) ns \<Longrightarrow> read_items p Minute (map show_nat ns) = Inr (minute_update (fold (\<lambda>n xs. xs[n := True]) ns) p)"
    and "list_all (\<lambda>n. n < 24) ns \<Longrightarrow> read_items p Hour (map show_nat ns) = Inr (hour_update (fold (\<lambda>n xs. xs[n := True]) ns) p)"
    and "list_all (\<lambda>n. 1 \<le> n \<and> n \<le> 31) ns \<Longrightarrow> read_items p Day (map show_nat ns) = Inr (day_update (fold (\<lambda>n xs. xs[n - 1 := True]) ns) p)"
    and "list_all (\<lambda>n. 1 \<le> n \<and> n \<le> 12) ns \<Longrightarrow> read_items p Month (map show_nat ns) = Inr (month_update (fold (\<lambda>n xs. xs[n - 1 := True]) ns) p)"
    and "list_all (\<lambda>n. n \<le> 7) ns \<Longrightarrow> read_items p DayOfWeek (map show_nat ns)
      = Inr (day_of_week_update (fold (\<lambda>n xs. xs[(if n = 7 then 0 else n) := ANY_WEEK]) ns) p)"
  by (rule read_items_numbers [OF _ _ _ assms];
      auto simp: list_all_iff read_item_number cron_set_def set_at_def wf_pattern_def add_weeks_def non_empty_def
        nat_diff_distrib Let_def)+

text \<open>Of ASCII only what is not above the space separates fields.\<close>

definition visible :: "char \<Rightarrow> bool" where
  "visible c \<longleftrightarrow> 32 < (of_char c :: nat) \<and> (of_char c :: nat) < 128"

lemma plain_visible: "list_all plain w \<Longrightarrow> list_all visible w"
  by (auto simp: list_all_iff plain_code visible_def)

lemma no_space_visible: "visible c \<Longrightarrow> find (\<lambda>w. take (length w) (c # s) = w) JS_SPACES = None"
proof -
  assume "visible c"
  have "list_all (\<lambda>w. w \<noteq> [] \<and> \<not> visible (hd w)) JS_SPACES"
    by (simp add: JS_SPACES_def visible_def list_all_iff)
  then have "take (length w) (c # s) \<noteq> w" if "w \<in> set JS_SPACES" for w
    using that \<open>visible c\<close> by (cases w) (auto simp: list_all_iff)
  then show ?thesis by (simp add: find_None_iff)
qed

lemma split_spaces_word: "list_all visible w \<Longrightarrow> split_spaces acc (w @ rest) = split_spaces (acc @ w) rest"
proof (induction w arbitrary: acc)
  case (Cons c w)
  then show ?case by (subst split_spaces.simps) (simp add: no_space_visible)
qed simp

lemma split_spaces_visible: "visible c \<Longrightarrow> split_spaces acc (c # rest) = split_spaces (acc @ [c]) rest"
  using split_spaces_word [of "[c]"] by simp

lemma split_spaces_Nil: "split_spaces acc [] = [acc]" by (subst split_spaces.simps) simp

lemma split_spaces_space: "split_spaces acc (CHR '' '' # rest) = acc # split_spaces [] rest"
  by (subst split_spaces.simps) (simp add: JS_SPACES_def)

lemma split_schedule: "nss \<noteq> [] \<Longrightarrow> split_spaces [] (schedule_text nss) = map listing nss"
proof (induction nss rule: induct_list012)
  case (2 ns)
  then show ?case
    using split_spaces_word [OF plain_visible [OF listing_plain], of "[]" ns "[]"] by (simp add: schedule_text_def split_spaces_Nil)
next
  case (3 ns ks nss)
  then show ?case
    using split_spaces_word [OF plain_visible [OF listing_plain], of "[]" ns] by (simp add: schedule_text_def split_spaces_space)
qed simp

lemma listed_fold:
  "list_all (\<lambda>n. n < k) ns \<Longrightarrow> fold (\<lambda>n xs. xs[n := True]) ns (replicate k False) = listed k 0 ns"
  "list_all (\<lambda>n. 1 \<le> n \<and> n \<le> k) ns \<Longrightarrow> fold (\<lambda>n xs. xs[n - 1 := True]) ns (replicate k False) = listed k 1 ns"
  "list_all (\<lambda>n. n \<le> 7) ns \<Longrightarrow>
    fold (\<lambda>n xs. xs[(if n = 7 then 0 else n) := ANY_WEEK]) ns (replicate 7 0) = listed_week ns"
proof -
  assume "list_all (\<lambda>n. n < k) ns"
  then show "fold (\<lambda>n xs. xs[n := True]) ns (replicate k False) = listed k 0 ns"
    using fold_update_empty [of "\<lambda>n. n" k ns True False] by (simp add: listed_def)
next
  assume r: "list_all (\<lambda>n. 1 \<le> n \<and> n \<le> k) ns"
  have "list_all (\<lambda>n. n - 1 < k) ns" using r by (auto simp: list_all_iff)
  moreover have "i \<in> (\<lambda>n. n - 1) ` set ns \<longleftrightarrow> Suc i \<in> set ns" for i
  proof
    assume "i \<in> (\<lambda>n. n - 1) ` set ns"
    then obtain n where "n \<in> set ns" "i = n - 1" by blast
    moreover have "1 \<le> n" using r \<open>n \<in> set ns\<close> by (simp add: list_all_iff)
    ultimately show "Suc i \<in> set ns" by simp
  qed (force simp: image_iff)
  ultimately show "fold (\<lambda>n xs. xs[n - 1 := True]) ns (replicate k False) = listed k 1 ns"
    using fold_update_empty [of "\<lambda>n. n - 1" k ns True False] by (simp add: listed_def)
next
  assume r: "list_all (\<lambda>n. n \<le> 7) ns"
  then have "list_all (\<lambda>n. (if n = 7 then 0 else n) < 7) ns" by (auto simp: list_all_iff)
  moreover have "i \<in> (\<lambda>n. if n = 7 then 0 else n) ` set ns \<longleftrightarrow> i \<in> set ns \<or> i = 0 \<and> 7 \<in> set ns" if "i < 7" for i
    using that unfolding image_iff by (metis less_irrefl)
  ultimately show "fold (\<lambda>n xs. xs[(if n = 7 then 0 else n) := ANY_WEEK]) ns (replicate 7 0) = listed_week ns"
    using fold_update_empty [of "\<lambda>n. if n = 7 then 0 else n" 7 ns ANY_WEEK 0]
    by (simp add: listed_week_def cong: map_cong)
qed

section \<open>The search for a next run\<close>

text \<open>The operations used of a date: months and days count from one, weekdays from Sunday.\<close>

record 'd Calendar =
  c_year :: "'d \<Rightarrow> int"
  c_month :: "'d \<Rightarrow> nat"
  c_day :: "'d \<Rightarrow> nat"
  c_weekday :: "'d \<Rightarrow> nat"
  c_with_day :: "'d \<Rightarrow> nat \<Rightarrow> 'd option"
  c_succ :: "'d \<Rightarrow> 'd option"
  c_pred :: "'d \<Rightarrow> 'd option"
  c_from_ymd :: "int \<Rightarrow> nat \<Rightarrow> nat \<Rightarrow> 'd option"

definition first_of_next_month :: "'d Calendar \<Rightarrow> 'd \<Rightarrow> 'd option" where
  "first_of_next_month cal date =
     (if c_month cal date = 12 then c_from_ymd cal (c_year cal date + 1) 1 1
      else c_from_ymd cal (c_year cal date) (c_month cal date + 1) 1)"

definition last_day_of_month :: "'d Calendar \<Rightarrow> 'd \<Rightarrow> nat" where
  "last_day_of_month cal date =
     (case Option.bind (first_of_next_month cal date) (c_pred cal) of None \<Rightarrow> 28 | Some d \<Rightarrow> c_day cal d)"

definition weekday_of :: "'d Calendar \<Rightarrow> 'd \<Rightarrow> nat \<Rightarrow> nat" where
  "weekday_of cal date n = (case c_with_day cal date n of None \<Rightarrow> 0 | Some d \<Rightarrow> c_weekday cal d)"

definition nearest_to :: "'d Calendar \<Rightarrow> 'd \<Rightarrow> nat \<Rightarrow> nat" where
  "nearest_to cal date wanted =
     (let w = weekday_of cal date wanted in
      if w = 0 then (if wanted = last_day_of_month cal date then wanted - 2 else wanted + 1)
      else if w = 6 then (if wanted = 1 then wanted + 2 else wanted - 1)
      else wanted)"

definition runs_on :: "'d Calendar \<Rightarrow> CronPattern \<Rightarrow> 'd \<Rightarrow> bool" where
  "runs_on cal p date =
     (if \<not> month p ! (c_month cal date - 1) then False
      else
        (let d = c_day cal date;
             final = last_day_of_month cal date;
             by_month = (day p ! (d - 1)
               \<or> list_ex (\<lambda>wanted. nearest_weekdays p ! (wanted - 1) \<and> nearest_to cal date wanted = d) [1..<final + 1]);
             by_month = (if last_weekday p
               then by_month \<or> d = (let w = weekday_of cal date final in
                                    if w = 0 then final - 2 else if w = 6 then final - 1 else final)
               else by_month);
             by_month = (if last_day p then by_month \<or> d = final else by_month) in
         if star_day_of_week p then by_month
         else
           (let weeks = day_of_week p ! weekday_of cal date d;
                week = (if (d - 1) div 7 < length NTH_WEEK then NTH_WEEK ! ((d - 1) div 7) else 0);
                by_week = (weeks AND week \<noteq> 0 \<or> (weeks AND LAST_WEEK \<noteq> 0 \<and> d + 7 > final)) in
            if use_and_logic p \<or> star_day p then by_month \<and> by_week else by_month \<or> by_week)))"

definition first_run_of_day :: "CronPattern \<Rightarrow> nat \<Rightarrow> nat option" where
  "first_run_of_day p from_minute = find (\<lambda>m. hour p ! (m div 60) \<and> minute p ! (m mod 60)) [from_minute..<24 * 60]"

text \<open>The loop over the days: \<open>None\<close> when it does not end, else its answer, a date and a minute of it.\<close>

partial_function (option) search :: "'d Calendar \<Rightarrow> CronPattern \<Rightarrow> 'd \<Rightarrow> nat \<Rightarrow> ('d \<times> nat) option option" where
  [code]: "search cal p date from_minute =
     (if \<not> c_year cal date < LAST_YEAR then Some None
      else case (if runs_on cal p date then first_run_of_day p from_minute else None) of
        Some m \<Rightarrow> Some (Some (date, m))
      | None \<Rightarrow>
          (case (if month p ! (c_month cal date - 1) then c_succ cal date else first_of_next_month cal date) of
             None \<Rightarrow> Some None
           | Some next \<Rightarrow> search cal p next 0))"

text \<open>A moment is a date and a second of it; the nanoseconds are cleared at once. Adding seconds may
  lead into the next day.\<close>

definition add_seconds :: "'d Calendar \<Rightarrow> 'd \<times> nat \<Rightarrow> nat \<Rightarrow> ('d \<times> nat) option" where
  "add_seconds cal t n =
     (if snd t + n < 86400 then Some (fst t, snd t + n)
      else map_option (\<lambda>d. (d, snd t + n - 86400)) (c_succ cal (fst t)))"

definition first_minute_after :: "'d Calendar \<Rightarrow> 'd \<times> nat \<Rightarrow> ('d \<times> nat) option" where
  "first_minute_after cal t =
     (case add_seconds cal t 1 of
        None \<Rightarrow> None
      | Some e \<Rightarrow>
          if snd e mod 60 = 0 then Some e else add_seconds cal (fst e, snd e - snd e mod 60) 60)"

text \<open>\<open>None\<close> when there is no answer at all: the additions panic past the calendar's last day, or the loop goes on.\<close>

definition next_after :: "'d Calendar \<Rightarrow> CronPattern \<Rightarrow> 'd \<times> nat \<Rightarrow> ('d \<times> nat) option option" where
  "next_after cal p t =
     (case first_minute_after cal t of
        None \<Rightarrow> None
      | Some e \<Rightarrow> search cal p (fst e) (snd e div 60))"

section \<open>The Gregorian calendar\<close>

type_synonym ymd = "int \<times> nat \<times> nat"

definition leap :: "int \<Rightarrow> bool" where
  "leap y \<longleftrightarrow> 4 dvd y \<and> (\<not> 100 dvd y \<or> 400 dvd y)"

definition month_len :: "int \<Rightarrow> nat \<Rightarrow> nat" where
  "month_len y m = (if m = 2 then (if leap y then 29 else 28) else if m \<in> {4, 6, 9, 11} then 30 else 31)"

definition days_before_year :: "int \<Rightarrow> int" where
  "days_before_year y = 365 * (y - 1) + (y - 1) div 4 - (y - 1) div 100 + (y - 1) div 400"

definition days_before_month :: "int \<Rightarrow> nat \<Rightarrow> int" where
  "days_before_month y m = sum_list (map (\<lambda>k. int (month_len y k)) [1..<m])"

definition day_number :: "ymd \<Rightarrow> int" where
  "day_number = (\<lambda>(y, m, d). days_before_year y + days_before_month y m + int d)"

definition from_ymd :: "int \<Rightarrow> nat \<Rightarrow> nat \<Rightarrow> ymd option" where
  "from_ymd y m d = (if 1 \<le> m \<and> m \<le> 12 \<and> 1 \<le> d \<and> d \<le> month_len y m then Some (y, m, d) else None)"

definition succ_ymd :: "ymd \<Rightarrow> ymd" where
  "succ_ymd = (\<lambda>(y, m, d). if d < month_len y m then (y, m, d + 1) else if m < 12 then (y, m + 1, 1) else (y + 1, 1, 1))"

definition pred_ymd :: "ymd \<Rightarrow> ymd" where
  "pred_ymd = (\<lambda>(y, m, d). if 1 < d then (y, m, d - 1) else if 1 < m then (y, m - 1, month_len y (m - 1)) else (y - 1, 12, 31))"

definition gregorian :: "ymd Calendar" where
  "gregorian =
     \<lparr>c_year = fst, c_month = (\<lambda>t. fst (snd t)), c_day = (\<lambda>t. snd (snd t)), c_weekday = (\<lambda>t. nat (day_number t mod 7)),
      c_with_day = (\<lambda>t d. from_ymd (fst t) (fst (snd t)) d), c_succ = (\<lambda>t. Some (succ_ymd t)), c_pred = (\<lambda>t. Some (pred_ymd t)),
      c_from_ymd = from_ymd\<rparr>"


section \<open>What is relied on of a calendar\<close>

text \<open>
  Dates that are valid stand in one line of days, in the order of their years, months and days;
  before the last year every day has a next, and every month until that year a first.
\<close>

text \<open>When a pattern runs, and where a minute stands in the line of all minutes.\<close>

definition runs_at :: "'d Calendar \<Rightarrow> ('d \<Rightarrow> bool) \<Rightarrow> CronPattern \<Rightarrow> 'd \<Rightarrow> nat \<Rightarrow> bool" where
  "runs_at cal valid p e m \<longleftrightarrow>
     valid e \<and> m < 1440 \<and> runs_on cal p e \<and> hour p ! (m div 60) \<and> minute p ! (m mod 60)"

definition moment :: "('d \<Rightarrow> int) \<Rightarrow> 'd \<Rightarrow> nat \<Rightarrow> int" where
  "moment num e m = num e * 1440 + int m"

text \<open>The right answer to a search from a minute on: the first run from there, or that there is none.\<close>

definition least_run ::
  "'d Calendar \<Rightarrow> ('d \<Rightarrow> int) \<Rightarrow> ('d \<Rightarrow> bool) \<Rightarrow> CronPattern \<Rightarrow> int \<Rightarrow> ('d \<times> nat) option \<Rightarrow> bool" where
  "least_run cal num valid p start r \<longleftrightarrow>
     (case r of
        Some (e, m) \<Rightarrow> runs_at cal valid p e m \<and> c_year cal e < LAST_YEAR \<and> start \<le> moment num e m
          \<and> (\<forall>e' m'. runs_at cal valid p e' m' \<longrightarrow> start \<le> moment num e' m' \<longrightarrow> moment num e m \<le> moment num e' m')
      | None \<Rightarrow> \<forall>e' m'. runs_at cal valid p e' m' \<longrightarrow> start \<le> moment num e' m' \<longrightarrow> LAST_YEAR \<le> c_year cal e')"

locale calendar =
  fixes cal :: "'d Calendar" and num :: "'d \<Rightarrow> int" and valid :: "'d \<Rightarrow> bool"
  assumes num_less: "valid d \<Longrightarrow> valid e \<Longrightarrow> num d < num e \<longleftrightarrow>
      c_year cal d < c_year cal e \<or> c_year cal d = c_year cal e \<and>
        (c_month cal d < c_month cal e \<or> c_month cal d = c_month cal e \<and> c_day cal d < c_day cal e)"
    and num_inj: "valid d \<Longrightarrow> valid e \<Longrightarrow> num d = num e \<Longrightarrow> d = e"
    and succ: "valid d \<Longrightarrow> c_year cal d < LAST_YEAR \<Longrightarrow> \<exists>e. c_succ cal d = Some e \<and> valid e \<and> num e = num d + 1"
    and first: "valid d \<Longrightarrow> c_year cal d \<le> y \<Longrightarrow> y \<le> LAST_YEAR \<Longrightarrow> 1 \<le> m \<Longrightarrow> m \<le> 12 \<Longrightarrow>
      \<exists>e. c_from_ymd cal y m 1 = Some e \<and> valid e \<and> c_year cal e = y \<and> c_month cal e = m \<and> c_day cal e = 1"
    and month_range: "valid d \<Longrightarrow> 1 \<le> c_month cal d \<and> c_month cal d \<le> 12"
    and day_range: "valid d \<Longrightarrow> 1 \<le> c_day cal d"
begin

lemma next_month:
  assumes "valid d" "c_year cal d < LAST_YEAR"
  shows "\<exists>e. first_of_next_month cal d = Some e \<and> valid e \<and> num d < num e
    \<and> (\<forall>x. valid x \<longrightarrow> num d \<le> num x \<longrightarrow> num x < num e \<longrightarrow> c_month cal x = c_month cal d)"
proof -
  define y m where "y = (if c_month cal d = 12 then c_year cal d + 1 else c_year cal d)"
    and "m = (if c_month cal d = 12 then 1 else c_month cal d + 1)"
  have ym: "c_year cal d \<le> y" "y \<le> LAST_YEAR" "1 \<le> m" "m \<le> 12"
    using assms month_range [OF assms(1)] by (auto simp: y_def m_def)
  obtain e where e: "c_from_ymd cal y m 1 = Some e" "valid e" "c_year cal e = y" "c_month cal e = m" "c_day cal e = 1"
    using first [OF assms(1) ym] by blast
  have "first_of_next_month cal d = Some e"
    using e(1) by (cases "c_month cal d = 12") (simp_all add: first_of_next_month_def y_def m_def)
  moreover have "num d < num e"
    using num_less [OF assms(1) e(2)] e by (auto simp: y_def m_def)
  moreover have "c_month cal x = c_month cal d" if x: "valid x" "num d \<le> num x" "num x < num e" for x
  proof -
    have "\<not> num x < num d" using x by simp
    then show ?thesis
      using num_less [OF x(1) assms(1)] num_less [OF x(1) e(2)] x(3) e month_range [OF x(1)] day_range [OF x(1)]
        month_range [OF assms(1)]
      by (auto simp: y_def m_def split: if_splits)
  qed
  ultimately show ?thesis using e(2) by blast
qed

lemma first_run_Some:
  assumes "first_run_of_day p from = Some m"
  shows "from \<le> m" "m < 1440" "hour p ! (m div 60)" "minute p ! (m mod 60)"
    "\<And>k. from \<le> k \<Longrightarrow> k < m \<Longrightarrow> \<not> (hour p ! (k div 60) \<and> minute p ! (k mod 60))"
proof -
  obtain i where i: "i < length [from..<1440]" "m = [from..<1440] ! i"
      "hour p ! (m div 60) \<and> minute p ! (m mod 60)"
      "\<forall>j < i. \<not> (hour p ! ([from..<1440] ! j div 60) \<and> minute p ! ([from..<1440] ! j mod 60))"
    using assms unfolding first_run_of_day_def find_Some_iff by auto
  then show "from \<le> m" "m < 1440" "hour p ! (m div 60)" "minute p ! (m mod 60)" by auto
  fix k assume "from \<le> k" "k < m"
  moreover have "m = from + i" using i(1,2) by simp
  ultimately have "k - from < i" "[from..<1440] ! (k - from) = k" using i(1) by auto
  then show "\<not> (hour p ! (k div 60) \<and> minute p ! (k mod 60))"
    using i(4) by metis
qed

lemma first_run_None:
  "first_run_of_day p from = None \<Longrightarrow> from \<le> k \<Longrightarrow> k < 1440 \<Longrightarrow> \<not> (hour p ! (k div 60) \<and> minute p ! (k mod 60))"
  by (auto simp: first_run_of_day_def find_None_iff)

lemma moment_le_num: "m' < 1440 \<Longrightarrow> moment num d m \<le> moment num e m' \<Longrightarrow> num d \<le> num e"
  unfolding moment_def by (rule ccontr) auto

lemma least_run_later:
  assumes "least_run cal num valid p (moment num e 0) r" "num d < num e" "m < 1440"
    and "\<And>x m'. runs_at cal valid p x m' \<Longrightarrow> moment num d m \<le> moment num x m' \<Longrightarrow> num e \<le> num x"
  shows "least_run cal num valid p (moment num d m) r"
proof -
  have "moment num e 0 \<le> moment num x m'" if "runs_at cal valid p x m'" "moment num d m \<le> moment num x m'" for x m'
    using assms(4) [OF that] by (simp add: moment_def)
  moreover have "moment num d m \<le> moment num e 0" using assms(2,3) by (simp add: moment_def)
  ultimately show ?thesis
    using assms(1) unfolding least_run_def by (auto split: option.splits)
qed

lemma runs_at_date: "runs_at cal valid p x m' \<Longrightarrow> valid x \<and> m' < 1440"
  by (simp add: runs_at_def)

lemma search_step:
  assumes d: "valid d" "c_year cal d < LAST_YEAR" "from < 1440"
    and none: "(if runs_on cal p d then first_run_of_day p from else None) = None"
  shows "\<exists>e. (if month p ! (c_month cal d - 1) then c_succ cal d else first_of_next_month cal d) = Some e
    \<and> valid e \<and> num d < num e
    \<and> (\<forall>x m'. runs_at cal valid p x m' \<longrightarrow> moment num d from \<le> moment num x m' \<longrightarrow> num e \<le> num x)"
proof -
  have later: "num d < num x" if x: "runs_at cal valid p x m'" "moment num d from \<le> moment num x m'" for x m'
  proof (rule ccontr)
    assume "\<not> num d < num x"
    then have "num x = num d" using moment_le_num x runs_at_date by fastforce
    then have "x = d" "from \<le> m'" using num_inj x runs_at_date d(1) by (auto simp: moment_def)
    then show False
      using none x(1) first_run_None [of p "from" m'] by (auto simp: runs_at_def split: if_splits)
  qed
  show ?thesis
  proof (cases "month p ! (c_month cal d - 1)")
    case True
    then show ?thesis using succ [OF d(1,2)] later by fastforce
  next
    case False
    obtain e where e: "first_of_next_month cal d = Some e" "valid e" "num d < num e"
        "\<And>x. valid x \<Longrightarrow> num d \<le> num x \<Longrightarrow> num x < num e \<Longrightarrow> c_month cal x = c_month cal d"
      using next_month [OF d(1,2)] by blast
    have "num e \<le> num x" if x: "runs_at cal valid p x m'" "moment num d from \<le> moment num x m'" for x m'
    proof (rule ccontr)
      assume "\<not> num e \<le> num x"
      then have "c_month cal x = c_month cal d"
        using e(4) [of x] later [OF x] runs_at_date [OF x(1)] by simp
      then show False using x(1) False by (simp add: runs_at_def runs_on_def)
    qed
    then show ?thesis using e False by auto
  qed
qed

lemma year_mono: "valid d \<Longrightarrow> valid x \<Longrightarrow> num d \<le> num x \<Longrightarrow> c_year cal d \<le> c_year cal x"
  using num_less [of x d] by force

lemma search_over:
  assumes "valid d" "\<not> c_year cal d < LAST_YEAR"
  shows "search cal p d from = Some None" "least_run cal num valid p (moment num d from) None"
proof -
  show "search cal p d from = Some None"
    using assms(2) by (subst search.simps) simp
  have "LAST_YEAR \<le> c_year cal x" if "runs_at cal valid p x m'" "moment num d from \<le> moment num x m'" for x m'
    using year_mono [OF assms(1)] moment_le_num [OF _ that(2)] runs_at_date [OF that(1)] assms(2) by fastforce
  then show "least_run cal num valid p (moment num d from) None"
    by (simp add: least_run_def)
qed

lemma search_hit:
  assumes "valid d" "c_year cal d < LAST_YEAR" "runs_on cal p d" "first_run_of_day p from = Some m"
  shows "search cal p d from = Some (Some (d, m))" "least_run cal num valid p (moment num d from) (Some (d, m))"
proof -
  show "search cal p d from = Some (Some (d, m))"
    using assms(2-4) by (subst search.simps) simp
  have "moment num d m \<le> moment num x m'"
    if x: "runs_at cal valid p x m'" "moment num d from \<le> moment num x m'" for x m'
  proof (cases "num x = num d")
    case True
    then have "x = d" "from \<le> m'" using num_inj x runs_at_date assms(1) by (auto simp: moment_def)
    then have "\<not> m' < m" using first_run_Some(5) [OF assms(4), of m'] x(1) by (auto simp: runs_at_def)
    then show ?thesis using \<open>x = d\<close> by (simp add: moment_def)
  next
    case False
    then have "num d + 1 \<le> num x" using moment_le_num [OF _ x(2)] runs_at_date [OF x(1)] by simp
    then show ?thesis using first_run_Some(2) [OF assms(4)] by (simp add: moment_def)
  qed
  then show "least_run cal num valid p (moment num d from) (Some (d, m))"
    using assms first_run_Some [OF assms(4)] by (simp add: least_run_def runs_at_def moment_def)
qed

lemma search_bounded:
  assumes "valid bound" "c_year cal bound = LAST_YEAR" "valid d" "from < 1440"
  shows "\<exists>r. search cal p d from = Some r \<and> least_run cal num valid p (moment num d from) r"
  using assms(3,4)
proof (induction "nat (num bound - num d)" arbitrary: d "from" rule: less_induct)
  case less
  note d = less.prems(1) and f = less.prems(2)
  show ?case
  proof (cases "c_year cal d < LAST_YEAR")
    case False
    then show ?thesis using search_over [OF d] by blast
  next
    case year: True
    show ?thesis
    proof (cases "if runs_on cal p d then first_run_of_day p from else None")
      case (Some m)
      then show ?thesis using search_hit [OF d year] by (metis option.distinct(1))
    next
      case None
      obtain e where e: "(if month p ! (c_month cal d - 1) then c_succ cal d else first_of_next_month cal d) = Some e"
          "valid e" "num d < num e"
          "\<And>x m'. runs_at cal valid p x m' \<Longrightarrow> moment num d from \<le> moment num x m' \<Longrightarrow> num e \<le> num x"
        using search_step [OF d year f None] by blast
      have "num d < num bound" using num_less [OF d assms(1)] year assms(2) by simp
      then obtain r where r: "search cal p e 0 = Some r" "least_run cal num valid p (moment num e 0) r"
        using less.hyps [of e 0] e(2,3) by auto
      have "search cal p d from = search cal p e 0"
        using year None e(1) by (subst search.simps) simp
      then show ?thesis using r least_run_later [OF r(2) e(3) f e(4)] by auto
    qed
  qed
qed

lemma search_finds:
  assumes "valid d" "from < 1440"
  shows "\<exists>r. search cal p d from = Some r \<and> least_run cal num valid p (moment num d from) r"
proof (cases "c_year cal d < LAST_YEAR")
  case False
  then show ?thesis using search_over [OF assms(1)] by blast
next
  case True
  then obtain b where "valid b" "c_year cal b = LAST_YEAR" using first [OF assms(1), of LAST_YEAR 1] by auto
  then show ?thesis using search_bounded assms by blast
qed

lemma minute_after:
  assumes "valid d" "c_year cal d < LAST_YEAR" "s < 86400"
  shows "\<exists>e k. first_minute_after cal (d, s) = Some (e, 60 * k) \<and> valid e \<and> k < 1440
    \<and> moment num e k = moment num d (s div 60) + 1"
proof -
  obtain e where e: "c_succ cal d = Some e" "valid e" "num e = num d + 1" using succ [OF assms(1,2)] by blast
  define q where "q = s div 60"
  have q: "s = 60 * q + s mod 60" "q < 1440" using assms(3) by (auto simp: q_def)
  consider (later) "s mod 60 < 59" | (turn) "s mod 60 = 59" using mod_less_divisor [of 60 s] by linarith
  then have "first_minute_after cal (d, s) = Some (if q + 1 < 1440 then (d, 60 * (q + 1)) else (e, 60 * 0))"
  proof cases
    case later
    then have "Suc s mod 60 = Suc (s mod 60)" "s + 1 < 86400" using q by (simp_all add: mod_Suc)
    moreover have "s + 1 - Suc (s mod 60) = 60 * q" using q(1) by simp
    ultimately show ?thesis using e(1) q(2) by (simp add: first_minute_after_def add_seconds_def)
  next
    case turn
    then have "s + 1 = 60 * (q + 1)" using q(1) by simp
    then show ?thesis using e(1) q(2) by (simp add: first_minute_after_def add_seconds_def)
  qed
  moreover have "moment num e 0 = moment num d q + 1" if "\<not> q + 1 < 1440"
    using that q(2) e(3) by (simp add: moment_def)
  moreover have "moment num d (q + 1) = moment num d q + 1" by (simp add: moment_def)
  ultimately show ?thesis
    using e(2) assms(1) unfolding q_def [symmetric]
    by (intro exI [of _ "if q + 1 < 1440 then d else e"] exI [of _ "if q + 1 < 1440 then q + 1 else 0"])
      (cases "q + 1 < 1440"; simp)
qed

lemma next_after_finds:
  assumes "valid d" "c_year cal d < LAST_YEAR" "s < 86400"
  shows "\<exists>r. next_after cal p (d, s) = Some r \<and> least_run cal num valid p (moment num d (s div 60) + 1) r"
proof -
  obtain e k where e: "first_minute_after cal (d, s) = Some (e, 60 * k)" "valid e" "k < 1440"
      "moment num e k = moment num d (s div 60) + 1"
    using minute_after [OF assms] by blast
  then show ?thesis using search_finds [OF e(2,3), of p] by (simp add: next_after_def)
qed

end

section \<open>Days with a run\<close>

lemma first_run_of_named:
  assumes "wf_pattern p" "named p Minute" "named p Hour"
  shows "first_run_of_day p 0 \<noteq> None"
proof -
  obtain h where h: "h < 24" "hour p ! h" using assms(1,3) by (auto simp: wf_pattern_def list_ex_length)
  obtain m where m: "m < 60" "minute p ! m" using assms(1,2) by (auto simp: wf_pattern_def list_ex_length)
  have "60 * h + m < 1440" "(60 * h + m) div 60 = h" "(60 * h + m) mod 60 = m" using h(1) m(1) by auto
  then show ?thesis
    using h(2) m(2) unfolding first_run_of_day_def find_None_iff not_not
    by (auto intro!: bexI [of _ "60 * h + m"])
qed

section \<open>The Gregorian calendar keeps the laws\<close>

definition valid_ymd :: "ymd \<Rightarrow> bool" where
  "valid_ymd = (\<lambda>(y, m, d). 1 \<le> m \<and> m \<le> 12 \<and> 1 \<le> d \<and> d \<le> month_len y m)"

lemma days_before_month_Suc: "1 \<le> m \<Longrightarrow> days_before_month y (Suc m) = days_before_month y m + int (month_len y m)"
  by (simp add: days_before_month_def)

lemma days_before_month_one: "days_before_month y 1 = 0" by (simp add: days_before_month_def)

lemma days_before_month_mono:
  assumes "1 \<le> m" "m < k"
  shows "days_before_month y m + int (month_len y m) \<le> days_before_month y k"
  using assms(2)
proof (induction k)
  case (Suc k)
  then show ?case
    using days_before_month_Suc [of m y] days_before_month_Suc [of k y] assms(1) by (cases "m = k") simp_all
qed simp

lemma days_of_year: "days_before_month y 13 = (if leap y then 366 else 365)"
  by (simp add: days_before_month_def month_len_def upt_conv_Cons)

lemma div_step: "0 < k \<Longrightarrow> y div k = (y - 1) div k + (if k dvd y then 1 else 0)" for y k :: int
proof (cases "k dvd y")
  case True
  assume "0 < k"
  obtain q where "y = k * q" using True by (elim dvdE)
  moreover have "(k * q - 1) div k = q - 1"
    using \<open>0 < k\<close> by (intro int_div_pos_eq [of _ _ _ "k - 1"]) (simp_all add: algebra_simps)
  ultimately show ?thesis using \<open>0 < k\<close> by simp
next
  case False
  assume "0 < k"
  then have "0 \<le> y mod k - 1" "y mod k - 1 < k" using False pos_mod_bound [of k y] pos_mod_sign [of k y]
    by (simp_all add: dvd_eq_mod_eq_0 order_less_le)
  then have "(y - 1) div k = y div k"
    by (intro int_div_pos_eq [of _ _ _ "y mod k - 1"]) (simp_all add: mult.commute)
  then show ?thesis using False by simp
qed

lemma days_before_year_Suc: "days_before_year (y + 1) = days_before_year y + days_before_month y 13"
proof -
  have "100 dvd y \<Longrightarrow> 4 dvd y" by (rule dvd_trans [of 4 100 y]) simp
  moreover have "400 dvd y \<Longrightarrow> 100 dvd y" by (rule dvd_trans [of 100 400 y]) simp
  ultimately show ?thesis
    unfolding days_before_year_def days_of_year leap_def add_diff_cancel_right'
      div_step [of 4 y, simplified] div_step [of 100 y, simplified] div_step [of 400 y, simplified]
    by (cases "4 dvd y"; cases "100 dvd y"; cases "400 dvd y") simp_all
qed

lemma days_before_year_mono:
  assumes "y < z"
  shows "days_before_year y + days_before_month y 13 \<le> days_before_year z"
proof -
  have "days_before_year (y + 1) \<le> days_before_year (y + 1 + int n)" for n
  proof (induction n)
    case (Suc n)
    then show ?case
      using days_before_year_Suc [of "y + 1 + int n"] days_of_year [of "y + 1 + int n"]
      by (simp add: algebra_simps split: if_splits)
  qed simp
  from this [of "nat (z - y - 1)"] show ?thesis using assms by (simp add: days_before_year_Suc)
qed

lemma day_number_less:
  assumes "valid_ymd (y, m, d)" "valid_ymd (z, n, e)"
    and "y < z \<or> y = z \<and> (m < n \<or> m = n \<and> d < e)"
  shows "day_number (y, m, d) < day_number (z, n, e)"
proof -
  have m: "1 \<le> m" "m \<le> 12" "d \<le> month_len y m" and n: "1 \<le> n" "1 \<le> e"
    using assms(1,2) by (auto simp: valid_ymd_def)
  have "0 \<le> days_before_month z n" unfolding days_before_month_def by (rule sum_list_nonneg) auto
  moreover have "days_before_month y m + int d \<le> days_before_month y 13"
    using days_before_month_mono [of m 13 y] m by simp
  moreover have "days_before_month y m + int d \<le> days_before_month y n" if "m < n"
    using days_before_month_mono [OF m(1) that, of y] m by simp
  ultimately show ?thesis
    using assms(3) days_before_year_mono [of y z] n by (auto simp: day_number_def)
qed

lemma succ_ymd_next:
  assumes "valid_ymd t"
  shows "valid_ymd (succ_ymd t)" "day_number (succ_ymd t) = day_number t + 1"
proof -
  obtain y m d where t: "t = (y, m, d)" by (cases t)
  have m: "1 \<le> m" "m \<le> 12" "1 \<le> d" "d \<le> month_len y m" using assms by (auto simp: t valid_ymd_def)
  have "1 \<le> month_len z k" for z k by (simp add: month_len_def)
  then show "valid_ymd (succ_ymd t)" using m by (simp add: t succ_ymd_def valid_ymd_def)
  consider "d < month_len y m" | "d = month_len y m" "m < 12" | "d = month_len y m" "m = 12" using m by linarith
  then show "day_number (succ_ymd t) = day_number t + 1"
  proof cases
    case 1
    then show ?thesis by (simp add: t succ_ymd_def day_number_def)
  next
    case 2
    then show ?thesis using days_before_month_Suc [OF m(1), of y] by (simp add: t succ_ymd_def day_number_def)
  next
    case 3
    then show ?thesis
      using days_before_month_Suc [of 12 y] days_before_month_one [of "y + 1"]
      by (simp add: t succ_ymd_def day_number_def days_before_year_Suc)
  qed
qed

interpretation greg: calendar gregorian day_number valid_ymd
proof
  fix d e :: ymd and n :: int and m :: nat
  obtain dy dm dd where d: "d = (dy, dm, dd)" by (cases d)
  obtain ey em ed where e: "e = (ey, em, ed)" by (cases e)
  assume vd: "valid_ymd d"
  show "1 \<le> c_month gregorian d \<and> c_month gregorian d \<le> 12" "1 \<le> c_day gregorian d"
    using vd by (auto simp: d valid_ymd_def gregorian_def)
  show "\<exists>x. c_succ gregorian d = Some x \<and> valid_ymd x \<and> day_number x = day_number d + 1"
    using succ_ymd_next [OF vd] by (simp add: gregorian_def)
  show "\<exists>x. c_from_ymd gregorian n m 1 = Some x \<and> valid_ymd x \<and> c_year gregorian x = n
      \<and> c_month gregorian x = m \<and> c_day gregorian x = 1" if "1 \<le> m" "m \<le> 12"
    using that by (simp add: gregorian_def from_ymd_def valid_ymd_def month_len_def)
  assume ve: "valid_ymd e"
  note less = day_number_less [OF vd [unfolded d] ve [unfolded e]] day_number_less [OF ve [unfolded e] vd [unfolded d]]
  show "day_number d < day_number e \<longleftrightarrow> c_year gregorian d < c_year gregorian e
      \<or> c_year gregorian d = c_year gregorian e \<and> (c_month gregorian d < c_month gregorian e
      \<or> c_month gregorian d = c_month gregorian e \<and> c_day gregorian d < c_day gregorian e)"
    using less by (simp add: d e gregorian_def) (smt (verit) linorder_neqE_nat)
  show "d = e" if "day_number d = day_number e"
    using less that by (simp add: d e) (smt (verit) linorder_neqE_nat)
qed

section \<open>Properties of schedules\<close>

text \<open>A schedule whose five fields list numbers of their ranges is accepted, and runs at exactly the minutes,
  hours, days, months and weekdays listed, through the splitting at spaces and commas, the names of months
  and days, the offsets, and Sunday written as 0 or 7.\<close>

theorem schedule_reads_back:
  assumes "list_all (\<lambda>ns. ns \<noteq> []) [ms, hs, ds, mos, ws]"
    and "list_all (\<lambda>n. n < 60) ms" "list_all (\<lambda>n. n < 24) hs" "list_all (\<lambda>n. 1 \<le> n \<and> n \<le> 31) ds"
    and "list_all (\<lambda>n. 1 \<le> n \<and> n \<le> 12) mos" "list_all (\<lambda>n. n \<le> 7) ws"
  shows "parse_five_field_cron (schedule_text [ms, hs, ds, mos, ws]) =
    Some (empty_pattern\<lparr>minute := listed 60 0 ms, hour := listed 24 0 hs, day := listed 31 1 ds, month := listed 12 1 mos,
      day_of_week := listed_week ws\<rparr>)"
proof -
  have ne: "ms \<noteq> []" "hs \<noteq> []" "ds \<noteq> []" "mos \<noteq> []" "ws \<noteq> []" using assms(1) by auto
  let ?p1 = "empty_pattern\<lparr>minute := listed 60 0 ms\<rparr>"
  let ?p2 = "?p1\<lparr>hour := listed 24 0 hs\<rparr>"
  let ?p3 = "?p2\<lparr>day := listed 31 1 ds\<rparr>"
  let ?p4 = "?p3\<lparr>month := listed 12 1 mos\<rparr>"
  have wf: "wf_pattern ?p1" "wf_pattern ?p2" "wf_pattern ?p3" "wf_pattern ?p4"
    by (simp_all add: wf_pattern_def empty_pattern_def listed_def list_all_iff)
  have "read_part empty_pattern Minute (listing ms) = Inr ?p1"
    using read_listings(1) [OF wf_flags(1) assms(2)] read_part_listing [OF ne(1)]
    by (simp add: empty_pattern_def listed_fold(1) [OF assms(2)])
  moreover have "read_part ?p1 Hour (listing hs) = Inr ?p2"
    using read_listings(2) [OF wf(1) assms(3)] read_part_listing [OF ne(2)]
    by (simp add: empty_pattern_def listed_fold(1) [OF assms(3)])
  moreover have "read_part ?p2 Day (listing ds) = Inr ?p3"
    using read_listings(3) [OF wf(2) assms(4)] read_part_listing [OF ne(3)]
    by (simp add: empty_pattern_def listed_fold(2) [OF assms(4), simplified])
  moreover have "read_part ?p3 Month (listing mos) = Inr ?p4"
    using read_listings(4) [OF wf(3) assms(5)] read_part_listing [OF ne(4)]
    by (simp add: empty_pattern_def listed_fold(2) [OF assms(5), simplified])
  moreover have "read_part ?p4 DayOfWeek (listing ws) = Inr (?p4\<lparr>day_of_week := listed_week ws\<rparr>)"
    using read_listings(5) [OF wf(4) assms(6)] read_part_listing [OF ne(5)]
    by (simp add: empty_pattern_def listed_fold(3) [OF assms(6)])
  ultimately have "cron_parse (listing ms) (listing hs) (listing ds) (listing mos) (listing ws)
      = Inr (?p4\<lparr>day_of_week := listed_week ws\<rparr>)"
    using cron_parse_plain [of "listing ms" "listing hs" "listing ds" "listing mos" "listing ws"]
    by (simp only: list.pred_inject listing_plain and_then_Inr simp_thms)
  then show ?thesis
    using split_schedule [of "[ms, hs, ds, mos, ws]"] ne by (simp add: parse_five_field_cron_def listing_not_Nil)
qed

theorem schedule_reads_back_witness:
  "parse_five_field_cron (schedule_text [[0, 30], [4], [1], [1, 7], [7]]) =
    Some (empty_pattern\<lparr>minute := listed 60 0 [0, 30], hour := listed 24 0 [4], day := listed 31 1 [1],
      month := listed 12 1 [1, 7], day_of_week := listed_week [7]\<rparr>)"
  using schedule_reads_back [of "[0, 30]" "[4]" "[1]" "[1, 7]" "[7]"] by simp

text \<open>C32: A schedule that is accepted has arrays of the declared lengths, whose week masks stay within the six weeks,
  each of its five fields names something, and every day it runs on has a first run.\<close>

theorem accepted_schedule_runs:
  assumes "parse_five_field_cron value = Some p"
  shows "wf_pattern p \<and> list_all (named p) [Minute, Hour, Day, Month, DayOfWeek] \<and> first_run_of_day p 0 \<noteq> None"
proof -
  have p: "wf_pattern p" "named p Minute" "named p Hour" "named p Day" "named p Month" "named p DayOfWeek"
    using assms cron_parse_ok by (auto simp: parse_five_field_cron_def split: list.split_asm sum.split_asm)
  then show ?thesis using first_run_of_named [OF p(1-3)] by simp
qed

theorem accepted_schedule_runs_witness:
  "case parse_five_field_cron ''0 4 1W 1 */2'' of
     None \<Rightarrow> False
   | Some p \<Rightarrow> wf_pattern p \<and> named p Minute \<and> named p Hour \<and> named p Day \<and> named p Month \<and> named p DayOfWeek
       \<and> first_run_of_day p 0 \<noteq> None"
proof -
  have "split_spaces [] ''0 4 1W 1 */2'' = [''0'', ''4'', ''1W'', ''1'', ''*/2'']"
    by (simp add: split_spaces_visible split_spaces_space split_spaces_Nil visible_def)
  moreover have "is_ok (cron_parse ''0'' ''4'' ''1W'' ''1'' ''*/2'')" by code_simp
  ultimately have "parse_five_field_cron ''0 4 1W 1 */2'' \<noteq> None"
    by (auto simp: parse_five_field_cron_def is_ok_def split: sum.splits)
  then obtain p where p: "parse_five_field_cron ''0 4 1W 1 */2'' = Some p" by blast
  show ?thesis using accepted_schedule_runs [OF p] unfolding p by simp
qed

text \<open>C26: The search for the next run always ends: from any moment before the last year it answers with the
  first minute after it at which the schedule runs, or, when there is none before the last year, with nothing.
  What it relies on of calendar dates is the locale \<open>calendar\<close>, which holds of the Gregorian calendar.\<close>

theorem next_run_found:
  assumes "calendar cal num valid" "valid d" "c_year cal d < LAST_YEAR" "s < 86400"
  shows "\<exists>r. next_after cal p (d, s) = Some r \<and> least_run cal num valid p (moment num d (s div 60) + 1) r"
  by (rule calendar.next_after_finds [OF assms])

theorem next_run_found_witness:
  "\<exists>r. next_after gregorian (empty_pattern\<lparr>minute := replicate 60 True\<rparr>) ((2026, 1, 31), 86399) = Some r
    \<and> least_run gregorian day_number valid_ymd (empty_pattern\<lparr>minute := replicate 60 True\<rparr>)
        (moment day_number (2026, 1, 31) 1439 + 1) r"
  using next_run_found [OF greg.calendar_axioms, of "(2026, 1, 31)" 86399]
  by (simp add: valid_ymd_def month_len_def gregorian_def LAST_YEAR_def)

end
