(* ===== verification/LazyTools.thy ===== *)
theory LazyTools
  imports Approvals CallLog ClientIp Cron
begin

text \<open>
  The names and the search of tools: the slug of an MCP (\<open>crates/core/src/models/mcp.rs\<close>), the names of the eager
  gateway (\<open>crates/upstream/src/manager.rs\<close>, \<open>validators.rs\<close>), and the lazy gateway
  (\<open>crates/gateway/src/lazy_tools.rs\<close>, \<open>validators/gateway.rs\<close>). The lower case of a text and the collation of
  names come from Unicode tables and are parameters.
\<close>

section \<open>Texts\<close>

definition starts_with :: "string \<Rightarrow> string \<Rightarrow> bool" where
  "starts_with s w \<longleftrightarrow> take (length w) s = w"

fun find_text :: "string \<Rightarrow> string \<Rightarrow> nat option" where
  "find_text w [] = (if w = [] then Some 0 else None)"
| "find_text w (c # s) = (if starts_with (c # s) w then Some 0 else map_option Suc (find_text w s))"

definition contains_text :: "string \<Rightarrow> string \<Rightarrow> bool" where
  "contains_text s w \<longleftrightarrow> find_text w s \<noteq> None"

section \<open>Slugs and names of tools\<close>

definition slug_letter :: "char \<Rightarrow> bool" where
  "slug_letter c \<longleftrightarrow> (let b = (of_char c :: nat) in 97 \<le> b \<and> b \<le> 122) \<or> is_digit_char c"

fun slug_chars :: "string \<Rightarrow> bool \<Rightarrow> string \<Rightarrow> string" where
  "slug_chars slug pending_dash [] = slug"
| "slug_chars slug pending_dash (c # s) =
     (if slug_letter c then slug_chars ((if pending_dash \<and> slug \<noteq> [] then slug @ ''-'' else slug) @ [c]) False s
      else slug_chars slug True s)"

text \<open>Byte by byte, which is character by character: every byte of a character outside ASCII is no letter of a slug.\<close>

definition slugify :: "(string \<Rightarrow> string) \<Rightarrow> string \<Rightarrow> string" where
  "slugify lowercase name =
     (let slug = take 80 (slug_chars [] False (str_trim (lowercase name))) in if slug = [] then ''mcp'' else slug)"

definition namespace_tool :: "string \<Rightarrow> string \<Rightarrow> string" where
  "namespace_tool slug name = slug @ ''__'' @ name"

definition has_slug_and_separator :: "string \<Rightarrow> bool" where
  "has_slug_and_separator name \<longleftrightarrow>
     (let first = (case chars name of [] \<Rightarrow> 0 | c # _ \<Rightarrow> length c) in
      \<not> starts_with name ''__'' \<and> contains_text (drop first name) ''__'')"

definition parse_namespaced_tool :: "string \<Rightarrow> (string \<times> string) option" where
  "parse_namespaced_tool name =
     (if has_slug_and_separator name then
        (let separator = (case find_text ''__'' name of None \<Rightarrow> 0 | Some i \<Rightarrow> i) in
         Some (take separator name, drop (separator + 2) name))
      else None)"

section \<open>The mode of a request\<close>

definition mode_parse_gateway :: "string \<Rightarrow> GatewayToolMode option" where
  "mode_parse_gateway value = (if value = ''eager'' then Some Eager else if value = ''lazy'' then Some Lazy else None)"

definition parse_gateway_tool_mode :: "(string \<Rightarrow> string) \<Rightarrow> string option \<Rightarrow> GatewayToolMode \<Rightarrow> GatewayToolMode option" where
  "parse_gateway_tool_mode lowercase value default_mode =
     (case value of
        None \<Rightarrow> Some default_mode
      | Some header \<Rightarrow>
          (let mode = lowercase (trim header) in
           if mode = [] then Some default_mode else mode_parse_gateway mode))"

section \<open>The catalog\<close>

record McpCatalogEntry =
  ce_name :: string
  ce_slug :: string
  ce_description :: "string option"
  ce_status :: McpStatus

definition catalog_entry :: "Mcp \<Rightarrow> McpCatalogEntry" where
  "catalog_entry mcp =
     \<lparr>ce_name = mcp_name mcp, ce_slug = mcp_slug mcp, ce_description = mcp_description mcp, ce_status = mcp_status mcp\<rparr>"

definition mcp_catalog :: "Mcp list \<Rightarrow> McpCatalogEntry list" where
  "mcp_catalog ms = map catalog_entry ms"

definition single_line :: "string \<Rightarrow> string" where
  "single_line value = join_with '' '' (filter (\<lambda>w. w \<noteq> []) (split_spaces [] value))"

definition instruction_line :: "McpCatalogEntry \<Rightarrow> string" where
  "instruction_line mcp =
     ''- '' @ ce_slug mcp @ '': '' @
     (case non_empty (ce_description mcp) of Some d \<Rightarrow> single_line d | None \<Rightarrow> single_line (ce_name mcp))"

definition lazy_gateway_instructions :: "Mcp list \<Rightarrow> string" where
  "lazy_gateway_instructions ms =
     (let catalog = mcp_catalog ms in
      join_with [CHR 0x0A]
        ([''Available MCPs:''] @ (if catalog = [] then [''- None available for this access token.''] else [])
         @ map instruction_line catalog @ [[],
         ''Use list_mcps to get the up-to-date catalog, then tool_search to discover an MCP'' @ [CHR 0x27] @ ''s tools.'']))"

section \<open>Arguments of the lazy tools\<close>

text \<open>A string argument as the validators read it: trimmed, not blank, and not too long in UTF-16 units.\<close>

definition text_argument :: "nat \<Rightarrow> (string \<times> Value) list \<Rightarrow> string \<Rightarrow> string option" where
  "text_argument limit args name =
     (case json_get args name of
        Some (JString s) \<Rightarrow> (let t = trim s in if 1 \<le> utf16_len t \<and> utf16_len t \<le> limit then Some t else None)
      | _ \<Rightarrow> None)"

definition limit_argument :: "(string \<times> Value) list \<Rightarrow> nat option" where
  "limit_argument args =
     (case json_get args ''limit'' of
        None \<Rightarrow> Some 10
      | Some (JNumber n) \<Rightarrow> if 1 \<le> n \<and> n \<le> 20 then Some (nat n) else None
      | Some _ \<Rightarrow> None)"

record ToolSearchInput =
  ts_mcp :: string
  ts_query :: string
  ts_limit :: nat

definition args_or_none :: "(string \<times> Value) list option \<Rightarrow> (string \<times> Value) list" where
  "args_or_none args = (case args of None \<Rightarrow> [] | Some a \<Rightarrow> a)"

definition parse_tool_search_input :: "(string \<times> Value) list option \<Rightarrow> (string, ToolSearchInput) result" where
  "parse_tool_search_input args =
     (let a = args_or_none args in
      case text_argument 120 a ''mcp'' of
        None \<Rightarrow> Inl ''mcp must be a non-empty MCP slug of at most 120 characters''
      | Some m \<Rightarrow>
          (case text_argument 200 a ''query'' of
             None \<Rightarrow> Inl ''query must be non-empty and at most 200 characters''
           | Some q \<Rightarrow>
               (case limit_argument a of
                  None \<Rightarrow> Inl ''limit must be an integer between 1 and 20''
                | Some l \<Rightarrow> Inr \<lparr>ts_mcp = m, ts_query = q, ts_limit = l\<rparr>)))"

record CallToolInput =
  ct_mcp :: string
  ct_tool :: string
  ct_arguments :: "(string \<times> Value) list option"

definition parse_call_tool_input :: "(string \<times> Value) list option \<Rightarrow> (string, CallToolInput) result" where
  "parse_call_tool_input args =
     (let a = args_or_none args in
      case text_argument 120 a ''mcp'' of
        None \<Rightarrow> Inl ''mcp must be a non-empty MCP slug of at most 120 characters''
      | Some m \<Rightarrow>
          (case text_argument 128 a ''tool'' of
             None \<Rightarrow> Inl ''tool must be a non-empty upstream tool name of at most 128 characters''
           | Some t \<Rightarrow>
               (case json_get a ''arguments'' of
                  None \<Rightarrow> Inr \<lparr>ct_mcp = m, ct_tool = t, ct_arguments = None\<rparr>
                | Some (JObject members) \<Rightarrow> Inr \<lparr>ct_mcp = m, ct_tool = t, ct_arguments = Some members\<rparr>
                | Some _ \<Rightarrow> Inl ''arguments must be an object when provided'')))"

section \<open>Searching tools\<close>

definition search_letter :: "char \<Rightarrow> bool" where
  "search_letter c \<longleftrightarrow> slug_letter c"

fun split_letters :: "string \<Rightarrow> string \<Rightarrow> string list" where
  "split_letters word [] = [word]"
| "split_letters word (c # s) = (if search_letter c then split_letters (word @ [c]) s else word # split_letters [] s)"

definition search_tokens :: "(string \<Rightarrow> string) \<Rightarrow> string \<Rightarrow> string list" where
  "search_tokens lowercase asked = filter (\<lambda>t. t \<noteq> []) (split_letters [] (lowercase asked))"

definition token_score :: "string \<Rightarrow> string \<Rightarrow> string \<Rightarrow> nat" where
  "token_score name description token =
     (if name = token then 100 else if contains_text name token then 50 else 0)
     + (if contains_text description token then 10 else 0)"

definition tool_search_score :: "(string \<Rightarrow> string) \<Rightarrow> UpstreamTool \<Rightarrow> string \<Rightarrow> string list \<Rightarrow> nat" where
  "tool_search_score lowercase tool normalized_query tokens =
     (let name = lowercase (tool_name tool);
          description = lowercase (case tool_description tool of None \<Rightarrow> [] | Some d \<Rightarrow> d) in
      (if name = normalized_query then 1000 else if starts_with name normalized_query then 600
       else if contains_text name normalized_query then 400 else 0)
      + (if contains_text description normalized_query then 200 else 0)
      + sum_list (map (token_score name description) tokens))"

text \<open>\<open>before\<close> is the collation: the better score first, then the name. The sort is stable.\<close>

definition ranks_before :: "(string \<Rightarrow> string \<Rightarrow> bool) \<Rightarrow> UpstreamTool \<times> nat \<Rightarrow> UpstreamTool \<times> nat \<Rightarrow> bool" where
  "ranks_before before x y \<longleftrightarrow> snd y < snd x \<or> snd x = snd y \<and> before (tool_name (fst x)) (tool_name (fst y))"

fun insert_ranked :: "('a \<Rightarrow> 'a \<Rightarrow> bool) \<Rightarrow> 'a \<Rightarrow> 'a list \<Rightarrow> 'a list" where
  "insert_ranked before' x [] = [x]"
| "insert_ranked before' x (y # ys) = (if before' y x then y # insert_ranked before' x ys else x # y # ys)"

definition sort_ranked :: "('a \<Rightarrow> 'a \<Rightarrow> bool) \<Rightarrow> 'a list \<Rightarrow> 'a list" where
  "sort_ranked before' xs = foldr (insert_ranked before') xs []"

text \<open>The order of names without a collator: that of their bytes.\<close>

fun bytes_before :: "string \<Rightarrow> string \<Rightarrow> bool" where
  "bytes_before _ [] = False"
| "bytes_before [] (y # ys) = True"
| "bytes_before (x # xs) (y # ys) = (if x = y then bytes_before xs ys else (of_char x :: nat) < of_char y)"

definition search_upstream_tools ::
  "(string \<Rightarrow> string) \<Rightarrow> (string \<Rightarrow> string \<Rightarrow> bool) \<Rightarrow> UpstreamTool list \<Rightarrow> string \<Rightarrow> nat \<Rightarrow> UpstreamTool list" where
  "search_upstream_tools lowercase before tools asked limit =
     (let tokens = search_tokens lowercase asked;
          normalized_query = lowercase asked;
          matches = filter (\<lambda>m. snd m > 0) (map (\<lambda>t. (t, tool_search_score lowercase t normalized_query tokens)) tools) in
      map fst (take limit (sort_ranked (ranks_before before) matches)))"

section \<open>Names lead back\<close>

lemma slug_chars_ok: "list_all slug_char slug \<Longrightarrow> list_all slug_char (slug_chars slug pending_dash s)"
  by (induction s arbitrary: slug pending_dash) (auto simp: slug_char_def slug_letter_def)

lemma slugify_slug: "list_all slug_char (slugify lowercase name) \<and> slugify lowercase name \<noteq> []"
proof -
  have "list_all slug_char (take 80 (slug_chars [] False s))" for s
    using slug_chars_ok [of "[]" False s] by (auto simp: list_all_iff dest: in_set_takeD)
  then show ?thesis by (simp add: slugify_def Let_def slug_char_def)
qed

lemma slug_char_code: "slug_char c \<Longrightarrow> (of_char c :: nat) \<noteq> 95 \<and> (of_char c :: nat) < 128"
  by (auto simp: slug_char_def is_digit_char_def Let_def)

lemma slug_char_plain: "slug_char c \<Longrightarrow> c \<noteq> CHR ''_'' \<and> \<not> continues c"
  using slug_char_code [of c] by (auto simp: continues_def)

lemma find_text_after: "list_all slug_char slug \<Longrightarrow> find_text ''__'' (slug @ ''__'' @ name) = Some (length slug)"
proof (induction slug)
  case Nil
  then show ?case by (simp add: starts_with_def)
next
  case (Cons c slug)
  then have "\<not> starts_with (c # slug @ ''__'' @ name) ''__''" using slug_char_plain [of c] by (auto simp: starts_with_def)
  then show ?case using Cons by simp
qed

lemma chars_ascii:
  assumes "s = [] \<or> \<not> continues (hd s)"
  shows "chars (c # s) = [c] # chars s"
proof (cases "chars s")
  case (Cons w ws)
  then have "s \<noteq> []" by auto
  have "hd (hd (chars s)) = hd s" using Cons by (cases s) (auto split: list.split_asm if_split_asm)
  then show ?thesis using assms Cons \<open>s \<noteq> []\<close> by simp
qed simp

lemma parse_namespaced:
  assumes "list_all slug_char slug" "slug \<noteq> []"
  shows "parse_namespaced_tool (namespace_tool slug name) = Some (slug, name)"
proof -
  obtain c rest where slug: "slug = c # rest" using assms(2) by (cases slug) auto
  have "\<not> continues (hd (rest @ ''__'' @ name))"
    using assms(1) slug_char_plain by (cases rest) (auto simp: slug continues_def)
  then have "chars (slug @ ''__'' @ name) = [c] # chars (rest @ ''__'' @ name)" using chars_ascii [of "rest @ ''__'' @ name" c] by (simp add: slug)
  moreover have "\<not> starts_with (slug @ ''__'' @ name) ''__''"
    using assms(1) slug_char_plain [of c] by (auto simp: slug starts_with_def)
  moreover have "contains_text (rest @ ''__'' @ name) ''__''"
    using find_text_after [of rest name] assms(1) by (simp add: slug contains_text_def)
  ultimately have "has_slug_and_separator (slug @ ''__'' @ name)" by (simp add: has_slug_and_separator_def Let_def slug)
  then show ?thesis using find_text_after [OF assms(1), of name] by (simp add: parse_namespaced_tool_def namespace_tool_def Let_def)
qed

text \<open>A tool of the eager gateway is called by the name it is listed under: split at its separator, the name gives
  back the slug of the MCP, whatever name the MCP had when the slug was made of it, and the tool's own
  name, whatever that is.\<close>

theorem tool_name_round_trip:
  "parse_namespaced_tool (namespace_tool (slugify lowercase mcp) tool) = Some (slugify lowercase mcp, tool)"
  using slugify_slug by (blast intro: parse_namespaced)

section \<open>The best tools first\<close>

text \<open>What is relied on of a collation.\<close>

locale collation =
  fixes before :: "string \<Rightarrow> string \<Rightarrow> bool"
  assumes before_asym: "before x y \<Longrightarrow> \<not> before y x"
    and before_negtrans: "\<not> before y x \<Longrightarrow> \<not> before z y \<Longrightarrow> \<not> before z x"
begin

lemma ranks_asym: "ranks_before before x y \<Longrightarrow> \<not> ranks_before before y x"
  using before_asym by (auto simp: ranks_before_def)

lemma ranks_negtrans: "\<not> ranks_before before y x \<Longrightarrow> \<not> ranks_before before z y \<Longrightarrow> \<not> ranks_before before z x"
  using before_negtrans by (auto simp: ranks_before_def)

lemma insert_ranked_set: "set (insert_ranked before' x ys) = insert x (set ys)"
  by (induction ys) auto

lemma sort_ranked_set: "set (sort_ranked before' xs) = set xs"
  by (induction xs) (auto simp: sort_ranked_def insert_ranked_set)

lemma insert_ranked_sorted:
  "sorted_wrt (\<lambda>a b. \<not> ranks_before before b a) ys \<Longrightarrow>
    sorted_wrt (\<lambda>a b. \<not> ranks_before before b a) (insert_ranked (ranks_before before) x ys)"
proof (induction ys)
  case (Cons y ys)
  show ?case
  proof (cases "ranks_before before y x")
    case True
    then show ?thesis using Cons ranks_asym by (auto simp: insert_ranked_set)
  next
    case False
    then show ?thesis using Cons.prems ranks_negtrans by (auto; blast)
  qed
qed simp

lemma sort_ranked_sorted: "sorted_wrt (\<lambda>a b. \<not> ranks_before before b a) (sort_ranked (ranks_before before) xs)"
  by (induction xs) (auto simp: sort_ranked_def insert_ranked_sorted)

lemma search_ranked:
  fixes lowercase tools asked limit
  defines "score \<equiv> \<lambda>t. tool_search_score lowercase t (lowercase asked) (search_tokens lowercase asked)"
  shows "length (search_upstream_tools lowercase before tools asked limit) \<le> limit
    \<and> sorted_wrt (\<lambda>x y. \<not> ranks_before before (y, score y) (x, score x)) (search_upstream_tools lowercase before tools asked limit)
    \<and> (\<forall>t \<in> set (search_upstream_tools lowercase before tools asked limit). t \<in> set tools \<and> 0 < score t)
    \<and> (\<forall>t \<in> set tools. 0 < score t \<longrightarrow> t \<notin> set (search_upstream_tools lowercase before tools asked limit) \<longrightarrow>
        length (search_upstream_tools lowercase before tools asked limit) = limit
        \<and> (\<forall>x \<in> set (search_upstream_tools lowercase before tools asked limit). \<not> ranks_before before (t, score t) (x, score x)))"
proof -
  let ?found = "filter (\<lambda>m. 0 < snd m) (map (\<lambda>t. (t, score t)) tools)"
  define r where "r = sort_ranked (ranks_before before) ?found"
  have res: "search_upstream_tools lowercase before tools asked limit = map fst (take limit r)"
    by (simp add: search_upstream_tools_def score_def r_def Let_def)
  have in_r: "set r = {(t, score t) | t. t \<in> set tools \<and> 0 < score t}" unfolding r_def sort_ranked_set by auto
  have sorted: "sorted_wrt (\<lambda>a b. \<not> ranks_before before b a) r" unfolding r_def by (rule sort_ranked_sorted)
  have pair: "m = (fst m, score (fst m))" if "m \<in> set r" for m using that in_r by auto
  have "sorted_wrt (\<lambda>a b. \<not> ranks_before before b a) (take limit r)" using sorted by (rule sorted_wrt_take)
  then have "sorted_wrt (\<lambda>a b. \<not> ranks_before before (fst b, score (fst b)) (fst a, score (fst a))) (take limit r)"
    by (rule sorted_wrt_mono_rel [rotated]) (metis in_set_takeD pair)
  then have in_order: "sorted_wrt (\<lambda>x y. \<not> ranks_before before (y, score y) (x, score x)) (map fst (take limit r))"
    by (simp add: sorted_wrt_map)
  have left_out: "limit < length r \<and> (\<forall>x \<in> set (take limit r). \<not> ranks_before before (t, score t) x)"
    if "t \<in> set tools" "0 < score t" "t \<notin> fst ` set (take limit r)" for t
  proof -
    have "(t, score t) \<in> set r" "(t, score t) \<notin> set (take limit r)" using that in_r by force+
    then have d: "(t, score t) \<in> set (drop limit r)" by (metis Un_iff append_take_drop_id set_append)
    have "sorted_wrt (\<lambda>a b. \<not> ranks_before before b a) (take limit r @ drop limit r)" using sorted by simp
    then have "\<forall>x \<in> set (take limit r). \<not> ranks_before before (t, score t) x" using d unfolding sorted_wrt_append by blast
    moreover have "drop limit r \<noteq> []" using d by auto
    ultimately show ?thesis by simp
  qed
  have of_tools: "t \<in> set tools \<and> 0 < score t" if t: "t \<in> set (map fst (take limit r))" for t
  proof -
    obtain m where "m \<in> set r" "t = fst m" using t by (auto dest: in_set_takeD)
    then show ?thesis using in_r by auto
  qed
  have not_better: "\<not> ranks_before before (t, score t) (x, score x)"
    if t: "t \<in> set tools" "0 < score t" "t \<notin> set (map fst (take limit r))" "x \<in> set (map fst (take limit r))" for t x
  proof -
    obtain m where m: "m \<in> set (take limit r)" "x = fst m" using t(4) by auto
    have "m = (x, score x)" using pair [of m] m by (auto dest: in_set_takeD)
    then show ?thesis using left_out [of t] t m(1) by simp
  qed
  have full: "length (map fst (take limit r)) = limit" if "t \<in> set tools" "0 < score t" "t \<notin> set (map fst (take limit r))" for t
    using left_out [of t] that by simp
  show ?thesis
    unfolding res using in_order of_tools not_better full by (intro conjI ballI impI) (simp_all only: length_map length_take min.cobounded2)
qed

end

interpretation byte_order: collation bytes_before
proof
  show "bytes_before x y \<Longrightarrow> \<not> bytes_before y x" for x y
    by (induction x y rule: bytes_before.induct) (auto split: if_split_asm)
  show "\<not> bytes_before y x \<Longrightarrow> \<not> bytes_before z y \<Longrightarrow> \<not> bytes_before z x" for x y z
  proof (induction z x arbitrary: y rule: bytes_before.induct)
    case (2 b bs)
    then show ?case by (cases y) auto
  next
    case (3 c cs b bs)
    then show ?case by (cases y) (auto split: if_split_asm)
  qed auto
qed

text \<open>A search for tools answers with at most as many as were asked for, every one of them matches the query, the
  better score stands first and of equal scores the earlier name, and a matching tool is only left out
  when enough others rank no worse.\<close>

theorem search_best_first:
  fixes lowercase tools asked limit before
  defines "score \<equiv> \<lambda>t. tool_search_score lowercase t (lowercase asked) (search_tokens lowercase asked)"
    and "found \<equiv> search_upstream_tools lowercase before tools asked limit"
  assumes "collation before"
  shows "length found \<le> limit \<and> sorted_wrt (\<lambda>x y. \<not> ranks_before before (y, score y) (x, score x)) found
    \<and> (\<forall>t \<in> set found. t \<in> set tools \<and> 0 < score t)
    \<and> (\<forall>t \<in> set tools. 0 < score t \<longrightarrow> t \<notin> set found \<longrightarrow>
        length found = limit \<and> (\<forall>x \<in> set found. \<not> ranks_before before (t, score t) (x, score x)))"
  unfolding score_def found_def using assms(3) by (rule collation.search_ranked)

definition sample_tools :: "UpstreamTool list" where
  "sample_tools = [\<lparr>tool_name = ''send_mail'', tool_description = Some ''sends'', tool_input_schema = JNull\<rparr>,
     \<lparr>tool_name = ''mail'', tool_description = None, tool_input_schema = JNull\<rparr>]"

theorem search_best_first_witness:
  "length (search_upstream_tools id bytes_before sample_tools ''mail'' 1) \<le> 1"
  using search_best_first [OF byte_order.collation_axioms, of id sample_tools "''mail''" 1] by blast

end
