(* ===== verification/Endpoint.thy ===== *)
theory Endpoint
  imports Bearer LazyTools
begin

text \<open>
  What \<open>/mcp\<close> does with a tool call: \<open>crates/gateway/src/endpoint.rs\<close>, with who may use the tools of the registry
  (\<open>crates/gateway/src/mcp_management.rs\<close>). A session is the access token of a request and the MCPs it
  may use; a call goes through the gate of the approvals to its MCP, and is recorded. What an MCP answers,
  what a registry tool does, JSON texts and clock readings are parameters, gathered in a record.
\<close>

section \<open>Results\<close>

definition text_content :: "string \<Rightarrow> Value" where
  "text_content t = JArray [JObject [(''type'', JString ''text''), (''text'', JString t)]]"

definition error_result :: "string \<Rightarrow> Value" where
  "error_result t = JObject [(''content'', text_content t), (''isError'', JBool True)]"

definition structured_result :: "(Value \<Rightarrow> string) \<Rightarrow> Value \<Rightarrow> Value" where
  "structured_result stringify content =
     JObject [(''content'', text_content (stringify content)), (''structuredContent'', content)]"

definition result_is_error :: "Value \<Rightarrow> bool" where
  "result_is_error v = (case v of JObject members \<Rightarrow> json_get members ''isError'' = Some (JBool True) | _ \<Rightarrow> False)"

section \<open>Held calls\<close>

record HeldCall =
  held_category :: CallErrorCategory
  held_reason :: string
  held_result :: Value

definition held_call :: "CallErrorCategory \<Rightarrow> string \<Rightarrow> string \<Rightarrow> HeldCall" where
  "held_call category reason t = \<lparr>held_category = category, held_reason = reason, held_result = error_result t\<rparr>"

text \<open>The address of a request, when the instance knows its own.\<close>

definition approval_url :: "string option \<Rightarrow> ApprovalRequest \<Rightarrow> string option" where
  "approval_url site r = map_option (\<lambda>u. u @ ''/approvals/'' @ public_id r) site"

definition waiting_call :: "string option \<Rightarrow> (int \<Rightarrow> string) \<Rightarrow> ApprovalRequest \<Rightarrow> string \<Rightarrow> Mcp \<Rightarrow> bool \<Rightarrow> HeldCall" where
  "waiting_call site format_time r tool mcp is_new =
     (case approval_url site r of
        None \<Rightarrow> held_call ApprovalRequired ''Approval links need APP_URL''
          (tool @ '' on '' @ mcp_name mcp @ '' needs the approval of a person, and it was not run. There is no link to give them, because this MyMCPs instance does not know its public address (APP_URL): ask them to open the Approvals page of MyMCPs and decide the call there, then call '' @ tool @ '' again with exactly the same arguments.'')
      | Some url \<Rightarrow>
          held_call ApprovalRequired (if is_new then ''Waiting for approval'' else ''Still waiting for approval'')
            (join_with [CHR 0x0A]
               [(if is_new then ''Approval required'' else ''Still waiting for approval'') @ '': '' @ tool @ '' on '' @ mcp_name mcp @ '' was not run.'',
                ''A person has to approve this exact call in MyMCPs first. Give them this link: '' @ url,
                ''They sign in, read what the call would do, and approve or deny it. The link works until '' @ format_time (ar_expires_at r) @ ''.'',
                ''Once they have approved, call '' @ tool @ '' again with exactly the same arguments and it runs. Other arguments are another call, which needs its own approval.'']))"

text \<open>What the gate says of a call, as the agent reads it; \<open>None\<close> when the call may run.\<close>

definition held_of :: "string option \<Rightarrow> (int \<Rightarrow> string) \<Rightarrow> string \<Rightarrow> Mcp \<Rightarrow> ApprovalGate \<Rightarrow> HeldCall option" where
  "held_of site format_time tool mcp g =
     (case g of
        Open \<Rightarrow> None
      | HeldDenied \<Rightarrow> Some (held_call ApprovalDenied ''A person denied this call''
          (''Denied: a person refused this call to '' @ tool @ '' on '' @ mcp_name mcp @ '' in MyMCPs, and it was not run. Do not make it again unless they ask you to.''))
      | HeldWaiting r is_new \<Rightarrow> Some (waiting_call site format_time r tool mcp is_new)
      | HeldRefused message \<Rightarrow> Some (held_call ToolError ''The call was refused before asking for approval'' message))"

section \<open>Sessions\<close>

record GatewaySession =
  ss_access_token :: AccessToken
  ss_mcps :: "Mcp list"
  ss_caller_ip :: "string option"
  ss_tool_mode :: GatewayToolMode
  ss_has_management :: bool

record ManagementActor =
  ma_user_id :: int
  ma_team_id :: int
  ma_access_token_id :: int

type_synonym json_args = "(string \<times> Value) list option"

text \<open>What an MCP answers to a call: its result, or an error and whether it is a timeout.\<close>

datatype upstream_answer = Answered Value | Failing string bool

text \<open>What leaves the gateway: a call to an MCP, a listing of one, a change of the registry.\<close>

datatype effect = Called Mcp string json_args | Probed Mcp | Managed ManagementActor string json_args

record GatewayState =
  gw_db :: db
  gw_log :: CallLogState
  gw_registry_limiter :: Limiter
  gw_tool_counts :: "int \<rightharpoonup> nat"
  gw_effects :: "effect list"

record call_env =
  ce_from_str :: "string \<Rightarrow> Value option"
  ce_asks :: "Mcp \<Rightarrow> string \<Rightarrow> bool"
  ce_approval :: approval_env
  ce_fresh :: string
  ce_read_at :: int
  ce_written_at :: int
  ce_read :: db
  ce_approval_error :: "approval_error \<Rightarrow> string"
  ce_app_url :: "string option"
  ce_format_time :: "int \<Rightarrow> string"
  ce_call :: "Mcp \<Rightarrow> string \<Rightarrow> json_args \<Rightarrow> Mcp \<times> upstream_answer"
  ce_probe :: "Mcp \<Rightarrow> Mcp \<times> (string, UpstreamTool list) result"
  ce_manage :: "ManagementActor \<Rightarrow> string \<Rightarrow> json_args \<Rightarrow> Value"
  ce_roles :: db
  ce_limiter_ms :: int
  ce_elapsed_ms :: int
  ce_runtime :: bool
  ce_stringify :: "Value \<Rightarrow> string"
  ce_lowercase :: "string \<Rightarrow> string"
  ce_before :: "string \<Rightarrow> string \<Rightarrow> bool"

definition session_mcp :: "GatewaySession \<Rightarrow> string \<Rightarrow> Mcp option" where
  "session_mcp s slug = find (\<lambda>m. mcp_slug m = slug) (rev (ss_mcps s))"

text \<open>What the record of a call starts from.\<close>

definition blank_input :: "AccessToken \<Rightarrow> McpCallLogInput" where
  "blank_input token =
     \<lparr>in_access_token = token, in_caller_ip = None, in_mcp = None, in_mcp_slug = None, in_requested_tool_name = [],
      in_tool_name = None, in_args = None, in_response = None, in_outcome = CallSuccess, in_error_category = None,
      in_error_summary = None, in_duration_ms = 0\<rparr>"

definition session_record :: "call_env \<Rightarrow> GatewaySession \<Rightarrow> McpCallLogInput \<Rightarrow> GatewayState \<Rightarrow> GatewayState" where
  "session_record e s input st =
     st\<lparr>gw_log := record_call (ce_runtime e)
         (input\<lparr>in_access_token := ss_access_token s, in_caller_ip := ss_caller_ip s, in_duration_ms := ce_elapsed_ms e\<rparr>) (gw_log st)\<rparr>"

definition record_error ::
  "call_env \<Rightarrow> GatewaySession \<Rightarrow> CallErrorCategory \<Rightarrow> string \<Rightarrow> McpCallLogInput \<Rightarrow> GatewayState \<Rightarrow> GatewayState" where
  "record_error e s category summary input st =
     session_record e s (input\<lparr>in_outcome := CallError, in_error_category := Some category, in_error_summary := Some summary\<rparr>) st"

definition emit :: "effect \<Rightarrow> GatewayState \<Rightarrow> GatewayState" where
  "emit x st = st\<lparr>gw_effects := gw_effects st @ [x]\<rparr>"

section \<open>Calling a tool\<close>

datatype Attempt = AttemptHeld HeldCall | AttemptRan Value

record Failure =
  fl_message :: string
  fl_for_agent :: bool

definition attempt_call :: "call_env \<Rightarrow> GatewaySession \<Rightarrow> Mcp \<Rightarrow> string \<Rightarrow> json_args \<Rightarrow> GatewayState \<Rightarrow> GatewayState \<times> Mcp \<times> (Failure, Attempt) result" where
  "attempt_call e s mcp tool args st =
     (case gate (ce_from_str e) (ce_asks e) (ce_approval e)
             \<lparr>gc_access_token = ss_access_token s, gc_mcp = mcp, gc_tool_name = tool, gc_args = args\<rparr>
             (ce_fresh e) (ce_read_at e) (ce_written_at e) (ce_read e) (gw_db st) of
        (d, Inl err) \<Rightarrow> (st\<lparr>gw_db := d\<rparr>, mcp, Inl \<lparr>fl_message = ce_approval_error e err, fl_for_agent = False\<rparr>)
      | (d, Inr g) \<Rightarrow>
          (case held_of (ce_app_url e) (ce_format_time e) tool mcp g of
             Some h \<Rightarrow> (st\<lparr>gw_db := d\<rparr>, mcp, Inr (AttemptHeld h))
           | None \<Rightarrow>
               (let st1 = emit (Called mcp tool args) (st\<lparr>gw_db := d\<rparr>) in
                case ce_call e mcp tool args of
                  (mcp1, Answered v) \<Rightarrow> (st1, mcp1, Inr (AttemptRan v))
                | (mcp1, Failing message timeout) \<Rightarrow> (st1, mcp1, Inl \<lparr>fl_message = message, fl_for_agent = timeout\<rparr>))))"

definition call_and_record ::
  "call_env \<Rightarrow> GatewaySession \<Rightarrow> Mcp \<Rightarrow> string \<Rightarrow> string \<Rightarrow> json_args \<Rightarrow> GatewayState \<Rightarrow> GatewayState \<times> Value" where
  "call_and_record e s mcp requested tool args st =
     (case attempt_call e s mcp tool args st of
        (st1, mcp1, outcome) \<Rightarrow>
          (let input = (blank_input (ss_access_token s))\<lparr>in_mcp := Some mcp1, in_requested_tool_name := requested,
                 in_tool_name := Some tool, in_args := map_option JObject args\<rparr> in
           case outcome of
             Inr (AttemptHeld h) \<Rightarrow>
               (record_error e s (held_category h) (held_reason h) (input\<lparr>in_response := Some (held_result h)\<rparr>) st1, held_result h)
           | Inr (AttemptRan v) \<Rightarrow>
               (let input = input\<lparr>in_response := Some v\<rparr> in
                (if result_is_error v then record_error e s ToolError ''Upstream tool returned an error'' input st1
                 else session_record e s (input\<lparr>in_outcome := CallSuccess\<rparr>) st1, v))
           | Inl failure \<Rightarrow>
               (record_error e s UpstreamException (fl_message failure) input st1,
                if fl_for_agent failure then error_result (fl_message failure) else error_result ''Upstream tool call failed'')))"

definition disallowed ::
  "call_env \<Rightarrow> GatewaySession \<Rightarrow> string \<Rightarrow> string \<Rightarrow> string \<Rightarrow> json_args \<Rightarrow> GatewayState \<Rightarrow> GatewayState \<times> Value" where
  "disallowed e s slug requested tool args st =
     (record_error e s DisallowedMcp ''MCP not allowed for this token''
        ((blank_input (ss_access_token s))\<lparr>in_mcp_slug := Some slug, in_requested_tool_name := requested, in_tool_name := Some tool,
           in_args := map_option JObject args\<rparr>) st,
      error_result ''MCP not allowed for this token'')"

definition call_namespaced_tool :: "call_env \<Rightarrow> GatewaySession \<Rightarrow> string \<Rightarrow> json_args \<Rightarrow> GatewayState \<Rightarrow> GatewayState \<times> Value" where
  "call_namespaced_tool e s requested args st =
     (case parse_namespaced_tool requested of
        None \<Rightarrow>
          (record_error e s InvalidTool ''Invalid tool name''
             ((blank_input (ss_access_token s))\<lparr>in_requested_tool_name := requested, in_args := map_option JObject args\<rparr>) st,
           error_result ''Invalid tool name'')
      | Some (slug, tool) \<Rightarrow>
          (case session_mcp s slug of
             None \<Rightarrow> disallowed e s slug requested tool args st
           | Some mcp \<Rightarrow> call_and_record e s mcp requested tool args st))"

definition status_text :: "McpStatus \<Rightarrow> string" where
  "status_text x = (case x of Draft \<Rightarrow> ''draft'' | Ready \<Rightarrow> ''ready'' | McpError \<Rightarrow> ''error'')"

definition entry_json :: "McpCatalogEntry \<Rightarrow> Value" where
  "entry_json c =
     JObject [(''name'', JString (ce_name c)), (''slug'', JString (ce_slug c)),
              (''description'', case ce_description c of None \<Rightarrow> JNull | Some d \<Rightarrow> JString d),
              (''status'', JString (status_text (ce_status c)))]"

definition tool_json :: "UpstreamTool \<Rightarrow> Value" where
  "tool_json t =
     JObject ([(''name'', JString (tool_name t))]
       @ (case tool_description t of None \<Rightarrow> [] | Some d \<Rightarrow> [(''description'', JString d)])
       @ [(''inputSchema'', tool_input_schema t)])"

text \<open>The tools an MCP has now. What it listed is counted; of one that cannot answer nothing is known.\<close>

definition probe :: "call_env \<Rightarrow> Mcp \<Rightarrow> GatewayState \<Rightarrow> GatewayState \<times> Mcp \<times> (string, UpstreamTool list) result" where
  "probe e mcp st =
     (case ce_probe e mcp of (mcp1, tools1) \<Rightarrow>
        (emit (Probed mcp) (st\<lparr>gw_tool_counts := (gw_tool_counts st)
           (mcp_id mcp1 := (case tools1 of Inr tools \<Rightarrow> Some (length tools) | Inl _ \<Rightarrow> None))\<rparr>), mcp1, tools1))"

definition search_tools :: "call_env \<Rightarrow> GatewaySession \<Rightarrow> json_args \<Rightarrow> GatewayState \<Rightarrow> GatewayState \<times> Value" where
  "search_tools e s args st =
     (case parse_tool_search_input args of
        Inl message \<Rightarrow> (st, error_result message)
      | Inr input \<Rightarrow>
          (case session_mcp s (ts_mcp input) of
             None \<Rightarrow> (st, error_result (''MCP '' @ QUOTE # ts_mcp input @ QUOTE # '' is not available to this access token''))
           | Some mcp \<Rightarrow>
               (case probe e mcp st of
                  (st1, mcp1, Inr tools) \<Rightarrow>
                    (let tools = with_approval_notes (ce_from_str e) (ce_asks e) mcp1 tools;
                         found = search_upstream_tools (ce_lowercase e) (ce_before e) tools (ts_query input) (ts_limit input) in
                     (st1, structured_result (ce_stringify e) (JObject [(''mcp'', entry_json (catalog_entry mcp1)),
                        (''query'', JString (ts_query input)), (''tools'', JArray (map tool_json found))])))
                | (st1, mcp1, Inl _) \<Rightarrow>
                    (st1, error_result (''Unable to search tools for MCP '' @ QUOTE # mcp_slug mcp1 @ [QUOTE])))))"

definition call_lazy_tool :: "call_env \<Rightarrow> GatewaySession \<Rightarrow> string \<Rightarrow> json_args \<Rightarrow> GatewayState \<Rightarrow> GatewayState \<times> Value" where
  "call_lazy_tool e s requested args st =
     (if requested = ''list_mcps'' then
        (st, structured_result (ce_stringify e) (JObject [(''mcps'', JArray (map entry_json (mcp_catalog (ss_mcps s))))]))
      else if requested = ''tool_search'' then search_tools e s args st
      else if requested = ''call_tool'' then
        (case parse_call_tool_input args of
           Inl message \<Rightarrow>
             (record_error e s InvalidTool message
                ((blank_input (ss_access_token s))\<lparr>in_requested_tool_name := requested, in_args := map_option JObject args\<rparr>) st,
              error_result message)
         | Inr input \<Rightarrow>
             (let target = namespace_tool (ct_mcp input) (ct_tool input) in
              case session_mcp s (ct_mcp input) of
                None \<Rightarrow> disallowed e s (ct_mcp input) target (ct_tool input) (ct_arguments input) st
              | Some mcp \<Rightarrow> call_and_record e s mcp target (ct_tool input) (ct_arguments input) st))
      else (st, error_result ''Invalid lazy gateway tool name''))"

section \<open>The tools of the registry\<close>

definition REGISTRY_TOOL_NAMES :: "string list" where
  "REGISTRY_TOOL_NAMES = [''mcp_registry_list'', ''mcp_registry_create'', ''mcp_registry_update'', ''mcp_registry_delete'',
     ''mcp_registry_test'', ''mcp_registry_auth_link'']"

definition is_registry_tool :: "string \<Rightarrow> bool" where
  "is_registry_tool name \<longleftrightarrow> name \<in> set REGISTRY_TOOL_NAMES"

datatype Permission = PermissionGranted | NoScope | NotAdmin

definition refusal :: "Permission \<Rightarrow> string" where
  "refusal p =
     (case p of
        PermissionGranted \<Rightarrow> []
      | NoScope \<Rightarrow> ''This access token is not allowed to manage MCPs. The person must reconnect this client and tick the permission to manage MCPs on the consent screen.''
      | NotAdmin \<Rightarrow> ''This access token is not allowed to manage MCPs: the person who connected this client is not an administrator or an owner of the team. An administrator or owner must reconnect it.'')"

definition permission_of :: "db \<Rightarrow> AccessToken \<Rightarrow> Permission" where
  "permission_of d token =
     (if \<not> grants_mcp_management token then NoScope
      else case role_of d (at_team_id token) (at_created_by token) of
        Some role \<Rightarrow> if is_admin role then PermissionGranted else NotAdmin
      | None \<Rightarrow> NotAdmin)"

definition call_registry_tool :: "call_env \<Rightarrow> GatewaySession \<Rightarrow> string \<Rightarrow> json_args \<Rightarrow> GatewayState \<Rightarrow> GatewayState \<times> Value" where
  "call_registry_tool e s name args st =
     (let token = ss_access_token s; permission = permission_of (ce_roles e) token in
      if permission \<noteq> PermissionGranted then (st, error_result (refusal permission))
      else
        (case consume (gw_registry_limiter st) (''mcp-registry:'' @ show_int (at_id token)) (ce_limiter_ms e) of
           (l, Inl (TooManyRequests response)) \<Rightarrow>
             (st\<lparr>gw_registry_limiter := l\<rparr>,
              error_result (''Too many calls to the MCP registry tools from this access token. Try again in '' @
                show_int (available_in_secs response) @ '' seconds.''))
         | (l, Inr _) \<Rightarrow>
             (let actor = \<lparr>ma_user_id = at_created_by token, ma_team_id = at_team_id token, ma_access_token_id = at_id token\<rparr> in
              (emit (Managed actor name args) (st\<lparr>gw_registry_limiter := l\<rparr>), ce_manage e actor name args))))"

definition call_tool :: "call_env \<Rightarrow> GatewaySession \<Rightarrow> string \<Rightarrow> json_args \<Rightarrow> GatewayState \<Rightarrow> GatewayState \<times> Value" where
  "call_tool e s name args st =
     (if is_registry_tool name \<and> ss_has_management s then call_registry_tool e s name args st
      else case ss_tool_mode s of
        Lazy \<Rightarrow> call_lazy_tool e s name args st
      | Eager \<Rightarrow> call_namespaced_tool e s name args st)"

section \<open>Listing tools\<close>

record NamespacedTool =
  nt_name :: string
  nt_description :: "string option"
  nt_input_schema :: Value
  nt_mcp_id :: int
  nt_mcp_slug :: string
  nt_namespaced_name :: string

definition namespaced :: "Mcp \<Rightarrow> UpstreamTool \<Rightarrow> NamespacedTool" where
  "namespaced mcp t =
     \<lparr>nt_name = tool_name t, nt_description = tool_description t, nt_input_schema = tool_input_schema t,
      nt_mcp_id = mcp_id mcp, nt_mcp_slug = mcp_slug mcp, nt_namespaced_name = namespace_tool (mcp_slug mcp) (tool_name t)\<rparr>"

text \<open>An MCP that cannot be listed is left out.\<close>

fun list_namespaced_tools :: "call_env \<Rightarrow> Mcp list \<Rightarrow> GatewayState \<Rightarrow> GatewayState \<times> NamespacedTool list" where
  "list_namespaced_tools e [] st = (st, [])"
| "list_namespaced_tools e (mcp # rest) st =
     (case probe e mcp st of (st1, mcp1, answer) \<Rightarrow>
        (let here = (case answer of
               Inr tools \<Rightarrow> map (namespaced mcp1) (with_approval_notes (ce_from_str e) (ce_asks e) mcp1 tools)
             | Inl _ \<Rightarrow> []);
             (st2, others) = list_namespaced_tools e rest st1 in
         (st2, here @ others)))"




section \<open>Requests\<close>

datatype gateway_answer = BadToolMode | RejectedBearer BearerRejection | Served GatewaySession "string option"

text \<open>What a request whose access token is known is served by, with the instructions of a lazy session.\<close>

definition handle_authenticated ::
  "(string \<Rightarrow> string) \<Rightarrow> BearerAccess \<Rightarrow> string option \<Rightarrow> string option \<Rightarrow> bool \<Rightarrow> InstanceSetting \<Rightarrow> gateway_answer" where
  "handle_authenticated lowercase access mode_header caller_ip management settings =
     (case parse_gateway_tool_mode lowercase mode_header (gateway_tool_mode settings) of
        None \<Rightarrow> BadToolMode
      | Some tool_mode \<Rightarrow>
          Served \<lparr>ss_access_token = ba_access_token access, ss_mcps = ba_allowed_mcps access, ss_caller_ip = caller_ip,
                  ss_tool_mode = tool_mode, ss_has_management = management\<rparr>
            (if tool_mode = Lazy then Some (lazy_gateway_instructions (ba_allowed_mcps access)) else None))"

text \<open>Header values are bytes, each read as a Latin-1 character and kept here as UTF-8. Header names are in lower case.\<close>

definition header_value :: "(string \<times> string) list \<Rightarrow> string \<Rightarrow> string option" where
  "header_value headers name =
     (case map (latin1 \<circ> snd) (filter (\<lambda>h. fst h = name) headers) of
        [] \<Rightarrow> None
      | first # others \<Rightarrow> Some (fold (\<lambda>value joined. joined @ '', '' @ value) others first))"

definition first_header_value :: "(string \<times> string) list \<Rightarrow> string \<Rightarrow> string option" where
  "first_header_value headers name = map_option latin1 (map_of headers name)"

definition TOOL_MODE_HEADER :: string where
  "TOOL_MODE_HEADER = ''x-mymcps-tool-mode''"

text \<open>The clean-ups that a request starts without waiting for them are steps of their own: \<open>prune_logs\<close> and
  \<open>prune_expired\<close>.\<close>

definition handle ::
  "(string \<Rightarrow> string) \<Rightarrow> (string \<Rightarrow> Url option) \<Rightarrow> (Url \<Rightarrow> string) \<Rightarrow> Config \<Rightarrow> (string \<Rightarrow> string) \<Rightarrow> (string \<times> string) list
     \<Rightarrow> string option \<Rightarrow> bool \<Rightarrow> InstanceSetting \<Rightarrow> int \<Rightarrow> int \<Rightarrow> Limiter \<Rightarrow> db \<Rightarrow> db \<Rightarrow> Limiter \<times> db \<times> gateway_answer" where
  "handle sha parse origin config lowercase headers caller_ip management settings now ms l d0 d =
     (case authenticate_bearer sha parse origin config (first_header_value headers ''authorization'') now ms l d0 d of
        (l1, d1, Inr access) \<Rightarrow>
          (l1, d1, handle_authenticated lowercase access (header_value headers TOOL_MODE_HEADER) caller_ip management settings)
      | (l1, d1, Inl rejection) \<Rightarrow> (l1, d1, RejectedBearer rejection))"

section \<open>What a call does\<close>

lemma held_of_None [simp]: "held_of site format_time tool mcp g = None \<longleftrightarrow> g = Open"
  by (cases g) (simp_all add: held_of_def)

lemma held_of_Open [simp]: "held_of site format_time tool mcp Open = None"
  by simp

text \<open>The gate of a call.\<close>

definition gate_of :: "call_env \<Rightarrow> GatewaySession \<Rightarrow> Mcp \<Rightarrow> string \<Rightarrow> json_args \<Rightarrow> db \<Rightarrow> db \<times> (approval_error, ApprovalGate) result" where
  "gate_of e s mcp tool args d =
     gate (ce_from_str e) (ce_asks e) (ce_approval e)
       \<lparr>gc_access_token = ss_access_token s, gc_mcp = mcp, gc_tool_name = tool, gc_args = args\<rparr>
       (ce_fresh e) (ce_read_at e) (ce_written_at e) (ce_read e) d"

text \<open>What a call leaves behind: at most one effect, which an open gate let through.\<close>

lemma attempt_call_cases:
  assumes "attempt_call e s mcp tool args st = (st1, mcp1, answer)"
  shows "gw_log st1 = gw_log st \<and>
     (gw_effects st1 = gw_effects st
        \<and> (\<exists>h m. answer = Inr (AttemptHeld h) \<or> answer = Inl \<lparr>fl_message = m, fl_for_agent = False\<rparr>)
      \<or> gw_effects st1 = gw_effects st @ [Called mcp tool args] \<and> gate_of e s mcp tool args (gw_db st) = (gw_db st1, Inr Open)
        \<and> (\<forall>h. answer \<noteq> Inr (AttemptHeld h)))"
  using assms
  by (auto simp: attempt_call_def gate_of_def emit_def Let_def
      split: prod.split_asm sum.split_asm option.split_asm upstream_answer.split_asm)

lemma session_mcp_Some: "session_mcp s slug = Some mcp \<Longrightarrow> mcp \<in> set (ss_mcps s) \<and> mcp_slug mcp = slug"
  by (auto simp: session_mcp_def find_Some_iff rev_nth)

definition forwarded_call :: "call_env \<Rightarrow> GatewaySession \<Rightarrow> GatewayState \<Rightarrow> GatewayState \<times> Value \<Rightarrow> bool" where
  "forwarded_call e s st out \<longleftrightarrow>
     (\<exists>mcp requested tool args. mcp \<in> set (ss_mcps s) \<and> out = call_and_record e s mcp requested tool args st)"

definition rejected_call :: "call_env \<Rightarrow> GatewaySession \<Rightarrow> GatewayState \<Rightarrow> GatewayState \<times> Value \<Rightarrow> bool" where
  "rejected_call e s st out \<longleftrightarrow>
     (\<exists>category summary input. category \<in> {InvalidTool, DisallowedMcp} \<and> out = (record_error e s category summary input st, error_result summary))"

definition looked_up :: "GatewaySession \<Rightarrow> GatewayState \<Rightarrow> GatewayState \<times> Value \<Rightarrow> bool" where
  "looked_up s st out \<longleftrightarrow>
     (\<exists>counts xs. fst out = st\<lparr>gw_tool_counts := counts, gw_effects := gw_effects st @ xs\<rparr>
        \<and> (xs = [] \<or> (\<exists>mcp \<in> set (ss_mcps s). xs = [Probed mcp])))"

lemma forwarded_callI: "mcp \<in> set (ss_mcps s) \<Longrightarrow> forwarded_call e s st (call_and_record e s mcp requested tool args st)"
  by (auto simp: forwarded_call_def)

lemma rejected_callI:
  "category \<in> {InvalidTool, DisallowedMcp} \<Longrightarrow> rejected_call e s st (record_error e s category summary input st, error_result summary)"
  unfolding rejected_call_def by blast

lemma disallowed_rejected: "rejected_call e s st (disallowed e s slug requested tool args st)"
  unfolding disallowed_def by (rule rejected_callI) simp

lemma target_cases:
  "forwarded_call e s st (case session_mcp s slug of None \<Rightarrow> disallowed e s slug requested tool args st
      | Some mcp \<Rightarrow> call_and_record e s mcp requested tool args st)
   \<or> rejected_call e s st (case session_mcp s slug of None \<Rightarrow> disallowed e s slug requested tool args st
      | Some mcp \<Rightarrow> call_and_record e s mcp requested tool args st)"
  by (cases "session_mcp s slug") (simp_all add: disallowed_rejected forwarded_callI session_mcp_Some)

lemma namespaced_call_cases:
  "forwarded_call e s st (call_namespaced_tool e s name args st) \<or> rejected_call e s st (call_namespaced_tool e s name args st)"
  using target_cases
  by (cases "parse_namespaced_tool name") (auto simp: call_namespaced_tool_def rejected_callI split: prod.split)

lemma lazy_call_cases:
  "forwarded_call e s st (call_lazy_tool e s ''call_tool'' args st) \<or> rejected_call e s st (call_lazy_tool e s ''call_tool'' args st)"
  using target_cases
  by (cases "parse_call_tool_input args") (simp_all add: call_lazy_tool_def rejected_callI Let_def)

lemma looked_up_same: "looked_up s st (st, v)"
  by (auto simp: looked_up_def intro!: exI [of _ "gw_tool_counts st"] exI [of _ "[]"])

lemma search_looks_up: "looked_up s st (search_tools e s args st)"
proof (cases "parse_tool_search_input args")
  case (Inl m)
  then show ?thesis by (simp add: search_tools_def looked_up_same)
next
  case (Inr input)
  show ?thesis
  proof (cases "session_mcp s (ts_mcp input)")
    case None
    then show ?thesis by (simp add: search_tools_def Inr looked_up_same)
  next
    case (Some mcp)
    then show ?thesis
      by (auto simp: search_tools_def Inr probe_def emit_def looked_up_def Let_def dest: session_mcp_Some split: prod.split sum.split)
  qed
qed

lemma lazy_lookup_cases: "name \<noteq> ''call_tool'' \<Longrightarrow> looked_up s st (call_lazy_tool e s name args st)"
  by (auto simp: call_lazy_tool_def looked_up_same search_looks_up)

definition registry_call :: "GatewaySession \<Rightarrow> string \<Rightarrow> bool" where
  "registry_call s name \<longleftrightarrow> is_registry_tool name \<and> ss_has_management s"

definition recorded_call :: "GatewaySession \<Rightarrow> string \<Rightarrow> bool" where
  "recorded_call s name \<longleftrightarrow> \<not> registry_call s name \<and> (ss_tool_mode s = Lazy \<longrightarrow> name = ''call_tool'')"

lemma call_tool_cases:
  obtains (registry) "registry_call s name" "call_tool e s name args st = call_registry_tool e s name args st"
  | (recorded) "recorded_call s name"
      "forwarded_call e s st (call_tool e s name args st) \<or> rejected_call e s st (call_tool e s name args st)"
  | (lookup) "\<not> registry_call s name" "\<not> recorded_call s name" "looked_up s st (call_tool e s name args st)"
proof (cases "registry_call s name")
  case True
  then show ?thesis by (auto simp: call_tool_def registry_call_def intro: registry)
next
  case False
  show ?thesis
  proof (cases "ss_tool_mode s")
    case Eager
    then have "call_tool e s name args st = call_namespaced_tool e s name args st" "recorded_call s name"
      using False by (auto simp: call_tool_def registry_call_def recorded_call_def)
    then show ?thesis using recorded namespaced_call_cases [of e s st name args] by simp
  next
    case Lazy
    then have run: "call_tool e s name args st = call_lazy_tool e s name args st"
      using False by (auto simp: call_tool_def registry_call_def)
    show ?thesis
    proof (cases "name = ''call_tool''")
      case True
      then have "recorded_call s name" using False by (simp add: recorded_call_def)
      then show ?thesis using recorded run True lazy_call_cases [of e s st args] by simp
    next
      case other: False
      then have "\<not> recorded_call s name" using Lazy by (simp add: recorded_call_def)
      then show ?thesis using lookup [OF False] run other lazy_lookup_cases by simp
    qed
  qed
qed

text \<open>What a call that is forwarded does besides its record.\<close>

lemma call_and_record_effects:
  assumes "call_and_record e s mcp requested tool args st = (st', v)"
  shows "gw_effects st' = gw_effects st
     \<or> gw_effects st' = gw_effects st @ [Called mcp tool args] \<and> gate_of e s mcp tool args (gw_db st) = (gw_db st', Inr Open)"
proof -
  obtain st1 mcp1 answer where a: "attempt_call e s mcp tool args st = (st1, mcp1, answer)" by (cases "attempt_call e s mcp tool args st")
  then have "gw_effects st' = gw_effects st1 \<and> gw_db st' = gw_db st1"
    using assms by (auto simp: call_and_record_def record_error_def session_record_def Let_def split: sum.split_asm Attempt.split_asm)
  then show ?thesis using attempt_call_cases [OF a] by auto
qed

text \<open>All that a call writes to the database, its gate writes.\<close>

lemma call_tool_writes:
  assumes "call_tool e s name args st = (st', v)"
  shows "gw_db st' = gw_db st \<or> (\<exists>mcp tool a. fst (gate_of e s mcp tool a (gw_db st)) = gw_db st')"
proof (cases rule: call_tool_cases [of s name e args st])
  case registry
  then show ?thesis
    using assms by (auto simp: call_registry_tool_def emit_def Let_def split: if_split_asm prod.split_asm sum.split_asm LimiterError.split_asm)
next
  case recorded
  have "gw_db st1 = fst (gate_of e s mcp tool a (gw_db st))" if "attempt_call e s mcp tool a st = (st1, rest)" for mcp tool a st1 rest
    using that by (auto simp: attempt_call_def gate_of_def emit_def Let_def
        split: prod.split_asm sum.split_asm option.split_asm upstream_answer.split_asm)
  then have "gw_db (fst (call_and_record e s mcp requested tool a st)) = fst (gate_of e s mcp tool a (gw_db st))" for mcp requested tool a
    by (auto simp: call_and_record_def record_error_def session_record_def Let_def split: prod.split sum.split Attempt.split)
  then have "\<exists>mcp tool a. fst (gate_of e s mcp tool a (gw_db st)) = gw_db st'"
    if "forwarded_call e s st (st', v)"
    using that unfolding forwarded_call_def by (metis fst_conv)
  then show ?thesis
    using recorded(2) assms by (auto simp: rejected_call_def record_error_def session_record_def)
next
  case lookup
  then show ?thesis using assms by (auto simp: looked_up_def)
qed

section \<open>Which calls reach an MCP\<close>

text \<open>A person approved the call, and the approval is spent on it.\<close>

definition approved_call :: "call_env \<Rightarrow> GatewaySession \<Rightarrow> Mcp \<Rightarrow> string \<Rightarrow> json_args \<Rightarrow> GatewayState \<Rightarrow> GatewayState \<Rightarrow> bool" where
  "approved_call e s mcp tool args st st' \<longleftrightarrow>
     (\<exists>r \<in> set (rows (approval_requests (ce_read e))). \<exists>x \<in> set (rows (approval_requests (gw_db st))).
        ar_access_token_id r = at_id (ss_access_token s) \<and> ar_mcp_id r = mcp_id mcp \<and> ar_tool_name r = tool
        \<and> arguments_hash r = env_hash (ce_approval e) args \<and> request_state r (ce_read_at e) = StateApproved
        \<and> ar_id x = ar_id r \<and> ar_status x = Approved \<and> consumed_at x = None
        \<and> rows (approval_requests (gw_db st')) =
            update_where (\<lambda>y. ar_id y = ar_id x) (\<lambda>y. y\<lparr>consumed_at := Some (ce_written_at e)\<rparr>) (rows (approval_requests (gw_db st))))"

lemma open_gate_approved:
  assumes "gate_of e s mcp tool args (gw_db st) = (gw_db st', Inr Open)"
    and "table_ok ar_id (approval_requests (gw_db st))"
  shows "tool_approval_mode (ce_from_str e) (ce_asks e) mcp tool = Auto \<or> approved_call e s mcp tool args st st'"
proof (cases "tool_approval_mode (ce_from_str e) (ce_asks e) mcp tool")
  case Auto
  then show ?thesis by simp
next
  case Ask
  let ?call = "\<lparr>gc_access_token = ss_access_token s, gc_mcp = mcp, gc_tool_name = tool, gc_args = args\<rparr>"
  obtain r where r: "latest_request (ce_approval e) ?call (ce_read_at e) (ce_read e) = Some r" "ar_status r = Approved"
      "consume_request r (ce_written_at e) (gw_db st) = (gw_db st', True)"
    using gate_open_cases [OF _ assms(1) [unfolded gate_of_def]] Ask by auto
  note l = latest_request_Some [OF r(1)]
  then have "request_state r (ce_read_at e) = StateApproved"
    using r(2) by (simp add: request_state_def request_is_expired_def)
  then have "approved_call e s mcp tool args st st'"
    using l consume_request_ok [OF assms(2) r(3)] r(2) unfolding approved_call_def same_call_def by auto
  then show ?thesis by simp
qed

lemma registry_effects:
  assumes "call_registry_tool e s name args st = (st', v)"
  shows "gw_effects st' = gw_effects st \<or> (\<exists>actor. gw_effects st' = gw_effects st @ [Managed actor name args])"
  using assms by (auto simp: call_registry_tool_def emit_def Let_def split: if_split_asm prod.split_asm sum.split_asm LimiterError.split_asm)

text \<open>No call reaches an MCP but those that may. Whatever tool a session is asked to call, at most one thing leaves
  the gateway for it; when that is a call to an MCP, the MCP is one of those the access token may use, and either its tool
  runs by itself or a person had approved this very call of this token, in time and unused, and from then on the
  approval is used.\<close>

theorem call_reaches_allowed_mcp:
  assumes "call_tool e s name args st = (st', v)"
    and "table_ok ar_id (approval_requests (gw_db st))"
  shows "\<exists>xs. gw_effects st' = gw_effects st @ xs \<and> length xs \<le> 1
     \<and> (\<forall>mcp tool a. Called mcp tool a \<in> set xs \<longrightarrow> mcp \<in> set (ss_mcps s)
          \<and> (tool_approval_mode (ce_from_str e) (ce_asks e) mcp tool = Auto \<or> approved_call e s mcp tool a st st'))"
proof (cases rule: call_tool_cases [of s name e args st])
  case registry
  then consider "gw_effects st' = gw_effects st" | actor where "gw_effects st' = gw_effects st @ [Managed actor name args]"
    using registry_effects [of e s name args st st' v] assms(1) by auto
  then show ?thesis by cases auto
next
  case recorded
  show ?thesis using recorded(2)
  proof
    assume "forwarded_call e s st (call_tool e s name args st)"
    then obtain mcp requested tool a where c: "mcp \<in> set (ss_mcps s)" "call_and_record e s mcp requested tool a st = (st', v)"
      using assms(1) by (auto simp: forwarded_call_def)
    then show ?thesis
      using call_and_record_effects [OF c(2)] open_gate_approved [OF _ assms(2)] by auto
  next
    assume "rejected_call e s st (call_tool e s name args st)"
    then have "gw_effects st' = gw_effects st"
      using assms(1) by (auto simp: rejected_call_def record_error_def session_record_def)
    then show ?thesis by simp
  qed
next
  case lookup
  then obtain xs where "gw_effects st' = gw_effects st @ xs" "xs = [] \<or> (\<exists>mcp. xs = [Probed mcp])"
    using assms(1) by (auto simp: looked_up_def)
  then show ?thesis by (intro exI [of _ xs]) auto
qed

section \<open>What the record of a call says\<close>

definition recorded_as :: "GatewaySession \<Rightarrow> GatewayState \<Rightarrow> GatewayState \<Rightarrow> Value \<Rightarrow> McpCallLogInput \<Rightarrow> bool" where
  "recorded_as s st st' v input \<longleftrightarrow>
     in_access_token input = ss_access_token s \<and> in_caller_ip input = ss_caller_ip s
     \<and> (in_outcome input = CallSuccess \<longleftrightarrow> \<not> result_is_error v)
     \<and> (in_outcome input = CallSuccess \<longleftrightarrow> in_error_category input = None)
     \<and> (in_outcome input = CallSuccess \<longrightarrow> in_response input = Some v
          \<and> (\<exists>mcp tool args. gw_effects st' = gw_effects st @ [Called mcp tool args]))
     \<and> (in_error_category input \<in> {Some InvalidTool, Some DisallowedMcp, Some ApprovalRequired, Some ApprovalDenied} \<longrightarrow>
          gw_effects st' = gw_effects st)"

lemma error_result_is_error [simp]: "result_is_error (error_result t)"
  by (simp add: result_is_error_def error_result_def json_get_def)

lemma held_of_is_error: "held_of site format_time tool mcp g = Some h \<Longrightarrow> result_is_error (held_result h)"
  by (auto simp: held_of_def held_call_def waiting_call_def split: ApprovalGate.split_asm option.split_asm)

lemma attempt_held_is_error: "attempt_call e s mcp tool args st = (st1, mcp1, Inr (AttemptHeld h)) \<Longrightarrow> result_is_error (held_result h)"
  by (auto simp: attempt_call_def Let_def held_of_is_error split: prod.split_asm sum.split_asm option.split_asm upstream_answer.split_asm)

lemma blank_input_simps [simp]: "in_error_category (blank_input token) = None" "in_outcome (blank_input token) = CallSuccess"
  by (simp_all add: blank_input_def)

lemma call_and_record_recorded:
  assumes "call_and_record e s mcp requested tool args st = (st', v)"
  shows "\<exists>input. gw_log st' = record_call (ce_runtime e) input (gw_log st) \<and> recorded_as s st st' v input"
proof -
  obtain st1 mcp1 answer where a: "attempt_call e s mcp tool args st = (st1, mcp1, answer)" by (cases "attempt_call e s mcp tool args st")
  note cases_of = attempt_call_cases [OF a]
  show ?thesis
  proof (cases answer)
    case (Inl failure)
    then show ?thesis
      using assms a cases_of
      by (auto simp: call_and_record_def record_error_def session_record_def recorded_as_def Let_def split: if_split_asm)
  next
    case (Inr ran)
    then show ?thesis
      using assms a cases_of attempt_held_is_error [of e s mcp tool args st st1 mcp1]
      by (cases ran)
        (auto simp: call_and_record_def record_error_def session_record_def recorded_as_def Let_def split: if_split_asm)
  qed
qed

lemma registry_log: "call_registry_tool e s name args st = (st', v) \<Longrightarrow> gw_log st' = gw_log st"
  by (auto simp: call_registry_tool_def emit_def Let_def split: if_split_asm prod.split_asm sum.split_asm LimiterError.split_asm)

text \<open>C12: What is recorded of a call is what became of it. Every call of a tool of an MCP, served, held back, failed or
  refused, hands exactly one record to the call log, under the session's own token and address; it is a success exactly
  when the agent is not told of an error, and then the call did reach an MCP; an error has its category. A call of a
  registry tool is never recorded.\<close>

theorem call_recorded_as_it_went:
  assumes "call_tool e s name args st = (st', v)"
  shows "if recorded_call s name then \<exists>input. gw_log st' = record_call (ce_runtime e) input (gw_log st) \<and> recorded_as s st st' v input
         else gw_log st' = gw_log st"
proof (cases rule: call_tool_cases [of s name e args st])
  case registry
  then show ?thesis using assms registry_log [of e s name args st st' v] by (simp add: recorded_call_def)
next
  case recorded
  show ?thesis using recorded(2)
  proof
    assume "forwarded_call e s st (call_tool e s name args st)"
    then show ?thesis using assms recorded(1) call_and_record_recorded by (fastforce simp: forwarded_call_def)
  next
    assume "rejected_call e s st (call_tool e s name args st)"
    then show ?thesis
      using assms recorded(1) by (auto simp: rejected_call_def record_error_def session_record_def recorded_as_def)
  qed
next
  case lookup
  then show ?thesis using assms by (auto simp: looked_up_def)
qed

section \<open>What an agent reads of a failure\<close>












section \<open>Who manages the registry\<close>

lemma registry_managed:
  assumes "call_registry_tool e s name args st = (st', v)" and "gw_effects st' \<noteq> gw_effects st"
  shows "permission_of (ce_roles e) (ss_access_token s) = PermissionGranted
     \<and> is_ok (snd (consume (gw_registry_limiter st) (''mcp-registry:'' @ show_int (at_id (ss_access_token s))) (ce_limiter_ms e)))
     \<and> gw_effects st' = gw_effects st @ [Managed \<lparr>ma_user_id = at_created_by (ss_access_token s),
          ma_team_id = at_team_id (ss_access_token s), ma_access_token_id = at_id (ss_access_token s)\<rparr> name args]"
  using assms
  by (auto simp: call_registry_tool_def emit_def Let_def split: if_split_asm prod.split_asm sum.split_asm LimiterError.split_asm)

text \<open>C13: Only an administrator manages the registry. When a call makes a registry tool run, the gateway has such tools and
  the call names one; the access token carries the scope of management; the person it was made for is, when the call is
  made, an administrator or an owner of the token's team; the token had an allowance left; and the tool acts as that person,
  in that team, for that token.\<close>

theorem registry_needs_admin:
  assumes "call_tool e s name args st = (st', v)"
    and "gw_effects st' = gw_effects st @ [Managed actor tool a]"
  shows "tool = name \<and> a = args \<and> name \<in> set REGISTRY_TOOL_NAMES \<and> ss_has_management s
     \<and> grants_mcp_management (ss_access_token s)
     \<and> (\<exists>role. role_of (ce_roles e) (at_team_id (ss_access_token s)) (at_created_by (ss_access_token s)) = Some role \<and> is_admin role)
     \<and> is_ok (snd (consume (gw_registry_limiter st) (''mcp-registry:'' @ show_int (at_id (ss_access_token s))) (ce_limiter_ms e)))
     \<and> actor = \<lparr>ma_user_id = at_created_by (ss_access_token s), ma_team_id = at_team_id (ss_access_token s),
          ma_access_token_id = at_id (ss_access_token s)\<rparr>"
proof (cases rule: call_tool_cases [of s name e args st])
  case registry
  then have run: "call_registry_tool e s name args st = (st', v)" using assms(1) by simp
  show ?thesis
    using registry(1) registry_managed [OF run] assms(2)
    by (auto simp: registry_call_def is_registry_tool_def permission_of_def split: if_split_asm option.split_asm)
next
  case recorded
  show ?thesis using recorded(2)
  proof
    assume "forwarded_call e s st (call_tool e s name args st)"
    then obtain mcp requested t b where "call_and_record e s mcp requested t b st = (st', v)"
      using assms(1) by (auto simp: forwarded_call_def)
    from call_and_record_effects [OF this] show ?thesis using assms(2) by simp
  next
    assume "rejected_call e s st (call_tool e s name args st)"
    then show ?thesis using assms by (auto simp: rejected_call_def record_error_def session_record_def)
  qed
next
  case lookup
  then show ?thesis using assms by (auto simp: looked_up_def)
qed

section \<open>Listed names\<close>

lemma namespaced_not_registry:
  assumes "list_all slug_char slug"
  shows "\<not> is_registry_tool (namespace_tool slug name)"
proof
  assume "is_registry_tool (namespace_tool slug name)"
  then obtain r where r: "r \<in> set REGISTRY_TOOL_NAMES" "slug @ ''__'' @ name = r"
    by (auto simp: is_registry_tool_def namespace_tool_def)
  then have "find_text ''__'' r = Some (length slug)" using find_text_after [OF assms, of name] by simp
  moreover have "list_all (\<lambda>r. find_text ''__'' r = None) REGISTRY_TOOL_NAMES" by code_simp
  ultimately show False using r(1) by (simp add: list_all_iff)
qed

lemma session_mcp_distinct:
  assumes "distinct (map mcp_slug (ss_mcps s))" and "mcp \<in> set (ss_mcps s)"
  shows "session_mcp s (mcp_slug mcp) = Some mcp"
proof -
  obtain m where m: "session_mcp s (mcp_slug mcp) = Some m"
    using assms(2) by (cases "session_mcp s (mcp_slug mcp)") (auto simp: session_mcp_def find_None_iff)
  then show ?thesis
    using session_mcp_Some [OF m] assms by (auto simp: distinct_map dest: inj_onD)
qed

lemma listed_from:
  assumes "t \<in> set (snd (list_namespaced_tools e ms st))" and "\<And>mcp. mcp_slug (fst (ce_probe e mcp)) = mcp_slug mcp"
  shows "\<exists>mcp \<in> set ms. nt_mcp_slug t = mcp_slug mcp \<and> nt_namespaced_name t = namespace_tool (mcp_slug mcp) (nt_name t)"
  using assms(1)
proof (induction ms arbitrary: st)
  case (Cons mcp ms)
  obtain st1 mcp1 answer where p: "probe e mcp st = (st1, mcp1, answer)" by (cases "probe e mcp st")
  then have "mcp_slug mcp1 = mcp_slug mcp"
    using assms(2) [of mcp] by (auto simp: probe_def split: prod.split_asm)
  moreover obtain st2 others where "list_namespaced_tools e ms st1 = (st2, others)" by (cases "list_namespaced_tools e ms st1")
  ultimately show ?case
    using Cons.prems Cons.IH [of st1] p by (auto simp: namespaced_def split: sum.split_asm)
qed simp

text \<open>A listed tool can be called. In an eager session whose MCPs have slugs of their own, made of the letters of slugs,
  every name that a listing shows is answered, whenever it is called, by a call of that very tool of the MCP it was
  listed for, with the arguments as they came: never as an invalid name, as an MCP that is not allowed, or as a tool of
  the registry.\<close>

theorem listed_tool_leads_back:
  assumes "t \<in> set (snd (list_namespaced_tools e (ss_mcps s) st))"
    and "ss_tool_mode s = Eager"
    and "distinct (map mcp_slug (ss_mcps s))"
    and "\<And>mcp. mcp \<in> set (ss_mcps s) \<Longrightarrow> list_all slug_char (mcp_slug mcp) \<and> mcp_slug mcp \<noteq> []"
    and "\<And>mcp. mcp_slug (fst (ce_probe e mcp)) = mcp_slug mcp"
  shows "\<exists>mcp \<in> set (ss_mcps s). mcp_slug mcp = nt_mcp_slug t \<and>
     (\<forall>e' args st'. call_tool e' s (nt_namespaced_name t) args st' = call_and_record e' s mcp (nt_namespaced_name t) (nt_name t) args st')"
proof -
  obtain mcp where mcp: "mcp \<in> set (ss_mcps s)" "nt_mcp_slug t = mcp_slug mcp"
      "nt_namespaced_name t = namespace_tool (mcp_slug mcp) (nt_name t)"
    using listed_from [OF assms(1,5)] by blast
  note slug = assms(4) [OF mcp(1)]
  have "call_tool e' s (nt_namespaced_name t) args st' = call_and_record e' s mcp (nt_namespaced_name t) (nt_name t) args st'" for e' args st'
    using slug session_mcp_distinct [OF assms(3) mcp(1)]
    by (simp add: call_tool_def namespaced_not_registry mcp(3) assms(2) call_namespaced_tool_def parse_namespaced)
  then show ?thesis using mcp by auto
qed

section \<open>A call at work\<close>

text \<open>Bob's token calls \<open>send\<close> of its MCP, which asks; the call was approved.\<close>

definition sample_session :: GatewaySession where
  "sample_session = \<lparr>ss_access_token = sample_token 2 1 2, ss_mcps = [sample_mcp 1 1 2], ss_caller_ip = None,
     ss_tool_mode = Eager, ss_has_management = True\<rparr>"

definition sample_call_env :: "upstream_answer \<Rightarrow> call_env" where
  "sample_call_env answer =
     \<lparr>ce_from_str = (\<lambda>_. None), ce_asks = (\<lambda>_ _. True), ce_approval = sample_env, ce_fresh = ''f'', ce_read_at = 50,
      ce_written_at = 60, ce_read = approval_db, ce_approval_error = (\<lambda>_. ''e''), ce_app_url = None, ce_format_time = (\<lambda>_. ''t''),
      ce_call = (\<lambda>mcp _ _. (mcp, answer)),
      ce_probe = (\<lambda>mcp. (mcp, Inr [\<lparr>tool_name = ''send'', tool_description = None, tool_input_schema = JNull\<rparr>])),
      ce_manage = (\<lambda>_ _ _. JNull), ce_roles = approval_db, ce_limiter_ms = 0, ce_elapsed_ms = 1, ce_runtime = True,
      ce_stringify = (\<lambda>_. ''j''), ce_lowercase = (\<lambda>s. s), ce_before = (\<lambda>_ _. False)\<rparr>"

definition sample_state :: GatewayState where
  "sample_state = \<lparr>gw_db = approval_db, gw_log = new_call_log empty_table, gw_registry_limiter = registry_rate_limiter,
     gw_tool_counts = Map.empty, gw_effects = []\<rparr>"

lemma sample_called:
  "call_tool (sample_call_env answer) sample_session ''m__send'' None sample_state
     = call_and_record (sample_call_env answer) sample_session (sample_mcp 1 1 2) ''m__send'' ''send'' None sample_state"
proof -
  have "\<not> is_registry_tool ''m__send''" by (simp add: is_registry_tool_def REGISTRY_TOOL_NAMES_def)
  moreover have "parse_namespaced_tool ''m__send'' = Some (''m'', ''send'')" by code_simp
  ultimately show ?thesis
    by (simp add: call_tool_def call_namespaced_tool_def sample_session_def session_mcp_def sample_mcp_def)
qed

lemma sample_gate_of:
  "gate_of (sample_call_env answer) sample_session (sample_mcp 1 1 2) ''send'' None approval_db
     = (fst (consume_request (sample_request 2 ''h'' Approved) 60 approval_db), Inr Open)"
  using sample_gate unfolding gate_of_def by (simp add: sample_call_env_def sample_session_def sample_call_def)

lemma sample_attempt:
  "gw_effects (fst (attempt_call (sample_call_env answer) sample_session (sample_mcp 1 1 2) ''send'' None sample_state))
     = [Called (sample_mcp 1 1 2) ''send'' None]"
  using sample_gate_of [of answer] unfolding attempt_call_def gate_of_def
  by (simp add: sample_state_def emit_def sample_call_env_def Let_def split: upstream_answer.split)

lemma call_and_record_kept:
  "gw_effects (fst (call_and_record e s mcp requested tool args st)) = gw_effects (fst (attempt_call e s mcp tool args st))"
  by (auto simp: call_and_record_def record_error_def session_record_def Let_def split: prod.split sum.split Attempt.split)

theorem call_reaches_allowed_mcp_witness:
  "\<exists>st'. approved_call (sample_call_env (Answered JNull)) sample_session (sample_mcp 1 1 2) ''send'' None sample_state st'"
proof -
  let ?e = "sample_call_env (Answered JNull)"
  obtain st' v where run: "call_tool ?e sample_session ''m__send'' None sample_state = (st', v)"
    by (cases "call_tool ?e sample_session ''m__send'' None sample_state")
  have "table_ok ar_id (approval_requests (gw_db sample_state))"
    by (simp add: sample_state_def table_ok_def approval_sample_defs)
  from call_reaches_allowed_mcp [OF run this]
  obtain xs where xs: "gw_effects st' = gw_effects sample_state @ xs"
     "\<forall>mcp tool a. Called mcp tool a \<in> set xs \<longrightarrow> mcp \<in> set (ss_mcps sample_session)
          \<and> (tool_approval_mode (ce_from_str ?e) (ce_asks ?e) mcp tool = Auto \<or> approved_call ?e sample_session mcp tool a sample_state st')"
    by blast
  have "gw_effects st' = [Called (sample_mcp 1 1 2) ''send'' None]"
    using run sample_attempt [of "Answered JNull"]
      call_and_record_kept [of ?e sample_session "sample_mcp 1 1 2" "''m__send''" "''send''" None sample_state]
    by (simp add: sample_called)
  then have "Called (sample_mcp 1 1 2) ''send'' None \<in> set xs" using xs(1) by (simp add: sample_state_def)
  moreover have "tool_approval_mode (ce_from_str ?e) (ce_asks ?e) (sample_mcp 1 1 2) ''send'' = Ask"
    by (simp add: sample_call_env_def tool_approval_mode_def saved_tool_approvals_def sample_mcp_def non_empty_def mode_of_def
        default_tool_approval_def)
  ultimately show ?thesis using xs(2) [rule_format, of "sample_mcp 1 1 2" "''send''" None] by auto
qed

theorem call_recorded_as_it_went_witness:
  "\<exists>st' v input. call_tool (sample_call_env (Failing ''x'' True)) sample_session ''m__send'' None sample_state = (st', v)
     \<and> gw_log st' = record_call True input (new_call_log empty_table) \<and> recorded_as sample_session sample_state st' v input"
proof -
  obtain st' v where run: "call_tool (sample_call_env (Failing ''x'' True)) sample_session ''m__send'' None sample_state = (st', v)"
    by (cases "call_tool (sample_call_env (Failing ''x'' True)) sample_session ''m__send'' None sample_state")
  have "recorded_call sample_session ''m__send''"
    by (simp add: recorded_call_def registry_call_def sample_session_def is_registry_tool_def REGISTRY_TOOL_NAMES_def)
  then show ?thesis
    using call_recorded_as_it_went [OF run] run by (simp add: sample_state_def sample_call_env_def)
qed


text \<open>Bob's token may also manage the registry, and Bob is an administrator of the team.\<close>

definition manager_session :: GatewaySession where
  "manager_session = sample_session\<lparr>ss_access_token := (sample_token 2 1 2)\<lparr>token_source := Oauth, oauth_scopes := Some MCPS_MANAGE_SCOPE\<rparr>\<rparr>"

lemma sample_managed:
  "\<exists>st' v actor. call_tool (sample_call_env (Answered JNull)) manager_session ''mcp_registry_list'' None sample_state = (st', v)
     \<and> gw_effects st' = gw_effects sample_state @ [Managed actor ''mcp_registry_list'' None]"
proof -
  let ?token = "ss_access_token manager_session"
  have "has_scope MCPS_MANAGE_SCOPE MCPS_MANAGE_SCOPE" by code_simp
  moreover have "role_of approval_db 1 2 = Some Admin" by code_simp
  ultimately have "permission_of approval_db ?token = PermissionGranted"
    by (simp add: permission_of_def grants_mcp_management_def manager_session_def sample_token_def is_admin_def)
  moreover have "is_ok (snd (consume registry_rate_limiter (''mcp-registry:'' @ show_int (at_id ?token)) 0))"
    by (simp add: consume_unfold registry_rate_limiter_def limiter_memory_def REGISTRY_CALLS_PER_MINUTE_def limiter_bump_def
        memory_add_def memory_sweep_def SWEEP_INTERVAL_MS_def Let_def)
  ultimately show ?thesis
    by (auto simp: call_tool_def is_registry_tool_def REGISTRY_TOOL_NAMES_def call_registry_tool_def sample_call_env_def sample_state_def
        emit_def manager_session_def sample_session_def Let_def split: prod.split sum.split LimiterError.split)
qed

theorem registry_needs_admin_witness:
  "grants_mcp_management (ss_access_token manager_session)
     \<and> (\<exists>role. role_of approval_db 1 2 = Some role \<and> is_admin role)"
proof -
  obtain st' v actor where
    "call_tool (sample_call_env (Answered JNull)) manager_session ''mcp_registry_list'' None sample_state = (st', v)"
    "gw_effects st' = gw_effects sample_state @ [Managed actor ''mcp_registry_list'' None]"
    using sample_managed by blast
  from registry_needs_admin [OF this] show ?thesis
    by (simp add: manager_session_def sample_session_def sample_token_def sample_call_env_def)
qed

theorem listed_tool_leads_back_witness:
  "\<exists>mcp. mcp_slug mcp = ''m'' \<and> call_tool (sample_call_env (Answered JNull)) sample_session ''m__send'' None sample_state
     = call_and_record (sample_call_env (Answered JNull)) sample_session mcp ''m__send'' ''send'' None sample_state"
proof -
  let ?e = "sample_call_env (Answered JNull)"
  have slug: "list_all slug_char (mcp_slug (sample_mcp 1 1 2)) \<and> mcp_slug (sample_mcp 1 1 2) \<noteq> []"
    by (simp add: sample_mcp_def slug_char_def)
  obtain t where t: "t \<in> set (snd (list_namespaced_tools ?e (ss_mcps sample_session) sample_state))"
      "nt_name t = ''send''" "nt_mcp_slug t = ''m''" "nt_namespaced_name t = ''m__send''"
    by (simp add: sample_session_def probe_def sample_call_env_def namespaced_def with_approval_notes_def sample_mcp_def namespace_tool_def
        tool_approval_mode_def split: if_split)
  have "\<exists>mcp \<in> set (ss_mcps sample_session). mcp_slug mcp = nt_mcp_slug t \<and>
     (\<forall>e' args st'. call_tool e' sample_session (nt_namespaced_name t) args st'
        = call_and_record e' sample_session mcp (nt_namespaced_name t) (nt_name t) args st')"
    using slug by (intro listed_tool_leads_back [OF t(1)]) (auto simp: sample_session_def sample_call_env_def)
  then show ?thesis using t(2-4) by auto
qed

end
