(* ===== verification/Backup.thy ===== *)
theory Backup
  imports OauthRequests
begin

text \<open>
  Backups: the encrypted file of \<open>crates/core/src/backup/container.rs\<close>, the stream of
  \<open>crates/core/src/backup/export.rs\<close> that hands the same file out, and the metadata of
  \<open>crates/core/src/backup/mod.rs\<close>. AES-256-GCM and scrypt are parameters; a reader is what it holds with how
  it hands it out: in pieces of any size, with interruptions and failures. What is written goes to a file that takes it.
\<close>

section \<open>Bytes\<close>

type_synonym bytes = "8 word list"

definition be_bytes :: "32 word \<Rightarrow> bytes" where
  "be_bytes w = [ucast (drop_bit 24 w), ucast (drop_bit 16 w), ucast (drop_bit 8 w), ucast w]"

definition be_value :: "bytes \<Rightarrow> 32 word" where
  "be_value bs = fold (\<lambda>b w. or (push_bit 8 w) (ucast b)) bs 0"

section \<open>Readers\<close>

datatype read_event = Gives nat | Interrupts | Fails

record reader =
  rd_left :: bytes
  rd_plan :: "read_event list"

datatype read_error = Interrupted | ReadFailed

text \<open>One call of \<open>read\<close> with room for \<open>n\<close> bytes: something as long as something is left, then nothing.\<close>

definition read_some :: "reader \<Rightarrow> nat \<Rightarrow> reader \<times> (read_error, bytes) result" where
  "read_some r n =
     (case rd_plan r of
        [] \<Rightarrow> (r\<lparr>rd_left := drop n (rd_left r)\<rparr>, Inr (take n (rd_left r)))
      | Gives k # plan \<Rightarrow>
          (let m = min n (k + 1) in (r\<lparr>rd_left := drop m (rd_left r), rd_plan := plan\<rparr>, Inr (take m (rd_left r))))
      | Interrupts # plan \<Rightarrow> (r\<lparr>rd_plan := plan\<rparr>, Inl Interrupted)
      | Fails # plan \<Rightarrow> (r\<lparr>rd_plan := plan\<rparr>, Inl ReadFailed))"

text \<open>Bytes in memory, then a reader (\<open>Cursor::chain\<close>).\<close>

record chain =
  ch_first :: bytes
  ch_second :: reader

definition read_chain :: "chain \<Rightarrow> nat \<Rightarrow> chain \<times> (read_error, bytes) result" where
  "read_chain c n =
     (if ch_first c \<noteq> [] \<and> 0 < n then (c\<lparr>ch_first := drop n (ch_first c)\<rparr>, Inr (take n (ch_first c)))
      else (case read_some (ch_second c) n of (r, x) \<Rightarrow> (c\<lparr>ch_second := r\<rparr>, x)))"

definition left_of :: "chain \<Rightarrow> bytes" where
  "left_of c = ch_first c @ rd_left (ch_second c)"

lemma read_chain_shrinks:
  assumes "read_chain c n = (c', x)" "0 < n"
  shows "x = Inr [] \<or> length (left_of c') + length (rd_plan (ch_second c')) < length (left_of c) + length (rd_plan (ch_second c))"
proof (cases "ch_first c")
  case Nil
  then show ?thesis
    using assms
    by (cases "rd_left (ch_second c)")
      (auto simp: read_chain_def read_some_def left_of_def Let_def split: prod.split_asm list.split_asm read_event.split_asm)
next
  case (Cons b bs)
  then show ?thesis using assms by (auto simp: read_chain_def left_of_def)
qed

text \<open>Read until \<open>n\<close> bytes are there or nothing is left. An interruption is tried again where \<open>retry\<close>.\<close>

function fill :: "bool \<Rightarrow> nat \<Rightarrow> chain \<Rightarrow> bytes \<Rightarrow> chain \<times> (read_error, bytes) result" where
  "fill retry n c filled =
     (if n \<le> length filled then (c, Inr filled)
      else
        (case read_chain c (n - length filled) of
           (c1, Inr piece) \<Rightarrow> if piece = [] then (c1, Inr filled) else fill retry n c1 (filled @ piece)
         | (c1, Inl Interrupted) \<Rightarrow> if retry then fill retry n c1 filled else (c1, Inl Interrupted)
         | (c1, Inl ReadFailed) \<Rightarrow> (c1, Inl ReadFailed)))"
  by auto
termination
proof (relation "measure (\<lambda>(_, _, c, _). length (left_of c) + length (rd_plan (ch_second c)))", goal_cases)
  case 1
  then show ?case by simp
next
  case 2
  then show ?case using read_chain_shrinks [OF 2(2) [symmetric]] by auto
next
  case 3
  then show ?case using read_chain_shrinks [OF 3(2) [symmetric]] by auto
qed

declare fill.simps [simp del]

lemma read_chain_keeps:
  assumes "read_chain c n = (c', Inr piece)"
  shows "left_of c = piece @ left_of c' \<and> length piece \<le> n"
  using assms
  by (auto simp: read_chain_def read_some_def left_of_def Let_def min_def
      split: if_split_asm prod.split_asm list.split_asm read_event.split_asm)

lemma read_chain_error: "read_chain c n = (c', Inl e) \<Longrightarrow> left_of c' = left_of c"
  by (auto simp: read_chain_def read_some_def left_of_def Let_def split: if_split_asm prod.split_asm list.split_asm read_event.split_asm)

text \<open>Nothing that is read is lost.\<close>

lemma fill_keeps: "fill retry n c filled = (c', Inr bs) \<Longrightarrow> filled @ left_of c = bs @ left_of c'"
proof (induction retry n c filled rule: fill.induct)
  case (1 retry n c filled)
  show ?case
  proof (cases "n \<le> length filled")
    case True
    then show ?thesis using "1.prems" by (simp add: fill.simps)
  next
    case False
    obtain c1 x where r: "read_chain c (n - length filled) = (c1, x)" by (cases "read_chain c (n - length filled)")
    show ?thesis
    proof (cases x)
      case (Inl e)
      then have "e = Interrupted" "retry" "fill retry n c1 filled = (c', Inr bs)"
        using "1.prems" False r by (auto simp: fill.simps [of retry n c] split: read_error.split_asm if_split_asm)
      then show ?thesis using "1.IH"(1) [OF False r [symmetric] Inl] read_chain_error [of c _ c1] r Inl by simp
    next
      case (Inr piece)
      then have keeps: "left_of c = piece @ left_of c1" using read_chain_keeps r by blast
      show ?thesis
      proof (cases "piece = []")
        case True
        then show ?thesis using "1.prems" False r Inr keeps by (simp add: fill.simps [of retry n c])
      next
        case some: False
        then have "fill retry n c1 (filled @ piece) = (c', Inr bs)"
          using "1.prems" False r Inr by (simp add: fill.simps [of retry n c])
        then show ?thesis using "1.IH"(2) [OF False r [symmetric] Inr some] keeps by simp
      qed
    qed
  qed
qed

section \<open>The header\<close>

definition MAGIC :: bytes where
  "MAGIC = map of_char ''MYMCPSBK''"

definition FORMAT_VERSION :: "8 word" where "FORMAT_VERSION = 1"

definition KDF_SCRYPT :: "8 word" where "KDF_SCRYPT = 1"

definition HEADER_BYTES :: nat where "HEADER_BYTES = 36"

definition SALT_BYTES :: nat where "SALT_BYTES = 16"

definition NONCE_PREFIX_BYTES :: nat where "NONCE_PREFIX_BYTES = 7"

definition CHUNK_BYTES :: nat where "CHUNK_BYTES = 65536"

definition TAG_BYTES :: nat where "TAG_BYTES = 16"

definition BLOCK_BYTES :: nat where "BLOCK_BYTES = CHUNK_BYTES + TAG_BYTES"

definition MAX_METADATA_BYTES :: nat where "MAX_METADATA_BYTES = 65536"

definition WRITER_LOG_N :: "8 word" where "WRITER_LOG_N = 17"

definition MIN_LOG_N :: "8 word" where "MIN_LOG_N = 14"

definition MAX_LOG_N :: "8 word" where "MAX_LOG_N = 18"

definition SCRYPT_R :: "8 word" where "SCRYPT_R = 8"

definition SCRYPT_P :: "8 word" where "SCRYPT_P = 1"

lemmas backup_consts = FORMAT_VERSION_def KDF_SCRYPT_def HEADER_BYTES_def SALT_BYTES_def NONCE_PREFIX_BYTES_def CHUNK_BYTES_def
  TAG_BYTES_def BLOCK_BYTES_def MAX_METADATA_BYTES_def WRITER_LOG_N_def MIN_LOG_N_def MAX_LOG_N_def SCRYPT_R_def SCRYPT_P_def

datatype io_error = InvalidInput string | IoOther string | ReadError read_error

datatype BackupError =
    NotABackup | NewerVersion | WrongPassword | Damaged | NoAdministrator | AlreadySetUp
  | BackupIo io_error | BackupDatabase db_error

fun backup_message :: "BackupError \<Rightarrow> string option" where
  "backup_message NotABackup = Some ''This file is not a MyMCPs backup''"
| "backup_message NewerVersion = Some ''This backup was made by a newer version of MyMCPs. Update this instance, then import it again.''"
| "backup_message WrongPassword = Some ''The password is incorrect, or the backup file is damaged''"
| "backup_message Damaged = Some ''The backup file is damaged or incomplete''"
| "backup_message NoAdministrator = Some ''This backup holds no administrator account''"
| "backup_message AlreadySetUp = None"
| "backup_message (BackupIo e) = None"
| "backup_message (BackupDatabase e) = None"

text \<open>The two arrays are lists of 16 and of 7 bytes.\<close>

record Header =
  log_n :: "8 word"
  salt :: bytes
  nonce_prefix :: bytes

definition header_generate :: "bytes \<Rightarrow> bytes \<Rightarrow> Header" where
  "header_generate random_salt random_prefix = \<lparr>log_n = WRITER_LOG_N, salt = random_salt, nonce_prefix = random_prefix\<rparr>"

definition header_from_parts :: "8 word \<Rightarrow> bytes \<Rightarrow> bytes \<Rightarrow> Header option" where
  "header_from_parts n s p = (if MIN_LOG_N \<le> n \<and> n \<le> MAX_LOG_N then Some \<lparr>log_n = n, salt = s, nonce_prefix = p\<rparr> else None)"

definition header_parse :: "bytes \<Rightarrow> (BackupError, Header) result" where
  "header_parse bs =
     (if length bs < HEADER_BYTES then Inl NotABackup
      else
        (let header = take HEADER_BYTES bs in
         ensure (take 8 header = MAGIC) NotABackup
         (let version = header ! 8; kdf = header ! 9; n = header ! 10; r = header ! 11; p = header ! 12 in
          ensure (version = FORMAT_VERSION \<and> kdf = KDF_SCRYPT \<and> MIN_LOG_N \<le> n \<and> n \<le> MAX_LOG_N \<and> r = SCRYPT_R \<and> p = SCRYPT_P)
            NewerVersion
          (Inr \<lparr>log_n = n, salt = take SALT_BYTES (drop 13 header), nonce_prefix = take NONCE_PREFIX_BYTES (drop 29 header)\<rparr>))))"

definition header_read :: "chain \<Rightarrow> chain \<times> (BackupError, Header) result" where
  "header_read input =
     (case fill True HEADER_BYTES input [] of
        (c, Inl e) \<Rightarrow> (c, Inl (BackupIo (ReadError e)))
      | (c, Inr bs) \<Rightarrow> (c, header_parse bs))"

definition to_bytes :: "Header \<Rightarrow> bytes" where
  "to_bytes h = MAGIC @ [FORMAT_VERSION, KDF_SCRYPT, log_n h, SCRYPT_R, SCRYPT_P] @ salt h @ nonce_prefix h"

definition derive_key :: "(string \<Rightarrow> bytes \<Rightarrow> 8 word \<Rightarrow> 8 word \<Rightarrow> 8 word \<Rightarrow> bytes) \<Rightarrow> string \<Rightarrow> Header \<Rightarrow> bytes" where
  "derive_key scrypt given h = scrypt given (salt h) (log_n h) SCRYPT_R SCRYPT_P"

section \<open>Sealing\<close>

text \<open>AES-256-GCM: key, nonce, authenticated header and message.\<close>

record aead =
  aead_encrypt :: "bytes \<Rightarrow> bytes \<Rightarrow> bytes \<Rightarrow> bytes \<Rightarrow> bytes option"
  aead_decrypt :: "bytes \<Rightarrow> bytes \<Rightarrow> bytes \<Rightarrow> bytes \<Rightarrow> bytes option"

definition nonce :: "bytes \<Rightarrow> 32 word \<Rightarrow> bool \<Rightarrow> bytes" where
  "nonce start counter last_one = start @ be_bytes counter @ [if last_one then 1 else 0]"

definition sealed_len :: "nat \<Rightarrow> nat" where
  "sealed_len n = HEADER_BYTES + n + TAG_BYTES * (n div CHUNK_BYTES + 1)"

definition plaintext_prefix :: "bytes \<Rightarrow> (io_error, bytes) result" where
  "plaintext_prefix metadata =
     ensure (metadata \<noteq> [] \<and> length metadata \<le> MAX_METADATA_BYTES) (InvalidInput ''the metadata of a backup takes 1 to 65,536 bytes'')
     (Inr (be_bytes (word_of_nat (length metadata)) @ metadata))"

record Sealer =
  sl_key :: bytes
  sl_header :: bytes
  sl_nonce_prefix :: bytes
  sl_chunks :: nat
  sl_finished :: bool

definition new_sealer :: "bytes \<Rightarrow> Header \<Rightarrow> Sealer" where
  "new_sealer key h = \<lparr>sl_key = key, sl_header = to_bytes h, sl_nonce_prefix = nonce_prefix h, sl_chunks = 0, sl_finished = False\<rparr>"

definition seal :: "aead \<Rightarrow> Sealer \<Rightarrow> bytes \<Rightarrow> bool \<Rightarrow> Sealer \<times> (io_error, bytes) result" where
  "seal a s chunk last_one =
     (if sl_finished s then (s, Inl (InvalidInput ''the final chunk of this backup was already sealed''))
      else if CHUNK_BYTES < length chunk \<or> \<not> last_one \<and> length chunk \<noteq> CHUNK_BYTES
      then (s, Inl (InvalidInput ''only the final chunk of a backup may be short''))
      else if 2 ^ 32 \<le> sl_chunks s then (s, Inl (InvalidInput ''a backup holds at most 2^32 chunks''))
      else
        (case aead_encrypt a (sl_key s) (nonce (sl_nonce_prefix s) (word_of_nat (sl_chunks s)) last_one) (sl_header s) chunk of
           None \<Rightarrow> (s, Inl (IoOther ''a chunk of the backup could not be encrypted''))
         | Some sealed \<Rightarrow> (s\<lparr>sl_chunks := sl_chunks s + 1, sl_finished := last_one\<rparr>, Inr sealed)))"

definition read_chunk :: "chain \<Rightarrow> chain \<times> (read_error, bytes) result" where
  "read_chunk c = fill True CHUNK_BYTES c []"

function write_blocks :: "aead \<Rightarrow> Sealer \<Rightarrow> chain \<Rightarrow> bytes \<Rightarrow> nat \<Rightarrow> (io_error, bytes \<times> nat) result" where
  "write_blocks a s plaintext out written =
     (case read_chunk plaintext of
        (c, Inl e) \<Rightarrow> Inl (ReadError e)
      | (c, Inr chunk) \<Rightarrow>
          (let last_one = length chunk < CHUNK_BYTES in
           case seal a s chunk last_one of
             (s1, Inl e) \<Rightarrow> Inl e
           | (s1, Inr sealed) \<Rightarrow>
               if last_one then Inr (out @ sealed, written + length sealed)
               else write_blocks a s1 c (out @ sealed) (written + length sealed)))"
  by auto
termination
proof (relation "measure (\<lambda>(_, _, c, _). length (left_of c))", goal_cases)
  case 1
  then show ?case by simp
next
  case (2 a s plaintext out written c x chunk last_one)
  then have "left_of plaintext = chunk @ left_of c"
    using fill_keeps [of True CHUNK_BYTES plaintext "[]" c chunk] by (simp add: read_chunk_def)
  moreover have "0 < length chunk" using 2 by (cases chunk) (simp_all add: CHUNK_BYTES_def)
  ultimately show ?case by simp
qed

declare write_blocks.simps [simp del]

definition write_container :: "aead \<Rightarrow> bytes \<Rightarrow> Header \<Rightarrow> bytes \<Rightarrow> reader \<Rightarrow> (io_error, bytes \<times> nat) result" where
  "write_container a key h metadata database =
     and_then (plaintext_prefix metadata) (\<lambda>start.
       write_blocks a (new_sealer key h) \<lparr>ch_first = start, ch_second = database\<rparr> (to_bytes h) HEADER_BYTES)"

section \<open>Handing a backup out\<close>

text \<open>\<open>xp_dir\<close> says whether the private directory with the copy is still there.\<close>

record Export =
  xp_plaintext :: chain
  xp_sealer :: Sealer
  xp_header :: "Header option"
  xp_dir :: bool
  xp_content_length :: nat

definition next_block :: "aead \<Rightarrow> Export \<Rightarrow> Export \<times> (io_error, bytes option) result" where
  "next_block a x =
     (case xp_header x of
        Some h \<Rightarrow> (x\<lparr>xp_header := None\<rparr>, Inr (Some (to_bytes h)))
      | None \<Rightarrow>
          if \<not> xp_dir x then (x, Inr None)
          else
            (case fill False CHUNK_BYTES (xp_plaintext x) [] of
               (c, Inl e) \<Rightarrow> (x\<lparr>xp_plaintext := c\<rparr>, Inl (ReadError e))
             | (c, Inr chunk) \<Rightarrow>
                 (let last_one = length chunk < CHUNK_BYTES in
                  case seal a (xp_sealer x) chunk last_one of
                    (s, Inl e) \<Rightarrow> (x\<lparr>xp_plaintext := c, xp_sealer := s\<rparr>, Inl e)
                  | (s, Inr block) \<Rightarrow>
                      (if last_one then
                         x\<lparr>xp_plaintext := \<lparr>ch_first = [], ch_second = \<lparr>rd_left = [], rd_plan = []\<rparr>\<rparr>, xp_sealer := s, xp_dir := False\<rparr>
                       else x\<lparr>xp_plaintext := c, xp_sealer := s\<rparr>,
                       Inr (Some block)))))"

section \<open>Reading a backup\<close>

record Plaintext =
  pt_head :: bytes
  pt_metadata_len :: "nat option"

definition no_plaintext :: Plaintext where
  "no_plaintext = \<lparr>pt_head = [], pt_metadata_len = None\<rparr>"

text \<open>Once the length of the metadata is known: what is missing of the metadata, then the database.\<close>

definition take_rest :: "Plaintext \<Rightarrow> nat \<Rightarrow> bytes \<Rightarrow> bytes \<Rightarrow> Plaintext \<times> bytes" where
  "take_rest p metadata_len chunk database =
     (let missing = (4 + metadata_len) - length (pt_head p); taken = min missing (length chunk) in
      (p\<lparr>pt_head := pt_head p @ take taken chunk\<rparr>, database @ drop taken chunk))"

definition plaintext_take :: "Plaintext \<Rightarrow> bytes \<Rightarrow> bytes \<Rightarrow> (BackupError, Plaintext \<times> bytes) result" where
  "plaintext_take p chunk database =
     (case pt_metadata_len p of
        Some n \<Rightarrow> Inr (take_rest p n chunk database)
      | None \<Rightarrow>
          (let taken = min (4 - length (pt_head p)) (length chunk);
               head = pt_head p @ take taken chunk; chunk = drop taken chunk in
           if length head < 4 then Inr (p\<lparr>pt_head := head\<rparr>, database)
           else
             (let n = unat (be_value (take 4 head)) in
              ensure (1 \<le> n \<and> n \<le> MAX_METADATA_BYTES) Damaged
              (Inr (take_rest (p\<lparr>pt_head := head, pt_metadata_len := Some n\<rparr>) n chunk database)))))"

definition into_metadata :: "Plaintext \<Rightarrow> (BackupError, bytes) result" where
  "into_metadata p =
     (case pt_metadata_len p of
        Some n \<Rightarrow> if length (pt_head p) = 4 + n then Inr (drop 4 (pt_head p)) else Inl Damaged
      | None \<Rightarrow> Inl Damaged)"

definition read_exact :: "chain \<Rightarrow> nat \<Rightarrow> chain \<times> (BackupError, bytes) result" where
  "read_exact c n =
     (case fill True n c [] of
        (c1, Inl e) \<Rightarrow> (c1, Inl (BackupIo (ReadError e)))
      | (c1, Inr bs) \<Rightarrow> (c1, if length bs < n then Inl Damaged else Inr bs))"

function read_blocks ::
  "aead \<Rightarrow> bytes \<Rightarrow> Header \<Rightarrow> nat \<Rightarrow> nat \<Rightarrow> nat \<Rightarrow> chain \<Rightarrow> Plaintext \<Rightarrow> bytes \<Rightarrow> (BackupError, Plaintext \<times> bytes) result" where
  "read_blocks a key h body_len blocks index input p database =
     (if blocks \<le> index then Inr (p, database)
      else
        (let last_one = (index + 1 = blocks);
             size = (if last_one then body_len - index * BLOCK_BYTES else BLOCK_BYTES) in
         ensure (TAG_BYTES \<le> size) Damaged
         (ensure (index < 2 ^ 32) Damaged
         (case read_exact input size of
            (c, Inl e) \<Rightarrow> Inl e
          | (c, Inr block) \<Rightarrow>
              (case aead_decrypt a key (nonce (nonce_prefix h) (word_of_nat index) last_one) (to_bytes h) block of
                 None \<Rightarrow> Inl (if index = 0 then WrongPassword else Damaged)
               | Some chunk \<Rightarrow>
                   and_then (plaintext_take p chunk database) (\<lambda>(p1, database1).
                     read_blocks a key h body_len blocks (index + 1) c p1 database1))))))"
  by auto
termination
  by (relation "measure (\<lambda>(_, _, _, _, blocks, index, _). blocks - index)") auto

declare read_blocks.simps [simp del]

text \<open>The metadata and the database that was written out.\<close>

definition read_body :: "aead \<Rightarrow> bytes \<Rightarrow> Header \<Rightarrow> chain \<Rightarrow> nat \<Rightarrow> (BackupError, bytes \<times> bytes) result" where
  "read_body a key h input body_len =
     ensure (TAG_BYTES \<le> body_len) Damaged
     (and_then (read_blocks a key h body_len ((body_len + BLOCK_BYTES - 1) div BLOCK_BYTES) 0 input no_plaintext [])
       (\<lambda>(p, database). and_then (into_metadata p) (\<lambda>metadata. Inr (metadata, database))))"

section \<open>Metadata\<close>

definition utf8 :: "string \<Rightarrow> bytes" where
  "utf8 t = map of_char t"

record Metadata =
  md_created_at :: string
  md_app_key :: string
  md_app :: "Value option"

definition metadata_new :: "string \<Rightarrow> string \<Rightarrow> string \<Rightarrow> Metadata" where
  "metadata_new version created_at app_key =
     \<lparr>md_created_at = created_at, md_app_key = app_key,
      md_app = Some (JObject [(''runtime'', JString ''rust''), (''version'', JString version)])\<rparr>"

definition metadata_json :: "Metadata \<Rightarrow> Value" where
  "metadata_json m =
     JObject ([(''createdAt'', JString (md_created_at m)), (''appKey'', JString (md_app_key m))]
       @ (case md_app m of None \<Rightarrow> [] | Some app \<Rightarrow> [(''app'', app)]))"

text \<open>The checks of the validator, in its order.\<close>

definition metadata_parse :: "(bytes \<Rightarrow> Value option) \<Rightarrow> bytes \<Rightarrow> (BackupError, Metadata) result" where
  "metadata_parse from_slice bs =
     (case from_slice bs of
        Some (JObject members) \<Rightarrow>
          (case (json_get members ''createdAt'', json_get members ''appKey'') of
             (Some (JString created_at), Some (JString app_key)) \<Rightarrow>
               ensure (16 \<le> utf16_len app_key \<and> utf16_len app_key \<le> 512) Damaged
               (Inr \<lparr>md_created_at = created_at, md_app_key = app_key,
                     md_app = (case json_get members ''app'' of Some JNull \<Rightarrow> None | app \<Rightarrow> app)\<rparr>)
           | _ \<Rightarrow> Inl Damaged)
      | _ \<Rightarrow> Inl Damaged)"

text \<open>What \<open>Export::prepare\<close> hands out: \<open>copy\<close> reads the copy of the database, of \<open>copy_len\<close> bytes.\<close>

definition export_prepare ::
  "(string \<Rightarrow> bytes \<Rightarrow> 8 word \<Rightarrow> 8 word \<Rightarrow> 8 word \<Rightarrow> bytes) \<Rightarrow> (Value \<Rightarrow> string) \<Rightarrow> (bytes \<Rightarrow> Value option) \<Rightarrow> string \<Rightarrow> string \<Rightarrow> string
     \<Rightarrow> string \<Rightarrow> bytes \<Rightarrow> bytes \<Rightarrow> reader \<Rightarrow> nat \<Rightarrow> (io_error, Export) result" where
  "export_prepare scrypt to_string from_slice version created_at app_key given random_salt random_prefix copy copy_len =
     (let metadata = utf8 (to_string (metadata_json (metadata_new version created_at app_key))) in
      ensure (is_ok (metadata_parse from_slice metadata)) (InvalidInput ''APP_KEY is longer than the 512 characters a backup can hold'')
      (and_then (plaintext_prefix metadata) (\<lambda>start.
        let h = header_generate random_salt random_prefix; key = derive_key scrypt given h in
        Inr \<lparr>xp_plaintext = \<lparr>ch_first = start, ch_second = copy\<rparr>, xp_sealer = new_sealer key h, xp_header = Some h,
             xp_dir = True, xp_content_length = sealed_len (length start + copy_len)\<rparr>)))"

section \<open>Secrets encrypted anew\<close>

definition reencrypt_value :: "(string \<Rightarrow> string option) \<Rightarrow> (string \<Rightarrow> string) \<Rightarrow> string \<Rightarrow> string option" where
  "reencrypt_value decrypt encrypt stored = map_option encrypt (decrypt stored)"

definition reencrypt_entry :: "(string \<Rightarrow> string option) \<Rightarrow> (string \<Rightarrow> string) \<Rightarrow> Value \<Rightarrow> Value option" where
  "reencrypt_entry decrypt encrypt v =
     (case v of JString ciphertext \<Rightarrow> map_option JString (reencrypt_value decrypt encrypt ciphertext) | _ \<Rightarrow> None)"

definition reencrypt_map ::
  "(string \<Rightarrow> Value option) \<Rightarrow> (Value \<Rightarrow> string) \<Rightarrow> (string \<Rightarrow> string option) \<Rightarrow> (string \<Rightarrow> string) \<Rightarrow> string \<Rightarrow> string option" where
  "reencrypt_map from_str to_string decrypt encrypt stored =
     (case from_str stored of
        Some (JObject entries) \<Rightarrow>
          if list_ex (\<lambda>(k, v). reencrypt_entry decrypt encrypt v \<noteq> None) entries then
            Some (to_string (JObject (map (\<lambda>(k, v). (k, case reencrypt_entry decrypt encrypt v of Some next_one \<Rightarrow> next_one | None \<Rightarrow> v)) entries)))
          else None
      | _ \<Rightarrow> None)"

section \<open>Lemmas\<close>

lemma be_bytes_round_trip [simp]: "be_value (be_bytes w) = w"
proof (rule bit_word_eqI)
  fix n
  assume "n < LENGTH(32)"
  then show "bit (be_value (be_bytes w)) n = bit w n"
    by (cases "n < 8"; cases "n < 16"; cases "n < 24") (auto simp: be_value_def be_bytes_def bit_simps)
qed

lemma be_bytes_value: "length bs = 4 \<Longrightarrow> be_bytes (be_value bs) = bs"
proof -
  assume "length bs = 4"
  then obtain b0 b1 b2 b3 where "bs = [b0, b1, b2, b3]" by (auto simp: numeral_eq_Suc length_Suc_conv)
  then show ?thesis
    by (auto simp: be_bytes_def be_value_def bit_eq_iff bit_simps dest: bit_imp_le_length)
qed

lemma be_bytes_length [simp]: "length (be_bytes w) = 4"
  by (simp add: be_bytes_def)

lemma to_bytes_length: "length (salt h) = 16 \<Longrightarrow> length (nonce_prefix h) = 7 \<Longrightarrow> length (to_bytes h) = 36"
  by (simp add: to_bytes_def MAGIC_def)

definition calm :: "bool \<Rightarrow> chain \<Rightarrow> bool" where
  "calm retry c \<longleftrightarrow> Fails \<notin> set (rd_plan (ch_second c)) \<and> (retry \<or> Interrupts \<notin> set (rd_plan (ch_second c)))"

lemma read_chain_calm:
  assumes "read_chain c n = (c', x)" "calm retry c" "0 < n"
  shows "calm retry c' \<and> (case x of Inl e \<Rightarrow> e = Interrupted \<and> retry | Inr piece \<Rightarrow> piece = [] \<longrightarrow> left_of c = [])"
proof (cases "ch_first c")
  case Nil
  then show ?thesis
    using assms
    by (auto simp: read_chain_def read_some_def left_of_def calm_def Let_def split: prod.split_asm list.split_asm read_event.split_asm)
next
  case (Cons b bs)
  then show ?thesis using assms by (auto simp: read_chain_def calm_def)
qed

text \<open>A reader that does not fail gives what it holds, in whatever pieces.\<close>

lemma fill_calm:
  assumes "calm retry c"
  shows "\<exists>c'. fill retry n c filled = (c', Inr (filled @ take (n - length filled) (left_of c)))
     \<and> left_of c' = drop (n - length filled) (left_of c) \<and> calm retry c'"
  using assms
proof (induction retry n c filled rule: fill.induct)
  case (1 retry n c filled)
  show ?case
  proof (cases "n \<le> length filled")
    case True
    then show ?thesis using "1.prems" by (simp add: fill.simps)
  next
    case False
    obtain c1 x where r: "read_chain c (n - length filled) = (c1, x)" by (cases "read_chain c (n - length filled)")
    have calm1: "calm retry c1" "case x of Inl e \<Rightarrow> e = Interrupted \<and> retry | Inr piece \<Rightarrow> piece = [] \<longrightarrow> left_of c = []"
      using read_chain_calm [OF r "1.prems"] False by auto
    show ?thesis
    proof (cases x)
      case (Inl e)
      then have e: "e = Interrupted" "retry" using calm1 by auto
      then have "fill retry n c filled = fill retry n c1 filled" "left_of c1 = left_of c"
        using False r Inl read_chain_error [of c _ c1 e] by (simp_all add: fill.simps [of _ n c])
      then show ?thesis using "1.IH"(1) [OF False r [symmetric] Inl e] calm1(1) by simp
    next
      case (Inr piece)
      note keeps = read_chain_keeps [OF r [unfolded Inr]]
      show ?thesis
      proof (cases "piece = []")
        case True
        then show ?thesis using False r Inr keeps calm1 by (simp add: fill.simps [of retry n c])
      next
        case some: False
        then have "fill retry n c filled = fill retry n c1 (filled @ piece)"
          using False r Inr by (simp add: fill.simps [of retry n c])
        moreover have "n - length (filled @ piece) = n - length filled - length piece" by simp
        ultimately show ?thesis
          using "1.IH"(2) [OF False r [symmetric] Inr some calm1(1)] keeps by (simp add: take_Cons')
      qed
    qed
  qed
qed

section \<open>The format\<close>

text \<open>
  The file the documentation of the format describes, without readers or state: the plaintext in full chunks
  with a final one that holds the rest, each sealed under a nonce of its own.
\<close>

function pieces :: "bytes \<Rightarrow> bytes list" where
  "pieces t = (if length t < CHUNK_BYTES then [t] else take CHUNK_BYTES t # pieces (drop CHUNK_BYTES t))"
  by auto
termination by (relation "measure length") (auto simp: CHUNK_BYTES_def)

declare pieces.simps [simp del]

definition sealed_as :: "aead \<Rightarrow> bytes \<Rightarrow> Header \<Rightarrow> nat \<Rightarrow> bool \<Rightarrow> bytes \<Rightarrow> bytes \<Rightarrow> bool" where
  "sealed_as a key h i last_one chunk block \<longleftrightarrow>
     aead_encrypt a key (nonce (nonce_prefix h) (word_of_nat i) last_one) (to_bytes h) chunk = Some block"

fun sealed_body :: "aead \<Rightarrow> bytes \<Rightarrow> Header \<Rightarrow> nat \<Rightarrow> bytes list \<Rightarrow> bytes list \<Rightarrow> bool" where
  "sealed_body a key h i [] blocks = (blocks = [])"
| "sealed_body a key h i (c # cs) blocks =
     (case blocks of [] \<Rightarrow> False | b # bs \<Rightarrow> sealed_as a key h i (cs = []) c b \<and> sealed_body a key h (i + 1) cs bs)"

text \<open>What is relied on of AES-GCM: it takes a chunk, adds a tag of 16 bytes, and opens exactly what it sealed.\<close>

definition aead_ok :: "aead \<Rightarrow> bool" where
  "aead_ok a \<longleftrightarrow>
     (\<forall>k n d m. length m \<le> CHUNK_BYTES \<longrightarrow> aead_encrypt a k n d m \<noteq> None)
     \<and> (\<forall>k n d m c. aead_encrypt a k n d m = Some c \<longrightarrow> length c = length m + TAG_BYTES)
     \<and> (\<forall>k n d m c. aead_decrypt a k n d c = Some m \<longleftrightarrow> aead_encrypt a k n d m = Some c)"

lemma aead_seals: "aead_ok a \<Longrightarrow> length chunk \<le> CHUNK_BYTES \<Longrightarrow> \<exists>b. sealed_as a key h i l chunk b"
  by (auto simp: aead_ok_def sealed_as_def)

lemma sealed_length: "aead_ok a \<Longrightarrow> sealed_as a key h i l chunk b \<Longrightarrow> length b = length chunk + TAG_BYTES"
  by (auto simp: aead_ok_def sealed_as_def)

lemma opens_sealed:
  "aead_ok a \<Longrightarrow> aead_decrypt a key (nonce (nonce_prefix h) (word_of_nat i) l) (to_bytes h) b = Some chunk \<longleftrightarrow> sealed_as a key h i l chunk b"
  by (auto simp: aead_ok_def sealed_as_def)

lemma pieces_not_Nil [simp]: "pieces t \<noteq> []"
  by (subst pieces.simps) simp

lemma concat_pieces [simp]: "concat (pieces t) = t"
  by (induction t rule: pieces.induct) (subst pieces.simps, simp)

lemma length_pieces: "length (pieces t) = length t div CHUNK_BYTES + 1"
proof (induction t rule: pieces.induct)
  case (1 t)
  then show ?case
    by (subst pieces.simps) (simp add: le_div_geq CHUNK_BYTES_def)
qed

text \<open>Chunks as a reader takes them: full ones, then one that may be short.\<close>

fun cut_right :: "bytes list \<Rightarrow> bool" where
  "cut_right [] = False"
| "cut_right [c] = (length c \<le> CHUNK_BYTES)"
| "cut_right (c # cs) = (length c = CHUNK_BYTES \<and> cut_right cs)"

lemma cut_right_pieces: "cut_right (pieces t)"
proof (induction t rule: pieces.induct)
  case (1 t)
  show ?case
  proof (cases "length t < CHUNK_BYTES")
    case True
    then show ?thesis by (subst pieces.simps) simp
  next
    case False
    obtain c cs where "pieces (drop CHUNK_BYTES t) = c # cs" by (cases "pieces (drop CHUNK_BYTES t)") auto
    then show ?thesis using 1 [OF False] False by (subst pieces.simps) simp
  qed
qed

lemma sealed_body_exists:
  "aead_ok a \<Longrightarrow> cut_right cs \<Longrightarrow> \<exists>bs. sealed_body a key h i cs bs"
proof (induction cs arbitrary: i rule: cut_right.induct)
  case (2 c)
  then obtain b where "sealed_as a key h i True c b" using aead_seals by fastforce
  then show ?case by (intro exI [of _ "[b]"]) simp
next
  case (3 c c2 cs)
  then obtain b bs where "sealed_as a key h i False c b" "sealed_body a key h (i + 1) (c2 # cs) bs"
    using aead_seals [of a c] by fastforce
  then show ?case by (intro exI [of _ "b # bs"]) simp
qed simp

lemma sealed_body_length:
  "aead_ok a \<Longrightarrow> sealed_body a key h i cs bs \<Longrightarrow> length (concat bs) = length (concat cs) + TAG_BYTES * length cs"
  by (induction cs arbitrary: i bs) (auto simp: sealed_length split: list.split_asm)

section \<open>Writing\<close>

lemma seal_ok:
  assumes "aead_ok a" "length chunk \<le> CHUNK_BYTES" "l \<or> length chunk = CHUNK_BYTES" "i < 2 ^ 32"
  shows "\<exists>b. sealed_as a key h i l chunk b
     \<and> seal a ((new_sealer key h)\<lparr>sl_chunks := i\<rparr>) chunk l = ((new_sealer key h)\<lparr>sl_chunks := i + 1, sl_finished := l\<rparr>, Inr b)"
proof -
  obtain b where "sealed_as a key h i l chunk b" using aead_seals assms(1,2) by blast
  then show ?thesis using assms(2-4) by (intro exI [of _ b]) (auto simp: seal_def new_sealer_def sealed_as_def)
qed

lemma write_blocks_ok:
  assumes "aead_ok a" "calm True c" "i + length (pieces (left_of c)) \<le> 2 ^ 32"
  shows "\<exists>bs. sealed_body a key h i (pieces (left_of c)) bs
     \<and> write_blocks a ((new_sealer key h)\<lparr>sl_chunks := i\<rparr>) c out written = Inr (out @ concat bs, written + length (concat bs))"
  using assms(2,3)
proof (induction "left_of c" arbitrary: c i out written rule: pieces.induct)
  case 1
  let ?t = "left_of c"
  obtain c' where f: "read_chunk c = (c', Inr (take CHUNK_BYTES ?t))" "left_of c' = drop CHUNK_BYTES ?t" "calm True c'"
    using fill_calm [OF "1.prems"(1), of CHUNK_BYTES "[]"] by (auto simp: read_chunk_def)
  have i: "i < 2 ^ 32" using "1.prems"(2) pieces_not_Nil [of ?t] by (cases "pieces ?t") auto
  show ?case
  proof (cases "length ?t < CHUNK_BYTES")
    case True
    obtain b where b: "sealed_as a key h i True ?t b"
        "seal a ((new_sealer key h)\<lparr>sl_chunks := i\<rparr>) ?t True = ((new_sealer key h)\<lparr>sl_chunks := i + 1, sl_finished := True\<rparr>, Inr b)"
      using seal_ok [OF assms(1) _ _ i, of ?t True key h] True by auto
    then show ?thesis
      using True f(1) by (intro exI [of _ "[b]"]) (simp add: pieces.simps write_blocks.simps [of _ _ c])
  next
    case False
    let ?chunk = "take CHUNK_BYTES ?t"
    have len: "length ?chunk = CHUNK_BYTES" using False by simp
    obtain b where b: "sealed_as a key h i False ?chunk b"
        "seal a ((new_sealer key h)\<lparr>sl_chunks := i\<rparr>) ?chunk False = ((new_sealer key h)\<lparr>sl_chunks := i + 1, sl_finished := False\<rparr>, Inr b)"
      using seal_ok [OF assms(1) _ _ i, of ?chunk False key h] len by auto
    have same: "(new_sealer key h)\<lparr>sl_chunks := i + 1, sl_finished := False\<rparr> = (new_sealer key h)\<lparr>sl_chunks := i + 1\<rparr>"
      by (simp add: new_sealer_def)
    have pieces: "pieces ?t = ?chunk # pieces (left_of c')" using False f(2) by (subst pieces.simps) simp
    obtain bs where bs: "sealed_body a key h (i + 1) (pieces (left_of c')) bs"
        "write_blocks a ((new_sealer key h)\<lparr>sl_chunks := i + 1\<rparr>) c' (out @ b) (written + length b)
           = Inr ((out @ b) @ concat bs, written + length b + length (concat bs))"
      using "1.hyps" [OF False f(2) [symmetric] f(3), of "i + 1" "out @ b" "written + length b"] "1.prems"(2) pieces by auto
    show ?thesis
      using b bs f(1) len pieces False same
      by (intro exI [of _ "b # bs"]) (simp add: write_blocks.simps [of _ _ c] Let_def)
  qed
qed

section \<open>Reading\<close>

text \<open>Where the reader stands after the beginning \<open>t\<close> of the plaintext.\<close>

definition stands :: "bytes \<Rightarrow> Plaintext \<times> bytes" where
  "stands t =
     (if length t < 4 then (\<lparr>pt_head = t, pt_metadata_len = None\<rparr>, [])
      else let n = unat (be_value (take 4 t)) in (\<lparr>pt_head = take (4 + n) t, pt_metadata_len = Some n\<rparr>, drop (4 + n) t))"

definition sane :: "bytes \<Rightarrow> bool" where
  "sane t \<longleftrightarrow> 4 \<le> length t \<longrightarrow> 1 \<le> unat (be_value (take 4 t)) \<and> unat (be_value (take 4 t)) \<le> MAX_METADATA_BYTES"

lemma stands_Nil: "stands [] = (no_plaintext, [])"
  by (simp add: stands_def no_plaintext_def)

lemma take_rest_stands:
  "take_rest \<lparr>pt_head = take (4 + n) t, pt_metadata_len = Some n\<rparr> n chunk (drop (4 + n) t)
     = (\<lparr>pt_head = take (4 + n) (t @ chunk), pt_metadata_len = Some n\<rparr>, drop (4 + n) (t @ chunk))"
  by (auto simp: take_rest_def Let_def min_def)

lemma plaintext_take_stands:
  assumes "sane t"
  shows "plaintext_take (fst (stands t)) chunk (snd (stands t)) = (if sane (t @ chunk) then Inr (stands (t @ chunk)) else Inl Damaged)"
proof (cases "length t < 4")
  case False
  then show ?thesis
    using assms take_rest_stands [of "unat (be_value (take 4 t))" t chunk]
    by (simp add: plaintext_take_def stands_def sane_def Let_def)
next
  case True
  let ?k = "4 - length t"
  show ?thesis
  proof (cases "length (t @ chunk) < 4")
    case short: True
    then show ?thesis using True by (simp add: plaintext_take_def stands_def sane_def Let_def)
  next
    case long: False
    define front where "front = t @ take ?k chunk"
    define n where "n = unat (be_value front)"
    have front: "take 4 (t @ chunk) = front" "length front = 4" using True long by (simp_all add: front_def)
    have rest: "t @ chunk = front @ drop ?k chunk" by (simp add: front_def)
    have state: "stands t = (\<lparr>pt_head = t, pt_metadata_len = None\<rparr>, [])" using True by (simp add: stands_def)
    have "min ?k (length chunk) = ?k" using True long by simp
    then have "plaintext_take (fst (stands t)) chunk (snd (stands t)) = ensure (1 \<le> n \<and> n \<le> MAX_METADATA_BYTES) Damaged
        (Inr (take_rest \<lparr>pt_head = front, pt_metadata_len = Some n\<rparr> n (drop ?k chunk) []))"
      using front(2) True by (simp add: plaintext_take_def state Let_def n_def flip: front_def)
    moreover have "take_rest \<lparr>pt_head = front, pt_metadata_len = Some n\<rparr> n (drop ?k chunk) []
        = (\<lparr>pt_head = take (4 + n) (t @ chunk), pt_metadata_len = Some n\<rparr>, drop (4 + n) (t @ chunk))"
      unfolding rest using front(2) by (auto simp: take_rest_def Let_def min_def)
    moreover have "stands (t @ chunk) = (\<lparr>pt_head = take (4 + n) (t @ chunk), pt_metadata_len = Some n\<rparr>, drop (4 + n) (t @ chunk))"
      unfolding stands_def front(1) Let_def n_def using long by simp
    moreover have "sane (t @ chunk) \<longleftrightarrow> 1 \<le> n \<and> n \<le> MAX_METADATA_BYTES"
      unfolding sane_def front(1) n_def using long by simp
    ultimately show ?thesis by (simp add: ensure_def)
  qed
qed

lemma read_exact_calm:
  assumes "calm True c" "length (left_of c) \<ge> n"
  shows "\<exists>c'. read_exact c n = (c', Inr (take n (left_of c))) \<and> left_of c' = drop n (left_of c) \<and> calm True c'"
  using fill_calm [OF assms(1), of n "[]"] assms(2) by (auto simp: read_exact_def)

lemma read_exact_keeps: "read_exact c n = (c', Inr bs) \<Longrightarrow> left_of c = bs @ left_of c' \<and> n \<le> length bs"
  using fill_keeps [of True n c "[]"] by (auto simp: read_exact_def split: prod.split_asm sum.split_asm if_split_asm)

lemma fill_at_most: "fill retry n c filled = (c', Inr bs) \<Longrightarrow> length filled \<le> n \<Longrightarrow> length bs \<le> n"
proof (induction retry n c filled rule: fill.induct)
  case (1 retry n c filled)
  show ?case
  proof (cases "n \<le> length filled")
    case True
    then show ?thesis using "1.prems" by (simp add: fill.simps)
  next
    case False
    obtain c1 x where r: "read_chain c (n - length filled) = (c1, x)" by (cases "read_chain c (n - length filled)")
    show ?thesis
    proof (cases x)
      case (Inl e)
      then have "e = Interrupted" "retry" "fill retry n c1 filled = (c', Inr bs)"
        using "1.prems" False r by (auto simp: fill.simps [of retry n c] split: read_error.split_asm if_split_asm)
      then show ?thesis using "1.IH"(1) [OF False r [symmetric] Inl] "1.prems" by simp
    next
      case (Inr piece)
      then have "length piece \<le> n - length filled" using read_chain_keeps r by blast
      then show ?thesis
        using "1.IH"(2) [OF False r [symmetric] Inr] "1.prems" False r Inr
        by (cases "piece = []") (simp_all add: fill.simps [of retry n c])
    qed
  qed
qed

lemma sane_beginning: "sane (t @ u) \<Longrightarrow> sane t"
  by (cases "4 \<le> length t") (simp_all add: sane_def)

text \<open>What is left to read is sealed as the format says: it opens, and only the metadata's length may still be refused.\<close>

lemma read_blocks_opens:
  assumes "aead_ok a" "cut_right cs" "sealed_body a key h i cs bs" "calm True c" "left_of c = concat bs @ rest"
    "body_len = i * BLOCK_BYTES + length (concat bs)" "i + length cs \<le> 2 ^ 32" "sane (t @ concat cs)"
  shows "read_blocks a key h body_len (i + length cs) i c (fst (stands t)) (snd (stands t)) = Inr (stands (t @ concat cs))"
  using assms(2-)
proof (induction cs arbitrary: i bs c t rule: cut_right.induct)
  case 1
  then show ?case by simp
next
  case (2 chunk)
  then obtain b where b: "bs = [b]" "sealed_as a key h i True chunk b" by (auto split: list.split_asm)
  have len: "length b = length chunk + TAG_BYTES" using sealed_length assms(1) b(2) by blast
  obtain c' where r: "read_exact c (length b) = (c', Inr b)"
    using read_exact_calm [OF "2.prems"(3), of "length b"] "2.prems"(4) b(1) by auto
  have "read_blocks a key h body_len (i + 1) (i + 1) c' p d = Inr (p, d)" for p d
    by (simp add: read_blocks.simps)
  moreover have "aead_decrypt a key (nonce (nonce_prefix h) (word_of_nat i) True) (to_bytes h) b = Some chunk"
    using opens_sealed [OF assms(1)] b(2) by blast
  moreover have "body_len - i * BLOCK_BYTES = length b" using "2.prems"(5) b(1) by simp
  moreover have "TAG_BYTES \<le> length b" "i < 2 ^ 32" using len "2.prems"(6) by simp_all
  moreover have "plaintext_take (fst (stands t)) chunk (snd (stands t)) = Inr (stands (t @ chunk))"
    using "2.prems"(7) sane_beginning [of t chunk] plaintext_take_stands [of t chunk] by simp
  ultimately show ?case
    using r by (simp add: read_blocks.simps [of a key h _ _ i] Let_def split_beta)
next
  case (3 chunk c2 cs)
  then obtain b bs1 where b: "bs = b # bs1" "sealed_as a key h i False chunk b" "sealed_body a key h (i + 1) (c2 # cs) bs1"
    by (auto split: list.split_asm)
  have len: "length b = BLOCK_BYTES" using sealed_length [OF assms(1) b(2)] "3.prems"(1) by (simp add: BLOCK_BYTES_def)
  obtain c' where r: "read_exact c BLOCK_BYTES = (c', Inr b)" "left_of c' = concat bs1 @ rest" "calm True c'"
    using read_exact_calm [OF "3.prems"(3), of "length b"] "3.prems"(4) b(1) len by auto
  have sane: "sane (t @ chunk)" "sane t" using "3.prems"(7) sane_beginning [of "t @ chunk"] sane_beginning [of t] by simp_all
  have blocks: "i + length (chunk # c2 # cs) = (i + 1) + length (c2 # cs)" by simp
  have opens: "aead_decrypt a key (nonce (nonce_prefix h) (word_of_nat i) False) (to_bytes h) b = Some chunk"
    using opens_sealed [OF assms(1)] b(2) by blast
  have "read_blocks a key h body_len (i + length (chunk # c2 # cs)) i c (fst (stands t)) (snd (stands t))
      = read_blocks a key h body_len ((i + 1) + length (c2 # cs)) (i + 1) c' (fst (stands (t @ chunk))) (snd (stands (t @ chunk)))"
    using "3.prems"(6) r(1) opens sane plaintext_take_stands [of t chunk] unfolding blocks
    by (simp add: read_blocks.simps [of a key h _ _ i] Let_def split_beta BLOCK_BYTES_def)
  also have "\<dots> = Inr (stands ((t @ chunk) @ concat (c2 # cs)))"
    using "3.prems" b len by (intro "3.IH" [OF _ b(3) r(3,2)]) (simp_all add: algebra_simps)
  finally show ?case by simp
qed

lemma read_exact_length: "read_exact c n = (c', Inr bs) \<Longrightarrow> length bs = n"
  using fill_at_most [of True n c "[]"] by (auto simp: read_exact_def split: prod.split_asm sum.split_asm if_split_asm)

text \<open>One block that was read: it was sealed, in its place, and holds what is added to the plaintext.\<close>

lemma read_blocks_step:
  assumes "aead_ok a" "sane t" "i < blocks"
    and "read_blocks a key h body_len blocks i c (fst (stands t)) (snd (stands t)) = Inr q"
  obtains c1 b chunk where "left_of c = b @ left_of c1" "sealed_as a key h i (i + 1 = blocks) chunk b"
    "length b = (if i + 1 = blocks then body_len - i * BLOCK_BYTES else BLOCK_BYTES)" "sane (t @ chunk)"
    "read_blocks a key h body_len blocks (i + 1) c1 (fst (stands (t @ chunk))) (snd (stands (t @ chunk))) = Inr q"
proof -
  let ?last = "i + 1 = blocks"
  let ?size = "if ?last then body_len - i * BLOCK_BYTES else BLOCK_BYTES"
  obtain c1 x where r: "read_exact c ?size = (c1, x)" by (cases "read_exact c ?size")
  note run = assms(4) [unfolded read_blocks.simps [of a key h body_len blocks i] Let_def]
  obtain b where b: "x = Inr b"
    using run assms(3) r by (cases x) (auto simp: result_simps split: if_split_asm)
  obtain chunk where chunk: "aead_decrypt a key (nonce (nonce_prefix h) (word_of_nat i) ?last) (to_bytes h) b = Some chunk"
    using run assms(3) r b
    by (cases "aead_decrypt a key (nonce (nonce_prefix h) (word_of_nat i) ?last) (to_bytes h) b") (auto simp: result_simps)
  have "sane (t @ chunk)"
    using run assms(2,3) r b chunk by (cases "sane (t @ chunk)") (auto simp: result_simps plaintext_take_stands)
  moreover from this have "read_blocks a key h body_len blocks (i + 1) c1 (fst (stands (t @ chunk))) (snd (stands (t @ chunk))) = Inr q"
    using run assms(2,3) r b chunk by (auto simp: result_simps plaintext_take_stands split_beta)
  moreover have "sealed_as a key h i ?last chunk b" using chunk opens_sealed [OF assms(1)] by blast
  ultimately show ?thesis
    using that [of b c1 chunk] r b read_exact_keeps [of c ?size c1 b] read_exact_length [of c ?size c1 b] by simp
qed

lemma read_blocks_sound:
  assumes "aead_ok a" "sane t" "i < blocks" "body_len \<le> blocks * BLOCK_BYTES"
    and "read_blocks a key h body_len blocks i c (fst (stands t)) (snd (stands t)) = Inr q"
  shows "\<exists>cs bs rest. cut_right cs \<and> sealed_body a key h i cs bs \<and> left_of c = concat bs @ rest
     \<and> length (concat bs) = body_len - i * BLOCK_BYTES \<and> q = stands (t @ concat cs) \<and> sane (t @ concat cs)"
  using assms(2,3,5)
proof (induction "blocks - i" arbitrary: i c t)
  case 0
  then show ?case by simp
next
  case (Suc k)
  obtain c1 b chunk where s: "left_of c = b @ left_of c1" "sealed_as a key h i (i + 1 = blocks) chunk b"
      "length b = (if i + 1 = blocks then body_len - i * BLOCK_BYTES else BLOCK_BYTES)" "sane (t @ chunk)"
      "read_blocks a key h body_len blocks (i + 1) c1 (fst (stands (t @ chunk))) (snd (stands (t @ chunk))) = Inr q"
    using read_blocks_step [OF assms(1) Suc.prems(1,2,3)] .
  have len: "length b = length chunk + TAG_BYTES" using sealed_length [OF assms(1) s(2)] .
  show ?case
  proof (cases "i + 1 = blocks")
    case True
    then have "q = stands (t @ chunk)" using s(5) by (simp add: read_blocks.simps [of _ _ _ _ blocks blocks])
    moreover have "length b \<le> BLOCK_BYTES" using True s(3) assms(4) by (auto simp: algebra_simps)
    ultimately show ?thesis
      using True s len by (intro exI [of _ "[chunk]"] exI [of _ "[b]"] exI [of _ "left_of c1"]) (auto simp: BLOCK_BYTES_def)
  next
    case False
    then have "k = blocks - (i + 1)" "i + 1 < blocks" using Suc.hyps(2) Suc.prems(2) by auto
    from Suc.hyps(1) [OF this(1) s(4) this(2) s(5)]
    obtain cs bs rest where r: "cut_right cs" "sealed_body a key h (i + 1) cs bs" "left_of c1 = concat bs @ rest"
        "length (concat bs) = body_len - (i + 1) * BLOCK_BYTES" "q = stands ((t @ chunk) @ concat cs)" "sane ((t @ chunk) @ concat cs)"
      by blast
    have "cs \<noteq> []" using r(1) by auto
    moreover have "length chunk = CHUNK_BYTES" using len s(3) False by (simp add: BLOCK_BYTES_def)
    ultimately have "cut_right (chunk # cs)" using r(1) by (cases cs) auto
    moreover have "length (concat bs) > 0"
      using sealed_body_length [OF assms(1) r(2)] \<open>cs \<noteq> []\<close> by (simp add: TAG_BYTES_def)
    ultimately show ?thesis
      using s False r \<open>cs \<noteq> []\<close>
      by (intro exI [of _ "chunk # cs"] exI [of _ "b # bs"] exI [of _ rest]) auto
  qed
qed

section \<open>Properties\<close>

definition header_ok :: "Header \<Rightarrow> bool" where
  "header_ok h \<longleftrightarrow> length (salt h) = SALT_BYTES \<and> length (nonce_prefix h) = NONCE_PREFIX_BYTES \<and> MIN_LOG_N \<le> log_n h \<and> log_n h \<le> MAX_LOG_N"

lemma header_parse_to_bytes:
  assumes "header_ok h"
  shows "header_parse (to_bytes h @ rest) = Inr h"
proof -
  have len: "length (salt h) = 16" "length (nonce_prefix h) = 7" using assms by (simp_all add: header_ok_def backup_consts)
  have taken: "take HEADER_BYTES (to_bytes h @ rest) = to_bytes h" using to_bytes_length [OF len] by (simp add: HEADER_BYTES_def)
  have "take 16 (drop 13 (to_bytes h)) = salt h" "take 7 (drop 29 (to_bytes h)) = nonce_prefix h" "take 8 (to_bytes h) = MAGIC"
    using len by (simp_all add: to_bytes_def MAGIC_def)
  moreover have "to_bytes h ! 8 = FORMAT_VERSION" "to_bytes h ! 9 = KDF_SCRYPT" "to_bytes h ! 10 = log_n h" "to_bytes h ! 11 = SCRYPT_R"
      "to_bytes h ! 12 = SCRYPT_P"
    by (simp_all add: to_bytes_def MAGIC_def)
  moreover have "\<not> length (to_bytes h @ rest) < HEADER_BYTES" using to_bytes_length [OF len] by (simp add: HEADER_BYTES_def)
  ultimately show ?thesis
    using assms unfolding header_parse_def taken by (simp add: Let_def header_ok_def SALT_BYTES_def NONCE_PREFIX_BYTES_def)
qed

lemma into_metadata_stands:
  assumes "length metadata \<le> MAX_METADATA_BYTES"
  shows "into_metadata (fst (stands (be_bytes (word_of_nat (length metadata)) @ metadata @ database))) = Inr metadata
     \<and> snd (stands (be_bytes (word_of_nat (length metadata)) @ metadata @ database)) = database"
proof -
  have "unat (word_of_nat (length metadata) :: 32 word) = length metadata"
    using assms by (simp add: unat_of_nat take_bit_nat_eq_self MAX_METADATA_BYTES_def)
  then show ?thesis by (simp add: stands_def into_metadata_def Let_def)
qed

lemma sane_prefixed:
  assumes "metadata \<noteq> []" "length metadata \<le> MAX_METADATA_BYTES"
  shows "sane (be_bytes (word_of_nat (length metadata)) @ metadata @ database)"
proof -
  have "unat (word_of_nat (length metadata) :: 32 word) = length metadata"
    using assms by (simp add: unat_of_nat take_bit_nat_eq_self MAX_METADATA_BYTES_def)
  then show ?thesis using assms by (cases metadata) (simp_all add: sane_def)
qed

lemma blocks_of_body:
  fixes n :: nat
  assumes "m = n + TAG_BYTES * (n div CHUNK_BYTES + 1)"
  shows "(m + BLOCK_BYTES - 1) div BLOCK_BYTES = n div CHUNK_BYTES + 1"
proof -
  define q r where "q = n div CHUNK_BYTES" and "r = n mod CHUNK_BYTES"
  have "n = q * CHUNK_BYTES + r" "r < CHUNK_BYTES" by (simp_all add: q_def r_def CHUNK_BYTES_def)
  then have "m + BLOCK_BYTES - 1 = (r + TAG_BYTES - 1) + (q + 1) * BLOCK_BYTES" "r + TAG_BYTES - 1 < BLOCK_BYTES"
    using assms by (simp_all add: q_def [symmetric] BLOCK_BYTES_def TAG_BYTES_def algebra_simps)
  moreover have "((r + TAG_BYTES - 1) + (q + 1) * BLOCK_BYTES) div BLOCK_BYTES = (q + 1) + (r + TAG_BYTES - 1) div BLOCK_BYTES"
    by (rule div_mult_self1) (simp add: BLOCK_BYTES_def TAG_BYTES_def)
  ultimately show ?thesis by (simp add: q_def [symmetric])
qed

text \<open>A file as the format describes it.\<close>

definition container_of :: "aead \<Rightarrow> bytes \<Rightarrow> Header \<Rightarrow> bytes list \<Rightarrow> bytes \<Rightarrow> bool" where
  "container_of a key h cs file \<longleftrightarrow> (\<exists>bs. sealed_body a key h 0 cs bs \<and> file = to_bytes h @ concat bs)"

lemma write_container_ok:
  assumes "aead_ok a" "header_ok h" "metadata \<noteq> []" "length metadata \<le> MAX_METADATA_BYTES" "Fails \<notin> set (rd_plan database)"
    and "4 + length metadata + length (rd_left database) < 2 ^ 32 * CHUNK_BYTES"
  shows "\<exists>file. write_container a key h metadata database = Inr (file, length file)
     \<and> container_of a key h (pieces (be_bytes (word_of_nat (length metadata)) @ metadata @ rd_left database)) file
     \<and> length file = sealed_len (4 + length metadata + length (rd_left database))"
proof -
  let ?start = "be_bytes (word_of_nat (length metadata)) @ metadata"
  let ?c = "\<lparr>ch_first = ?start, ch_second = database\<rparr>"
  let ?n = "4 + length metadata + length (rd_left database)"
  have left: "left_of ?c = ?start @ rd_left database" by (simp add: left_of_def)
  have n: "length (left_of ?c) = ?n" by (simp add: left)
  have "length (pieces (left_of ?c)) \<le> 2 ^ 32"
    using assms(6) by (simp add: length_pieces n CHUNK_BYTES_def del: length_append)
  moreover have "calm True ?c" using assms(5) by (simp add: calm_def)
  ultimately obtain bs where bs: "sealed_body a key h 0 (pieces (left_of ?c)) bs"
      "write_blocks a ((new_sealer key h)\<lparr>sl_chunks := 0\<rparr>) ?c (to_bytes h) HEADER_BYTES
         = Inr (to_bytes h @ concat bs, HEADER_BYTES + length (concat bs))"
    using write_blocks_ok [OF assms(1), of ?c 0 key h "to_bytes h" HEADER_BYTES] by auto
  have sealer: "(new_sealer key h)\<lparr>sl_chunks := 0\<rparr> = new_sealer key h" by (simp add: new_sealer_def)
  have header: "length (to_bytes h) = HEADER_BYTES"
    using assms(2) to_bytes_length [of h] by (simp add: header_ok_def backup_consts)
  have "plaintext_prefix metadata = Inr ?start" using assms(3,4) by (simp add: plaintext_prefix_def)
  then have "write_container a key h metadata database = Inr (to_bytes h @ concat bs, length (to_bytes h @ concat bs))"
    using bs(2) by (simp add: write_container_def sealer header)
  moreover have "length (to_bytes h @ concat bs) = sealed_len ?n"
    using sealed_body_length [OF assms(1) bs(1)] n by (simp add: header sealed_len_def length_pieces)
  ultimately show ?thesis using bs(1) left by (auto simp: container_of_def)
qed

text \<open>C35: A backup reads back. Of any metadata of at most 64 KB and any database of fewer than 2^32 chunks, the writer makes a
  file of exactly the announced size; its header reads back as it was, and with the same key the body gives back the metadata
  and the database, byte for byte, in whatever pieces and with whatever interruptions the two are read.\<close>

theorem backup_round_trip:
  assumes "aead_ok a" "header_ok h" "metadata \<noteq> []" "length metadata \<le> MAX_METADATA_BYTES" "Fails \<notin> set (rd_plan database)"
    and "4 + length metadata + length (rd_left database) < 2 ^ 32 * CHUNK_BYTES"
    and "Fails \<notin> set plan"
  shows "\<exists>file. write_container a key h metadata database = Inr (file, length file)
     \<and> length file = sealed_len (4 + length metadata + length (rd_left database))
     \<and> header_parse file = Inr h
     \<and> read_body a key h \<lparr>ch_first = [], ch_second = \<lparr>rd_left = drop HEADER_BYTES file, rd_plan = plan\<rparr>\<rparr> (length file - HEADER_BYTES)
         = Inr (metadata, rd_left database)"
proof -
  let ?t = "be_bytes (word_of_nat (length metadata)) @ metadata @ rd_left database"
  obtain made where made: "write_container a key h metadata database = Inr (made, length made)" "container_of a key h (pieces ?t) made"
      "length made = sealed_len (4 + length metadata + length (rd_left database))"
    using write_container_ok [OF assms(1-6)] by blast
  obtain bs where bs: "sealed_body a key h 0 (pieces ?t) bs" "made = to_bytes h @ concat bs"
    using made(2) by (auto simp: container_of_def)
  have header: "length (to_bytes h) = HEADER_BYTES"
    using assms(2) to_bytes_length [of h] by (simp add: header_ok_def backup_consts)
  define body where "body = length (concat bs)"
  let ?input = "\<lparr>ch_first = [], ch_second = \<lparr>rd_left = drop HEADER_BYTES made, rd_plan = plan\<rparr>\<rparr>"
  have n: "length ?t = 4 + length metadata + length (rd_left database)" by simp
  have body: "body = length ?t + TAG_BYTES * (length ?t div CHUNK_BYTES + 1)"
    using sealed_body_length [OF assms(1) bs(1)] by (simp add: body_def length_pieces del: length_append)
  have blocks: "(body + BLOCK_BYTES - 1) div BLOCK_BYTES = length (pieces ?t)"
    using blocks_of_body [OF body] by (simp add: length_pieces)
  have few: "length (pieces ?t) \<le> 2 ^ 32" using assms(6) unfolding length_pieces n by (simp add: CHUNK_BYTES_def)
  have input: "calm True ?input" "left_of ?input = concat bs @ []"
    using assms(7) bs(2) header by (simp_all add: calm_def left_of_def)
  have "read_blocks a key h body (0 + length (pieces ?t)) 0 ?input (fst (stands [])) (snd (stands [])) = Inr (stands ([] @ concat (pieces ?t)))"
    by (rule read_blocks_opens [OF assms(1) cut_right_pieces bs(1) input])
      (use few sane_prefixed [OF assms(3,4)] in \<open>simp_all add: body_def\<close>)
  then have "read_blocks a key h body (length (pieces ?t)) 0 ?input no_plaintext [] = Inr (stands ?t)"
    unfolding stands_Nil by simp
  moreover have "TAG_BYTES \<le> body" using body by simp
  ultimately have "read_body a key h ?input body = Inr (metadata, rd_left database)"
    using into_metadata_stands [OF assms(4), of "rd_left database"] unfolding read_body_def blocks by (simp add: split_beta)
  moreover have "length made - HEADER_BYTES = body" using bs(2) header by (simp add: body_def)
  ultimately show ?thesis
    using made(1,3) bs(2) header_parse_to_bytes [OF assms(2)] by auto
qed

lemma cut_in_three: "take m t @ drop m (take (m + n) t) @ drop (m + n) t = t"
proof -
  have "drop m (take (m + n) t) = take n (drop m t)" by (simp add: drop_take)
  moreover have "drop (m + n) t = drop n (drop m t)" by (simp add: add.commute)
  ultimately show ?thesis by (simp only: append_take_drop_id)
qed

text \<open>C36: A backup opens only if it was sealed. Whatever bytes are read, in whatever pieces: when the body of a file
  opens under a key, those bytes are, block for block and in their order, the sealed chunks of the metadata and database that
  are returned, each sealed under that key and this header, at its own place, the final one and only that one as the final
  one. A file that was altered, cut, reordered or sealed with another password gives no database.\<close>

theorem backup_opens_only_sealed:
  assumes "aead_ok a" and "read_body a key h input body_len = Inr (metadata, database)"
  shows "\<exists>cs bs rest. left_of input = concat bs @ rest \<and> length (concat bs) = body_len \<and> sealed_body a key h 0 cs bs \<and> cut_right cs
     \<and> concat cs = be_bytes (word_of_nat (length metadata)) @ metadata @ database
     \<and> 1 \<le> length metadata \<and> length metadata \<le> MAX_METADATA_BYTES"
proof -
  let ?blocks = "(body_len + BLOCK_BYTES - 1) div BLOCK_BYTES"
  obtain p where p: "TAG_BYTES \<le> body_len" "read_blocks a key h body_len ?blocks 0 input no_plaintext [] = Inr (p, database)"
      "into_metadata p = Inr metadata"
    using assms(2) by (auto simp: read_body_def result_simps)
  have blocks: "0 < ?blocks" "body_len \<le> ?blocks * BLOCK_BYTES"
  proof -
    show "0 < ?blocks" using p(1) by (simp add: div_greater_zero_iff BLOCK_BYTES_def TAG_BYTES_def CHUNK_BYTES_def)
    have "(body_len + BLOCK_BYTES - 1) mod BLOCK_BYTES < BLOCK_BYTES" by (simp add: BLOCK_BYTES_def TAG_BYTES_def)
    then show "body_len \<le> ?blocks * BLOCK_BYTES"
      using div_mult_mod_eq [of "body_len + BLOCK_BYTES - 1" BLOCK_BYTES] by linarith
  qed
  have "read_blocks a key h body_len ?blocks 0 input (fst (stands [])) (snd (stands [])) = Inr (p, database)"
    using p(2) by (simp add: stands_Nil)
  from read_blocks_sound [OF assms(1) _ blocks this]
  obtain cs bs rest where r: "cut_right cs" "sealed_body a key h 0 cs bs" "left_of input = concat bs @ rest"
      "length (concat bs) = body_len" "(p, database) = stands (concat cs)" "sane (concat cs)"
    by (auto simp: sane_def)
  have long: "4 \<le> length (concat cs)" using r(5) p(3) by (auto simp: stands_def into_metadata_def Let_def split: if_split_asm)
  define n where "n = unat (be_value (take 4 (concat cs)))"
  have at: "p = \<lparr>pt_head = take (4 + n) (concat cs), pt_metadata_len = Some n\<rparr>" "database = drop (4 + n) (concat cs)"
    using r(5) long by (simp_all add: stands_def n_def Let_def)
  then have meta: "length (take (4 + n) (concat cs)) = 4 + n" "metadata = drop 4 (take (4 + n) (concat cs))"
    using p(3) by (auto simp: into_metadata_def split: if_split_asm)
  have "concat cs = take 4 (concat cs) @ metadata @ database"
    unfolding meta(2) at(2) by (rule cut_in_three [symmetric])
  moreover have "length metadata = n" using meta by simp
  moreover have "be_bytes (word_of_nat n) = take 4 (concat cs)"
    using long unfolding n_def by (simp add: be_bytes_value)
  moreover have "1 \<le> n \<and> n \<le> MAX_METADATA_BYTES" using r(6) long by (simp add: sane_def n_def)
  ultimately show ?thesis using r(1-4) by metis
qed

section \<open>Handing out what is written\<close>

text \<open>The blocks an export hands out, until it says that there are no more: \<open>None\<close> when that takes more than \<open>n\<close> calls.\<close>

fun drain :: "nat \<Rightarrow> aead \<Rightarrow> Export \<Rightarrow> (io_error, bytes list) result option" where
  "drain 0 a x = None"
| "drain (Suc n) a x =
     (case next_block a x of
        (x1, Inl e) \<Rightarrow> Some (Inl e)
      | (x1, Inr None) \<Rightarrow> Some (Inr [])
      | (x1, Inr (Some block)) \<Rightarrow>
          (case drain n a x1 of None \<Rightarrow> None | Some (Inl e) \<Rightarrow> Some (Inl e) | Some (Inr blocks) \<Rightarrow> Some (Inr (block # blocks))))"

definition exporting :: "bytes \<Rightarrow> Header \<Rightarrow> nat \<Rightarrow> chain \<Rightarrow> nat \<Rightarrow> Export" where
  "exporting key h i c size_announced =
     \<lparr>xp_plaintext = c, xp_sealer = (new_sealer key h)\<lparr>sl_chunks := i\<rparr>, xp_header = None, xp_dir = True, xp_content_length = size_announced\<rparr>"

lemma drain_ok:
  assumes "aead_ok a" "calm False c" "i + length (pieces (left_of c)) \<le> 2 ^ 32" "length (pieces (left_of c)) < n"
  shows "\<exists>bs. sealed_body a key h i (pieces (left_of c)) bs \<and> drain n a (exporting key h i c size_announced) = Some (Inr bs)"
  using assms(2-)
proof (induction "left_of c" arbitrary: c i n rule: pieces.induct)
  case 1
  let ?t = "left_of c"
  obtain c' where f: "fill False CHUNK_BYTES c [] = (c', Inr (take CHUNK_BYTES ?t))" "left_of c' = drop CHUNK_BYTES ?t" "calm False c'"
    using fill_calm [OF "1.prems"(1), of CHUNK_BYTES "[]"] by auto
  have i: "i < 2 ^ 32" using "1.prems"(2) pieces_not_Nil [of ?t] by (cases "pieces ?t") auto
  obtain m where m: "n = Suc m" using "1.prems"(3) by (cases n) auto
  show ?case
  proof (cases "length ?t < CHUNK_BYTES")
    case True
    obtain b where b: "sealed_as a key h i True ?t b"
        "seal a ((new_sealer key h)\<lparr>sl_chunks := i\<rparr>) ?t True = ((new_sealer key h)\<lparr>sl_chunks := i + 1, sl_finished := True\<rparr>, Inr b)"
      using seal_ok [OF assms(1) _ _ i, of ?t True key h] True by auto
    obtain k where k: "m = Suc k" using "1.prems"(3) m True by (cases m) (auto simp: pieces.simps)
    show ?thesis
      using True f(1) b by (intro exI [of _ "[b]"]) (simp add: m k pieces.simps exporting_def next_block_def)
  next
    case False
    let ?chunk = "take CHUNK_BYTES ?t"
    have len: "length ?chunk = CHUNK_BYTES" using False by simp
    obtain b where b: "sealed_as a key h i False ?chunk b"
        "seal a ((new_sealer key h)\<lparr>sl_chunks := i\<rparr>) ?chunk False = ((new_sealer key h)\<lparr>sl_chunks := i + 1, sl_finished := False\<rparr>, Inr b)"
      using seal_ok [OF assms(1) _ _ i, of ?chunk False key h] len by auto
    have pieces: "pieces ?t = ?chunk # pieces (left_of c')" using False f(2) by (subst pieces.simps) simp
    obtain bs where bs: "sealed_body a key h (i + 1) (pieces (left_of c')) bs" "drain m a (exporting key h (i + 1) c' size_announced) = Some (Inr bs)"
      using "1.hyps" [OF False f(2) [symmetric] f(3), of "i + 1" m] "1.prems"(2,3) pieces m by auto
    have "next_block a (exporting key h i c size_announced) = (exporting key h (i + 1) c' size_announced, Inr (Some b))"
      using f(1) b(2) len by (simp add: exporting_def next_block_def new_sealer_def Let_def)
    then show ?thesis using b(1) bs pieces m by (intro exI [of _ "b # bs"]) simp
  qed
qed

lemma sealed_body_unique: "sealed_body a key h i cs bs \<Longrightarrow> sealed_body a key h i cs bs' \<Longrightarrow> bs = bs'"
  by (induction cs arbitrary: i bs bs') (auto simp: sealed_as_def split: list.split_asm)

text \<open>The server hands out the file the format describes. An export, asked for its next block until there is none, ends; the
  blocks together are the very file that the one-function writer makes of the same metadata and database, and their size is
  the one that was announced before the first byte.\<close>

theorem export_is_the_container:
  assumes "aead_ok a"
    and prepared: "export_prepare scrypt to_string from_slice version created_at app_key given random_salt random_prefix copy copy_len = Inr x"
    and "length random_salt = SALT_BYTES" "length random_prefix = NONCE_PREFIX_BYTES"
    and "Fails \<notin> set (rd_plan copy)" "Interrupts \<notin> set (rd_plan copy)" "copy_len = length (rd_left copy)"
    and "4 + MAX_METADATA_BYTES + copy_len < 2 ^ 32 * CHUNK_BYTES"
    and "xp_content_length x \<le> n"
  shows "\<exists>blocks. drain n a x = Some (Inr blocks) \<and> length (concat blocks) = xp_content_length x
     \<and> write_container a (derive_key scrypt given (header_generate random_salt random_prefix)) (header_generate random_salt random_prefix)
          (utf8 (to_string (metadata_json (metadata_new version created_at app_key)))) copy = Inr (concat blocks, xp_content_length x)"
proof -
  define metadata where "metadata = utf8 (to_string (metadata_json (metadata_new version created_at app_key)))"
  define h where "h = header_generate random_salt random_prefix"
  define key where "key = derive_key scrypt given h"
  let ?start = "be_bytes (word_of_nat (length metadata)) @ metadata"
  let ?c = "\<lparr>ch_first = ?start, ch_second = copy\<rparr>"
  have meta: "metadata \<noteq> []" "length metadata \<le> MAX_METADATA_BYTES"
    and x: "x = (exporting key h 0 ?c (sealed_len (length ?start + copy_len)))\<lparr>xp_header := Some h\<rparr>"
    using prepared
    by (auto simp: export_prepare_def result_simps plaintext_prefix_def Let_def exporting_def new_sealer_def
        metadata_def [symmetric] h_def [symmetric] key_def [symmetric])
  have header: "header_ok h" using assms(3,4) by (simp add: h_def header_generate_def header_ok_def backup_consts)
  have size_ok: "4 + length metadata + length (rd_left copy) < 2 ^ 32 * CHUNK_BYTES" using assms(7,8) meta(2) by simp
  obtain made where made: "write_container a key h metadata copy = Inr (made, length made)" "container_of a key h (pieces (?start @ rd_left copy)) made"
      "length made = sealed_len (4 + length metadata + length (rd_left copy))"
    using write_container_ok [OF assms(1) header meta assms(5) size_ok, of key] unfolding append.assoc by blast
  have left: "left_of ?c = ?start @ rd_left copy" by (simp add: left_of_def)
  have count: "length (pieces (left_of ?c)) = (4 + length metadata + length (rd_left copy)) div CHUNK_BYTES + 1"
    by (simp add: length_pieces left add.assoc)
  have len: "xp_content_length x = length made" by (simp add: x exporting_def made(3) assms(7))
  obtain m where m: "n = Suc m" "length (pieces (left_of ?c)) < m"
  proof -
    have "length (pieces (left_of ?c)) + 2 \<le> n" using assms(9) unfolding len made(3) count by (simp add: sealed_len_def backup_consts)
    then show ?thesis using that [of "n - 1"] by simp
  qed
  have "length (pieces (left_of ?c)) \<le> 2 ^ 32" using size_ok unfolding count by (simp add: CHUNK_BYTES_def)
  moreover have "calm False ?c" using assms(5,6) by (simp add: calm_def)
  ultimately obtain bs where bs: "sealed_body a key h 0 (pieces (left_of ?c)) bs"
      "drain m a (exporting key h 0 ?c (sealed_len (length ?start + copy_len))) = Some (Inr bs)"
    using drain_ok [OF assms(1), of ?c 0 m key h "sealed_len (length ?start + copy_len)"] m(2) by auto
  have "next_block a x = (exporting key h 0 ?c (sealed_len (length ?start + copy_len)), Inr (Some (to_bytes h)))"
    by (simp add: x next_block_def exporting_def)
  then have "drain n a x = Some (Inr (to_bytes h # bs))" using bs(2) m(1) by simp
  moreover have "made = concat (to_bytes h # bs)"
    using made(2) bs(1) sealed_body_unique unfolding container_of_def left by fastforce
  ultimately show ?thesis using made(1) len unfolding metadata_def [symmetric] h_def [symmetric] key_def [symmetric] by auto
qed

section \<open>Nonces\<close>

text \<open>The nonces that a sealer hands to the cipher over any calls of it.\<close>

fun nonces_used :: "aead \<Rightarrow> Sealer \<Rightarrow> (bytes \<times> bool) list \<Rightarrow> bytes list" where
  "nonces_used a s [] = []"
| "nonces_used a s ((chunk, last_one) # calls) =
     (case seal a s chunk last_one of
        (s1, Inl e) \<Rightarrow> nonces_used a s1 calls
      | (s1, Inr block) \<Rightarrow> nonce (sl_nonce_prefix s) (word_of_nat (sl_chunks s)) last_one # nonces_used a s1 calls)"

lemma nonce_inject: "nonce start c l = nonce start c' l' \<longleftrightarrow> c = c' \<and> l = l'"
proof -
  have "be_bytes c = be_bytes c' \<Longrightarrow> c = c'" by (metis be_bytes_round_trip)
  then show ?thesis by (auto simp: nonce_def split: if_split_asm)
qed

lemma nonces_used_later:
  "b \<in> set (nonces_used a s calls) \<Longrightarrow>
   \<exists>i l. sl_chunks s \<le> i \<and> i < 2 ^ 32 \<and> b = nonce (sl_nonce_prefix s) (word_of_nat i) l"
proof (induction a s calls rule: nonces_used.induct)
  case (2 a s chunk last_one calls)
  obtain s1 x where r: "seal a s chunk last_one = (s1, x)" by (cases "seal a s chunk last_one")
  show ?case
  proof (cases x)
    case (Inl e)
    then have "s1 = s" using r by (auto simp: seal_def split: if_split_asm option.split_asm)
    then show ?thesis using 2 r Inl by simp
  next
    case (Inr block)
    then have "sl_chunks s1 = sl_chunks s + 1" "sl_nonce_prefix s1 = sl_nonce_prefix s" "sl_chunks s < 2 ^ 32"
      using r by (auto simp: seal_def split: if_split_asm option.split_asm)
    moreover have "\<exists>i l. sl_chunks s1 \<le> i \<and> i < 2 ^ 32 \<and> b = nonce (sl_nonce_prefix s1) (word_of_nat i) l"
      if "b \<in> set (nonces_used a s1 calls)"
      using "2.IH"(2) [OF r [symmetric] Inr that] .
    ultimately show ?thesis using "2.prems" r Inr by (fastforce dest: Suc_leD)
  qed
qed simp

text \<open>A nonce is never used twice. Whatever a sealer is asked to seal, in order or not, with chunks of any size and after the
  final one, no two of the blocks it makes are sealed under the same nonce: the counter never wraps.\<close>

theorem nonce_never_reused: "distinct (nonces_used a s calls)"
proof (induction a s calls rule: nonces_used.induct)
  case (2 a s chunk last_one calls)
  obtain s1 x where r: "seal a s chunk last_one = (s1, x)" by (cases "seal a s chunk last_one")
  show ?case
  proof (cases x)
    case (Inl e)
    then show ?thesis using 2 r by simp
  next
    case (Inr block)
    then have s1: "sl_chunks s1 = sl_chunks s + 1" "sl_nonce_prefix s1 = sl_nonce_prefix s" "sl_chunks s < 2 ^ 32"
      using r by (auto simp: seal_def split: if_split_asm option.split_asm)
    have "(word_of_nat i :: 32 word) \<noteq> word_of_nat (sl_chunks s)" if "sl_chunks s + 1 \<le> i" "i < 2 ^ 32" for i
      using that s1(3) by (auto simp: word_of_nat_eq_iff take_bit_nat_eq_self)
    then have "nonce (sl_nonce_prefix s) (word_of_nat (sl_chunks s)) last_one \<notin> set (nonces_used a s1 calls)"
      using nonces_used_later [of _ a s1 calls] s1(1,2) by (metis nonce_inject)
    then show ?thesis using 2 r Inr by simp
  qed
qed simp

section \<open>A small backup\<close>

text \<open>A cipher in the clear whose tag is its nonce: enough for what is relied on.\<close>

definition clear_tag :: "bytes \<Rightarrow> bytes" where
  "clear_tag n = take 16 (n @ replicate 16 0)"

definition clear_aead :: aead where
  "clear_aead = \<lparr>aead_encrypt = (\<lambda>k n d m. Some (m @ clear_tag n)),
     aead_decrypt = (\<lambda>k n d c. if 16 \<le> length c \<and> drop (length c - 16) c = clear_tag n then Some (take (length c - 16) c) else None)\<rparr>"

lemma clear_aead_ok: "aead_ok clear_aead"
proof -
  have tag: "length (clear_tag n) = 16" for n by (simp add: clear_tag_def)
  have "(16 \<le> length c \<and> drop (length c - 16) c = clear_tag n \<and> take (length c - 16) c = m) \<longleftrightarrow> m @ clear_tag n = c" for c m n
    using tag [of n] by (auto, metis append_take_drop_id)
  then show ?thesis unfolding aead_ok_def clear_aead_def by (auto simp: tag TAG_BYTES_def)
qed

definition small_header :: Header where
  "small_header = header_generate (replicate 16 7) (replicate 7 9)"

lemma small_header_ok: "header_ok small_header"
  by (simp add: header_ok_def small_header_def header_generate_def backup_consts)

definition small_copy :: reader where
  "small_copy = \<lparr>rd_left = [1, 2, 3], rd_plan = [Interrupts, Gives 0, Gives 1]\<rparr>"

theorem backup_round_trip_witness:
  "\<exists>file. write_container clear_aead [] small_header [5] small_copy = Inr (file, 60)
     \<and> read_body clear_aead [] small_header \<lparr>ch_first = [], ch_second = \<lparr>rd_left = drop HEADER_BYTES file, rd_plan = [Gives 2]\<rparr>\<rparr> 24
         = Inr ([5], [1, 2, 3])"
proof -
  have "sealed_len (4 + length [5 :: 8 word] + length (rd_left small_copy)) = 60"
    by (simp add: sealed_len_def small_copy_def backup_consts)
  then show ?thesis
    using backup_round_trip [OF clear_aead_ok small_header_ok, of "[5]" small_copy "[Gives 2]" "[]"]
    by (auto simp: small_copy_def backup_consts)
qed

theorem backup_opens_only_sealed_witness:
  "\<exists>cs bs. sealed_body clear_aead [] small_header 0 cs bs \<and> concat cs = be_bytes 1 @ [5] @ [2]
     \<and> [0, 0, 0, 1, 5, 2] @ clear_tag (nonce (replicate 7 9) 0 True) = concat bs"
proof -
  define body where "body = [0, 0, 0, 1, 5, 2] @ clear_tag (nonce (replicate 7 9) 0 True)"
  have tag: "length (clear_tag n) = 16" for n by (simp add: clear_tag_def)
  have len: "length body = 22" by (simp add: body_def tag)
  let ?c = "\<lparr>ch_first = [], ch_second = \<lparr>rd_left = body, rd_plan = []\<rparr>\<rparr>"
  have chunk: "[0, 0, 0, 1, 5, 2] = be_bytes (word_of_nat (length [5 :: 8 word])) @ [5] @ [2]" by code_simp
  have sane6: "sane [0, 0, 0, 1, 5, 2]"
    unfolding chunk by (rule sane_prefixed) (simp_all add: MAX_METADATA_BYTES_def)
  have sealed: "sealed_body clear_aead [] small_header 0 [[0, 0, 0, 1, 5, 2]] [body]"
    by (simp add: sealed_as_def clear_aead_def body_def small_header_def header_generate_def)
  have cut: "cut_right [[0, 0, 0, 1, 5, 2]]" by (simp add: CHUNK_BYTES_def)
  have "read_blocks clear_aead [] small_header 22 (0 + length [[0, 0, 0, 1, 5, 2 :: 8 word]]) 0 ?c (fst (stands [])) (snd (stands []))
      = Inr (stands ([] @ concat [[0, 0, 0, 1, 5, 2]]))"
    by (rule read_blocks_opens [OF clear_aead_ok cut sealed])
      (use sane6 len in \<open>simp_all add: calm_def left_of_def\<close>)
  then have "read_body clear_aead [] small_header ?c 22 = Inr ([5], [2])"
    using into_metadata_stands [of "[5]" "[2]"] chunk unfolding stands_Nil
    by (simp add: read_body_def split_beta backup_consts)
  from backup_opens_only_sealed [OF clear_aead_ok this]
  obtain cs bs rest where "left_of ?c = concat bs @ rest" "length (concat bs) = 22" "sealed_body clear_aead [] small_header 0 cs bs"
      "concat cs = be_bytes (word_of_nat (length [5 :: 8 word])) @ [5] @ [2]"
    by blast
  then show ?thesis
    using len unfolding body_def [symmetric] by (intro exI [of _ cs] exI [of _ bs]) (simp add: left_of_def)
qed

definition small_metadata :: Value where
  "small_metadata = metadata_json (metadata_new ''1'' ''now'' ''0123456789abcdef'')"

lemma small_metadata_parses: "is_ok (metadata_parse (\<lambda>_. Some small_metadata) b)"
  by (simp add: metadata_parse_def small_metadata_def metadata_json_def metadata_new_def json_get_def utf16_len_def)

theorem export_is_the_container_witness:
  "\<exists>x blocks. export_prepare (\<lambda>_ _ _ _ _. []) (\<lambda>_. ''m'') (\<lambda>_. Some small_metadata) ''1'' ''now'' ''0123456789abcdef'' ''secret''
       (replicate 16 7) (replicate 7 9) \<lparr>rd_left = [1, 2], rd_plan = [Gives 0]\<rparr> 2 = Inr x
     \<and> drain 59 clear_aead x = Some (Inr blocks) \<and> length (concat blocks) = 59"
proof -
  let ?copy = "\<lparr>rd_left = [1, 2], rd_plan = [Gives 0]\<rparr>"
  obtain x where x: "export_prepare (\<lambda>_ _ _ _ _. []) (\<lambda>_. ''m'') (\<lambda>_. Some small_metadata) ''1'' ''now'' ''0123456789abcdef'' ''secret''
       (replicate 16 7) (replicate 7 9) ?copy 2 = Inr x" "xp_content_length x = 59"
    using small_metadata_parses
    by (simp add: export_prepare_def plaintext_prefix_def utf8_def Let_def ensure_def sealed_len_def backup_consts)
  show ?thesis
    using export_is_the_container [OF clear_aead_ok x(1), of 59] x by (auto simp: backup_consts)
qed

end
