(* ===== verification/SafeFetch.thy ===== *)
theory SafeFetch
  imports ClientIp Sse
begin

text \<open>
  Requests to servers the gateway does not run: \<open>crates/net/src/safe_fetch.rs\<close>, with the part of
  \<open>crates/net/src/overlay.rs\<close> that decides what an overlay network carries. Operations of the \<open>url\<close> crate, base64, name
  resolution, and what a server or an overlay answers are parameters; what they do at one hop is given by the hop's number.
\<close>

section \<open>Requests\<close>

datatype Host = HostDomain string | HostIp IpAddr

text \<open>The operations of the \<open>url\<close> crate that are used.\<close>

record url_ops =
  uo_join :: "Url \<Rightarrow> string \<Rightarrow> Url option"
  uo_origin :: "Url \<Rightarrow> string"
  uo_host :: "Url \<Rightarrow> Host option"
  uo_port :: "Url \<Rightarrow> nat option"
  uo_port_or_known_default :: "Url \<Rightarrow> nat option"
  uo_clear_credentials :: "Url \<Rightarrow> Url"
  uo_clear_fragment :: "Url \<Rightarrow> Url"

text \<open>Header names are in lower case, values are bytes.\<close>

type_synonym HeaderMap = "(string \<times> string) list"

definition header_insert :: "string \<Rightarrow> string \<Rightarrow> HeaderMap \<Rightarrow> HeaderMap" where
  "header_insert name v headers = filter (\<lambda>h. fst h \<noteq> name) headers @ [(name, v)]"

definition header_remove :: "string \<Rightarrow> HeaderMap \<Rightarrow> HeaderMap" where
  "header_remove name headers = filter (\<lambda>h. fst h \<noteq> name) headers"

definition contains_key :: "HeaderMap \<Rightarrow> string \<Rightarrow> bool" where
  "contains_key headers name \<longleftrightarrow> list_ex (\<lambda>h. fst h = name) headers"

definition header_text :: "HeaderMap \<Rightarrow> string \<Rightarrow> string option" where
  "header_text headers name =
     (let values = map (latin1 \<circ> snd) (filter (\<lambda>h. fst h = name) headers) in
      if values = [] then None else Some (join_with '', '' values))"

definition MAX_REDIRECTS :: nat where "MAX_REDIRECTS = 5"

definition MAX_UPSTREAM_RESPONSE_BYTES :: nat where
  "MAX_UPSTREAM_RESPONSE_BYTES = 32 * 1024 * 1024"

definition MAX_UPSTREAM_ERROR_RESPONSE_BYTES :: nat where
  "MAX_UPSTREAM_ERROR_RESPONSE_BYTES = 64 * 1024"

definition BAD_PORTS :: "nat list" where
  "BAD_PORTS = [1, 7, 9, 11, 13, 15, 17, 19, 20, 21, 22, 23, 25, 37, 42, 43, 53, 69, 77, 79, 87, 95, 101, 102,
    103, 104, 109, 110, 111, 113, 115, 117, 119, 123, 135, 137, 139, 143, 161, 179, 389, 427, 465,
    512, 513, 514, 515, 526, 530, 531, 532, 540, 548, 554, 556, 563, 587, 601, 636, 989, 990, 993,
    995, 1719, 1720, 1723, 2049, 3659, 4045, 4190, 5060, 5061, 6000, 6566, 6665, 6666, 6667, 6668,
    6669, 6679, 6697, 10080]"

record UpstreamResponseLimits =
  max_response_bytes :: "nat option"
  max_error_response_bytes :: "nat option"

datatype FetchError =
    CrossOriginRedirect string
  | TooManyRedirects string
  | ResponseTooLarge string nat
  | FetchTimeout
  | InvalidRedirectUrl
  | BodyNotAllowed
  | BadPort
  | TransportFailed string
  | Terminated string
  | RestrictedAddress string
  | FetchOffline
  | OverlayFailed string string
  | OverlayTerminated string string

record FetchRequest =
  fr_method :: string
  fr_url :: Url
  fr_headers :: HeaderMap
  fr_body :: "string option"
  fr_timeout :: "nat option"

record SentRequest =
  sr_method :: string
  sr_url :: Url
  sr_headers :: HeaderMap
  sr_body :: "string option"

section \<open>Credentials of a URL\<close>

text \<open>\<open>decodeURIComponent\<close> on the bytes of a text.\<close>

fun decode_escapes :: "string \<Rightarrow> string option" where
  "decode_escapes [] = Some []"
| "decode_escapes (c # s) =
     (if c \<noteq> CHR ''%'' then map_option ((#) c) (decode_escapes s)
      else
        (case s of
           high # low # rest \<Rightarrow>
             (case (digit_value 16 high, digit_value 16 low) of
                (Some h, Some l) \<Rightarrow> map_option ((#) (char_of (nat (h * 16 + l)))) (decode_escapes rest)
              | _ \<Rightarrow> None)
         | _ \<Rightarrow> None))"

definition decode_uri_component :: "string \<Rightarrow> string option" where
  "decode_uri_component v = (case decode_escapes v of None \<Rightarrow> None | Some bs \<Rightarrow> if from_utf8 bs = None then Some bs else None)"

definition decoded_url_credential :: "string \<Rightarrow> string" where
  "decoded_url_credential v = (case decode_uri_component v of Some t \<Rightarrow> t | None \<Rightarrow> v)"

definition request_with_url_credentials :: "url_ops \<Rightarrow> (string \<Rightarrow> string) \<Rightarrow> Url \<Rightarrow> HeaderMap \<Rightarrow> Url \<times> HeaderMap" where
  "request_with_url_credentials ops base64 url headers =
     (let given = (case url_password url of None \<Rightarrow> [] | Some p \<Rightarrow> p) in
      if username url \<noteq> [] \<or> given \<noteq> [] then
        (uo_clear_credentials ops url,
         if \<not> contains_key headers ''authorization'' then
           header_insert ''authorization''
             (''Basic '' @ base64 (decoded_url_credential (username url) @ '':'' @ decoded_url_credential given)) headers
         else headers)
      else (url, headers))"

definition is_bad_port :: "url_ops \<Rightarrow> Url \<Rightarrow> bool" where
  "is_bad_port ops url \<longleftrightarrow> scheme url \<in> {''http'', ''https''}
     \<and> (case uo_port ops url of None \<Rightarrow> False | Some port \<Rightarrow> port \<in> set BAD_PORTS)"

definition is_redirect :: "nat \<Rightarrow> bool" where
  "is_redirect status \<longleftrightarrow> status \<in> {301, 302, 303, 307, 308}"

definition switches_to_get :: "nat \<Rightarrow> string \<Rightarrow> bool" where
  "switches_to_get status verb \<longleftrightarrow>
     status = 303 \<and> verb \<noteq> ''GET'' \<and> verb \<noteq> ''HEAD'' \<or> (status = 301 \<or> status = 302) \<and> verb = ''POST''"

section \<open>Where requests go\<close>

text \<open>A response of one hop; its body is what will still arrive.\<close>

record RawResponse =
  rr_status :: nat
  rr_status_text :: string
  rr_headers :: HeaderMap
  rr_chunks :: "(FetchError, string) result list"

record Origin =
  og_scheme :: string
  og_host :: string
  og_port :: nat

text \<open>An overlay: its name, where it reaches a host at a hop, and what comes back from there.\<close>

record OverlayNetwork =
  ov_label :: string
  ov_route :: "nat \<Rightarrow> string \<Rightarrow> nat \<Rightarrow> (string, string option) result"
  ov_answer :: "nat \<Rightarrow> string \<Rightarrow> SentRequest \<Rightarrow> (string, RawResponse) result"

datatype Transport =
    Network
  | PublicNetwork
  | Offline
  | Answering "SentRequest \<Rightarrow> RawResponse option" Transport
  | Overlay OverlayNetwork "Origin option" Transport

text \<open>How one hop left the gateway: anywhere, to one of these addresses, through an overlay.\<close>

datatype departure = Direct | DirectTo "IpAddr list" | Through OverlayNetwork string

record fetch_env =
  fe_ops :: url_ops
  fe_base64 :: "string \<Rightarrow> string"
  fe_execute :: "nat \<Rightarrow> SentRequest \<Rightarrow> (string, RawResponse) result"
  fe_lookup :: "nat \<Rightarrow> string \<Rightarrow> (string, IpAddr list) result"
  fe_late :: "nat \<Rightarrow> bool"

definition overlay_target :: "url_ops \<Rightarrow> Url \<Rightarrow> (string \<times> nat) option" where
  "overlay_target ops url =
     (if scheme url \<notin> {''http'', ''https''} then None
      else
        (case uo_host ops url of
           None \<Rightarrow> None
         | Some host \<Rightarrow>
             map_option (Pair (case host of HostDomain name \<Rightarrow> ascii_lower name | HostIp address \<Rightarrow> ip_text address))
               (uo_port_or_known_default ops url)))"

definition origin_of :: "url_ops \<Rightarrow> Url \<Rightarrow> Origin option" where
  "origin_of ops url = map_option (\<lambda>(host, port). \<lparr>og_scheme = scheme url, og_host = host, og_port = port\<rparr>) (overlay_target ops url)"

definition origin_contains :: "url_ops \<Rightarrow> Origin \<Rightarrow> Url \<Rightarrow> bool" where
  "origin_contains ops o1 url \<longleftrightarrow> origin_of ops url = Some o1"

definition overlay_failure :: "OverlayNetwork \<Rightarrow> string \<Rightarrow> FetchError" where
  "overlay_failure network reason = OverlayFailed (ov_label network) reason"

definition unrouted :: "OverlayNetwork \<Rightarrow> Url \<Rightarrow> FetchError" where
  "unrouted network url =
     overlay_failure network (CHR 0x22 # (case host_str url of None \<Rightarrow> [] | Some host \<Rightarrow> host) @
       CHR 0x22 # '' is not reachable through it any more, and the request is not sent anywhere else'')"

text \<open>One hop over an overlay; \<open>Inr None\<close> when it does not carry the traffic.\<close>

definition overlay_send ::
  "fetch_env \<Rightarrow> nat \<Rightarrow> OverlayNetwork \<Rightarrow> SentRequest \<Rightarrow> departure option \<times> (FetchError, RawResponse option) result" where
  "overlay_send e hop network request =
     (case overlay_target (fe_ops e) (sr_url request) of
        None \<Rightarrow> (None, Inr None)
      | Some (host, port) \<Rightarrow>
          (case ov_route network hop host port of
             Inl reason \<Rightarrow> (None, Inl (overlay_failure network reason))
           | Inr None \<Rightarrow> (None, Inr None)
           | Inr (Some address) \<Rightarrow>
               (case ov_answer network hop address request of
                  Inl reason \<Rightarrow> (Some (Through network address), Inl (overlay_failure network reason))
                | Inr response \<Rightarrow> (Some (Through network address), Inr (Some response)))))"

definition refuse_restricted_literal :: "url_ops \<Rightarrow> Url \<Rightarrow> (FetchError, unit) result" where
  "refuse_restricted_literal ops url =
     (case uo_host ops url of
        Some (HostIp address) \<Rightarrow> if is_restricted_ip address then Inl (RestrictedAddress (ip_text address)) else Inr ()
      | _ \<Rightarrow> Inr ())"

text \<open>The addresses the resolver of public names lets a client connect to.\<close>

definition public_only_resolve :: "fetch_env \<Rightarrow> nat \<Rightarrow> string \<Rightarrow> (string, IpAddr list) result" where
  "public_only_resolve e hop name =
     and_then (fe_lookup e hop name) (\<lambda>addresses.
       ensure (\<not> list_ex is_restricted_ip addresses)
         (CHR 0x22 # name @ CHR 0x22 # '' resolves to a loopback, private or link-local address'')
         (Inr addresses))"

definition direct :: "fetch_env \<Rightarrow> nat \<Rightarrow> departure \<Rightarrow> SentRequest \<Rightarrow> departure option \<times> (FetchError, RawResponse) result" where
  "direct e hop way request =
     (Some way, case fe_execute e hop request of Inl reason \<Rightarrow> Inl (TransportFailed reason) | Inr response \<Rightarrow> Inr response)"

primrec transport_send ::
  "fetch_env \<Rightarrow> nat \<Rightarrow> Transport \<Rightarrow> SentRequest \<Rightarrow> departure option \<times> (FetchError, RawResponse) result" where
  "transport_send e hop Network request = direct e hop Direct request"
| "transport_send e hop PublicNetwork request =
     (case refuse_restricted_literal (fe_ops e) (sr_url request) of
        Inl err \<Rightarrow> (None, Inl err)
      | Inr _ \<Rightarrow>
          (case uo_host (fe_ops e) (sr_url request) of
             Some (HostDomain name) \<Rightarrow>
               (case public_only_resolve e hop name of
                  Inl reason \<Rightarrow> (None, Inl (TransportFailed reason))
                | Inr addresses \<Rightarrow> direct e hop (DirectTo addresses) request)
           | Some (HostIp address) \<Rightarrow> direct e hop (DirectTo [address]) request
           | None \<Rightarrow> (None, Inl (TransportFailed ''no host''))))"
| "transport_send e hop Offline request = (None, Inl FetchOffline)"
| "transport_send e hop (Answering answer rest) request =
     (case answer request of Some response \<Rightarrow> (None, Inr response) | None \<Rightarrow> transport_send e hop rest request)"
| "transport_send e hop (Overlay network required rest) request =
     (case overlay_send e hop network request of
        (way, Inl err) \<Rightarrow> (way, Inl err)
      | (way, Inr (Some response)) \<Rightarrow> (way, Inr response)
      | (way, Inr None) \<Rightarrow>
          if (case required of None \<Rightarrow> False | Some o1 \<Rightarrow> origin_contains (fe_ops e) o1 (sr_url request))
          then (way, Inl (unrouted network (sr_url request)))
          else transport_send e hop rest request)"

primrec public_only :: "Transport \<Rightarrow> Transport" where
  "public_only Network = PublicNetwork"
| "public_only (Overlay network required rest) = Overlay network required (public_only rest)"
| "public_only PublicNetwork = PublicNetwork"
| "public_only Offline = Offline"
| "public_only (Answering answer rest) = Answering answer rest"

definition through :: "Transport \<Rightarrow> OverlayNetwork \<Rightarrow> Transport" where
  "through t network = Overlay network None t"

definition through_requiring :: "url_ops \<Rightarrow> Transport \<Rightarrow> OverlayNetwork \<Rightarrow> Url \<Rightarrow> Transport" where
  "through_requiring ops t network required = Overlay network (origin_of ops required) t"

section \<open>Bodies\<close>

record BodyStream =
  bs_chunks :: "(FetchError, string) result list option"
  bs_deadline :: bool
  bs_endpoint_label :: string
  bs_max_bytes :: nat
  bs_truncates :: bool
  bs_received :: nat

text \<open>One poll that is answered: \<open>late\<close> says whether the deadline has passed.\<close>

definition poll_next :: "bool \<Rightarrow> BodyStream \<Rightarrow> BodyStream \<times> (FetchError, string) result option" where
  "poll_next late b =
     (case bs_chunks b of
        None \<Rightarrow> (b, None)
      | Some chunks \<Rightarrow>
          if bs_deadline b \<and> late then (b\<lparr>bs_chunks := None\<rparr>, Some (Inl FetchTimeout))
          else
            (case chunks of
               [] \<Rightarrow> (b\<lparr>bs_chunks := None\<rparr>, None)
             | Inl err # _ \<Rightarrow> (b\<lparr>bs_chunks := None\<rparr>, Some (Inl err))
             | Inr chunk # rest \<Rightarrow>
                 (let received = min (bs_received b + length chunk) (2 ^ 64 - 1);
                      b1 = b\<lparr>bs_received := received\<rparr> in
                  if received \<le> bs_max_bytes b then (b1\<lparr>bs_chunks := Some rest\<rparr>, Some (Inr chunk))
                  else if \<not> bs_truncates b then
                    (b1\<lparr>bs_chunks := None\<rparr>, Some (Inl (ResponseTooLarge (bs_endpoint_label b) (bs_max_bytes b))))
                  else
                    (let kept = length chunk - (received - bs_max_bytes b) in
                     (b1\<lparr>bs_chunks := None\<rparr>, if 0 < kept then Some (Inr (take kept chunk)) else None)))))"

text \<open>What reading a body to its end gives, the lateness at each poll given; \<open>bytes\<close> keeps this outcome.\<close>

function read_all :: "(nat \<Rightarrow> bool) \<Rightarrow> nat \<Rightarrow> BodyStream \<Rightarrow> string \<Rightarrow> (FetchError, string) result" where
  "read_all late n b so_far =
     (case poll_next (late n) b of
        (b1, Some (Inr chunk)) \<Rightarrow> read_all late (n + 1) b1 (so_far @ chunk)
      | (b1, Some (Inl err)) \<Rightarrow> Inl err
      | (b1, None) \<Rightarrow> Inr so_far)"
  by auto
termination
proof (relation "measure (\<lambda>(_, _, b, _). case bs_chunks b of None \<Rightarrow> 0 | Some chunks \<Rightarrow> Suc (length chunks))", goal_cases)
  case 1
  then show ?case by simp
next
  case (2 late n b so_far)
  then show ?case
    by (auto simp: poll_next_def Let_def split: option.split_asm if_split_asm list.split_asm sum.split_asm)
qed

declare read_all.simps [simp del]

section \<open>Fetching\<close>

record FetchResponse =
  fp_status :: nat
  fp_status_text :: string
  fp_headers :: HeaderMap
  fp_url :: Url
  fp_body :: BodyStream

definition is_success :: "nat \<Rightarrow> bool" where
  "is_success status \<longleftrightarrow> 200 \<le> status \<and> status < 300"

definition with_limited_body :: "url_ops \<Rightarrow> RawResponse \<Rightarrow> Url \<Rightarrow> string \<Rightarrow> UpstreamResponseLimits \<Rightarrow> bool \<Rightarrow> FetchResponse" where
  "with_limited_body ops response url label limits deadline =
     (let truncates = \<not> is_success (rr_status response);
          max_bytes = (if truncates
            then (case max_error_response_bytes limits of Some n \<Rightarrow> n | None \<Rightarrow> MAX_UPSTREAM_ERROR_RESPONSE_BYTES)
            else (case max_response_bytes limits of Some n \<Rightarrow> n | None \<Rightarrow> MAX_UPSTREAM_RESPONSE_BYTES)) in
      \<lparr>fp_status = rr_status response, fp_status_text = rr_status_text response, fp_headers = rr_headers response,
       fp_url = uo_clear_fragment ops url,
       fp_body = \<lparr>bs_chunks = Some (rr_chunks response), bs_deadline = deadline, bs_endpoint_label = label, bs_max_bytes = max_bytes,
                  bs_truncates = truncates, bs_received = 0\<rparr>\<rparr>)"

definition DROPPED_HEADERS :: "string list" where
  "DROPPED_HEADERS = [''content-encoding'', ''content-language'', ''content-length'', ''content-location'', ''content-type'']"

text \<open>The hops of a fetch, with how each left the gateway, and its outcome.\<close>

type_synonym trace = "(SentRequest \<times> departure option) list"

function fetch_hops ::
  "fetch_env \<Rightarrow> Transport \<Rightarrow> string \<Rightarrow> UpstreamResponseLimits \<Rightarrow> bool \<Rightarrow> string \<Rightarrow> Url \<Rightarrow> HeaderMap \<Rightarrow> string option \<Rightarrow> nat
     \<Rightarrow> trace \<times> (FetchError, FetchResponse) result" where
  "fetch_hops e t label limits deadline verb url headers body redirects =
     (if is_bad_port (fe_ops e) url then ([], Inl BadPort)
      else
        (let hop = \<lparr>sr_method = verb, sr_url = url, sr_headers = headers, sr_body = body\<rparr>;
             (way, answer) = transport_send e redirects t hop in
         if deadline \<and> fe_late e redirects then ([(hop, way)], Inl FetchTimeout)
         else
           (case answer of
              Inl err \<Rightarrow> ([(hop, way)], Inl err)
            | Inr response \<Rightarrow>
                (case (if is_redirect (rr_status response) then header_text (rr_headers response) ''location'' else None) of
                   None \<Rightarrow> ([(hop, way)], Inr (with_limited_body (fe_ops e) response url label limits deadline))
                 | Some location \<Rightarrow>
                     if location = [] then ([(hop, way)], Inr (with_limited_body (fe_ops e) response url label limits deadline))
                     else
                       (case uo_join (fe_ops e) url location of
                          None \<Rightarrow> ([(hop, way)], Inl InvalidRedirectUrl)
                        | Some next_url \<Rightarrow>
                            if uo_origin (fe_ops e) next_url \<noteq> uo_origin (fe_ops e) url then ([(hop, way)], Inl (CrossOriginRedirect label))
                            else if MAX_REDIRECTS \<le> redirects then ([(hop, way)], Inl (TooManyRedirects label))
                            else
                              (let switches = switches_to_get (rr_status response) verb;
                                   verb1 = (if switches then ''GET'' else verb);
                                   body1 = (if switches then None else body);
                                   headers1 = (if switches then fold header_remove DROPPED_HEADERS headers else headers);
                                   (url2, headers2) = request_with_url_credentials (fe_ops e) (fe_base64 e) next_url headers1;
                                   (later, result) = fetch_hops e t label limits deadline verb1 url2 headers2 body1 (redirects + 1) in
                               ((hop, way) # later, result)))))))"
  by pat_completeness auto
termination
  by (relation "measure (\<lambda>(_, _, _, _, _, _, _, _, _, redirects). MAX_REDIRECTS + 1 - redirects)") auto

declare fetch_hops.simps [simp del]

definition fetch_with_same_origin_redirects ::
  "fetch_env \<Rightarrow> Transport \<Rightarrow> FetchRequest \<Rightarrow> string \<Rightarrow> UpstreamResponseLimits \<Rightarrow> trace \<times> (FetchError, FetchResponse) result" where
  "fetch_with_same_origin_redirects e t request label limits =
     (if fr_body request \<noteq> None \<and> fr_method request \<in> {''GET'', ''HEAD''} then ([], Inl BodyNotAllowed)
      else
        (let (url, headers) = request_with_url_credentials (fe_ops e) (fe_base64 e) (fr_url request) (fr_headers request) in
         fetch_hops e t label limits (fr_timeout request \<noteq> None) (fr_method request) url headers (fr_body request) 0))"

section \<open>What is relied on of URLs\<close>

text \<open>Clearing the credentials of a URL clears them and nothing else of where it leads; the origin of a web address is its scheme,
  host and port.\<close>

definition url_ops_ok :: "url_ops \<Rightarrow> bool" where
  "url_ops_ok ops \<longleftrightarrow>
     (\<forall>u. uo_origin ops (uo_clear_credentials ops u) = uo_origin ops u \<and> username (uo_clear_credentials ops u) = []
        \<and> url_password (uo_clear_credentials ops u) = None)
     \<and> (\<forall>u v. scheme u \<in> {''http'', ''https''} \<longrightarrow> uo_origin ops u = uo_origin ops v \<longrightarrow> origin_of ops u = origin_of ops v)"

definition no_credentials :: "Url \<Rightarrow> bool" where
  "no_credentials u \<longleftrightarrow> username u = [] \<and> (url_password u = None \<or> url_password u = Some [])"

definition authorization :: "HeaderMap \<Rightarrow> string list" where
  "authorization headers = map snd (filter (\<lambda>h. fst h = ''authorization'') headers)"

text \<open>The header that the credentials of a URL become, and the authorization a request was asked with: its own header, else
  that of the credentials in its URL, else none.\<close>

definition url_authorization :: "(string \<Rightarrow> string) \<Rightarrow> Url \<Rightarrow> string" where
  "url_authorization base64 u =
     ''Basic '' @ base64 (decoded_url_credential (username u) @ '':'' @
       decoded_url_credential (case url_password u of None \<Rightarrow> [] | Some p \<Rightarrow> p))"

definition with_credentials_of :: "(string \<Rightarrow> string) \<Rightarrow> Url \<Rightarrow> string list \<Rightarrow> string list" where
  "with_credentials_of base64 u given = (if given = [] \<and> \<not> no_credentials u then [url_authorization base64 u] else given)"

definition asked_authorization :: "fetch_env \<Rightarrow> FetchRequest \<Rightarrow> string list" where
  "asked_authorization e request = with_credentials_of (fe_base64 e) (fr_url request) (authorization (fr_headers request))"

text \<open>What the requests of a fetch may carry: what was asked and nothing else; where nothing was asked, nothing, or the credentials
  of a redirect that was followed within the origin.\<close>

definition allowed_authorization :: "fetch_env \<Rightarrow> FetchRequest \<Rightarrow> string list \<Rightarrow> bool" where
  "allowed_authorization e request given \<longleftrightarrow>
     given = asked_authorization e request
     \<or> asked_authorization e request = [] \<and>
       (\<exists>base location u. uo_join (fe_ops e) base location = Some u \<and> uo_origin (fe_ops e) u = uo_origin (fe_ops e) (fr_url request)
          \<and> \<not> no_credentials u \<and> given = [url_authorization (fe_base64 e) u])"

lemma clean_request:
  assumes "url_ops_ok ops" and "request_with_url_credentials ops base64 url headers = (url', headers')"
  shows "no_credentials url'" "uo_origin ops url' = uo_origin ops url"
    "authorization headers' = with_credentials_of base64 url (authorization headers)"
proof -
  have key: "contains_key headers ''authorization'' \<longleftrightarrow> authorization headers \<noteq> []"
    by (auto simp: contains_key_def authorization_def filter_empty_conv list_ex_iff)
  have insert: "authorization headers = [] \<Longrightarrow> authorization (header_insert ''authorization'' v headers) = [v]" for v
    by (induction headers) (auto simp: header_insert_def header_remove_def authorization_def split: if_split_asm)
  show "no_credentials url'" "uo_origin ops url' = uo_origin ops url"
    "authorization headers' = with_credentials_of base64 url (authorization headers)"
    using assms insert key
    by (auto simp: request_with_url_credentials_def url_ops_ok_def no_credentials_def Let_def with_credentials_of_def
        url_authorization_def split: if_split_asm option.split_asm)
qed

lemma header_remove_keeps: "name \<noteq> ''authorization'' \<Longrightarrow> authorization (header_remove name headers) = authorization headers"
  by (induction headers) (auto simp: authorization_def header_remove_def)

lemma dropped_headers_keep: "authorization (fold header_remove DROPPED_HEADERS headers) = authorization headers"
  by (simp add: DROPPED_HEADERS_def header_remove_keeps)

section \<open>One hop after another\<close>

text \<open>What holds of every hop, when it holds of the first and each redirect keeps it.\<close>

definition sound_hop :: "fetch_env \<Rightarrow> FetchRequest \<Rightarrow> string \<Rightarrow> Url \<Rightarrow> HeaderMap \<Rightarrow> string option \<Rightarrow> bool" where
  "sound_hop e request verb url headers body \<longleftrightarrow>
     uo_origin (fe_ops e) url = uo_origin (fe_ops e) (fr_url request) \<and> no_credentials url
     \<and> (body \<noteq> None \<longrightarrow> body = fr_body request \<and> verb \<notin> {''GET'', ''HEAD''})
     \<and> allowed_authorization e request (authorization headers)"

definition sound_sent :: "fetch_env \<Rightarrow> FetchRequest \<Rightarrow> SentRequest \<Rightarrow> bool" where
  "sound_sent e request hop \<longleftrightarrow>
     sound_hop e request (sr_method hop) (sr_url hop) (sr_headers hop) (sr_body hop) \<and> \<not> is_bad_port (fe_ops e) (sr_url hop)"

lemma sound_redirect:
  assumes "url_ops_ok (fe_ops e)" "sound_hop e request verb url headers body"
    and "uo_join (fe_ops e) url location = Some next_url" and "uo_origin (fe_ops e) next_url = uo_origin (fe_ops e) url"
    and "request_with_url_credentials (fe_ops e) (fe_base64 e) next_url
           (if switches then fold header_remove DROPPED_HEADERS headers else headers) = (url2, headers2)"
  shows "sound_hop e request (if switches then ''GET'' else verb) url2 headers2 (if switches then None else body)"
proof -
  note clean = clean_request [OF assms(1,5)]
  have "authorization headers2 = with_credentials_of (fe_base64 e) next_url (authorization headers)"
    using clean(3) by (simp add: dropped_headers_keep)
  then have "allowed_authorization e request (authorization headers2)"
    using assms(2-4) unfolding allowed_authorization_def sound_hop_def with_credentials_of_def
    by (cases "authorization headers = [] \<and> \<not> no_credentials next_url") auto
  then show ?thesis using assms(2,4) clean(1,2) by (auto simp: sound_hop_def)
qed

lemma fetch_hops_step:
  assumes "fetch_hops e t label limits deadline verb url headers body redirects = (tr, result)"
  obtains (refused) "tr = []"
  | (last) "\<not> is_bad_port (fe_ops e) url"
      "tr = [(\<lparr>sr_method = verb, sr_url = url, sr_headers = headers, sr_body = body\<rparr>,
        fst (transport_send e redirects t \<lparr>sr_method = verb, sr_url = url, sr_headers = headers, sr_body = body\<rparr>))]"
  | (redirect) location next_url switches url2 headers2 later where "\<not> is_bad_port (fe_ops e) url" "redirects < MAX_REDIRECTS"
      "uo_origin (fe_ops e) next_url = uo_origin (fe_ops e) url"
      "request_with_url_credentials (fe_ops e) (fe_base64 e) next_url
           (if switches then fold header_remove DROPPED_HEADERS headers else headers) = (url2, headers2)"
      "fetch_hops e t label limits deadline (if switches then ''GET'' else verb) url2 headers2 (if switches then None else body) (redirects + 1)
         = (later, result)"
      "tr = (\<lparr>sr_method = verb, sr_url = url, sr_headers = headers, sr_body = body\<rparr>,
        fst (transport_send e redirects t \<lparr>sr_method = verb, sr_url = url, sr_headers = headers, sr_body = body\<rparr>)) # later"
      "uo_join (fe_ops e) url location = Some next_url"
proof (cases "is_bad_port (fe_ops e) url")
  case True
  then show ?thesis using assms refused by (simp add: fetch_hops.simps [of e t label limits deadline verb url headers body redirects])
next
  case port: False
  let ?hop = "\<lparr>sr_method = verb, sr_url = url, sr_headers = headers, sr_body = body\<rparr>"
  obtain way answer where send: "transport_send e redirects t ?hop = (way, answer)" by (cases "transport_send e redirects t ?hop")
  note run = assms [unfolded fetch_hops.simps [of e t label limits deadline verb url headers body redirects] Let_def send prod.case]
  show ?thesis
  proof (cases "tr = [(?hop, way)]")
    case True
    then show ?thesis using last port send by simp
  next
    case False
    then obtain response where response: "answer = Inr response" "\<not> (deadline \<and> fe_late e redirects)"
      using run port by (cases answer) (auto split: if_split_asm)
    define location where "location = (if is_redirect (rr_status response) then header_text (rr_headers response) ''location'' else None)"
    note run2 = run [unfolded response(1) sum.case, folded location_def]
    have "location \<noteq> None" using run2 port response(2) False by (cases location) simp_all
    then obtain l where loc: "location = Some l" by blast
    note run3 = run2 [unfolded loc option.case]
    have "l \<noteq> []" using run3 port response(2) False by (cases "l = []") simp_all
    obtain next_url where n: "uo_join (fe_ops e) url l = Some next_url"
      using run3 port response(2) False \<open>l \<noteq> []\<close> by (cases "uo_join (fe_ops e) url l") simp_all
    note run4 = run3 [unfolded n option.case]
    have origin: "uo_origin (fe_ops e) next_url = uo_origin (fe_ops e) url"
      using run4 port response(2) False \<open>l \<noteq> []\<close> by (cases "uo_origin (fe_ops e) next_url = uo_origin (fe_ops e) url") simp_all
    have "redirects < MAX_REDIRECTS"
      using run4 port response(2) False \<open>l \<noteq> []\<close> origin by (cases "MAX_REDIRECTS \<le> redirects") simp_all
    note ok = origin this
    define switches where "switches = switches_to_get (rr_status response) verb"
    obtain url2 headers2 where u: "request_with_url_credentials (fe_ops e) (fe_base64 e) next_url
           (if switches then fold header_remove DROPPED_HEADERS headers else headers) = (url2, headers2)"
      by (cases "request_with_url_credentials (fe_ops e) (fe_base64 e) next_url (if switches then fold header_remove DROPPED_HEADERS headers else headers)")
    obtain later result2 where later: "fetch_hops e t label limits deadline (if switches then ''GET'' else verb) url2 headers2 (if switches then None else body) (redirects + 1)
         = (later, result2)"
      by (cases "fetch_hops e t label limits deadline (if switches then ''GET'' else verb) url2 headers2 (if switches then None else body) (redirects + 1)")
    have "tr = (?hop, way) # later \<and> result2 = result"
      using run4 [folded switches_def] port response(2) \<open>l \<noteq> []\<close> ok u later by simp
    then show ?thesis using redirect [OF port ok(2,1) u _ _ n] later send by simp
  qed
qed

lemma fetch_hops_trace:
  assumes "url_ops_ok (fe_ops e)"
    and "fetch_hops e t label limits deadline verb url headers body redirects = (tr, result)" "sound_hop e request verb url headers body"
    and "redirects \<le> MAX_REDIRECTS"
  shows "length tr \<le> MAX_REDIRECTS + 1 - redirects
    \<and> list_all (\<lambda>(hop, way). sound_sent e request hop \<and> (\<exists>n. way = fst (transport_send e n t hop))) tr"
  using assms(2-)
proof (induction "MAX_REDIRECTS - redirects" arbitrary: verb url headers body redirects tr rule: less_induct)
  case less
  from less.prems(1) show ?case
  proof (cases rule: fetch_hops_step)
    case refused
    then show ?thesis by simp
  next
    case last
    then show ?thesis using less.prems by (auto simp: sound_sent_def)
  next
    case (redirect location next_url switches url2 headers2 later)
    have sound: "sound_hop e request (if switches then ''GET'' else verb) url2 headers2 (if switches then None else body)"
      using sound_redirect [OF assms(1) less.prems(2) redirect(7,3,4)] .
    have smaller: "MAX_REDIRECTS - (redirects + 1) < MAX_REDIRECTS - redirects" "redirects + 1 \<le> MAX_REDIRECTS"
      using redirect(2) by auto
    have "length later \<le> MAX_REDIRECTS + 1 - (redirects + 1)
        \<and> list_all (\<lambda>(hop, way). sound_sent e request hop \<and> (\<exists>n. way = fst (transport_send e n t hop))) later"
      using less.hyps [OF smaller(1) redirect(5) sound smaller(2)] .
    then show ?thesis using redirect(1,2,6) less.prems(2) by (auto simp: sound_sent_def)
  qed
qed

text \<open>Of a whole fetch.\<close>

lemma fetch_trace:
  assumes "url_ops_ok (fe_ops e)" and "fetch_with_same_origin_redirects e t request label limits = (tr, result)"
  shows "length tr \<le> MAX_REDIRECTS + 1
    \<and> list_all (\<lambda>(hop, way). sound_sent e request hop \<and> (\<exists>n. way = fst (transport_send e n t hop))) tr"
proof (cases "fr_body request \<noteq> None \<and> fr_method request \<in> {''GET'', ''HEAD''}")
  case True
  then show ?thesis using assms(2) by (simp add: fetch_with_same_origin_redirects_def)
next
  case False
  obtain url headers where u: "request_with_url_credentials (fe_ops e) (fe_base64 e) (fr_url request) (fr_headers request) = (url, headers)"
    by (cases "request_with_url_credentials (fe_ops e) (fe_base64 e) (fr_url request) (fr_headers request)")
  then have "sound_hop e request (fr_method request) url headers (fr_body request)"
    using clean_request [OF assms(1) u] False by (auto simp: sound_hop_def allowed_authorization_def asked_authorization_def)
  then show ?thesis
    using fetch_hops_trace [OF assms(1)] assms(2) u False by (fastforce simp: fetch_with_same_origin_redirects_def)
qed

section \<open>Bodies stop at their limit\<close>

text \<open>Lengths that fit in memory, so that no count saturates.\<close>

definition fits :: "string list \<Rightarrow> bool" where
  "fits chunks \<longleftrightarrow> list_all (\<lambda>c. length c < 2 ^ 63) chunks"

lemma read_all_exact:
  assumes "bs_chunks b = Some (map Inr cs)" "\<not> bs_deadline b" "bs_received b \<le> bs_max_bytes b" "bs_max_bytes b < 2 ^ 63" "fits cs"
  shows "read_all late n b so_far =
     (if bs_received b + length (concat cs) \<le> bs_max_bytes b then Inr (so_far @ concat cs)
      else if bs_truncates b then Inr (so_far @ take (bs_max_bytes b - bs_received b) (concat cs))
      else Inl (ResponseTooLarge (bs_endpoint_label b) (bs_max_bytes b)))"
  using assms
proof (induction cs arbitrary: b n so_far)
  case Nil
  then show ?case by (subst read_all.simps) (simp add: poll_next_def)
next
  case (Cons c cs)
  have count: "min (bs_received b + length c) (2 ^ 64 - 1) = bs_received b + length c"
    using Cons.prems(3-5) by (simp add: fits_def)
  show ?case
  proof (cases "bs_received b + length c \<le> bs_max_bytes b")
    case True
    let ?b = "b\<lparr>bs_received := bs_received b + length c, bs_chunks := Some (map Inr cs)\<rparr>"
    have "read_all late n b so_far = read_all late (n + 1) ?b (so_far @ c)"
      using Cons.prems(1,2) True count by (simp add: read_all.simps [of late n b] poll_next_def Let_def)
    also have "\<dots> = (if bs_received ?b + length (concat cs) \<le> bs_max_bytes ?b then Inr ((so_far @ c) @ concat cs)
      else if bs_truncates ?b then Inr ((so_far @ c) @ take (bs_max_bytes ?b - bs_received ?b) (concat cs))
      else Inl (ResponseTooLarge (bs_endpoint_label ?b) (bs_max_bytes ?b)))"
      using Cons.prems True by (intro Cons.IH) (simp_all add: fits_def)
    finally show ?thesis using True by (simp add: add.assoc)
  next
    case False
    let ?kept = "length c - (bs_received b + length c - bs_max_bytes b)"
    have kept: "?kept = bs_max_bytes b - bs_received b" using False Cons.prems(3) by simp
    have stop: "read_all late (n + 1) (b\<lparr>bs_received := r, bs_chunks := None\<rparr>) x = Inr x" for r x
      by (subst read_all.simps) (simp add: poll_next_def)
    show ?thesis
    proof (cases "bs_truncates b")
      case truncates: True
      then have "read_all late n b so_far = Inr (so_far @ take ?kept c)"
        using Cons.prems(1,2) False count stop by (simp add: read_all.simps [of late n b] poll_next_def Let_def)
      then show ?thesis using truncates False kept by simp
    next
      case fails: False
      then show ?thesis
        using Cons.prems(1,2) False count by (simp add: read_all.simps [of late n b] poll_next_def Let_def)
    qed
  qed
qed

section \<open>Properties\<close>


text \<open>A response is held to its limit. Whatever chunks a server sends, reading the body of a response to its end gives, when
  nothing fails, exactly what was sent if that is within the limit; else, of a 2xx answer, the error that it is too large, and of
  any other answer exactly the first bytes up to the limit.\<close>

theorem body_held_to_limit:
  assumes "rr_chunks response = map Inr cs" "fits cs"
    and "fp_body (with_limited_body ops response url label limits False) = b" "bs_max_bytes b < 2 ^ 63"
  shows "read_all late 0 b [] =
     (if length (concat cs) \<le> bs_max_bytes b then Inr (concat cs)
      else if is_success (rr_status response) then Inl (ResponseTooLarge label (bs_max_bytes b))
      else Inr (take (bs_max_bytes b) (concat cs)))"
proof -
  have b: "bs_chunks b = Some (map Inr cs)" "\<not> bs_deadline b" "bs_received b = 0" "bs_truncates b \<longleftrightarrow> \<not> is_success (rr_status response)"
      "bs_endpoint_label b = label"
    using assms(1,3) by (auto simp: with_limited_body_def Let_def)
  show ?thesis using read_all_exact [of b cs late 0 "[]"] b assms(2,4) by simp
qed

text \<open>Transports as the application builds them: no canned answers.\<close>

primrec plain :: "Transport \<Rightarrow> bool" where
  "plain Network = True"
| "plain PublicNetwork = True"
| "plain Offline = True"
| "plain (Answering answer rest) = False"
| "plain (Overlay network required rest) = plain rest"

definition public_way :: "departure option \<Rightarrow> bool" where
  "public_way way = (case way of Some Direct \<Rightarrow> False | Some (DirectTo addresses) \<Rightarrow> \<not> list_ex is_restricted_ip addresses | _ \<Rightarrow> True)"

lemma overlay_send_way: "overlay_send e n network hop = (way, x) \<Longrightarrow> way = None \<or> (\<exists>address. way = Some (Through network address))"
  by (auto simp: overlay_send_def split: option.split_asm sum.split_asm prod.split_asm)

lemma public_only_way: "plain t \<Longrightarrow> public_way (fst (transport_send e n (public_only t) hop))"
proof (induction t)
  case Network
  show ?case
    by (auto simp: public_way_def direct_def refuse_restricted_literal_def public_only_resolve_def result_simps
        split: option.split sum.split Host.split if_split)
next
  case PublicNetwork
  show ?case
    by (auto simp: public_way_def direct_def refuse_restricted_literal_def public_only_resolve_def result_simps
        split: option.split sum.split Host.split if_split)
next
  case (Overlay network required rest)
  then show ?case
    by (auto simp: public_way_def dest!: overlay_send_way split: prod.split sum.split option.split)
qed (simp_all add: public_way_def)

text \<open>C38: A public-only fetcher never reaches into the network of the instance. Built of the network and of overlays in any order, it
  makes no request to whatever address a name happens to have: each is sent to addresses that were resolved for it and none of which
  is loopback, private, link-local or otherwise restricted, or through an overlay that carries it. This holds of every redirect.\<close>

theorem public_only_stays_public:
  assumes "url_ops_ok (fe_ops e)" and "plain t"
    and "fetch_with_same_origin_redirects e (public_only t) request label limits = (tr, result)"
  shows "list_all (\<lambda>(hop, way). public_way way) tr"
proof -
  have "list_all (\<lambda>(hop, way). \<exists>n. way = fst (transport_send e n (public_only t) hop)) tr"
    using fetch_trace [OF assms(1,3)] by (auto elim!: list.pred_mono_strong)
  then show ?thesis
    using public_only_way [OF assms(2)] by (auto elim!: list.pred_mono_strong)
qed

text \<open>What must go through an overlay goes nowhere else. A request to the origin an overlay is required for, with all its
  redirects, leaves the gateway through that overlay or not at all, whatever is behind the overlay and whether or not the overlay
  still carries the host.\<close>

theorem required_overlay_never_bypassed:
  assumes "url_ops_ok (fe_ops e)" and "origin_of (fe_ops e) (fr_url request) = Some o1"
    and "origin_of (fe_ops e) required = Some o1"
    and "fetch_with_same_origin_redirects e (through_requiring (fe_ops e) t network required) request label limits = (tr, result)"
  shows "list_all (\<lambda>(hop, way). way = None \<or> (\<exists>address. way = Some (Through network address))) tr"
proof -
  have "scheme (fr_url request) \<in> {''http'', ''https''}"
    using assms(2) by (auto simp: origin_of_def overlay_target_def split: if_split_asm)
  then have same: "origin_of (fe_ops e) u = Some o1" if "uo_origin (fe_ops e) u = uo_origin (fe_ops e) (fr_url request)" for u
    using that assms(1,2) unfolding url_ops_ok_def by metis
  have only: "way = None \<or> (\<exists>address. way = Some (Through network address))"
    if "uo_origin (fe_ops e) (sr_url hop) = uo_origin (fe_ops e) (fr_url request)"
      and "way = fst (transport_send e n (through_requiring (fe_ops e) t network required) hop)" for hop way n
  proof -
    obtain w x where w: "overlay_send e n network hop = (w, x)" by (cases "overlay_send e n network hop")
    have "way = w"
      using that(2) same [OF that(1)] assms(3) w
      by (auto simp: through_requiring_def origin_contains_def split: sum.split option.split)
    then show ?thesis using overlay_send_way [OF w] by simp
  qed
  show ?thesis
    unfolding list_all_iff
  proof (intro ballI, unfold case_prod_beta)
    fix x
    assume "x \<in> set tr"
    then obtain n where "sound_sent e request (fst x)" "snd x = fst (transport_send e n (through_requiring (fe_ops e) t network required) (fst x))"
      using fetch_trace [OF assms(1,4)] unfolding list_all_iff by auto
    then show "snd x = None \<or> (\<exists>address. snd x = Some (Through network address))"
      using only [of "fst x" "snd x" n] by (simp add: sound_sent_def sound_hop_def)
  qed
qed

section \<open>A redirect followed\<close>

definition sample_url :: Url where
  "sample_url = \<lparr>url_text = ''https://u:p@a/'', scheme = ''https'', host_str = Some ''a'', path = ''/'', query = None, fragment = None,
     username = ''u'', url_password = Some ''p''\<rparr>"

definition sample_ops :: url_ops where
  "sample_ops = \<lparr>uo_join = (\<lambda>u location. Some u), uo_origin = scheme, uo_host = (\<lambda>_. Some (HostDomain ''a'')), uo_port = (\<lambda>_. None),
     uo_port_or_known_default = (\<lambda>_. Some 443), uo_clear_credentials = (\<lambda>u. u\<lparr>username := [], url_password := None\<rparr>),
     uo_clear_fragment = (\<lambda>u. u\<lparr>fragment := None\<rparr>)\<rparr>"

lemma sample_ops_ok: "url_ops_ok sample_ops"
  by (auto simp: url_ops_ok_def sample_ops_def origin_of_def overlay_target_def)

definition sample_fetch_env :: fetch_env where
  "sample_fetch_env = \<lparr>fe_ops = sample_ops, fe_base64 = (\<lambda>s. s),
     fe_execute = (\<lambda>hop _. Inr \<lparr>rr_status = (if hop = 0 then 302 else 200), rr_status_text = [],
        rr_headers = [(''location'', ''/x'')], rr_chunks = [Inr ''ok'']\<rparr>),
     fe_lookup = (\<lambda>_ _. Inr [V4 0x08080808]), fe_late = (\<lambda>_. False)\<rparr>"

definition sample_fetch :: FetchRequest where
  "sample_fetch = \<lparr>fr_method = ''POST'', fr_url = sample_url, fr_headers = [], fr_body = Some ''b'', fr_timeout = None\<rparr>"

definition sample_limits :: UpstreamResponseLimits where
  "sample_limits = \<lparr>max_response_bytes = Some 1, max_error_response_bytes = None\<rparr>"

definition sample_overlay :: OverlayNetwork where
  "sample_overlay = \<lparr>ov_label = ''o'', ov_route = (\<lambda>_ _ _. Inr None), ov_answer = (\<lambda>_ _ _. Inl ''x'')\<rparr>"


theorem body_held_to_limit_witness:
  "read_all (\<lambda>_. False) 0 (fp_body (with_limited_body sample_ops
     \<lparr>rr_status = 500, rr_status_text = [], rr_headers = [], rr_chunks = map Inr [''ab'', ''cd'']\<rparr> sample_url ''s''
     \<lparr>max_response_bytes = None, max_error_response_bytes = Some 3\<rparr> False)) [] = Inr ''abc''"
  using body_held_to_limit [of "\<lparr>rr_status = 500, rr_status_text = [], rr_headers = [], rr_chunks = map Inr [''ab'', ''cd'']\<rparr>" "[''ab'', ''cd'']"
      sample_ops sample_url "''s''" "\<lparr>max_response_bytes = None, max_error_response_bytes = Some 3\<rparr>", OF _ _ refl]
  by (simp add: fits_def with_limited_body_def is_success_def)

lemma sample_env_ops: "fe_ops sample_fetch_env = sample_ops" "fr_url sample_fetch = sample_url"
  by (simp_all add: sample_fetch_env_def sample_fetch_def)

theorem public_only_stays_public_witness:
  "list_all (\<lambda>(hop, way). public_way way)
     (fst (fetch_with_same_origin_redirects sample_fetch_env (public_only (through Network sample_overlay)) sample_fetch ''s'' sample_limits))"
proof (rule public_only_stays_public [OF _ _ prod.collapse [symmetric]])
  show "url_ops_ok (fe_ops sample_fetch_env)" unfolding sample_env_ops by (rule sample_ops_ok)
  show "plain (through Network sample_overlay)" by (simp add: through_def)
qed

theorem required_overlay_never_bypassed_witness:
  "list_all (\<lambda>(hop, way). way = None \<or> (\<exists>address. way = Some (Through sample_overlay address)))
     (fst (fetch_with_same_origin_redirects sample_fetch_env (through_requiring (fe_ops sample_fetch_env) Network sample_overlay sample_url)
       sample_fetch ''s'' sample_limits))"
proof (rule required_overlay_never_bypassed [OF _ _ _ prod.collapse [symmetric]])
  have o1: "origin_of sample_ops sample_url = Some \<lparr>og_scheme = ''https'', og_host = ''a'', og_port = 443\<rparr>" by code_simp
  show "url_ops_ok (fe_ops sample_fetch_env)" unfolding sample_env_ops by (rule sample_ops_ok)
  show "origin_of (fe_ops sample_fetch_env) (fr_url sample_fetch) = Some \<lparr>og_scheme = ''https'', og_host = ''a'', og_port = 443\<rparr>"
    "origin_of (fe_ops sample_fetch_env) sample_url = Some \<lparr>og_scheme = ''https'', og_host = ''a'', og_port = 443\<rparr>"
    unfolding sample_env_ops by (rule o1)+
qed

end
