(* ===== verification/McpAuth.thy ===== *)
theory McpAuth
  imports SafeFetch
begin

text \<open>
  The OAuth client of the gateway, towards the provider of an upstream MCP: \<open>crates/mcp-auth\<close>. Requests go
  through the fetch of the caller, which is an argument here too, with a state of its own. Operations of the \<open>url\<close> crate, base64,
  hashing and the reading of JSON documents (\<open>json.rs\<close>, \<open>schema.rs\<close>, \<open>types.rs\<close>) are parameters.
\<close>

section \<open>Requests through the fetch of the caller\<close>

record auth_ops =
  ao_urls :: url_ops
  ao_parse :: "string \<Rightarrow> Url option"
  ao_is_tuple :: "Url \<Rightarrow> bool"
  ao_set_query :: "Url \<Rightarrow> string option \<Rightarrow> Url"
  ao_set_https :: "Url \<Rightarrow> Url"
  ao_query_pairs :: "Url \<Rightarrow> (string \<times> string) list"
  ao_form :: "(string \<times> string) list \<Rightarrow> string"
  ao_base64 :: "string \<Rightarrow> string"
  ao_challenge :: "string \<Rightarrow> string"

record HttpRequest =
  hr_method :: string
  hr_url :: Url
  hr_headers :: HeaderMap
  hr_body :: string

record HttpResponse =
  hp_status :: nat
  hp_headers :: HeaderMap
  hp_body :: string
  hp_url :: "Url option"

datatype 'e HttpFetchError = NetworkFailure 'e | OtherFailure 'e

type_synonym ('s, 'e) HttpFetch = "'s \<Rightarrow> HttpRequest \<Rightarrow> 's \<times> ('e HttpFetchError, HttpResponse) result"

text \<open>The \<open>?\<close> operator on a step that also changes a state.\<close>

definition go_on :: "'s \<times> ('e, 'a) result \<Rightarrow> ('s \<Rightarrow> 'a \<Rightarrow> 's \<times> ('e, 'b) result) \<Rightarrow> 's \<times> ('e, 'b) result" where
  "go_on step f = (case step of (s, Inl e) \<Rightarrow> (s, Inl e) | (s, Inr x) \<Rightarrow> f s x)"

lemma go_on_simps [simp]: "go_on (s, Inl e) f = (s, Inl e)" "go_on (s, Inr x) f = f s x"
  by (simp_all add: go_on_def)

definition map_failure :: "('e \<Rightarrow> 'f) \<Rightarrow> 's \<times> ('e, 'a) result \<Rightarrow> 's \<times> ('f, 'a) result" where
  "map_failure g step = (fst step, case snd step of Inl e \<Rightarrow> Inl (g e) | Inr x \<Rightarrow> Inr x)"

definition trim_header :: "string \<Rightarrow> string" where
  "trim_header v =
     (let space = (\<lambda>c. c \<in> {CHR 0x09, CHR 0x0A, CHR 0x0D, CHR 0x20}) in
      rev (dropWhile space (rev (dropWhile space v))))"

definition auth_header_value :: "HeaderMap \<Rightarrow> string \<Rightarrow> string option" where
  "auth_header_value headers name =
     (let values = map (trim_header \<circ> latin1 \<circ> snd) (filter (\<lambda>h. fst h = name) headers) in
      if values = [] then None else Some (join_with '', '' values))"

definition AUTH_MAX_REDIRECTS :: nat where "AUTH_MAX_REDIRECTS = 5"

definition SPECIAL_SCHEMES :: "string list" where
  "SPECIAL_SCHEMES = [''http'', ''https'', ''ws'', ''wss'', ''ftp'']"

text \<open>\<open>new URL(reference, base)\<close>: what \<open>join\<close> refuses for its slashes is read in its absolute form.\<close>

definition resolve_reference :: "auth_ops \<Rightarrow> Url \<Rightarrow> string \<Rightarrow> Url option" where
  "resolve_reference ops base reference =
     (let low = (\<lambda>c. of_char c \<le> (0x20 :: nat));
          trimmed = rev (dropWhile low (rev (dropWhile low reference)));
          cleaned = filter (\<lambda>c. c \<notin> {CHR 0x09, CHR 0x0A, CHR 0x0D}) trimmed;
          slashes = length (takeWhile (\<lambda>c. c = CHR ''/'' \<or> c = CHR 0x5C) cleaned) in
      if scheme base \<in> set SPECIAL_SCHEMES \<and> 2 < slashes then ao_parse ops (scheme base @ '':'' @ cleaned)
      else uo_join (ao_urls ops) base reference)"

definition auth_redirect_target :: "auth_ops \<Rightarrow> HttpResponse \<Rightarrow> Url \<Rightarrow> Url option" where
  "auth_redirect_target ops response request_url =
     (if \<not> is_redirect (hp_status response) then None
      else
        (case auth_header_value (hp_headers response) ''location'' of
           None \<Rightarrow> None
         | Some location \<Rightarrow> if location = [] then None else resolve_reference ops request_url location))"

definition is_within_origin :: "auth_ops \<Rightarrow> Url \<Rightarrow> Url \<Rightarrow> bool" where
  "is_within_origin ops from to \<longleftrightarrow>
     scheme from = scheme to \<and> host_str from = host_str to \<and> uo_port (ao_urls ops) from = uo_port (ao_urls ops) to
     \<or> host_str from = host_str to \<and> scheme from = ''http'' \<and> uo_port (ao_urls ops) from = None \<and> scheme to = ''https''
       \<and> uo_port (ao_urls ops) to = None"

definition password_of :: "Url \<Rightarrow> string" where
  "password_of url = (case url_password url of None \<Rightarrow> [] | Some p \<Rightarrow> p)"

definition adds_userinfo :: "Url \<Rightarrow> Url \<Rightarrow> bool" where
  "adds_userinfo from target \<longleftrightarrow>
     (username target \<noteq> [] \<or> password_of target \<noteq> []) \<and> (username target \<noteq> username from \<or> password_of target \<noteq> password_of from)"

text \<open>The loop over redirects, with how many it may still follow.\<close>

fun fetch_followed ::
  "auth_ops \<Rightarrow> ('s, 'e) HttpFetch \<Rightarrow> nat \<Rightarrow> 's \<Rightarrow> HttpRequest \<Rightarrow> 's \<times> ('e HttpFetchError, HttpResponse) result" where
  "fetch_followed ops fetch left s request =
     go_on (fetch s request) (\<lambda>s1 answer.
       let target = auth_redirect_target ops answer (hr_url request);
           response = (if hp_url answer = None then answer\<lparr>hp_url := Some (hr_url request)\<rparr> else answer);
           keeps_method = (hp_status response \<in> {307, 308} \<or> hr_method request = ''GET'') in
       case target of
         None \<Rightarrow> (s1, Inr response)
       | Some to \<Rightarrow>
           (case left of
              0 \<Rightarrow> (s1, Inr response)
            | Suc less_left \<Rightarrow>
                if \<not> keeps_method \<or> adds_userinfo (hr_url request) to \<or> \<not> is_within_origin ops (hr_url request) to then (s1, Inr response)
                else fetch_followed ops fetch less_left s1 (request\<lparr>hr_url := to\<rparr>)))"

declare fetch_followed.simps [simp del]

definition fetch_within_origin ::
  "auth_ops \<Rightarrow> ('s, 'e) HttpFetch \<Rightarrow> 's \<Rightarrow> HttpRequest \<Rightarrow> 's \<times> ('e HttpFetchError, HttpResponse) result" where
  "fetch_within_origin ops fetch s request = fetch_followed ops fetch AUTH_MAX_REDIRECTS s request"

section \<open>Documents and errors\<close>

text \<open>The members that are read of the metadata of an authorization server, from either document.\<close>

record AuthorizationServerMetadata =
  md_issuer :: string
  md_authorization_endpoint :: string
  md_token_endpoint :: string
  md_registration_endpoint :: "string option"
  md_scopes_supported :: "string list option"
  md_response_types_supported :: "string list"
  md_token_endpoint_auth_methods_supported :: "string list option"
  md_code_challenge_methods_supported :: "string list option"
  md_client_id_metadata_document_supported :: "bool option"

record OAuthProtectedResourceMetadata =
  rm_resource :: string
  rm_authorization_servers :: "string list option"
  rm_scopes_supported :: "string list option"

text \<open>The lifetime is in milliseconds, cut to whole ones; nothing when the provider gave no number.\<close>

record OAuthTokens =
  tk_access_token :: string
  tk_token_type :: string
  tk_expires_in :: "int option"
  tk_scope :: "string option"
  tk_refresh_token :: "string option"

record OAuthClientInformationMixed =
  ci_client_id :: string
  ci_client_secret :: "string option"
  ci_auth_method :: "string option"

record OAuthErrorResponse =
  oe_error :: string
  oe_description :: "string option"
  oe_uri :: "string option"

datatype MetadataDocument = OAuthDocument | OpenIdDocument

datatype doc_error = JsonSyntax string | SchemaMismatch string

record documents =
  doc_metadata :: "MetadataDocument \<Rightarrow> string \<Rightarrow> (doc_error, AuthorizationServerMetadata) result"
  doc_resource :: "string \<Rightarrow> (doc_error, OAuthProtectedResourceMetadata) result"
  doc_tokens :: "string \<Rightarrow> (doc_error, OAuthTokens) result"
  doc_client :: "string \<Rightarrow> (doc_error, OAuthClientInformationMixed) result"
  doc_error_response :: "string \<Rightarrow> (string, OAuthErrorResponse) result"
  doc_body_text :: "string \<Rightarrow> string"

definition ERROR_CODES :: "string list" where
  "ERROR_CODES = [''invalid_request'', ''invalid_client'', ''invalid_grant'', ''unauthorized_client'',
     ''unsupported_grant_type'', ''invalid_scope'', ''access_denied'', ''server_error'', ''temporarily_unavailable'',
     ''unsupported_response_type'', ''unsupported_token_type'', ''invalid_token'', ''method_not_allowed'',
     ''too_many_requests'', ''invalid_client_metadata'', ''insufficient_scope'', ''invalid_target'']"

text \<open>An error of a provider, of the kind its code names.\<close>

record ProviderError =
  pe_code :: string
  pe_message :: string
  pe_uri :: "string option"

datatype 'e AuthError =
    FetchFailed "'e HttpFetchError"
  | ResourceMetadataNotImplemented
  | ResourceMetadataStatus nat
  | ServerMetadataStatus nat MetadataDocument Url
  | ResponseTypeNotSupported
  | ChallengeMethodNotSupported
  | RegistrationNotSupported
  | ClientSecretRequired
  | InvalidAuthUrl
  | InvalidCharacter
  | DocumentUnread doc_error
  | ProviderRefused ProviderError

definition INHERITED_NAMES :: "string list" where
  "INHERITED_NAMES = [''__defineGetter__'', ''__defineSetter__'', ''__lookupGetter__'', ''__lookupSetter__'', ''__proto__'',
     ''hasOwnProperty'', ''isPrototypeOf'', ''propertyIsEnumerable'', ''toLocaleString'', ''toString'', ''valueOf'']"

definition oauth_error_of :: "documents \<Rightarrow> string \<Rightarrow> (string, ProviderError) result" where
  "oauth_error_of docs body =
     and_then (doc_error_response docs body) (\<lambda>response.
       ensure (oe_error response \<notin> set INHERITED_NAMES) ''TypeError: errorClass is not a constructor''
         (Inr \<lparr>pe_code = (if oe_error response \<in> set ERROR_CODES then oe_error response else ''server_error''),
               pe_message = (case oe_description response of None \<Rightarrow> [] | Some text \<Rightarrow> text), pe_uri = oe_uri response\<rparr>))"

definition unfollowed_redirect :: "auth_ops \<Rightarrow> HttpResponse \<Rightarrow> string option" where
  "unfollowed_redirect ops response =
     (case hp_url response of
        None \<Rightarrow> None
      | Some from \<Rightarrow>
          map_option (\<lambda>to.
            let target = uo_clear_fragment (ao_urls ops) (ao_set_query ops (uo_clear_credentials (ao_urls ops) to) None) in
            if scheme target = ''http'' \<and> scheme from = ''https''
            then ''Redirect to plain http not followed; try '' @ url_text (ao_set_https ops target) @ '' instead''
            else ''Redirect to '' @ url_text target @ '' not followed'')
            (auth_redirect_target ops response from))"

definition parse_error_response :: "auth_ops \<Rightarrow> documents \<Rightarrow> HttpResponse \<Rightarrow> ProviderError" where
  "parse_error_response ops docs response =
     (let body = doc_body_text docs (hp_body response) in
      case oauth_error_of docs body of
        Inr err \<Rightarrow> err
      | Inl reason \<Rightarrow>
          (let detail = (case unfollowed_redirect ops response of
                 Some description \<Rightarrow> description
               | None \<Rightarrow> ''Invalid OAuth error response: '' @ reason @ ''. Raw body: '' @ body) in
           \<lparr>pe_code = ''server_error'', pe_message = ''HTTP '' @ show_nat (hp_status response) @ '': '' @ detail, pe_uri = None\<rparr>))"

section \<open>Resources\<close>

definition resource_url_from_server_url :: "auth_ops \<Rightarrow> Url \<Rightarrow> Url" where
  "resource_url_from_server_url ops url = uo_clear_fragment (ao_urls ops) url"

definition with_slash :: "string \<Rightarrow> string" where
  "with_slash p = (if p \<noteq> [] \<and> last p = CHR ''/'' then p else p @ ''/'')"

definition check_resource_allowed :: "auth_ops \<Rightarrow> Url \<Rightarrow> Url \<Rightarrow> bool" where
  "check_resource_allowed ops requested configured \<longleftrightarrow>
     uo_origin (ao_urls ops) requested = uo_origin (ao_urls ops) configured
     \<and> length (path configured) \<le> length (path requested)
     \<and> take (length (with_slash (path configured))) (with_slash (path requested)) = with_slash (path configured)"

section \<open>Discovery\<close>

definition LATEST_PROTOCOL_VERSION :: string where "LATEST_PROTOCOL_VERSION = ''2025-11-25''"

definition without_last_slash :: "string \<Rightarrow> string" where
  "without_last_slash p = (if p \<noteq> [] \<and> last p = CHR ''/'' then butlast p else p)"

definition get_request :: "Url \<Rightarrow> HeaderMap \<Rightarrow> HttpRequest" where
  "get_request url headers = \<lparr>hr_method = ''GET'', hr_url = url, hr_headers = headers, hr_body = []\<rparr>"

definition fetch_with_cors_retry ::
  "auth_ops \<Rightarrow> ('s, 'e) HttpFetch \<Rightarrow> 's \<Rightarrow> Url \<Rightarrow> HeaderMap \<Rightarrow> 's \<times> ('e HttpFetchError, HttpResponse option) result" where
  "fetch_with_cors_retry ops fetch s url headers =
     (case fetch_within_origin ops fetch s (get_request url headers) of
        (s1, Inr response) \<Rightarrow> (s1, Inr (Some response))
      | (s1, Inl (OtherFailure err)) \<Rightarrow> (s1, Inl (OtherFailure err))
      | (s1, Inl (NetworkFailure _)) \<Rightarrow>
          (case fetch_within_origin ops fetch s1 (get_request url []) of
             (s2, Inr response) \<Rightarrow> (s2, Inr (Some response))
           | (s2, Inl (NetworkFailure _)) \<Rightarrow> (s2, Inr None)
           | (s2, Inl (OtherFailure err)) \<Rightarrow> (s2, Inl (OtherFailure err))))"

definition RESOURCE_WELL_KNOWN :: string where
  "RESOURCE_WELL_KNOWN = ''/.well-known/oauth-protected-resource''"

definition filled_query :: "Url \<Rightarrow> string option" where
  "filled_query url = (case query url of Some q \<Rightarrow> if q = [] then None else Some q | None \<Rightarrow> None)"

definition unread :: "(doc_error, 'a) result \<Rightarrow> ('e AuthError, 'a) result" where
  "unread r = (case r of Inl err \<Rightarrow> Inl (DocumentUnread err) | Inr x \<Rightarrow> Inr x)"

definition some_or :: "'e \<Rightarrow> 'a option \<Rightarrow> ('e, 'a) result" where
  "some_or e x = (case x of None \<Rightarrow> Inl e | Some y \<Rightarrow> Inr y)"

definition discover_oauth_protected_resource_metadata ::
  "auth_ops \<Rightarrow> documents \<Rightarrow> ('s, 'e) HttpFetch \<Rightarrow> 's \<Rightarrow> Url \<Rightarrow> Url option \<Rightarrow> 's \<times> ('e AuthError, OAuthProtectedResourceMetadata) result" where
  "discover_oauth_protected_resource_metadata ops docs fetch s server_url given_url =
     (let headers = [(''mcp-protocol-version'', LATEST_PROTOCOL_VERSION)] in
      go_on (s, some_or InvalidAuthUrl (case given_url of
          Some url \<Rightarrow> Some url
        | None \<Rightarrow>
            map_option (\<lambda>url. ao_set_query ops url (filled_query server_url))
              (uo_join (ao_urls ops) server_url (RESOURCE_WELL_KNOWN @ without_last_slash (path server_url))))) (\<lambda>s0 url.
      go_on (map_failure FetchFailed (fetch_with_cors_retry ops fetch s0 url headers)) (\<lambda>s1 first_response.
      let falls_back = (case first_response of
            None \<Rightarrow> True
          | Some r \<Rightarrow> \<not> is_success (hp_status r) \<and> hp_status r < 500 \<and> path server_url \<noteq> ''/'') in
      go_on (if given_url = None \<and> falls_back
             then go_on (s1, some_or InvalidAuthUrl (uo_join (ao_urls ops) server_url RESOURCE_WELL_KNOWN)) (\<lambda>s1 root_url.
                    map_failure FetchFailed (fetch_with_cors_retry ops fetch s1 root_url headers))
             else (s1, Inr first_response)) (\<lambda>s2 response.
      (s2,
       case response of
         None \<Rightarrow> Inl ResourceMetadataNotImplemented
       | Some r \<Rightarrow>
           if hp_status r = 404 then Inl ResourceMetadataNotImplemented
           else if \<not> is_success (hp_status r) then Inl (ResourceMetadataStatus (hp_status r))
           else unread (doc_resource docs (hp_body r)))))))"

definition location_at :: "auth_ops \<Rightarrow> Url \<Rightarrow> string \<Rightarrow> MetadataDocument \<Rightarrow> ('e AuthError, Url \<times> MetadataDocument) result" where
  "location_at ops origin p document =
     and_then (some_or InvalidAuthUrl (resolve_reference ops origin p)) (\<lambda>url. Inr (url, document))"

definition build_discovery_urls :: "auth_ops \<Rightarrow> Url \<Rightarrow> ('e AuthError, (Url \<times> MetadataDocument) list) result" where
  "build_discovery_urls ops url =
     ensure (ao_is_tuple ops url) InvalidAuthUrl
       (and_then (some_or InvalidAuthUrl (ao_parse ops (uo_origin (ao_urls ops) url))) (\<lambda>origin.
          if path url = ''/'' then
            and_then (location_at ops origin ''/.well-known/oauth-authorization-server'' OAuthDocument) (\<lambda>l1.
            and_then (location_at ops origin ''/.well-known/openid-configuration'' OpenIdDocument) (\<lambda>l2.
            Inr [l1, l2]))
          else
            (let p = without_last_slash (path url) in
             and_then (location_at ops origin (''/.well-known/oauth-authorization-server'' @ p) OAuthDocument) (\<lambda>l1.
             and_then (location_at ops origin (''/.well-known/openid-configuration'' @ p) OpenIdDocument) (\<lambda>l2.
             and_then (location_at ops origin (p @ ''/.well-known/openid-configuration'') OpenIdDocument) (\<lambda>l3.
             Inr [l1, l2, l3]))))))"

fun try_locations ::
  "auth_ops \<Rightarrow> documents \<Rightarrow> ('s, 'e) HttpFetch \<Rightarrow> 's \<Rightarrow> (Url \<times> MetadataDocument) list
     \<Rightarrow> 's \<times> ('e AuthError, AuthorizationServerMetadata option) result" where
  "try_locations ops docs fetch s [] = (s, Inr None)"
| "try_locations ops docs fetch s ((url, document) # locations) =
     go_on (map_failure FetchFailed
       (fetch_with_cors_retry ops fetch s url [(''mcp-protocol-version'', LATEST_PROTOCOL_VERSION), (''accept'', ''application/json'')]))
       (\<lambda>s1 response.
          case response of
            None \<Rightarrow> try_locations ops docs fetch s1 locations
          | Some r \<Rightarrow>
              if \<not> is_success (hp_status r) then
                (if hp_status r < 500 then try_locations ops docs fetch s1 locations
                 else (s1, Inl (ServerMetadataStatus (hp_status r) document url)))
              else (s1, and_then (unread (doc_metadata docs document (hp_body r))) (\<lambda>m. Inr (Some m))))"

definition discover_authorization_server_metadata ::
  "auth_ops \<Rightarrow> documents \<Rightarrow> ('s, 'e) HttpFetch \<Rightarrow> 's \<Rightarrow> Url \<Rightarrow> 's \<times> ('e AuthError, AuthorizationServerMetadata option) result" where
  "discover_authorization_server_metadata ops docs fetch s url =
     go_on (s, build_discovery_urls ops url) (try_locations ops docs fetch)"

record OAuthServerInfo =
  si_authorization_server_url :: string
  si_metadata :: "AuthorizationServerMetadata option"
  si_resource_metadata :: "OAuthProtectedResourceMetadata option"

definition advertised_server :: "OAuthProtectedResourceMetadata option \<Rightarrow> string option" where
  "advertised_server resource =
     (case resource of
        None \<Rightarrow> None
      | Some r \<Rightarrow>
          (case rm_authorization_servers r of
             Some (server # _) \<Rightarrow> if server = [] then None else Some server
           | _ \<Rightarrow> None))"

definition discover_oauth_server_info ::
  "auth_ops \<Rightarrow> documents \<Rightarrow> ('s, 'e) HttpFetch \<Rightarrow> 's \<Rightarrow> Url \<Rightarrow> 's \<times> ('e AuthError, OAuthServerInfo) result" where
  "discover_oauth_server_info ops docs fetch s server_url =
     (let (s1, found) = discover_oauth_protected_resource_metadata ops docs fetch s server_url None;
          resource = (case found of Inl _ \<Rightarrow> None | Inr r \<Rightarrow> Some r) in
      go_on (s1, some_or InvalidAuthUrl (case advertised_server resource of
          Some server \<Rightarrow> map_option (Pair server) (ao_parse ops server)
        | None \<Rightarrow> map_option (\<lambda>root. (url_text root, root)) (uo_join (ao_urls ops) server_url ''/''))) (\<lambda>s2 (server, url).
      go_on (discover_authorization_server_metadata ops docs fetch s2 url) (\<lambda>s3 metadata.
      (s3, Inr \<lparr>si_authorization_server_url = server, si_metadata = metadata, si_resource_metadata = resource\<rparr>))))"

section \<open>The client at the provider\<close>

datatype ClientAuthMethod = ClientSecretBasic | ClientSecretPost | NoClientAuth

primrec auth_method_text :: "ClientAuthMethod \<Rightarrow> string" where
  "auth_method_text ClientSecretBasic = ''client_secret_basic''"
| "auth_method_text ClientSecretPost = ''client_secret_post''"
| "auth_method_text NoClientAuth = ''none''"

definition auth_method_from_name :: "string \<Rightarrow> ClientAuthMethod option" where
  "auth_method_from_name name = find (\<lambda>m. auth_method_text m = name) [ClientSecretBasic, ClientSecretPost, NoClientAuth]"

definition select_client_auth_method :: "OAuthClientInformationMixed \<Rightarrow> string list \<Rightarrow> ClientAuthMethod" where
  "select_client_auth_method client supported_methods =
     (let has_client_secret = (ci_client_secret client \<noteq> None);
          supports = (\<lambda>m. auth_method_text m \<in> set supported_methods);
          registered = Option.bind (ci_auth_method client) auth_method_from_name;
          otherwise =
            (if supported_methods = [] then (if has_client_secret then ClientSecretBasic else NoClientAuth)
             else if has_client_secret \<and> supports ClientSecretBasic then ClientSecretBasic
             else if has_client_secret \<and> supports ClientSecretPost then ClientSecretPost
             else if supports NoClientAuth then NoClientAuth
             else if has_client_secret then ClientSecretPost
             else NoClientAuth) in
      case registered of
        Some m \<Rightarrow> if supported_methods = [] \<or> supports m then m else otherwise
      | None \<Rightarrow> otherwise)"

text \<open>One byte per character of a text in UTF-8, if every character is one of Latin-1.\<close>

fun latin1_bytes :: "string \<Rightarrow> string option" where
  "latin1_bytes [] = Some []"
| "latin1_bytes (c # cs) =
     (if of_char c < (0x80 :: nat) then map_option (Cons c) (latin1_bytes cs)
      else
        (case cs of
           [] \<Rightarrow> None
         | d # ds \<Rightarrow>
             if c = CHR 0xC2 then map_option (Cons d) (latin1_bytes ds)
             else if c = CHR 0xC3 then map_option (Cons (char_of (of_char d + (0x40 :: nat)))) (latin1_bytes ds)
             else None))"

definition header_text_ok :: "string \<Rightarrow> bool" where
  "header_text_ok v \<longleftrightarrow> list_all (\<lambda>c. let n = (of_char c :: nat) in 32 \<le> n \<and> n < 127 \<or> c = CHR 0x09) v"

definition apply_client_authentication ::
  "auth_ops \<Rightarrow> ClientAuthMethod \<Rightarrow> OAuthClientInformationMixed \<Rightarrow> HeaderMap \<Rightarrow> (string \<times> string) list
     \<Rightarrow> ('e AuthError, HeaderMap \<times> (string \<times> string) list) result" where
  "apply_client_authentication ops m client headers params =
     (let secret = (case ci_client_secret client of Some t \<Rightarrow> if t = [] then None else Some t | None \<Rightarrow> None) in
      case m of
        ClientSecretBasic \<Rightarrow>
          and_then (some_or ClientSecretRequired secret) (\<lambda>client_secret.
          and_then (some_or InvalidCharacter (latin1_bytes (ci_client_id client @ '':'' @ client_secret))) (\<lambda>credentials.
          let v = ''Basic '' @ ao_base64 ops credentials in
          ensure (header_text_ok v) InvalidCharacter (Inr (header_insert ''authorization'' v headers, params))))
      | ClientSecretPost \<Rightarrow>
          (let params1 = set_param params ''client_id'' (ci_client_id client) in
           Inr (headers, case secret of Some t \<Rightarrow> set_param params1 ''client_secret'' t | None \<Rightarrow> params1))
      | NoClientAuth \<Rightarrow> Inr (headers, set_param params ''client_id'' (ci_client_id client)))"

definition at_authorization_server :: "auth_ops \<Rightarrow> Url \<Rightarrow> string \<Rightarrow> ('e AuthError, Url) result" where
  "at_authorization_server ops server p = some_or InvalidAuthUrl (uo_join (ao_urls ops) server p)"

definition endpoint_url :: "auth_ops \<Rightarrow> string \<Rightarrow> ('e AuthError, Url) result" where
  "endpoint_url ops value = some_or InvalidAuthUrl (ao_parse ops value)"

definition filled_text :: "string option \<Rightarrow> string option" where
  "filled_text v = (case v of Some t \<Rightarrow> if t = [] then None else Some t | None \<Rightarrow> None)"

definition set_filled :: "string \<Rightarrow> string option \<Rightarrow> (string \<times> string) list \<Rightarrow> (string \<times> string) list" where
  "set_filled name v params = (case v of Some t \<Rightarrow> set_param params name t | None \<Rightarrow> params)"

fun contains_word :: "string \<Rightarrow> string \<Rightarrow> bool" where
  "contains_word w s = (take (length w) s = w \<or> (case s of [] \<Rightarrow> False | _ # cs \<Rightarrow> contains_word w cs))"

record AuthorizationStart =
  as_authorization_url :: Url
  as_code_verifier :: string

text \<open>The verifier is drawn at random; its challenge follows from it.\<close>

definition start_authorization ::
  "auth_ops \<Rightarrow> string \<Rightarrow> Url \<Rightarrow> AuthorizationServerMetadata option \<Rightarrow> OAuthClientInformationMixed \<Rightarrow> string \<Rightarrow> string option
     \<Rightarrow> string option \<Rightarrow> Url option \<Rightarrow> ('e AuthError, AuthorizationStart) result" where
  "start_authorization ops verifier server metadata client redirect_url scope state resource =
     and_then (case metadata of
         Some m \<Rightarrow>
           and_then (endpoint_url ops (md_authorization_endpoint m)) (\<lambda>url.
           ensure (''code'' \<in> set (md_response_types_supported m)) ResponseTypeNotSupported
             (ensure (case md_code_challenge_methods_supported m of None \<Rightarrow> True | Some methods \<Rightarrow> ''S256'' \<in> set methods)
                ChallengeMethodNotSupported (Inr url)))
       | None \<Rightarrow> at_authorization_server ops server ''/authorize'') (\<lambda>url.
       let p1 = set_param (ao_query_pairs ops url) ''response_type'' ''code'';
           p2 = set_param p1 ''client_id'' (ci_client_id client);
           p3 = set_param p2 ''code_challenge'' (ao_challenge ops verifier);
           p4 = set_param p3 ''code_challenge_method'' ''S256'';
           p5 = set_param p4 ''redirect_uri'' redirect_url;
           p6 = set_filled ''state'' (filled_text state) p5;
           p7 = set_filled ''scope'' (filled_text scope) p6;
           p8 = (case filled_text scope of
                   Some t \<Rightarrow> if contains_word ''offline_access'' t then p7 @ [(''prompt'', ''consent'')] else p7
                 | None \<Rightarrow> p7);
           p9 = set_filled ''resource'' (map_option url_text resource) p8 in
       Inr \<lparr>as_authorization_url = ao_set_query ops url (Some (ao_form ops p9)), as_code_verifier = verifier\<rparr>)"

definition token_request ::
  "auth_ops \<Rightarrow> Url \<Rightarrow> AuthorizationServerMetadata option \<Rightarrow> (string \<times> string) list \<Rightarrow> OAuthClientInformationMixed \<Rightarrow> Url option
     \<Rightarrow> ('e AuthError, HttpRequest) result" where
  "token_request ops server metadata params client resource =
     and_then (case metadata of
         Some m \<Rightarrow> if md_token_endpoint m \<noteq> [] then endpoint_url ops (md_token_endpoint m) else at_authorization_server ops server ''/token''
       | None \<Rightarrow> at_authorization_server ops server ''/token'') (\<lambda>token_url.
       let headers = [(''content-type'', ''application/x-www-form-urlencoded''), (''accept'', ''application/json'')];
           params1 = set_filled ''resource'' (map_option url_text resource) params;
           supported = (case metadata of
               Some m \<Rightarrow> (case md_token_endpoint_auth_methods_supported m of Some ms \<Rightarrow> ms | None \<Rightarrow> [])
             | None \<Rightarrow> []) in
       and_then (apply_client_authentication ops (select_client_auth_method client supported) client headers params1) (\<lambda>(headers1, params2).
       Inr \<lparr>hr_method = ''POST'', hr_url = token_url, hr_headers = headers1, hr_body = ao_form ops params2\<rparr>))"

definition execute_token_request ::
  "auth_ops \<Rightarrow> documents \<Rightarrow> ('s, 'e) HttpFetch \<Rightarrow> 's \<Rightarrow> Url \<Rightarrow> AuthorizationServerMetadata option \<Rightarrow> (string \<times> string) list
     \<Rightarrow> OAuthClientInformationMixed \<Rightarrow> Url option \<Rightarrow> 's \<times> ('e AuthError, OAuthTokens) result" where
  "execute_token_request ops docs fetch s server metadata params client resource =
     go_on (s, token_request ops server metadata params client resource) (\<lambda>s0 request.
     go_on (map_failure FetchFailed (fetch_within_origin ops fetch s0 request)) (\<lambda>s1 response.
     (s1, if \<not> is_success (hp_status response) then Inl (ProviderRefused (parse_error_response ops docs response))
          else unread (doc_tokens docs (hp_body response)))))"

definition exchange_authorization ::
  "auth_ops \<Rightarrow> documents \<Rightarrow> ('s, 'e) HttpFetch \<Rightarrow> 's \<Rightarrow> Url \<Rightarrow> AuthorizationServerMetadata option \<Rightarrow> OAuthClientInformationMixed
     \<Rightarrow> string \<Rightarrow> string \<Rightarrow> string \<Rightarrow> Url option \<Rightarrow> 's \<times> ('e AuthError, OAuthTokens) result" where
  "exchange_authorization ops docs fetch s server metadata client authorization_code verifier redirect resource =
     execute_token_request ops docs fetch s server metadata
       [(''grant_type'', ''authorization_code''), (''code'', authorization_code), (''code_verifier'', verifier), (''redirect_uri'', redirect)]
       client resource"

definition refresh_authorization ::
  "auth_ops \<Rightarrow> documents \<Rightarrow> ('s, 'e) HttpFetch \<Rightarrow> 's \<Rightarrow> Url \<Rightarrow> AuthorizationServerMetadata option \<Rightarrow> OAuthClientInformationMixed
     \<Rightarrow> string \<Rightarrow> Url option \<Rightarrow> 's \<times> ('e AuthError, OAuthTokens) result" where
  "refresh_authorization ops docs fetch s server metadata client refresh resource =
     go_on (execute_token_request ops docs fetch s server metadata [(''grant_type'', ''refresh_token''), (''refresh_token'', refresh)] client resource)
       (\<lambda>s1 tokens. (s1, Inr (if tk_refresh_token tokens = None then tokens\<lparr>tk_refresh_token := Some refresh\<rparr> else tokens)))"

text \<open>The body of a registration: the object the caller gives, with the scope. Its text as JSON is a parameter.\<close>

definition set_member :: "string \<Rightarrow> Value \<Rightarrow> (string \<times> Value) list \<Rightarrow> (string \<times> Value) list" where
  "set_member k v members =
     (if k \<in> fst ` set members then map (\<lambda>m. if fst m = k then (k, v) else m) members else members @ [(k, v)])"

definition registration_body :: "(Value \<Rightarrow> string) \<Rightarrow> (string \<times> Value) list \<Rightarrow> string option \<Rightarrow> string" where
  "registration_body print members scope =
     print (JObject (case scope of Some t \<Rightarrow> set_member ''scope'' (JString t) members | None \<Rightarrow> members))"

definition register_at_provider ::
  "auth_ops \<Rightarrow> documents \<Rightarrow> ('s, 'e) HttpFetch \<Rightarrow> 's \<Rightarrow> Url \<Rightarrow> AuthorizationServerMetadata option \<Rightarrow> string
     \<Rightarrow> 's \<times> ('e AuthError, OAuthClientInformationMixed) result" where
  "register_at_provider ops docs fetch s server metadata body =
     go_on (s, case metadata of
         Some m \<Rightarrow>
           (case filled_text (md_registration_endpoint m) of
              Some registration_endpoint \<Rightarrow> endpoint_url ops registration_endpoint
            | None \<Rightarrow> Inl RegistrationNotSupported)
       | None \<Rightarrow> at_authorization_server ops server ''/register'') (\<lambda>s0 url.
     go_on (map_failure FetchFailed (fetch_within_origin ops fetch s0
       \<lparr>hr_method = ''POST'', hr_url = url, hr_headers = [(''content-type'', ''application/json'')], hr_body = body\<rparr>)) (\<lambda>s1 response.
     (s1, if \<not> is_success (hp_status response) then Inl (ProviderRefused (parse_error_response ops docs response))
          else unread (doc_client docs (hp_body response)))))"

section \<open>What the fetch of a caller keeps\<close>

text \<open>
  The seam between the OAuth client and its caller: whatever the fetch of the caller keeps of its state at every
  request, every operation of the client keeps.
\<close>

locale http_fetch =
  fixes fetch :: "('s, 'e) HttpFetch"
    and keeps :: "'s \<Rightarrow> bool"
  assumes fetch_keeps: "keeps s \<Longrightarrow> keeps (fst (fetch s request))"
begin

lemma go_on_keeps:
  assumes "keeps (fst step)" and "\<And>s x. keeps s \<Longrightarrow> keeps (fst (f s x))"
  shows "keeps (fst (go_on step f))"
proof (cases step)
  case (Pair s r)
  then show ?thesis using assms by (cases r) auto
qed

lemma map_failure_keeps: "keeps (fst step) \<Longrightarrow> keeps (fst (map_failure g step))"
  by (simp add: map_failure_def)

lemma fetch_followed_keeps: "keeps s \<Longrightarrow> keeps (fst (fetch_followed ops fetch left s request))"
proof (induction left arbitrary: s request)
  case 0
  show ?case
    by (subst fetch_followed.simps, rule go_on_keeps)
      (auto simp: Let_def fetch_keeps [OF 0] split: option.split)
next
  case (Suc left)
  show ?case
    by (subst fetch_followed.simps, rule go_on_keeps)
      (auto simp: Let_def fetch_keeps [OF Suc.prems] Suc.IH split: option.split)
qed

lemma fetch_within_origin_keeps: "keeps s \<Longrightarrow> keeps (fst (fetch_within_origin ops fetch s request))"
  by (simp add: fetch_within_origin_def fetch_followed_keeps)

lemma fetch_with_cors_retry_keeps:
  assumes "keeps s"
  shows "keeps (fst (fetch_with_cors_retry ops fetch s url headers))"
proof -
  obtain s1 r1 where r1: "fetch_within_origin ops fetch s (get_request url headers) = (s1, r1)" by fastforce
  then have k1: "keeps s1" using fetch_within_origin_keeps [OF assms] by (metis fst_conv)
  obtain s2 r2 where r2: "fetch_within_origin ops fetch s1 (get_request url []) = (s2, r2)" by fastforce
  then have k2: "keeps s2" using fetch_within_origin_keeps [OF k1] by (metis fst_conv)
  show ?thesis
    using k1 k2 by (auto simp: fetch_with_cors_retry_def r1 r2 split: sum.split HttpFetchError.split)
qed

lemmas seam_keeps = go_on_keeps map_failure_keeps fetch_within_origin_keeps fetch_with_cors_retry_keeps

lemma protected_resource_keeps:
  "keeps s \<Longrightarrow> keeps (fst (discover_oauth_protected_resource_metadata ops docs fetch s server_url given))"
  by (auto simp: discover_oauth_protected_resource_metadata_def Let_def intro!: seam_keeps)

lemma try_locations_keeps: "keeps s \<Longrightarrow> keeps (fst (try_locations ops docs fetch s locations))"
proof (induction locations arbitrary: s)
  case (Cons location locations)
  then show ?case
    by (cases location) (auto intro!: seam_keeps split: option.split)
qed simp

lemma server_metadata_keeps:
  "keeps s \<Longrightarrow> keeps (fst (discover_authorization_server_metadata ops docs fetch s url))"
  by (auto simp: discover_authorization_server_metadata_def intro!: seam_keeps try_locations_keeps)

lemma server_info_keeps:
  assumes "keeps s"
  shows "keeps (fst (discover_oauth_server_info ops docs fetch s url))"
proof -
  obtain s1 r where r: "discover_oauth_protected_resource_metadata ops docs fetch s url None = (s1, r)" by fastforce
  then have "keeps s1" using protected_resource_keeps [OF assms, of ops docs url None] by simp
  then show ?thesis
    by (auto simp: discover_oauth_server_info_def r Let_def split_def intro!: seam_keeps server_metadata_keeps)
qed

lemma token_request_keeps:
  "keeps s \<Longrightarrow> keeps (fst (execute_token_request ops docs fetch s server metadata params client resource))"
  by (auto simp: execute_token_request_def intro!: seam_keeps)

lemma exchange_keeps:
  "keeps s \<Longrightarrow> keeps (fst (exchange_authorization ops docs fetch s server metadata client c verifier redirect resource))"
  by (simp add: exchange_authorization_def token_request_keeps)

lemma refresh_keeps:
  "keeps s \<Longrightarrow> keeps (fst (refresh_authorization ops docs fetch s server metadata client refresh resource))"
  by (auto simp: refresh_authorization_def intro!: seam_keeps token_request_keeps)

lemma register_keeps: "keeps s \<Longrightarrow> keeps (fst (register_at_provider ops docs fetch s server metadata body))"
  by (auto simp: register_at_provider_def intro!: seam_keeps)

end

section \<open>Where credentials go\<close>

text \<open>A fetch that also keeps what was sent.\<close>

definition recording :: "('s, 'e) HttpFetch \<Rightarrow> (HttpRequest list \<times> 's, 'e) HttpFetch" where
  "recording fetch state request = (let (s, r) = fetch (snd state) request in ((fst state @ [request], s), r))"

lemma recording_log: "fst (fst (recording fetch state request)) = fst state @ [request]"
  by (simp add: recording_def split_def Let_def)

lemma is_within_origin_refl: "is_within_origin ops url url"
  by (simp add: is_within_origin_def)

lemma is_within_origin_trans:
  "is_within_origin ops a b \<Longrightarrow> is_within_origin ops b c \<Longrightarrow> is_within_origin ops a c"
  by (auto simp: is_within_origin_def)

text \<open>A request is the same as another but for its address, which is within its origin.\<close>

definition repeats :: "auth_ops \<Rightarrow> HttpRequest \<Rightarrow> HttpRequest \<Rightarrow> bool" where
  "repeats ops request q \<longleftrightarrow>
     hr_method q = hr_method request \<and> hr_headers q = hr_headers request \<and> hr_body q = hr_body request
     \<and> is_within_origin ops (hr_url request) (hr_url q)"

lemma repeats_refl: "repeats ops request request"
  by (simp add: repeats_def is_within_origin_refl)

lemma repeats_moved:
  "is_within_origin ops (hr_url request) to \<Longrightarrow> repeats ops (request\<lparr>hr_url := to\<rparr>) q \<Longrightarrow> repeats ops request q"
  by (auto simp: repeats_def intro: is_within_origin_trans)

lemma fetch_followed_sent:
  "\<exists>later. fst (fst (fetch_followed ops (recording fetch) left state request)) = fst state @ later
     \<and> length later \<le> Suc left \<and> list_all (repeats ops request) later"
proof (induction left arbitrary: state request)
  case 0
  obtain t r where step: "recording fetch state request = (t, r)" by fastforce
  then have "fst t = fst state @ [request]" using recording_log [of fetch state request] by simp
  then have "fst (fst (fetch_followed ops (recording fetch) 0 state request)) = fst state @ [request]"
    by (cases r) (auto simp: fetch_followed.simps [of _ _ 0] step Let_def split: option.split)
  then show ?case by (intro exI [of _ "[request]"]) (simp add: repeats_refl)
next
  case (Suc left)
  obtain t r where step: "recording fetch state request = (t, r)" by fastforce
  then have sent: "fst t = fst state @ [request]" using recording_log [of fetch state request] by simp
  consider (stops) "fst (fst (fetch_followed ops (recording fetch) (Suc left) state request)) = fst t"
    | (follows) to where "is_within_origin ops (hr_url request) to"
        "fetch_followed ops (recording fetch) (Suc left) state request = fetch_followed ops (recording fetch) left t (request\<lparr>hr_url := to\<rparr>)"
    by (cases r) (force simp: fetch_followed.simps [of _ _ "Suc left"] step Let_def split: option.splits if_splits)+
  then show ?case
  proof cases
    case stops
    then show ?thesis using sent by (intro exI [of _ "[request]"]) (simp add: repeats_refl)
  next
    case (follows to)
    obtain later where later: "fst (fst (fetch_followed ops (recording fetch) left t (request\<lparr>hr_url := to\<rparr>))) = fst t @ later"
        "length later \<le> Suc left" "list_all (repeats ops (request\<lparr>hr_url := to\<rparr>)) later"
      using Suc.IH by blast
    have "list_all (repeats ops request) later"
      using later(3) repeats_moved [OF follows(1)] by (auto simp: list_all_iff)
    then show ?thesis
      using later(1,2) sent follows(2) by (intro exI [of _ "request # later"]) (simp add: repeats_refl)
  qed
qed

text \<open>C10: Credentials stay at the token endpoint. Whatever the provider answers, its redirects included, an exchange or a
  renewal sends nothing before its token request is complete, then that request at most six times, each time with the same
  headers and body and to the scheme, host and port of the token endpoint (or to https on the same host, from http on the
  default port).\<close>

theorem credentials_stay_at_token_endpoint:
  fixes fetch :: "('s, 'e) HttpFetch"
  shows "case token_request ops server metadata params client resource of
     Inl failure \<Rightarrow>
       execute_token_request ops docs (recording fetch) ([], s) server metadata params client resource = (([], s), Inl failure)
   | Inr request \<Rightarrow>
       (let sent = fst (fst (execute_token_request ops docs (recording fetch) ([], s) server metadata params client resource)) in
        length sent \<le> 6 \<and> list_all (repeats ops request) sent)"
proof (cases "token_request ops server metadata params client resource :: ('e AuthError, HttpRequest) result")
  case (Inl failure)
  then show ?thesis by (simp add: execute_token_request_def)
next
  case (Inr request)
  obtain later where later: "fst (fst (fetch_within_origin ops (recording fetch) ([], s) request)) = later"
      "length later \<le> 6" "list_all (repeats ops request) later"
    using fetch_followed_sent [of ops fetch 5 "([], s)" request]
    by (auto simp: fetch_within_origin_def AUTH_MAX_REDIRECTS_def)
  obtain t r where step: "fetch_within_origin ops (recording fetch) ([], s) request = (t, r)" by fastforce
  have "fst (fst (execute_token_request ops docs (recording fetch) ([], s) server metadata params client resource)) = later"
    using later(1) by (cases r) (auto simp: execute_token_request_def Inr step map_failure_def)
  then show ?thesis using later(2,3) Inr by (simp add: Let_def)
qed

end
