(* ===== verification/UpstreamOauth.thy ===== *)
theory UpstreamOauth
  imports McpAuth
begin

text \<open>
  The sign-in of the gateway at the provider of an upstream MCP: \<open>crates/upstream/src/oauth.rs\<close>, the pending
  authorizations of a browser session (\<open>session.rs\<close>), the clients that some hosts want to see (\<open>allowlisted_client.rs\<close>) and what
  a step may write to an MCP (\<open>crates/core/src/models/mcp.rs\<close>, \<open>crates/core/src/db/model.rs\<close>). A step reads its MCP, talks to the
  provider, and writes on a database that others may have changed meanwhile. Times are in milliseconds. Encryption, random values, what
  a tailnet carries and the providers of built-in MCPs are parameters.
\<close>

section \<open>What a step of a sign-in may write\<close>

record McpOauthBasis =
  ob_transport :: McpTransport
  ob_http_url :: "string option"
  ob_tailnet_id :: "int option"
  ob_builtin_key :: "string option"
  ob_auth_type :: McpAuthType
  ob_issuer :: "string option"
  ob_resource :: "string option"
  ob_redirect_uri :: "string option"
  ob_authorize_url :: "string option"
  ob_token_url :: "string option"
  ob_client_id :: "string option"
  ob_client_secret :: "string option"
  ob_client_auth_method :: "string option"
  ob_access_token :: "string option"
  ob_refresh_token :: "string option"
  ob_generation :: int

definition oauth_basis :: "Mcp \<Rightarrow> McpOauthBasis" where
  "oauth_basis m =
     \<lparr>ob_transport = mcp_transport m, ob_http_url = mcp_http_url m, ob_tailnet_id = mcp_tailnet_id m, ob_builtin_key = mcp_builtin_key m,
      ob_auth_type = mcp_auth_type m, ob_issuer = mcp_oauth_issuer m, ob_resource = mcp_oauth_resource m,
      ob_redirect_uri = mcp_oauth_redirect_uri m, ob_authorize_url = mcp_oauth_authorize_url m, ob_token_url = mcp_oauth_token_url m,
      ob_client_id = mcp_oauth_client_id m, ob_client_secret = mcp_oauth_client_secret m,
      ob_client_auth_method = mcp_oauth_client_auth_method m, ob_access_token = mcp_oauth_access_token m,
      ob_refresh_token = mcp_oauth_refresh_token m, ob_generation = mcp_oauth_generation m\<rparr>"

text \<open>The \<open>where\<close> clause that holds only for a row that is this basis.\<close>

definition basis_holds :: "McpOauthBasis \<Rightarrow> Mcp \<Rightarrow> bool" where
  "basis_holds b r \<longleftrightarrow>
     mcp_transport r = ob_transport b \<and> mcp_auth_type r = ob_auth_type b \<and> mcp_oauth_generation r = ob_generation b
     \<and> mcp_tailnet_id r = ob_tailnet_id b \<and> mcp_http_url r = ob_http_url b \<and> mcp_builtin_key r = ob_builtin_key b
     \<and> mcp_oauth_issuer r = ob_issuer b \<and> mcp_oauth_resource r = ob_resource b \<and> mcp_oauth_redirect_uri r = ob_redirect_uri b
     \<and> mcp_oauth_authorize_url r = ob_authorize_url b \<and> mcp_oauth_token_url r = ob_token_url b \<and> mcp_oauth_client_id r = ob_client_id b
     \<and> mcp_oauth_client_secret r = ob_client_secret b \<and> mcp_oauth_client_auth_method r = ob_client_auth_method b
     \<and> mcp_oauth_access_token r = ob_access_token b \<and> mcp_oauth_refresh_token r = ob_refresh_token b"

text \<open>A column is written when it differs from what was read; the others keep what the row has.\<close>

definition changed :: "'a \<Rightarrow> 'a \<Rightarrow> 'a \<Rightarrow> 'a" where
  "changed stored self row = (if self \<noteq> stored then self else row)"

definition write_changed :: "Mcp \<Rightarrow> Mcp \<Rightarrow> Mcp \<Rightarrow> Mcp" where
  "write_changed stored self row =
     \<lparr>mcp_id = mcp_id row,
      mcp_name = changed (mcp_name stored) (mcp_name self) (mcp_name row),
      mcp_slug = changed (mcp_slug stored) (mcp_slug self) (mcp_slug row),
      mcp_description = changed (mcp_description stored) (mcp_description self) (mcp_description row),
      mcp_transport = changed (mcp_transport stored) (mcp_transport self) (mcp_transport row),
      mcp_http_url = changed (mcp_http_url stored) (mcp_http_url self) (mcp_http_url row),
      mcp_npm_package = changed (mcp_npm_package stored) (mcp_npm_package self) (mcp_npm_package row),
      mcp_npm_version = changed (mcp_npm_version stored) (mcp_npm_version self) (mcp_npm_version row),
      mcp_npm_args = changed (mcp_npm_args stored) (mcp_npm_args self) (mcp_npm_args row),
      mcp_auth_type = changed (mcp_auth_type stored) (mcp_auth_type self) (mcp_auth_type row),
      mcp_auth_bearer = changed (mcp_auth_bearer stored) (mcp_auth_bearer self) (mcp_auth_bearer row),
      mcp_auth_header_name = changed (mcp_auth_header_name stored) (mcp_auth_header_name self) (mcp_auth_header_name row),
      mcp_auth_header_value = changed (mcp_auth_header_value stored) (mcp_auth_header_value self) (mcp_auth_header_value row),
      mcp_oauth_authorize_url = changed (mcp_oauth_authorize_url stored) (mcp_oauth_authorize_url self) (mcp_oauth_authorize_url row),
      mcp_oauth_token_url = changed (mcp_oauth_token_url stored) (mcp_oauth_token_url self) (mcp_oauth_token_url row),
      mcp_oauth_scopes = changed (mcp_oauth_scopes stored) (mcp_oauth_scopes self) (mcp_oauth_scopes row),
      mcp_oauth_client_id = changed (mcp_oauth_client_id stored) (mcp_oauth_client_id self) (mcp_oauth_client_id row),
      mcp_oauth_client_secret = changed (mcp_oauth_client_secret stored) (mcp_oauth_client_secret self) (mcp_oauth_client_secret row),
      mcp_oauth_access_token = changed (mcp_oauth_access_token stored) (mcp_oauth_access_token self) (mcp_oauth_access_token row),
      mcp_oauth_refresh_token = changed (mcp_oauth_refresh_token stored) (mcp_oauth_refresh_token self) (mcp_oauth_refresh_token row),
      mcp_oauth_token_expires_at = changed (mcp_oauth_token_expires_at stored) (mcp_oauth_token_expires_at self) (mcp_oauth_token_expires_at row),
      mcp_status = changed (mcp_status stored) (mcp_status self) (mcp_status row),
      mcp_last_error = changed (mcp_last_error stored) (mcp_last_error self) (mcp_last_error row),
      mcp_enabled = changed (mcp_enabled stored) (mcp_enabled self) (mcp_enabled row),
      mcp_created_by = changed (mcp_created_by stored) (mcp_created_by self) (mcp_created_by row),
      mcp_created_at = changed (mcp_created_at stored) (mcp_created_at self) (mcp_created_at row),
      mcp_updated_at = changed (mcp_updated_at stored) (mcp_updated_at self) (mcp_updated_at row),
      mcp_oauth_issuer = changed (mcp_oauth_issuer stored) (mcp_oauth_issuer self) (mcp_oauth_issuer row),
      mcp_oauth_resource = changed (mcp_oauth_resource stored) (mcp_oauth_resource self) (mcp_oauth_resource row),
      mcp_oauth_redirect_uri = changed (mcp_oauth_redirect_uri stored) (mcp_oauth_redirect_uri self) (mcp_oauth_redirect_uri row),
      mcp_oauth_client_auth_method = changed (mcp_oauth_client_auth_method stored) (mcp_oauth_client_auth_method self) (mcp_oauth_client_auth_method row),
      mcp_oauth_token_type = changed (mcp_oauth_token_type stored) (mcp_oauth_token_type self) (mcp_oauth_token_type row),
      mcp_npm_env = changed (mcp_npm_env stored) (mcp_npm_env self) (mcp_npm_env row),
      mcp_oauth_required = changed (mcp_oauth_required stored) (mcp_oauth_required self) (mcp_oauth_required row),
      mcp_builtin_key = changed (mcp_builtin_key stored) (mcp_builtin_key self) (mcp_builtin_key row),
      mcp_builtin_write_enabled = changed (mcp_builtin_write_enabled stored) (mcp_builtin_write_enabled self) (mcp_builtin_write_enabled row),
      mcp_builtin_username = changed (mcp_builtin_username stored) (mcp_builtin_username self) (mcp_builtin_username row),
      mcp_builtin_password = changed (mcp_builtin_password stored) (mcp_builtin_password self) (mcp_builtin_password row),
      mcp_builtin_permissions = changed (mcp_builtin_permissions stored) (mcp_builtin_permissions self) (mcp_builtin_permissions row),
      mcp_builtin_aliases = changed (mcp_builtin_aliases stored) (mcp_builtin_aliases self) (mcp_builtin_aliases row),
      mcp_tool_approvals = changed (mcp_tool_approvals stored) (mcp_tool_approvals self) (mcp_tool_approvals row),
      mcp_builtin_settings = changed (mcp_builtin_settings stored) (mcp_builtin_settings self) (mcp_builtin_settings row),
      mcp_team_id = changed (mcp_team_id stored) (mcp_team_id self) (mcp_team_id row),
      mcp_tool_timeout_seconds = changed (mcp_tool_timeout_seconds stored) (mcp_tool_timeout_seconds self) (mcp_tool_timeout_seconds row),
      mcp_tailnet_id = changed (mcp_tailnet_id stored) (mcp_tailnet_id self) (mcp_tailnet_id row),
      mcp_oauth_generation = changed (mcp_oauth_generation stored) (mcp_oauth_generation self) (mcp_oauth_generation row)\<rparr>"

text \<open>Of a value that was read as \<open>stored\<close> and is \<open>self\<close> now.\<close>

definition save_if_basis_holds :: "Mcp \<Rightarrow> Mcp \<Rightarrow> McpOauthBasis \<Rightarrow> int \<Rightarrow> db \<Rightarrow> db \<times> bool" where
  "save_if_basis_holds stored self basis now d =
     (if self = stored then (d, True)
      else
        (let touched = self\<lparr>mcp_updated_at := Some now\<rparr>;
             same = (\<lambda>r. mcp_id r = mcp_id self \<and> basis_holds basis r) in
         if has_row same (mcps d) then (d\<lparr>mcps := upd same (write_changed stored touched) (mcps d)\<rparr>, True) else (d, False)))"

section \<open>Clients some hosts know\<close>

record AllowlistedUpstreamClient =
  al_hostname :: string
  al_oauth_client_name :: string
  al_user_agent :: string
  al_loopback_redirect_uri :: "string option"

definition ALLOWLISTED_UPSTREAM_CLIENTS :: "AllowlistedUpstreamClient list" where
  "ALLOWLISTED_UPSTREAM_CLIENTS =
     [\<lparr>al_hostname = ''mcp.figma.com'', al_oauth_client_name = ''Codex'', al_user_agent = ''codex-mcp-client/0.0.0'',
       al_loopback_redirect_uri = Some ''http://localhost:45873/callback''\<rparr>,
      \<lparr>al_hostname = ''mcp.strava.com'', al_oauth_client_name = ''Claude Code'', al_user_agent = ''claude-code/2.1.89 (cli)'',
       al_loopback_redirect_uri = None\<rparr>]"

definition allowlisted_upstream_client :: "(string \<Rightarrow> Url option) \<Rightarrow> string option \<Rightarrow> AllowlistedUpstreamClient option" where
  "allowlisted_upstream_client parse http_url =
     (case filled_text http_url of
        None \<Rightarrow> None
      | Some value \<Rightarrow>
          (case parse_http_url parse value ''MCP URL'' of
             Inl _ \<Rightarrow> None
           | Inr url \<Rightarrow>
               (case host_str url of
                  None \<Rightarrow> None
                | Some hostname \<Rightarrow> find (\<lambda>c. al_hostname c = hostname) ALLOWLISTED_UPSTREAM_CLIENTS)))"

definition DEFAULT_OAUTH_CLIENT_NAME :: string where "DEFAULT_OAUTH_CLIENT_NAME = ''MyMCPs''"

definition registration_client_name :: "(string \<Rightarrow> Url option) \<Rightarrow> string option \<Rightarrow> string" where
  "registration_client_name parse http_url =
     (case allowlisted_upstream_client parse http_url of None \<Rightarrow> DEFAULT_OAUTH_CLIENT_NAME | Some c \<Rightarrow> al_oauth_client_name c)"

definition upstream_identity_headers :: "(string \<Rightarrow> Url option) \<Rightarrow> string option \<Rightarrow> HeaderMap" where
  "upstream_identity_headers parse http_url =
     (case allowlisted_upstream_client parse http_url of None \<Rightarrow> [] | Some c \<Rightarrow> [(''user-agent'', al_user_agent c)])"

section \<open>Pending authorizations\<close>

definition OAUTH_SESSION_PREFIX :: string where "OAUTH_SESSION_PREFIX = ''mcp_oauth:''"

definition MAX_PENDING_OAUTH_STARTS :: nat where "MAX_PENDING_OAUTH_STARTS = 5"

definition MAX_PENDING_OAUTH_START_BYTES :: nat where "MAX_PENDING_OAUTH_START_BYTES = 1536"

text \<open>A browser session: its keys in the order they were first written.\<close>

type_synonym session = "(string \<times> Value) list"

definition session_get :: "session \<Rightarrow> string \<Rightarrow> Value option" where
  "session_get session key = map_of session key"

definition session_put :: "string \<Rightarrow> Value \<Rightarrow> session \<Rightarrow> session" where
  "session_put key v session = set_member key v session"

definition session_forget :: "string \<Rightarrow> session \<Rightarrow> session" where
  "session_forget key session = filter (\<lambda>m. fst m \<noteq> key) session"

definition session_keys :: "session \<Rightarrow> string list" where
  "session_keys session = map fst session"

record OauthSession =
  os_mcp_id :: int
  os_code_verifier :: "string option"
  os_state :: string
  os_redirect_uri :: string
  os_authorization_server_url :: string
  os_resource :: "string option"
  os_client_id :: string
  os_generation :: int

record OauthStart =
  st_redirect_uri :: string
  st_authorization_server_url :: string
  st_resource :: "string option"
  st_client_id :: string
  st_code_verifier :: "string option"
  st_state :: string

definition oauth_session_key :: "string \<Rightarrow> string" where
  "oauth_session_key state = OAUTH_SESSION_PREFIX @ state"

definition session_payload :: "Mcp \<Rightarrow> OauthStart \<Rightarrow> Value" where
  "session_payload m start =
     JObject ([(''mcpId'', JNumber (mcp_id m)), (''redirectUri'', JString (st_redirect_uri start)),
               (''authorizationServerUrl'', JString (st_authorization_server_url start))]
       @ (case st_resource start of Some r \<Rightarrow> [(''resource'', JString r)] | None \<Rightarrow> [])
       @ [(''clientId'', JString (st_client_id start))]
       @ (case st_code_verifier start of Some v \<Rightarrow> [(''codeVerifier'', JString v)] | None \<Rightarrow> [])
       @ [(''state'', JString (st_state start)), (''generation'', JNumber (mcp_oauth_generation m))])"

definition session_weight :: "(Value \<Rightarrow> string) \<Rightarrow> string \<Rightarrow> Value option \<Rightarrow> nat" where
  "session_weight print key v = length key + (case v of None \<Rightarrow> 0 | Some x \<Rightarrow> length (print x))"

text \<open>The oldest make room until the count and the size fit.\<close>

fun make_room :: "(string \<times> nat) list \<Rightarrow> nat \<Rightarrow> nat \<Rightarrow> session \<Rightarrow> session" where
  "make_room [] count bytes session = session"
| "make_room ((entry, entry_bytes) # starts) count bytes session =
     (if count \<le> MAX_PENDING_OAUTH_STARTS \<and> bytes \<le> MAX_PENDING_OAUTH_START_BYTES then session
      else make_room starts (count - 1) (bytes - entry_bytes) (session_forget entry session))"

definition is_pending_key :: "string \<Rightarrow> bool" where
  "is_pending_key key \<longleftrightarrow> take (length OAUTH_SESSION_PREFIX) key = OAUTH_SESSION_PREFIX"

definition pending_starts :: "(Value \<Rightarrow> string) \<Rightarrow> session \<Rightarrow> (string \<times> nat) list" where
  "pending_starts print session =
     map (\<lambda>entry. (entry, session_weight print entry (session_get session entry))) (filter is_pending_key (session_keys session))"

definition start_oauth_session :: "(Value \<Rightarrow> string) \<Rightarrow> session \<Rightarrow> Mcp \<Rightarrow> OauthStart \<Rightarrow> session \<times> OauthSession" where
  "start_oauth_session print session m start =
     (let payload = session_payload m start;
          key = oauth_session_key (st_state start);
          starts = pending_starts print session;
          bytes = session_weight print key (Some payload) + sum_list (map snd starts);
          session1 = make_room starts (length starts + 1) bytes session in
      (session_put key payload session1,
       \<lparr>os_mcp_id = mcp_id m, os_code_verifier = st_code_verifier start, os_state = st_state start, os_redirect_uri = st_redirect_uri start,
        os_authorization_server_url = st_authorization_server_url start, os_resource = st_resource start, os_client_id = st_client_id start,
        os_generation = mcp_oauth_generation m\<rparr>))"

text \<open>What the validator of the session takes for a number, and for a URL.\<close>

record vine_checks =
  vc_number :: "Value \<Rightarrow> int option"
  vc_url :: "string \<Rightarrow> bool"

definition opt_member :: "(Value \<Rightarrow> 'a option) \<Rightarrow> Value option \<Rightarrow> 'a option option" where
  "opt_member takes v = (case v of None \<Rightarrow> Some None | Some JNull \<Rightarrow> Some None | Some x \<Rightarrow> map_option Some (takes x))"

definition session_text :: "Value \<Rightarrow> string option" where
  "session_text v = (case v of JString t \<Rightarrow> if utf16_len t < 1 then None else Some t | _ \<Rightarrow> None)"

definition url_member :: "vine_checks \<Rightarrow> Value \<Rightarrow> string option" where
  "url_member vc v = (case v of JString t \<Rightarrow> if vc_url vc t then Some t else None | _ \<Rightarrow> None)"

definition validate_oauth_session :: "vine_checks \<Rightarrow> Value option \<Rightarrow> OauthSession option" where
  "validate_oauth_session vc saved =
     (case saved of
        Some (JObject members) \<Rightarrow>
          Option.bind (Option.bind (json_get members ''mcpId'') (vc_number vc)) (\<lambda>i.
          Option.bind (opt_member session_text (json_get members ''codeVerifier'')) (\<lambda>verifier.
          Option.bind (Option.bind (json_get members ''state'') session_text) (\<lambda>state.
          Option.bind (Option.bind (json_get members ''redirectUri'') (url_member vc)) (\<lambda>redirect.
          Option.bind (Option.bind (json_get members ''authorizationServerUrl'') (url_member vc)) (\<lambda>server.
          Option.bind (opt_member (url_member vc) (json_get members ''resource'')) (\<lambda>resource.
          Option.bind (Option.bind (json_get members ''clientId'') session_text) (\<lambda>client.
          Option.bind (opt_member (vc_number vc) (json_get members ''generation'')) (\<lambda>generation.
          Some \<lparr>os_mcp_id = i, os_code_verifier = verifier, os_state = state, os_redirect_uri = redirect,
            os_authorization_server_url = server, os_resource = resource, os_client_id = client,
            os_generation = (case generation of Some g \<Rightarrow> g | None \<Rightarrow> 0)\<rparr>))))))))
      | _ \<Rightarrow> None)"

definition read_oauth_session :: "vine_checks \<Rightarrow> session \<Rightarrow> string option \<Rightarrow> OauthSession option" where
  "read_oauth_session vc session state =
     (case filled_text state of
        None \<Rightarrow> None
      | Some t \<Rightarrow> validate_oauth_session vc (session_get session (oauth_session_key t)))"

definition clear_oauth_session :: "session \<Rightarrow> string option \<Rightarrow> session" where
  "clear_oauth_session session state =
     (case filled_text state of None \<Rightarrow> session | Some t \<Rightarrow> session_forget (oauth_session_key t) session)"

section \<open>Errors and the environment of a flow\<close>

text \<open>What the fetch of a flow fails with.\<close>

datatype oauth_failure = FetchFailure FetchError | EndpointRefused RestrictedEndpointError

datatype UpstreamError =
    RestrictedEndpoint RestrictedEndpointError
  | OAuthStepFailed "oauth_failure AuthError"
  | BuiltinFailed string
  | BadHttpUrl HttpUrlError
  | BadPublicUrl PublicUrlError
  | TailnetRefused string
  | Superseded string
  | OtherUpstream string

fun refused_of :: "oauth_failure AuthError \<Rightarrow> RestrictedEndpointError option" where
  "refused_of (FetchFailed (NetworkFailure (EndpointRefused r))) = Some r"
| "refused_of (FetchFailed (OtherFailure (EndpointRefused r))) = Some r"
| "refused_of _ = None"

definition upstream_error :: "oauth_failure AuthError \<Rightarrow> UpstreamError" where
  "upstream_error err = (case refused_of err of Some r \<Rightarrow> RestrictedEndpoint r | None \<Rightarrow> OAuthStepFailed err)"

text \<open>The provider of a built-in MCP, as its definition gives it.\<close>

record BuiltinOauth =
  bo_name :: string
  bo_issuer :: string
  bo_authorization_url :: "string \<Rightarrow> string \<Rightarrow> string \<Rightarrow> Mcp \<Rightarrow> (string, string) result"

datatype BuiltinGrant = GrantCode string string | GrantRefresh string

record upstream_env =
  ue_ops :: auth_ops
  ue_docs :: documents
  ue_print :: "Value \<Rightarrow> string"
  ue_set_path :: "Url \<Rightarrow> string \<Rightarrow> Url"
  ue_config :: Config
  ue_network :: "nat \<Rightarrow> fetch_env"
  ue_body_late :: "nat \<Rightarrow> nat \<Rightarrow> bool"
  ue_lookup :: "nat \<Rightarrow> string \<Rightarrow> IpAddr list option"
  ue_lookup_again :: "nat \<Rightarrow> string \<Rightarrow> IpAddr list option"
  ue_fetcher :: Transport
  ue_tailnet :: "Mcp \<Rightarrow> Url \<Rightarrow> (string, OverlayNetwork) result"
  ue_encrypt :: "string \<Rightarrow> string"
  ue_decrypt :: "string \<Rightarrow> string option"
  ue_describe :: "oauth_failure AuthError \<Rightarrow> string"
  ue_builtin :: "Mcp \<Rightarrow> (string, BuiltinOauth) result"
  ue_builtin_tokens :: "Mcp \<Rightarrow> BuiltinGrant \<Rightarrow> (string, OAuthTokens) result"

abbreviation ue_parse :: "upstream_env \<Rightarrow> string \<Rightarrow> Url option" where
  "ue_parse e \<equiv> ao_parse (ue_ops e)"

abbreviation ue_origin :: "upstream_env \<Rightarrow> Url \<Rightarrow> string" where
  "ue_origin e \<equiv> uo_origin (ao_urls (ue_ops e))"

definition secret_text :: "(string \<Rightarrow> string) \<Rightarrow> string option \<Rightarrow> string option" where
  "secret_text encrypt v = map_option encrypt (filled_text v)"

definition secret_of :: "(string \<Rightarrow> string option) \<Rightarrow> string option \<Rightarrow> string option" where
  "secret_of decrypt v = Option.bind (filled_text v) decrypt"

section \<open>Requests of a flow\<close>

definition MAX_OAUTH_RESPONSE_BYTES :: nat where "MAX_OAUTH_RESPONSE_BYTES = 1024 * 1024"

text \<open>
  The guard of the endpoints of a flow (none for an MCP on a tailnet), how many questions and requests there were, and the hops
  that left the gateway.
\<close>

record flow =
  fl_guard :: "GuardState option"
  fl_moment :: nat
  fl_trace :: trace

definition check_endpoint :: "upstream_env \<Rightarrow> flow \<Rightarrow> Url \<Rightarrow> string \<Rightarrow> flow \<times> (RestrictedEndpointError, unit) result" where
  "check_endpoint e s target label =
     (case fl_guard s of
        None \<Rightarrow> (s, Inr ())
      | Some g \<Rightarrow>
          (let (g1, r) = assert_allowed (ue_lookup e (fl_moment s)) (ue_lookup_again e (fl_moment s)) g target label in
           (s\<lparr>fl_guard := Some g1, fl_moment := fl_moment s + 1\<rparr>, r)))"

definition endpoint_must_be_public :: "upstream_env \<Rightarrow> flow \<Rightarrow> Url \<Rightarrow> flow \<times> bool" where
  "endpoint_must_be_public e s target =
     (case fl_guard s of
        None \<Rightarrow> (s, False)
      | Some g \<Rightarrow>
          (let (g1, b) = must_be_public (ue_lookup e (fl_moment s)) g target in
           (s\<lparr>fl_guard := Some g1, fl_moment := fl_moment s + 1\<rparr>, b)))"

fun oauth_fetch_error :: "FetchError \<Rightarrow> oauth_failure HttpFetchError" where
  "oauth_fetch_error (TransportFailed reason) = NetworkFailure (FetchFailure (TransportFailed reason))"
| "oauth_fetch_error BadPort = NetworkFailure (FetchFailure BadPort)"
| "oauth_fetch_error FetchOffline = NetworkFailure (FetchFailure FetchOffline)"
| "oauth_fetch_error InvalidRedirectUrl = NetworkFailure (FetchFailure InvalidRedirectUrl)"
| "oauth_fetch_error BodyNotAllowed = NetworkFailure (FetchFailure BodyNotAllowed)"
| "oauth_fetch_error (OverlayFailed network reason) = NetworkFailure (FetchFailure (OverlayFailed network reason))"
| "oauth_fetch_error (OverlayTerminated network reason) = NetworkFailure (FetchFailure (OverlayTerminated network reason))"
| "oauth_fetch_error (RestrictedAddress host) =
     OtherFailure (EndpointRefused \<lparr>re_label = ''OAuth endpoint'', re_hostname = host\<rparr>)"
| "oauth_fetch_error other = OtherFailure (FetchFailure other)"

definition with_identity :: "upstream_env \<Rightarrow> Url \<Rightarrow> HeaderMap \<Rightarrow> HeaderMap" where
  "with_identity e url headers =
     fold (\<lambda>(name, v) hs. if contains_key hs name then hs else header_insert name v hs)
       (upstream_identity_headers (ue_parse e) (Some (url_text url))) headers"

text \<open>The one fetch every request of a flow goes through.\<close>

definition oauth_fetch :: "upstream_env \<Rightarrow> Transport \<Rightarrow> (flow, oauth_failure) HttpFetch" where
  "oauth_fetch e t s request =
     go_on (map_failure (\<lambda>r. OtherFailure (EndpointRefused r)) (check_endpoint e s (hr_url request) ''OAuth endpoint'')) (\<lambda>s1 _.
     let (s2, public) = endpoint_must_be_public e s1 (hr_url request);
         fetch = \<lparr>fr_method = hr_method request, fr_url = hr_url request,
                  fr_headers = with_identity e (hr_url request) (hr_headers request),
                  fr_body = (if hr_method request \<noteq> ''GET'' \<and> hr_method request \<noteq> ''HEAD'' then Some (hr_body request) else None),
                  fr_timeout = None\<rparr>;
         n = fl_moment s2;
         (hops, answer) = fetch_with_same_origin_redirects (ue_network e n) (if public then public_only t else t) fetch
           ''OAuth endpoint'' \<lparr>max_response_bytes = Some MAX_OAUTH_RESPONSE_BYTES, max_error_response_bytes = None\<rparr>;
         s3 = s2\<lparr>fl_moment := n + 1, fl_trace := fl_trace s2 @ hops\<rparr> in
     (s3,
      case answer of
        Inl err \<Rightarrow> Inl (oauth_fetch_error err)
      | Inr response \<Rightarrow>
          (let reply = (\<lambda>body. \<lparr>hp_status = fp_status response, hp_headers = fp_headers response, hp_body = body,
                         hp_url = Some (fp_url response)\<rparr>) in
           case read_all (ue_body_late e n) 0 (fp_body response) [] of
             Inr body \<Rightarrow> Inr (reply body)
           | Inl err \<Rightarrow> if \<not> is_success (fp_status response) then Inr (reply []) else Inl (OtherFailure (FetchFailure err)))))"

section \<open>Addresses of a provider\<close>

definition web_url :: "upstream_env \<Rightarrow> string \<Rightarrow> string \<Rightarrow> (UpstreamError, Url) result" where
  "web_url e value label = (case parse_http_url (ue_parse e) value label of Inl err \<Rightarrow> Inl (BadHttpUrl err) | Inr url \<Rightarrow> Inr url)"

definition has_no_search :: "Url \<Rightarrow> bool" where
  "has_no_search url \<longleftrightarrow> (case query url of None \<Rightarrow> True | Some q \<Rightarrow> q = [])"

definition normalized_http_url :: "upstream_env \<Rightarrow> string \<Rightarrow> string \<Rightarrow> (UpstreamError, string) result" where
  "normalized_http_url e value label =
     and_then (web_url e value label) (\<lambda>url.
       Inr (if path url = ''/'' \<and> has_no_search url \<and> username url = [] \<and> password_of url = [] then ue_origin e url else url_text url))"

definition comparable_oauth_issuer :: "upstream_env \<Rightarrow> string \<Rightarrow> string \<Rightarrow> (UpstreamError, string) result" where
  "comparable_oauth_issuer e value label =
     and_then (web_url e value label) (\<lambda>given.
       let url = uo_clear_credentials (ao_urls (ue_ops e)) given in
       Inr (if path url = ''/'' \<and> has_no_search url then ue_origin e url else url_text url))"

definition authorization_server :: "upstream_env \<Rightarrow> string \<Rightarrow> (UpstreamError, Url) result" where
  "authorization_server e value = web_url e value ''OAuth authorization server''"

definition resource_url :: "upstream_env \<Rightarrow> string option \<Rightarrow> (UpstreamError, Url option) result" where
  "resource_url e value =
     (case value of None \<Rightarrow> Inr None | Some r \<Rightarrow> and_then (web_url e r ''OAuth resource'') (\<lambda>url. Inr (Some url)))"

definition text_or_empty :: "string option \<Rightarrow> string" where
  "text_or_empty v = (case v of None \<Rightarrow> [] | Some t \<Rightarrow> t)"

definition resource_for_mcp :: "upstream_env \<Rightarrow> Mcp \<Rightarrow> string option \<Rightarrow> (UpstreamError, string option) result" where
  "resource_for_mcp e m value =
     (case filled_text value of
        None \<Rightarrow> Inr None
      | Some r \<Rightarrow>
          and_then (normalized_http_url e r ''OAuth resource'') (\<lambda>normalized.
          and_then (web_url e (text_or_empty (mcp_http_url m)) ''MCP URL'') (\<lambda>server_url.
          ensure (case ue_parse e normalized of
              Some configured \<Rightarrow> check_resource_allowed (ue_ops e) (resource_url_from_server_url (ue_ops e) server_url) configured
            | None \<Rightarrow> False)
            (OtherUpstream ''OAuth protected resource does not match the MCP URL'') (Inr (Some normalized)))))"

definition infer_issuer :: "upstream_env \<Rightarrow> Mcp \<Rightarrow> (UpstreamError, string option) result" where
  "infer_issuer e m =
     (case (case filled_text (mcp_oauth_authorize_url m) of Some x \<Rightarrow> Some x | None \<Rightarrow> filled_text (mcp_oauth_token_url m)) of
        None \<Rightarrow> Inr None
      | Some endpoint \<Rightarrow>
          and_then (web_url e endpoint ''OAuth endpoint'') (\<lambda>url.
            let root = ao_set_query (ue_ops e) (ue_set_path e url ''/'') None;
                has_credentials = (username root \<noteq> [] \<or> password_of root \<noteq> []) in
            Inr (Some (if has_credentials then url_text root else ue_origin e root))))"

definition saved_issuer :: "upstream_env \<Rightarrow> Mcp \<Rightarrow> (UpstreamError, string option) result" where
  "saved_issuer e m = (case mcp_oauth_issuer m of Some issuer \<Rightarrow> Inr (Some issuer) | None \<Rightarrow> infer_issuer e m)"

definition fallback_metadata :: "Mcp \<Rightarrow> string \<Rightarrow> AuthorizationServerMetadata option" where
  "fallback_metadata m issuer =
     (case (filled_text (mcp_oauth_authorize_url m), filled_text (mcp_oauth_token_url m)) of
        (Some authorization_endpoint, Some token_endpoint) \<Rightarrow>
          Some \<lparr>md_issuer = issuer, md_authorization_endpoint = authorization_endpoint, md_token_endpoint = token_endpoint,
                md_registration_endpoint = None, md_scopes_supported = None, md_response_types_supported = [''code''],
                md_token_endpoint_auth_methods_supported = map_option (\<lambda>x. [x]) (filled_text (mcp_oauth_client_auth_method m)),
                md_code_challenge_methods_supported = Some [''S256''], md_client_id_metadata_document_supported = None\<rparr>
      | _ \<Rightarrow> None)"

fun check_discovered :: "upstream_env \<Rightarrow> flow \<Rightarrow> (string option \<times> string) list \<Rightarrow> flow \<times> (UpstreamError, unit) result" where
  "check_discovered e s [] = (s, Inr ())"
| "check_discovered e s ((value, label) # others) =
     (case filled_text value of
        None \<Rightarrow> check_discovered e s others
      | Some t \<Rightarrow>
          go_on (s, web_url e t label) (\<lambda>s1 url.
          go_on (map_failure RestrictedEndpoint (check_endpoint e s1 url label)) (\<lambda>s2 _. check_discovered e s2 others)))"

definition issuer_matches :: "upstream_env \<Rightarrow> string \<Rightarrow> string option \<Rightarrow> (UpstreamError, unit) result" where
  "issuer_matches e issuer expected =
     (if issuer = [] then Inr ()
      else
        and_then (web_url e issuer ''OAuth issuer'') (\<lambda>_.
          case filled_text expected of
            None \<Rightarrow> Inr ()
          | Some x \<Rightarrow>
              and_then (comparable_oauth_issuer e issuer ''OAuth issuer'') (\<lambda>a.
              and_then (comparable_oauth_issuer e x ''OAuth authorization server'') (\<lambda>b.
              ensure (a = b) (OtherUpstream ''OAuth issuer metadata does not match the authorization server'') (Inr ())))))"

definition validate_oauth_metadata ::
  "upstream_env \<Rightarrow> flow \<Rightarrow> AuthorizationServerMetadata \<Rightarrow> string option \<Rightarrow> flow \<times> (UpstreamError, unit) result" where
  "validate_oauth_metadata e s metadata expected =
     go_on (check_discovered e s
       [(Some (md_authorization_endpoint metadata), ''OAuth authorization endpoint''),
        (Some (md_token_endpoint metadata), ''OAuth token endpoint''),
        (md_registration_endpoint metadata, ''OAuth registration endpoint'')]) (\<lambda>s1 _.
     (s1, issuer_matches e (md_issuer metadata) expected))"

definition metadata_at ::
  "upstream_env \<Rightarrow> Transport \<Rightarrow> flow \<Rightarrow> Url \<Rightarrow> flow \<times> (oauth_failure AuthError, AuthorizationServerMetadata option) result" where
  "metadata_at e t s url = discover_authorization_server_metadata (ue_ops e) (ue_docs e) (oauth_fetch e t) s url"

definition metadata_for_same_origin_issuer ::
  "upstream_env \<Rightarrow> Transport \<Rightarrow> flow \<Rightarrow> AuthorizationServerMetadata \<Rightarrow> string
     \<Rightarrow> flow \<times> (UpstreamError, (string \<times> AuthorizationServerMetadata) option) result" where
  "metadata_for_same_origin_issuer e t s metadata server =
     (if md_issuer metadata = [] then (s, Inr None)
      else
        go_on (s, and_then (normalized_http_url e (md_issuer metadata) ''OAuth issuer'') (\<lambda>issuer.
                  and_then (comparable_oauth_issuer e issuer ''OAuth issuer'') (\<lambda>a.
                  and_then (comparable_oauth_issuer e server ''OAuth authorization server'') (\<lambda>b.
                  if a = b then Inr None
                  else
                    and_then (web_url e issuer ''OAuth issuer'') (\<lambda>issuer_url.
                    and_then (authorization_server e server) (\<lambda>server_url.
                    Inr (if ue_origin e issuer_url \<noteq> ue_origin e server_url then None else Some (issuer, issuer_url)))))))) (\<lambda>s1 candidate.
        case candidate of
          None \<Rightarrow> (s1, Inr None)
        | Some (issuer, issuer_url) \<Rightarrow>
            (case metadata_at e t s1 issuer_url of
               (s2, Inr (Some issuer_metadata)) \<Rightarrow>
                 (case validate_oauth_metadata e s2 issuer_metadata (Some issuer) of
                    (s3, Inl _) \<Rightarrow> (s3, Inr None)
                  | (s3, Inr _) \<Rightarrow> (s3, Inr (Some (issuer, issuer_metadata))))
             | (s2, _) \<Rightarrow> (s2, Inr None))))"

section \<open>What a flow finds out\<close>

record OAuthContext =
  oc_authorization_server_url :: string
  oc_metadata :: AuthorizationServerMetadata
  oc_resource :: "string option"
  oc_scope :: "string option"

definition discover_missing ::
  "upstream_env \<Rightarrow> Transport \<Rightarrow> flow \<Rightarrow> AuthorizationServerMetadata option \<Rightarrow> string \<Rightarrow> string option
     \<Rightarrow> flow \<times> (UpstreamError, AuthorizationServerMetadata option \<times> string option) result" where
  "discover_missing e t s metadata server reason =
     (case metadata of
        Some x \<Rightarrow> (s, Inr (Some x, reason))
      | None \<Rightarrow>
          go_on (s, authorization_server e server) (\<lambda>s0 url.
          case metadata_at e t s0 url of
            (s1, Inr x) \<Rightarrow> (s1, Inr (x, reason))
          | (s1, Inl err) \<Rightarrow>
              (case refused_of err of
                 Some r \<Rightarrow> (s1, Inl (RestrictedEndpoint r))
               | None \<Rightarrow> (s1, Inr (None, Some (ue_describe e err))))))"

definition prefer_issuer ::
  "upstream_env \<Rightarrow> Transport \<Rightarrow> flow \<Rightarrow> OAuthProtectedResourceMetadata option \<Rightarrow> AuthorizationServerMetadata option \<Rightarrow> string
     \<Rightarrow> flow \<times> (UpstreamError, AuthorizationServerMetadata option \<times> string) result" where
  "prefer_issuer e t s resource_metadata metadata server =
     (let names_servers = (case Option.bind resource_metadata rm_authorization_servers of None \<Rightarrow> False | Some servers \<Rightarrow> servers \<noteq> []) in
      case metadata of
        None \<Rightarrow> (s, Inr (None, server))
      | Some root \<Rightarrow>
          if names_servers then (s, Inr (Some root, server))
          else
            go_on (metadata_for_same_origin_issuer e t s root server) (\<lambda>s1 preferred.
            (s1, Inr (case preferred of Some (issuer, x) \<Rightarrow> (Some x, issuer) | None \<Rightarrow> (Some root, server)))))"

definition scope_asked ::
  "Mcp \<Rightarrow> OAuthProtectedResourceMetadata option \<Rightarrow> AuthorizationServerMetadata \<Rightarrow> string option" where
  "scope_asked m resource_metadata metadata =
     Option.bind (find (\<lambda>v. filled_text v \<noteq> None)
       [map_option trim (mcp_oauth_scopes m),
        map_option (join_with '' '') (Option.bind resource_metadata rm_scopes_supported),
        map_option (join_with '' '') (md_scopes_supported metadata)]) id"

definition NOT_DISCOVERED :: string where
  "NOT_DISCOVERED = ''OAuth provider metadata could not be discovered''"

definition discover_oauth_context ::
  "upstream_env \<Rightarrow> Transport \<Rightarrow> flow \<Rightarrow> Mcp \<Rightarrow> flow \<times> (UpstreamError, OAuthContext) result" where
  "discover_oauth_context e t s m =
     go_on (s, web_url e (text_or_empty (mcp_http_url m)) ''MCP URL'') (\<lambda>s0 server_url.
     let (s1, info) = discover_oauth_server_info (ue_ops e) (ue_docs e) (oauth_fetch e t) s0 server_url in
     case (case info of Inl err \<Rightarrow> refused_of err | Inr _ \<Rightarrow> None) of
       Some r \<Rightarrow> (s1, Inl (RestrictedEndpoint r))
     | None \<Rightarrow>
         (let reason = (case info of Inl err \<Rightarrow> Some (ue_describe e err) | Inr _ \<Rightarrow> None);
              found = (case info of Inl _ \<Rightarrow> None | Inr x \<Rightarrow> Some x);
              resource_metadata = Option.bind found si_resource_metadata in
          go_on (s1, case found of Some x \<Rightarrow> Inr (Some (si_authorization_server_url x)) | None \<Rightarrow> saved_issuer e m) (\<lambda>s2 discovered.
          go_on (s2, some_or (OtherUpstream (case reason of Some r \<Rightarrow> ''OAuth discovery failed: '' @ r | None \<Rightarrow> NOT_DISCOVERED))
                       (filled_text discovered)) (\<lambda>s3 given.
          go_on (s3, normalized_http_url e given ''OAuth authorization server'') (\<lambda>s4 server.
          go_on (discover_missing e t s4 (Option.bind found si_metadata) server reason) (\<lambda>s5 (known, reason2).
          go_on (prefer_issuer e t s5 resource_metadata (case known of Some x \<Rightarrow> Some x | None \<Rightarrow> fallback_metadata m server) server)
            (\<lambda>s6 (preferred, server2).
          go_on (s6, some_or (OtherUpstream (case reason2 of Some r \<Rightarrow> NOT_DISCOVERED @ '': '' @ r | None \<Rightarrow> NOT_DISCOVERED)) preferred)
            (\<lambda>s7 metadata.
          go_on (validate_oauth_metadata e s7 metadata (Some server2)) (\<lambda>s8 _.
          (s8, and_then (resource_for_mcp e m (case resource_metadata of Some r \<Rightarrow> Some (rm_resource r) | None \<Rightarrow> mcp_oauth_resource m)) (\<lambda>resource.
             Inr \<lparr>oc_authorization_server_url = server2, oc_metadata = metadata, oc_resource = resource,
                  oc_scope = scope_asked m resource_metadata metadata\<rparr>)))))))))))"

definition metadata_for_authorization_server ::
  "upstream_env \<Rightarrow> Transport \<Rightarrow> flow \<Rightarrow> Mcp \<Rightarrow> string \<Rightarrow> flow \<times> (UpstreamError, AuthorizationServerMetadata) result" where
  "metadata_for_authorization_server e t s m server =
     go_on (s, normalized_http_url e server ''OAuth authorization server'') (\<lambda>s0 normalized.
     go_on (s0, authorization_server e normalized) (\<lambda>s1 url.
     let (s2, found) = metadata_at e t s1 url in
     case (case found of Inl err \<Rightarrow> refused_of err | Inr _ \<Rightarrow> None) of
       Some r \<Rightarrow> (s2, Inl (RestrictedEndpoint r))
     | None \<Rightarrow>
         go_on (s2, some_or (OtherUpstream NOT_DISCOVERED)
                      (case found of Inr (Some x) \<Rightarrow> Some x | _ \<Rightarrow> fallback_metadata m server)) (\<lambda>s3 metadata.
         go_on (validate_oauth_metadata e s3 metadata (Some normalized)) (\<lambda>s4 _. (s4, Inr metadata)))))"

section \<open>Clients and tokens of an MCP\<close>

definition OAUTH_CALLBACK_PATH :: string where "OAUTH_CALLBACK_PATH = ''/mcps/oauth/callback''"

definition OAUTH_CLIENT_METADATA_PATH :: string where "OAUTH_CLIENT_METADATA_PATH = ''/oauth/client-metadata.json''"

definition DEFAULT_ACCESS_TOKEN_LIFETIME :: int where "DEFAULT_ACCESS_TOKEN_LIFETIME = 60 * 60 * 1000"

definition MAX_ACCESS_TOKEN_LIFETIME :: int where "MAX_ACCESS_TOKEN_LIFETIME = 100 * 365 * 24 * 60 * 60 * 1000"

definition public_origin :: "upstream_env \<Rightarrow> (PublicUrlError, string) result" where
  "public_origin e = require_public_app_url (ue_parse e) (ue_origin e) (ue_config e)"

definition oauth_client_metadata_url :: "upstream_env \<Rightarrow> (PublicUrlError, string) result" where
  "oauth_client_metadata_url e =
     and_then (public_origin e) (\<lambda>origin.
       ensure (take 8 origin = ''https://'') NotAnOrigin (Inr (origin @ OAUTH_CLIENT_METADATA_PATH)))"

definition oauth_callback_url :: "upstream_env \<Rightarrow> (UpstreamError, string) result" where
  "oauth_callback_url e = (case public_origin e of Inl err \<Rightarrow> Inl (BadPublicUrl err) | Inr origin \<Rightarrow> Inr (origin @ OAUTH_CALLBACK_PATH))"

definition oauth_redirect_uri :: "upstream_env \<Rightarrow> Mcp \<Rightarrow> (UpstreamError, string) result" where
  "oauth_redirect_uri e m =
     (case Option.bind (allowlisted_upstream_client (ue_parse e) (mcp_http_url m)) al_loopback_redirect_uri of
        Some loopback \<Rightarrow> Inr loopback
      | None \<Rightarrow> oauth_callback_url e)"

definition uses_pasted_oauth_callback :: "upstream_env \<Rightarrow> Mcp \<Rightarrow> bool" where
  "uses_pasted_oauth_callback e m \<longleftrightarrow> mcp_transport m = Http \<and>
     (case allowlisted_upstream_client (ue_parse e) (mcp_http_url m) of Some c \<Rightarrow> al_loopback_redirect_uri c \<noteq> None | None \<Rightarrow> False)"

definition client_information_from_mcp :: "upstream_env \<Rightarrow> Mcp \<Rightarrow> OAuthClientInformationMixed option" where
  "client_information_from_mcp e m =
     map_option (\<lambda>i. \<lparr>ci_client_id = i, ci_client_secret = secret_of (ue_decrypt e) (mcp_oauth_client_secret m),
       ci_auth_method = filled_text (mcp_oauth_client_auth_method m)\<rparr>) (filled_text (mcp_oauth_client_id m))"

definition metadata_document_client :: "upstream_env \<Rightarrow> string \<Rightarrow> (UpstreamError, OAuthClientInformationMixed) result" where
  "metadata_document_client e redirect =
     (case (oauth_client_metadata_url e, oauth_callback_url e) of
        (Inr i, Inr callback) \<Rightarrow>
          ensure (callback = redirect)
            (OtherUpstream ''This OAuth provider reads the client from APP_URL, which must be a public HTTPS origin it can reach'')
            (Inr \<lparr>ci_client_id = i, ci_client_secret = None, ci_auth_method = Some ''none''\<rparr>)
      | _ \<Rightarrow> Inl (OtherUpstream ''This OAuth provider reads the client from APP_URL, which must be a public HTTPS origin it can reach''))"

text \<open>The generation is drawn, not counted.\<close>

definition renew_oauth_generation :: "int \<Rightarrow> Mcp \<Rightarrow> Mcp" where
  "renew_oauth_generation drawn m = m\<lparr>mcp_oauth_generation := drawn\<rparr>"

definition forget_oauth_tokens :: "int \<Rightarrow> Mcp \<Rightarrow> Mcp" where
  "forget_oauth_tokens drawn m =
     (let m1 = renew_oauth_generation drawn m in
      if filled_text (mcp_oauth_access_token m1) = None \<and> filled_text (mcp_oauth_refresh_token m1) = None then m1
      else m1\<lparr>mcp_oauth_access_token := None, mcp_oauth_refresh_token := None, mcp_oauth_token_expires_at := None,
              mcp_oauth_token_type := None, mcp_oauth_required := True\<rparr>)"

definition token_expiry :: "int option \<Rightarrow> int \<Rightarrow> int" where
  "token_expiry lifetime now =
     now + max (- MAX_ACCESS_TOKEN_LIFETIME) (min MAX_ACCESS_TOKEN_LIFETIME
       (case lifetime of Some n \<Rightarrow> n | None \<Rightarrow> DEFAULT_ACCESS_TOKEN_LIFETIME))"

definition save_oauth_tokens :: "upstream_env \<Rightarrow> OAuthTokens \<Rightarrow> int \<Rightarrow> Mcp \<Rightarrow> Mcp" where
  "save_oauth_tokens e tokens now m =
     m\<lparr>mcp_oauth_access_token := secret_text (ue_encrypt e) (Some (tk_access_token tokens)),
       mcp_oauth_refresh_token := secret_text (ue_encrypt e) (tk_refresh_token tokens),
       mcp_oauth_token_type := Some (if tk_token_type tokens = [] \<or> ascii_lower (tk_token_type tokens) = ''bearer'' then ''Bearer'' else tk_token_type tokens),
       mcp_oauth_token_expires_at := Some (token_expiry (tk_expires_in tokens) now),
       mcp_oauth_scopes := (case filled_text (tk_scope tokens) of Some t \<Rightarrow> Some t | None \<Rightarrow> mcp_oauth_scopes m),
       mcp_oauth_required := False\<rparr>"

definition save_oauth_configuration ::
  "upstream_env \<Rightarrow> Mcp \<Rightarrow> OAuthContext \<Rightarrow> OAuthClientInformationMixed \<Rightarrow> string \<Rightarrow> bool \<Rightarrow> (UpstreamError, Mcp) result" where
  "save_oauth_configuration e m context client redirect registered =
     and_then (normalized_http_url e (md_authorization_endpoint (oc_metadata context)) ''OAuth authorization endpoint'') (\<lambda>authorize_url.
     and_then (normalized_http_url e (md_token_endpoint (oc_metadata context)) ''OAuth token endpoint'') (\<lambda>token_url.
     Inr (m\<lparr>mcp_oauth_issuer := Some (oc_authorization_server_url context), mcp_oauth_resource := oc_resource context,
            mcp_oauth_redirect_uri := Some redirect, mcp_oauth_authorize_url := Some authorize_url, mcp_oauth_token_url := Some token_url,
            mcp_oauth_scopes := (case oc_scope context of Some t \<Rightarrow> Some t | None \<Rightarrow> mcp_oauth_scopes m),
            mcp_oauth_client_auth_method := ci_auth_method client, mcp_oauth_client_id := Some (ci_client_id client),
            mcp_oauth_client_secret := (if registered then secret_text (ue_encrypt e) (ci_client_secret client) else mcp_oauth_client_secret m)\<rparr>)))"

definition oauth_endpoints_for :: "upstream_env \<Rightarrow> Mcp \<Rightarrow> (UpstreamError, Transport \<times> flow) result" where
  "oauth_endpoints_for e m =
     (case (if mcp_transport m = Http then filled_text (mcp_http_url m) else None) of
        None \<Rightarrow> Inl (OtherUpstream ''OAuth is supported only for HTTP MCPs'')
      | Some value \<Rightarrow>
          and_then (web_url e value ''MCP URL'') (\<lambda>url.
            if mcp_tailnet_id m = None
            then Inr (ue_fetcher e, \<lparr>fl_guard = Some (discovered_endpoint_guard url), fl_moment = 0, fl_trace = []\<rparr>)
            else
              (case ue_tailnet e m url of
                 Inl reason \<Rightarrow> Inl (TailnetRefused reason)
               | Inr network \<Rightarrow>
                   Inr (through_requiring (ao_urls (ue_ops e)) (public_only (ue_fetcher e)) network url,
                        \<lparr>fl_guard = None, fl_moment = 0, fl_trace = []\<rparr>))))"

definition no_flow :: flow where
  "no_flow = \<lparr>fl_guard = None, fl_moment = 0, fl_trace = []\<rparr>"

section \<open>The steps of a sign-in\<close>

definition save_oauth_step :: "Mcp \<Rightarrow> Mcp \<Rightarrow> int \<Rightarrow> db \<Rightarrow> db \<times> (UpstreamError, unit) result" where
  "save_oauth_step stored self now d =
     (let (d1, saved) = save_if_basis_holds stored self (oauth_basis stored) now d in
      (d1, if saved then Inr ()
           else Inl (Superseded ''The MCP was changed while its OAuth sign-in was running (its address, its network or its sign-in), so the result was dropped. Connect it again'')))"

definition check_current :: "OauthSession \<Rightarrow> Mcp \<Rightarrow> (UpstreamError, unit) result" where
  "check_current session m =
     ensure (os_generation session = mcp_oauth_generation m)
       (Superseded ''The MCP was changed since this OAuth sign-in started (its address, its network or its sign-in), so it was dropped. Connect it again'')
       (Inr ())"

text \<open>What is drawn at random for a start: its state, its verifier, a generation.\<close>

record draws =
  dr_state :: string
  dr_verifier :: string
  dr_generation :: int

definition start_builtin_oauth_flow ::
  "upstream_env \<Rightarrow> draws \<Rightarrow> session \<Rightarrow> Mcp \<Rightarrow> session \<times> (UpstreamError, string) result" where
  "start_builtin_oauth_flow e dr session m =
     (case ue_builtin e m of
        Inl reason \<Rightarrow> (session, Inl (BuiltinFailed reason))
      | Inr oauth \<Rightarrow>
          (case (filled_text (mcp_oauth_client_id m), secret_of (ue_decrypt e) (mcp_oauth_client_secret m)) of
             (Some client, Some _) \<Rightarrow>
               (case oauth_callback_url e of
                  Inl err \<Rightarrow> (session, Inl err)
                | Inr redirect \<Rightarrow>
                    (let (session1, _) = start_oauth_session (ue_print e) session m
                           \<lparr>st_redirect_uri = redirect, st_authorization_server_url = bo_issuer oauth, st_resource = None,
                            st_client_id = client, st_code_verifier = None, st_state = dr_state dr\<rparr> in
                     (session1,
                      case bo_authorization_url oauth client redirect (dr_state dr) m of
                        Inl reason \<Rightarrow> Inl (BuiltinFailed reason)
                      | Inr url \<Rightarrow> Inr url)))
           | _ \<Rightarrow> (session, Inl (OtherUpstream (''Add the '' @ bo_name oauth @ '' Client ID and Client Secret before connecting'')))))"

definition client_metadata :: "upstream_env \<Rightarrow> Mcp \<Rightarrow> string \<Rightarrow> string option \<Rightarrow> (string \<times> Value) list" where
  "client_metadata e m redirect scope =
     [(''client_name'', JString (registration_client_name (ue_parse e) (mcp_http_url m))),
      (''redirect_uris'', JArray [JString redirect]),
      (''grant_types'', JArray [JString ''authorization_code'', JString ''refresh_token'']),
      (''response_types'', JArray [JString ''code'']),
      (''token_endpoint_auth_method'', JString ''none'')]
     @ (case scope of Some t \<Rightarrow> [(''scope'', JString t)] | None \<Rightarrow> [])"

text \<open>The client to sign in with, and whether it is a new one.\<close>

definition choose_client ::
  "upstream_env \<Rightarrow> Transport \<Rightarrow> flow \<Rightarrow> Mcp \<Rightarrow> OAuthContext \<Rightarrow> Url \<Rightarrow> string
     \<Rightarrow> flow \<times> (UpstreamError, OAuthClientInformationMixed \<times> bool) result" where
  "choose_client e t s m context issuer redirect =
     (let existing = client_information_from_mcp e m;
          can_reuse = ((case filled_text (mcp_oauth_redirect_uri m) of None \<Rightarrow> True | Some saved \<Rightarrow> saved = redirect)
                       \<and> (case filled_text (mcp_oauth_issuer m) of None \<Rightarrow> True | Some saved \<Rightarrow> saved = oc_authorization_server_url context));
          no_registration = (filled_text (md_registration_endpoint (oc_metadata context)) = None) in
      if existing \<noteq> None \<and> can_reuse then (s, Inr (the existing, False))
      else if no_registration \<and> md_client_id_metadata_document_supported (oc_metadata context) = Some True
      then (s, and_then (metadata_document_client e redirect) (\<lambda>client. Inr (client, True)))
      else if no_registration
      then (s, Inl (OtherUpstream (if existing \<noteq> None
              then ''The OAuth redirect origin changed, but this provider does not support automatic client registration''
              else ''This OAuth provider does not support automatic client registration'')))
      else
        go_on (map_failure upstream_error (register_at_provider (ue_ops e) (ue_docs e) (oauth_fetch e t) s issuer (Some (oc_metadata context))
            (registration_body (ue_print e) (client_metadata e m redirect (oc_scope context)) (oc_scope context))))
          (\<lambda>s1 client. (s1, Inr (client, True))))"

definition issuer_changed :: "upstream_env \<Rightarrow> Mcp \<Rightarrow> OAuthContext \<Rightarrow> (UpstreamError, bool) result" where
  "issuer_changed e m context =
     and_then (saved_issuer e m) (\<lambda>saved.
       case saved of
         None \<Rightarrow> Inr False
       | Some previous \<Rightarrow>
           and_then (comparable_oauth_issuer e previous ''OAuth issuer'') (\<lambda>a.
           and_then (comparable_oauth_issuer e (oc_authorization_server_url context) ''OAuth authorization server'') (\<lambda>b.
           Inr (a \<noteq> b))))"

text \<open>What the row becomes, and what goes into the session with the address for the browser.\<close>

definition prepare_oauth_flow ::
  "upstream_env \<Rightarrow> draws \<Rightarrow> Mcp \<Rightarrow> flow \<times> (UpstreamError, Mcp \<times> OauthStart \<times> Url) result" where
  "prepare_oauth_flow e dr m =
     (case oauth_endpoints_for e m of
        Inl err \<Rightarrow> (no_flow, Inl err)
      | Inr (t, s) \<Rightarrow>
          go_on (s, oauth_redirect_uri e m) (\<lambda>s0 redirect.
          go_on (discover_oauth_context e t s0 m) (\<lambda>s1 context.
          go_on (s1, authorization_server e (oc_authorization_server_url context)) (\<lambda>s2 issuer.
          go_on (choose_client e t s2 m context issuer redirect) (\<lambda>s3 (client, registered).
          (s3,
           and_then (resource_url e (oc_resource context)) (\<lambda>resource.
           and_then (case start_authorization (ue_ops e) (dr_verifier dr) issuer (Some (oc_metadata context)) client redirect
                       (oc_scope context) (Some (dr_state dr)) resource of
               Inl err \<Rightarrow> Inl (upstream_error err)
             | Inr x \<Rightarrow> Inr x) (\<lambda>authorization.
           and_then (issuer_changed e m context) (\<lambda>moved.
           and_then (save_oauth_configuration e (if registered \<or> moved then forget_oauth_tokens (dr_generation dr) m else m)
                       context client redirect registered) (\<lambda>m1.
           Inr (m1,
                \<lparr>st_redirect_uri = redirect, st_authorization_server_url = oc_authorization_server_url context,
                 st_resource = oc_resource context, st_client_id = ci_client_id client,
                 st_code_verifier = Some (as_code_verifier authorization), st_state = dr_state dr\<rparr>,
                as_authorization_url authorization)))))))))))"

definition start_oauth_flow ::
  "upstream_env \<Rightarrow> draws \<Rightarrow> session \<Rightarrow> Mcp \<Rightarrow> int \<Rightarrow> db \<Rightarrow> flow \<times> session \<times> db \<times> (UpstreamError, string) result" where
  "start_oauth_flow e dr session m now d =
     (if mcp_transport m = Builtin
      then let (session1, r) = start_builtin_oauth_flow e dr session m in (no_flow, session1, d, r)
      else
        (case prepare_oauth_flow e dr m of
           (s, Inl err) \<Rightarrow> (s, session, d, Inl err)
         | (s, Inr (m1, start, url)) \<Rightarrow>
             (case save_oauth_step m m1 now d of
                (d1, Inl err) \<Rightarrow> (s, session, d1, Inl err)
              | (d1, Inr _) \<Rightarrow>
                  (s, fst (start_oauth_session (ue_print e) session m1 start), d1,
                   and_then (web_url e (url_text url) ''OAuth authorization URL'') (\<lambda>u. Inr (url_text u))))))"

text \<open>The scopes a provider of a built-in MCP names (\<open>crates/builtin/src/oauth.rs\<close>).\<close>

definition is_scope_name :: "string \<Rightarrow> bool" where
  "is_scope_name t \<longleftrightarrow> 1 \<le> length t \<and> length t \<le> 64
     \<and> list_all (\<lambda>c. let n = (of_char c :: nat) in
         48 \<le> n \<and> n \<le> 57 \<or> 65 \<le> n \<and> n \<le> 90 \<or> 97 \<le> n \<and> n \<le> 122 \<or> c \<in> {CHR ''_'', CHR '':'', CHR ''.'', CHR ''/'', CHR ''-''}) t"

function scope_words :: "string \<Rightarrow> string \<Rightarrow> string list" where
  "scope_words word [] = [rev word]"
| "scope_words word (c # cs) =
     (case find (\<lambda>w. take (length w) (c # cs) = w) ('','' # JS_SPACES) of
        None \<Rightarrow> scope_words (c # word) cs
      | Some w \<Rightarrow> rev word # scope_words [] (drop (length w - 1) cs))"
  by pat_completeness auto
termination by (relation "measure (\<lambda>(_, s). length s)") auto

definition parse_oauth_scopes :: "string option \<Rightarrow> string list" where
  "parse_oauth_scopes value = take 32 (filter is_scope_name (scope_words [] (text_or_empty value)))"

text \<open>What the provider gives for the code of a callback.\<close>

definition exchanged_tokens ::
  "upstream_env \<Rightarrow> Mcp \<Rightarrow> OauthSession \<Rightarrow> OAuthClientInformationMixed \<Rightarrow> string \<Rightarrow> flow \<times> (UpstreamError, OAuthTokens) result" where
  "exchanged_tokens e m oauth client authorization_code =
     (case filled_text (os_code_verifier oauth) of
        None \<Rightarrow> (no_flow, Inl (OtherUpstream ''OAuth session is missing its PKCE code verifier''))
      | Some verifier \<Rightarrow>
          (case oauth_endpoints_for e m of
             Inl err \<Rightarrow> (no_flow, Inl err)
           | Inr (t, s) \<Rightarrow>
               go_on (metadata_for_authorization_server e t s m (os_authorization_server_url oauth)) (\<lambda>s1 metadata.
               go_on (s1, and_then (resource_for_mcp e m (os_resource oauth)) (resource_url e)) (\<lambda>s2 resource.
               go_on (s2, authorization_server e (os_authorization_server_url oauth)) (\<lambda>s3 server.
               map_failure upstream_error (exchange_authorization (ue_ops e) (ue_docs e) (oauth_fetch e t) s3 server (Some metadata)
                 client authorization_code verifier (os_redirect_uri oauth) resource))))))"

definition exchange_upstream_code ::
  "upstream_env \<Rightarrow> Mcp \<Rightarrow> OauthSession \<Rightarrow> string \<Rightarrow> string option \<Rightarrow> int \<Rightarrow> db \<Rightarrow> flow \<times> db \<times> (UpstreamError, unit) result" where
  "exchange_upstream_code e m oauth authorization_code granted_scope now d =
     (case (case check_current oauth m of
              Inl err \<Rightarrow> Inl err
            | Inr _ \<Rightarrow>
                some_or (OtherUpstream ''OAuth client information is no longer available'')
                  (case client_information_from_mcp e m of
                     Some client \<Rightarrow> if ci_client_id client = os_client_id oauth then Some client else None
                   | None \<Rightarrow> None)) of
        Inl err \<Rightarrow> (no_flow, d, Inl err)
      | Inr client \<Rightarrow>
          if mcp_transport m = Builtin then
            (case ue_builtin_tokens e m (GrantCode authorization_code (os_redirect_uri oauth)) of
               Inl reason \<Rightarrow> (no_flow, d, Inl (BuiltinFailed reason))
             | Inr tokens \<Rightarrow>
                 (let scopes = parse_oauth_scopes (case tk_scope tokens of Some t \<Rightarrow> Some t | None \<Rightarrow> granted_scope);
                      m1 = save_oauth_tokens e (tokens\<lparr>tk_scope := None\<rparr>) now m;
                      m2 = m1\<lparr>mcp_oauth_scopes := (if scopes = [] then None else Some (join_with '' '' scopes)),
                              mcp_status := Ready, mcp_last_error := None\<rparr> in
                  (no_flow, save_oauth_step m m2 now d)))
          else
            (case exchanged_tokens e m oauth client authorization_code of
               (s, Inl err) \<Rightarrow> (s, d, Inl err)
             | (s, Inr tokens) \<Rightarrow>
                 (s, save_oauth_step m ((save_oauth_tokens e tokens now m)\<lparr>mcp_status := Ready, mcp_last_error := None\<rparr>) now d)))"

text \<open>The renewal of a token: what the provider gives for the row that was read, or nothing when there is nothing to renew.\<close>

definition renewed_tokens :: "upstream_env \<Rightarrow> Mcp \<Rightarrow> int \<Rightarrow> flow \<times> (UpstreamError, OAuthTokens option) result" where
  "renewed_tokens e m now =
     (let refresh = secret_of (ue_decrypt e) (mcp_oauth_refresh_token m);
          is_fresh = (case mcp_oauth_token_expires_at m of Some t \<Rightarrow> t > now + 2 * 60 * 1000 | None \<Rightarrow> False) in
      if mcp_auth_type m \<noteq> AuthAuto then (no_flow, Inr None)
      else if mcp_transport m = Builtin then
        (case (if is_fresh then None else refresh) of
           None \<Rightarrow> (no_flow, Inr None)
         | Some token \<Rightarrow>
             (no_flow,
              case ue_builtin_tokens e m (GrantRefresh token) of
                Inl reason \<Rightarrow> Inl (BuiltinFailed reason)
              | Inr tokens \<Rightarrow>
                  Inr (Some (tokens\<lparr>tk_scope := None,
                    tk_refresh_token := (case tk_refresh_token tokens of Some r \<Rightarrow> Some r | None \<Rightarrow> Some token)\<rparr>))))
      else
        go_on (no_flow, saved_issuer e m) (\<lambda>_ saved.
        case (refresh, client_information_from_mcp e m, filled_text saved) of
          (Some token, Some client, Some server_text) \<Rightarrow>
            if is_fresh then (no_flow, Inr None)
            else
              (case oauth_endpoints_for e m of
                 Inl err \<Rightarrow> (no_flow, Inl err)
               | Inr (t, s) \<Rightarrow>
                   go_on (metadata_for_authorization_server e t s m server_text) (\<lambda>s1 metadata.
                   go_on (s1, and_then (resource_for_mcp e m (mcp_oauth_resource m)) (resource_url e)) (\<lambda>s2 resource.
                   go_on (s2, authorization_server e server_text) (\<lambda>s3 server.
                   go_on (map_failure upstream_error (refresh_authorization (ue_ops e) (ue_docs e) (oauth_fetch e t) s3 server (Some metadata)
                     client token resource)) (\<lambda>s4 tokens. (s4, Inr (Some tokens)))))))
        | _ \<Rightarrow> (no_flow, Inr None)))"

definition refresh_current_oauth_access_token ::
  "upstream_env \<Rightarrow> int \<Rightarrow> int \<Rightarrow> db \<Rightarrow> int \<Rightarrow> db \<Rightarrow> flow \<times> db \<times> (UpstreamError, unit) result" where
  "refresh_current_oauth_access_token e i now d0 later d =
     (case find_row (\<lambda>r. mcp_id r = i) (mcps d0) of
        None \<Rightarrow> (no_flow, d, Inl (OtherUpstream (''\"Model.refresh\" failed. Unable to lookup \"mcps\" table where \"id\" = '' @ show_int i)))
      | Some m \<Rightarrow>
          (case renewed_tokens e m now of
             (s, Inl err) \<Rightarrow> (s, d, Inl err)
           | (s, Inr None) \<Rightarrow> (s, d, Inr ())
           | (s, Inr (Some tokens)) \<Rightarrow> (s, save_oauth_step m (save_oauth_tokens e tokens later m) later d)))"

section \<open>One renewal at a time\<close>

text \<open>
  The renewals under way: the entries callers find (\<open>pending_refreshes\<close>), the tasks that run, and for each caller the task it
  waits for. A task gives its entry back before it tells its callers. Tasks are numbered as they start.
\<close>

record renewals =
  rn_entries :: "int \<rightharpoonup> nat"
  rn_running :: "(nat \<times> int) list"
  rn_ending :: "(nat \<times> int) list"
  rn_waiting :: "(nat \<times> int) list"
  rn_next :: nat

definition no_renewals :: renewals where
  "no_renewals = \<lparr>rn_entries = Map.empty, rn_running = [], rn_ending = [], rn_waiting = [], rn_next = 0\<rparr>"

definition pending_refresh :: "int \<Rightarrow> renewals \<Rightarrow> renewals \<times> nat \<times> bool" where
  "pending_refresh i s =
     (case rn_entries s i of
        Some task \<Rightarrow> (s\<lparr>rn_waiting := rn_waiting s @ [(task, i)]\<rparr>, task, False)
      | None \<Rightarrow>
          (s\<lparr>rn_entries := (rn_entries s)(i \<mapsto> rn_next s), rn_running := rn_running s @ [(rn_next s, i)],
             rn_waiting := rn_waiting s @ [(rn_next s, i)], rn_next := rn_next s + 1\<rparr>, rn_next s, True))"

text \<open>The renewal is done, or was interrupted: its entry goes, then its callers are told.\<close>

definition release_refresh :: "nat \<Rightarrow> int \<Rightarrow> renewals \<Rightarrow> renewals" where
  "release_refresh task i s =
     s\<lparr>rn_entries := (rn_entries s)(i := None), rn_running := filter (\<lambda>x. x \<noteq> (task, i)) (rn_running s),
       rn_ending := rn_ending s @ [(task, i)]\<rparr>"

definition tell_refresh :: "nat \<Rightarrow> int \<Rightarrow> renewals \<Rightarrow> renewals" where
  "tell_refresh task i s =
     s\<lparr>rn_ending := filter (\<lambda>x. x \<noteq> (task, i)) (rn_ending s), rn_waiting := filter (\<lambda>x. x \<noteq> (task, i)) (rn_waiting s)\<rparr>"

inductive renewal_step :: "renewals \<Rightarrow> renewals \<Rightarrow> bool" where
  asked: "pending_refresh i s = (s', task, fresh) \<Longrightarrow> renewal_step s s'"
| released: "(task, i) \<in> set (rn_running s) \<Longrightarrow> renewal_step s (release_refresh task i s)"
| told: "(task, i) \<in> set (rn_ending s) \<Longrightarrow> renewal_step s (tell_refresh task i s)"

section \<open>A step writes what it signed in, where it began\<close>

lemma basis_holds_iff: "basis_holds (oauth_basis m) r \<longleftrightarrow> oauth_basis r = oauth_basis m"
  unfolding basis_holds_def oauth_basis_def by auto

text \<open>The columns that are not of a sign-in.\<close>

definition signs_in :: "Mcp \<Rightarrow> Mcp \<Rightarrow> bool" where
  "signs_in m m1 \<longleftrightarrow>
     mcp_id m1 = mcp_id m \<and> mcp_name m1 = mcp_name m \<and> mcp_slug m1 = mcp_slug m \<and> mcp_description m1 = mcp_description m
     \<and> mcp_transport m1 = mcp_transport m \<and> mcp_http_url m1 = mcp_http_url m \<and> mcp_npm_package m1 = mcp_npm_package m
     \<and> mcp_npm_version m1 = mcp_npm_version m \<and> mcp_npm_args m1 = mcp_npm_args m \<and> mcp_auth_type m1 = mcp_auth_type m
     \<and> mcp_auth_bearer m1 = mcp_auth_bearer m \<and> mcp_auth_header_name m1 = mcp_auth_header_name m
     \<and> mcp_auth_header_value m1 = mcp_auth_header_value m \<and> mcp_enabled m1 = mcp_enabled m \<and> mcp_created_by m1 = mcp_created_by m
     \<and> mcp_created_at m1 = mcp_created_at m \<and> mcp_npm_env m1 = mcp_npm_env m \<and> mcp_builtin_key m1 = mcp_builtin_key m
     \<and> mcp_builtin_write_enabled m1 = mcp_builtin_write_enabled m \<and> mcp_builtin_username m1 = mcp_builtin_username m
     \<and> mcp_builtin_password m1 = mcp_builtin_password m \<and> mcp_builtin_permissions m1 = mcp_builtin_permissions m
     \<and> mcp_builtin_aliases m1 = mcp_builtin_aliases m \<and> mcp_tool_approvals m1 = mcp_tool_approvals m
     \<and> mcp_builtin_settings m1 = mcp_builtin_settings m \<and> mcp_team_id m1 = mcp_team_id m
     \<and> mcp_tool_timeout_seconds m1 = mcp_tool_timeout_seconds m \<and> mcp_tailnet_id m1 = mcp_tailnet_id m"

lemma changed_same: "changed a a r = r" "changed a x a = x"
  by (simp_all add: changed_def)

lemma signs_in_written:
  assumes "signs_in m m1"
  shows "signs_in r (write_changed m (m1\<lparr>mcp_updated_at := t\<rparr>) r)"
  using assms unfolding signs_in_def write_changed_def by (elim conjE) (simp add: changed_same)

lemma basis_written:
  assumes "oauth_basis r = oauth_basis m"
  shows "oauth_basis (write_changed m (m1\<lparr>mcp_updated_at := t\<rparr>) r) = oauth_basis m1"
  using assms unfolding oauth_basis_def write_changed_def by (simp add: changed_same)

lemma signs_in_tokens: "signs_in m (save_oauth_tokens e tokens now m)"
  by (simp add: signs_in_def save_oauth_tokens_def)

lemma signs_in_exchanged: "signs_in m ((save_oauth_tokens e tokens now m)\<lparr>mcp_status := st, mcp_last_error := err\<rparr>)"
  by (simp add: signs_in_def save_oauth_tokens_def)

lemma signs_in_scoped:
  "signs_in m ((save_oauth_tokens e tokens now m)\<lparr>mcp_oauth_scopes := sc, mcp_status := st, mcp_last_error := err\<rparr>)"
  by (simp add: signs_in_def save_oauth_tokens_def)

lemma signs_in_forgotten: "signs_in m (forget_oauth_tokens n m)"
  by (simp add: signs_in_def forget_oauth_tokens_def renew_oauth_generation_def Let_def)

lemma signs_in_trans: "signs_in a b \<Longrightarrow> signs_in b c \<Longrightarrow> signs_in a c"
  unfolding signs_in_def by (elim conjE) simp

lemma signs_in_configured:
  assumes "save_oauth_configuration e m context client redirect registered = Inr m1"
  shows "signs_in m m1"
proof -
  obtain u v sc se where "m1 = m\<lparr>mcp_oauth_issuer := Some (oc_authorization_server_url context), mcp_oauth_resource := oc_resource context,
      mcp_oauth_redirect_uri := Some redirect, mcp_oauth_authorize_url := Some u, mcp_oauth_token_url := Some v,
      mcp_oauth_scopes := sc, mcp_oauth_client_auth_method := ci_auth_method client,
      mcp_oauth_client_id := Some (ci_client_id client), mcp_oauth_client_secret := se\<rparr>"
    using assms unfolding save_oauth_configuration_def and_then_eq_Inr by blast
  then show ?thesis by (simp add: signs_in_def)
qed

lemma signs_in_refl: "signs_in m m"
  by (simp add: signs_in_def)

text \<open>What a step that read \<open>m\<close> and made \<open>m1\<close> of it does to the rows.\<close>

definition wrote :: "Mcp \<Rightarrow> Mcp \<Rightarrow> Mcp \<Rightarrow> Mcp \<Rightarrow> bool" where
  "wrote m m1 r r' \<longleftrightarrow>
     r' = r \<or> mcp_id r = mcp_id m \<and> oauth_basis r = oauth_basis m \<and> signs_in r r' \<and> oauth_basis r' = oauth_basis m1"

lemma list_all2_update_where: "(\<And>r. P r \<Longrightarrow> R r (f r)) \<Longrightarrow> (\<And>r. R r r) \<Longrightarrow> list_all2 R xs (update_where P f xs)"
  by (simp add: update_where_def list_all2_map2 list.rel_refl_strong)

lemma saved_step:
  assumes "save_oauth_step m m1 now d = (d', r)" and "signs_in m m1"
  shows "d' = d\<lparr>mcps := mcps d'\<rparr>" "list_all2 (wrote m m1) (rows (mcps d)) (rows (mcps d'))" "r \<noteq> Inr () \<Longrightarrow> d' = d"
proof -
  define same where "same = (\<lambda>r. mcp_id r = mcp_id m \<and> oauth_basis r = oauth_basis m)"
  have i: "mcp_id m1 = mcp_id m" using assms(2) by (simp add: signs_in_def)
  have "d' = d \<or> d' = d\<lparr>mcps := upd same (write_changed m (m1\<lparr>mcp_updated_at := Some now\<rparr>)) (mcps d)\<rparr> \<and> r = Inr ()"
    using assms(1) unfolding save_oauth_step_def save_if_basis_holds_def basis_holds_iff i same_def
    by (auto simp: Let_def split: if_split_asm)
  then show "d' = d\<lparr>mcps := mcps d'\<rparr>" "r \<noteq> Inr () \<Longrightarrow> d' = d" by auto
  have "list_all2 (wrote m m1) (rows (mcps d)) (update_where same (write_changed m (m1\<lparr>mcp_updated_at := Some now\<rparr>)) (rows (mcps d)))"
    by (rule list_all2_update_where)
      (simp_all add: wrote_def same_def signs_in_written [OF assms(2)] basis_written)
  moreover have "list_all2 (wrote m m1) (rows (mcps d)) (rows (mcps d))" by (simp add: wrote_def list.rel_refl_strong)
  ultimately show "list_all2 (wrote m m1) (rows (mcps d)) (rows (mcps d'))"
    using \<open>d' = d \<or> _\<close> by (auto simp: upd_def)
qed

text \<open>A step that reports success found the row it had read, as it was, and left there what it made of it; or it had nothing to write.\<close>

lemma saved_success:
  assumes "save_oauth_step m m1 now d = (d', Inr ())" and "signs_in m m1"
  shows "m1 = m \<and> d' = d \<or> (\<exists>row \<in> set (rows (mcps d)). \<exists>row' \<in> set (rows (mcps d')).
     mcp_id row = mcp_id m \<and> oauth_basis row = oauth_basis m \<and> mcp_id row' = mcp_id m \<and> oauth_basis row' = oauth_basis m1)"
proof (cases "m1 = m")
  case False
  define same where "same = (\<lambda>r. mcp_id r = mcp_id m \<and> oauth_basis r = oauth_basis m)"
  let ?f = "write_changed m (m1\<lparr>mcp_updated_at := Some now\<rparr>)"
  have i: "mcp_id m1 = mcp_id m" using assms(2) by (simp add: signs_in_def)
  have wrote: "d' = d\<lparr>mcps := upd same ?f (mcps d)\<rparr>" "has_row same (mcps d)"
    using assms(1) False unfolding save_oauth_step_def save_if_basis_holds_def basis_holds_iff i same_def
    by (auto simp: Let_def split: if_split_asm)
  then obtain row where row: "row \<in> set (rows (mcps d))" "same row" by (auto simp: has_row_iff)
  have "?f row \<in> set (rows (mcps d'))" using row wrote(1) by (auto simp: update_where_def)
  moreover have "mcp_id (?f row) = mcp_id m" "oauth_basis (?f row) = oauth_basis m1"
    using row(2) by (simp_all add: same_def basis_written) (simp add: write_changed_def)
  ultimately show ?thesis using row by (auto simp: same_def)
qed (use assms(1) in \<open>simp add: save_oauth_step_def save_if_basis_holds_def\<close>)

text \<open>The tokens that the provider gave for the code of a callback, and a row that holds them.\<close>

definition provider_gave :: "upstream_env \<Rightarrow> Mcp \<Rightarrow> OauthSession \<Rightarrow> string \<Rightarrow> OAuthTokens \<Rightarrow> bool" where
  "provider_gave e m oauth authorization_code tokens \<longleftrightarrow>
     (if mcp_transport m = Builtin then ue_builtin_tokens e m (GrantCode authorization_code (os_redirect_uri oauth)) = Inr tokens
      else \<exists>s client. exchanged_tokens e m oauth client authorization_code = (s, Inr tokens))"

definition holds_tokens :: "upstream_env \<Rightarrow> OAuthTokens \<Rightarrow> Mcp \<Rightarrow> bool" where
  "holds_tokens e tokens row \<longleftrightarrow>
     mcp_oauth_access_token row = secret_text (ue_encrypt e) (Some (tk_access_token tokens))
     \<and> mcp_oauth_refresh_token row = secret_text (ue_encrypt e) (tk_refresh_token tokens)"

lemma holds_saved:
  "holds_tokens e tokens ((save_oauth_tokens e tokens now m)\<lparr>mcp_status := x, mcp_last_error := y\<rparr>)"
  "holds_tokens e tokens ((save_oauth_tokens e (tokens\<lparr>tk_scope := None\<rparr>) now m)
     \<lparr>mcp_oauth_scopes := z, mcp_status := x, mcp_last_error := y\<rparr>)"
  by (simp_all add: holds_tokens_def save_oauth_tokens_def)

lemma go_on_eq_Inr: "go_on step f = (s, Inr y) \<longleftrightarrow> (\<exists>s0 x. step = (s0, Inr x) \<and> f s0 x = (s, Inr y))"
  by (cases step; cases "snd step") (auto simp: go_on_def)

lemma chosen_client:
  assumes "choose_client e t s m context issuer redirect = (s1, Inr (client, registered))" and "\<not> registered"
  shows "client_information_from_mcp e m = Some client"
  using assms unfolding choose_client_def Let_def go_on_eq_Inr
  by (auto simp: result_simps go_on_eq_Inr split: if_split_asm)

lemma prepared_flow:
  assumes "prepare_oauth_flow e dr m = (s, Inr (m1, start, url))"
  obtains ctx client registered moved redirect
  where "issuer_changed e m ctx = Inr moved"
    "save_oauth_configuration e (if registered \<or> moved then forget_oauth_tokens (dr_generation dr) m else m) ctx client redirect registered
       = Inr m1"
    "\<not> registered \<Longrightarrow> client_information_from_mcp e m = Some client"
proof -
  obtain t s0 where "oauth_endpoints_for e m = Inr (t, s0)"
    using assms unfolding prepare_oauth_flow_def by (auto split: sum.split_asm)
  note run = assms [unfolded prepare_oauth_flow_def this sum.case prod.case go_on_eq_Inr]
  then obtain ctx issuer redirect s2 s3 client registered moved where
      "choose_client e t s2 m ctx issuer redirect = (s3, Inr (client, registered))"
      "issuer_changed e m ctx = Inr moved"
      "save_oauth_configuration e (if registered \<or> moved then forget_oauth_tokens (dr_generation dr) m else m) ctx client redirect registered
       = Inr m1"
    by (auto simp: and_then_eq_Inr split: prod.split_asm)
  then show ?thesis using that chosen_client by blast
qed

lemma prepared_signs_in: "prepare_oauth_flow e dr m = (s, Inr (m1, start, url)) \<Longrightarrow> signs_in m m1"
  by (erule prepared_flow) (auto intro: signs_in_trans signs_in_forgotten dest!: signs_in_configured split: if_split_asm)

text \<open>The steps that write: a start, a callback, a renewal of a row that was read earlier.\<close>

inductive oauth_step :: "upstream_env \<Rightarrow> Mcp \<Rightarrow> flow \<Rightarrow> db \<Rightarrow> db \<Rightarrow> bool" for e where
  started: "start_oauth_flow e dr session m now d = (s, session', d', r) \<Longrightarrow> oauth_step e m s d d'"
| exchanged: "exchange_upstream_code e m oauth c granted now d = (s, d', r) \<Longrightarrow> oauth_step e m s d d'"
| renewed:
    "find_row (\<lambda>r. mcp_id r = i) (mcps d0) = Some m \<Longrightarrow> refresh_current_oauth_access_token e i now d0 later d = (s, d', r) \<Longrightarrow>
     oauth_step e m s d d'"

lemma started_step:
  assumes "start_oauth_flow e dr session m now d = (s, session', d', r)"
  obtains (nothing) "d' = d"
  | (saved) m1 start url r' where "prepare_oauth_flow e dr m = (s, Inr (m1, start, url))" "save_oauth_step m m1 now d = (d', r')"
  using assms unfolding start_oauth_flow_def
  by (auto simp: Let_def split: if_split_asm prod.split_asm sum.split_asm)

lemma exchanged_step:
  assumes "exchange_upstream_code e m oauth c granted now d = (s, d', r)"
  obtains (nothing) "d' = d" "\<exists>err. r = Inl err"
  | (saved) m1 client where "save_oauth_step m m1 now d = (d', r)" "signs_in m m1" "os_generation oauth = mcp_oauth_generation m"
      "client_information_from_mcp e m = Some client" "ci_client_id client = os_client_id oauth"
      "\<exists>tokens. provider_gave e m oauth c tokens \<and> holds_tokens e tokens m1"
proof -
  define chosen where "chosen = (case check_current oauth m of Inl err \<Rightarrow> Inl err
      | Inr _ \<Rightarrow> some_or (OtherUpstream ''OAuth client information is no longer available'')
          (case client_information_from_mcp e m of
             Some client \<Rightarrow> if ci_client_id client = os_client_id oauth then Some client else None | None \<Rightarrow> None))"
  note run = assms [unfolded exchange_upstream_code_def, folded chosen_def]
  show ?thesis
  proof (cases chosen)
    case (Inl err)
    then have "d' = d" "\<exists>err. r = Inl err" using run by auto
        then show ?thesis by (rule nothing)
  next
    case (Inr client)
    then have client: "os_generation oauth = mcp_oauth_generation m" "client_information_from_mcp e m = Some client"
        "ci_client_id client = os_client_id oauth"
      by (auto simp: chosen_def check_current_def ensure_def some_or_def split: if_split_asm option.split_asm)
    show ?thesis
    proof (cases "mcp_transport m = Builtin")
      case True
      show ?thesis
      proof (cases "ue_builtin_tokens e m (GrantCode c (os_redirect_uri oauth))")
        case (Inl err)
        then have "d' = d" "\<exists>err. r = Inl err" using run True \<open>chosen = Inr client\<close> by auto
        then show ?thesis by (rule nothing)
      next
        case (Inr tokens)
        then have gave: "provider_gave e m oauth c tokens" by (simp add: provider_gave_def True)
        have "\<exists>sc. save_oauth_step m ((save_oauth_tokens e (tokens\<lparr>tk_scope := None\<rparr>) now m)
            \<lparr>mcp_oauth_scopes := sc, mcp_status := Ready, mcp_last_error := None\<rparr>) now d = (d', r)"
          using run True Inr \<open>chosen = Inr client\<close> by (simp add: Let_def) blast
        then obtain sc where "save_oauth_step m ((save_oauth_tokens e (tokens\<lparr>tk_scope := None\<rparr>) now m)
            \<lparr>mcp_oauth_scopes := sc, mcp_status := Ready, mcp_last_error := None\<rparr>) now d = (d', r)" ..
        from saved [OF this signs_in_scoped client] show ?thesis using gave holds_saved(2) by blast
      qed
    next
      case False
      obtain t answer where answer: "exchanged_tokens e m oauth client c = (t, answer)" by (cases "exchanged_tokens e m oauth client c")
      show ?thesis
      proof (cases answer)
        case (Inl err)
        then have "d' = d" "\<exists>err. r = Inl err" using run False answer \<open>chosen = Inr client\<close> by auto
        then show ?thesis by (rule nothing)
      next
        case (Inr tokens)
        then have gave: "provider_gave e m oauth c tokens" using answer by (auto simp: provider_gave_def False)
        have "save_oauth_step m ((save_oauth_tokens e tokens now m)\<lparr>mcp_status := Ready, mcp_last_error := None\<rparr>) now d = (d', r)"
          using run False Inr answer \<open>chosen = Inr client\<close> by simp
        from saved [OF this signs_in_exchanged client] show ?thesis using gave holds_saved(1) by blast
      qed
    qed
  qed
qed

lemma renewed_step:
  assumes "find_row (\<lambda>r. mcp_id r = i) (mcps d0) = Some m" "refresh_current_oauth_access_token e i now d0 later d = (s, d', r)"
  obtains (nothing) "d' = d"
  | (saved) tokens where "save_oauth_step m (save_oauth_tokens e tokens later m) later d = (d', r)"
  using assms unfolding refresh_current_oauth_access_token_def
  by (auto split: prod.split_asm sum.split_asm option.split_asm)

lemma wrote_refl: "list_all2 (wrote m m1) xs xs"
  by (simp add: wrote_def list.rel_refl_strong)

lemma oauth_step_wrote:
  assumes "oauth_step e m s d d'"
  shows "\<exists>m1. d' = d\<lparr>mcps := mcps d'\<rparr> \<and> list_all2 (wrote m m1) (rows (mcps d)) (rows (mcps d'))"
  using assms
proof cases
  case (started dr session now session' r)
  then show ?thesis
    by (cases rule: started_step) (auto simp: wrote_refl dest: saved_step(1,2) prepared_signs_in intro!: exI)
next
  case (exchanged oauth c granted now r)
  then show ?thesis
    by (cases rule: exchanged_step) (auto simp: wrote_refl dest: saved_step(1,2) intro!: exI)
next
  case (renewed i d0 now later r)
  then show ?thesis
    by (cases rule: renewed_step) (auto simp: wrote_refl dest: saved_step(1,2) [OF _ signs_in_tokens] intro!: exI)
qed

text \<open>C5: A sign-in step keeps to what it began with. A start, a callback or a renewal works for a while with requests to the
  provider, and anything may happen to the database meanwhile. When it then writes, it writes no table but the MCPs, no row but
  the one it read, that one only if it still goes to the same place with the same sign-in (all it rests on but the scopes an administrator entered), and no column but those of the
  sign-in. Otherwise what the provider gave is dropped.\<close>

theorem oauth_step_keeps_to_its_basis:
  assumes "oauth_step e m s d d'"
  shows "d' = d\<lparr>mcps := mcps d'\<rparr> \<and>
    list_all2 (\<lambda>r r'. r' = r \<or> mcp_id r = mcp_id m \<and> oauth_basis r = oauth_basis m \<and> signs_in r r') (rows (mcps d)) (rows (mcps d'))"
proof -
  obtain m1 where m1: "d' = d\<lparr>mcps := mcps d'\<rparr>" "list_all2 (wrote m m1) (rows (mcps d)) (rows (mcps d'))"
    using oauth_step_wrote [OF assms] by blast
  have "list_all2 (\<lambda>r r'. r' = r \<or> mcp_id r = mcp_id m \<and> oauth_basis r = oauth_basis m \<and> signs_in r r') (rows (mcps d)) (rows (mcps d'))"
    using m1(2) by (rule list_all2_mono) (auto simp: wrote_def)
  then show ?thesis using m1(1) by blast
qed

lemma basis_columns:
  assumes "oauth_basis r = oauth_basis m"
  shows "mcp_oauth_generation r = mcp_oauth_generation m" "mcp_oauth_client_id r = mcp_oauth_client_id m"
    "mcp_oauth_client_secret r = mcp_oauth_client_secret m" "mcp_oauth_issuer r = mcp_oauth_issuer m"
    "mcp_oauth_access_token r = mcp_oauth_access_token m" "mcp_oauth_refresh_token r = mcp_oauth_refresh_token m"
    "mcp_http_url r = mcp_http_url m" "mcp_tailnet_id r = mcp_tailnet_id m"
  using assms by (simp_all add: oauth_basis_def)

lemma client_of_mcp: "client_information_from_mcp e m = Some client \<Longrightarrow> mcp_oauth_client_id m = Some (ci_client_id client)"
  by (auto simp: client_information_from_mcp_def filled_text_def split: option.split_asm if_split_asm)

text \<open>The row of the sign-in that a callback belongs to.\<close>

definition row_of_sign_in :: "Mcp \<Rightarrow> OauthSession \<Rightarrow> Mcp \<Rightarrow> bool" where
  "row_of_sign_in m oauth row \<longleftrightarrow> mcp_id row = mcp_id m \<and> mcp_oauth_generation row = os_generation oauth
     \<and> mcp_oauth_client_id row = Some (os_client_id oauth) \<and> mcp_http_url row = mcp_http_url m \<and> mcp_tailnet_id row = mcp_tailnet_id m"

text \<open>C11: A callback finishes only the sign-in it belongs to. Whatever happened to the MCP between the start, the callback and
  the answer of the provider, tokens are written only to a row that still has the generation and the client of the sign-in that
  was started; a row that was moved, signed out or signed in again since, and came back or not, keeps what it has. A callback
  that fails writes nothing. One that reports success had such a row to write to and left there the tokens that the provider gave, unless the row
  it had read held these very tokens and there was nothing to write.\<close>

theorem callback_finishes_its_sign_in:
  assumes "exchange_upstream_code e m oauth authorization_code granted now d = (s, d', r)"
  shows "list_all2 (\<lambda>row row'. row' = row \<or> row_of_sign_in m oauth row) (rows (mcps d)) (rows (mcps d')) \<and>
    (case r of
       Inl err \<Rightarrow> d' = d
     | Inr _ \<Rightarrow> \<exists>tokens. provider_gave e m oauth authorization_code tokens
         \<and> (d' = d \<and> holds_tokens e tokens m
            \<or> (\<exists>row \<in> set (rows (mcps d)). \<exists>row' \<in> set (rows (mcps d')).
                 row_of_sign_in m oauth row \<and> mcp_id row' = mcp_id m \<and> holds_tokens e tokens row')))"
  using assms
proof (cases rule: exchanged_step)
  case nothing
  then show ?thesis by (auto simp: list.rel_refl_strong)
next
  case (saved m1 client)
  have client: "mcp_oauth_client_id m = Some (os_client_id oauth)" using client_of_mcp [OF saved(4)] saved(5) by simp
  have basis: "row_of_sign_in m oauth row" if "mcp_id row = mcp_id m" "oauth_basis row = oauth_basis m" for row
    using that(1) basis_columns [OF that(2)] by (simp add: row_of_sign_in_def client saved(3))
  have rows: "list_all2 (\<lambda>row row'. row' = row \<or> row_of_sign_in m oauth row) (rows (mcps d)) (rows (mcps d'))"
    using saved_step(2) [OF saved(1,2)] by (rule list_all2_mono) (auto simp: wrote_def intro: basis)
  obtain tokens where tokens: "provider_gave e m oauth authorization_code tokens" "holds_tokens e tokens m1"
    using saved(6) by blast
  show ?thesis
  proof (cases r)
    case (Inl err)
    then show ?thesis using rows saved_step(3) [OF saved(1,2)] by simp
  next
    case (Inr u)
    have same: "holds_tokens e tokens row'" if "oauth_basis row' = oauth_basis m1" for row'
      using tokens(2) basis_columns [OF that] by (simp add: holds_tokens_def)
    have "save_oauth_step m m1 now d = (d', Inr ())" using saved(1) Inr by simp
    from saved_success [OF this saved(2)] tokens(2)
    have "d' = d \<and> holds_tokens e tokens m \<or> (\<exists>row \<in> set (rows (mcps d)). \<exists>row' \<in> set (rows (mcps d')).
        row_of_sign_in m oauth row \<and> mcp_id row' = mcp_id m \<and> holds_tokens e tokens row')"
      using basis same by blast
    then show ?thesis using rows tokens(1) Inr by auto
  qed
qed

definition keeps_provider :: "upstream_env \<Rightarrow> Mcp \<Rightarrow> Mcp \<Rightarrow> bool" where
  "keeps_provider e m r \<longleftrightarrow>
     mcp_oauth_client_id r = mcp_oauth_client_id m \<and> mcp_oauth_client_secret r = mcp_oauth_client_secret m
     \<and> (case saved_issuer e m of
          Inr (Some previous) \<Rightarrow>
            comparable_oauth_issuer e previous ''OAuth issuer''
              = comparable_oauth_issuer e (text_or_empty (mcp_oauth_issuer r)) ''OAuth authorization server''
        | _ \<Rightarrow> True)"

definition signed_out :: "int \<Rightarrow> Mcp \<Rightarrow> bool" where
  "signed_out drawn r \<longleftrightarrow>
     filled_text (mcp_oauth_access_token r) = None \<and> filled_text (mcp_oauth_refresh_token r) = None \<and> mcp_oauth_generation r = drawn"

lemma configured_columns:
  assumes "save_oauth_configuration e m ctx client redirect registered = Inr m1"
  shows "mcp_oauth_access_token m1 = mcp_oauth_access_token m" "mcp_oauth_refresh_token m1 = mcp_oauth_refresh_token m"
    "mcp_oauth_generation m1 = mcp_oauth_generation m" "mcp_oauth_client_id m1 = Some (ci_client_id client)"
    "\<not> registered \<Longrightarrow> mcp_oauth_client_secret m1 = mcp_oauth_client_secret m"
    "mcp_oauth_issuer m1 = Some (oc_authorization_server_url ctx)"
  using assms by (auto simp: save_oauth_configuration_def and_then_eq_Inr)

lemma forgotten_signed_out:
  assumes "save_oauth_configuration e (forget_oauth_tokens n m) ctx client redirect registered = Inr m1"
  shows "signed_out n m1"
  using configured_columns(1-3) [OF assms]
  by (auto simp: signed_out_def forget_oauth_tokens_def renew_oauth_generation_def Let_def filled_text_def split: if_split_asm)

lemma kept_keeps_provider:
  assumes "save_oauth_configuration e m ctx client redirect False = Inr m1" and "issuer_changed e m ctx = Inr False"
    and "client_information_from_mcp e m = Some client"
  shows "keeps_provider e m m1"
  using configured_columns(4-6) [OF assms(1)] client_of_mcp [OF assms(3)] assms(2)
  by (auto simp: keeps_provider_def issuer_changed_def and_then_eq_Inr text_or_empty_def split: sum.split option.split)

lemma prepared_provider:
  assumes "prepare_oauth_flow e dr m = (s, Inr (m1, start, url))"
  shows "signed_out (dr_generation dr) m1 \<or> keeps_provider e m m1"
  using assms
proof (cases rule: prepared_flow)
  case (1 ctx client registered moved redirect)
  then show ?thesis
    by (cases "registered \<or> moved") (auto dest: forgotten_signed_out kept_keeps_provider)
qed

text \<open>C9: Tokens stay with the provider that issued them. An MCP names its provider in documents it serves, so a new start may
  find another one. After a start, the row it wrote either has the client and the provider the MCP had before, or it has no tokens
  and a new generation, which also ends every sign-in begun with the old ones. A token kept is never sent to a token
  endpoint of another provider.\<close>

theorem tokens_stay_with_their_provider:
  assumes "start_oauth_flow e dr session m now d = (s, session', d', r)"
  shows "list_all2 (\<lambda>row row'. row' = row \<or> signed_out (dr_generation dr) row' \<or> keeps_provider e m row') (rows (mcps d)) (rows (mcps d'))"
  using assms
proof (cases rule: started_step)
  case nothing
  then show ?thesis by (simp add: list.rel_refl_strong)
next
  case (saved m1 start url r')
  have as_m1: "signed_out (dr_generation dr) row \<or> keeps_provider e m row" if "oauth_basis row = oauth_basis m1" for row
    using prepared_provider [OF saved(1)]
    unfolding signed_out_def keeps_provider_def basis_columns [OF that] .
  show ?thesis
    using saved_step(2) [OF saved(2) prepared_signs_in [OF saved(1)]]
    by (rule list_all2_mono) (use as_m1 in \<open>unfold wrote_def, blast\<close>)
qed

section \<open>Pending authorizations stay few and small\<close>

lemma make_room_dropped:
  assumes "count = length starts + 1" and "bytes = extra + sum_list (map snd starts)"
  shows "\<exists>dropped kept. starts = dropped @ kept \<and> make_room starts count bytes session = filter (\<lambda>m. fst m \<notin> fst ` set dropped) session
    \<and> (kept = [] \<or> length kept + 1 \<le> MAX_PENDING_OAUTH_STARTS \<and> extra + sum_list (map snd kept) \<le> MAX_PENDING_OAUTH_START_BYTES)"
  using assms
proof (induction starts arbitrary: count bytes session)
  case (Cons x starts)
  obtain entry weight where x: "x = (entry, weight)" by fastforce
  show ?case
  proof (cases "count \<le> MAX_PENDING_OAUTH_STARTS \<and> bytes \<le> MAX_PENDING_OAUTH_START_BYTES")
    case True
    then show ?thesis using Cons.prems x by (intro exI [of _ "[]"] exI [of _ "x # starts"]) simp
  next
    case False
    have fewer: "count - 1 = length starts + 1" "bytes - weight = extra + sum_list (map snd starts)"
      using Cons.prems x by simp_all
    obtain dropped kept where d: "starts = dropped @ kept"
        "make_room starts (count - 1) (bytes - weight) (session_forget entry session)
           = filter (\<lambda>m. fst m \<notin> fst ` set dropped) (session_forget entry session)"
        "kept = [] \<or> length kept + 1 \<le> MAX_PENDING_OAUTH_STARTS \<and> extra + sum_list (map snd kept) \<le> MAX_PENDING_OAUTH_START_BYTES"
      using Cons.IH [OF fewer] by blast
    have "make_room (x # starts) count bytes session = filter (\<lambda>m. fst m \<notin> fst ` set (x # dropped)) session"
      using False x d(2) by (auto simp: session_forget_def conj_commute intro!: filter_cong)
    then show ?thesis using d(1,3) by (intro exI [of _ "x # dropped"] exI [of _ kept]) simp
  qed
qed auto

definition start_weights :: "(Value \<Rightarrow> string) \<Rightarrow> session \<Rightarrow> nat list" where
  "start_weights print session = map snd (pending_starts print session)"

lemma start_weights_eq:
  assumes "distinct (map fst session)"
  shows "start_weights print session = map (\<lambda>m. session_weight print (fst m) (Some (snd m))) (filter (is_pending_key \<circ> fst) session)"
  using assms
  by (auto simp: start_weights_def pending_starts_def session_keys_def session_get_def filter_map comp_def)

lemma pending_starts_split:
  assumes "distinct (map fst session)" and "pending_starts print session = dropped @ kept"
  shows "pending_starts print (filter (\<lambda>m. fst m \<notin> fst ` set dropped) session) = kept"
proof -
  define weigh where "weigh = (\<lambda>m. (fst m, session_weight print (fst m) (Some (snd m))))"
  have eq: "pending_starts print xs = map weigh (filter (is_pending_key \<circ> fst) xs)" if "distinct (map fst xs)" for xs
    using that by (auto simp: pending_starts_def session_keys_def session_get_def filter_map comp_def weigh_def)
  have keys: "map fst (filter (is_pending_key \<circ> fst) session) = map fst dropped @ map fst kept"
    using arg_cong [OF assms(2), of "map fst"] eq [OF assms(1)] by (simp add: weigh_def comp_def)
  then have apart: "fst ` set kept \<inter> fst ` set dropped = {}"
    using distinct_map_filter [OF assms(1), of "is_pending_key \<circ> fst"] by (auto simp flip: set_map)
  have "pending_starts print (filter (\<lambda>m. fst m \<notin> fst ` set dropped) session)
      = filter (\<lambda>x. fst x \<notin> fst ` set dropped) (map weigh (filter (is_pending_key \<circ> fst) session))"
    by (subst eq) (auto simp: distinct_map_filter [OF assms(1)] filter_map comp_def weigh_def conj_commute)
  also have "\<dots> = filter (\<lambda>x. fst x \<notin> fst ` set dropped) (dropped @ kept)"
    using assms eq by simp
  also have "\<dots> = kept"
  proof -
    have "filter (\<lambda>x. fst x \<notin> fst ` set dropped) dropped = []" by (simp add: filter_empty_conv)
    moreover have "filter (\<lambda>x. fst x \<notin> fst ` set dropped) kept = kept" using apart by (intro filter_True) blast
    ultimately show ?thesis by simp
  qed
  finally show ?thesis .
qed

lemma is_pending_session_key: "is_pending_key (oauth_session_key t)"
  by (simp add: is_pending_key_def oauth_session_key_def)

lemma distinct_put:
  assumes "distinct (map fst session)"
  shows "distinct (map fst (session_put key v session))"
proof (cases "key \<in> fst ` set session")
  case True
  have "map fst (map (\<lambda>m. if fst m = key then (key, v) else m) session) = map fst session"
    by (induction session) auto
  then show ?thesis using assms True by (simp only: session_put_def set_member_def if_True)
next
  case False
  then show ?thesis using assms by (simp add: session_put_def set_member_def)
qed

lemma put_weights:
  assumes "distinct (map fst session)" and "is_pending_key key"
  shows "length (start_weights print (session_put key v session)) \<le> length (start_weights print session) + 1
    \<and> sum_list (start_weights print (session_put key v session)) \<le> sum_list (start_weights print session) + session_weight print key (Some v)"
proof (cases "key \<in> fst ` set session")
  case False
  then show ?thesis
    using assms by (simp add: start_weights_eq distinct_put) (simp add: session_put_def set_member_def)
next
  case True
  define replaced where "replaced = map (\<lambda>m. if fst m = key then (key, v) else m)"
  have "length (filter (is_pending_key \<circ> fst) (replaced xs)) = length (filter (is_pending_key \<circ> fst) xs)" for xs
    by (induction xs) (auto simp: replaced_def)
  moreover have "sum_list (map (\<lambda>m. session_weight print (fst m) (Some (snd m))) (filter (is_pending_key \<circ> fst) (replaced xs)))
      \<le> sum_list (map (\<lambda>m. session_weight print (fst m) (Some (snd m))) (filter (is_pending_key \<circ> fst) xs)) + session_weight print key (Some v)"
    if "distinct (map fst xs)" for xs
    using that
  proof (induction xs)
    case (Cons x xs)
    have "replaced xs = xs" if "fst x = key"
      using Cons.prems that unfolding replaced_def by (intro map_idI) (use image_iff in fastforce)
    then show ?case using Cons by (auto simp: replaced_def)
  qed (simp add: replaced_def)
  ultimately show ?thesis
    using assms True distinct_put [OF assms(1), of key v]
    by (simp add: start_weights_eq session_put_def set_member_def replaced_def)
qed

lemma started_session:
  assumes "distinct (map fst session)" and "start_oauth_session print session m start = (session', oauth)"
  obtains session1 kept where "session' = session_put (oauth_session_key (st_state start)) (session_payload m start) session1"
    "distinct (map fst session1)" "pending_starts print session1 = kept"
    "kept = [] \<or> length kept + 1 \<le> MAX_PENDING_OAUTH_STARTS
      \<and> session_weight print (oauth_session_key (st_state start)) (Some (session_payload m start)) + sum_list (map snd kept) \<le> MAX_PENDING_OAUTH_START_BYTES"
proof -
  let ?w = "session_weight print (oauth_session_key (st_state start)) (Some (session_payload m start))"
  let ?starts = "pending_starts print session"
  obtain dropped kept where d: "?starts = dropped @ kept"
      "make_room ?starts (length ?starts + 1) (?w + sum_list (map snd ?starts)) session = filter (\<lambda>m. fst m \<notin> fst ` set dropped) session"
      "kept = [] \<or> length kept + 1 \<le> MAX_PENDING_OAUTH_STARTS \<and> ?w + sum_list (map snd kept) \<le> MAX_PENDING_OAUTH_START_BYTES"
    using make_room_dropped [of _ ?starts _ ?w session, OF refl refl] by blast
  have "session' = session_put (oauth_session_key (st_state start)) (session_payload m start) (filter (\<lambda>m. fst m \<notin> fst ` set dropped) session)"
    using assms(2) d(2) by (simp add: start_oauth_session_def Let_def)
  then show ?thesis
    using that pending_starts_split [OF assms(1) d(1)] d(3) distinct_map_filter [OF assms(1)] by blast
qed

text \<open>A browser session holds few pending sign-ins. However many are started and abandoned, a session never has more than five,
  and they never take more than 1536 bytes unless the one just started does so alone, so that the cookie that carries the
  session is not lost. The keys of a session stay distinct.\<close>

theorem pending_sign_ins_bounded:
  assumes "distinct (map fst session)" and "start_oauth_session print session m start = (session', oauth)"
  shows "distinct (map fst session') \<and> length (start_weights print session') \<le> MAX_PENDING_OAUTH_STARTS
    \<and> (sum_list (start_weights print session') \<le> MAX_PENDING_OAUTH_START_BYTES \<or> length (start_weights print session') \<le> 1)"
  using assms
proof (cases rule: started_session)
  case (1 session1 kept)
  have "length (start_weights print session') \<le> length kept + 1
      \<and> sum_list (start_weights print session') \<le> sum_list (map snd kept)
          + session_weight print (oauth_session_key (st_state start)) (Some (session_payload m start))"
    using put_weights [OF 1(2) is_pending_session_key, of print "st_state start" "session_payload m start"]
    unfolding start_weights_def 1(1,3) length_map by (simp add: add.commute)
  then show ?thesis
    using 1(4) distinct_put [OF 1(2)] 1(1) by (auto simp: MAX_PENDING_OAUTH_STARTS_def)
qed

lemma put_get: "session_get (session_put key v session) key = Some v"
proof (cases "key \<in> fst ` set session")
  case True
  then have "map_of (map (\<lambda>m. if fst m = key then (key, v) else m) session) key = Some v"
    by (induction session) auto
  then show ?thesis using True by (simp add: session_put_def set_member_def session_get_def)
next
  case False
  then have "map_of session key = None" by (simp add: map_of_eq_None_iff)
  then show ?thesis using False by (simp add: session_put_def set_member_def session_get_def map_add_def)
qed

text \<open>What a start puts in the session passes the validator that reads it back.\<close>

definition start_ok :: "vine_checks \<Rightarrow> OauthStart \<Rightarrow> bool" where
  "start_ok vc start \<longleftrightarrow>
     (case st_code_verifier start of None \<Rightarrow> True | Some t \<Rightarrow> 1 \<le> utf16_len t) \<and> 1 \<le> utf16_len (st_state start)
     \<and> vc_url vc (st_redirect_uri start) \<and> vc_url vc (st_authorization_server_url start)
     \<and> (case st_resource start of None \<Rightarrow> True | Some t \<Rightarrow> vc_url vc t) \<and> 1 \<le> utf16_len (st_client_id start)"

lemma payload_read_back:
  assumes "\<And>n. vc_number vc (JNumber n) = Some n" and "start_ok vc start"
  shows "validate_oauth_session vc (Some (session_payload m start)) =
    Some \<lparr>os_mcp_id = mcp_id m, os_code_verifier = st_code_verifier start, os_state = st_state start, os_redirect_uri = st_redirect_uri start,
      os_authorization_server_url = st_authorization_server_url start, os_resource = st_resource start, os_client_id = st_client_id start,
      os_generation = mcp_oauth_generation m\<rparr>"
  using assms(2)
  by (cases "st_code_verifier start"; cases "st_resource start")
    (simp_all add: validate_oauth_session_def session_payload_def json_get_def assms(1) opt_member_def session_text_def url_member_def
      start_ok_def not_less_eq_eq)

text \<open>A callback finds its start. The sign-in that was started last is read back from the session by its state exactly as it was
  started, with the MCP, the client and the generation it belongs to, whatever else the session held.\<close>

theorem callback_finds_its_start:
  assumes "\<And>n. vc_number vc (JNumber n) = Some n" and "start_ok vc start"
    and "distinct (map fst session)" and "start_oauth_session print session m start = (session', oauth)"
  shows "read_oauth_session vc session' (Some (st_state start)) = Some oauth"
  using assms(3,4)
proof (cases rule: started_session)
  case (1 session1 kept)
  have "filled_text (Some (st_state start)) = Some (st_state start)"
    using assms(2) by (auto simp: start_ok_def filled_text_def utf16_len_def)
  then have "read_oauth_session vc session' (Some (st_state start)) = validate_oauth_session vc (Some (session_payload m start))"
    using 1(1) by (simp add: read_oauth_session_def put_get)
  also have "\<dots> = Some oauth"
    using payload_read_back [OF assms(1,2)] assms(4) by (auto simp: start_oauth_session_def Let_def)
  finally show ?thesis .
qed

section \<open>Where the requests of a flow go\<close>

text \<open>The same URL operations everywhere, and a fetcher as the application builds it.\<close>

definition upstream_env_ok :: "upstream_env \<Rightarrow> bool" where
  "upstream_env_ok e \<longleftrightarrow>
     url_ops_ok (ao_urls (ue_ops e)) \<and> (\<forall>n. fe_ops (ue_network e n) = ao_urls (ue_ops e)) \<and> plain (ue_fetcher e)"

text \<open>
  A hop goes to public addresses, or is within the origin of an address on the own host of the MCP, or the MCP was found in a
  restricted network itself.
\<close>

definition hop_allowed :: "upstream_env \<Rightarrow> GuardState \<Rightarrow> SentRequest \<times> departure option \<Rightarrow> bool" where
  "hop_allowed e g hop \<longleftrightarrow>
     public_way (snd hop) \<or> mcp_is_restricted g = Some True
     \<or> (\<exists>url. host_or_default url = mcp_hostname g \<and> ue_origin e url = ue_origin e (sr_url (fst hop)))"

definition sound_flow :: "upstream_env \<Rightarrow> flow \<Rightarrow> bool" where
  "sound_flow e s \<longleftrightarrow>
     (case fl_guard s of
        None \<Rightarrow> list_all (public_way \<circ> snd) (fl_trace s)
      | Some g \<Rightarrow> list_all (hop_allowed e g) (fl_trace s))"

text \<open>Without a guard the transport itself is held to public addresses.\<close>

definition held_transport :: "Transport \<Rightarrow> flow \<Rightarrow> bool" where
  "held_transport t s \<longleftrightarrow> plain t \<and> (fl_guard s = None \<longrightarrow> (\<exists>t0. plain t0 \<and> t = public_only t0))"

definition keeps_public :: "upstream_env \<Rightarrow> Transport \<Rightarrow> flow \<Rightarrow> bool" where
  "keeps_public e t s \<longleftrightarrow> (upstream_env_ok e \<longrightarrow> held_transport t s \<and> sound_flow e s)"

lemma plain_public_only: "plain t \<Longrightarrow> plain (public_only t)"
  by (induction t) simp_all

text \<open>The guard never forgets what it found of the MCP.\<close>

definition guard_grows :: "GuardState \<Rightarrow> GuardState \<Rightarrow> bool" where
  "guard_grows g g1 \<longleftrightarrow> mcp_hostname g1 = mcp_hostname g \<and> (mcp_is_restricted g = Some True \<longrightarrow> mcp_is_restricted g1 = Some True)"

lemma hop_allowed_grows: "guard_grows g g1 \<Longrightarrow> list_all (hop_allowed e g) trail \<Longrightarrow> list_all (hop_allowed e g1) trail"
  by (auto simp: guard_grows_def hop_allowed_def list_all_iff)

lemma mcp_verdict_grows: "mcp_verdict lookup g = (g1, b) \<Longrightarrow> guard_grows g g1 \<and> mcp_is_restricted g1 = Some b"
  by (auto simp: mcp_verdict_def guard_grows_def Let_def split: option.split_asm)

lemma asserted_guard_grows: "assert_allowed lookup lookup' g target label = (g1, r) \<Longrightarrow> guard_grows g g1"
proof -
  assume run: "assert_allowed lookup lookup' g target label = (g1, r)"
  obtain g2 b where v: "mcp_verdict lookup g = (g2, b)" by fastforce
  then have "guard_grows g g2" using mcp_verdict_grows by blast
  then show ?thesis
    using run v by (auto simp: assert_allowed_def Let_def guard_grows_def split: if_split_asm)
qed

lemma must_be_public_grows:
  assumes "must_be_public lookup g target = (g1, b)"
  shows "guard_grows g g1" "\<not> b \<Longrightarrow> host_or_default target = mcp_hostname g1 \<or> mcp_is_restricted g1 = Some True"
  using assms mcp_verdict_grows [of lookup g]
  by (auto simp: must_be_public_def guard_grows_def split: if_split_asm prod.split_asm)

lemma check_endpoint_sound:
  "sound_flow e s \<Longrightarrow> sound_flow e (fst (check_endpoint e s target label))"
  "fl_guard (fst (check_endpoint e s target label)) = None \<longleftrightarrow> fl_guard s = None"
  by (auto simp: check_endpoint_def sound_flow_def dest!: asserted_guard_grows intro: hop_allowed_grows split: option.split prod.split)


text \<open>One fetch of a flow that is held.\<close>

lemma hops_public:
  assumes "upstream_env_ok e" and "plain t0" and "t = public_only t0"
    and "fetch_with_same_origin_redirects (ue_network e n) t request label limits = (trail, answer)"
  shows "list_all (public_way \<circ> snd) trail"
proof -
  have "url_ops_ok (fe_ops (ue_network e n))" using assms(1) by (simp add: upstream_env_ok_def)
  from fetch_trace [OF this assms(4)] public_only_way [OF assms(2)] assms(3)
  show ?thesis by (auto simp: list_all_iff)
qed

lemma hops_on_origin:
  assumes "upstream_env_ok e"
    and "fetch_with_same_origin_redirects (ue_network e n) t request label limits = (trail, answer)"
  shows "list_all (\<lambda>hop. ue_origin e (sr_url (fst hop)) = ue_origin e (fr_url request)) trail"
proof -
  have "url_ops_ok (fe_ops (ue_network e n))" "fe_ops (ue_network e n) = ao_urls (ue_ops e)"
    using assms(1) by (simp_all add: upstream_env_ok_def)
  with fetch_trace [OF this(1) assms(2)]
  show ?thesis by (auto simp: list_all_iff sound_sent_def sound_hop_def)
qed

lemma public_question_sound:
  assumes "endpoint_must_be_public e s target = (s1, public)" and "sound_flow e s"
  shows "sound_flow e s1" "fl_guard s1 = None \<longleftrightarrow> fl_guard s = None"
    "fl_guard s1 = None \<Longrightarrow> \<not> public"
    "fl_guard s1 = Some g \<Longrightarrow> \<not> public \<Longrightarrow> host_or_default target = mcp_hostname g \<or> mcp_is_restricted g = Some True"
proof -
  have "sound_flow e s1 \<and> (fl_guard s1 = None \<longleftrightarrow> fl_guard s = None) \<and> (fl_guard s1 = None \<longrightarrow> \<not> public)
    \<and> (\<forall>g. fl_guard s1 = Some g \<longrightarrow> \<not> public \<longrightarrow> host_or_default target = mcp_hostname g \<or> mcp_is_restricted g = Some True)"
  proof (cases "fl_guard s")
    case None
    then show ?thesis using assms by (auto simp: endpoint_must_be_public_def sound_flow_def)
  next
    case (Some g0)
    obtain g1 b where m: "must_be_public (ue_lookup e (fl_moment s)) g0 target = (g1, b)" by fastforce
    then have "s1 = s\<lparr>fl_guard := Some g1, fl_moment := fl_moment s + 1\<rparr>" "public = b"
      using assms(1) Some by (simp_all add: endpoint_must_be_public_def)
    then show ?thesis
      using must_be_public_grows [OF m] assms(2) Some by (auto simp: sound_flow_def intro: hop_allowed_grows)
  qed
  then show "sound_flow e s1" "fl_guard s1 = None \<longleftrightarrow> fl_guard s = None" "fl_guard s1 = None \<Longrightarrow> \<not> public"
    "fl_guard s1 = Some g \<Longrightarrow> \<not> public \<Longrightarrow> host_or_default target = mcp_hostname g \<or> mcp_is_restricted g = Some True"
    by blast+
qed

lemma fetched_hops_sound:
  assumes "upstream_env_ok e" and "held_transport t s" and "sound_flow e s"
    and "\<And>g. fl_guard s = Some g \<Longrightarrow> \<not> public \<Longrightarrow> host_or_default (fr_url request) = mcp_hostname g \<or> mcp_is_restricted g = Some True"
    and "fetch_with_same_origin_redirects (ue_network e n) (if public then public_only t else t) request label limits = (trail, answer)"
  shows "sound_flow e (s\<lparr>fl_moment := k, fl_trace := fl_trace s @ trail\<rparr>)"
proof (cases "fl_guard s")
  case None
  then obtain t0 where t0: "plain t0" "t = public_only t0" using assms(2) by (auto simp: held_transport_def)
  then have "list_all (public_way \<circ> snd) trail"
    using hops_public [OF assms(1) _ _ assms(5)] plain_public_only by (cases public) auto
  then show ?thesis using None assms(3) by (simp add: sound_flow_def)
next
  case (Some g)
  have "list_all (hop_allowed e g) trail"
  proof (cases public)
    case True
    then show ?thesis
      using hops_public [OF assms(1) _ _ assms(5)] assms(2) by (auto simp: hop_allowed_def list_all_iff held_transport_def)
  next
    case False
    then show ?thesis
      using hops_on_origin [OF assms(1,5)] assms(4) [OF Some] by (fastforce simp: hop_allowed_def list_all_iff)
  qed
  then show ?thesis using Some assms(3) by (simp add: sound_flow_def)
qed

lemma oauth_fetch_guard: "fl_guard (fst (oauth_fetch e t s request)) = None \<longleftrightarrow> fl_guard s = None"
  by (cases "check_endpoint e s (hr_url request) ''OAuth endpoint''")
    (use check_endpoint_sound(2) [of e s "hr_url request" "''OAuth endpoint''"] in
      \<open>auto simp: oauth_fetch_def map_failure_def Let_def go_on_def endpoint_must_be_public_def split: sum.split prod.split option.split\<close>)

lemma oauth_fetch_sound:
  assumes "upstream_env_ok e" and "held_transport t s" and "sound_flow e s"
  shows "sound_flow e (fst (oauth_fetch e t s request))"
proof -
  obtain s1 r where c: "check_endpoint e s (hr_url request) ''OAuth endpoint'' = (s1, r)" by fastforce
  have s1: "sound_flow e s1" "fl_guard s1 = None \<longleftrightarrow> fl_guard s = None"
    using check_endpoint_sound [of e s "hr_url request" "''OAuth endpoint''"] assms(3) c by simp_all
  obtain s2 public where p: "endpoint_must_be_public e s1 (hr_url request) = (s2, public)" by fastforce
  note s2 = public_question_sound [OF p s1(1)]
  have held: "held_transport t s2" using assms(2) s1(2) s2(2) by (simp add: held_transport_def)
  let ?request = "\<lparr>fr_method = hr_method request, fr_url = hr_url request,
    fr_headers = with_identity e (hr_url request) (hr_headers request),
    fr_body = (if hr_method request \<noteq> ''GET'' \<and> hr_method request \<noteq> ''HEAD'' then Some (hr_body request) else None), fr_timeout = None\<rparr>"
  obtain trail answer where f: "fetch_with_same_origin_redirects (ue_network e (fl_moment s2)) (if public then public_only t else t) ?request
      ''OAuth endpoint'' \<lparr>max_response_bytes = Some MAX_OAUTH_RESPONSE_BYTES, max_error_response_bytes = None\<rparr> = (trail, answer)"
    by fastforce
  have "sound_flow e (s2\<lparr>fl_moment := fl_moment s2 + 1, fl_trace := fl_trace s2 @ trail\<rparr>)"
    using fetched_hops_sound [OF assms(1) held s2(1) _ f] s2(4) by simp
  then show ?thesis
    using s1(1) by (cases r) (simp_all add: oauth_fetch_def c map_failure_def p f Let_def)
qed

interpretation oauth: http_fetch "oauth_fetch e t" "keeps_public e t" for e t
proof
  fix s request
  assume "keeps_public e t s"
  then show "keeps_public e t (fst (oauth_fetch e t s request))"
    using oauth_fetch_sound [of e t s request] oauth_fetch_guard [of e t s request]
    by (simp add: keeps_public_def held_transport_def)
qed




















section \<open>One renewal of an MCP at a time\<close>

definition renewals_ok :: "renewals \<Rightarrow> bool" where
  "renewals_ok s \<longleftrightarrow>
     distinct (map snd (rn_running s)) \<and> (\<forall>i task. rn_entries s i = Some task \<longleftrightarrow> (task, i) \<in> set (rn_running s))
     \<and> (\<forall>x. x \<in> set (rn_running s @ rn_ending s) \<longrightarrow> fst x < rn_next s)
     \<and> set (rn_running s) \<inter> set (rn_ending s) = {}
     \<and> set (rn_waiting s) \<subseteq> set (rn_running s) \<union> set (rn_ending s)"

lemma asked_ok:
  assumes "renewals_ok s" and "pending_refresh i s = (s', task, fresh)"
  shows "renewals_ok s'"
proof (cases "rn_entries s i")
  case None
  then have s': "s' = s\<lparr>rn_entries := (rn_entries s)(i \<mapsto> rn_next s), rn_running := rn_running s @ [(rn_next s, i)],
      rn_waiting := rn_waiting s @ [(rn_next s, i)], rn_next := rn_next s + 1\<rparr>"
    using assms(2) by (auto simp: pending_refresh_def)
  have none: "(t, i) \<notin> set (rn_running s)" for t
    using assms(1) None unfolding renewals_ok_def by (metis option.distinct(1))
  then have "i \<notin> snd ` set (rn_running s)" by auto
  moreover have "(rn_next s, j) \<notin> set (rn_ending s)" for j using assms(1) by (fastforce simp: renewals_ok_def)
  ultimately show ?thesis
    using assms(1) none unfolding s' renewals_ok_def by (auto simp: less_Suc_eq)
next
  case (Some t)
  then show ?thesis using assms by (auto simp: renewals_ok_def pending_refresh_def)
qed

lemma released_ok:
  assumes "renewals_ok s" and "(task, i) \<in> set (rn_running s)"
  shows "renewals_ok (release_refresh task i s)"
proof -
  have entries: "rn_entries s j = Some t \<longleftrightarrow> (t, j) \<in> set (rn_running s)" for j t
    using assms(1) by (simp add: renewals_ok_def)
  then have only: "t = task" if "(t, i) \<in> set (rn_running s)" for t
    using assms(2) that by (metis option.inject)
  have "((rn_entries s)(i := None)) j = Some t \<longleftrightarrow> (t, j) \<in> set (filter (\<lambda>x. x \<noteq> (task, i)) (rn_running s))" for j t
    using only by (cases "j = i") (auto simp: entries)
  moreover have "distinct (map snd (filter (\<lambda>x. x \<noteq> (task, i)) (rn_running s)))"
    using assms(1) by (auto simp: renewals_ok_def intro: distinct_map_filter)
  moreover have "\<forall>x. x \<in> set (rn_running s @ rn_ending s) \<longrightarrow> fst x < rn_next s" "set (rn_running s) \<inter> set (rn_ending s) = {}"
      "set (rn_waiting s) \<subseteq> set (rn_running s) \<union> set (rn_ending s)"
    using assms(1) by (simp_all add: renewals_ok_def)
  ultimately show ?thesis
    unfolding renewals_ok_def release_refresh_def using assms(2) by (simp del: fun_upd_apply) blast
qed

lemma told_ok:
  assumes "renewals_ok s" and "(task, i) \<in> set (rn_ending s)"
  shows "renewals_ok (tell_refresh task i s)"
  using assms by (auto simp: renewals_ok_def tell_refresh_def)

lemma renewals_reached: "renewal_step\<^sup>*\<^sup>* no_renewals s \<Longrightarrow> renewals_ok s"
proof (induction rule: rtranclp_induct)
  case base
  show ?case by (simp add: renewals_ok_def no_renewals_def)
next
  case (step s s')
  from step(2) step.IH show ?case by cases (auto intro: asked_ok released_ok told_ok)
qed

text \<open>C27: The tokens of an MCP are renewed once at a time. Whatever calls and ends of renewals interleave, no two renewals of one
  MCP run together, so a refresh token is not spent twice; and no caller waits for nothing: what it waits for runs, or is about to
  tell it how it went.\<close>

theorem one_renewal_at_a_time:
  assumes "renewal_step\<^sup>*\<^sup>* no_renewals s"
  shows "distinct (map snd (rn_running s)) \<and> set (rn_waiting s) \<subseteq> set (rn_running s) \<union> set (rn_ending s)"
  using renewals_reached [OF assms] by (simp add: renewals_ok_def)

theorem one_renewal_at_a_time_witness:
  "renewal_step\<^sup>*\<^sup>* no_renewals (fst (pending_refresh 7 (fst (pending_refresh 7 no_renewals)))) \<and>
   map snd (rn_running (fst (pending_refresh 7 (fst (pending_refresh 7 no_renewals))))) = [7] \<and>
   distinct (map snd (rn_running (fst (pending_refresh 7 (fst (pending_refresh 7 no_renewals))))))"
proof -
  have step: "renewal_step s (fst (pending_refresh i s))" for i s
    by (cases "pending_refresh i s") (auto intro: asked)
  have reach: "renewal_step\<^sup>*\<^sup>* no_renewals (fst (pending_refresh 7 (fst (pending_refresh 7 no_renewals))))"
    using step by (meson converse_rtranclp_into_rtranclp r_into_rtranclp)
  moreover have "map snd (rn_running (fst (pending_refresh 7 (fst (pending_refresh 7 no_renewals))))) = [7]"
    by (simp add: pending_refresh_def no_renewals_def)
  ultimately show ?thesis using one_renewal_at_a_time [OF reach] by simp
qed

section \<open>A sign-in at work\<close>

text \<open>A provider on the host of the MCP that answers no discovery, with endpoints that were entered by hand.\<close>

definition sample_web_url :: "string \<Rightarrow> Url" where
  "sample_web_url p = \<lparr>url_text = ''https://m.example'' @ p, scheme = ''https'', host_str = Some ''m.example'',
     path = (if p = [] then ''/'' else p), query = None, fragment = None, username = [], url_password = None\<rparr>"

definition sample_web_ops :: url_ops where
  "sample_web_ops = \<lparr>uo_join = (\<lambda>_ p. Some (sample_web_url p)), uo_origin = (\<lambda>u. scheme u @ ''://m.example''),
     uo_host = (\<lambda>_. Some (HostDomain ''m.example'')), uo_port = (\<lambda>_. None), uo_port_or_known_default = (\<lambda>_. Some 443),
     uo_clear_credentials = (\<lambda>u. u\<lparr>username := [], url_password := None\<rparr>), uo_clear_fragment = id\<rparr>"

definition sample_auth_ops :: auth_ops where
  "sample_auth_ops = \<lparr>ao_urls = sample_web_ops,
     ao_parse = (\<lambda>t. if take 17 t = ''https://m.example'' then Some (sample_web_url (drop 17 t)) else None),
     ao_is_tuple = (\<lambda>_. True), ao_set_query = (\<lambda>u _. u), ao_set_https = id, ao_query_pairs = (\<lambda>_. []), ao_form = (\<lambda>_. []),
     ao_base64 = id, ao_challenge = id\<rparr>"

definition sample_docs :: documents where
  "sample_docs = \<lparr>doc_metadata = (\<lambda>_ _. Inl (JsonSyntax [])), doc_resource = (\<lambda>_. Inl (JsonSyntax [])), doc_tokens = (\<lambda>_. Inl (JsonSyntax [])),
     doc_client = (\<lambda>_. Inl (JsonSyntax [])), doc_error_response = (\<lambda>_. Inl []), doc_body_text = id\<rparr>"

definition sample_tokens :: OAuthTokens where
  "sample_tokens = \<lparr>tk_access_token = ''new'', tk_token_type = ''bearer'', tk_expires_in = None, tk_scope = None, tk_refresh_token = Some ''next''\<rparr>"

definition sample_network :: fetch_env where
  "sample_network = \<lparr>fe_ops = sample_web_ops, fe_base64 = id, fe_execute = (\<lambda>_ _. Inl ''down''), fe_lookup = (\<lambda>_ _. Inr []), fe_late = (\<lambda>_. False)\<rparr>"

definition sample_upstream :: upstream_env where
  "sample_upstream = \<lparr>ue_ops = sample_auth_ops, ue_docs = sample_docs, ue_print = (\<lambda>_. []), ue_set_path = (\<lambda>_ p. sample_web_url p),
     ue_config = \<lparr>app_url = Some ''https://m.example'', is_development = False, is_test = False\<rparr>,
     ue_network = (\<lambda>_. sample_network), ue_body_late = (\<lambda>_ _. False), ue_lookup = (\<lambda>_ _. Some []), ue_lookup_again = (\<lambda>_ _. Some []),
     ue_fetcher = Network, ue_tailnet = (\<lambda>_ _. Inl ''off''), ue_encrypt = id, ue_decrypt = Some, ue_describe = (\<lambda>_. []),
     ue_builtin = (\<lambda>_. Inl ''none''), ue_builtin_tokens = (\<lambda>_ _. Inr sample_tokens)\<rparr>"

definition sample_signed_in :: Mcp where
  "sample_signed_in = (sample_mcp 1 1 2)\<lparr>mcp_oauth_client_id := Some ''c'', mcp_oauth_authorize_url := Some ''https://m.example/a'',
     mcp_oauth_token_url := Some ''https://m.example/t'', mcp_oauth_refresh_token := Some ''old'', mcp_oauth_generation := 5\<rparr>"

definition sample_upstream_db :: "Mcp \<Rightarrow> db" where
  "sample_upstream_db m = sample_db\<lparr>mcps := \<lparr>rows = [m], seq = 1\<rparr>\<rparr>"

definition sample_draws :: draws where
  "sample_draws = \<lparr>dr_state = ''s'', dr_verifier = ''v'', dr_generation = 9\<rparr>"


lemmas sample_upstream_defs = sample_upstream_def sample_auth_ops_def sample_web_ops_def sample_network_def sample_docs_def


definition at_sample_host :: "flow \<Rightarrow> bool" where
  "at_sample_host s \<longleftrightarrow> (case fl_guard s of Some g \<Rightarrow> mcp_hostname g = ''m.example'' | None \<Rightarrow> False)"

lemma sample_fetch_fails:
  assumes "at_sample_host s" and "hr_method request = ''GET''" and "hr_url request = sample_web_url p"
  shows "\<exists>s'. oauth_fetch sample_upstream Network s request = (s', Inl (NetworkFailure (FetchFailure (TransportFailed ''down''))))
    \<and> at_sample_host s' \<and> fl_trace s' \<noteq> []"
proof -
  obtain g where g: "fl_guard s = Some g" "mcp_hostname g = ''m.example''"
    using assms(1) by (auto simp: at_sample_host_def split: option.split_asm)
  have port: "\<not> is_bad_port sample_web_ops (sample_web_url p)" by (simp add: is_bad_port_def sample_web_ops_def)
  have host: "host_or_default (sample_web_url p) = ''m.example''" by (simp add: host_or_default_def sample_web_url_def)
  have clean: "request_with_url_credentials sample_web_ops base64 (sample_web_url p) headers = (sample_web_url p, headers)" for base64 headers
    by (simp add: request_with_url_credentials_def sample_web_url_def)
  have "fetch_with_same_origin_redirects sample_network Network
      \<lparr>fr_method = ''GET'', fr_url = sample_web_url p, fr_headers = headers, fr_body = None, fr_timeout = None\<rparr> label limits
    = ([(\<lparr>sr_method = ''GET'', sr_url = sample_web_url p, sr_headers = headers, sr_body = None\<rparr>, Some Direct)], Inl (TransportFailed ''down''))"
    for headers label limits
    using port clean
    by (simp add: fetch_with_same_origin_redirects_def fetch_hops.simps [of _ _ _ _ _ "''GET''" "sample_web_url p"] sample_network_def
        direct_def)
  then show ?thesis
    using assms g host
    by (simp add: oauth_fetch_def check_endpoint_def endpoint_must_be_public_def assert_allowed_def must_be_public_def map_failure_def
        at_sample_host_def sample_upstream_def)
qed

lemma sample_cors_fails:
  assumes "at_sample_host s"
  shows "\<exists>s'. fetch_with_cors_retry ops (oauth_fetch sample_upstream Network) s (sample_web_url p) headers = (s', Inr None)
    \<and> at_sample_host s' \<and> fl_trace s' \<noteq> []"
proof -
  have once: "\<exists>s'. fetch_within_origin ops (oauth_fetch sample_upstream Network) s (get_request (sample_web_url p) h)
      = (s', Inl (NetworkFailure (FetchFailure (TransportFailed ''down'')))) \<and> at_sample_host s' \<and> fl_trace s' \<noteq> []"
    if "at_sample_host s" for s h
    using sample_fetch_fails [OF that, of "get_request (sample_web_url p) h" p]
    by (auto simp: fetch_within_origin_def fetch_followed.simps get_request_def)
  obtain s1 where s1: "fetch_within_origin ops (oauth_fetch sample_upstream Network) s (get_request (sample_web_url p) headers)
      = (s1, Inl (NetworkFailure (FetchFailure (TransportFailed ''down''))))" "at_sample_host s1"
    using once [OF assms] by blast
  then show ?thesis using once [OF s1(2), of "[]"] by (auto simp: fetch_with_cors_retry_def)
qed

lemma sample_locations_fail:
  "at_sample_host s \<Longrightarrow>
   \<exists>s'. try_locations ops docs (oauth_fetch sample_upstream Network) s (map (\<lambda>(p, doc). (sample_web_url p, doc)) locations) = (s', Inr None)
     \<and> at_sample_host s' \<and> (locations = [] \<or> fl_trace s' \<noteq> [])"
proof (induction locations arbitrary: s)
  case (Cons x locations)
  obtain p doc where x: "x = (p, doc)" by fastforce
  obtain s1 where s1: "fetch_with_cors_retry ops (oauth_fetch sample_upstream Network) s (sample_web_url p)
      [(''mcp-protocol-version'', LATEST_PROTOCOL_VERSION), (''accept'', ''application/json'')] = (s1, Inr None)"
      "at_sample_host s1" "fl_trace s1 \<noteq> []"
    using sample_cors_fails [OF Cons.prems] by blast
  obtain s2 where s2: "try_locations ops docs (oauth_fetch sample_upstream Network) s1 (map (\<lambda>(p, doc). (sample_web_url p, doc)) locations)
      = (s2, Inr None)" "at_sample_host s2" "locations = [] \<or> fl_trace s2 \<noteq> []"
    using Cons.IH [OF s1(2)] by blast
  have "fl_trace s2 \<noteq> []" using s2 s1 by (cases locations) auto
  then show ?case using s1 s2 x by (auto simp: map_failure_def)
qed simp

lemma sample_resolves:
  "resolve_reference sample_auth_ops (sample_web_url []) ''/.well-known/oauth-authorization-server''
     = Some (sample_web_url ''/.well-known/oauth-authorization-server'')"
  "resolve_reference sample_auth_ops (sample_web_url []) ''/.well-known/openid-configuration''
     = Some (sample_web_url ''/.well-known/openid-configuration'')"
  by code_simp+

lemma sample_metadata_fails:
  assumes "at_sample_host s" and "path (sample_web_url p) = ''/''"
  shows "\<exists>s'. discover_authorization_server_metadata sample_auth_ops docs (oauth_fetch sample_upstream Network) s (sample_web_url p) = (s', Inr None)
    \<and> at_sample_host s' \<and> fl_trace s' \<noteq> []"
proof -
  let ?locations = "[(''/.well-known/oauth-authorization-server'', OAuthDocument), (''/.well-known/openid-configuration'', OpenIdDocument)]"
  have ops: "ao_is_tuple sample_auth_ops u" "ao_parse sample_auth_ops (uo_origin (ao_urls sample_auth_ops) (sample_web_url p)) = Some (sample_web_url [])" for u p
    by (simp_all add: sample_auth_ops_def sample_web_ops_def sample_web_url_def)
  have urls: "build_discovery_urls sample_auth_ops (sample_web_url p) = Inr (map (\<lambda>(p, doc). (sample_web_url p, doc)) ?locations)"
    by (simp add: build_discovery_urls_def ops assms(2) location_at_def sample_resolves some_or_def ensure_def)
  obtain s' where "try_locations sample_auth_ops docs (oauth_fetch sample_upstream Network) s (map (\<lambda>(p, doc). (sample_web_url p, doc)) ?locations)
      = (s', Inr None)" "at_sample_host s'" "fl_trace s' \<noteq> []"
    using sample_locations_fail [OF assms(1), of sample_auth_ops docs ?locations] by blast
  then show ?thesis
    by (simp add: discover_authorization_server_metadata_def urls go_on_def del: list.map try_locations.simps)
qed

lemma sample_parts:
  "path (sample_web_url []) = ''/''" "path (sample_web_url ''/'') = ''/''" "path (sample_web_url ''/a'') = ''/a''"
  "path (sample_web_url ''/t'') = ''/t''"
  "has_no_search (sample_web_url p)" "username (sample_web_url p) = []" "password_of (sample_web_url p) = []"
  "url_text (sample_web_url p) = ''https://m.example'' @ p" "host_or_default (sample_web_url p) = ''m.example''"
  "uo_clear_credentials (ao_urls (ue_ops sample_upstream)) (sample_web_url p) = sample_web_url p"
  "ue_origin sample_upstream (sample_web_url p) = ''https://m.example''"
  "uo_origin (ao_urls sample_auth_ops) (sample_web_url p) = ''https://m.example''"
  by (simp_all add: sample_web_url_def has_no_search_def password_of_def host_or_default_def sample_upstream_defs)

lemma sample_web:
  "web_url sample_upstream ''https://m.example'' label = Inr (sample_web_url [])"
  "web_url sample_upstream ''https://m.example/'' label = Inr (sample_web_url ''/'')"
  "web_url sample_upstream ''https://m.example/mcp'' label = Inr (sample_web_url ''/mcp'')"
  "web_url sample_upstream ''https://m.example/a'' label = Inr (sample_web_url ''/a'')"
  "web_url sample_upstream ''https://m.example/t'' label = Inr (sample_web_url ''/t'')"
  by (simp_all add: web_url_def parse_http_url_def sample_upstream_def sample_auth_ops_def sample_web_url_def)

lemma sample_join: "uo_join (ao_urls sample_auth_ops) u q = Some (sample_web_url q)" "ao_set_query sample_auth_ops u v = u"
  by (simp_all add: sample_auth_ops_def sample_web_ops_def)

lemma sample_resource_fails:
  assumes "at_sample_host s"
  shows "\<exists>s'. discover_oauth_protected_resource_metadata sample_auth_ops docs (oauth_fetch sample_upstream Network) s (sample_web_url p) None
    = (s', Inl ResourceMetadataNotImplemented) \<and> at_sample_host s'"
proof -
  let ?headers = "[(''mcp-protocol-version'', LATEST_PROTOCOL_VERSION)]"
  let ?first = "sample_web_url (RESOURCE_WELL_KNOWN @ without_last_slash (path (sample_web_url p)))"
  obtain s1 where s1: "fetch_with_cors_retry sample_auth_ops (oauth_fetch sample_upstream Network) s ?first ?headers = (s1, Inr None)" "at_sample_host s1"
    using sample_cors_fails [OF assms] by blast
  obtain s2 where s2: "fetch_with_cors_retry sample_auth_ops (oauth_fetch sample_upstream Network) s1 (sample_web_url RESOURCE_WELL_KNOWN) ?headers
      = (s2, Inr None)" "at_sample_host s2"
    using sample_cors_fails [OF s1(2)] by blast
  show ?thesis
    using s1 s2 by (simp add: discover_oauth_protected_resource_metadata_def sample_join some_or_def map_failure_def)
qed

lemma sample_info_fails:
  assumes "at_sample_host s"
  shows "\<exists>s'. discover_oauth_server_info sample_auth_ops docs (oauth_fetch sample_upstream Network) s (sample_web_url p)
    = (s', Inr \<lparr>si_authorization_server_url = ''https://m.example/'', si_metadata = None, si_resource_metadata = None\<rparr>)
    \<and> at_sample_host s' \<and> fl_trace s' \<noteq> []"
proof -
  obtain s1 where s1: "discover_oauth_protected_resource_metadata sample_auth_ops docs (oauth_fetch sample_upstream Network) s (sample_web_url p) None
    = (s1, Inl ResourceMetadataNotImplemented)" "at_sample_host s1"
    using sample_resource_fails [OF assms] by blast
  obtain s2 where s2: "discover_authorization_server_metadata sample_auth_ops docs (oauth_fetch sample_upstream Network) s1 (sample_web_url ''/'')
      = (s2, Inr None)" "at_sample_host s2" "fl_trace s2 \<noteq> []"
    using sample_metadata_fails [OF s1(2) sample_parts(2)] by blast
  show ?thesis
    using s1 s2 by (simp add: discover_oauth_server_info_def sample_join some_or_def advertised_server_def sample_parts)
qed

definition sample_metadata :: AuthorizationServerMetadata where
  "sample_metadata = \<lparr>md_issuer = ''https://m.example'', md_authorization_endpoint = ''https://m.example/a'',
     md_token_endpoint = ''https://m.example/t'', md_registration_endpoint = None, md_scopes_supported = None,
     md_response_types_supported = [''code''], md_token_endpoint_auth_methods_supported = None,
     md_code_challenge_methods_supported = Some [''S256''], md_client_id_metadata_document_supported = None\<rparr>"

lemma sample_check: "at_sample_host s \<Longrightarrow> \<exists>s'. check_endpoint sample_upstream s (sample_web_url p) label = (s', Inr ()) \<and> at_sample_host s' \<and> fl_trace s' = fl_trace s"
  by (auto simp: check_endpoint_def assert_allowed_def sample_parts at_sample_host_def split: option.split_asm)

lemma sample_validates:
  assumes "at_sample_host s"
  shows "\<exists>s'. validate_oauth_metadata sample_upstream s sample_metadata (Some ''https://m.example'') = (s', Inr ()) \<and> fl_trace s' = fl_trace s"
proof -
  obtain s1 where s1: "check_endpoint sample_upstream s (sample_web_url ''/a'') ''OAuth authorization endpoint'' = (s1, Inr ())" "at_sample_host s1"
      "fl_trace s1 = fl_trace s"
    using sample_check [OF assms] by blast
  obtain s2 where s2: "check_endpoint sample_upstream s1 (sample_web_url ''/t'') ''OAuth token endpoint'' = (s2, Inr ())" "fl_trace s2 = fl_trace s1"
    using sample_check [OF s1(2)] by blast
  show ?thesis
    using s1 s2
    by (simp add: validate_oauth_metadata_def sample_metadata_def filled_text_def sample_web map_failure_def issuer_matches_def
        comparable_oauth_issuer_def sample_parts ensure_def)
qed

lemma sample_columns:
  "mcp_http_url sample_signed_in = Some ''https://m.example/mcp''" "mcp_oauth_resource sample_signed_in = None"
  "mcp_oauth_scopes sample_signed_in = None" "mcp_oauth_redirect_uri sample_signed_in = None" "mcp_oauth_issuer sample_signed_in = None"
  "mcp_oauth_authorize_url sample_signed_in = Some ''https://m.example/a''" "mcp_oauth_client_secret sample_signed_in = None"
  "mcp_oauth_token_url sample_signed_in = Some ''https://m.example/t''" "mcp_oauth_client_id sample_signed_in = Some ''c''"
  "mcp_oauth_client_auth_method sample_signed_in = None" "mcp_transport sample_signed_in = Http" "mcp_tailnet_id sample_signed_in = None"
  "mcp_oauth_generation sample_signed_in = 5" "mcp_oauth_refresh_token sample_signed_in = Some ''old''"
  by (simp_all add: sample_signed_in_def sample_mcp_def)

definition sample_context :: OAuthContext where
  "sample_context = \<lparr>oc_authorization_server_url = ''https://m.example'', oc_metadata = sample_metadata, oc_resource = None, oc_scope = None\<rparr>"

lemma sample_context_found:
  assumes "at_sample_host s"
  shows "\<exists>s'. discover_oauth_context sample_upstream Network s sample_signed_in = (s', Inr sample_context) \<and> fl_trace s' \<noteq> []"
proof -
  have env: "ue_ops sample_upstream = sample_auth_ops" by (simp add: sample_upstream_def)
  obtain s1 where s1: "discover_oauth_server_info sample_auth_ops (ue_docs sample_upstream) (oauth_fetch sample_upstream Network) s (sample_web_url ''/mcp'')
      = (s1, Inr \<lparr>si_authorization_server_url = ''https://m.example/'', si_metadata = None, si_resource_metadata = None\<rparr>)" "at_sample_host s1"
    using sample_info_fails [OF assms] by blast
  obtain s2 where s2: "metadata_at sample_upstream Network s1 (sample_web_url []) = (s2, Inr None)" "at_sample_host s2" "fl_trace s2 \<noteq> []"
    using sample_metadata_fails [OF s1(2) sample_parts(1)] by (auto simp: metadata_at_def env)
  obtain s3 where s3: "validate_oauth_metadata sample_upstream s2 sample_metadata (Some ''https://m.example'') = (s3, Inr ())" "fl_trace s3 = fl_trace s2"
    using sample_validates [OF s2(2)] by blast
  have fallback: "fallback_metadata sample_signed_in ''https://m.example'' = Some sample_metadata"
    by (simp add: fallback_metadata_def sample_columns filled_text_def sample_metadata_def)
  have same: "metadata_for_same_origin_issuer sample_upstream Network s2 sample_metadata ''https://m.example'' = (s2, Inr None)"
    by (simp add: metadata_for_same_origin_issuer_def sample_metadata_def normalized_http_url_def comparable_oauth_issuer_def sample_web sample_parts)
  have "scope_asked sample_signed_in None sample_metadata = None"
    by (simp add: scope_asked_def sample_columns sample_metadata_def filled_text_def)
  then show ?thesis
    using s1 s2 s3 same fallback
    by (simp add: discover_oauth_context_def sample_columns text_or_empty_def sample_web env filled_text_def some_or_def normalized_http_url_def
        sample_parts discover_missing_def authorization_server_def prefer_issuer_def resource_for_mcp_def sample_context_def)
qed

definition sample_prepared :: Mcp where
  "sample_prepared = sample_signed_in\<lparr>mcp_oauth_issuer := Some ''https://m.example'', mcp_oauth_redirect_uri := Some ''https://m.example/mcps/oauth/callback''\<rparr>"

definition sample_start :: OauthStart where
  "sample_start = \<lparr>st_redirect_uri = ''https://m.example/mcps/oauth/callback'', st_authorization_server_url = ''https://m.example'',
     st_resource = None, st_client_id = ''c'', st_code_verifier = Some ''v'', st_state = ''s''\<rparr>"

lemma sample_flow_prepared:
  "\<exists>s. prepare_oauth_flow sample_upstream sample_draws sample_signed_in = (s, Inr (sample_prepared, sample_start, sample_web_url ''/a''))
     \<and> fl_trace s \<noteq> []"
proof -
  let ?s = "\<lparr>fl_guard = Some (discovered_endpoint_guard (sample_web_url ''/mcp'')), fl_moment = 0, fl_trace = []\<rparr>"
  let ?client = "\<lparr>ci_client_id = ''c'', ci_client_secret = None, ci_auth_method = None\<rparr>"
  have begin_at: "oauth_endpoints_for sample_upstream sample_signed_in = Inr (Network, ?s)"
    by (simp add: oauth_endpoints_for_def sample_columns filled_text_def sample_web sample_upstream_def [THEN arg_cong [where f = ue_fetcher]])
  have "at_sample_host ?s" by (simp add: at_sample_host_def discovered_endpoint_guard_def sample_parts)
  then obtain s1 where s1: "discover_oauth_context sample_upstream Network ?s sample_signed_in = (s1, Inr sample_context)" "fl_trace s1 \<noteq> []"
    using sample_context_found by blast
  have redirect: "oauth_redirect_uri sample_upstream sample_signed_in = Inr ''https://m.example/mcps/oauth/callback''" by code_simp
  have chosen: "choose_client sample_upstream Network s1 sample_signed_in sample_context (sample_web_url []) ''https://m.example/mcps/oauth/callback''
      = (s1, Inr (?client, False))"
    by (simp add: choose_client_def client_information_from_mcp_def sample_columns filled_text_def secret_of_def)
  have asked: "start_authorization (ue_ops sample_upstream) ''v'' (sample_web_url []) (Some sample_metadata) ?client
      ''https://m.example/mcps/oauth/callback'' None (Some ''s'') None
      = (Inr \<lparr>as_authorization_url = sample_web_url ''/a'', as_code_verifier = ''v''\<rparr> :: (oauth_failure AuthError, AuthorizationStart) result)"
    by code_simp
  have kept: "issuer_changed sample_upstream sample_signed_in sample_context = Inr False" by code_simp
  have written: "save_oauth_configuration sample_upstream sample_signed_in sample_context ?client ''https://m.example/mcps/oauth/callback'' False
      = Inr sample_prepared" by code_simp
  show ?thesis
    using s1 begin_at redirect chosen asked kept written
    by (simp add: prepare_oauth_flow_def sample_context_def [THEN arg_cong [where f = oc_authorization_server_url]] sample_draws_def
        authorization_server_def sample_web resource_url_def sample_start_def sample_context_def)
qed

definition sample_saved_db :: db where
  "sample_saved_db = sample_upstream_db (sample_prepared\<lparr>mcp_updated_at := Some 3\<rparr>)"

lemma sample_starts:
  "\<exists>s. start_oauth_flow sample_upstream sample_draws [] sample_signed_in 3 (sample_upstream_db sample_signed_in)
     = (s, fst (start_oauth_session (ue_print sample_upstream) [] sample_prepared sample_start), sample_saved_db, Inr ''https://m.example/a'')
     \<and> fl_trace s \<noteq> []"
proof -
  have saved: "save_oauth_step sample_signed_in sample_prepared 3 (sample_upstream_db sample_signed_in) = (sample_saved_db, Inr ())" by code_simp
  show ?thesis
    using sample_flow_prepared saved
    by (auto simp: start_oauth_flow_def sample_columns sample_parts sample_web)
qed

theorem tokens_stay_with_their_provider_witness:
  "\<exists>s session. start_oauth_flow sample_upstream sample_draws [] sample_signed_in 3 (sample_upstream_db sample_signed_in)
       = (s, session, sample_saved_db, Inr ''https://m.example/a'')
     \<and> rows (mcps sample_saved_db) \<noteq> rows (mcps (sample_upstream_db sample_signed_in))
     \<and> list_all2 (\<lambda>row row'. row' = row \<or> signed_out 9 row' \<or> keeps_provider sample_upstream sample_signed_in row')
         (rows (mcps (sample_upstream_db sample_signed_in))) (rows (mcps sample_saved_db))"
proof -
  obtain s session where run: "start_oauth_flow sample_upstream sample_draws [] sample_signed_in 3 (sample_upstream_db sample_signed_in)
      = (s, session, sample_saved_db, Inr ''https://m.example/a'')"
    using sample_starts by blast
  have "rows (mcps sample_saved_db) \<noteq> rows (mcps (sample_upstream_db sample_signed_in))" by code_simp
  then show ?thesis
    using run tokens_stay_with_their_provider [OF run] by (auto simp: sample_draws_def)
qed


text \<open>A built-in MCP, whose provider answers at once.\<close>

definition sample_builtin :: Mcp where
  "sample_builtin = sample_signed_in\<lparr>mcp_transport := Builtin\<rparr>"

definition sample_callback :: "int \<Rightarrow> OauthSession" where
  "sample_callback generation = \<lparr>os_mcp_id = 1, os_code_verifier = None, os_state = ''s'', os_redirect_uri = ''https://m.example/mcps/oauth/callback'',
     os_authorization_server_url = ''https://m.example'', os_resource = None, os_client_id = ''c'', os_generation = generation\<rparr>"

definition sample_connected :: Mcp where
  "sample_connected = (save_oauth_tokens sample_upstream sample_tokens 3 sample_builtin)\<lparr>mcp_updated_at := Some 3\<rparr>"

lemma sample_exchanged:
  "exchange_upstream_code sample_upstream sample_builtin (sample_callback 5) ''code'' None 3 (sample_upstream_db sample_builtin)
     = (no_flow, sample_upstream_db sample_connected, Inr ())"
proof -
  have wrote: "snd (exchange_upstream_code sample_upstream sample_builtin (sample_callback 5) ''code'' None 3 (sample_upstream_db sample_builtin))
      = (sample_upstream_db sample_connected, Inr ())"
    by code_simp
  have "mcp_transport sample_builtin = Builtin" by (simp add: sample_builtin_def)
  then have "fst (exchange_upstream_code sample_upstream sample_builtin (sample_callback 5) ''code'' None 3 (sample_upstream_db sample_builtin)) = no_flow"
    by (simp add: exchange_upstream_code_def Let_def split: sum.split)
  then show ?thesis using wrote by (metis prod.collapse)
qed

theorem oauth_step_keeps_to_its_basis_witness:
  "oauth_step sample_upstream sample_builtin no_flow (sample_upstream_db sample_builtin) (sample_upstream_db sample_connected)
   \<and> mcp_oauth_access_token sample_connected = Some ''new'' \<and> mcp_oauth_access_token sample_builtin = None
   \<and> sample_upstream_db sample_connected = (sample_upstream_db sample_builtin)\<lparr>mcps := mcps (sample_upstream_db sample_connected)\<rparr>
   \<and> signs_in sample_builtin sample_connected"
proof -
  have step: "oauth_step sample_upstream sample_builtin no_flow (sample_upstream_db sample_builtin) (sample_upstream_db sample_connected)"
    using sample_exchanged by (rule exchanged)
  have new: "mcp_oauth_access_token sample_connected = Some ''new'' \<and> mcp_oauth_access_token sample_builtin = None" by code_simp
  have moved: "sample_connected \<noteq> sample_builtin" using new by auto
  show ?thesis
    using step new moved oauth_step_keeps_to_its_basis [OF step] by (simp add: sample_upstream_db_def)
qed

theorem callback_finishes_its_sign_in_witness:
  "exchange_upstream_code sample_upstream sample_builtin (sample_callback 5) ''code'' None 3 (sample_upstream_db sample_builtin)
     = (no_flow, sample_upstream_db sample_connected, Inr ())
   \<and> sample_connected \<noteq> sample_builtin
   \<and> list_all2 (\<lambda>row row'. row' = row \<or> row_of_sign_in sample_builtin (sample_callback 5) row)
       (rows (mcps (sample_upstream_db sample_builtin))) (rows (mcps (sample_upstream_db sample_connected)))
   \<and> (\<exists>tokens. provider_gave sample_upstream sample_builtin (sample_callback 5) ''code'' tokens)"
proof -
  have "sample_connected \<noteq> sample_builtin" by code_simp
  then show ?thesis
    using sample_exchanged callback_finishes_its_sign_in [OF sample_exchanged] by auto
qed

text \<open>The start of the flow above in a session without another.\<close>

theorem pending_sign_ins_bounded_witness:
  "distinct (map fst (fst (start_oauth_session (ue_print sample_upstream) [] sample_signed_in sample_start)))
   \<and> length (start_weights (ue_print sample_upstream) (fst (start_oauth_session (ue_print sample_upstream) [] sample_signed_in sample_start)))
       \<le> MAX_PENDING_OAUTH_STARTS
   \<and> start_weights (ue_print sample_upstream) (fst (start_oauth_session (ue_print sample_upstream) [] sample_signed_in sample_start)) \<noteq> []"
proof -
  obtain session oauth where run: "start_oauth_session (ue_print sample_upstream) [] sample_signed_in sample_start = (session, oauth)" by fastforce
  have "start_weights (ue_print sample_upstream) (fst (start_oauth_session (ue_print sample_upstream) [] sample_signed_in sample_start)) \<noteq> []"
    by (simp add: start_oauth_session_def Let_def start_weights_def pending_starts_def session_put_def session_keys_def is_pending_session_key
        set_member_def)
  then show ?thesis using pending_sign_ins_bounded [OF _ run] run by simp
qed

theorem callback_finds_its_start_witness:
  "start_ok \<lparr>vc_number = (\<lambda>v. case v of JNumber n \<Rightarrow> Some n | _ \<Rightarrow> None), vc_url = (\<lambda>_. True)\<rparr> sample_start
   \<and> read_oauth_session \<lparr>vc_number = (\<lambda>v. case v of JNumber n \<Rightarrow> Some n | _ \<Rightarrow> None), vc_url = (\<lambda>_. True)\<rparr>
       (fst (start_oauth_session (ue_print sample_upstream) [] sample_signed_in sample_start)) (Some ''s'')
     = Some (snd (start_oauth_session (ue_print sample_upstream) [] sample_signed_in sample_start))"
proof -
  let ?vc = "\<lparr>vc_number = (\<lambda>v. case v of JNumber n \<Rightarrow> Some n | _ \<Rightarrow> None), vc_url = (\<lambda>_. True)\<rparr> :: vine_checks"
  obtain session oauth where run: "start_oauth_session (ue_print sample_upstream) [] sample_signed_in sample_start = (session, oauth)" by fastforce
  have number: "\<And>n. vc_number ?vc (JNumber n) = Some n" by simp
  have ok: "start_ok ?vc sample_start" by (simp add: start_ok_def sample_start_def utf16_len_def)
  show ?thesis using callback_finds_its_start [OF number ok _ run] ok run by (simp add: sample_start_def)
qed

end
