(* ===== verification/SignIn.thy ===== *)
theory SignIn
  imports UpstreamOauth Endpoint "HOL-Library.Countable"
begin

text \<open>
  Who is signed in on the web interface: the browser session and its cookies (\<open>crates/web/src/session.rs\<close>,
  \<open>cookies.rs\<close>, \<open>csrf.rs\<close>), how a request finds its person (\<open>auth.rs\<close>), and the ways to sign in: a password, the second step of
  a protected account, a passkey (\<open>routes/auth.rs\<close>, \<open>routes/two_factor.rs\<close>, \<open>routes/passkeys.rs\<close>). A session is kept whole in a
  cookie the server cannot take back. A request reads the clock once, in milliseconds; rows are stamped in seconds. What a request
  reads and what it writes may be two databases, with other requests in between. Encryption, hashing, base64, the check of a
  passkey's signature and lower casing are parameters, and so is what the validators of a form made of its input.
\<close>

record web_env =
  we_encrypt_value :: "Value \<Rightarrow> string \<Rightarrow> int option \<Rightarrow> string"
  we_decrypt_value :: "int \<Rightarrow> string \<Rightarrow> string \<Rightarrow> Value option"
  we_sha256_hex :: "string \<Rightarrow> string"
  we_digest :: "string \<Rightarrow> string"
  we_encode :: "string \<Rightarrow> string"
  we_decode :: "string \<Rightarrow> string option"
  we_verify_password :: "string \<Rightarrow> string \<Rightarrow> bool"
  we_lowercase :: "string \<Rightarrow> string"
  we_hmac_sha1 :: "8 word list \<Rightarrow> 8 word list \<Rightarrow> 8 word list"
  we_decrypt :: "string \<Rightarrow> string option"
  we_relying_party :: "(string \<times> string) option"
  we_verify_assertion ::
    "string \<times> string \<Rightarrow> string \<Rightarrow> string \<Rightarrow> string \<Rightarrow> string \<Rightarrow> string \<Rightarrow> (string, Assertion) result"
  we_parse_url :: "string \<Rightarrow> Url option"
  we_url_port :: "Url \<Rightarrow> nat option"

section \<open>Cookies\<close>

datatype MaxAge = MaxSeconds int | ExpiredNow

text \<open>The cookies the browser sent, and those the response sets: name, value and age. Values are percent-encoded on the way and
  decoded when they are read; here they are decoded throughout.\<close>

record Cookies =
  ck_received :: "(string \<times> string) list"
  ck_outgoing :: "(string \<times> string \<times> int) list"

definition cookie_get :: "Cookies \<Rightarrow> string \<Rightarrow> string option" where
  "cookie_get cookies name = map_of (ck_received cookies) name"

definition cookie_set :: "string \<Rightarrow> string \<Rightarrow> MaxAge \<Rightarrow> Cookies \<Rightarrow> Cookies" where
  "cookie_set name given age cookies =
     (let (v, seconds) = (case age of MaxSeconds n \<Rightarrow> (given, n) | ExpiredNow \<Rightarrow> ([], 0)) in
      cookies\<lparr>ck_outgoing := filter (\<lambda>c. fst c \<noteq> name) (ck_outgoing cookies) @ [(name, v, seconds)]\<rparr>)"

definition cookie_clear :: "string \<Rightarrow> Cookies \<Rightarrow> Cookies" where
  "cookie_clear name = cookie_set name [] ExpiredNow"

definition cookie_pending :: "Cookies \<Rightarrow> string \<Rightarrow> string option" where
  "cookie_pending cookies name =
     (case map_of (ck_outgoing cookies) name of
        None \<Rightarrow> None
      | Some (v, seconds) \<Rightarrow> if seconds = 0 then None else Some v)"

section \<open>The session of a request\<close>

definition SESSION_COOKIE :: string where "SESSION_COOKIE = ''mymcps_session''"

definition SESSION_AGE_SECONDS :: int where "SESSION_AGE_SECONDS = 2 * 60 * 60"

definition SESSION_PURPOSE :: string where "SESSION_PURPOSE = ''session''"

definition FLASH_KEY :: string where "FLASH_KEY = ''__flash__''"

record WebSession =
  ws_values :: session
  ws_flashed :: session
  ws_flash :: session
  ws_had_cookie :: bool

definition default_session :: WebSession where
  "default_session = \<lparr>ws_values = [], ws_flashed = [], ws_flash = [], ws_had_cookie = False\<rparr>"

definition from_values :: "session \<Rightarrow> WebSession" where
  "from_values stored =
     \<lparr>ws_values = session_forget FLASH_KEY stored,
      ws_flashed = (case session_get stored FLASH_KEY of Some (JObject f) \<Rightarrow> f | _ \<Rightarrow> []),
      ws_flash = [], ws_had_cookie = True\<rparr>"

definition ws_get :: "WebSession \<Rightarrow> string \<Rightarrow> Value option" where
  "ws_get s key = session_get (ws_values s) key"

definition ws_has :: "WebSession \<Rightarrow> string \<Rightarrow> bool" where
  "ws_has s key \<longleftrightarrow> ws_get s key \<noteq> None"

definition ws_put :: "string \<Rightarrow> Value \<Rightarrow> WebSession \<Rightarrow> WebSession" where
  "ws_put key v s = s\<lparr>ws_values := session_put key v (ws_values s)\<rparr>"

definition ws_forget :: "string \<Rightarrow> WebSession \<Rightarrow> WebSession" where
  "ws_forget key s = s\<lparr>ws_values := session_forget key (ws_values s)\<rparr>"

definition ws_pull :: "string \<Rightarrow> WebSession \<Rightarrow> WebSession \<times> Value option" where
  "ws_pull key s = (ws_forget key s, ws_get s key)"

definition ws_flash_put :: "string \<Rightarrow> Value \<Rightarrow> WebSession \<Rightarrow> WebSession" where
  "ws_flash_put key v s = s\<lparr>ws_flash := session_put key v (ws_flash s)\<rparr>"

definition reflash :: "WebSession \<Rightarrow> WebSession" where
  "reflash s = s\<lparr>ws_flash := fold (\<lambda>(key, v) f. if session_get f key = None then session_put key v f else f) (ws_flashed s) (ws_flash s)\<rparr>"

definition snapshot :: "WebSession \<Rightarrow> session" where
  "snapshot s = (if ws_flash s = [] then ws_values s else session_put FLASH_KEY (JObject (ws_flash s)) (ws_values s))"

definition read_session :: "web_env \<Rightarrow> int \<Rightarrow> Cookies \<Rightarrow> WebSession" where
  "read_session e ms cookies =
     (case (case cookie_get cookies SESSION_COOKIE of None \<Rightarrow> None | Some c \<Rightarrow> we_decrypt_value e ms c SESSION_PURPOSE) of
        Some (JObject stored) \<Rightarrow> from_values stored
      | _ \<Rightarrow> default_session\<lparr>ws_had_cookie := cookie_get cookies SESSION_COOKIE \<noteq> None\<rparr>)"

definition seal_values :: "web_env \<Rightarrow> int \<Rightarrow> session \<Rightarrow> string option" where
  "seal_values e ms stored =
     (if stored = [] then None
      else Some (we_encrypt_value e (JObject stored) SESSION_PURPOSE (Some (ms + SESSION_AGE_SECONDS * 1000))))"

definition write_session :: "web_env \<Rightarrow> int \<Rightarrow> WebSession \<Rightarrow> Cookies \<Rightarrow> Cookies" where
  "write_session e ms s cookies =
     (case seal_values e ms (snapshot s) of
        Some sealed \<Rightarrow> cookie_set SESSION_COOKIE sealed (MaxSeconds SESSION_AGE_SECONDS) cookies
      | None \<Rightarrow> if ws_had_cookie s then cookie_clear SESSION_COOKIE cookies else cookies)"

section \<open>Forged requests\<close>

definition CSRF_SECRET_KEY :: string where "CSRF_SECRET_KEY = ''csrf-secret''"

definition csrf_digest :: "web_env \<Rightarrow> string \<Rightarrow> string \<Rightarrow> string" where
  "csrf_digest e salt secret = we_digest e (salt @ ''.'' @ secret)"

definition csrf_token :: "web_env \<Rightarrow> string \<Rightarrow> string \<Rightarrow> WebSession \<Rightarrow> WebSession \<times> string" where
  "csrf_token e drawn_secret salt s =
     (case as_str (ws_get s CSRF_SECRET_KEY) of
        Some secret \<Rightarrow>
          if secret \<noteq> [] then (s, salt @ ''.'' @ csrf_digest e salt secret)
          else (ws_put CSRF_SECRET_KEY (JString drawn_secret) s, salt @ ''.'' @ csrf_digest e salt drawn_secret)
      | None \<Rightarrow> (ws_put CSRF_SECRET_KEY (JString drawn_secret) s, salt @ ''.'' @ csrf_digest e salt drawn_secret))"

definition forget_csrf_secret :: "WebSession \<Rightarrow> WebSession" where
  "forget_csrf_secret = ws_forget CSRF_SECRET_KEY"

definition verify_csrf_token :: "web_env \<Rightarrow> WebSession \<Rightarrow> string option \<Rightarrow> bool" where
  "verify_csrf_token e s token =
     (case (as_str (ws_get s CSRF_SECRET_KEY), token) of
        (Some secret, Some t) \<Rightarrow>
          (case split_once (CHR ''.'') t of
             None \<Rightarrow> False
           | Some (salt, hash) \<Rightarrow> csrf_digest e salt secret = hash)
      | _ \<Rightarrow> False)"

section \<open>The stamp of a session\<close>

definition LOGIN_KEY :: string where "LOGIN_KEY = ''auth_web''"

definition SESSION_STAMP_KEY :: string where "SESSION_STAMP_KEY = ''auth_stamp''"

definition TEAM_KEY :: string where "TEAM_KEY = ''currentTeam''"

definition REMEMBER_COOKIE :: string where "REMEMBER_COOKIE = ''remember_web''"

definition ABSOLUTE_LIFETIME_MS :: int where "ABSOLUTE_LIFETIME_MS = 24 * 60 * 60 * 1000"

definition REMEMBER_SECONDS :: int where "REMEMBER_SECONDS = 31557600"

fun as_i64 :: "Value \<Rightarrow> int option" where
  "as_i64 (JNumber n) = (if - (2 ^ 63) \<le> n \<and> n < 2 ^ 63 then Some n else None)"
| "as_i64 _ = None"

record SessionStamp =
  sv_version :: int
  sv_authenticated_at :: int
  sv_last_seen_at :: int

definition new_stamp :: "User \<Rightarrow> int \<Rightarrow> SessionStamp" where
  "new_stamp user ms = \<lparr>sv_version = session_version user, sv_authenticated_at = ms, sv_last_seen_at = ms\<rparr>"

definition stamp_value :: "SessionStamp \<Rightarrow> Value" where
  "stamp_value stamp =
     JObject [(''version'', JNumber (sv_version stamp)), (''authenticatedAt'', JNumber (sv_authenticated_at stamp)),
              (''lastSeenAt'', JNumber (sv_last_seen_at stamp))]"

definition strict_member :: "(string \<times> Value) list \<Rightarrow> string \<Rightarrow> int option" where
  "strict_member members name =
     (case Option.bind (json_get members name) as_i64 of Some n \<Rightarrow> if n > 0 then Some n else None | None \<Rightarrow> None)"

definition read_stamp :: "WebSession \<Rightarrow> SessionStamp option" where
  "read_stamp s =
     (case ws_get s SESSION_STAMP_KEY of
        Some (JObject members) \<Rightarrow>
          (case (strict_member members ''version'', strict_member members ''authenticatedAt'', strict_member members ''lastSeenAt'') of
             (Some v, Some at, Some seen) \<Rightarrow> Some \<lparr>sv_version = v, sv_authenticated_at = at, sv_last_seen_at = seen\<rparr>
           | _ \<Rightarrow> None)
      | _ \<Rightarrow> None)"

definition stamp_expired :: "SessionStamp \<Rightarrow> int \<Rightarrow> bool" where
  "stamp_expired stamp ms \<longleftrightarrow>
     ms - sv_last_seen_at stamp > SESSION_AGE_SECONDS * 1000 \<or> ms - sv_authenticated_at stamp > ABSOLUTE_LIFETIME_MS"

definition stamp_session :: "User \<Rightarrow> int \<Rightarrow> WebSession \<Rightarrow> WebSession" where
  "stamp_session user ms = ws_put SESSION_STAMP_KEY (stamp_value (new_stamp user ms))"

definition forget_session_login :: "WebSession \<Rightarrow> WebSession" where
  "forget_session_login s = ws_forget TEAM_KEY (ws_forget SESSION_STAMP_KEY (ws_forget LOGIN_KEY s))"

section \<open>Remember-me tokens\<close>

text \<open>What a request works on: its session, its cookies, the allowances and the database it writes to.\<close>

record Limiters =
  lm_login :: Limiter
  lm_login_address :: Limiter
  lm_registration :: Limiter
  lm_current_password :: Limiter
  lm_passkey_challenge :: Limiter

text \<open>The allowances of an instance, over the counters its database has. The windows are in milliseconds.\<close>

definition limiters_new :: "rate_limit_row list \<Rightarrow> Limiters" where
  "limiters_new counted =
     \<lparr>lm_login = limiter_database counted 5 (15 * 60 * 1000), lm_login_address = limiter_database counted 30 (15 * 60 * 1000),
      lm_registration = limiter_database counted 10 (60 * 60 * 1000),
      lm_current_password = limiter_database counted 5 (15 * 60 * 1000),
      lm_passkey_challenge = limiter_database counted 1 (10 * 60 * 1000)\<rparr>"

record web_state =
  w_session :: WebSession
  w_cookies :: Cookies
  w_limiters :: Limiters
  w_db :: db

definition insert_remember_token :: "int \<Rightarrow> string \<Rightarrow> int \<Rightarrow> int \<Rightarrow> db \<Rightarrow> (db_error, db \<times> int) result" where
  "insert_remember_token user_id hash at expires d =
     ensure (\<not> has_row (\<lambda>r. rm_hash r = hash) (remember_me_tokens d)) UniqueViolation
     (ensure (user_exists d user_id) ForeignKeyViolation
     (Inr (d\<lparr>remember_me_tokens := append_row (\<lambda>i. \<lparr>rm_id = i, rm_tokenable_id = user_id, rm_hash = hash, rm_created_at = at,
              rm_updated_at = at, rm_expires_at = expires\<rparr>) (remember_me_tokens d)\<rparr>, seq (remember_me_tokens d) + 1)))"

text \<open>The 40 characters of the secret are drawn.\<close>

definition create_remember_token ::
  "web_env \<Rightarrow> string \<Rightarrow> int \<Rightarrow> User \<Rightarrow> web_state \<Rightarrow> web_state \<times> (db_error, unit) result" where
  "create_remember_token e secret ms user st =
     (let now = ms div 1000 * 1000 in
      case insert_remember_token (u_id user) (we_sha256_hex e secret) now (now + REMEMBER_SECONDS * 1000) (w_db st) of
        Inl err \<Rightarrow> (st, Inl err)
      | Inr (d1, i) \<Rightarrow>
          (let token = we_encode e (show_int i) @ ''.'' @ we_encode e secret;
               sealed = we_encrypt_value e (JString token) REMEMBER_COOKIE None in
           (st\<lparr>w_db := d1, w_cookies := cookie_set REMEMBER_COOKIE (''e:'' @ sealed) (MaxSeconds REMEMBER_SECONDS) (w_cookies st)\<rparr>, Inr ())))"

definition utf8_text :: "string \<Rightarrow> string option" where
  "utf8_text bytes = (if from_utf8 bytes = None then Some bytes else None)"

definition parse_i64 :: "string \<Rightarrow> int option" where
  "parse_i64 s =
     (let negative = (take 1 s = ''-''); digits = (if take 1 s \<in> {''-'', ''+''} then tl s else s);
          n = (if negative then - int (read_nat 0 digits) else int (read_nat 0 digits)) in
      if digits = [] \<or> \<not> list_all is_digit_char digits \<or> n < - (2 ^ 63) \<or> 2 ^ 63 \<le> n then None else Some n)"

definition decode_remember_cookie :: "web_env \<Rightarrow> int \<Rightarrow> Cookies \<Rightarrow> (int \<times> string) option" where
  "decode_remember_cookie e ms cookies =
     Option.bind (cookie_get cookies REMEMBER_COOKIE) (\<lambda>cookie.
     if \<not> starts_with cookie ''e:'' then None
     else
       (case we_decrypt_value e ms (drop 2 cookie) REMEMBER_COOKIE of
          Some (JString token) \<Rightarrow>
            Option.bind (split_once (CHR ''.'') token) (\<lambda>(identifier, secret).
            Option.bind (Option.bind (we_decode e identifier) utf8_text) (\<lambda>identifier.
            Option.bind (Option.bind (we_decode e secret) utf8_text) (\<lambda>secret.
            Option.bind (parse_i64 identifier) (\<lambda>i. Some (i, secret)))))
        | _ \<Rightarrow> None))"

text \<open>The token and its account are read first; the token is deleted afterwards, and another one made.\<close>

definition remembered_user :: "web_env \<Rightarrow> int \<Rightarrow> db \<Rightarrow> Cookies \<Rightarrow> (int \<times> User) option" where
  "remembered_user e ms d0 cookies =
     Option.bind (decode_remember_cookie e ms cookies) (\<lambda>(i, secret).
     Option.bind (find_row (\<lambda>r. rm_id r = i) (remember_me_tokens d0)) (\<lambda>row.
     if we_sha256_hex e secret \<noteq> rm_hash row \<or> rm_expires_at row div 1000 < ms div 1000 then None
     else map_option (Pair i) (find_row (\<lambda>u. u_id u = rm_tokenable_id row) (users d0))))"

definition authenticate_via_remember_cookie ::
  "web_env \<Rightarrow> string \<Rightarrow> int \<Rightarrow> db \<Rightarrow> web_state \<Rightarrow> web_state \<times> (db_error, User option) result" where
  "authenticate_via_remember_cookie e secret ms d0 st =
     (case remembered_user e ms d0 (w_cookies st) of
        None \<Rightarrow> (st, Inr None)
      | Some (i, user) \<Rightarrow>
          (let st1 = st\<lparr>w_db := (w_db st)\<lparr>remember_me_tokens := del (\<lambda>r. rm_id r = i) (remember_me_tokens (w_db st))\<rparr>\<rparr> in
           case create_remember_token e secret ms user st1 of
             (st2, Inl err) \<Rightarrow> (st2, Inl err)
           | (st2, Inr _) \<Rightarrow> (st2\<lparr>w_session := ws_put LOGIN_KEY (JNumber (u_id user)) (w_session st2)\<rparr>, Inr (Some user))))"

definition sign_in :: "web_env \<Rightarrow> string \<Rightarrow> int \<Rightarrow> User \<Rightarrow> web_state \<Rightarrow> web_state \<times> (db_error, unit) result" where
  "sign_in e secret ms user st =
     (case create_remember_token e secret ms user st of
        (st1, Inl err) \<Rightarrow> (st1, Inl err)
      | (st1, Inr _) \<Rightarrow>
          (st1\<lparr>w_session := forget_csrf_secret (stamp_session user ms (ws_put LOGIN_KEY (JNumber (u_id user)) (w_session st1)))\<rparr>, Inr ()))"

definition sign_out :: "web_env \<Rightarrow> int \<Rightarrow> web_state \<Rightarrow> web_state" where
  "sign_out e ms st =
     (let st1 = (case decode_remember_cookie e ms (w_cookies st) of
                   None \<Rightarrow> st
                 | Some (i, _) \<Rightarrow> st\<lparr>w_db := (w_db st)\<lparr>remember_me_tokens := del (\<lambda>r. rm_id r = i) (remember_me_tokens (w_db st))\<rparr>\<rparr>) in
      st1\<lparr>w_session := forget_csrf_secret (forget_session_login (w_session st1)), w_cookies := cookie_clear REMEMBER_COOKIE (w_cookies st1)\<rparr>)"

section \<open>Who a request comes from\<close>

record Auth =
  au_user :: "User option"
  au_teams :: "Membership list"
  au_team :: "Membership option"

definition nobody :: Auth where
  "nobody = \<lparr>au_user = None, au_teams = [], au_team = None\<rparr>"

definition auth_is_super_admin :: "Auth \<Rightarrow> bool" where
  "auth_is_super_admin auth \<longleftrightarrow> (case au_user auth of Some user \<Rightarrow> is_super_admin user | None \<Rightarrow> False)"

definition auth_is_team_admin :: "Auth \<Rightarrow> bool" where
  "auth_is_team_admin auth \<longleftrightarrow> (case au_team auth of Some m \<Rightarrow> is_admin (ms_role m) | None \<Rightarrow> False)"

definition find_user :: "db \<Rightarrow> int \<Rightarrow> User option" where
  "find_user d i = find_row (\<lambda>u. u_id u = i) (users d)"

text \<open>The person, and whether the remember-me cookie named them.\<close>

definition authenticate ::
  "web_env \<Rightarrow> string \<Rightarrow> int \<Rightarrow> db \<Rightarrow> web_state \<Rightarrow> web_state \<times> (db_error, User option \<times> bool) result" where
  "authenticate e secret ms d0 st =
     (case ws_get (w_session st) LOGIN_KEY of
        Some login \<Rightarrow> (st, Inr (Option.bind (as_i64 login) (find_user d0), False))
      | None \<Rightarrow>
          go_on (authenticate_via_remember_cookie e secret ms d0 st) (\<lambda>st1 user. (st1, Inr (user, user \<noteq> None))))"

definition web_teams :: "User \<Rightarrow> int \<Rightarrow> web_state \<Rightarrow> web_state \<times> (db_error, Membership list \<times> Membership) result" where
  "web_teams user ms st =
     (let chosen = Option.bind (ws_get (w_session st) TEAM_KEY) as_i64 in
      case resolve_teams user \<lparr>session_team = chosen\<rparr> (ms div 1000) (w_db st) of
        Inl err \<Rightarrow> (st, Inl err)
      | Inr (d1, _, ts, current) \<Rightarrow>
          (st\<lparr>w_db := d1,
              w_session := (if chosen \<noteq> Some (t_id (ms_team current)) then ws_put TEAM_KEY (JNumber (t_id (ms_team current))) (w_session st)
                            else w_session st)\<rparr>, Inr (ts, current)))"

text \<open>The account signed out or changed its password after the session was stamped.\<close>

definition stamp_retired :: "SessionStamp option \<Rightarrow> User option \<Rightarrow> bool" where
  "stamp_retired stamp user \<longleftrightarrow> (case (stamp, user) of (Some x, Some u) \<Rightarrow> sv_version x \<noteq> session_version u | _ \<Rightarrow> False)"

text \<open>The layer in front of every page. Both readings of an account are of the database the request found.\<close>

definition silent_auth :: "web_env \<Rightarrow> string \<Rightarrow> int \<Rightarrow> db \<Rightarrow> web_state \<Rightarrow> web_state \<times> (db_error, Auth) result" where
  "silent_auth e secret ms d0 st =
     (let has_login = ws_has (w_session st) LOGIN_KEY;
          found = (if has_login then read_stamp (w_session st) else None);
          dropped = (has_login \<and> (case found of None \<Rightarrow> True | Some stamp \<Rightarrow> stamp_expired stamp ms));
          st0 = (if dropped then st\<lparr>w_session := forget_session_login (w_session st)\<rparr> else st);
          stamp0 = (if dropped then None else found) in
      go_on (authenticate e secret ms d0 st0) (\<lambda>st1 (user1, via1).
      let retired = stamp_retired stamp0 user1;
          stamp = (if retired then None else stamp0) in
      go_on (if retired then authenticate e secret ms d0 (st1\<lparr>w_session := forget_session_login (w_session st1)\<rparr>)
             else (st1, Inr (user1, via1))) (\<lambda>st2 (user2, via).
      case user2 of
        None \<Rightarrow> (st2, Inr nobody)
      | Some user \<Rightarrow>
          (let st3 = (if via then st2\<lparr>w_session := stamp_session user ms (w_session st2)\<rparr>
                      else case stamp of
                        Some given \<Rightarrow> st2\<lparr>w_session := ws_put SESSION_STAMP_KEY (stamp_value (given\<lparr>sv_last_seen_at := ms\<rparr>)) (w_session st2)\<rparr>
                      | None \<Rightarrow> st2) in
           go_on (web_teams user ms st3) (\<lambda>st4 (ts, current).
           (st4, Inr \<lparr>au_user = Some user, au_teams = ts, au_team = Some current\<rparr>))))))"

section \<open>Guards and answers\<close>

datatype web_answer =
    RedirectedTo string | TooManyWeb LimiterResponse | UnauthorizedAccess | PasskeyRefused string
  | PasskeyOptions string "string list" | SetupPage string | FormAgain "(string \<times> string) list" | WebFailed db_error

text \<open>A guard lets a request through (\<open>None\<close>) or answers it.\<close>

definition with_query :: "string \<Rightarrow> string option \<Rightarrow> string" where
  "with_query p q =
     (let kept = filter (\<lambda>pair. pair \<noteq> [] \<and> hd (split_on (CHR ''='') pair) \<noteq> ''_method'') (split_on (CHR ''&'') (text_or_empty q)) in
      if kept = [] then p else p @ ''?'' @ join_with ''&'' kept)"

definition redirect_back :: "web_env \<Rightarrow> HeaderMap \<Rightarrow> string \<Rightarrow> string" where
  "redirect_back e headers fallback =
     (let host = map_of headers ''host'';
          authority = (\<lambda>url. (case host_str url of Some h \<Rightarrow> h | None \<Rightarrow> [])
                        @ (case we_url_port e url of Some port \<Rightarrow> '':'' @ show_nat port | None \<Rightarrow> [])) in
      case Option.bind (map_of headers ''referer'') (we_parse_url e) of
        Some url \<Rightarrow>
          if (case host of Some h \<Rightarrow> eq_ignore_ascii_case h (authority url) | None \<Rightarrow> False)
          then path url @ (case query url of Some q \<Rightarrow> ''?'' @ q | None \<Rightarrow> [])
          else fallback
      | None \<Rightarrow> fallback)"

definition require_auth :: "bool \<Rightarrow> Auth \<Rightarrow> WebSession \<Rightarrow> WebSession \<times> web_answer option" where
  "require_auth html auth s =
     (if au_user auth \<noteq> None then (s, None)
      else if html then (reflash s, Some (RedirectedTo ''/login''))
      else (s, Some UnauthorizedAccess))"

definition guest :: "Auth \<Rightarrow> WebSession \<Rightarrow> WebSession \<times> web_answer option" where
  "guest auth s = (if au_user auth \<noteq> None then (reflash s, Some (RedirectedTo ''/'')) else (s, None))"

definition refuse_guard :: "string \<Rightarrow> string option \<Rightarrow> WebSession \<Rightarrow> WebSession \<times> web_answer option" where
  "refuse_guard message q s = (ws_flash_put ''error'' (JString message) s, Some (RedirectedTo (with_query ''/'' q)))"

definition require_admin :: "Auth \<Rightarrow> string option \<Rightarrow> WebSession \<Rightarrow> WebSession \<times> web_answer option" where
  "require_admin auth q s = (if auth_is_team_admin auth then (s, None) else refuse_guard ''Admin access required'' q s)"

definition require_super_admin :: "Auth \<Rightarrow> string option \<Rightarrow> WebSession \<Rightarrow> WebSession \<times> web_answer option" where
  "require_super_admin auth q s =
     (if auth_is_super_admin auth then (s, None) else refuse_guard ''Super admin access required'' q s)"

section \<open>Forms\<close>

record FormState =
  fs_errors :: "(string \<times> string) list"
  fs_old :: "(string \<times> Value) list"

definition holds_a_password :: "string \<Rightarrow> bool" where
  "holds_a_password name \<longleftrightarrow> contains_text (ascii_lower name) ''password''"

definition form_new :: "(string \<times> string) list \<Rightarrow> (string \<times> Value) list \<Rightarrow> FormState" where
  "form_new messages input =
     \<lparr>fs_errors = fold (\<lambda>m errors. if fst m \<in> fst ` set errors then errors else errors @ [m]) messages [],
      fs_old = filter (\<lambda>m. \<not> holds_a_password (fst m)) input\<rparr>"

definition form_flash :: "FormState \<Rightarrow> WebSession \<Rightarrow> WebSession" where
  "form_flash form s =
     ws_flash_put ''old'' (JObject (fs_old form))
       (ws_flash_put ''errors'' (JObject (map (\<lambda>(name, message). (name, JString message)) (fs_errors form))) s)"

section \<open>Signing in with a password\<close>

definition web_consume :: "Limiter \<Rightarrow> string \<Rightarrow> int \<Rightarrow> Limiter \<times> LimiterResponse option" where
  "web_consume l key ms =
     (case consume l key ms of
        (l1, Inl (TooManyRequests refused)) \<Rightarrow> (l1, Some refused)
      | (l1, Inr _) \<Rightarrow> (l1, None))"

definition PENDING_KEY :: string where "PENDING_KEY = ''pendingSignIn''"

definition PENDING_MS :: int where "PENDING_MS = 10 * 60 * 1000"

definition CEREMONY_KEY :: string where "CEREMONY_KEY = ''passkeyCeremony''"

definition CEREMONY_MS :: int where "CEREMONY_MS = 5 * 60 * 1000"

definition SECOND_STEP_PATH :: string where "SECOND_STEP_PATH = ''/login/two-factor''"

text \<open>The clock of these handlers has whole seconds.\<close>

definition is_recent :: "int \<Rightarrow> int \<Rightarrow> int \<Rightarrow> bool" where
  "is_recent ms at within \<longleftrightarrow> 0 \<le> ms div 1000 * 1000 - at \<and> ms div 1000 * 1000 - at < within"

text \<open>A sign-in that waits for its second step. Only the server writes a session, and it writes these records as objects.\<close>

record PendingSignIn =
  pe_user_id :: int
  pe_session_version :: int
  pe_at :: int
  pe_query :: "string option"

definition pending_value :: "PendingSignIn \<Rightarrow> Value" where
  "pending_value p =
     JObject [(''user_id'', JNumber (pe_user_id p)), (''session_version'', JNumber (pe_session_version p)), (''at'', JNumber (pe_at p)),
              (''query'', case pe_query p of Some q \<Rightarrow> JString q | None \<Rightarrow> JNull)]"

definition read_pending :: "WebSession \<Rightarrow> PendingSignIn option" where
  "read_pending s =
     (case ws_get s PENDING_KEY of
        Some (JObject members) \<Rightarrow>
          (case (Option.bind (json_get members ''user_id'') as_i64, Option.bind (json_get members ''session_version'') as_i64,
                 Option.bind (json_get members ''at'') as_i64, json_get members ''query'') of
             (Some u, Some v, Some at, Some (JString q)) \<Rightarrow> Some \<lparr>pe_user_id = u, pe_session_version = v, pe_at = at, pe_query = Some q\<rparr>
           | (Some u, Some v, Some at, Some JNull) \<Rightarrow> Some \<lparr>pe_user_id = u, pe_session_version = v, pe_at = at, pe_query = None\<rparr>
           | (Some u, Some v, Some at, None) \<Rightarrow> Some \<lparr>pe_user_id = u, pe_session_version = v, pe_at = at, pe_query = None\<rparr>
           | _ \<Rightarrow> None)
      | _ \<Rightarrow> None)"

definition forget_pending_sign_in :: "WebSession \<Rightarrow> WebSession" where
  "forget_pending_sign_in s = ws_forget CEREMONY_KEY (ws_forget PENDING_KEY s)"

definition begin_second_step :: "User \<Rightarrow> string option \<Rightarrow> int \<Rightarrow> WebSession \<Rightarrow> WebSession \<times> web_answer" where
  "begin_second_step user q ms s =
     (ws_put PENDING_KEY (pending_value \<lparr>pe_user_id = u_id user, pe_session_version = session_version user,
        pe_at = ms div 1000 * 1000, pe_query = q\<rparr>) s, RedirectedTo SECOND_STEP_PATH)"

definition pending_sign_in :: "int \<Rightarrow> db \<Rightarrow> WebSession \<Rightarrow> WebSession \<times> (User \<times> string option) option" where
  "pending_sign_in ms d0 s =
     (case read_pending s of
        None \<Rightarrow> (s, None)
      | Some p \<Rightarrow>
          (case (if is_recent ms (pe_at p) PENDING_MS then find_user d0 (pe_user_id p) else None) of
             Some user \<Rightarrow>
               if session_version user = pe_session_version p then (s, Some (user, pe_query p)) else (ws_forget PENDING_KEY s, None)
           | None \<Rightarrow> (ws_forget PENDING_KEY s, None)))"

text \<open>Where someone who just signed in goes. The validators of what a session may send them back to.\<close>

definition oauth_return_to :: "Value option \<Rightarrow> string option" where
  "oauth_return_to v = Option.bind (as_str v) (\<lambda>t. if starts_with t ''/authorize?'' \<and> utf16_len t \<le> 1536 then Some t else None)"

definition url_safe_char :: "char \<Rightarrow> bool" where
  "url_safe_char c \<longleftrightarrow> (let n = (of_char c :: nat) in 65 \<le> n \<and> n \<le> 90 \<or> 97 \<le> n \<and> n \<le> 122) \<or> is_digit_char c \<or> c = CHR ''_'' \<or> c = CHR ''-''"

definition approval_return_to :: "Value option \<Rightarrow> string option" where
  "approval_return_to v =
     Option.bind (as_str v) (\<lambda>t. if starts_with t ''/approvals/'' \<and> length t = 11 + 32 \<and> list_all url_safe_char (drop 11 t) then Some t else None)"

definition invite_return_to :: "Value option \<Rightarrow> string option" where
  "invite_return_to v =
     Option.bind (as_str v) (\<lambda>t. if starts_with t ''/invite/'' \<and> length t = 8 + 64
       \<and> list_all (\<lambda>c. is_digit_char c \<or> (let n = (of_char c :: nat) in 97 \<le> n \<and> n \<le> 102)) (drop 8 t) then Some t else None)"

definition signed_in_destination :: "string option \<Rightarrow> WebSession \<Rightarrow> WebSession \<times> string" where
  "signed_in_destination q s =
     (let (s1, oauth) = ws_pull ''oauthReturnTo'' s in
      case oauth_return_to oauth of
        Some t \<Rightarrow> (s1, t)
      | None \<Rightarrow>
          (let (s2, approval) = ws_pull ''approvalReturnTo'' s1 in
           case approval_return_to approval of
             Some t \<Rightarrow> (s2, t)
           | None \<Rightarrow>
               (let (s3, invite) = ws_pull ''inviteReturnTo'' s2 in
                case invite_return_to invite of Some t \<Rightarrow> (s3, t) | None \<Rightarrow> (s3, with_query ''/'' q))))"

text \<open>The form was read as an address and a password, or refused with messages.\<close>

definition login ::
  "web_env \<Rightarrow> ((string \<times> string) list, string \<times> string) result \<Rightarrow> (string \<times> Value) list \<Rightarrow> HeaderMap \<Rightarrow> string \<Rightarrow> string option
     \<Rightarrow> string \<Rightarrow> int \<Rightarrow> db \<Rightarrow> web_state \<Rightarrow> web_state \<times> web_answer" where
  "login e validated input headers ip q secret ms d0 st =
     (case validated of
        Inl messages \<Rightarrow>
          (st\<lparr>w_session := form_flash (form_new messages input) (w_session st)\<rparr>, RedirectedTo (redirect_back e headers ''/login''))
      | Inr (mail, pass) \<Rightarrow>
          (let s1 = forget_pending_sign_in (w_session st);
               client = rate_limit_client_key ip;
               account = we_sha256_hex e (we_lowercase e mail);
               address_key = ''login-address:'' @ client;
               account_key = ''login-account:'' @ client @ '':'' @ account;
               (la, refused) = web_consume (lm_login_address (w_limiters st)) address_key ms;
               st1 = st\<lparr>w_session := s1, w_limiters := (w_limiters st)\<lparr>lm_login_address := la\<rparr>\<rparr> in
           case refused of
             Some r \<Rightarrow> (st1, TooManyWeb r)
           | None \<Rightarrow>
               (let (ll, refused) = web_consume (lm_login (w_limiters st1)) account_key ms;
                    st2 = st1\<lparr>w_limiters := (w_limiters st1)\<lparr>lm_login := ll\<rparr>\<rparr> in
                case refused of
                  Some r \<Rightarrow> (st2, TooManyWeb r)
                | None \<Rightarrow>
                    (case verify_credentials (we_verify_password e) d0 mail pass of
                       None \<Rightarrow>
                         (st2\<lparr>w_session := form_flash (form_new [(''credentials'', ''Invalid user credentials'')] input) (w_session st2)\<rparr>,
                          RedirectedTo (redirect_back e headers ''/login''))
                     | Some user \<Rightarrow>
                         (let st3 = st2\<lparr>w_limiters := (w_limiters st2)\<lparr>lm_login := limiter_delete ll account_key,
                                          lm_login_address := decrement la address_key ms ms\<rparr>\<rparr> in
                          if is_protected d0 user
                          then (let (s2, answer) = begin_second_step user q ms (w_session st3) in (st3\<lparr>w_session := s2\<rparr>, answer))
                          else
                            (case sign_in e secret ms user st3 of
                               (st4, Inl err) \<Rightarrow> (st4, WebFailed err)
                             | (st4, Inr _) \<Rightarrow>
                                 (let (s3, destination) = signed_in_destination q (w_session st4) in
                                  (st4\<lparr>w_session := s3\<rparr>, RedirectedTo destination))))))))"

definition finish_sign_in ::
  "web_env \<Rightarrow> string \<Rightarrow> int \<Rightarrow> User \<Rightarrow> string option \<Rightarrow> web_state \<Rightarrow> web_state \<times> (db_error, string) result" where
  "finish_sign_in e secret ms user q st =
     (case sign_in e secret ms user (st\<lparr>w_session := forget_pending_sign_in (w_session st)\<rparr>) of
        (st1, Inl err) \<Rightarrow> (st1, Inl err)
      | (st1, Inr _) \<Rightarrow>
          (let (s1, destination) = signed_in_destination q (w_session st1) in (st1\<lparr>w_session := s1\<rparr>, Inr destination)))"

section \<open>Signing up\<close>

text \<open>
  A new account is signed in by the request that makes it. \<open>asked\<close> is the address that the rule of the form asks the database about, and
  \<open>validated\<close> what the form gives once it is known whether the address is taken; the setting that lets anyone register is read before the form and
  again in the transaction.
\<close>

definition greeted :: "string \<Rightarrow> web_state \<times> (db_error, unit) result \<Rightarrow> web_state \<times> web_answer" where
  "greeted destination r = (case r of
       (st1, Inl err) \<Rightarrow> (st1, WebFailed err)
     | (st1, Inr _) \<Rightarrow> (st1\<lparr>w_session := ws_flash_put ''success'' (JString ''Welcome to MyMCPs'') (w_session st1)\<rparr>, RedirectedTo destination))"

definition is_taken :: "db \<Rightarrow> string option \<Rightarrow> bool" where
  "is_taken d asked = (case asked of None \<Rightarrow> False | Some mail \<Rightarrow> find_by_email d mail \<noteq> None)"

definition register_handler ::
  "web_env \<Rightarrow> (string \<Rightarrow> string) \<Rightarrow> bool \<Rightarrow> bool \<Rightarrow> string option
     \<Rightarrow> (bool \<Rightarrow> ((string \<times> string) list, string \<times> string \<times> string) result) \<Rightarrow> (string \<times> Value) list \<Rightarrow> HeaderMap \<Rightarrow> string
     \<Rightarrow> string option \<Rightarrow> string \<Rightarrow> int \<Rightarrow> db \<Rightarrow> web_state \<Rightarrow> web_state \<times> web_answer" where
  "register_handler e hash_password open_before open_now asked validated input headers ip q secret ms d0 st =
     (let disabled = (\<lambda>st. (st\<lparr>w_session := ws_flash_put ''error'' (JString REGISTRATION_DISABLED) (w_session st)\<rparr>,
                             RedirectedTo (with_query ''/login'' q)));
          again = (\<lambda>messages st. (st\<lparr>w_session := form_flash (form_new messages input) (w_session st)\<rparr>,
                                  RedirectedTo (redirect_back e headers ''/signup''))) in
      if \<not> open_before then disabled st
      else
        (let (lr, refused) = web_consume (lm_registration (w_limiters st)) (''registration:'' @ rate_limit_client_key ip) ms;
             st1 = st\<lparr>w_limiters := (w_limiters st)\<lparr>lm_registration := lr\<rparr>\<rparr> in
         case refused of
           Some r \<Rightarrow> (st1, TooManyWeb r)
         | None \<Rightarrow>
             (case validated (is_taken d0 asked) of
                Inl messages \<Rightarrow> again messages st1
              | Inr (name, mail, pass) \<Rightarrow>
                  (case register open_now (with_password hash_password mail (Some name) pass) (ms div 1000) (w_db st1) of
                     Inl (Failed err) \<Rightarrow> (st1, WebFailed err)
                   | Inl _ \<Rightarrow> if \<not> open_now then disabled st1 else again [(''email'', ''The email has already been taken'')] st1
                   | Inr (d1, user) \<Rightarrow> greeted (with_query ''/'' q) (sign_in e secret ms user (st1\<lparr>w_db := d1\<rparr>))))))"

definition onboarding_handler ::
  "web_env \<Rightarrow> (string \<Rightarrow> string) \<Rightarrow> string option
     \<Rightarrow> (bool \<Rightarrow> ((string \<times> string) list, string \<times> string \<times> string) result) \<Rightarrow> (string \<times> Value) list \<Rightarrow> HeaderMap
     \<Rightarrow> string option \<Rightarrow> string \<Rightarrow> int \<Rightarrow> db \<Rightarrow> web_state \<Rightarrow> web_state \<times> web_answer" where
  "onboarding_handler e hash_password asked validated input headers q secret ms d0 st =
     (case validated (is_taken d0 asked) of
        Inl messages \<Rightarrow>
          (st\<lparr>w_session := form_flash (form_new messages input) (w_session st)\<rparr>, RedirectedTo (redirect_back e headers ''/onboarding''))
      | Inr (name, mail, pass) \<Rightarrow>
          (case onboarding (with_password hash_password mail (Some name) pass) (ms div 1000) (w_db st) of
             Inl err \<Rightarrow> (st, WebFailed err)
           | Inr (d1, None) \<Rightarrow> (st, RedirectedTo (with_query ''/'' q))
           | Inr (d1, Some user) \<Rightarrow>
               (case sign_in e secret ms user (st\<lparr>w_db := d1\<rparr>) of
                  (st1, Inl err) \<Rightarrow> (st1, WebFailed err)
                | (st1, Inr _) \<Rightarrow> (st1, RedirectedTo (with_query ''/'' q)))))"

definition INVITE_RETURN_TO_KEY :: string where "INVITE_RETURN_TO_KEY = ''inviteReturnTo''"

definition sign_in_first :: "Invite \<Rightarrow> web_state \<Rightarrow> web_state \<times> web_answer" where
  "sign_in_first i st =
     (st\<lparr>w_session := ws_flash_put ''success'' (JString (''Sign in as '' @ inv_email i @ '' to join the team''))
         (ws_put INVITE_RETURN_TO_KEY (JString (''/invite/'' @ inv_token i)) (w_session st))\<rparr>, RedirectedTo ''/login'')"

definition other_account :: "Invite \<Rightarrow> web_state \<Rightarrow> web_state \<times> web_answer" where
  "other_account i st =
     (st\<lparr>w_session := ws_flash_put ''error'' (JString (''This invite is for '' @ inv_email i @
         ''. Sign in with that address to accept it.'')) (w_session st)\<rparr>, RedirectedTo ''/'')"

text \<open>\<open>POST /invite/{token}\<close>, for who is signed in and for a visitor: \<open>token\<close> is the text of the link when it can be one.\<close>

definition accept_handler ::
  "web_env \<Rightarrow> (string \<Rightarrow> string) \<Rightarrow> User option \<Rightarrow> string option \<Rightarrow> ((string \<times> string) list, string \<times> string) result
     \<Rightarrow> (string \<times> Value) list \<Rightarrow> HeaderMap \<Rightarrow> string \<Rightarrow> string option \<Rightarrow> string \<Rightarrow> int \<Rightarrow> db \<Rightarrow> web_state \<Rightarrow> web_state \<times> web_answer" where
  "accept_handler e hash_password user token validated input headers here q secret ms d0 st =
     (let now = ms div 1000;
          invalid = (st\<lparr>w_session := ws_flash_put ''error'' (JString INVALID_INVITE) (w_session st)\<rparr>, RedirectedTo (with_query ''/'' q)) in
      case Option.bind token (\<lambda>t. usable_invite d0 t now) of
        None \<Rightarrow> invalid
      | Some (seen, _) \<Rightarrow>
          (case user of
             Some user \<Rightarrow>
               (case accept_signed_in user seen now (w_db st) of
                  Inl OtherAccount \<Rightarrow> other_account seen st
                | Inl (Failed err) \<Rightarrow> (st, WebFailed err)
                | Inl _ \<Rightarrow> invalid
                | Inr (d1, i) \<Rightarrow>
                    (let st1 = st\<lparr>w_db := d1, w_session := ws_put TEAM_KEY (JNumber (inv_team_id i)) (w_session st)\<rparr> in
                     case remember_team user (inv_team_id i) now d1 of
                       Inl err \<Rightarrow> (st1, WebFailed err)
                     | Inr d2 \<Rightarrow>
                         (st1\<lparr>w_db := d2, w_session := ws_flash_put ''success''
                            (JString (if role_of (w_db st) (inv_team_id i) (u_id user) \<noteq> None then ''You are already a member of this team''
                                      else ''You joined the team'')) (w_session st1)\<rparr>, RedirectedTo ''/'')))
           | None \<Rightarrow>
               if find_by_email d0 (inv_email seen) \<noteq> None then sign_in_first seen st
               else
                 (case validated of
                    Inl messages \<Rightarrow>
                      (st\<lparr>w_session := form_flash (form_new messages input) (w_session st)\<rparr>, RedirectedTo (redirect_back e headers here))
                  | Inr (name, pass) \<Rightarrow>
                      (case accept_visitor (with_password hash_password (inv_email seen) (Some name) pass) seen now (w_db st) of
                         Inl SignInFirst \<Rightarrow>
                           sign_in_first (case find_usable (w_db st) (inv_token seen) now of Some i \<Rightarrow> i | None \<Rightarrow> seen) st
                       | Inl (Failed err) \<Rightarrow> (st, WebFailed err)
                       | Inl _ \<Rightarrow> invalid
                       | Inr (d1, created, i) \<Rightarrow>
                           (case sign_in e secret ms created (st\<lparr>w_db := d1\<rparr>) of
                              (st1, Inl err) \<Rightarrow> (st1, WebFailed err)
                            | (st1, Inr _) \<Rightarrow>
                                greeted (with_query ''/'' q)
                                  (st1\<lparr>w_session := ws_put TEAM_KEY (JNumber (inv_team_id i)) (w_session st1)\<rparr>, Inr ()))))))"

section \<open>The second step\<close>

definition second_step ::
  "web_env \<Rightarrow> ((string \<times> string) list, string) result \<Rightarrow> string \<Rightarrow> int \<Rightarrow> db \<Rightarrow> web_state \<Rightarrow> web_state \<times> web_answer" where
  "second_step e validated secret ms d0 st =
     (let (s1, awaited) = pending_sign_in ms d0 (w_session st); st1 = st\<lparr>w_session := s1\<rparr> in
      case awaited of
        None \<Rightarrow>
          (st1\<lparr>w_session := ws_flash_put ''error'' (JString ''Sign in again: the second step took too long'') s1\<rparr>, RedirectedTo ''/login'')
      | Some (user, q) \<Rightarrow>
          (case validated of
             Inl messages \<Rightarrow> (st1\<lparr>w_session := form_flash (form_new messages []) s1\<rparr>, RedirectedTo SECOND_STEP_PATH)
           | Inr code \<Rightarrow>
               (let key = ''second-step:'' @ show_int (u_id user);
                    (ll, refused) = web_consume (lm_login (w_limiters st1)) key ms;
                    st2 = st1\<lparr>w_limiters := (w_limiters st1)\<lparr>lm_login := ll\<rparr>\<rparr> in
                case refused of
                  Some r \<Rightarrow> (st2, TooManyWeb r)
                | None \<Rightarrow>
                    (let (d1, by_app) = accept_authenticator_code (we_hmac_sha1 e) (we_decrypt e) user code (ms div 1000) (w_db st2);
                         (d2, by_recovery_code) = (if by_app then (d1, False)
                                                   else recovery_consume (we_sha256_hex e) (u_id user) code (ms div 1000) d1);
                         st3 = st2\<lparr>w_db := d2\<rparr> in
                     if \<not> by_app \<and> \<not> by_recovery_code
                     then (st3\<lparr>w_session := form_flash (form_new [(''code'', ''This code is not valid'')] []) (w_session st3)\<rparr>,
                           RedirectedTo SECOND_STEP_PATH)
                     else
                       (case finish_sign_in e secret ms user q (st3\<lparr>w_limiters := (w_limiters st3)\<lparr>lm_login := limiter_delete ll key\<rparr>\<rparr>) of
                          (st4, Inl err) \<Rightarrow> (st4, WebFailed err)
                        | (st4, Inr destination) \<Rightarrow>
                            (if by_recovery_code
                             then st4\<lparr>w_session := ws_flash_put ''success'' (JString (''Signed in with a recovery code: ''
                                    @ show_nat (recovery_remaining (w_db st4) (u_id user)) @ '' left. Make new ones under Settings.'')) (w_session st4)\<rparr>
                             else st4, RedirectedTo destination))))))"

section \<open>Signing in with a passkey\<close>

record Ceremony =
  ce_challenge :: string
  ce_at :: int
  ce_adding :: "(int \<times> string) option"

definition ceremony_value :: "Ceremony \<Rightarrow> Value" where
  "ceremony_value c =
     JObject [(''challenge'', JString (ce_challenge c)), (''at'', JNumber (ce_at c)),
              (''adding'', case ce_adding c of Some (i, name) \<Rightarrow> JArray [JNumber i, JString name] | None \<Rightarrow> JNull)]"

fun read_adding :: "Value option \<Rightarrow> (int \<times> string) option option" where
  "read_adding None = Some None"
| "read_adding (Some JNull) = Some None"
| "read_adding (Some (JArray [n, JString name])) = map_option (\<lambda>i. Some (i, name)) (as_i64 n)"
| "read_adding _ = None"

definition read_ceremony :: "Value option \<Rightarrow> Ceremony option" where
  "read_ceremony stored =
     (case stored of
        Some (JObject members) \<Rightarrow>
          (case (as_str (json_get members ''challenge''), Option.bind (json_get members ''at'') as_i64, read_adding (json_get members ''adding'')) of
             (Some challenge, Some at, Some adding) \<Rightarrow> Some \<lparr>ce_challenge = challenge, ce_at = at, ce_adding = adding\<rparr>
           | _ \<Rightarrow> None)
      | _ \<Rightarrow> None)"

definition begin_ceremony :: "string \<Rightarrow> (int \<times> string) option \<Rightarrow> int \<Rightarrow> WebSession \<Rightarrow> WebSession" where
  "begin_ceremony drawn adding ms =
     ws_put CEREMONY_KEY (ceremony_value \<lparr>ce_challenge = drawn, ce_at = ms div 1000 * 1000, ce_adding = adding\<rparr>)"

text \<open>A challenge is answered once: the session forgets it, and an allowance of one remembers it was answered.\<close>

definition take_ceremony :: "web_env \<Rightarrow> int \<Rightarrow> web_state \<Rightarrow> web_state \<times> Ceremony option" where
  "take_ceremony e ms st =
     (let (s1, stored) = ws_pull CEREMONY_KEY (w_session st); st1 = st\<lparr>w_session := s1\<rparr> in
      case read_ceremony stored of
        None \<Rightarrow> (st1, None)
      | Some c \<Rightarrow>
          if \<not> is_recent ms (ce_at c) CEREMONY_MS then (st1, None)
          else
            (let (lp, first) = attempt (lm_passkey_challenge (w_limiters st1)) (''passkey-challenge:'' @ we_sha256_hex e (ce_challenge c)) ms ms in
             (st1\<lparr>w_limiters := (w_limiters st1)\<lparr>lm_passkey_challenge := lp\<rparr>\<rparr>, if first then Some c else None)))"

record PasskeyAnswer =
  an_id :: string
  an_client_data_json :: string
  an_authenticator_data :: string
  an_signature :: string

definition passkey_address_key :: "string \<Rightarrow> string" where
  "passkey_address_key ip = ''login-address:'' @ rate_limit_client_key ip"

definition sign_in_options :: "web_env \<Rightarrow> string \<Rightarrow> string \<Rightarrow> int \<Rightarrow> db \<Rightarrow> web_state \<Rightarrow> web_state \<times> web_answer" where
  "sign_in_options e ip drawn ms d0 st =
     (if we_relying_party e = None then (st, PasskeyRefused ''Passkeys need APP_URL to be the address of this instance'')
      else
        (let (la, refused) = web_consume (lm_login_address (w_limiters st)) (passkey_address_key ip) ms;
             st1 = st\<lparr>w_limiters := (w_limiters st)\<lparr>lm_login_address := la\<rparr>\<rparr> in
         case refused of
           Some r \<Rightarrow> (st1, TooManyWeb r)
         | None \<Rightarrow>
             (let (s1, awaited) = pending_sign_in ms d0 (w_session st1);
                  allowed = (case awaited of Some (user, _) \<Rightarrow> passkeys_of_user d0 (u_id user) | None \<Rightarrow> []) in
              (st1\<lparr>w_session := begin_ceremony drawn None ms s1\<rparr>, PasskeyOptions drawn (map credential_id allowed)))))"

definition verified_assertion :: "web_env \<Rightarrow> string \<times> string \<Rightarrow> string \<Rightarrow> Passkey \<Rightarrow> PasskeyAnswer \<Rightarrow> (string, Assertion) result" where
  "verified_assertion e rp challenge passkey given =
     (case (we_decode e challenge, we_decode e (public_key passkey), we_decode e (an_client_data_json given),
            we_decode e (an_authenticator_data given), we_decode e (an_signature given)) of
        (Some c, Some key, Some client_data, Some authenticator_data, Some signature) \<Rightarrow>
          (case we_verify_assertion e rp c key client_data authenticator_data signature of
             Inl reason \<Rightarrow> Inl (''The passkey was refused: '' @ reason @ ''.'')
           | Inr assertion \<Rightarrow> Inr assertion)
      | _ \<Rightarrow> Inl ''The answer of the browser could not be read. Try again.'')"

definition sign_in_with_passkey ::
  "web_env \<Rightarrow> PasskeyAnswer option \<Rightarrow> string \<Rightarrow> string \<Rightarrow> int \<Rightarrow> db \<Rightarrow> web_state \<Rightarrow> web_state \<times> web_answer" where
  "sign_in_with_passkey e validated ip secret ms d0 st =
     (case (validated, we_relying_party e) of
        (None, _) \<Rightarrow> (st, PasskeyRefused ''The answer of the browser could not be read. Try again.'')
      | (Some _, None) \<Rightarrow> (st, PasskeyRefused ''Passkeys need APP_URL to be the address of this instance'')
      | (Some given, Some rp) \<Rightarrow>
          (case take_ceremony e ms st of
             (st1, None) \<Rightarrow> (st1, PasskeyRefused ''The request expired. Try again.'')
           | (st1, Some ceremony) \<Rightarrow>
               if ce_adding ceremony \<noteq> None then (st1, PasskeyRefused ''The request expired. Try again.'')
               else
                 (let (s2, awaited) = pending_sign_in ms d0 (w_session st1); st2 = st1\<lparr>w_session := s2\<rparr> in
                  case find_by_credential_id d0 (an_id given) of
                    None \<Rightarrow> (st2, PasskeyRefused ''This passkey is not one of this instance'')
                  | Some passkey \<Rightarrow>
                      if (case awaited of Some (user, _) \<Rightarrow> u_id user \<noteq> pk_user_id passkey | None \<Rightarrow> False)
                      then (st2, PasskeyRefused ''This passkey is the one of another account'')
                      else
                        (case verified_assertion e rp (ce_challenge ceremony) passkey given of
                           Inl reason \<Rightarrow> (st2, PasskeyRefused reason)
                         | Inr assertion \<Rightarrow>
                             (let (d1, used) = record_use passkey assertion (ms div 1000) (w_db st2); st3 = st2\<lparr>w_db := d1\<rparr> in
                              if \<not> used
                              then (st3, PasskeyRefused ''The passkey was refused: a copy of it was used since. Remove it under Settings and add it again.'')
                              else
                                (case find_user d1 (pk_user_id passkey) of
                                   None \<Rightarrow> (st3, PasskeyRefused ''This passkey is not one of this instance'')
                                 | Some user \<Rightarrow>
                                     (let st4 = st3\<lparr>w_limiters := (w_limiters st3)\<lparr>lm_login_address :=
                                                decrement (lm_login_address (w_limiters st3)) (passkey_address_key ip) ms ms\<rparr>\<rparr> in
                                      case finish_sign_in e secret ms user (Option.bind awaited snd) st4 of
                                        (st5, Inl err) \<Rightarrow> (st5, WebFailed err)
                                      | (st5, Inr destination) \<Rightarrow> (st5, RedirectedTo destination))))))))"

definition logout_handler :: "web_env \<Rightarrow> User \<Rightarrow> string option \<Rightarrow> int \<Rightarrow> web_state \<Rightarrow> web_state \<times> web_answer" where
  "logout_handler e user q ms st =
     (case logout user (w_db st) of
        Inl err \<Rightarrow> (st, WebFailed err)
      | Inr d1 \<Rightarrow> (sign_out e ms (st\<lparr>w_db := d1\<rparr>), RedirectedTo (with_query ''/login'' q)))"

section \<open>What a session keeps\<close>

lemmas web_keys = LOGIN_KEY_def SESSION_STAMP_KEY_def TEAM_KEY_def PENDING_KEY_def CEREMONY_KEY_def CSRF_SECRET_KEY_def FLASH_KEY_def

lemma session_get_put: "session_get (session_put k v s) k' = (if k' = k then Some v else session_get s k')"
proof -
  have "map_of (map (\<lambda>m. if fst m = k then (k, v) else m) xs) k' = map_of xs k'" if "k' \<noteq> k" for xs
    using that by (induction xs) auto
  then show ?thesis
    using put_get [of k v s] by (cases "k' = k") (auto simp: session_get_def session_put_def set_member_def map_add_def split: option.split)
qed

lemma session_get_forget: "session_get (session_forget k s) k' = (if k' = k then None else session_get s k')"
proof -
  have "map_of (filter (\<lambda>m. fst m \<noteq> k) xs) k' = (if k' = k then None else map_of xs k')" for xs :: session
    by (induction xs) auto
  then show ?thesis by (simp add: session_get_def session_forget_def)
qed

lemma ws_get_simps [simp]:
  "ws_get (ws_put k v s) k' = (if k' = k then Some v else ws_get s k')"
  "ws_get (ws_forget k s) k' = (if k' = k then None else ws_get s k')"
  "ws_get (ws_flash_put k v s) k' = ws_get s k'"
  "ws_get (form_flash form s) k' = ws_get s k'"
  by (simp_all add: ws_get_def ws_put_def ws_forget_def ws_flash_put_def form_flash_def session_get_put session_get_forget)

lemma login_kept [simp]:
  "ws_get (forget_pending_sign_in s) LOGIN_KEY = ws_get s LOGIN_KEY"
  "ws_get (forget_csrf_secret s) LOGIN_KEY = ws_get s LOGIN_KEY"
  "ws_get (stamp_session user ms s) LOGIN_KEY = ws_get s LOGIN_KEY"
  "ws_get (fst (begin_second_step user q ms s)) LOGIN_KEY = ws_get s LOGIN_KEY"
  "ws_get (begin_ceremony drawn adding ms s) LOGIN_KEY = ws_get s LOGIN_KEY"
  "ws_get (fst (pending_sign_in ms d0 s)) LOGIN_KEY = ws_get s LOGIN_KEY"
  "ws_get (fst (signed_in_destination q s)) LOGIN_KEY = ws_get s LOGIN_KEY"
  by (auto simp: forget_pending_sign_in_def forget_csrf_secret_def stamp_session_def begin_second_step_def begin_ceremony_def pending_sign_in_def
      signed_in_destination_def ws_pull_def web_keys Let_def split: option.split if_split)

lemma forgotten_login [simp]: "ws_get (forget_session_login s) LOGIN_KEY = None"
  by (simp add: forget_session_login_def web_keys)

lemma create_remember_token_session:
  "create_remember_token e secret ms user st = (st', r) \<Longrightarrow> w_session st' = w_session st"
  by (auto simp: create_remember_token_def Let_def split: sum.split_asm prod.split_asm)

lemma sign_in_login:
  "sign_in e secret ms user st = (st', Inl err) \<Longrightarrow> ws_get (w_session st') LOGIN_KEY = ws_get (w_session st) LOGIN_KEY"
  "sign_in e secret ms user st = (st', Inr x) \<Longrightarrow> ws_get (w_session st') LOGIN_KEY = Some (JNumber (u_id user))"
  by (auto simp: sign_in_def create_remember_token_session split: prod.split_asm sum.split_asm)

section \<open>Properties\<close>

text \<open>How a session speaks for an account: it names the account, with a stamp that is alive and of the version the account has now.\<close>

definition session_vouches :: "int \<Rightarrow> WebSession \<Rightarrow> User \<Rightarrow> bool" where
  "session_vouches ms s u \<longleftrightarrow>
     (\<exists>login stamp. ws_get s LOGIN_KEY = Some login \<and> as_i64 login = Some (u_id u) \<and> read_stamp s = Some stamp
        \<and> \<not> stamp_expired stamp ms \<and> sv_version stamp = session_version u)"

text \<open>How the remember-me cookie does: it holds the secret of a live token of the account.\<close>

definition remember_vouches :: "web_env \<Rightarrow> int \<Rightarrow> Cookies \<Rightarrow> db \<Rightarrow> User \<Rightarrow> bool" where
  "remember_vouches e ms cookies d u \<longleftrightarrow>
     (\<exists>secret. \<exists>row \<in> set (rows (remember_me_tokens d)). decode_remember_cookie e ms cookies = Some (rm_id row, secret)
        \<and> rm_hash row = we_sha256_hex e secret \<and> ms div 1000 \<le> rm_expires_at row div 1000 \<and> rm_tokenable_id row = u_id u)"

lemma find_user_Some: "find_user d i = Some u \<Longrightarrow> u \<in> set (rows (users d)) \<and> u_id u = i"
  by (auto simp: find_user_def dest: find_row_Some)

lemma remembered_vouches:
  assumes "remembered_user e ms d0 cookies = Some (i, u)"
  shows "u \<in> set (rows (users d0)) \<and> remember_vouches e ms cookies d0 u"
  using assms
  by (fastforce simp: remembered_user_def remember_vouches_def bind_eq_Some_conv not_less split: if_split_asm
      dest!: find_row_Some)

lemma authenticate_who:
  assumes "authenticate e secret ms d0 st = (st1, Inr (Some u, via))"
  shows "u \<in> set (rows (users d0)) \<and>
    (if via then ws_get (w_session st) LOGIN_KEY = None \<and> remember_vouches e ms (w_cookies st) d0 u
     else st1 = st \<and> (\<exists>login. ws_get (w_session st) LOGIN_KEY = Some login \<and> as_i64 login = Some (u_id u)))"
proof (cases "ws_get (w_session st) LOGIN_KEY")
  case None
  then obtain i where "remembered_user e ms d0 (w_cookies st) = Some (i, u)" "via"
    using assms
    by (auto simp: authenticate_def authenticate_via_remember_cookie_def go_on_def Let_def split: prod.split_asm sum.split_asm option.split_asm)
  then show ?thesis using None remembered_vouches by auto
next
  case (Some login)
  then show ?thesis using assms by (auto simp: authenticate_def bind_eq_Some_conv dest: find_user_Some)
qed

text \<open>C3: A request is someone's only with proof. Whoever a request comes from, as the layer in front of every page finds it, is an
  account of the instance for which either the session speaks, with a stamp neither idle nor too old and of the version the
  account has now, or the remember-me cookie does, with the secret of a live token. A session copied before a sign-out or a change
  of password therefore speaks for nobody, since both raise the version.\<close>

theorem request_needs_proof:
  assumes "silent_auth e secret ms d0 st = (st', Inr auth)" and "au_user auth = Some u"
  shows "u \<in> set (rows (users d0)) \<and> (session_vouches ms (w_session st) u \<or> remember_vouches e ms (w_cookies st) d0 u)"
proof -
  define found where "found = (if ws_has (w_session st) LOGIN_KEY then read_stamp (w_session st) else None)"
  define dropped where "dropped \<longleftrightarrow> ws_has (w_session st) LOGIN_KEY \<and> (case found of None \<Rightarrow> True | Some stamp \<Rightarrow> stamp_expired stamp ms)"
  define st0 where "st0 = (if dropped then st\<lparr>w_session := forget_session_login (w_session st)\<rparr> else st)"
  define stamp0 where "stamp0 = (if dropped then None else found)"
  obtain st1 user1 via1 where first: "authenticate e secret ms d0 st0 = (st1, Inr (user1, via1))"
    using assms(1) unfolding silent_auth_def Let_def found_def [symmetric] dropped_def [symmetric] st0_def [symmetric]
    by (cases "authenticate e secret ms d0 st0") (auto simp: go_on_def split: sum.split_asm prod.split_asm)
  obtain st2 via where second: "(if stamp_retired stamp0 user1 then authenticate e secret ms d0 (st1\<lparr>w_session := forget_session_login (w_session st1)\<rparr>)
      else (st1, Inr (user1, via1))) = (st2, Inr (Some u, via))"
    using assms unfolding silent_auth_def Let_def found_def [symmetric] dropped_def [symmetric] st0_def [symmetric] stamp0_def [symmetric]
      first
    by (auto simp: go_on_def nobody_def split: sum.split_asm prod.split_asm option.split_asm)
  show ?thesis
  proof (cases "stamp_retired stamp0 user1")
    case True
    then obtain x stamp where x: "user1 = Some x" "stamp0 = Some stamp"
      by (auto simp: stamp_retired_def split: option.split_asm)
    then have "ws_get (w_session st0) LOGIN_KEY \<noteq> None"
      by (auto simp: stamp0_def st0_def found_def ws_has_def split: if_split_asm)
    then have "st1 = st0" "\<not> dropped" using authenticate_who [of e secret ms d0 st0 st1 x via1] first x by (auto simp: stamp0_def split: if_split_asm)
    then show ?thesis using True second authenticate_who [of e secret ms d0 "st1\<lparr>w_session := forget_session_login (w_session st1)\<rparr>" st2 u via]
      by (auto simp: st0_def split: if_split_asm)
  next
    case False
    then have u: "user1 = Some u" using second by simp
    show ?thesis
    proof (cases via1)
      case True
      then show ?thesis using authenticate_who [of e secret ms d0 st0 st1 u via1] first u by (cases dropped) (auto simp: st0_def)
    next
      case via1: False
      then obtain login where login: "ws_get (w_session st0) LOGIN_KEY = Some login" "as_i64 login = Some (u_id u)" "u \<in> set (rows (users d0))"
        using authenticate_who [of e secret ms d0 st0 st1 u via1] first u by auto
      then have kept: "\<not> dropped" by (auto simp: st0_def)
      then obtain stamp where stamp: "found = Some stamp" "\<not> stamp_expired stamp ms"
        using login by (auto simp: dropped_def st0_def ws_has_def split: option.split_asm)
      then have "sv_version stamp = session_version u" using False kept u by (simp add: stamp_retired_def stamp0_def)
      then show ?thesis
        using login stamp kept by (auto simp: session_vouches_def st0_def found_def split: if_split_asm)
    qed
  qed
qed

text \<open>What is given to sign in, and when it proves who someone is: the password of an account without protection; a code after
  the password, of the app or from the recovery codes, within ten minutes and before the account's sessions were retired; the answer of a
  passkey to the challenge of this browser. Who signs up, while anyone may, as the first of the instance or with an invite,
  is the account that this very request makes.\<close>

datatype given =
    GivenPassword string string | GivenCode string | GivenPasskey PasskeyAnswer
  | GivenSignUp bool bool | GivenFirst | GivenInvite "string option"

inductive sign_in_step :: "web_env \<Rightarrow> int \<Rightarrow> db \<Rightarrow> given \<Rightarrow> web_state \<Rightarrow> web_state \<Rightarrow> bool" for e ms d0 where
  by_password: "login e (Inr (mail, pass)) input headers ip q secret ms d0 st = (st', a) \<Longrightarrow> sign_in_step e ms d0 (GivenPassword mail pass) st st'"
| by_code: "second_step e (Inr code) secret ms d0 st = (st', a) \<Longrightarrow> sign_in_step e ms d0 (GivenCode code) st st'"
| by_passkey: "sign_in_with_passkey e (Some answer) ip secret ms d0 st = (st', a) \<Longrightarrow> sign_in_step e ms d0 (GivenPasskey answer) st st'"
| by_sign_up:
    "register_handler e hash_password open_before open_now asked validated input headers ip q secret ms d0 st = (st', a) \<Longrightarrow>
     sign_in_step e ms d0 (GivenSignUp open_before open_now) st st'"
| by_onboarding:
    "onboarding_handler e hash_password asked validated input headers q secret ms d0 st = (st', a) \<Longrightarrow> sign_in_step e ms d0 GivenFirst st st'"
| by_invite:
    "accept_handler e hash_password user token validated input headers here q secret ms d0 st = (st', a) \<Longrightarrow>
     sign_in_step e ms d0 (GivenInvite token) st st'"

definition code_accepted :: "web_env \<Rightarrow> int \<Rightarrow> db \<Rightarrow> User \<Rightarrow> string \<Rightarrow> bool" where
  "code_accepted e ms d u code \<longleftrightarrow>
     (let (d1, by_app) = accept_authenticator_code (we_hmac_sha1 e) (we_decrypt e) u code (ms div 1000) d in
      by_app \<or> snd (recovery_consume (we_sha256_hex e) (u_id u) code (ms div 1000) d1))"

definition awaited_user :: "int \<Rightarrow> db \<Rightarrow> WebSession \<Rightarrow> User \<Rightarrow> bool" where
  "awaited_user ms d0 s u \<longleftrightarrow>
     (\<exists>p. read_pending s = Some p \<and> is_recent ms (pe_at p) PENDING_MS \<and> find_user d0 (pe_user_id p) = Some u
        \<and> session_version u = pe_session_version p)"

definition passkey_accepted :: "web_env \<Rightarrow> int \<Rightarrow> db \<Rightarrow> web_state \<Rightarrow> User \<Rightarrow> PasskeyAnswer \<Rightarrow> bool" where
  "passkey_accepted e ms d0 st u answer \<longleftrightarrow>
     (\<exists>rp c passkey assertion. we_relying_party e = Some rp \<and> read_ceremony (ws_get (w_session st) CEREMONY_KEY) = Some c
        \<and> is_recent ms (ce_at c) CEREMONY_MS \<and> ce_adding c = None \<and> find_by_credential_id d0 (an_id answer) = Some passkey
        \<and> pk_user_id passkey = u_id u \<and> verified_assertion e rp (ce_challenge c) passkey answer = Inr assertion
        \<and> snd (record_use passkey assertion (ms div 1000) (w_db st)))"

text \<open>An account made by a request: under a new id and an address nobody had, and there it is.\<close>

definition new_account :: "db \<Rightarrow> db \<Rightarrow> User \<Rightarrow> bool" where
  "new_account d d' u \<longleftrightarrow>
     u_id u = seq (users d) + 1 \<and> find_by_email d (email u) = None
     \<and> (\<exists>x \<in> set (rows (users d')). u_id x = u_id u \<and> email x = email u \<and> password x = password u)"

fun proves :: "web_env \<Rightarrow> int \<Rightarrow> db \<Rightarrow> web_state \<Rightarrow> web_state \<Rightarrow> given \<Rightarrow> User \<Rightarrow> bool" where
  "proves e ms d0 st st' (GivenPassword mail pass) u \<longleftrightarrow> verify_credentials (we_verify_password e) d0 mail pass = Some u \<and> \<not> is_protected d0 u"
| "proves e ms d0 st st' (GivenCode code) u \<longleftrightarrow> awaited_user ms d0 (w_session st) u \<and> code_accepted e ms (w_db st) u code"
| "proves e ms d0 st st' (GivenPasskey answer) u \<longleftrightarrow> passkey_accepted e ms d0 st u answer"
| "proves e ms d0 st st' (GivenSignUp open_before open_now) u \<longleftrightarrow> open_before \<and> open_now \<and> new_account (w_db st) (w_db st') u"
| "proves e ms d0 st st' GivenFirst u \<longleftrightarrow> \<not> setup_complete (w_db st) \<and> new_account (w_db st) (w_db st') u"
| "proves e ms d0 st st' (GivenInvite token) u \<longleftrightarrow>
     (\<exists>t i. token = Some t \<and> find_usable (w_db st) t (ms div 1000) = Some i \<and> email u = inv_email i)
     \<and> new_account (w_db st) (w_db st') u"

lemma pending_sign_in_awaited: "pending_sign_in ms d0 s = (s1, Some (u, q)) \<Longrightarrow> awaited_user ms d0 s u"
  by (auto simp: pending_sign_in_def awaited_user_def split: option.split_asm if_split_asm)

lemma pending_sign_in_login: "pending_sign_in ms d0 s = (s1, r) \<Longrightarrow> ws_get s1 LOGIN_KEY = ws_get s LOGIN_KEY"
  using login_kept(6) [of ms d0 s] by simp

lemma begin_second_step_login: "begin_second_step user q ms s = (s1, r) \<Longrightarrow> ws_get s1 LOGIN_KEY = ws_get s LOGIN_KEY"
  using login_kept(4) [of user q ms s] by simp

lemma destination_login: "signed_in_destination q s = (s1, r) \<Longrightarrow> ws_get s1 LOGIN_KEY = ws_get s LOGIN_KEY"
  using login_kept(7) [of q s] by simp

lemma finish_sign_in_login:
  assumes "finish_sign_in e secret ms user q st = (st', r)"
  shows "ws_get (w_session st') LOGIN_KEY \<in> {ws_get (w_session st) LOGIN_KEY, Some (JNumber (u_id user))}"
  using assms
  by (auto simp: finish_sign_in_def destination_login split: prod.split_asm sum.split_asm dest: sign_in_login)

lemma take_ceremony_Some:
  assumes "take_ceremony e ms st = (st', r)"
  shows "ws_get (w_session st') LOGIN_KEY = ws_get (w_session st) LOGIN_KEY" "w_db st' = w_db st"
    "r = Some c \<Longrightarrow> read_ceremony (ws_get (w_session st) CEREMONY_KEY) = Some c \<and> is_recent ms (ce_at c) CEREMONY_MS"
  using assms
  by (auto simp: take_ceremony_def ws_pull_def web_keys Let_def split: prod.split_asm option.split_asm if_split_asm)

lemma login_proof:
  assumes "login e (Inr (mail, pass)) input headers ip q secret ms d0 st = (st', a)"
    and "ws_get (w_session st') LOGIN_KEY \<noteq> ws_get (w_session st) LOGIN_KEY"
  shows "\<exists>u. ws_get (w_session st') LOGIN_KEY = Some (JNumber (u_id u)) \<and> proves e ms d0 st st' (GivenPassword mail pass) u"
  using assms
  by (auto simp: login_def Let_def begin_second_step_login destination_login
      split: prod.split_asm sum.split_asm option.split_asm if_split_asm dest!: sign_in_login)

lemma second_step_proof:
  assumes "second_step e (Inr code) secret ms d0 st = (st', a)"
    and "ws_get (w_session st') LOGIN_KEY \<noteq> ws_get (w_session st) LOGIN_KEY"
  shows "\<exists>u. ws_get (w_session st') LOGIN_KEY = Some (JNumber (u_id u)) \<and> proves e ms d0 st st' (GivenCode code) u"
proof -
  obtain s1 awaited where p: "pending_sign_in ms d0 (w_session st) = (s1, awaited)" by fastforce
  have s1: "ws_get s1 LOGIN_KEY = ws_get (w_session st) LOGIN_KEY" using pending_sign_in_login [OF p] .
  show ?thesis
  proof (cases awaited)
    case None
    then show ?thesis using assms p s1 by (auto simp: second_step_def)
  next
    case (Some uq)
    obtain user q where uq: "uq = (user, q)" by fastforce
    obtain d1 by_app where d1: "accept_authenticator_code (we_hmac_sha1 e) (we_decrypt e) user code (ms div 1000) (w_db st) = (d1, by_app)" by fastforce
    obtain d2 by_code where d2: "(if by_app then (d1, False) else recovery_consume (we_sha256_hex e) (u_id user) code (ms div 1000) d1) = (d2, by_code)"
      by fastforce
    have accepted: "code_accepted e ms (w_db st) user code" if "by_app \<or> by_code"
      using that d1 d2 by (auto simp: code_accepted_def split: if_split_asm)
    have "awaited_user ms d0 (w_session st) user" using pending_sign_in_awaited p Some uq by blast
    then show ?thesis
      using assms p s1 Some uq d1 d2 accepted
      by (auto simp: second_step_def Let_def split: prod.split_asm sum.split_asm option.split_asm if_split_asm dest!: finish_sign_in_login)
  qed
qed

lemma passkey_proof:
  assumes "sign_in_with_passkey e (Some answer) ip secret ms d0 st = (st', a)"
    and "ws_get (w_session st') LOGIN_KEY \<noteq> ws_get (w_session st) LOGIN_KEY"
  shows "\<exists>u. ws_get (w_session st') LOGIN_KEY = Some (JNumber (u_id u)) \<and> proves e ms d0 st st' (GivenPasskey answer) u"
proof -
  obtain st1 r where c: "take_ceremony e ms st = (st1, r)" by fastforce
  obtain s2 awaited where p: "pending_sign_in ms d0 (w_session st1) = (s2, awaited)" by fastforce
  have s2: "ws_get s2 LOGIN_KEY = ws_get (w_session st) LOGIN_KEY" "w_db st1 = w_db st"
    using pending_sign_in_login [OF p] take_ceremony_Some(1,2) [OF c] by simp_all
  note taken = take_ceremony_Some(3) [OF c]
  show ?thesis
    using assms c p s2 taken take_ceremony_Some(1) [OF c]
    by (auto simp: sign_in_with_passkey_def passkey_accepted_def Let_def split: prod.split_asm sum.split_asm option.split_asm if_split_asm
        dest!: finish_sign_in_login find_user_Some simp del: not_None_eq)
qed

text \<open>Making an account.\<close>

lemma insert_user_new:
  assumes "insert_user user now d = Inr (d1, u)" and "find_by_email d (email user) = None"
  shows "new_account d d1 u" "email u = email user"
  using assms by (auto simp: insert_user_def new_account_def Let_def result_simps)

lemma new_account_users: "users d' = users d1 \<Longrightarrow> new_account d d1 u \<Longrightarrow> new_account d d' u"
  unfolding new_account_def by (erule ssubst)

lemma attach_users: "attach t u role now d = Inr d' \<Longrightarrow> users d' = users d"
  by (auto simp: attach_def insert_team_member_def result_simps)

lemma create_new:
  assumes "create user now d = Inr (d', u, team)" and "find_by_email d (email user) = None"
  shows "new_account d d' u" "email u = email user"
proof -
  obtain d1 where u: "insert_user user now d = Inr (d1, u)" and "create_personal u now d1 = Inr (d', team)"
    using assms(1) by (auto simp: create_def result_simps)
  then have "users d' = users d1"
    by (auto simp: create_personal_def insert_team_def Let_def result_simps dest!: attach_users)
  then show "new_account d d' u" "email u = email user"
    using insert_user_new [OF u assms(2)] new_account_users by auto
qed

lemma sign_in_users: "sign_in e secret ms user st = (st', r) \<Longrightarrow> users (w_db st') = users (w_db st)"
  by (auto simp: sign_in_def create_remember_token_def insert_remember_token_def Let_def result_simps
      split: prod.split_asm sum.split_asm)

lemma signed_up:
  assumes "sign_in e secret ms u (st\<lparr>w_db := d1\<rparr>) = (st1, r)" and "new_account (w_db st) d1 u"
  shows "new_account (w_db st) (w_db st1) u"
    "ws_get (w_session st1) LOGIN_KEY \<in> {ws_get (w_session st) LOGIN_KEY, Some (JNumber (u_id u))}"
proof -
  show "new_account (w_db st) (w_db st1) u" using sign_in_users [OF assms(1)] assms(2) new_account_users by simp
  show "ws_get (w_session st1) LOGIN_KEY \<in> {ws_get (w_session st) LOGIN_KEY, Some (JNumber (u_id u))}"
    using assms(1) by (cases r) (auto dest: sign_in_login)
qed

lemma form_flash_login [simp]: "ws_get (form_flash form s) LOGIN_KEY = ws_get s LOGIN_KEY"
  by (simp add: form_flash_def)

lemma sign_up_proof:
  assumes "register_handler e hash_password open_before open_now asked validated input headers ip q secret ms d0 st = (st', a)"
    and "ws_get (w_session st') LOGIN_KEY \<noteq> ws_get (w_session st) LOGIN_KEY"
  shows "\<exists>u. ws_get (w_session st') LOGIN_KEY = Some (JNumber (u_id u)) \<and> proves e ms d0 st st' (GivenSignUp open_before open_now) u"
proof -
  obtain lr refused where l: "web_consume (lm_registration (w_limiters st)) (''registration:'' @ rate_limit_client_key ip) ms = (lr, refused)"
    by fastforce
  define st1 where "st1 = st\<lparr>w_limiters := (w_limiters st)\<lparr>lm_registration := lr\<rparr>\<rparr>"
  obtain user d1 u where made: "register open_now user (ms div 1000) (w_db st) = Inr (d1, u)" "open_before"
      "greeted (with_query ''/'' q) (sign_in e secret ms u (st1\<lparr>w_db := d1\<rparr>)) = (st', a)"
    using assms l
    by (auto simp: register_handler_def st1_def Let_def split: if_split_asm prod.split_asm option.split_asm sum.split_asm web_error.split_asm)
  have "open_now" "new_account (w_db st1) d1 u"
    using made(1) by (auto simp: register_def result_simps st1_def intro: create_new)
  moreover obtain st2 r where s: "sign_in e secret ms u (st1\<lparr>w_db := d1\<rparr>) = (st2, r)" by fastforce
  moreover have "w_db st' = w_db st2" "ws_get (w_session st') LOGIN_KEY = ws_get (w_session st2) LOGIN_KEY"
    using made(3) by (auto simp: greeted_def s split: sum.split_asm)
  moreover have "w_db st1 = w_db st" "w_session st1 = w_session st" by (simp_all add: st1_def)
  ultimately show ?thesis using signed_up [OF s] assms(2) made(2) by auto
qed

lemma onboarding_proof:
  assumes "onboarding_handler e hash_password asked validated input headers q secret ms d0 st = (st', a)"
    and "ws_get (w_session st') LOGIN_KEY \<noteq> ws_get (w_session st) LOGIN_KEY"
  shows "\<exists>u. ws_get (w_session st') LOGIN_KEY = Some (JNumber (u_id u)) \<and> proves e ms d0 st st' GivenFirst u"
proof -
  obtain user d1 u r where made: "onboarding user (ms div 1000) (w_db st) = Inr (d1, Some u)"
      "sign_in e secret ms u (st\<lparr>w_db := d1\<rparr>) = (st', r)"
    using assms by (auto simp: onboarding_handler_def split: sum.split_asm prod.split_asm option.split_asm)
  have first: "\<not> setup_complete (w_db st)" using made(1) by (auto simp: onboarding_def split: if_split_asm)
  then have empty: "find_by_email (w_db st) mail = None" for mail
    by (simp add: setup_complete_def count_rows_def count_where_zero_iff find_by_email_def)
  obtain d2 where "insert_user (user\<lparr>is_super_admin := True\<rparr>) (ms div 1000) (w_db st) = Inr (d2, u)" "attach ROOT_ID (u_id u) Owner (ms div 1000) d2 = Inr d1"
    using made(1) first by (auto simp: onboarding_def create_first_def result_simps)
  then have "new_account (w_db st) d1 u" using insert_user_new(1) [OF _ empty] attach_users new_account_users by metis
  then show ?thesis using signed_up [OF made(2)] first assms(2) by auto
qed

lemma accept_visitor_new:
  assumes "accept_visitor user seen now d = Inr (d', u, i)"
  shows "find_usable d (inv_token seen) now = Some i" "email u = inv_email i" "new_account d d' u"
proof -
  show i: "find_usable d (inv_token seen) now = Some i"
    using assms by (auto simp: accept_visitor_def result_simps split: option.split_asm)
  obtain d1 d2 d3 team where c: "create (user\<lparr>email := inv_email i\<rparr>) now d = Inr (d1, u, team)" "find_by_email d (inv_email i) = None"
      "attach (inv_team_id i) (u_id u) (inv_role i) now d1 = Inr d2" "remember_team u (inv_team_id i) now d2 = Inr d3" "d' = mark_accepted i now d3"
    using assms i by (auto simp: accept_visitor_def result_simps)
  have new: "new_account d d1 u" "email u = inv_email i" using create_new [OF c(1)] c(2) by simp_all
  have "new_account d d2 u" using new(1) attach_users [OF c(3)] new_account_users by blast
  then have "new_account d d3 u"
    using c(4) by (auto simp: remember_team_def new_account_def result_simps bex_update_where split: if_split_asm)
  then show "email u = inv_email i" "new_account d d' u"
    using new(2) c(5) new_account_users by (simp_all add: mark_accepted_def)
qed

lemma invite_proof:
  assumes "accept_handler e hash_password user token validated input headers here q secret ms d0 st = (st', a)"
    and "ws_get (w_session st') LOGIN_KEY \<noteq> ws_get (w_session st) LOGIN_KEY"
  shows "\<exists>u. ws_get (w_session st') LOGIN_KEY = Some (JNumber (u_id u)) \<and> proves e ms d0 st st' (GivenInvite token) u"
proof -
  have keys: "LOGIN_KEY \<noteq> TEAM_KEY" "LOGIN_KEY \<noteq> INVITE_RETURN_TO_KEY" by (simp_all add: web_keys INVITE_RETURN_TO_KEY_def)
  obtain t seen team name pass d1 u i st1 r where made: "token = Some t" "usable_invite d0 t (ms div 1000) = Some (seen, team)"
      "accept_visitor (with_password hash_password (inv_email seen) (Some name) pass) seen (ms div 1000) (w_db st) = Inr (d1, u, i)"
      "sign_in e secret ms u (st\<lparr>w_db := d1\<rparr>) = (st1, r)" "w_db st' = w_db st1"
      "ws_get (w_session st') LOGIN_KEY = ws_get (w_session st1) LOGIN_KEY"
    using assms keys
    by (auto simp: accept_handler_def greeted_def other_account_def sign_in_first_def Let_def bind_eq_Some_conv
        split: if_split_asm prod.split_asm option.split_asm sum.split_asm web_error.split_asm)
  have "inv_token seen = t"
    using made(2) by (auto simp: usable_invite_def find_usable_def find_by_token_def split: option.split_asm if_split_asm dest!: find_row_Some)
  then show ?thesis
    using accept_visitor_new [OF made(3)] signed_up [OF made(4)] made(1,5,6) assms(2) by auto
qed

text \<open>C4: Nobody is signed in without proof. Whatever a browser sends to the handlers that sign someone in, its session names
  another person afterwards only if that person is proven: by the password of an account without protection, by a code after
  the password, or by a passkey; or the person is an account that this very request made, under a new id and an address that no account
  had, while anyone may register, as the first of the instance, or for the address of an invite that can still be used. The password
  of a protected account alone never does it.\<close>

theorem sign_in_needs_proof:
  assumes "sign_in_step e ms d0 what st st'" and "ws_get (w_session st') LOGIN_KEY \<noteq> ws_get (w_session st) LOGIN_KEY"
  shows "\<exists>u. ws_get (w_session st') LOGIN_KEY = Some (JNumber (u_id u)) \<and> proves e ms d0 st st' what u"
  using assms by (induction rule: sign_in_step.induct) (blast intro: login_proof second_step_proof passkey_proof sign_up_proof onboarding_proof invite_proof)+

lemma membership_member:
  assumes "m \<in> set (memberships d u)"
  shows "is_member d (t_id (ms_team m)) u"
proof -
  obtain row team where "row \<in> set (rows (team_user d))" "tm_user_id row = u" "m = \<lparr>ms_team = team, ms_role = tm_role row\<rparr>"
      "find_row (\<lambda>x. t_id x = tm_team_id row) (teams d) = Some team"
    using assms by (force simp: memberships_def List.map_filter_def split: if_split_asm)
  then show ?thesis by (auto simp: is_member_def dest!: find_row_Some)
qed

lemma resolve_teams_own:
  assumes "resolve_teams user s now d = Inr (d', s', ts, m)"
  shows "m \<in> set ts \<and> is_member d' (t_id (ms_team m)) (u_id user)"
proof -
  obtain d1 ts1 where ts1: "ts1 \<noteq> []" "ts1 = ts" "d1 = d'" "\<forall>x \<in> set ts1. is_member d1 (t_id (ms_team x)) (u_id user)"
  proof (cases "memberships d (u_id user) = []")
    case True
    then obtain team where made: "create_personal user now d = Inr (d', team)" "ts = [\<lparr>ms_team = team, ms_role = Owner\<rparr>]"
      using assms by (auto simp: resolve_teams_def Let_def result_simps)
    then have "is_member d' (t_id team) (u_id user)"
      by (auto simp: create_personal_def case_prod_unfold attach_def insert_team_member_def Let_def result_simps is_member_def)
    then show ?thesis using that made by simp
  next
    case False
    then have "ts = memberships d (u_id user)" "d' = d" using assms by (auto simp: resolve_teams_def Let_def)
    then show ?thesis using that [of ts d'] False membership_member by blast
  qed
  define chosen where "chosen = List.map_filter (\<lambda>i. find (\<lambda>x. t_id (ms_team x) = i) ts) (List.map_filter id [session_team s, current_team_id user])"
  have "set chosen \<subseteq> set ts" unfolding chosen_def List.map_filter_def by (auto dest: find_Some_set)
  moreover have "m = (case chosen of [] \<Rightarrow> hd ts | x # _ \<Rightarrow> x)"
    using assms unfolding chosen_def resolve_teams_def Let_def by (auto simp: result_simps)
  ultimately have "m \<in> set ts" using ts1(1,2) by (auto split: list.split_asm)
  then show ?thesis using ts1 by simp
qed

lemma web_teams_own:
  "web_teams user ms st = (st', Inr (ts, m)) \<Longrightarrow> m \<in> set ts \<and> is_member (w_db st') (t_id (ms_team m)) (u_id user)"
  by (auto simp: web_teams_def Let_def dest: resolve_teams_own split: sum.split_asm)

text \<open>The person signed in works in a team of theirs. Whatever team the session or the account names, the one a request works in
  is among the teams of the person, and the person is a member of it in the database the request leaves.\<close>

theorem work_team_is_own:
  assumes "silent_auth e secret ms d0 st = (st', Inr auth)" and "au_user auth = Some u"
  shows "\<exists>m \<in> set (au_teams auth). au_team auth = Some m \<and> is_member (w_db st') (t_id (ms_team m)) (u_id u)"
proof -
  obtain st1 ts m where "web_teams u ms st1 = (st', Inr (ts, m))" "au_teams auth = ts" "au_team auth = Some m"
    using assms unfolding silent_auth_def Let_def
    by (auto simp: go_on_def nobody_def split: prod.split_asm sum.split_asm option.split_asm)
  then show ?thesis using web_teams_own by blast
qed

lemma cookie_set_pending: "n \<noteq> 0 \<Longrightarrow> cookie_pending (cookie_set name v (MaxSeconds n) cookies) name = Some v"
proof -
  have "map_of (filter (\<lambda>c. fst c \<noteq> name) xs @ [(name, x)]) name = Some x" for xs :: "(string \<times> string \<times> int) list" and x
    by (induction xs) auto
  then show "n \<noteq> 0 \<Longrightarrow> ?thesis" by (simp add: cookie_pending_def cookie_set_def)
qed

text \<open>A session survives its cookie. What a request left in its session is what the next request of the browser reads, flashes
  included, which are there for one request. A session older than two hours is gone with its cookie.\<close>

theorem session_read_back:
  assumes "\<And>v purpose t expires. t < expires \<Longrightarrow> we_decrypt_value e t (we_encrypt_value e v purpose (Some expires)) purpose = Some v"
    and "snapshot s \<noteq> []" and "ws_get s FLASH_KEY = None" and "later < ms + SESSION_AGE_SECONDS * 1000"
    and "cookie_pending (write_session e ms s cookies) SESSION_COOKIE = Some sent"
  shows "read_session e later \<lparr>ck_received = [(SESSION_COOKIE, sent)], ck_outgoing = []\<rparr>
    = \<lparr>ws_values = ws_values s, ws_flashed = ws_flash s, ws_flash = [], ws_had_cookie = True\<rparr>"
proof -
  have "sent = we_encrypt_value e (JObject (snapshot s)) SESSION_PURPOSE (Some (ms + SESSION_AGE_SECONDS * 1000))"
    using assms(2,5)
    by (simp add: write_session_def seal_values_def cookie_set_pending SESSION_AGE_SECONDS_def)
  then have opened: "we_decrypt_value e later sent SESSION_PURPOSE = Some (JObject (snapshot s))" using assms(1,4) by simp
  have fresh: "FLASH_KEY \<notin> fst ` set (ws_values s)" using assms(3) by (auto simp: ws_get_def session_get_def map_of_eq_None_iff)
  then have "filter (\<lambda>m. fst m \<noteq> FLASH_KEY) (ws_values s) = ws_values s" by (force simp: filter_id_conv)
  then have "session_forget FLASH_KEY (snapshot s) = ws_values s"
    using fresh by (simp add: snapshot_def session_forget_def session_put_def set_member_def)
  moreover have "(case session_get (snapshot s) FLASH_KEY of Some (JObject f) \<Rightarrow> f | _ \<Rightarrow> []) = ws_flash s"
    using assms(3) by (simp add: snapshot_def put_get ws_get_def)
  ultimately show ?thesis
    using opened by (simp add: read_session_def cookie_get_def from_values_def)
qed

text \<open>A sign-in leads to a page of this site. Wherever the session says someone was sent from, and whatever the query string of
  the sign-in page is, the browser goes to a path that begins with one slash and stays on the site.\<close>

theorem destination_on_this_site:
  "\<exists>rest. snd (signed_in_destination q s) = CHR ''/'' # rest \<and> take 1 rest \<notin> {''/'', [CHR 0x5C]}"
proof -
  let ?ok = "\<lambda>t. \<exists>rest. t = CHR ''/'' # rest \<and> take 1 rest \<notin> {''/'', [CHR 0x5C]}"
  have ok: "?ok t" if "starts_with t w" "w \<in> {''/authorize?'', ''/approvals/'', ''/invite/''}" for t w
    using that by (cases t; cases "tl t") (auto simp: starts_with_def)
  have "?ok (with_query ''/'' q)" by (simp add: with_query_def Let_def)
  then show ?thesis
    using ok by (auto simp: signed_in_destination_def ws_pull_def Let_def oauth_return_to_def approval_return_to_def invite_return_to_def
        bind_eq_Some_conv split: option.split if_split_asm)
qed

text \<open>Tokens of forms belong to one session. A token that was made for a session is accepted by it, and after someone signed in or
  out no token made before is, so that whoever planted the session cannot forge requests of the person.\<close>

theorem csrf_token_of_its_session:
  assumes "CHR ''.'' \<notin> set salt" and "drawn \<noteq> []" and "csrf_token e drawn salt s = (s1, token)" and "sign_in e secret ms user st = (st', Inr ())"
  shows "verify_csrf_token e s1 (Some token) \<and> \<not> verify_csrf_token e (w_session st') t \<and> \<not> verify_csrf_token e (w_session (sign_out e ms st)) t"
proof -
  obtain secret0 where made: "token = salt @ ''.'' @ csrf_digest e salt secret0" "ws_get s1 CSRF_SECRET_KEY = Some (JString secret0)"
  proof (cases "as_str (ws_get s CSRF_SECRET_KEY)")
    case None
    then show ?thesis using that assms(3) by (auto simp: csrf_token_def)
  next
    case (Some old)
    then have "ws_get s CSRF_SECRET_KEY = Some (JString old)" by (cases "ws_get s CSRF_SECRET_KEY" rule: as_str.cases) auto
    then show ?thesis using that assms(3) Some by (auto simp: csrf_token_def split: if_split_asm)
  qed
  have "split_once (CHR ''.'') token = Some (salt, csrf_digest e salt secret0)"
    using assms(1) made(1) by (simp add: split_once_def takeWhile_append dropWhile_append)
  then have "verify_csrf_token e s1 (Some token)" using made(2) by (simp add: verify_csrf_token_def)
  moreover have "ws_get (w_session st') CSRF_SECRET_KEY = None"
    using assms(4) by (auto simp: sign_in_def forget_csrf_secret_def split: prod.split_asm sum.split_asm)
  moreover have "ws_get (w_session (sign_out e ms st)) CSRF_SECRET_KEY = None"
    by (simp add: sign_out_def forget_csrf_secret_def Let_def)
  ultimately show ?thesis by (simp add: verify_csrf_token_def)
qed

text \<open>C39: A remember-me cookie that two requests send at once signs both in. The token is read before it is deleted, and whether the
  deletion found it is not looked at: a request that read the token while another one was replacing it is signed in as well, and gets a
  token of its own. A cookie that was copied works beside the original for as long as both are in flight.\<close>

theorem remember_cookie_works_twice:
  assumes "remembered_user e ms d0 (w_cookies st) = Some (i, u)" and "remembered_user e ms d0 (w_cookies other) = Some (i, u)"
    and "authenticate_via_remember_cookie e secret ms d0 st = (st1, Inr (Some u))"
    and "\<not> has_row (\<lambda>r. rm_hash r = we_sha256_hex e secret') (remember_me_tokens (w_db st1))"
  shows "\<exists>st2. authenticate_via_remember_cookie e secret' ms d0 (other\<lparr>w_db := w_db st1\<rparr>) = (st2, Inr (Some u))
    \<and> has_row (\<lambda>r. rm_tokenable_id r = u_id u \<and> rm_hash r = we_sha256_hex e secret') (remember_me_tokens (w_db st2))
    \<and> has_row (\<lambda>r. rm_tokenable_id r = u_id u \<and> rm_hash r = we_sha256_hex e secret) (remember_me_tokens (w_db st1))"
proof -
  have first: "user_exists (w_db st1) (u_id u) \<and> has_row (\<lambda>r. rm_tokenable_id r = u_id u \<and> rm_hash r = we_sha256_hex e secret) (remember_me_tokens (w_db st1))"
    using assms(1,3)
    by (auto simp: authenticate_via_remember_cookie_def create_remember_token_def insert_remember_token_def Let_def ensure_def
        split: prod.split_asm sum.split_asm if_split_asm)
  have "\<not> has_row (\<lambda>r. rm_hash r = we_sha256_hex e secret') (del (\<lambda>r. rm_id r = i) (remember_me_tokens (w_db st1)))"
    using assms(4) by (auto simp: has_row_iff delete_where_def)
  then show ?thesis
    using assms(2) first
    by (auto simp: authenticate_via_remember_cookie_def create_remember_token_def insert_remember_token_def Let_def ensure_def)
qed

section \<open>A challenge is answered once\<close>

text \<open>A key was counted, in a window that runs until \<open>expires\<close>. An allowance of one then lets no attempt for it through.\<close>

definition spent :: "Limiter \<Rightarrow> string \<Rightarrow> int \<Rightarrow> int \<Rightarrow> bool" where
  "spent l k t expires \<longleftrightarrow> limiter_good l \<and> requests l = 1 \<and> 0 < duration_ms l \<and> (\<exists>c \<ge> 1. limiter_look l k t = Some (c, expires))"

lemma spent_later: "spent l k t expires \<Longrightarrow> t \<le> t' \<Longrightarrow> t' < expires \<Longrightarrow> spent l k t' expires"
  using limiter.look_later [of l t t' k] by (auto simp: spent_def still_running_def)

lemma attempt_of_one:
  assumes "requests l = 1"
  obtains "attempt l k t t = (l, False)"
  | ok where "attempt l k t t = (fst (limiter_bump l k 1 t), ok)" "ok \<longleftrightarrow> fst (snd (limiter_bump l k 1 t)) \<le> 1"
proof -
  have "uint (requests l) < 2 ^ 32 - 1" using assms by simp
  note consume_unfold [OF this, of k t]
  then show ?thesis using that assms attempt_cases [of l k t] by auto
qed

lemma bump_spent:
  assumes "spent l k t expires" "t < expires"
  shows "spent (fst (limiter_bump l k' 1 t)) k t expires"
  using assms
  by (auto simp: spent_def limiter.good_bump limiter_bump_keeps limiter.look_bump limiter.bump_result advance_def still_running_def)

lemma attempt_spent:
  assumes "spent l k t expires" "t < expires"
  shows "spent (fst (attempt l k' t t)) k t expires" "\<not> snd (attempt l k t t)"
proof -
  have l: "limiter_good l" "requests l = 1" using assms(1) by (simp_all add: spent_def)
  show "spent (fst (attempt l k' t t)) k t expires"
    using attempt_of_one [OF l(2), of k' t] assms bump_spent [OF assms, of k'] by (metis fst_conv)
  obtain c where "1 \<le> c" "limiter_look l k t = Some (c, expires)" using assms(1) by (auto simp: spent_def)
  then have "\<not> fst (snd (limiter_bump l k 1 t)) \<le> 1" using l(1) by (simp add: limiter.bump_result advance_def)
  then show "\<not> snd (attempt l k t t)" using attempt_of_one [OF l(2), of k t] by (metis snd_conv)
qed

lemma attempts_spent:
  assumes "spent l k t expires" and "sorted (map snd calls)" and "\<forall>c \<in> set calls. t \<le> snd c \<and> snd c \<le> last_time" and "t \<le> last_time"
    and "last_time < expires"
  shows "spent (fold (\<lambda>(k', t') l. fst (attempt l k' t' t')) calls l) k last_time expires"
  using assms
proof (induction calls arbitrary: l t)
  case Nil
  then show ?case using spent_later by auto
next
  case (Cons x calls)
  obtain k' t' where x: "x = (k', t')" by fastforce
  have "spent l k t' expires" using Cons.prems x spent_later by auto
  then have "spent (fst (attempt l k' t' t')) k t' expires" using Cons.prems x attempt_spent(1) by auto
  then show ?case using Cons.IH [of "fst (attempt l k' t' t')" t'] Cons.prems x by auto
qed

lemma first_attempt_spends:
  assumes "limiter_good l" "requests l = 1" "0 < duration_ms l" "snd (attempt l k t t)" "\<And>e. limiter_look l k t \<noteq> Some (0, e)"
  shows "spent (fst (attempt l k t t)) k t (t + int (duration_ms l))"
proof -
  have "fst (attempt l k t t) = fst (limiter_bump l k 1 t)" "fst (snd (limiter_bump l k 1 t)) \<le> 1"
    using attempt_of_one [OF assms(2), of k t] assms(4) by (metis fst_conv snd_conv)+
  moreover have "limiter_look l k t = None"
  proof (rule ccontr)
    assume "limiter_look l k t \<noteq> None"
    then obtain c e where ce: "limiter_look l k t = Some (c, e)" by fastforce
    then have "c = 0" using calculation(2) assms(1) limiter.look_nonneg [OF assms(1) ce] by (simp add: limiter.bump_result advance_def)
    then show False using assms(5) ce by blast
  qed
  ultimately show ?thesis
    using assms(1-3) by (simp add: spent_def limiter.good_bump limiter_bump_keeps limiter.look_bump limiter.bump_result advance_def still_running_def)
qed

lemma take_ceremony_attempt:
  assumes "take_ceremony e ms st = (st', Some c)"
  shows "attempt (lm_passkey_challenge (w_limiters st)) (''passkey-challenge:'' @ we_sha256_hex e (ce_challenge c)) ms ms
    = (lm_passkey_challenge (w_limiters st'), True)" "is_recent ms (ce_at c) CEREMONY_MS"
  using assms
  by (auto simp: take_ceremony_def ws_pull_def Let_def split: prod.split_asm option.split_asm if_split_asm)

text \<open>C15: A passkey answers a challenge once. The challenge is kept in a session the browser can send again as it was, so the server counts the
  challenges that were answered. Once one was taken, no later request takes the same challenge, whatever session it brings and
  whatever other challenges were answered in between: the count outlasts the five minutes a challenge is good for.\<close>

theorem passkey_challenge_once:
  assumes "take_ceremony e ms st = (st', Some c)" and "limiter_good (lm_passkey_challenge (w_limiters st))"
    and "requests (lm_passkey_challenge (w_limiters st)) = 1" and "duration_ms (lm_passkey_challenge (w_limiters st)) = 10 * 60 * 1000"
    and "\<And>x. limiter_look (lm_passkey_challenge (w_limiters st)) (''passkey-challenge:'' @ we_sha256_hex e (ce_challenge c)) ms \<noteq> Some (0, x)"
    and "sorted (map snd calls)" and "\<forall>x \<in> set calls. ms \<le> snd x \<and> snd x \<le> later" and "ms \<le> later"
    and "lm_passkey_challenge (w_limiters other) = fold (\<lambda>(k, t) l. fst (attempt l k t t)) calls (lm_passkey_challenge (w_limiters st'))"
    and "read_ceremony (ws_get (w_session other) CEREMONY_KEY) = Some c"
  shows "snd (take_ceremony e later other) = None"
proof (rule ccontr)
  assume "snd (take_ceremony e later other) \<noteq> None"
  then obtain other' c' where taken: "take_ceremony e later other = (other', Some c')" by (metis not_None_eq prod.collapse)
  then have same: "c' = c" using take_ceremony_Some(3) assms(10) by fastforce
  let ?k = "''passkey-challenge:'' @ we_sha256_hex e (ce_challenge c)"
  note first = take_ceremony_attempt [OF assms(1)] and again = take_ceremony_attempt [OF taken, unfolded same]
  have "spent (lm_passkey_challenge (w_limiters st')) ?k ms (ms + 10 * 60 * 1000)"
    using first_attempt_spends [OF assms(2,3) _ _ assms(5)] first(1) assms(4) by simp
  moreover have "later < ms + 10 * 60 * 1000"
    using first(2) again(2) unfolding is_recent_def CEREMONY_MS_def by linarith
  ultimately have "spent (lm_passkey_challenge (w_limiters other)) ?k later (ms + 10 * 60 * 1000)"
    using attempts_spent [of _ ?k ms _ calls later] assms(6-9) by simp
  then show False using attempt_spent(2) again(1) \<open>later < _\<close> by fastforce
qed

section \<open>A browser of the small instance\<close>

text \<open>Nothing is encrypted, and a text is its own hash.\<close>

definition sample_web_env :: web_env where
  "sample_web_env =
     \<lparr>we_encrypt_value = (\<lambda>v purpose expires. case v of JString t \<Rightarrow> t | _ \<Rightarrow> []),
      we_decrypt_value = (\<lambda>ms sealed purpose. Some (JString sealed)), we_sha256_hex = (\<lambda>t. t), we_digest = (\<lambda>t. t),
      we_encode = (\<lambda>t. t), we_decode = Some, we_verify_password = (\<lambda>hash given. hash = given), we_lowercase = ascii_lower,
      we_hmac_sha1 = (\<lambda>k m. m), we_decrypt = Some, we_relying_party = Some (''x'', ''https://x''),
      we_verify_assertion = (\<lambda>rp c key client_data authenticator_data signature. Inr \<lparr>as_sign_count = 5, as_backed_up = False\<rparr>),
      we_parse_url = (\<lambda>t. None), we_url_port = (\<lambda>u. None)\<rparr>"

definition sample_browser :: "session \<Rightarrow> (string \<times> string) list \<Rightarrow> web_state" where
  "sample_browser values received =
     \<lparr>w_session = \<lparr>ws_values = values, ws_flashed = [], ws_flash = [], ws_had_cookie = True\<rparr>,
      w_cookies = \<lparr>ck_received = received, ck_outgoing = []\<rparr>,
      w_limiters = \<lparr>lm_login = limiter_database [] 5 60, lm_login_address = limiter_database [] 50 60,
                    lm_registration = limiter_database [] 10 60, lm_current_password = limiter_database [] 5 60,
                    lm_passkey_challenge = limiter_database [] 1 60\<rparr>,
      w_db = sample_db\<rparr>"

text \<open>Bob, whose session was stamped at one second.\<close>

definition bobs_session :: session where
  "bobs_session = [(LOGIN_KEY, JNumber 2), (SESSION_STAMP_KEY, stamp_value (new_stamp (sample_user 2 ''bob@x'' False) 1000))]"

lemma bobs_request:
  obtains st' auth where "silent_auth sample_web_env ''s'' 5000 sample_db (sample_browser bobs_session []) = (st', Inr auth)"
    "au_user auth = Some (sample_user 2 ''bob@x'' False)"
proof -
  let ?r = "silent_auth sample_web_env ''s'' 5000 sample_db (sample_browser bobs_session [])"
  have "case snd ?r of Inl e \<Rightarrow> False | Inr auth \<Rightarrow> au_user auth = Some (sample_user 2 ''bob@x'' False)"
    by code_simp
  then obtain auth where "snd ?r = Inr auth" "au_user auth = Some (sample_user 2 ''bob@x'' False)"
    by (auto split: sum.split_asm)
  then show ?thesis using that [of "fst ?r" auth] by (metis prod.collapse)
qed

theorem request_needs_proof_witness:
  "sample_user 2 ''bob@x'' False \<in> set (rows (users sample_db))
   \<and> (session_vouches 5000 (w_session (sample_browser bobs_session [])) (sample_user 2 ''bob@x'' False)
      \<or> remember_vouches sample_web_env 5000 (w_cookies (sample_browser bobs_session [])) sample_db (sample_user 2 ''bob@x'' False))"
  using bobs_request request_needs_proof by metis

theorem work_team_is_own_witness:
  "\<exists>st' auth. silent_auth sample_web_env ''s'' 5000 sample_db (sample_browser bobs_session []) = (st', Inr auth)
     \<and> (\<exists>m \<in> set (au_teams auth). au_team auth = Some m \<and> is_member (w_db st') (t_id (ms_team m)) 2)"
proof -
  obtain st' auth where r: "silent_auth sample_web_env ''s'' 5000 sample_db (sample_browser bobs_session []) = (st', Inr auth)"
    "au_user auth = Some (sample_user 2 ''bob@x'' False)" by (rule bobs_request)
  then show ?thesis using work_team_is_own [OF r] by (simp add: sample_user_def)
qed

theorem sign_in_needs_proof_witness:
  "\<exists>st' u. sign_in_step sample_web_env 5000 sample_db (GivenPassword ''bob@x'' ''hash'') (sample_browser [] []) st'
     \<and> ws_get (w_session st') LOGIN_KEY = Some (JNumber (u_id u))
     \<and> proves sample_web_env 5000 sample_db (sample_browser [] []) st' (GivenPassword ''bob@x'' ''hash'') u"
proof -
  let ?r = "login sample_web_env (Inr (''bob@x'', ''hash'')) [] [] ''1.2.3.4'' None ''s'' 5000 sample_db (sample_browser [] [])"
  have step: "sign_in_step sample_web_env 5000 sample_db (GivenPassword ''bob@x'' ''hash'') (sample_browser [] []) (fst ?r)"
    by (rule by_password [where a = "snd ?r"]) simp
  have "ws_get (w_session (fst ?r)) LOGIN_KEY \<noteq> ws_get (w_session (sample_browser [] [])) LOGIN_KEY"
    by code_simp
  from sign_in_needs_proof [OF step this] step show ?thesis by blast
qed

theorem csrf_token_of_its_session_witness:
  "\<exists>s1 token st'. csrf_token sample_web_env ''d'' ''a'' (w_session (sample_browser [] [])) = (s1, token)
     \<and> sign_in sample_web_env ''s'' 5000 (sample_user 2 ''bob@x'' False) (sample_browser [] []) = (st', Inr ())
     \<and> verify_csrf_token sample_web_env s1 (Some token) \<and> \<not> verify_csrf_token sample_web_env (w_session st') (Some token)"
proof -
  let ?r = "sign_in sample_web_env ''s'' 5000 (sample_user 2 ''bob@x'' False) (sample_browser [] [])"
  let ?t = "csrf_token sample_web_env ''d'' ''a'' (w_session (sample_browser [] []))"
  have "snd ?r = Inr ()" by code_simp
  then have r: "?r = (fst ?r, Inr ())" by (metis prod.collapse)
  have t: "?t = (fst ?t, snd ?t)" by simp
  have "CHR ''.'' \<notin> set ''a''" "''d'' \<noteq> []" by simp_all
  from csrf_token_of_its_session [OF this t r, of "Some (snd ?t)"] t r show ?thesis by blast
qed

text \<open>A copied cookie, sent twice.\<close>

definition remembered_db :: db where
  "remembered_db = sample_db\<lparr>remember_me_tokens := \<lparr>rows = [\<lparr>rm_id = 1, rm_tokenable_id = 2, rm_hash = ''old'', rm_created_at = 1,
     rm_updated_at = 1, rm_expires_at = 99000\<rparr>], seq = 1\<rparr>\<rparr>"

definition copied_cookie :: web_state where
  "copied_cookie = (sample_browser [] [(REMEMBER_COOKIE, ''e:1.old'')])\<lparr>w_db := remembered_db\<rparr>"

theorem remember_cookie_works_twice_witness:
  "\<exists>st1 st2. authenticate_via_remember_cookie sample_web_env ''a'' 5000 remembered_db copied_cookie = (st1, Inr (Some (sample_user 2 ''bob@x'' False)))
     \<and> authenticate_via_remember_cookie sample_web_env ''b'' 5000 remembered_db (copied_cookie\<lparr>w_db := w_db st1\<rparr>)
         = (st2, Inr (Some (sample_user 2 ''bob@x'' False)))"
proof -
  let ?r = "authenticate_via_remember_cookie sample_web_env ''a'' 5000 remembered_db copied_cookie"
  have read: "remembered_user sample_web_env 5000 remembered_db (w_cookies copied_cookie) = Some (1, sample_user 2 ''bob@x'' False)"
    by code_simp
  have "snd ?r = Inr (Some (sample_user 2 ''bob@x'' False))" by code_simp
  then have r: "?r = (fst ?r, Inr (Some (sample_user 2 ''bob@x'' False)))" by (metis prod.collapse)
  have "\<not> has_row (\<lambda>r. rm_hash r = we_sha256_hex sample_web_env ''b'') (remember_me_tokens (w_db (fst ?r)))" by code_simp
  from remember_cookie_works_twice [OF read read r this] r show ?thesis by blast
qed

text \<open>The challenge of a browser, answered, and its session sent again.\<close>

definition challenged :: session where
  "challenged = [(CEREMONY_KEY, ceremony_value \<lparr>ce_challenge = ''x'', ce_at = 5000, ce_adding = None\<rparr>)]"

lemma challenge_read: "read_ceremony (ws_get (w_session (sample_browser challenged [])) CEREMONY_KEY)
    = Some \<lparr>ce_challenge = ''x'', ce_at = 5000, ce_adding = None\<rparr>"
  by code_simp

lemma first_attempt: "snd (attempt (limiter_database [] 1 600000) k 5000 5000)"
  by (simp add: attempt_def limiter_get_def consume_def limiter_add_def limiter_bump_def limiter_look_def db_look_def database_add_def
      sweep_database_def db_upsert_def limiter_response_def limiter_database_def case_prod_unfold Let_def delete_where_def)

theorem passkey_challenge_once_witness:
  "\<exists>st' c. take_ceremony sample_web_env 5000 ((sample_browser challenged [])\<lparr>w_limiters := limiters_new []\<rparr>) = (st', Some c)
     \<and> snd (take_ceremony sample_web_env 6000 ((sample_browser challenged [])\<lparr>w_limiters := w_limiters st'\<rparr>)) = None"
proof -
  let ?st = "(sample_browser challenged [])\<lparr>w_limiters := limiters_new []\<rparr>" and ?c = "\<lparr>ce_challenge = ''x'', ce_at = 5000, ce_adding = None\<rparr>"
  let ?l = "lm_passkey_challenge (w_limiters ?st)"
  let ?r = "take_ceremony sample_web_env 5000 ?st"
  have l: "limiter_good ?l" "requests ?l = 1" "duration_ms ?l = 10 * 60 * 1000" "\<And>x. limiter_look ?l k 5000 \<noteq> Some (0, x)" for k
    by (simp_all add: limiters_new_def limiter_database_def limiter_good_def limiter_look_def db_look_def)
  have "snd ?r = Some ?c"
    using challenge_read first_attempt
    by (simp add: take_ceremony_def ws_pull_def Let_def is_recent_def CEREMONY_MS_def limiters_new_def case_prod_unfold)
  then have r: "?r = (fst ?r, Some ?c)" by (metis prod.collapse)
  have "snd (take_ceremony sample_web_env 6000 ((sample_browser challenged [])\<lparr>w_limiters := w_limiters (fst ?r)\<rparr>)) = None"
    by (rule passkey_challenge_once [OF r l, where calls = "[]"]) (simp_all add: challenge_read)
  with r show ?thesis by blast
qed

text \<open>An encryption that numbers what it seals.\<close>

instance Value :: countable
  by countable_datatype

definition numbering_env :: web_env where
  "numbering_env = sample_web_env\<lparr>
     we_encrypt_value := (\<lambda>v purpose expires. replicate (to_nat (v, purpose, expires)) CHR ''x''),
     we_decrypt_value := (\<lambda>ms sealed purpose. let (v, p, expires) = from_nat (length sealed) in
       if p = purpose \<and> (case expires of Some x \<Rightarrow> ms < x | None \<Rightarrow> True) then Some v else None)\<rparr>"

theorem session_read_back_witness:
  "\<exists>sent. cookie_pending (write_session numbering_env 5000 (w_session (sample_browser bobs_session [])) \<lparr>ck_received = [], ck_outgoing = []\<rparr>)
      SESSION_COOKIE = Some sent
    \<and> ws_values (read_session numbering_env 6000 \<lparr>ck_received = [(SESSION_COOKIE, sent)], ck_outgoing = []\<rparr>) = bobs_session"
proof -
  let ?s = "w_session (sample_browser bobs_session [])"
  have law: "we_decrypt_value numbering_env t (we_encrypt_value numbering_env v purpose (Some expires)) purpose = Some v" if "t < expires"
    for v purpose t expires using that by (simp add: numbering_env_def)
  have s: "snapshot ?s \<noteq> []" "ws_get ?s FLASH_KEY = None" "ws_values ?s = bobs_session"
    by (simp_all add: snapshot_def sample_browser_def bobs_session_def ws_get_def session_get_def web_keys)
  then obtain sent where sent: "cookie_pending (write_session numbering_env 5000 ?s \<lparr>ck_received = [], ck_outgoing = []\<rparr>) SESSION_COOKIE = Some sent"
    by (simp add: write_session_def seal_values_def cookie_set_pending SESSION_AGE_SECONDS_def)
  have "6000 < 5000 + SESSION_AGE_SECONDS * 1000" by (simp add: SESSION_AGE_SECONDS_def)
  from session_read_back [OF law s(1,2) this sent] sent s(3) show ?thesis by (metis WebSession.select_convs(1))
qed

end
