(* ===== verification/AccountSettings.thy ===== *)
theory AccountSettings
  imports SignIn
begin

text \<open>
  What a signed-in person changes of their own account: the address, the password, the authenticator app, the recovery codes and the
  passkeys (\<open>crates/web/src/routes/settings.rs\<close>, \<open>two_factor.rs\<close>, \<open>passkeys.rs\<close>). A handler takes the account as the layer in front of
  it read it, and what the validator of its form made of the input; the database it writes may have changed since. Hashing a
  password, encrypting a secret and the check of a new passkey are parameters. \<open>script\<close> says whether the page's script sent the
  request: it gets the form again, or where to go, in place of a redirect.
\<close>

record PasskeyRegistration =
  rg_credential_id :: string
  rg_public_key :: string
  rg_sign_count :: "32 word"
  rg_backed_up :: bool

record account_env =
  ac_web :: web_env
  ac_encrypt :: "string \<Rightarrow> string"
  ac_hash_password :: "string \<Rightarrow> string"
  ac_verify_registration :: "string \<times> string \<Rightarrow> string \<Rightarrow> string \<Rightarrow> string \<Rightarrow> (string, PasskeyRegistration) result"

type_synonym messages = "(string \<times> string) list"

type_synonym form_input = "(string \<times> Value) list"

section \<open>The current password\<close>

definition REFUSED_FORM_KEY :: string where "REFUSED_FORM_KEY = ''settingsForm''"

text \<open>Confirmed (\<open>Inr\<close>), wrong (\<open>Inl None\<close>), or asked too often.\<close>

definition confirm_current_password ::
  "web_env \<Rightarrow> User \<Rightarrow> string \<Rightarrow> int \<Rightarrow> web_state \<Rightarrow> web_state \<times> (LimiterResponse option, unit) result" where
  "confirm_current_password e user given_password ms st =
     (let key = ''current-password:'' @ show_int (u_id user);
          (l, refused) = web_consume (lm_current_password (w_limiters st)) key ms;
          st1 = st\<lparr>w_limiters := (w_limiters st)\<lparr>lm_current_password := l\<rparr>\<rparr> in
      case refused of
        Some r \<Rightarrow> (st1, Inl (Some r))
      | None \<Rightarrow>
          if \<not> we_verify_password e (password user) given_password then (st1, Inl None)
          else (st1\<lparr>w_limiters := (w_limiters st1)\<lparr>lm_current_password := limiter_delete l key\<rparr>\<rparr>, Inr ()))"

definition wrong_current_password :: "form_input \<Rightarrow> FormState" where
  "wrong_current_password input = form_new [(''currentPassword'', ''The current password is incorrect'')] input"

definition with_session :: "(WebSession \<Rightarrow> WebSession) \<Rightarrow> web_state \<Rightarrow> web_state" where
  "with_session f st = st\<lparr>w_session := f (w_session st)\<rparr>"

text \<open>The answer to a refused form of the page.\<close>

definition refuse_form :: "web_env \<Rightarrow> bool \<Rightarrow> HeaderMap \<Rightarrow> string \<Rightarrow> FormState \<Rightarrow> web_state \<Rightarrow> web_state \<times> web_answer" where
  "refuse_form e script headers name form st =
     (if script then (st, FormAgain (fs_errors form))
      else
        (let first_error = (case fs_errors form of [] \<Rightarrow> [] | (_, message) # _ \<Rightarrow> message) in
         (with_session (ws_flash_put ''error'' (JString first_error) \<circ> ws_flash_put REFUSED_FORM_KEY (JString name) \<circ> form_flash form) st,
          RedirectedTo (redirect_back e headers ''/settings''))))"

text \<open>What follows the form and the password, which every handler asks for in the same way.\<close>

definition with_password_confirmed ::
  "web_env \<Rightarrow> User \<Rightarrow> string \<Rightarrow> form_input \<Rightarrow> int \<Rightarrow> (FormState \<Rightarrow> web_state \<Rightarrow> web_state \<times> web_answer)
     \<Rightarrow> (web_state \<Rightarrow> web_state \<times> web_answer) \<Rightarrow> web_state \<Rightarrow> web_state \<times> web_answer" where
  "with_password_confirmed e user given_password input ms refused go st =
     (case confirm_current_password e user given_password ms st of
        (st1, Inl (Some r)) \<Rightarrow> (st1, TooManyWeb r)
      | (st1, Inl None) \<Rightarrow> refused (wrong_current_password input) st1
      | (st1, Inr _) \<Rightarrow> go st1)"

section \<open>Address and password\<close>

definition email_taken :: "db \<Rightarrow> User \<Rightarrow> string \<Rightarrow> bool" where
  "email_taken d user mail \<longleftrightarrow> has_row (\<lambda>x. ascii_lower (email x) = ascii_lower mail \<and> u_id x \<noteq> u_id user) (users d)"

definition save_email :: "User \<Rightarrow> string \<Rightarrow> int \<Rightarrow> db \<Rightarrow> (db_error, db) result" where
  "save_email user mail now d =
     (if mail = email user then Inr d
      else ensure (\<not> (has_row (\<lambda>x. u_id x = u_id user) (users d) \<and> has_row (\<lambda>x. email x = mail \<and> u_id x \<noteq> u_id user) (users d))) UniqueViolation
           (Inr (d\<lparr>users := upd (\<lambda>x. u_id x = u_id user) (\<lambda>x. x\<lparr>email := mail, u_updated_at := Some now\<rparr>) (users d)\<rparr>)))"

definition update_email ::
  "web_env \<Rightarrow> bool \<Rightarrow> HeaderMap \<Rightarrow> (messages, string \<times> string) result \<Rightarrow> form_input \<Rightarrow> string option \<Rightarrow> User \<Rightarrow> int \<Rightarrow> db
     \<Rightarrow> web_state \<Rightarrow> web_state \<times> web_answer" where
  "update_email e script headers validated input q user ms d0 st =
     (let refused = refuse_form e script headers ''email'' in
      case validated of
        Inl messages \<Rightarrow> refused (form_new messages input) st
      | Inr (mail, given_password) \<Rightarrow>
          if email_taken d0 user mail then refused (form_new [(''email'', ''The email has already been taken'')] input) st
          else
            with_password_confirmed e user given_password input ms refused (\<lambda>st1.
              case save_email user mail (ms div 1000) (w_db st1) of
                Inl err \<Rightarrow> (st1, WebFailed err)
              | Inr d1 \<Rightarrow>
                  (with_session (ws_flash_put ''success'' (JString ''Email updated'')) (st1\<lparr>w_db := d1\<rparr>), RedirectedTo (with_query ''/settings'' q))) st)"

text \<open>The new session version is the one the write returned.\<close>

definition update_password ::
  "account_env \<Rightarrow> bool \<Rightarrow> HeaderMap \<Rightarrow> (messages, string \<times> string) result \<Rightarrow> form_input \<Rightarrow> string option \<Rightarrow> User \<Rightarrow> int
     \<Rightarrow> web_state \<Rightarrow> web_state \<times> web_answer" where
  "update_password e script headers validated input q user ms st =
     (let refused = refuse_form (ac_web e) script headers ''password'' in
      case validated of
        Inl messages \<Rightarrow> refused (form_new messages input) st
      | Inr (given_password, new_password) \<Rightarrow>
          with_password_confirmed (ac_web e) user given_password input ms refused (\<lambda>st1.
            case change_password (ac_hash_password e) user new_password (ms div 1000) (w_db st1) of
              Inl err \<Rightarrow> (st1, WebFailed err)
            | Inr d1 \<Rightarrow>
                (let version = (case find_user d1 (u_id user) of Some x \<Rightarrow> session_version x | None \<Rightarrow> session_version user) in
                 (with_session (ws_flash_put ''success'' (JString ''Password updated'') \<circ> stamp_session (user\<lparr>session_version := version\<rparr>) ms)
                    (st1\<lparr>w_db := d1\<rparr>), RedirectedTo (with_query ''/settings'' q)))) st)"

section \<open>The authenticator app\<close>

definition SETUP_KEY :: string where "SETUP_KEY = ''authenticatorSetup''"

definition SETUP_MS :: int where "SETUP_MS = 15 * 60 * 1000"

definition SETUP_PATH :: string where "SETUP_PATH = ''/settings/two-factor''"

definition RECOVERY_CODES_KEY :: string where "RECOVERY_CODES_KEY = ''recoveryCodes''"

definition RECOVERY_CODES_PATH :: string where "RECOVERY_CODES_PATH = ''/settings/recovery-codes''"

text \<open>The secret this browser was shown, and when.\<close>

record Setup =
  se_secret :: string
  se_at :: int

definition setup_value :: "Setup \<Rightarrow> Value" where
  "setup_value s = JObject [(''secret'', JString (se_secret s)), (''at'', JNumber (se_at s))]"

definition read_setup :: "WebSession \<Rightarrow> Setup option" where
  "read_setup s =
     (case ws_get s SETUP_KEY of
        Some (JObject members) \<Rightarrow>
          (case (as_str (json_get members ''secret''), Option.bind (json_get members ''at'') as_i64) of
             (Some secret, Some at) \<Rightarrow> Some \<lparr>se_secret = secret, se_at = at\<rparr>
           | _ \<Rightarrow> None)
      | _ \<Rightarrow> None)"

definition current_setup :: "int \<Rightarrow> WebSession \<Rightarrow> Setup option" where
  "current_setup ms s =
     (case read_setup s of Some x \<Rightarrow> if is_recent ms (se_at x) SETUP_MS then Some x else None | None \<Rightarrow> None)"

text \<open>The secret is drawn.\<close>

definition setup_page :: "string \<Rightarrow> User \<Rightarrow> int \<Rightarrow> web_state \<Rightarrow> web_state \<times> web_answer" where
  "setup_page drawn user ms st =
     (if has_authenticator user then (st, RedirectedTo ''/settings'')
      else
        (case current_setup ms (w_session st) of
           Some x \<Rightarrow> (st, SetupPage (se_secret x))
         | None \<Rightarrow>
             (with_session (ws_put SETUP_KEY (setup_value \<lparr>se_secret = drawn, se_at = ms div 1000 * 1000\<rparr>)) st, SetupPage drawn)))"

definition after_protection :: "string list option \<Rightarrow> WebSession \<Rightarrow> WebSession \<times> string" where
  "after_protection codes s =
     (case codes of
        Some given_codes \<Rightarrow> (ws_flash_put RECOVERY_CODES_KEY (JArray (map JString given_codes)) s, RECOVERY_CODES_PATH)
      | None \<Rightarrow> (s, ''/settings''))"

text \<open>Back to a page with its form.\<close>

definition back_with :: "string \<Rightarrow> FormState \<Rightarrow> web_state \<Rightarrow> web_state \<times> web_answer" where
  "back_with to form st = (with_session (form_flash form) st, RedirectedTo to)"

text \<open>The first protection of an account comes with recovery codes.\<close>

definition first_codes ::
  "web_env \<Rightarrow> bool \<Rightarrow> int \<Rightarrow> nat list list \<Rightarrow> int \<Rightarrow> db \<Rightarrow> (db_error, db \<times> string list option) result" where
  "first_codes e was_protected u picks now d =
     (if was_protected then Inr (d, None)
      else and_then (replace_all (we_sha256_hex e) u picks now d) (\<lambda>(d1, codes). Inr (d1, Some codes)))"

definition enable_handler ::
  "account_env \<Rightarrow> (messages, string \<times> string) result \<Rightarrow> form_input \<Rightarrow> nat list list \<Rightarrow> User \<Rightarrow> int \<Rightarrow> web_state \<Rightarrow> web_state \<times> web_answer" where
  "enable_handler e validated input picks user ms st =
     (if has_authenticator user then (st, RedirectedTo ''/settings'')
      else
        (case validated of
           Inl messages \<Rightarrow> back_with SETUP_PATH (form_new messages input) st
         | Inr (code, given_password) \<Rightarrow>
             (case current_setup ms (w_session st) of
                None \<Rightarrow> (with_session (ws_flash_put ''error'' (JString ''The key expired. Scan the new one.'')) st, RedirectedTo SETUP_PATH)
              | Some seen \<Rightarrow>
                  with_password_confirmed (ac_web e) user given_password input ms (back_with SETUP_PATH) (\<lambda>st1.
                    case verify (we_hmac_sha1 (ac_web e)) (se_secret seen) code (ms div 1000) None of
                      None \<Rightarrow> back_with SETUP_PATH (form_new [(''code'', ''This is not the code the app shows now'')] []) st1
                    | Some step \<Rightarrow>
                        (let d = w_db st1;
                             (d1, _) = enable_authenticator (ac_encrypt e) user (se_secret seen) step (ms div 1000) d in
                         case first_codes (ac_web e) (is_protected d user) (u_id user) picks (ms div 1000) d1 of
                           Inl err \<Rightarrow> (st1, WebFailed err)
                         | Inr (d2, codes) \<Rightarrow>
                             (let s2 = ws_flash_put ''success'' (JString ''Authenticator app turned on'') (ws_forget SETUP_KEY (w_session st1));
                                  (s3, to) = after_protection codes s2 in
                              (st1\<lparr>w_db := d2, w_session := s3\<rparr>, RedirectedTo to)))) st)))"

definition disable_handler ::
  "web_env \<Rightarrow> bool \<Rightarrow> HeaderMap \<Rightarrow> (messages, string) result \<Rightarrow> form_input \<Rightarrow> User \<Rightarrow> int \<Rightarrow> web_state \<Rightarrow> web_state \<times> web_answer" where
  "disable_handler e script headers validated input user ms st =
     (let refused = refuse_form e script headers ''authenticator'' in
      case validated of
        Inl messages \<Rightarrow> refused (form_new messages input) st
      | Inr given_password \<Rightarrow>
          with_password_confirmed e user given_password input ms refused (\<lambda>st1.
            let (d1, user1) = disable_authenticator user (ms div 1000) (w_db st1) in
            (with_session (ws_flash_put ''success'' (JString ''Authenticator app turned off'')) (st1\<lparr>w_db := settle_recovery_codes user1 d1\<rparr>),
             RedirectedTo ''/settings'')) st)"

definition renew_recovery_codes ::
  "web_env \<Rightarrow> (messages, string) result \<Rightarrow> form_input \<Rightarrow> nat list list \<Rightarrow> User \<Rightarrow> int \<Rightarrow> web_state \<Rightarrow> web_state \<times> web_answer" where
  "renew_recovery_codes e validated input picks user ms st =
     (case validated of
        Inl messages \<Rightarrow> back_with RECOVERY_CODES_PATH (form_new messages input) st
      | Inr given_password \<Rightarrow>
          with_password_confirmed e user given_password input ms (back_with RECOVERY_CODES_PATH) (\<lambda>st1.
            if \<not> is_protected (w_db st1) user then (st1, RedirectedTo ''/settings'')
            else
              (case replace_all (we_sha256_hex e) (u_id user) picks (ms div 1000) (w_db st1) of
                 Inl err \<Rightarrow> (st1, WebFailed err)
               | Inr (d1, codes) \<Rightarrow>
                   (with_session (ws_flash_put RECOVERY_CODES_KEY (JArray (map JString codes))) (st1\<lparr>w_db := d1\<rparr>),
                    RedirectedTo RECOVERY_CODES_PATH))) st)"

section \<open>Passkeys\<close>

definition MAX_PASSKEYS :: nat where "MAX_PASSKEYS = 20"

definition DEFAULT_NAME :: string where "DEFAULT_NAME = ''Passkey''"

definition passkey_options ::
  "web_env \<Rightarrow> (messages, string option \<times> string) result \<Rightarrow> form_input \<Rightarrow> string \<Rightarrow> User \<Rightarrow> int \<Rightarrow> db \<Rightarrow> web_state \<Rightarrow> web_state \<times> web_answer" where
  "passkey_options e validated input drawn user ms d0 st =
     (let refused = (\<lambda>form st. (st, FormAgain (fs_errors form))) in
      case validated of
        Inl messages \<Rightarrow> refused (form_new messages input) st
      | Inr (name, given_password) \<Rightarrow>
          if we_relying_party e = None
          then refused (form_new [(''name'', ''Passkeys need APP_URL to be the address of this instance'')] input) st
          else
            with_password_confirmed e user given_password input ms refused (\<lambda>st1.
              let mine = passkeys_of_user d0 (u_id user) in
              if MAX_PASSKEYS \<le> length mine
              then refused (form_new [(''name'', ''An account keeps 20 passkeys at most. Remove one first.'')] input) st1
              else
                (with_session (begin_ceremony drawn (Some (u_id user, case name of Some n \<Rightarrow> n | None \<Rightarrow> DEFAULT_NAME)) ms) st1,
                 PasskeyOptions drawn (map credential_id mine))) st)"

record Registered =
  re_id :: string
  re_client_data_json :: string
  re_attestation_object :: string

definition insert_passkey :: "Passkey \<Rightarrow> int \<Rightarrow> db \<Rightarrow> (db_error, db) result" where
  "insert_passkey p now d =
     ensure (\<not> has_row (\<lambda>x. credential_id x = credential_id p) (passkeys d)) UniqueViolation
     (ensure (user_exists d (pk_user_id p)) ForeignKeyViolation
     (Inr (d\<lparr>passkeys := append_row (\<lambda>i. p\<lparr>pk_id := i, pk_created_at := now\<rparr>) (passkeys d)\<rparr>)))"

text \<open>What the answer of the browser proves: the registration of a passkey for the challenge.\<close>

definition verified_registration :: "account_env \<Rightarrow> string \<times> string \<Rightarrow> string \<Rightarrow> Registered \<Rightarrow> (string, PasskeyRegistration) result" where
  "verified_registration e rp challenge registered =
     (let unreadable = ''The answer of the browser could not be read. Try again.''; decode = we_decode (ac_web e) in
      case (decode challenge, decode (re_client_data_json registered), decode (re_attestation_object registered)) of
        (Some c, Some client_data, Some attestation) \<Rightarrow>
          (case ac_verify_registration e rp c client_data attestation of
             Inl reason \<Rightarrow> Inl (''The passkey was not added: '' @ reason @ ''.'')
           | Inr registration \<Rightarrow>
               if we_encode (ac_web e) (rg_credential_id registration) \<noteq> re_id registered then Inl unreadable else Inr registration)
      | _ \<Rightarrow> Inl unreadable)"

definition store_passkey ::
  "account_env \<Rightarrow> Registered option \<Rightarrow> nat list list \<Rightarrow> User \<Rightarrow> int \<Rightarrow> web_state \<Rightarrow> web_state \<times> web_answer" where
  "store_passkey e validated picks user ms st =
     (case (validated, we_relying_party (ac_web e)) of
        (None, _) \<Rightarrow> (st, PasskeyRefused ''The answer of the browser could not be read. Try again.'')
      | (Some _, None) \<Rightarrow> (st, PasskeyRefused ''Passkeys need APP_URL to be the address of this instance'')
      | (Some registered, Some rp) \<Rightarrow>
          (let (st1, taken) = take_ceremony (ac_web e) ms st in
           case (case taken of
                   Some c \<Rightarrow> (case ce_adding c of Some (u, name) \<Rightarrow> if u = u_id user then Some (ce_challenge c, name) else None | None \<Rightarrow> None)
                 | None \<Rightarrow> None) of
             None \<Rightarrow> (st1, PasskeyRefused ''The request expired. Try again.'')
           | Some (challenge, name) \<Rightarrow>
               (case verified_registration e rp challenge registered of
                  Inl reason \<Rightarrow> (st1, PasskeyRefused reason)
                | Inr registration \<Rightarrow>
                    (let d = w_db st1 in
                     if find_by_credential_id d (re_id registered) \<noteq> None
                     then (st1, PasskeyRefused ''This passkey is already one of an account'')
                     else
                       (case and_then (insert_passkey \<lparr>pk_id = 0, pk_user_id = u_id user, pk_name = name, credential_id = re_id registered,
                                 public_key = we_encode (ac_web e) (rg_public_key registration), sign_count = uint (rg_sign_count registration),
                                 backed_up = rg_backed_up registration, pk_created_at = 0, pk_last_used_at = None\<rparr> (ms div 1000) d)
                               (first_codes (ac_web e) (is_protected d user) (u_id user) picks (ms div 1000)) of
                          Inl err \<Rightarrow> (st1, WebFailed err)
                        | Inr (d1, codes) \<Rightarrow>
                            (let (s2, to) = after_protection codes (ws_flash_put ''success'' (JString ''Passkey added'') (w_session st1)) in
                             (st1\<lparr>w_db := d1, w_session := s2\<rparr>, RedirectedTo to)))))))"

definition find_passkey :: "db \<Rightarrow> User \<Rightarrow> int option \<Rightarrow> Passkey option" where
  "find_passkey d0 user i =
     Option.bind i (\<lambda>n. case find_row (\<lambda>p. pk_id p = n) (passkeys d0) of
        Some p \<Rightarrow> if pk_user_id p = u_id user then Some p else None | None \<Rightarrow> None)"

definition destroy_passkey ::
  "web_env \<Rightarrow> bool \<Rightarrow> int option \<Rightarrow> (messages, string) result \<Rightarrow> form_input \<Rightarrow> User \<Rightarrow> int \<Rightarrow> db \<Rightarrow> web_state \<Rightarrow> web_state \<times> web_answer" where
  "destroy_passkey e script i validated input user ms d0 st =
     (case find_passkey d0 user i of
        None \<Rightarrow> (with_session (ws_flash_put ''error'' (JString ''Passkey not found'')) st, RedirectedTo ''/settings'')
      | Some passkey \<Rightarrow>
          (let refused = (\<lambda>form st.
                 if script then (st, FormAgain (fs_errors form))
                 else (with_session (ws_flash_put REFUSED_FORM_KEY (JString ''remove-passkey'') \<circ> form_flash form) st,
                       RedirectedTo (''/settings/passkeys/'' @ show_int (pk_id passkey) @ ''/delete''))) in
           case validated of
             Inl messages \<Rightarrow> refused (form_new messages input) st
           | Inr given_password \<Rightarrow>
               with_password_confirmed e user given_password input ms refused (\<lambda>st1.
                 let d1 = (w_db st1)\<lparr>passkeys := del (\<lambda>p. pk_id p = pk_id passkey \<and> pk_user_id p = u_id user) (passkeys (w_db st1))\<rparr> in
                 (with_session (ws_flash_put ''success'' (JString ''Passkey removed'')) (st1\<lparr>w_db := settle_recovery_codes user d1\<rparr>),
                  RedirectedTo ''/settings'')) st))"

section \<open>What a change touches\<close>

text \<open>Only the rows of one account: its own, its passkeys, its recovery codes and its remember-me tokens. Nobody becomes a super admin.\<close>

definition own_rows :: "int \<Rightarrow> db \<Rightarrow> db \<Rightarrow> bool" where
  "own_rows u d d' \<longleftrightarrow>
     d' = d\<lparr>users := users d', passkeys := passkeys d', recovery_codes := recovery_codes d', remember_me_tokens := remember_me_tokens d'\<rparr>
     \<and> seq (users d') = seq (users d)
     \<and> map (\<lambda>x. (u_id x, is_super_admin x)) (rows (users d')) = map (\<lambda>x. (u_id x, is_super_admin x)) (rows (users d))
     \<and> filter (\<lambda>x. u_id x \<noteq> u) (rows (users d')) = filter (\<lambda>x. u_id x \<noteq> u) (rows (users d))
     \<and> filter (\<lambda>p. pk_user_id p \<noteq> u) (rows (passkeys d')) = filter (\<lambda>p. pk_user_id p \<noteq> u) (rows (passkeys d))
     \<and> filter (\<lambda>r. rc_user_id r \<noteq> u) (rows (recovery_codes d')) = filter (\<lambda>r. rc_user_id r \<noteq> u) (rows (recovery_codes d))
     \<and> filter (\<lambda>r. rm_tokenable_id r \<noteq> u) (rows (remember_me_tokens d')) = filter (\<lambda>r. rm_tokenable_id r \<noteq> u) (rows (remember_me_tokens d))"

lemma own_rows_refl [simp]: "own_rows u d d"
  by (simp add: own_rows_def)

lemma own_rows_trans: "own_rows u d d1 \<Longrightarrow> own_rows u d1 d2 \<Longrightarrow> own_rows u d d2"
  unfolding own_rows_def by (cases d; cases d1; cases d2) simp

lemma filter_update_where:
  "(\<And>x. P x \<Longrightarrow> \<not> Q x \<and> \<not> Q (f x)) \<Longrightarrow> filter Q (update_where P f xs) = filter Q xs"
  by (induction xs) auto

lemma filter_delete_where: "(\<And>x. P x \<Longrightarrow> \<not> Q x) \<Longrightarrow> filter Q (delete_where P xs) = filter Q xs"
  by (induction xs) (auto simp: delete_where_def)

lemma own_users:
  assumes "\<And>x. u_id (f x) = u_id x \<and> is_super_admin (f x) = is_super_admin x"
  shows "own_rows u d (d\<lparr>users := upd (\<lambda>x. u_id x = u) f (users d)\<rparr>)"
  using assms by (simp add: own_rows_def filter_update_where) (simp add: update_where_def)

lemma own_save_email: "save_email user mail now d = Inr d' \<Longrightarrow> own_rows (u_id user) d d'"
  by (auto simp: save_email_def result_simps intro!: own_users split: if_split_asm)

lemma own_save_authenticator: "own_rows (u_id user) d (fst (save_authenticator user secret confirmed step now d))"
  by (auto simp: save_authenticator_def Let_def intro!: own_users)

lemma own_recovery_delete_all: "own_rows u d (recovery_delete_all u d)"
  by (simp add: own_rows_def recovery_delete_all_def filter_delete_where)

lemma own_replace_all:
  assumes "replace_all sha u picks now d = Inr (d', codes)"
  shows "own_rows u d d'"
proof -
  have "own_rows u d1 d2" if "insert_recovery_codes sha u cs now d1 = Inr d2" for cs d1 d2
    using that
  proof (induction cs arbitrary: d1)
    case (Cons c cs)
    then obtain d3 where "insert_recovery_code u (recovery_hash sha c) now d1 = Inr d3" "insert_recovery_codes sha u cs now d3 = Inr d2"
      by (auto simp: result_simps)
    moreover from this(1) have "own_rows u d1 d3" by (auto simp: insert_recovery_code_def result_simps own_rows_def)
    ultimately show ?case using Cons.IH own_rows_trans by blast
  qed simp
  then show ?thesis
    using assms own_recovery_delete_all own_rows_trans by (fastforce simp: replace_all_def Let_def result_simps)
qed

lemma own_first_codes: "first_codes e was_protected u picks now d = Inr (d', codes) \<Longrightarrow> own_rows u d d'"
  by (auto simp: first_codes_def result_simps intro: own_replace_all split: if_split_asm)

lemma own_insert_passkey: "insert_passkey p now d = Inr d' \<Longrightarrow> own_rows (pk_user_id p) d d'"
  by (auto simp: insert_passkey_def result_simps own_rows_def)

lemma own_change_password:
  assumes "change_password h user new now d = Inr d'"
  shows "own_rows (u_id user) d d'"
proof -
  define d1 where "d1 = (if h new = password user then d
    else d\<lparr>users := upd (\<lambda>x. u_id x = u_id user) (\<lambda>x. x\<lparr>password := h new, u_updated_at := Some now\<rparr>) (users d)\<rparr>)"
  define d2 where "d2 = d1\<lparr>users := upd (\<lambda>x. u_id x = u_id user) (\<lambda>x. x\<lparr>session_version := session_version x + 1\<rparr>) (users d1)\<rparr>"
  have "own_rows (u_id user) d d1" unfolding d1_def by (auto intro!: own_users)
  moreover have "own_rows (u_id user) d1 d2" unfolding d2_def by (rule own_users) simp
  moreover have "own_rows (u_id user) d2 d'"
    using assms unfolding change_password_def invalidate_sessions_def d1_def [symmetric] d2_def [symmetric] Let_def
    by (auto simp: result_simps own_rows_def filter_delete_where)
  ultimately show ?thesis using own_rows_trans by blast
qed

lemma own_settle: "u_id user = u \<Longrightarrow> own_rows u d (settle_recovery_codes user d)"
  by (auto simp: settle_recovery_codes_def own_recovery_delete_all)

lemma own_rows_inv:
  assumes "own_rows u d d'" "team_inv late d"
  shows "team_inv late d'"
proof -
  have pairs: "map (\<lambda>x. (u_id x, is_super_admin x)) (rows (users d')) = map (\<lambda>x. (u_id x, is_super_admin x)) (rows (users d))"
    and n: "seq (users d') = seq (users d)" using assms(1) by (simp_all add: own_rows_def)
  have ids: "map u_id (rows (users d')) = map u_id (rows (users d))" using arg_cong [OF pairs, of "map fst"] by (simp add: comp_def)
  have flags: "is_super_admin ` set (rows (users d')) = is_super_admin ` set (rows (users d))"
    using arg_cong [OF pairs, of "\<lambda>xs. snd ` set xs"] by (simp add: image_image)
  have keys: "u_id ` set (rows (users d')) = u_id ` set (rows (users d))" using arg_cong [OF ids, of set] by simp
  have "user_exists d' x \<longleftrightarrow> user_exists d x" for x using keys unfolding has_row_iff by (metis (no_types, lifting) image_iff)
  moreover have "table_ok u_id (users d')"
    using assms(2) ids n keys by (force simp: team_inv_def ids_ok_def table_ok_def)
  moreover have "governed d'"
    using assms(2) flags unfolding team_inv_def governed_def by (metis (full_types) image_iff)
  moreover have eq: "d' = d\<lparr>users := users d', passkeys := passkeys d', recovery_codes := recovery_codes d', remember_me_tokens := remember_me_tokens d'\<rparr>"
    using assms(1) by (simp add: own_rows_def)
  note arg_cong [OF eq, of teams] arg_cong [OF eq, of team_user] arg_cong [OF eq, of mcps] arg_cong [OF eq, of access_tokens]
    arg_cong [OF eq, of authorization_codes] arg_cong [OF eq, of invites] arg_cong [OF eq, of tailnets]
  ultimately show ?thesis
    using assms(2) by (simp add: team_inv_def ids_ok_def members_ok_def owned_def has_owner_def creds_ok_def refs_ok_def is_member_def)
qed

section \<open>Properties\<close>

text \<open>Nothing was written, and no passkey was asked for.\<close>

definition quiet :: "web_state \<Rightarrow> web_state \<Rightarrow> bool" where
  "quiet st st' \<longleftrightarrow> w_db st' = w_db st \<and> ws_get (w_session st') CEREMONY_KEY = ws_get (w_session st) CEREMONY_KEY"

lemma quiet_refl [simp]: "quiet st st"
  by (simp add: quiet_def)

lemma quiet_trans: "quiet st st1 \<Longrightarrow> quiet st1 st2 \<Longrightarrow> quiet st st2"
  by (simp add: quiet_def)

lemma quiet_refusals:
  "refuse_form e script headers name form st = (st', a) \<Longrightarrow> quiet st st'"
  "back_with to form st = (st', a) \<Longrightarrow> quiet st st'"
  by (auto simp: refuse_form_def back_with_def with_session_def quiet_def Let_def split: if_split_asm)

lemma confirm_current_password_cases:
  assumes "confirm_current_password e user given_password ms st = (st1, r)"
  shows "w_db st1 = w_db st" "w_session st1 = w_session st" "r = Inr x \<Longrightarrow> we_verify_password e (password user) given_password"
  using assms by (auto simp: confirm_current_password_def Let_def split: prod.split_asm option.split_asm if_split_asm)

lemma password_confirmed_writes:
  assumes "with_password_confirmed e user given_password input ms refused go st = (st', a)"
    and "\<And>form st1 st2 b. refused form st1 = (st2, b) \<Longrightarrow> quiet st1 st2"
    and "\<And>st1 st2 b. go st1 = (st2, b) \<Longrightarrow> own_rows (u_id user) (w_db st1) (w_db st2)"
  shows "quiet st st' \<or> we_verify_password e (password user) given_password \<and> own_rows (u_id user) (w_db st) (w_db st')"
proof -
  obtain st1 r where c: "confirm_current_password e user given_password ms st = (st1, r)" by fastforce
  note kept = confirm_current_password_cases [OF c]
  have same: "quiet st st1" using kept(1,2) by (simp add: quiet_def)
  show ?thesis
  proof (cases r)
    case (Inl x)
    then have "st' = st1 \<or> refused (wrong_current_password input) st1 = (st', a)"
      using assms(1) c by (auto simp: with_password_confirmed_def split: option.split_asm)
    then show ?thesis using same assms(2) quiet_trans by blast
  next
    case (Inr x)
    then have "go st1 = (st', a)" using assms(1) c by (simp add: with_password_confirmed_def)
    then show ?thesis using assms(3) kept(1,3) Inr by (metis (full_types))
  qed
qed

text \<open>The requests that change an account, with what was sent: the password typed into a form, the answer of a browser that made a passkey, or nothing.\<close>

datatype sent = TypedPassword string | MadePasskey Registered | NothingSent

inductive settings_step :: "account_env \<Rightarrow> User \<Rightarrow> int \<Rightarrow> sent \<Rightarrow> web_state \<Rightarrow> web_state \<Rightarrow> bool" for e user ms where
  change_email: "update_email (ac_web e) script headers (Inr (mail, pw)) input q user ms d0 st = (st', a) \<Longrightarrow> settings_step e user ms (TypedPassword pw) st st'"
| change_of_password: "update_password e script headers (Inr (pw, new)) input q user ms st = (st', a) \<Longrightarrow> settings_step e user ms (TypedPassword pw) st st'"
| show_setup: "setup_page drawn user ms st = (st', a) \<Longrightarrow> settings_step e user ms NothingSent st st'"
| turn_on: "enable_handler e (Inr (code, pw)) input picks user ms st = (st', a) \<Longrightarrow> settings_step e user ms (TypedPassword pw) st st'"
| turn_off: "disable_handler (ac_web e) script headers (Inr pw) input user ms st = (st', a) \<Longrightarrow> settings_step e user ms (TypedPassword pw) st st'"
| new_codes: "renew_recovery_codes (ac_web e) (Inr pw) input picks user ms st = (st', a) \<Longrightarrow> settings_step e user ms (TypedPassword pw) st st'"
| ask_passkey: "passkey_options (ac_web e) (Inr (name, pw)) input drawn user ms d0 st = (st', a) \<Longrightarrow> settings_step e user ms (TypedPassword pw) st st'"
| add_passkey: "store_passkey e (Some registered) picks user ms st = (st', a) \<Longrightarrow> settings_step e user ms (MadePasskey registered) st st'"
| remove_passkey: "destroy_passkey (ac_web e) script i (Inr pw) input user ms d0 st = (st', a) \<Longrightarrow> settings_step e user ms (TypedPassword pw) st st'"

text \<open>The answer proves a new passkey for a challenge this browser was given for the account at most five minutes ago, and that was not answered before.\<close>

definition passkey_made :: "account_env \<Rightarrow> int \<Rightarrow> web_state \<Rightarrow> int \<Rightarrow> Registered \<Rightarrow> bool" where
  "passkey_made e ms st u registered \<longleftrightarrow>
     (\<exists>rp c name registration. we_relying_party (ac_web e) = Some rp
        \<and> read_ceremony (ws_get (w_session st) CEREMONY_KEY) = Some c \<and> is_recent ms (ce_at c) CEREMONY_MS
        \<and> ce_adding c = Some (u, name) \<and> snd (take_ceremony (ac_web e) ms st) = Some c
        \<and> verified_registration e rp (ce_challenge c) registered = Inr registration)"

lemma update_email_writes:
  assumes "update_email (ac_web e) script headers (Inr (mail, pw)) input q user ms d0 st = (st', a)"
  shows "quiet st st' \<or> we_verify_password (ac_web e) (password user) pw \<and> own_rows (u_id user) (w_db st) (w_db st')"
proof (cases "email_taken d0 user mail")
  case True
  then show ?thesis using assms quiet_refusals(1) by (auto simp: update_email_def Let_def)
next
  case False
  then show ?thesis
    using assms unfolding update_email_def Let_def
    by (simp, elim password_confirmed_writes)
      (auto simp: with_session_def dest: quiet_refusals own_save_email split: sum.split_asm)
qed

lemma update_password_writes:
  assumes "update_password e script headers (Inr (pw, new)) input q user ms st = (st', a)"
  shows "quiet st st' \<or> we_verify_password (ac_web e) (password user) pw \<and> own_rows (u_id user) (w_db st) (w_db st')"
  using assms unfolding update_password_def Let_def
  by (simp, elim password_confirmed_writes)
    (auto simp: with_session_def dest: quiet_refusals own_change_password split: sum.split_asm)

lemma enable_writes:
  assumes "enable_handler e (Inr (code, pw)) input picks user ms st = (st', a)"
  shows "quiet st st' \<or> we_verify_password (ac_web e) (password user) pw \<and> own_rows (u_id user) (w_db st) (w_db st')"
proof (cases "has_authenticator user \<or> current_setup ms (w_session st) = None")
  case True
  then show ?thesis using assms by (auto simp: enable_handler_def with_session_def quiet_def split: if_split_asm)
next
  case False
  then obtain seen where seen: "current_setup ms (w_session st) = Some seen" by auto
  have own: "own_rows (u_id user) d d2" if "enable_authenticator enc user secret step now d = (d1, x)" "first_codes w b (u_id user) picks now d1 = Inr (d2, codes)"
    for enc secret step now d d1 x w b d2 codes
    using own_save_authenticator own_first_codes that own_rows_trans by (metis enable_authenticator_def fst_conv)
  show ?thesis
    using assms False unfolding enable_handler_def seen
    by (simp, elim password_confirmed_writes)
      (auto simp: Let_def dest: quiet_refusals(2) own simp: quiet_def back_with_def with_session_def split: sum.split_asm option.split_asm prod.split_asm)
qed

lemma disable_writes:
  assumes "disable_handler (ac_web e) script headers (Inr pw) input user ms st = (st', a)"
  shows "quiet st st' \<or> we_verify_password (ac_web e) (password user) pw \<and> own_rows (u_id user) (w_db st) (w_db st')"
proof -
  have "own_rows (u_id user) d (settle_recovery_codes x d1)" if "disable_authenticator user now d = (d1, x)" for now d d1 x
  proof -
    have "u_id x = u_id user" using that by (auto simp: disable_authenticator_def save_authenticator_def Let_def split: if_split_asm)
    then show ?thesis using that own_save_authenticator own_settle own_rows_trans by (metis disable_authenticator_def fst_conv)
  qed
  then show ?thesis
    using assms unfolding disable_handler_def Let_def
    by (simp, elim password_confirmed_writes) (auto simp: with_session_def dest: quiet_refusals split: prod.split_asm)
qed

lemma renew_writes:
  assumes "renew_recovery_codes (ac_web e) (Inr pw) input picks user ms st = (st', a)"
  shows "quiet st st' \<or> we_verify_password (ac_web e) (password user) pw \<and> own_rows (u_id user) (w_db st) (w_db st')"
  using assms unfolding renew_recovery_codes_def
  by (simp, elim password_confirmed_writes)
    (auto simp: with_session_def dest: quiet_refusals own_replace_all split: sum.split_asm if_split_asm prod.split_asm)

lemma passkey_options_writes:
  assumes "passkey_options (ac_web e) (Inr (name, pw)) input drawn user ms d0 st = (st', a)"
  shows "quiet st st' \<or> we_verify_password (ac_web e) (password user) pw \<and> own_rows (u_id user) (w_db st) (w_db st')"
proof (cases "we_relying_party (ac_web e) = None")
  case True
  then show ?thesis using assms by (simp add: passkey_options_def Let_def)
next
  case False
  then show ?thesis
    using assms unfolding passkey_options_def Let_def
    by (simp del: not_None_eq, elim password_confirmed_writes) (auto simp: with_session_def split: if_split_asm)
qed

lemma destroy_passkey_writes:
  assumes "destroy_passkey (ac_web e) script i (Inr pw) input user ms d0 st = (st', a)"
  shows "quiet st st' \<or> we_verify_password (ac_web e) (password user) pw \<and> own_rows (u_id user) (w_db st) (w_db st')"
proof (cases "find_passkey d0 user i")
  case None
  then show ?thesis using assms by (auto simp: destroy_passkey_def with_session_def quiet_def)
next
  case (Some passkey)
  have "own_rows (u_id user) d (d\<lparr>passkeys := del (\<lambda>p. pk_id p = n \<and> pk_user_id p = u_id user) (passkeys d)\<rparr>)" for d n
    by (auto simp: own_rows_def intro!: filter_delete_where)
  then have "own_rows (u_id user) d (settle_recovery_codes user (d\<lparr>passkeys := del (\<lambda>p. pk_id p = n \<and> pk_user_id p = u_id user) (passkeys d)\<rparr>))" for d n
    using own_settle own_rows_trans by blast
  then show ?thesis
    using assms unfolding destroy_passkey_def Let_def Some
    by (simp, elim password_confirmed_writes) (auto simp: with_session_def quiet_def split: if_split_asm)
qed

lemma store_passkey_writes:
  assumes "store_passkey e (Some registered) picks user ms st = (st', a)"
  shows "w_db st' = w_db st \<or> passkey_made e ms st (u_id user) registered \<and> own_rows (u_id user) (w_db st) (w_db st')"
    "ws_get (w_session st') CEREMONY_KEY \<in> {None, ws_get (w_session st) CEREMONY_KEY}"
proof -
  obtain st1 taken where t: "take_ceremony (ac_web e) ms st = (st1, taken)" by fastforce
  have gone: "ws_get (w_session st1) CEREMONY_KEY = None"
    using t by (auto simp: take_ceremony_def ws_pull_def Let_def split: option.split_asm if_split_asm prod.split_asm)
  have after: "ws_get (fst (after_protection codes s)) k = ws_get s k" for codes s k
    by (simp add: after_protection_def split: option.split)
  have own: "own_rows (u_id user) d d2" if "insert_passkey p now d = Inr d1" "pk_user_id p = u_id user" "first_codes w b (u_id user) picks now d1 = Inr (d2, codes)"
    for p now d d1 w b d2 codes
    using own_insert_passkey [OF that(1)] own_first_codes [OF that(3)] that(2) own_rows_trans by metis
  have asked: "passkey_made e ms st (u_id user) registered" if "taken = Some c" "ce_adding c = Some (u_id user, name)"
      "we_relying_party (ac_web e) = Some rp" "verified_registration e rp (ce_challenge c) registered = Inr registration" for c name rp registration
    using take_ceremony_Some(3) [OF t that(1)] t that by (auto simp: passkey_made_def)
  show "w_db st' = w_db st \<or> passkey_made e ms st (u_id user) registered \<and> own_rows (u_id user) (w_db st) (w_db st')"
    using assms take_ceremony_Some(2) [OF t] asked
    by (auto simp: store_passkey_def t Let_def result_simps case_prod_unfold dest!: own
        split: option.split_asm prod.split_asm sum.split_asm if_split_asm)
  show "ws_get (w_session st') CEREMONY_KEY \<in> {None, ws_get (w_session st) CEREMONY_KEY}"
    using assms gone after
    by (auto simp: store_passkey_def t Let_def case_prod_unfold split: option.split_asm prod.split_asm sum.split_asm if_split_asm)
qed

lemmas settings_writes = update_email_writes update_password_writes enable_writes disable_writes renew_writes
  passkey_options_writes destroy_passkey_writes

lemma setup_page_quiet: "setup_page drawn user ms st = (st', a) \<Longrightarrow> quiet st st'"
  by (auto simp: setup_page_def with_session_def quiet_def SETUP_KEY_def CEREMONY_KEY_def split: if_split_asm option.split_asm)

lemma settings_step_own: "settings_step e user ms given_password st st' \<Longrightarrow> own_rows (u_id user) (w_db st) (w_db st')"
  by (induction rule: settings_step.induct) (auto simp: quiet_def dest!: settings_writes setup_page_quiet store_passkey_writes(1))

text \<open>C16: An account is changed by who knows its password. A request that writes to the address, the password, the authenticator app, the recovery codes or
  the passkeys of the person who is signed in, or that asks their browser for a new passkey, carries the current password of the account. The one exception is the second
  request of a new passkey, which carries its answer instead: it proves a new passkey for a challenge that this browser was given for the account at most five
  minutes ago, after the password, and that was not answered before. Whatever is written is of the account
  itself: no other account, passkey, recovery code or remember-me token changes, and nobody becomes a super admin. The settings of the instance are not of an account: a
  super admin changes them on the same page without a password.\<close>

theorem account_changes_need_password:
  assumes "settings_step e user ms what st st'"
  shows "own_rows (u_id user) (w_db st) (w_db st')
    \<and> (w_db st' = w_db st \<and> ws_get (w_session st') CEREMONY_KEY \<in> {None, ws_get (w_session st) CEREMONY_KEY}
       \<or> (\<exists>pw. what = TypedPassword pw \<and> we_verify_password (ac_web e) (password user) pw)
       \<or> (\<exists>registered. what = MadePasskey registered \<and> passkey_made e ms st (u_id user) registered))"
proof
  show "own_rows (u_id user) (w_db st) (w_db st')" using settings_step_own [OF assms] .
  show "w_db st' = w_db st \<and> ws_get (w_session st') CEREMONY_KEY \<in> {None, ws_get (w_session st) CEREMONY_KEY}
      \<or> (\<exists>pw. what = TypedPassword pw \<and> we_verify_password (ac_web e) (password user) pw)
      \<or> (\<exists>registered. what = MadePasskey registered \<and> passkey_made e ms st (u_id user) registered)"
    using assms
  proof (induction rule: settings_step.induct)
    case (add_passkey registered picks st st' a)
    then show ?case using store_passkey_writes [OF add_passkey] by auto
  qed (auto simp: quiet_def dest!: settings_writes setup_page_quiet)
qed

text \<open>C40: The limit of passkeys is not held. An account keeps twenty passkeys at most, which is checked when a browser asks for
  the challenge of a new one. The request that adds the passkey does not count again: however many an account has, twenty or more, the answer to a challenge
  it was given before succeeds and adds another one.\<close>

theorem passkeys_beyond_limit:
  assumes "we_relying_party (ac_web e) = Some rp" and "take_ceremony (ac_web e) ms st = (st1, Some c)"
    and "ce_adding c = Some (u_id user, name)" and "verified_registration e rp (ce_challenge c) registered = Inr registration"
    and "find_by_credential_id (w_db st) (re_id registered) = None" and "user_exists (w_db st) (u_id user)"
    and "count_of_user (w_db st) (u_id user) = MAX_PASSKEYS + extra"
  shows "\<exists>st' to. store_passkey e (Some registered) picks user ms st = (st', RedirectedTo to)
    \<and> count_of_user (w_db st') (u_id user) = MAX_PASSKEYS + extra + 1"
proof -
  let ?p = "\<lparr>pk_id = 0, pk_user_id = u_id user, pk_name = name, credential_id = re_id registered,
    public_key = we_encode (ac_web e) (rg_public_key registration), sign_count = uint (rg_sign_count registration),
    backed_up = rg_backed_up registration, pk_created_at = 0, pk_last_used_at = None\<rparr>"
  have d: "w_db st1 = w_db st" by (rule take_ceremony_Some(2) [OF assms(2)])
  have protected: "is_protected (w_db st) user" using assms(7) by (simp add: is_protected_def MAX_PASSKEYS_def)
  have free: "\<not> has_row (\<lambda>x. credential_id x = re_id registered) (passkeys (w_db st))"
    using assms(5) by (auto simp: find_by_credential_id_def find_row_None has_row_iff)
  define d1 where "d1 = (w_db st)\<lparr>passkeys := append_row (\<lambda>i. ?p\<lparr>pk_id := i, pk_created_at := ms div 1000\<rparr>) (passkeys (w_db st))\<rparr>"
  have made: "and_then (insert_passkey ?p (ms div 1000) (w_db st)) (first_codes (ac_web e) True (u_id user) picks (ms div 1000)) = Inr (d1, None)"
    using free assms(6) by (simp add: insert_passkey_def first_codes_def d1_def)
  have "count_of_user d1 (u_id user) = MAX_PASSKEYS + extra + 1"
    using assms(7) by (simp add: d1_def count_of_user_def count_rows_def count_where_def)
  then show ?thesis
    using assms(1-5) protected made d by (simp add: store_passkey_def Let_def after_protection_def)
qed

text \<open>Bob, signed in, changes his address.\<close>

definition sample_account_env :: account_env where
  "sample_account_env =
     \<lparr>ac_web = sample_web_env, ac_encrypt = (\<lambda>t. t), ac_hash_password = (\<lambda>t. t),
      ac_verify_registration = (\<lambda>rp c client_data attestation.
        Inr \<lparr>rg_credential_id = client_data, rg_public_key = ''k'', rg_sign_count = 0, rg_backed_up = False\<rparr>)\<rparr>"

theorem account_changes_need_password_witness:
  "\<exists>st'. settings_step sample_account_env (sample_user 2 ''bob@x'' False) 5000 (TypedPassword ''hash'') (sample_browser bobs_session []) st'
     \<and> w_db st' \<noteq> sample_db \<and> own_rows 2 sample_db (w_db st')"
proof -
  let ?r = "update_email sample_web_env True [] (Inr (''rob@x'', ''hash'')) [] None (sample_user 2 ''bob@x'' False) 5000 sample_db (sample_browser bobs_session [])"
  have step: "settings_step sample_account_env (sample_user 2 ''bob@x'' False) 5000 (TypedPassword ''hash'') (sample_browser bobs_session []) (fst ?r)"
    by (rule change_email [where a = "snd ?r" and script = True and mail = "''rob@x''" and ?d0.0 = sample_db and q = None and input = "[]" and headers = "[]"])
      (simp add: sample_account_env_def)
  have "map email (rows (users (w_db (fst ?r)))) = [''ann@x'', ''rob@x'', ''cy@x'']" by code_simp
  moreover have "map email (rows (users sample_db)) = [''ann@x'', ''bob@x'', ''cy@x'']" by code_simp
  ultimately have "w_db (fst ?r) \<noteq> sample_db" by auto
  moreover have "w_db (sample_browser bobs_session []) = sample_db" by (simp add: sample_browser_def)
  moreover have "u_id (sample_user 2 ''bob@x'' False) = 2" by (simp add: sample_user_def)
  ultimately show ?thesis using account_changes_need_password [OF step] step by auto
qed

text \<open>Twenty passkeys of Bob, and the challenge for another one.\<close>

definition crowded_db :: db where
  "crowded_db = sample_db\<lparr>passkeys := \<lparr>rows = map (\<lambda>i. sample_passkey\<lparr>pk_id := i, credential_id := show_int i\<rparr>) [1..20], seq = 20\<rparr>\<rparr>"

definition crowded :: web_state where
  "crowded = (sample_browser [(CEREMONY_KEY, ceremony_value \<lparr>ce_challenge = ''x'', ce_at = 5000, ce_adding = Some (2, ''phone'')\<rparr>)] [])\<lparr>w_db := crowded_db\<rparr>"

theorem passkeys_beyond_limit_witness:
  "\<exists>st' to. store_passkey sample_account_env (Some \<lparr>re_id = ''c'', re_client_data_json = ''c'', re_attestation_object = []\<rparr>) []
      (sample_user 2 ''bob@x'' False) 5000 crowded = (st', RedirectedTo to) \<and> count_of_user (w_db st') 2 = MAX_PASSKEYS + 1"
proof -
  let ?e = "sample_account_env" and ?bob = "sample_user 2 ''bob@x'' False"
  let ?answer = "\<lparr>re_id = ''c'', re_client_data_json = ''c'', re_attestation_object = []\<rparr>"
  have rp: "we_relying_party (ac_web ?e) = Some (''x'', ''https://x'')" by (simp add: sample_account_env_def sample_web_env_def)
  have "snd (take_ceremony (ac_web ?e) 5000 crowded) = Some \<lparr>ce_challenge = ''x'', ce_at = 5000, ce_adding = Some (2, ''phone'')\<rparr>" by code_simp
  then obtain st1 where t: "take_ceremony (ac_web ?e) 5000 crowded = (st1, Some \<lparr>ce_challenge = ''x'', ce_at = 5000, ce_adding = Some (2, ''phone'')\<rparr>)"
    by (metis prod.collapse)
  have adding: "ce_adding \<lparr>ce_challenge = ''x'', ce_at = 5000, ce_adding = Some (2, ''phone'')\<rparr> = Some (u_id ?bob, ''phone'')"
    by (simp add: sample_user_def)
  have "is_ok (verified_registration ?e (''x'', ''https://x'') (ce_challenge \<lparr>ce_challenge = ''x'', ce_at = 5000, ce_adding = Some (2, ''phone'')\<rparr>) ?answer)"
    by code_simp
  then obtain registration where v: "verified_registration ?e (''x'', ''https://x'')
      (ce_challenge \<lparr>ce_challenge = ''x'', ce_at = 5000, ce_adding = Some (2, ''phone'')\<rparr>) ?answer = Inr registration"
    by (auto simp: is_ok_iff)
  have new: "find_by_credential_id (w_db crowded) (re_id ?answer) = None" "user_exists (w_db crowded) (u_id ?bob)"
    "count_of_user (w_db crowded) (u_id ?bob) = MAX_PASSKEYS + 0"
    by code_simp+
  have "u_id ?bob = 2" by (simp add: sample_user_def)
  then show ?thesis using passkeys_beyond_limit [OF rp t adding v new, of "[]"] by simp
qed

end
