(* ===== verification/Spec2Isabelle.thy ===== *)
theory Spec2Isabelle
  imports Limiter OauthServer Sse Endpoint Backup UpstreamOauth AccountSettings
begin

text \<open>
  MyMCPs: a verification of the self-hosted MCP gateway of this repository (Rust, under \<open>src/crates\<close>).

  \<^bold>\<open>The program.\<close> People sign in to a web interface and share MCP servers in teams. An agent reaches those
  servers through one endpoint, \<open>/mcp\<close>, with an access token that a person made or that the OAuth server of the gateway
  issued. The gateway checks the token and its allowance, lists the tools of the MCPs the token may use, holds calls that a person must approve,
  forwards the others, and writes every call to a log. Towards an MCP it is a client of its own: it signs in at the
  provider of the MCP, renews the tokens, and sends every request through a fetch that keeps to public addresses. One SQLite
  database holds the state; requests are answered concurrently, so what a handler read may have changed when it writes.

  \<^bold>\<open>The theories\<close>, each importing what the code it models calls.

  \<^item> \<open>Prelude\<close>: results as sums with Rust's \<open>?\<close>, tables of rows, lemmas on lists and words, and the interfaces that several
    components share.
  \<^item> \<open>Database\<close> (\<open>core/src/models\<close>, \<open>core/src/db\<close>): the rows as records, unique indexes, foreign keys and what a delete
    cascades to.
  \<^item> \<open>Teams\<close>, \<open>TeamRoutes\<close> (\<open>core/src/models/team.rs\<close>, \<open>user.rs\<close>, \<open>web/src/routes/teams.rs\<close>, \<open>invites.rs\<close>, \<open>auth.rs\<close>,
    \<open>settings.rs\<close>): roles, accounts, teams and invites, with the handlers that write. \<open>TeamInvariants\<close>: the step relation of those
    handlers, that of the rows of MCPs and tailnets, and what stays true along them.
  \<^item> \<open>Totp\<close>, \<open>TwoFactor\<close> (\<open>core/src/crypto/totp.rs\<close>, \<open>core/src/models/two_factor.rs\<close>, \<open>passkey.rs\<close>): base32, one-time
    codes, recovery codes, the authenticator and the counters of passkeys.
  \<^item> \<open>AccessTokens\<close> (\<open>gateway/src/access_token.rs\<close>, \<open>web/src/routes/tokens.rs\<close>): creation, lookup, scopes, revocation, and the
    rotation of OAuth grants with the detection of a replay.
  \<^item> \<open>OauthRequests\<close>, \<open>OauthServer\<close> (\<open>gateway/src/oauth\<close>, \<open>gateway/src/validators\<close>, \<open>core/src/public_url.rs\<close>,
    \<open>web/src/routes/oauth_server.rs\<close>): the validators, registration, consent, codes, exchange and refresh.
  \<^item> \<open>Approvals\<close> (\<open>upstream/src/approvals.rs\<close>, \<open>gateway/src/approvals\<close>, \<open>web/src/routes/approvals.rs\<close>): which tools ask, the gate in
    front of a call, decisions, expiry. Refined from a ledger of requests.
  \<^item> \<open>Limiter\<close>, \<open>Bearer\<close> (\<open>core/src/limiter.rs\<close>, \<open>gateway/src/rate_limiter.rs\<close>, \<open>bearer.rs\<close>): fixed windows over two stores, and how a
    request to \<open>/mcp\<close> is let in.
  \<^item> \<open>LazyTools\<close>, \<open>CallLog\<close>, \<open>Endpoint\<close> (\<open>gateway/src/lazy_tools.rs\<close>, \<open>call_log.rs\<close>, \<open>endpoint.rs\<close>): names and search of tools, the
    queue of records with its writer, and every path of a tool call.
  \<^item> \<open>Sse\<close> (\<open>mcp/src/sse.rs\<close>): the incremental parser and writer of event streams, with UTF-8 decoding.
  \<^item> \<open>Cron\<close> (\<open>gateway/src/auto_update/cron.rs\<close>): reading a schedule and the search for its next run.
  \<^item> \<open>ClientIp\<close>, \<open>AddressGuard\<close> (\<open>core/src/client_ip.rs\<close>, \<open>net/src/address_guard.rs\<close>): the address behind proxies, restricted
    addresses in all their forms, and the guard of discovered endpoints.
  \<^item> \<open>Backup\<close> (\<open>core/src/backup\<close>): the sealed container, streamed export, and reading it back.
  \<^item> \<open>SafeFetch\<close> (\<open>net/src/safe_fetch.rs\<close>, \<open>overlay.rs\<close>): redirects, credentials of URLs, transports and limited bodies.
  \<^item> \<open>McpAuth\<close> (\<open>mcp-auth/src\<close>): the OAuth client: discovery, token requests and registration over the fetch of the caller.
  \<^item> \<open>UpstreamOauth\<close> (\<open>upstream/src/oauth.rs\<close>, \<open>session.rs\<close>, \<open>allowlisted_client.rs\<close>): the sign-in of an MCP from its start to the renewals
    of its tokens.
  \<^item> \<open>SignIn\<close> (\<open>web/src/auth.rs\<close>, \<open>session.rs\<close>, \<open>cookies.rs\<close>, \<open>csrf.rs\<close>, \<open>guards.rs\<close>, \<open>web/src/routes/auth.rs\<close>, \<open>two_factor.rs\<close>,
    \<open>passkeys.rs\<close>): the session of a browser in its cookie, the stamp of a session, remember-me tokens, the three ways to
    sign in, and the three to sign up (\<open>web/src/routes/auth.rs\<close>, \<open>invites.rs\<close>).
  \<^item> \<open>AccountSettings\<close> (\<open>web/src/routes/settings.rs\<close>, \<open>two_factor.rs\<close>, \<open>passkeys.rs\<close>): what a person changes of their own account.
  \<^item> This theory: every write of those components as one step relation on the database, and the properties that span them.

  \<^bold>\<open>How the model reads.\<close> A struct is a record and an enum a datatype with the names of the source; a function keeps its
  name unless it clashes. Ids, timestamps and numbers of JSON are \<open>int\<close>, addresses and one-time codes are words, counters
  have their width where they could wrap. Strings are byte lists in UTF-8, and lengths are counted in bytes or in UTF-16 units as the code
  counts them. The clock, random values, hashing, encryption, URLs, DNS and what another server answers are arguments. A handler takes the
  database it read and the database it writes as two arguments where the code does not hold a transaction over
  both; a transaction that fails leaves the database as it was. Errors are values of the sum type with the branches and
  messages of the code. Times are in seconds for the database and in milliseconds in \<open>Limiter\<close>, \<open>UpstreamOauth\<close> and \<open>SignIn\<close>.

  \<^bold>\<open>What is shown.\<close>

  \<^item> Accounts and access: the invariant of the whole instance (\<open>instance_stays_sound\<close>), a request to \<open>/mcp\<close> from its headers to
    the MCP (\<open>request_reaches_own_mcps\<close>), roles that nobody raises for themselves, tokens that stay dead, one-time
    codes and refresh tokens that work once, consent that grants only what the person has.
  \<^item> The web interface: a request is someone's only with a live session or a remember-me token, nobody is signed in without proof (a
    password alone never for a protected account) or by making a new account, a person works in a team of theirs, a passkey answers a challenge once, tokens of forms
    end with a sign-in, a session is read back from its cookie, a sign-in leads to a page of this site, and an account is changed only
    by who knows its password.
  \<^item> Tool calls: an approval is spent on one call, every call leaves one record that says how it went, the
    registry is for admins, the text of an MCP's failure stays in the gateway (a registry tool, for an admin, apart). The log keeps its order, loses nothing below its bound, and a
    flush returns.
  \<^item> Requests outwards: exactly the restricted addresses are restricted; redirects stay on their origin, and so do credentials; a transport held to public
    addresses stays public, one that needs an overlay uses it. For the sign-ins: credentials stay at the token endpoint, tokens
    stay with their provider, a step writes only on the basis it read, a callback finishes its own sign-in, pending starts are
    bounded and read back, one renewal runs at a time.
  \<^item> Data: event streams cut anywhere, schedules, backups that come back whole and open only as sealed, limits over a window.

  Four theorems show behaviour the code does not mean to have: \<open>reset_protection_misses_late_authenticator\<close>,
  \<open>token_outlives_membership\<close>, \<open>remember_cookie_works_twice\<close> and \<open>passkeys_beyond_limit\<close>. Each rests on a value that was read before the write that depends on it. For this reason the
  step relations of tokens and of the instance have a parameter \<open>late\<close>: the memberships that may be lost between what a request for a token
  or a consent read and what it writes. The theorems hold for every such set, the empty one and the full one included, and the invariant says
  of a live credential that its person is a member or one of \<open>late\<close>.

  \<^bold>\<open>Interfaces.\<close> \<open>invariant_system\<close> (a step relation and an invariant) is interpreted on accounts, tokens, registrations, approvals and the
  whole instance; \<open>one_shot\<close> (an attempt that spends its ticket) on invites, recovery codes, one-time passwords,
  authorization codes and refresh tokens; \<open>codec\<close> on base32; \<open>counter_store\<close>, \<open>two_stores\<close> and \<open>window_limiter\<close> on the memory and database
  stores of the limiter; \<open>incremental\<close> on the event parser; \<open>calendar\<close> on the Gregorian calendar; \<open>collation\<close> on the order of bytes;
  \<open>http_fetch\<close> (what holds of a fetch holds of every request the OAuth client makes with it) on the fetch of a sign-in.

  \<^bold>\<open>Loops.\<close> Every loop is a total function with a measure, the length of what is left or the redirects that may still
  be followed (five in both clients), except the search for the next run of a schedule: it is a \<open>partial_function\<close>, and
  \<open>next_run_found\<close> proves that it returns. Concurrent parts (the writer of the log, renewals, readers that hand out portions) are
  steps in any order, or functions of every way to portion the input.

  \<^bold>\<open>Not modelled.\<close> The built-in MCPs (Google Ads, iCloud Mail, Strava) reshape the data of remote services behind one tool call, whose
  answer is a parameter here. The web pages and the forms of the MCP routes surround the modelled operations. The JSON-RPC client and server, the
  processes of npm packages, the sandbox and the tailnets are I/O; JSON documents of a provider are read by parameters that
  return their members or refuse. SQL text, migrations of old data, the restore of a backup, WebAuthn ceremonies and the redaction of
  diagnostics are left out, as are the command line, release tasks and tests.
\<close>

section \<open>The instance at work\<close>

text \<open>
  Every write of the modelled components on the one database of an instance, each on a database that
  other requests may have changed since it read. Two writes rest on a membership that was read
  when the request came in and that the code does not read again: a new token and a consent. The
  membership is still there at the moment of the write, or it is one of \<open>late\<close>; with every pair in \<open>late\<close> nothing is asked, and with none
  of them these requests are answered one at a time. An authorization code is never updated, so what an
  exchange read of it is the row it deletes.
\<close>

inductive system_step :: "(int \<times> int) set \<Rightarrow> Crates \<Rightarrow> approval_env \<Rightarrow> db \<Rightarrow> db \<Rightarrow> bool" for late cr env where
  of_account: "account_step d d' \<Longrightarrow> system_step late cr env d d'"
| of_registry: "registry_step d d' \<Longrightarrow> system_step late cr env d d'"
| of_token: "token_step late (sha256_hex cr) d d' \<Longrightarrow> system_step late cr env d d'"
| of_registration: "registration_step cr (l, d) (l', d') \<Longrightarrow> system_step late cr env d d'"
| of_consent:
    "answer_consent cr query_pairs with_pairs config user mine current team_id input plaintext now d0 d = (d', r) \<Longrightarrow>
     list_all (\<lambda>m. is_member d (t_id (ms_team m)) (u_id user) \<or> (t_id (ms_team m), u_id user) \<in> late) (current # mine) \<Longrightarrow> system_step late cr env d d'"
| of_exchange:
    "exchange_commit cr client c plaintext fresh now d = Inr (d', tokens) \<Longrightarrow>
     list_all (\<lambda>x. code_id x = code_id c \<longrightarrow> x = c) (rows (authorization_codes d)) \<Longrightarrow> system_step late cr env d d'"
| of_approval: "approval_step env (now, d) (t, d') \<Longrightarrow> system_step late cr env d d'"
| of_bearer:
    "authenticate_bearer (sha256_hex cr) (url_parse cr) (url_origin cr) config header now ms l d0 d = (l', d', answer) \<Longrightarrow>
     system_step late cr env d d'"
| of_call: "call_tool e s name args st = (st', v) \<Longrightarrow> system_step late cr env (gw_db st) (gw_db st')"
| of_authenticator: "accept_authenticator_code h decrypt user code t d = (d', ok) \<Longrightarrow> system_step late cr env d d'"
| of_enabling: "enable_authenticator encrypt user secret step now d = (d', user') \<Longrightarrow> system_step late cr env d d'"
| of_disabling: "disable_authenticator user now d = (d', user') \<Longrightarrow> system_step late cr env d d'"
| of_protection: "reset_protection actor i given now d0 d = Inr d' \<Longrightarrow> system_step late cr env d d'"
| of_recovery: "recovery_consume (sha256_hex cr) u code now d = (d', ok) \<Longrightarrow> system_step late cr env d d'"
| of_recovery_codes: "replace_all (sha256_hex cr) u picks now d = Inr (d', codes) \<Longrightarrow> system_step late cr env d d'"
| of_passkey: "record_use self assertion now d = (d', ok) \<Longrightarrow> system_step late cr env d d'"
| of_sign_in: "oauth_step upstream m flow d d' \<Longrightarrow> system_step late cr env d d'"
| of_web_sign_in: "sign_in_step web ms d0 what st st' \<Longrightarrow> system_step late cr env (w_db st) (w_db st')"
| of_settings: "settings_step account user ms what st st' \<Longrightarrow> system_step late cr env (w_db st) (w_db st')"
| of_page: "silent_auth web secret ms d0 st = (st', r) \<Longrightarrow> system_step late cr env (w_db st) (w_db st')"

section \<open>What each part leaves alone\<close>

text \<open>A write outside the tables of people, tokens and codes.\<close>

definition apart :: "db \<Rightarrow> db \<Rightarrow> bool" where
  "apart d d' \<longleftrightarrow> same_people d d' \<and> access_tokens d' = access_tokens d \<and> authorization_codes d' = authorization_codes d"

lemma apart_inv: "apart d d' \<Longrightarrow> team_inv late d \<Longrightarrow> team_inv late d'"
  by (rule tokens_evolve_inv) (auto simp: apart_def tokens_evolve_def)

lemma apart_refl [simp]: "apart d d"
  by (simp add: apart_def same_people_def)

lemma apart_trans: "apart d d1 \<Longrightarrow> apart d1 d2 \<Longrightarrow> apart d d2"
  by (simp add: apart_def same_people_def)

lemma codes_inv:
  assumes "team_inv late d" and "\<And>c. c \<in> set (rows codes) \<Longrightarrow>
      c \<in> set (rows (authorization_codes d)) \<or>
      (is_member d (code_team_id c) (code_user_id c) \<or> (code_team_id c, code_user_id c) \<in> late)
      \<and> team_exists d (code_team_id c) \<and> user_exists d (code_user_id c)"
  shows "team_inv late (d\<lparr>authorization_codes := codes\<rparr>)"
proof -
  have mem: "is_member (d\<lparr>authorization_codes := codes\<rparr>) = is_member d"
    by (simp add: is_member_def fun_eq_iff)
  note inv = team_inv_extend [OF assms(1)]
  have "creds_ok late (d\<lparr>authorization_codes := codes\<rparr>)"
    using inv(5) assms(2) unfolding creds_ok_def mem by auto
  moreover have "refs_ok (d\<lparr>authorization_codes := codes\<rparr>)"
    using inv(6) assms(2) by (auto simp: refs_ok_def)
  ultimately show ?thesis
    using inv by (simp add: team_inv_def ids_ok_def members_ok_def owned_def has_owner_def governed_def)
qed

lemma insert_recovery_codes_apart:
  "insert_recovery_codes sha u codes now d = Inr d' \<Longrightarrow> apart d d'"
proof (induction codes arbitrary: d)
  case (Cons code codes)
  then obtain d1 where "insert_recovery_code u (recovery_hash sha code) now d = Inr d1"
      "insert_recovery_codes sha u codes now d1 = Inr d'"
    by (auto simp: result_simps)
  moreover from this(1) have "apart d d1"
    by (auto simp: insert_recovery_code_def result_simps apart_def same_people_def)
  ultimately show ?case using Cons.IH apart_trans by blast
qed (simp add: result_simps)

lemma approval_write_apart:
  assumes "approval_step env (now, d) (t, d')"
  shows "apart d d'"
proof -
  have consume: "apart d (fst (consume_request r t d))" for r t d
    by (simp add: consume_request_def Let_def apart_def same_people_def)
  have ask: "apart d d'" if "ask_person env call fresh asked d0 d = (d', g)" for call fresh asked d0 d d' g
    using that by (auto simp: ask_person_def request_approval_def insert_request_def apart_def same_people_def Let_def ensure_def
        split: if_splits sum.splits option.splits)
  have decided: "apart d d'" if "decided env call fresh before t d0 d = (d', g)" for call fresh before t d0 d d' g
    using that consume ask
    by (auto simp: decided_def split: option.splits ApprovalDecision.splits prod.splits if_splits)
      (metis apart_trans fst_conv)+
  from assms show ?thesis
  proof (cases rule: approval_step.cases)
    case (approval_gate from_str asks call fresh before d0 g)
    then show ?thesis using decided by (auto simp: gate_def split: if_splits)
  next
    case (approval_ask asked call d0 fresh g)
    then show ?thesis using ask by blast
  next
    case (approval_decide user team link decision d0 res)
    then show ?thesis
      by (auto simp: decide_handler_def decide_request_def apart_def same_people_def Let_def split: option.splits)
  next
    case (approval_prune force instant l l')
    then show ?thesis
      by (auto simp: prune_expired_def delete_approvals_def apart_def same_people_def split: if_splits)
  qed
qed


section \<open>What each part keeps\<close>

lemma delete_clients_inv:
  assumes "team_inv late d"
  shows "team_inv late (delete_clients P d)"
proof -
  define gone where "gone = set (map oc_id (filter P (rows (oauth_clients d))))"
  define d1 where "d1 = d\<lparr>authorization_codes := del (\<lambda>c. code_oauth_client_id c \<in> gone) (authorization_codes d)\<rparr>"
  define d2 where "d2 = d1\<lparr>access_tokens := upd (\<lambda>a. case at_oauth_client_id a of None \<Rightarrow> False | Some c \<Rightarrow> c \<in> gone)
      (\<lambda>a. a\<lparr>at_oauth_client_id := None\<rparr>) (access_tokens d1)\<rparr>"
  have "team_inv late d1"
    unfolding d1_def by (rule codes_inv [OF assms]) (auto simp: delete_where_def)
  moreover have "tokens_evolve d1 d2"
    unfolding d2_def by (rule tokens_evolve_upd) simp
  ultimately have "team_inv late d2" using tokens_evolve_inv by blast
  moreover have "apart d2 (delete_clients P d)"
    unfolding delete_clients_def Let_def gone_def [symmetric]
    by (simp add: apart_def same_people_def d2_def d1_def)
  ultimately show ?thesis by (rule apart_inv [rotated])
qed

lemma prune_clients_inv:
  "prune_unused_clients force instant now l d = (l', d') \<Longrightarrow> team_inv late d \<Longrightarrow> team_inv late d'"
  using prune_cases [of force instant now l d l' d'] by (auto intro: delete_clients_inv)

lemma make_room_inv: "make_room_for_client now d = Inr d' \<Longrightarrow> team_inv late d \<Longrightarrow> team_inv late d'"
  using make_room_cases [of now d d'] by (auto intro: delete_clients_inv)

lemma register_client_inv:
  assumes "register_client cr input rand_id rand_secret instant now (l, d) = ((l', d'), r)" "team_inv late d"
  shows "team_inv late d'"
  using assms(1)
proof (cases rule: register_cases)
  case (registered reg l1 d1 d2 d3 c)
  have "team_inv late d2" using registered(2,3) assms(2) prune_clients_inv make_room_inv by (metis snd_conv)
  moreover have "apart d2 d3"
    using registered(4) by (auto simp: insert_client_def Let_def result_simps apart_def same_people_def)
  ultimately show ?thesis using registered(5) apart_inv by simp
qed (use assms(2) prune_clients_inv make_room_inv in \<open>auto\<close>)

lemma create_code_inv:
  assumes "team_inv late d" "is_member d team user \<or> (team, user) \<in> late"
  shows "team_inv late (fst (create_authorization_code cr request user team manage plaintext now d))"
proof -
  define d1 where "d1 = d\<lparr>authorization_codes := del (\<lambda>c. code_expires_at c < now) (authorization_codes d)\<rparr>"
  have d1: "team_inv late d1"
    unfolding d1_def by (rule codes_inv [OF assms(1)]) (auto simp: delete_where_def)
  have "is_member d1 team user \<or> (team, user) \<in> late" using assms(2) by (simp add: d1_def is_member_def)
  then have "team_inv late e" if "insert_code c now d1 = Inr e" "code_team_id c = team" "code_user_id c = user" for c e
    using that by (auto simp: insert_code_def result_simps intro!: codes_inv [OF d1])
  then show ?thesis
    using assms(1) d1
    by (auto simp: create_authorization_code_def d1_def [symmetric] Let_def split: if_split sum.split)
qed

lemma answer_consent_inv:
  assumes "answer_consent cr query_pairs with_pairs config user mine current team_id input plaintext now d0 d = (d', r)"
    and "list_all (\<lambda>m. is_member d (t_id (ms_team m)) (u_id user) \<or> (t_id (ms_team m), u_id user) \<in> late) (current # mine)" "team_inv late d"
  shows "team_inv late d'"
  using answer_consent_state [OF assms(1)] assms(2,3) create_code_inv by (auto simp: list_all_iff)

lemma exchange_commit_inv:
  assumes "exchange_commit cr client c plaintext fresh now d = Inr (d', tokens)"
    and "list_all (\<lambda>x. code_id x = code_id c \<longrightarrow> x = c) (rows (authorization_codes d))" "team_inv late d"
  shows "team_inv late d'"
proof -
  define d1 where "d1 = d\<lparr>authorization_codes := del (\<lambda>x. code_id x = code_id c) (authorization_codes d)\<rparr>"
  have "c \<in> set (rows (authorization_codes d))"
    using exchange_commit_Inr(2) [OF assms(1)] assms(2) by (auto simp: has_row_iff list_all_iff)
  then have "is_member d (code_team_id c) (code_user_id c) \<or> (code_team_id c, code_user_id c) \<in> late"
    using assms(3) by (simp add: team_inv_def creds_ok_def)
  then have "is_member d1 (ng_team_id (code_grant client c)) (ng_created_by (code_grant client c))
      \<or> (ng_team_id (code_grant client c), ng_created_by (code_grant client c)) \<in> late"
    by (simp add: d1_def is_member_def code_grant_def)
  then have "token_step late (sha256_hex cr) d1 d'"
    using exchange_commit_Inr(3) [OF assms(1)] by (auto simp: d1_def intro: token_step.grant)
  moreover have "team_inv late d1"
    unfolding d1_def by (rule codes_inv [OF assms(3)]) (auto simp: delete_where_def)
  ultimately show ?thesis using tokens.step_inv by blast
qed

lemma save_authenticator_inv: "team_inv late d \<Longrightarrow> team_inv late (fst (save_authenticator user secret confirmed step now d))"
  by (simp add: save_authenticator_def Let_def users_upd_inv_same)

lemma accept_code_inv:
  assumes "accept_authenticator_code h decrypt user code t d = (d', ok)" "team_inv late d"
  shows "team_inv late d'"
  using assms
  by (auto simp: accept_authenticator_code_def Let_def split: if_splits option.splits intro: users_upd_inv_same)

lemma reset_protection_inv:
  assumes "reset_protection actor i given now d0 d = Inr d'" "team_inv late d"
  shows "team_inv late d'"
proof -
  obtain account where d': "d' = remove_protection account now d"
    using assms(1) by (auto simp: reset_protection_def result_simps)
  have "apart (fst (disable_authenticator account now d)) d'"
    by (simp add: d' remove_protection_def recovery_delete_all_def Let_def apart_def same_people_def)
  then show ?thesis
    using save_authenticator_inv [OF assms(2)] apart_inv by (simp add: disable_authenticator_def)
qed

lemma authenticate_bearer_inv:
  assumes "authenticate_bearer sha parse origin config header now ms l d0 d = (l', d', answer)" "team_inv late d"
  shows "team_inv late d'"
proof -
  have "d' = d \<or> (\<exists>token. d' = touch_last_used token now d)"
    using assms(1) by (auto simp: authenticate_bearer_def Let_def
        split: option.split_asm if_split_asm prod.split_asm sum.split_asm LimiterError.split_asm)
  then show ?thesis
    using assms(2) tokens.step_inv [OF token_step.touch] by auto
qed

lemma call_tool_apart: "call_tool e s name args st = (st', v) \<Longrightarrow> apart (gw_db st) (gw_db st')"
  using call_tool_writes [of e s name args st st' v] approval_write_apart [OF approval_gate [OF order_refl]]
  unfolding gate_of_def by (metis apart_refl prod.collapse)

lemma oauth_step_inv:
  assumes "oauth_step upstream m flow d d'" "team_inv late d"
  shows "team_inv late d'"
proof -
  obtain m1 where wrote: "d' = d\<lparr>mcps := mcps d'\<rparr>" "list_all2 (wrote m m1) (rows (mcps d)) (rows (mcps d'))"
    using oauth_step_wrote [OF assms(1)] by blast
  have kept: "\<exists>r \<in> set (rows (mcps d)). mcp_team_id r' = mcp_team_id r \<and> mcp_created_by r' = mcp_created_by r" if "r' \<in> set (rows (mcps d'))" for r'
  proof -
    obtain n where n: "n < length (rows (mcps d'))" "rows (mcps d') ! n = r'" using \<open>r' \<in> _\<close> by (auto simp: in_set_conv_nth)
    have "wrote m m1 (rows (mcps d) ! n) r'" using list_all2_nthD2 [OF wrote(2) n(1)] n(2) by simp
    moreover have "rows (mcps d) ! n \<in> set (rows (mcps d))" using list_all2_lengthD [OF wrote(2)] n(1) by simp
    ultimately show ?thesis by (auto simp: wrote_def signs_in_def)
  qed
  have "refs_ok (d\<lparr>mcps := mcps d'\<rparr>)"
    using assms(2) kept by (fastforce simp: team_inv_def refs_ok_def)
  then have "team_inv late (d\<lparr>mcps := mcps d'\<rparr>)"
    using assms(2) by (simp add: team_inv_def team_inv_parts)
  then show ?thesis using wrote(1) by simp
qed

lemma create_remember_token_apart: "create_remember_token e secret ms user st = (st', r) \<Longrightarrow> apart (w_db st) (w_db st')"
  by (auto simp: create_remember_token_def insert_remember_token_def Let_def ensure_def apart_def same_people_def
      split: sum.split_asm prod.split_asm if_split_asm)

lemma sign_in_apart: "sign_in e secret ms user st = (st', r) \<Longrightarrow> apart (w_db st) (w_db st')"
  by (auto simp: sign_in_def dest: create_remember_token_apart split: sum.split_asm prod.split_asm)

lemma finish_sign_in_apart: "finish_sign_in e secret ms user q st = (st', r) \<Longrightarrow> apart (w_db st) (w_db st')"
  by (auto simp: finish_sign_in_def dest!: sign_in_apart split: sum.split_asm prod.split_asm)

lemma login_apart: "login e (Inr (mail, pass)) input headers ip q secret ms d0 st = (st', a) \<Longrightarrow> apart (w_db st) (w_db st')"
  by (auto simp: login_def Let_def dest!: sign_in_apart split: prod.split_asm sum.split_asm option.split_asm if_split_asm)

lemma second_step_inv:
  assumes "second_step e (Inr code) secret ms d0 st = (st', a)" "team_inv late (w_db st)"
  shows "team_inv late (w_db st')"
proof -
  obtain s1 awaited where p: "pending_sign_in ms d0 (w_session st) = (s1, awaited)" by fastforce
  show ?thesis
  proof (cases awaited)
    case None
    then show ?thesis using assms p by (auto simp: second_step_def)
  next
    case (Some uq)
    obtain user q where uq: "uq = (user, q)" by fastforce
    obtain d1 by_app where d1: "accept_authenticator_code (we_hmac_sha1 e) (we_decrypt e) user code (ms div 1000) (w_db st) = (d1, by_app)" by fastforce
    obtain d2 by_code where d2: "(if by_app then (d1, False) else recovery_consume (we_sha256_hex e) (u_id user) code (ms div 1000) d1) = (d2, by_code)"
      by fastforce
    have "apart d1 d2"
      using d2 by (auto simp: recovery_consume_def Let_def apart_def same_people_def split: if_split_asm)
    then have inv: "team_inv late d2" using accept_code_inv [OF d1 assms(2)] apart_inv by blast
    have "w_db st' = w_db st \<or> apart d2 (w_db st')"
      using assms(1) p Some uq d1 d2
      by (auto simp: second_step_def Let_def dest!: finish_sign_in_apart split: prod.split_asm sum.split_asm option.split_asm if_split_asm)
    then show ?thesis using assms(2) inv apart_inv by auto
  qed
qed

lemma passkey_apart:
  assumes "sign_in_with_passkey e (Some answer) ip secret ms d0 st = (st', a)"
  shows "apart (w_db st) (w_db st')"
proof -
  have "apart d (fst (record_use self assertion t d))" for self assertion t d
    by (simp add: record_use_def Let_def apart_def same_people_def)
  then have use: "apart d d1" if "record_use self assertion t d = (d1, ok)" for self assertion t d d1 ok
    using that by (metis fst_conv)
  obtain st1 c where c: "take_ceremony e ms st = (st1, c)" by fastforce
  then show ?thesis
    using assms take_ceremony_Some(2) [OF c]
    by (auto simp: sign_in_with_passkey_def Let_def dest!: finish_sign_in_apart dest: use intro: apart_trans
        split: prod.split_asm sum.split_asm option.split_asm if_split_asm)
qed

text \<open>The requests that make an account.\<close>

lemma sign_up_inv:
  assumes "register_handler e hash_password open_before open_now asked validated input headers ip q secret ms d0 st = (st', a)" "team_inv late (w_db st)"
  shows "team_inv late (w_db st')"
proof -
  have made: "team_inv late d1" if "register b user now (w_db st) = Inr (d1, u)" for b user now d1 u
    using that create_inv(1) [OF assms(2)] by (auto simp: register_def result_simps)
  show ?thesis
    using assms
    by (auto simp: register_handler_def greeted_def Let_def dest!: made sign_in_apart intro: apart_inv
        split: if_split_asm prod.split_asm option.split_asm sum.split_asm web_error.split_asm)
qed

lemma onboarding_inv:
  assumes "onboarding_handler e hash_password asked validated input headers q secret ms d0 st = (st', a)" "team_inv late (w_db st)"
  shows "team_inv late (w_db st')"
proof -
  have "setup_complete (w_db st)"
    using assms(2) by (auto simp: team_inv_def governed_def setup_complete_def count_rows_def count_where_pos_iff)
  then show ?thesis
    using assms by (auto simp: onboarding_handler_def onboarding_def split: sum.split_asm prod.split_asm)
qed

lemma invite_inv:
  assumes "accept_handler e hash_password user token validated input headers here q secret ms d0 st = (st', a)" "team_inv late (w_db st)"
  shows "team_inv late (w_db st')"
proof -
  have joined: "team_inv late d2" if "remember_team user t now d1 = Inr d2" "accept_signed_in user seen now (w_db st) = Inr (d1, i)" for user t now d1 d2 seen i
    using remember_team_inv [OF accept_signed_in_inv [OF assms(2) that(2)] that(1)] .
  have made: "team_inv late d1" if "accept_visitor user seen now (w_db st) = Inr (d1, u, i)" for user seen now d1 u i
    using accept_visitor_inv [OF assms(2) that] .
  show ?thesis
    using assms
    by (auto simp: accept_handler_def greeted_def other_account_def sign_in_first_def Let_def bind_eq_Some_conv
        dest: joined accept_signed_in_inv dest!: made sign_in_apart intro: apart_inv
        split: if_split_asm prod.split_asm option.split_asm sum.split_asm web_error.split_asm)
qed

lemma sign_in_step_inv: "sign_in_step e ms d0 what st st' \<Longrightarrow> team_inv late (w_db st) \<Longrightarrow> team_inv late (w_db st')"
  by (induction rule: sign_in_step.induct)
    (blast intro: apart_inv login_apart passkey_apart second_step_inv sign_up_inv onboarding_inv invite_inv)+

lemma authenticate_apart:
  assumes "authenticate e secret ms d0 st = (st', r)"
  shows "apart (w_db st) (w_db st')"
proof -
  have "apart d (d\<lparr>remember_me_tokens := t\<rparr>)" for d t by (simp add: apart_def same_people_def)
  then show ?thesis
    using assms
    by (fastforce simp: authenticate_def authenticate_via_remember_cookie_def go_on_def Let_def dest!: create_remember_token_apart
        intro: apart_trans split: prod.split_asm sum.split_asm option.split_asm)
qed

lemma web_teams_inv: "web_teams user ms st = (st', r) \<Longrightarrow> team_inv late (w_db st) \<Longrightarrow> team_inv late (w_db st')"
  by (auto simp: web_teams_def Let_def intro: resolve_teams_inv split: sum.split_asm)

lemma silent_auth_inv:
  assumes "silent_auth e secret ms d0 st = (st', r)" "team_inv late (w_db st)"
  shows "team_inv late (w_db st')"
proof -
  have who: "team_inv late (w_db st2)" if "authenticate e secret ms d0 st1 = (st2, x)" "team_inv late (w_db st1)" for st1 st2 x
    using that authenticate_apart apart_inv by blast
  show ?thesis
    using assms
    by (auto simp: silent_auth_def Let_def go_on_def dest!: who web_teams_inv split: prod.split_asm sum.split_asm option.split_asm if_split_asm)
qed

lemma system_step_inv:
  assumes "system_step late cr env d d'" "team_inv late d"
  shows "team_inv late d'"
  using assms
proof (induction rule: system_step.induct)
  case (of_registration l d l' d')
  then show ?case by (auto elim!: registration_stepE intro: register_client_inv)
next
  case (of_recovery u code now d d' ok)
  then show ?case
    by (intro apart_inv [of d d']) (auto simp: recovery_consume_def Let_def apart_def same_people_def)
next
  case (of_recovery_codes u picks now d d' codes)
  then obtain e where "insert_recovery_codes (sha256_hex cr) u codes now (recovery_delete_all u d) = Inr d'"
    by (auto simp: replace_all_def Let_def result_simps)
  moreover have "apart d (recovery_delete_all u d)"
    by (simp add: recovery_delete_all_def apart_def same_people_def)
  ultimately show ?case
    using of_recovery_codes(2) insert_recovery_codes_apart apart_trans apart_inv by blast
next
  case (of_passkey self assertion now d d' ok)
  then show ?case
    by (intro apart_inv [of d d']) (auto simp: record_use_def Let_def apart_def same_people_def)
next
  case (of_enabling encrypt user secret step now d d' user')
  then show ?case using save_authenticator_inv by (metis enable_authenticator_def fst_conv)
next
  case (of_disabling user now d d' user')
  then show ?case using save_authenticator_inv by (metis disable_authenticator_def fst_conv)
qed (blast intro: accounts.step_inv registry_step_inv tokens.step_inv answer_consent_inv exchange_commit_inv
    apart_inv [OF approval_write_apart] apart_inv [OF call_tool_apart] authenticate_bearer_inv accept_code_inv reset_protection_inv
    oauth_step_inv sign_in_step_inv silent_auth_inv own_rows_inv [OF settings_step_own])+

interpretation instance_run: invariant_system "system_step late cr env" "team_inv late" for late cr env
  by unfold_locales (rule system_step_inv)

section \<open>Properties\<close>

text \<open>C1: From the first account on, whatever requests are answered in whatever order, every team has an
  owner, the instance has a super admin, no membership is doubled, and every membership, MCP, access token, authorization code and
  invite names a team and an account that exist, every tailnet a team that exists. Every live access token and every authorization code belongs
  to a member of its team, with one exception, for any set of pairs of a team and an account: those in the set may lose their membership
  while a request of theirs for a token or a consent is under way, and that request still writes (how a token of all MCPs comes of it is C34); nobody outside the set ever holds a
  live token or a code of a team that they are not in. It
  holds across all modelled components: accounts and teams, invites, MCPs and tailnets, tokens, OAuth, registrations,
  approvals, bearer checks, tool calls, sign-in protection, sign-ins and sign-ups on the web, sign-ins at upstream providers, account settings, each writing on what
  others left.\<close>

theorem instance_stays_sound:
  assumes "onboarding user now (migrated_db t) = Inr (d, first)"
    and "(system_step late cr env)\<^sup>*\<^sup>* d d'"
  shows "owned d' \<and> governed d' \<and> creds_ok late d' \<and> members_ok d' \<and> refs_ok d'"
proof -
  have "\<not> setup_complete (migrated_db t)" by (simp add: setup_complete_def migrated_db_def count_rows_def)
  then have "team_inv late d"
    using assms(1) create_first_inv by (auto simp: onboarding_def result_simps)
  from instance_run.reachable_inv [OF assms(2) this] show ?thesis
    by (simp add: team_inv_def)
qed

theorem instance_stays_sound_witness:
  "\<exists>d first d'. onboarding (sample_user 0 ''ann@x'' True) 5 (migrated_db 1) = Inr (d, first)
     \<and> update_team sample_seat ''Ours'' None 9 d = d' \<and> owned d' \<and> governed d' \<and> creds_ok {} d'"
proof -
  have "is_ok (onboarding (sample_user 0 ''ann@x'' True) 5 (migrated_db 1))" by code_simp
  then obtain d first where d: "onboarding (sample_user 0 ''ann@x'' True) 5 (migrated_db 1) = Inr (d, first)"
    by (auto simp: is_ok_iff)
  have step: "system_step {} sample_crates sample_env d (update_team sample_seat ''Ours'' None 9 d)"
    by (intro of_account account_step.update_team)
  show ?thesis
    using instance_stays_sound [OF d r_into_rtranclp [of "system_step {} sample_crates sample_env", OF step]] d by blast
qed

section \<open>From a request to an MCP\<close>

lemma handle_Served:
  assumes "handle sha parse origin config lowercase headers caller_ip management settings now ms l d0 d = (l', d', Served s instructions)"
  obtains access where
    "authenticate_bearer sha parse origin config (first_header_value headers ''authorization'') now ms l d0 d = (l', d', Inr access)"
    "ss_access_token s = ba_access_token access" "ss_mcps s = ba_allowed_mcps access"
  using assms
  by (auto simp: handle_def handle_authenticated_def split: prod.split_asm sum.split_asm option.split_asm)

lemma call_tool_calls:
  assumes "call_tool e s name args st = (st', v)" and "gw_effects st' = gw_effects st @ [Called mcp tool a]"
  shows "mcp \<in> set (ss_mcps s) \<and> gate_of e s mcp tool a (gw_db st) = (gw_db st', Inr Open)"
proof (cases rule: call_tool_cases [of s name e args st])
  case registry
  then show ?thesis using assms registry_effects [of e s name args st st' v] by auto
next
  case recorded
  show ?thesis using recorded(2)
  proof
    assume "forwarded_call e s st (call_tool e s name args st)"
    then obtain m requested t b where c: "m \<in> set (ss_mcps s)" "call_and_record e s m requested t b st = (st', v)"
      using assms(1) by (auto simp: forwarded_call_def)
    from call_and_record_effects [OF c(2)] show ?thesis using c(1) assms(2) by auto
  next
    assume "rejected_call e s st (call_tool e s name args st)"
    then show ?thesis using assms by (auto simp: rejected_call_def record_error_def session_record_def)
  qed
next
  case lookup
  then show ?thesis using assms by (auto simp: looked_up_def)
qed

text \<open>C2: From a request to an MCP, end to end. Take a request to \<open>/mcp\<close> that is served, whatever other requests wrote between what it read and what it
  wrote, and a tool call of it that reaches an MCP. Then the request presented an access token that is neither revoked nor expired; the MCP is of the token's
  team, enabled, and within what the token may use; and the tool is one that runs
  by itself, unless a person's approval of this very call was spent on it.\<close>

theorem request_reaches_own_mcps:
  assumes "handle sha parse origin config lowercase headers caller_ip management settings now ms l d0 d = (l', d', Served s instructions)"
    and "call_tool e s name args st = (st', v)"
    and "gw_effects st' = gw_effects st @ [Called mcp tool a]"
    and "table_ok ar_id (approval_requests (gw_db st))"
  shows "\<exists>token \<in> set (rows (access_tokens d0)).
      presented sha (first_header_value headers ''authorization'') token \<and> is_usable token now
      \<and> mcp \<in> set (rows (mcps d)) \<and> mcp_enabled mcp \<and> mcp_team_id mcp = at_team_id token
      \<and> (scope_mode token = ScopeAll \<or> mcp_id mcp \<in> set (links_of d (at_id token)))
      \<and> (tool_approval_mode (ce_from_str e) (ce_asks e) mcp tool = Auto \<or> approved_call e s mcp tool a st st')"
proof -
  obtain access where access:
    "authenticate_bearer sha parse origin config (first_header_value headers ''authorization'') now ms l d0 d = (l', d', Inr access)"
    "ss_access_token s = ba_access_token access" "ss_mcps s = ba_allowed_mcps access"
    using handle_Served [OF assms(1)] .
  obtain credentials token where o:
    "bearer_credentials (first_header_value headers ''authorization'') = Some credentials" "trim credentials \<noteq> []"
    "find_usable_by_plaintext sha d0 (trim credentials) now = Some token" "d' = touch_last_used token now d"
    "access = \<lparr>ba_access_token = touched token now, ba_allowed_mcps = resolve_allowed_mcps d' (touched token now)\<rparr>"
    using authenticate_bearer_Inr [OF access(1)] by metis
  have token: "token \<in> set (rows (access_tokens d0))" "token_hash token = sha (trim credentials)" "is_usable token now"
    using o(3) by (auto simp: find_usable_by_plaintext_def split: option.split_asm if_split_asm dest!: find_row_Some)
  have "presented sha (first_header_value headers ''authorization'') token"
    using o(1,2) token(2)
    by (auto simp: presented_def bearer_credentials_def split_at_checked_def split: option.split_asm if_split_asm)
  moreover note called = call_tool_calls [OF assms(2,3)]
  moreover from this have "mcp \<in> set (rows (mcps d)) \<and> mcp_enabled mcp \<and> mcp_team_id mcp = at_team_id token
      \<and> (scope_mode token = ScopeAll \<or> mcp_id mcp \<in> set (links_of d (at_id token)))"
    by (auto simp: access(3) o(4,5) resolve_allowed_mcps_def links_of_iff)
  moreover have "tool_approval_mode (ce_from_str e) (ce_asks e) mcp tool = Auto \<or> approved_call e s mcp tool a st st'"
    using called assms(4) open_gate_approved by blast
  ultimately show ?thesis using token by blast
qed

text \<open>Ann's token calls \<open>s\<close>, which runs by itself.\<close>

definition plain_env :: call_env where
  "plain_env = (sample_call_env (Answered JNull))\<lparr>ce_asks := (\<lambda>_ _. False)\<rparr>"

definition plain_handle :: "Limiter \<times> db \<times> gateway_answer" where
  "plain_handle = handle (\<lambda>s. s) (\<lambda>_. None) url_text \<lparr>app_url = None, is_development = False, is_test = False\<rparr> (\<lambda>s. s)
     [(''authorization'', ''Bearer h3'')] None False (current_settings 0 None) 50 0 gateway_rate_limiter sample_db sample_db"

lemma plain_handle_served:
  "\<exists>l' d' s. plain_handle = (l', d', Served s None) \<and> ss_mcps s = [sample_mcp 1 1 2] \<and> ss_tool_mode s = Eager \<and> \<not> ss_has_management s"
proof -
  let ?token = "sample_token 3 1 1"
  have b: "bearer_credentials (Some ''Bearer h3'') = Some ''h3''" by code_simp
  have t: "trim ''h3'' = ''h3''" by code_simp
  have h: "first_header_value [(''authorization'', ''Bearer h3'')] ''authorization'' = Some ''Bearer h3''" by code_simp
  have n: "header_value [(''authorization'', ''Bearer h3'')] TOOL_MODE_HEADER = None"
    by (simp add: header_value_def TOOL_MODE_HEADER_def)
  have f: "find_usable_by_plaintext (\<lambda>s. s) sample_db ''h3'' 50 = Some ?token" by code_simp
  have ok: "has_valid_oauth_audience_and_scope parse origin config ?token" for parse origin config
    by (simp add: has_valid_oauth_audience_and_scope_def sample_token_def)
  have "is_ok (snd (consume gateway_rate_limiter (limiter_key ?token) 0))"
    by (simp add: consume_unfold gateway_rate_limiter_def limiter_memory_def GATEWAY_REQUESTS_PER_MINUTE_def limiter_bump_def
        memory_add_def memory_sweep_def SWEEP_INTERVAL_MS_def Let_def)
  then obtain l' response where c: "consume gateway_rate_limiter (limiter_key ?token) 0 = (l', Inr response)"
    by (metis is_ok_iff prod.collapse)
  have "resolve_allowed_mcps (touch_last_used ?token 50 sample_db) (touched ?token 50) = [sample_mcp 1 1 2]" by code_simp
  then show ?thesis
    by (simp add: plain_handle_def handle_def h authenticate_bearer_def b t f ok c Let_def handle_authenticated_def n
        parse_gateway_tool_mode_def current_settings_def)
qed

theorem request_reaches_own_mcps_witness:
  "\<exists>token \<in> set (rows (access_tokens sample_db)).
      presented (\<lambda>s. s) (Some ''Bearer h3'') token \<and> is_usable token 50 \<and> mcp_team_id (sample_mcp 1 1 2) = at_team_id token"
proof -
  obtain l' d' s where served: "plain_handle = (l', d', Served s None)" "ss_mcps s = [sample_mcp 1 1 2]" "ss_tool_mode s = Eager" "\<not> ss_has_management s"
    using plain_handle_served by blast
  have "can_be_chosen ''s''" by code_simp
  then have auto_mode: "tool_approval_mode (\<lambda>_. None) (\<lambda>_ _. False) (sample_mcp 1 1 2) ''s'' = Auto"
    by (simp add: tool_approval_mode_def saved_tool_approvals_def sample_mcp_def non_empty_def mode_of_def default_tool_approval_def)
  have parsed: "parse_namespaced_tool ''m__s'' = Some (''m'', ''s'')" by code_simp
  have "call_tool plain_env s ''m__s'' None sample_state = call_and_record plain_env s (sample_mcp 1 1 2) ''m__s'' ''s'' None sample_state"
    using served(2-4) by (simp add: call_tool_def call_namespaced_tool_def parsed session_mcp_def) (simp add: sample_mcp_def)
  then have "gw_effects (fst (call_tool plain_env s ''m__s'' None sample_state)) = [Called (sample_mcp 1 1 2) ''s'' None]"
    by (simp add: call_and_record_kept attempt_call_def gate_def plain_env_def sample_call_env_def auto_mode emit_def sample_state_def Let_def)
  then obtain st' v where call: "call_tool plain_env s ''m__s'' None sample_state = (st', v)"
      "gw_effects st' = gw_effects sample_state @ [Called (sample_mcp 1 1 2) ''s'' None]"
    by (cases "call_tool plain_env s ''m__s'' None sample_state") (simp add: sample_state_def)
  have ok: "table_ok ar_id (approval_requests (gw_db sample_state))"
    by (simp add: sample_state_def table_ok_def approval_sample_defs)
  have header: "first_header_value [(''authorization'', ''Bearer h3'')] ''authorization'' = Some ''Bearer h3''" by code_simp
  from request_reaches_own_mcps [OF served(1) [unfolded plain_handle_def] call ok]
  show ?thesis unfolding header by blast
qed

end
